(* ===== verification/Upb_Prelude.thy ===== *)
theory Upb_Prelude
  imports Main "HOL-Library.Word"
begin

text \<open>
  Shared vocabulary of the development: the machine types of the C sources, the outcomes of a
  fallible operation, and generic lemmas on lists and words.

  A C function that may fail is a function into \<open>'a res\<close>: \<open>Inr\<close> is a normal return,
  \<open>Inl\<close> a fault. Faults cover what C leaves undefined (a read or write outside an object), a
  failed \<open>UPB_ASSERT\<close>, an \<open>UPB_UNREACHABLE\<close> that is reached, a \<open>longjmp\<close> to the error handler
  with its status code, and fuel that ran out in a model of an unbounded loop. Theorems that say
  an operation is safe state that its result is none of the first three and the last.
\<close>

unbundle bit_operations_syntax

type_synonym byte = "8 word"
type_synonym u16 = "16 word"
type_synonym u32 = "32 word"
type_synonym u64 = "64 word"

text \<open>\<open>upb_ErrorCode\<close> and the decoder's and encoder's status codes that extend it.\<close>

datatype status_code =
    Malformed
  | OutOfMemory
  | BadUtf8
  | MaxDepthExceeded
  | MissingRequired
  | UnlinkedSubMessage
  | MaxSizeExceeded

datatype fault =
    OutOfBounds
  | AssertFailed
  | Unreachable
  | OutOfFuel
  | Thrown status_code

type_synonym 'a res = "fault + 'a"

definition bindE :: "'a res \<Rightarrow> ('a \<Rightarrow> 'b res) \<Rightarrow> 'b res" where
  "bindE m f = (case m of Inl e \<Rightarrow> Inl e | Inr a \<Rightarrow> f a)"

lemma bindE_Inl [simp]: "bindE (Inl e) f = Inl e"
  by (simp add: bindE_def)

lemma bindE_Inr [simp]: "bindE (Inr a) f = f a"
  by (simp add: bindE_def)

lemma bindE_eq_Inr: "bindE m f = Inr b \<longleftrightarrow> (\<exists>a. m = Inr a \<and> f a = Inr b)"
  by (cases m) auto

lemma bindE_eq_Inl: "bindE m f = Inl e \<longleftrightarrow> m = Inl e \<or> (\<exists>a. m = Inr a \<and> f a = Inl e)"
  by (cases m) auto

lemma bindE_assoc: "bindE (bindE m f) g = bindE m (\<lambda>a. bindE (f a) g)"
  by (cases m) auto

lemma bindE_cong [fundef_cong]:
  "m = m' \<Longrightarrow> (\<And>a. m' = Inr a \<Longrightarrow> f a = g a) \<Longrightarrow> bindE m f = bindE m' g"
  by (cases m') auto

text \<open>A result that is a normal return or a \<open>longjmp\<close>: nothing undefined happened.\<close>

definition safe :: "'a res \<Rightarrow> bool" where
  "safe r \<longleftrightarrow> (case r of Inr _ \<Rightarrow> True | Inl (Thrown _) \<Rightarrow> True | Inl _ \<Rightarrow> False)"

lemma safe_Inr [simp]: "safe (Inr a)"
  by (simp add: safe_def)

lemma safe_Thrown [simp]: "safe (Inl (Thrown c))"
  by (simp add: safe_def)

lemma safe_bindE: "safe m \<Longrightarrow> (\<And>a. m = Inr a \<Longrightarrow> safe (f a)) \<Longrightarrow> safe (bindE m f)"
  by (cases m) (auto simp: safe_def split: fault.splits)

definition assertE :: "bool \<Rightarrow> unit res" where
  "assertE b = (if b then Inr () else Inl AssertFailed)"

lemma assertE_True [simp]: "assertE True = Inr ()"
  by (simp add: assertE_def)

lemma assertE_eq [simp]: "assertE b = Inr u \<longleftrightarrow> b"
  by (simp add: assertE_def)

text \<open>The conversion of a \<open>ptrdiff_t\<close> to a C \<open>int\<close>, which keeps the low 32 bits.\<close>

definition int_of_ptrdiff :: "int \<Rightarrow> int" where
  "int_of_ptrdiff d = sint (word_of_int d :: 32 word)"

lemma int_of_ptrdiff_id: "- (2 ^ 31) \<le> d \<Longrightarrow> d < 2 ^ 31 \<Longrightarrow> int_of_ptrdiff d = d"
  unfolding int_of_ptrdiff_def
  by (simp add: signed_of_int signed_take_bit_int_eq_self)

text \<open>Generic list facts.\<close>

lemma nth_take_drop: "i < n \<Longrightarrow> k + i < length xs \<Longrightarrow> take n (drop k xs) ! i = xs ! (k + i)"
  by simp

text \<open>The continuation bit of a varint byte.\<close>

lemma byte_lt: "unat (b::byte) < 256"
  using unsigned_less[of b] by simp

lemma byte_bit7: "bit (b::byte) 7 \<longleftrightarrow> 128 \<le> unat b"
proof -
  have "bit b 7 \<longleftrightarrow> bit (unat b) 7"
    by (simp add: bit_unsigned_iff)
  also have "\<dots> \<longleftrightarrow> odd (unat b div 128)"
    by (simp add: bit_iff_odd)
  also have "\<dots> \<longleftrightarrow> 128 \<le> unat b"
  proof (cases "unat b < 128")
    case False
    then have "unat b div 128 = 1"
      using byte_lt[of b] by auto
    with False show ?thesis by simp
  qed simp
  finally show ?thesis .
qed

lemma byte_cont_iff: "(b::byte) AND 0x80 = 0 \<longleftrightarrow> unat b < 128"
proof -
  have "(0x80::byte) = 2 ^ 7" by simp
  then show ?thesis
    using byte_bit7[of b] by (simp only: and_exp_eq_0_iff_not_bit) auto
qed

lemma byte_cont_iff64: "(ucast (b::byte) :: u64) AND 0x80 = 0 \<longleftrightarrow> unat b < 128"
proof -
  have "(0x80::u64) = 2 ^ 7" by simp
  then show ?thesis
    using byte_bit7[of b] by (simp only: and_exp_eq_0_iff_not_bit) (auto simp: bit_unsigned_iff)
qed

text \<open>Words in memory, least significant byte first.\<close>

primrec le_nat :: "byte list \<Rightarrow> nat" where
  "le_nat [] = 0"
| "le_nat (b # bs) = unat b + 256 * le_nat bs"

definition le_word :: "byte list \<Rightarrow> 'a::len word" where
  "le_word bs = word_of_nat (le_nat bs)"

definition le_bytes :: "nat \<Rightarrow> 'a::len word \<Rightarrow> byte list" where
  "le_bytes n w = map (\<lambda>i. ucast (drop_bit (8 * i) w)) [0..<n]"

lemma length_le_bytes [simp]: "length (le_bytes n w) = n"
  by (simp add: le_bytes_def)

lemma le_nat_le_bytes: "le_nat (map (\<lambda>i. ucast (drop_bit (8 * i) (w::'a::len word))) [k..<k + n]) =
    (unat w div 256 ^ k) mod 256 ^ n"
proof (induction n arbitrary: k)
  case (Suc n)
  have "unat (ucast (drop_bit (8 * k) w) :: byte) = (unat w div 256 ^ k) mod 256"
    by (simp add: unsigned_ucast_eq take_bit_eq_mod unat_drop_bit_eq)
      (simp add: drop_bit_eq_div power_mult)
  moreover have "k + Suc n = Suc k + n" by simp
  moreover have "[k..<Suc k + n] = k # [Suc k..<Suc k + n]" by (simp add: upt_conv_Cons)
  ultimately have "le_nat (map (\<lambda>i. ucast (drop_bit (8 * i) w)) [k..<k + Suc n]) =
      (unat w div 256 ^ k) mod 256 + 256 * ((unat w div 256 ^ Suc k) mod 256 ^ n)"
    using Suc.IH[of "Suc k"] by simp
  also have "\<dots> = (unat w div 256 ^ k) mod 256 ^ Suc n"
    by (simp add: mod_mult2_eq mult.commute flip: div_mult2_eq)
  finally show ?case .
qed simp

lemma le_word_le_bytes:
  assumes "LENGTH('a) = 8 * n"
  shows "le_word (le_bytes n (w::'a::len word)) = w"
proof -
  have "unat w < 256 ^ n"
    using unsigned_less[of w] assms by (simp add: power_mult)
  then have "le_nat (le_bytes n w) = unat w"
    using le_nat_le_bytes[of w 0 n] by (simp add: le_bytes_def)
  then show ?thesis by (simp add: le_word_def)
qed

end
