(* ===== verification/Utf8_Range.thy ===== *)
theory Utf8_Range
  imports Upb_Prelude
begin

text \<open>
  UTF-8: the validator of \<open>third_party/utf8_range/utf8_range.c\<close> in its portable form (the ASCII skip,
  eight bytes at a time, and the byte-wise check), the reference validator \<open>naive.c\<close> next to it, and
  the code points of \<open>upb/lex/unicode.c\<close> and \<open>unicode.h\<close>. Data is a byte list, and the pointer a
  suffix of it. The lemmas show that the validators accept exactly the concatenations of encoded
  Unicode scalar values, and that \<open>upb_Unicode_ToUTF8\<close> is that encoding.
\<close>

subsection \<open>Code points\<close>

definition upb_Unicode_IsHigh :: "u32 \<Rightarrow> bool" where
  "upb_Unicode_IsHigh cp \<longleftrightarrow> cp \<ge> 0xd800 \<and> cp \<le> 0xdbff"

definition upb_Unicode_IsLow :: "u32 \<Rightarrow> bool" where
  "upb_Unicode_IsLow cp \<longleftrightarrow> cp \<ge> 0xdc00 \<and> cp \<le> 0xdfff"

definition upb_Unicode_ToHigh :: "u32 \<Rightarrow> u16" where
  "upb_Unicode_ToHigh cp = ucast (drop_bit 10 cp + 0xd7c0)"

definition upb_Unicode_ToLow :: "u32 \<Rightarrow> u16" where
  "upb_Unicode_ToLow cp = ucast ((cp AND 0x3ff) OR 0xdc00)"

definition upb_Unicode_FromPair :: "u32 \<Rightarrow> u32 \<Rightarrow> u32" where
  "upb_Unicode_FromPair high low = push_bit 10 (high AND 0x3ff) + (low AND 0x3ff) + 0x10000"

text \<open>The bytes written to \<open>out\<close>; the return value is their number, 0 on error.\<close>

definition upb_Unicode_ToUTF8 :: "u32 \<Rightarrow> byte list" where
  "upb_Unicode_ToUTF8 cp =
     (if cp \<le> 0x7f then [ucast cp]
      else if cp \<le> 0x07ff then
        [ucast (drop_bit 6 cp OR 0xc0), ucast ((cp AND 0x3f) OR 0x80)]
      else if cp \<le> 0xffff then
        [ucast (drop_bit 12 cp OR 0xe0), ucast ((drop_bit 6 cp AND 0x3f) OR 0x80),
         ucast ((cp AND 0x3f) OR 0x80)]
      else if cp \<le> 0x10ffff then
        [ucast (drop_bit 18 cp OR 0xf0), ucast ((drop_bit 12 cp AND 0x3f) OR 0x80),
         ucast ((drop_bit 6 cp AND 0x3f) OR 0x80), ucast ((cp AND 0x3f) OR 0x80)]
      else [])"

subsection \<open>The validators\<close>

definition utf8_range_AsciiIsAscii :: "byte \<Rightarrow> bool" where
  "utf8_range_AsciiIsAscii c \<longleftrightarrow> c < 128"

text \<open>The comparison is between signed characters.\<close>

definition utf8_range_IsTrailByteOk :: "byte \<Rightarrow> bool" where
  "utf8_range_IsTrailByteOk c \<longleftrightarrow> sint c \<le> sint (0xBF :: byte)"

text \<open>
  The body of the loop: how many bytes the code point at the front has, \<open>None\<close> for the return
  inside the loop.
\<close>

definition codepoint_bytes :: "byte list \<Rightarrow> nat option" where
  "codepoint_bytes data =
     (let len = length data; byte1 = data ! 0
      in if utf8_range_AsciiIsAscii byte1 then Some 1
         else if len \<ge> 2 \<and> byte1 \<ge> 0xC2 \<and> byte1 \<le> 0xDF \<and> utf8_range_IsTrailByteOk (data ! 1)
         then Some 2
         else if len \<ge> 3 then
           let byte2 = data ! 1; byte3 = data ! 2
           in if \<not> utf8_range_IsTrailByteOk byte2 \<or> \<not> utf8_range_IsTrailByteOk byte3 then None
              else if byte1 = 0xE0 \<and> byte2 \<ge> 0xA0 \<or> byte1 \<ge> 0xE1 \<and> byte1 \<le> 0xEC \<or>
                      byte1 = 0xED \<and> byte2 \<le> 0x9F \<or> byte1 \<ge> 0xEE \<and> byte1 \<le> 0xEF
              then Some 3
              else if len \<ge> 4 then
                let byte4 = data ! 3
                in if \<not> utf8_range_IsTrailByteOk byte4 then None
                   else if byte1 = 0xF0 \<and> byte2 \<ge> 0x90 \<or> byte1 \<ge> 0xF1 \<and> byte1 \<le> 0xF3 \<or>
                           byte1 = 0xF4 \<and> byte2 \<le> 0x8F
                   then Some 4 else None
              else None
         else None)"

lemma codepoint_bytes_pos: "codepoint_bytes data = Some n \<Longrightarrow> 1 \<le> n \<and> n \<le> 4"
  by (auto simp: codepoint_bytes_def Let_def split: if_splits)

function utf8_naive_loop :: "bool \<Rightarrow> byte list \<Rightarrow> nat \<Rightarrow> nat \<Rightarrow> nat" where
  "utf8_naive_loop return_position data cpb err_pos =
     (if cpb < length data then
        let err_pos = if return_position then err_pos + cpb else err_pos;
            data = drop cpb data
        in case codepoint_bytes data of
             None \<Rightarrow> err_pos
           | Some n \<Rightarrow> utf8_naive_loop return_position data n err_pos
      else (if return_position then err_pos + cpb else err_pos) +
           (1 - (if return_position then 1 else 0)))"
  by pat_completeness auto
termination
  by (relation "measure (\<lambda>(rp, data, cpb, err). length data - cpb)")
    (auto dest!: codepoint_bytes_pos)

declare utf8_naive_loop.simps [simp del]

definition utf8_range_ValidateUTF8Naive :: "byte list \<Rightarrow> bool \<Rightarrow> nat" where
  "utf8_range_ValidateUTF8Naive data return_position = utf8_naive_loop return_position data 0 0"

function skip_ascii8 :: "byte list \<Rightarrow> byte list" where
  "skip_ascii8 data =
     (if 8 \<le> length data \<and> (le_word (take 8 data) :: u64) AND 0x8080808080808080 = 0
      then skip_ascii8 (drop 8 data) else data)"
  by pat_completeness auto
termination by (relation "measure length") auto

declare skip_ascii8.simps [simp del]

definition utf8_range_SkipAscii :: "byte list \<Rightarrow> byte list" where
  "utf8_range_SkipAscii data = dropWhile utf8_range_AsciiIsAscii (skip_ascii8 data)"

definition utf8_range_Validate :: "byte list \<Rightarrow> bool \<Rightarrow> nat" where
  "utf8_range_Validate data return_position =
     (if data = [] then 1 - (if return_position then 1 else 0)
      else
        let rest = utf8_range_SkipAscii data
        in (if return_position then length data - length rest else 0) +
           utf8_range_ValidateUTF8Naive rest return_position)"

definition utf8_range_IsValid :: "byte list \<Rightarrow> bool" where
  "utf8_range_IsValid data \<longleftrightarrow> utf8_range_Validate data False \<noteq> 0"

definition utf8_range_ValidPrefix :: "byte list \<Rightarrow> nat" where
  "utf8_range_ValidPrefix data = utf8_range_Validate data True"

text \<open>The reference validator of \<open>naive.c\<close>: 0, or the position of the first error counted from 1.\<close>

definition naive_bytes :: "byte list \<Rightarrow> nat option" where
  "naive_bytes data =
     (let len = length data; byte1 = data ! 0
      in if byte1 \<le> 0x7F then Some 1
         else if len \<ge> 2 \<and> byte1 \<ge> 0xC2 \<and> byte1 \<le> 0xDF \<and> sint (data ! 1) \<le> sint (0xBF :: byte)
         then Some 2
         else if len \<ge> 3 then
           let byte2 = data ! 1;
               byte2_ok = sint byte2 \<le> sint (0xBF :: byte);
               byte3_ok = sint (data ! 2) \<le> sint (0xBF :: byte)
           in if byte2_ok \<and> byte3_ok \<and>
                 (byte1 = 0xE0 \<and> byte2 \<ge> 0xA0 \<or> byte1 \<ge> 0xE1 \<and> byte1 \<le> 0xEC \<or>
                  byte1 = 0xED \<and> byte2 \<le> 0x9F \<or> byte1 \<ge> 0xEE \<and> byte1 \<le> 0xEF)
              then Some 3
              else if len \<ge> 4 then
                let byte4_ok = sint (data ! 3) \<le> sint (0xBF :: byte)
                in if byte2_ok \<and> byte3_ok \<and> byte4_ok \<and>
                      (byte1 = 0xF0 \<and> byte2 \<ge> 0x90 \<or> byte1 \<ge> 0xF1 \<and> byte1 \<le> 0xF3 \<or>
                       byte1 = 0xF4 \<and> byte2 \<le> 0x8F)
                   then Some 4 else None
              else None
         else None)"

lemma naive_bytes_eq: "naive_bytes data = codepoint_bytes data"
proof -
  have "(x \<le> 0x7F) = (x < (128::byte))" for x
    by (simp add: word_le_nat_alt word_less_nat_alt) linarith
  then show ?thesis
    by (auto simp: naive_bytes_def codepoint_bytes_def Let_def utf8_range_AsciiIsAscii_def
        utf8_range_IsTrailByteOk_def)
qed

function naive_scan :: "byte list \<Rightarrow> nat \<Rightarrow> nat" where
  "naive_scan data err_pos =
     (if data \<noteq> [] then
        case naive_bytes data of
          None \<Rightarrow> err_pos
        | Some bytes \<Rightarrow> naive_scan (drop bytes data) (err_pos + bytes)
      else 0)"
  by pat_completeness auto
termination
  by (relation "measure (\<lambda>(data, err_pos). length data)")
    (auto simp: naive_bytes_eq dest!: codepoint_bytes_pos)

declare naive_scan.simps [simp del]

definition utf8_naive :: "byte list \<Rightarrow> nat" where
  "utf8_naive data = naive_scan data 1"

subsection \<open>Well-formed UTF-8\<close>

text \<open>
  The standard's definition: a sequence of scalar values (no surrogates, at most U+10FFFF), each
  encoded in one to four bytes.
\<close>

definition scalar_value :: "nat \<Rightarrow> bool" where
  "scalar_value cp \<longleftrightarrow> cp < 0xd800 \<or> 0xe000 \<le> cp \<and> cp \<le> 0x10ffff"

definition utf8_of :: "nat \<Rightarrow> byte list" where
  "utf8_of cp =
     map of_nat
       (if cp < 0x80 then [cp]
        else if cp < 0x800 then [0xc0 + cp div 64, 0x80 + cp mod 64]
        else if cp < 0x10000 then [0xe0 + cp div 4096, 0x80 + cp div 64 mod 64, 0x80 + cp mod 64]
        else [0xf0 + cp div 262144, 0x80 + cp div 4096 mod 64, 0x80 + cp div 64 mod 64,
              0x80 + cp mod 64])"

definition wf_utf8 :: "byte list \<Rightarrow> bool" where
  "wf_utf8 bs \<longleftrightarrow> (\<exists>cps. (\<forall>cp \<in> set cps. scalar_value cp) \<and> bs = concat (map utf8_of cps))"

lemma uint_byte: "0 \<le> uint (c::byte)" "uint c < 256" "unat c = nat (uint c)"
  using unsigned_less[of c, where 'a = int] by auto

lemma byte_sint: "sint (c::byte) = (if uint c < 128 then uint c else uint c - 256)"
proof (cases "uint c < 128")
  case True
  then show ?thesis
    using uint_byte(1)[of c] unfolding sint_uint
    by (subst signed_take_bit_int_eq_self) (simp_all del: uint_lt_0 uint_ge_0 add: order_trans[OF _ uint_byte(1)])
next
  case False
  then have "128 \<le> unat c" unfolding uint_byte(3) by arith
  then have "bit c 7" using byte_bit7[of c] by simp
  then have "bit (uint c) 7" by (simp add: bit_unsigned_iff)
  then show ?thesis
    using False uint_byte(2)[of c]
    by (simp add: sint_uint signed_take_bit_eq_take_bit_minus take_bit_int_eq_self)
qed

lemma trail_ok_iff: "utf8_range_IsTrailByteOk c \<longleftrightarrow> 128 \<le> unat c \<and> unat c \<le> 191"
proof -
  have s: "sint (0xBF :: byte) = - 65" by simp
  show ?thesis
    unfolding utf8_range_IsTrailByteOk_def s unfolding byte_sint uint_byte(3) using uint_byte(1,2)[of c] by arith
qed

lemmas byte_order = word_le_nat_alt word_less_nat_alt word_eq_iff_unsigned[where 'a = nat]

text \<open>The tests of the loop body in terms of the values of the bytes.\<close>

lemma codepoint_bytes_nat:
  "data \<noteq> [] \<Longrightarrow> codepoint_bytes data =
     (let b = (\<lambda>i. unat (data ! i)); len = length data; trail = (\<lambda>i. 128 \<le> b i \<and> b i \<le> 191)
      in if b 0 < 128 then Some 1
         else if 2 \<le> len \<and> 0xC2 \<le> b 0 \<and> b 0 \<le> 0xDF \<and> trail 1 then Some 2
         else if 3 \<le> len \<and> trail 1 \<and> trail 2 \<and>
                 (b 0 = 0xE0 \<and> 0xA0 \<le> b 1 \<or> 0xE1 \<le> b 0 \<and> b 0 \<le> 0xEC \<or>
                  b 0 = 0xED \<and> b 1 \<le> 0x9F \<or> 0xEE \<le> b 0 \<and> b 0 \<le> 0xEF) then Some 3
         else if 4 \<le> len \<and> trail 1 \<and> trail 2 \<and> trail 3 \<and>
                 (b 0 = 0xF0 \<and> 0x90 \<le> b 1 \<or> 0xF1 \<le> b 0 \<and> b 0 \<le> 0xF3 \<or>
                  b 0 = 0xF4 \<and> b 1 \<le> 0x8F) then Some 4
         else None)"
  by (auto simp: codepoint_bytes_def Let_def utf8_range_AsciiIsAscii_def trail_ok_iff byte_order)

lemma unat_byte: "n < 256 \<Longrightarrow> unat (of_nat n :: byte) = n"
  by (simp add: unat_of_nat)

lemma byte_of_nat: "n < 256 \<Longrightarrow> unat (b::byte) = n \<longleftrightarrow> b = of_nat n"
  by (auto simp: unat_of_nat of_nat_unat)


lemma digits64:
  "(n::nat) = n div 4096 * 4096 + n div 64 mod 64 * 64 + n mod 64"
  "n = n div 262144 * 262144 + n div 4096 mod 64 * 4096 + n div 64 mod 64 * 64 + n mod 64"
proof -
  have d: "n div 4096 = n div 64 div 64" "n div 262144 = n div 4096 div 64"
    by (simp_all add: div_mult2_eq[symmetric])
  have "n = n div 64 * 64 + n mod 64" "n div 64 = n div 64 div 64 * 64 + n div 64 mod 64"
    "n div 4096 = n div 4096 div 64 * 64 + n div 4096 mod 64"
    by (simp_all only: div_mult_mod_eq)
  then show "n = n div 4096 * 4096 + n div 64 mod 64 * 64 + n mod 64"
    "n = n div 262144 * 262144 + n div 4096 mod 64 * 4096 + n div 64 mod 64 * 64 + n mod 64"
    using d by linarith+
qed

text \<open>An encoded scalar value passes the tests, with its own length.\<close>

lemma codepoint_bytes_utf8_of:
  assumes "scalar_value cp"
  shows "codepoint_bytes (utf8_of cp @ rest) = Some (length (utf8_of cp))"
proof -
  consider "cp < 0x80" | "0x80 \<le> cp" "cp < 0x800" | "0x800 \<le> cp" "cp < 0x10000"
    | "0x10000 \<le> cp" "cp \<le> 0x10ffff"
    using assms by (auto simp: scalar_value_def) linarith+
  then show ?thesis
  proof cases
    case 1
    then show ?thesis by (simp add: codepoint_bytes_nat utf8_of_def unat_byte Let_def)
  next
    case 2
    then have "2 \<le> cp div 64" "cp div 64 < 32" by auto
    with 2 show ?thesis by (simp add: codepoint_bytes_nat utf8_of_def Let_def unat_byte del: of_nat_add)
  next
    case 3
    define a b c where "a = cp div 4096" and "b = cp div 64 mod 64" and "c = cp mod 64"
    have cp: "cp = a * 4096 + b * 64 + c" unfolding a_def b_def c_def by (rule digits64)
    have r: "a < 16" "b < 64" "c < 64" using 3 by (auto simp: a_def b_def c_def)
    have "a = 0 \<Longrightarrow> 32 \<le> b" using 3 cp r by auto
    moreover have "a = 13 \<Longrightarrow> b < 32" using assms cp r by (auto simp: scalar_value_def)
    moreover have "utf8_of cp = map of_nat [0xe0 + a, 0x80 + b, 0x80 + c]"
      using 3 by (simp add: utf8_of_def a_def b_def c_def)
    ultimately show ?thesis
      using r by (auto simp: codepoint_bytes_nat Let_def unat_byte simp del: of_nat_add)
  next
    case 4
    define a b c d where "a = cp div 262144" and "b = cp div 4096 mod 64"
      and "c = cp div 64 mod 64" and "d = cp mod 64"
    have cp: "cp = a * 262144 + b * 4096 + c * 64 + d"
      unfolding a_def b_def c_def d_def by (rule digits64)
    have r: "a \<le> 4" "b < 64" "c < 64" "d < 64" using 4 by (auto simp: a_def b_def c_def d_def)
    have "1 \<le> a \<or> 16 \<le> b" using 4 cp r by auto
    moreover have "a \<le> 3 \<or> b < 16" using 4 cp r by auto
    moreover have "utf8_of cp = map of_nat [0xf0 + a, 0x80 + b, 0x80 + c, 0x80 + d]"
      using 4 by (simp add: utf8_of_def a_def b_def c_def d_def)
    ultimately show ?thesis
      using r by (auto simp: codepoint_bytes_nat Let_def unat_byte simp del: of_nat_add)
  qed
qed


lemma utf8_of_length: "length (utf8_of cp) \<in> {1, 2, 3, 4}"
  by (simp add: utf8_of_def)

lemma digits64_split:
  fixes x y z :: nat
  assumes "y < 64" "z < 64"
  shows "(x * 4096 + y * 64 + z) div 4096 = x" "(x * 4096 + y * 64 + z) div 64 mod 64 = y"
    "(x * 4096 + y * 64 + z) mod 64 = z"
proof -
  have e: "x * 4096 + y * 64 + z = (x * 64 + y) * 64 + z" by simp
  have d: "(x * 4096 + y * 64 + z) div 64 = x * 64 + y" using assms unfolding e by simp
  then show "(x * 4096 + y * 64 + z) div 64 mod 64 = y" using assms by simp
  have "(x * 4096 + y * 64 + z) div 4096 = (x * 4096 + y * 64 + z) div 64 div 64"
    by (simp add: div_mult2_eq[symmetric])
  then show "(x * 4096 + y * 64 + z) div 4096 = x" using d assms by simp
  show "(x * 4096 + y * 64 + z) mod 64 = z"
    using assms unfolding e by (simp only: mod_mult_self3 mod_less)
qed

lemma digits64_split4:
  fixes x y z w :: nat
  assumes "y < 64" "z < 64" "w < 64"
  shows "(x * 262144 + y * 4096 + z * 64 + w) div 262144 = x"
    "(x * 262144 + y * 4096 + z * 64 + w) div 4096 mod 64 = y"
    "(x * 262144 + y * 4096 + z * 64 + w) div 64 mod 64 = z"
    "(x * 262144 + y * 4096 + z * 64 + w) mod 64 = w"
proof -
  let ?n = "x * 262144 + y * 4096 + z * 64 + w"
  have e: "?n = (x * 64 + y) * 4096 + z * 64 + w" by simp
  note d = digits64_split[OF assms(2,3), of "x * 64 + y", folded e]
  from d show "?n div 4096 mod 64 = y" "?n div 64 mod 64 = z" "?n mod 64 = w" using assms by simp_all
  have "?n div 262144 = ?n div 4096 div 64" by (simp add: div_mult2_eq[symmetric])
  then show "?n div 262144 = x" using d assms by simp
qed

text \<open>What passes the tests is an encoded scalar value.\<close>

lemma codepoint_bytes_sound:
  assumes ne: "data \<noteq> []" and some: "codepoint_bytes data = Some n"
  shows "\<exists>cp. scalar_value cp \<and> n \<le> length data \<and> take n data = utf8_of cp"
proof -
  define b where "b = (\<lambda>i. unat (data ! i))"
  have bytes: "data ! i = of_nat (b i)" "b i < 256" for i
    by (auto simp: b_def of_nat_unat byte_lt)
  have tk: "take 1 data = [data ! 0]"
    "2 \<le> length data \<Longrightarrow> take 2 data = [data ! 0, data ! 1]"
    "3 \<le> length data \<Longrightarrow> take 3 data = [data ! 0, data ! 1, data ! 2]"
    "4 \<le> length data \<Longrightarrow> take 4 data = [data ! 0, data ! 1, data ! 2, data ! 3]"
    using ne by (auto simp: take_Suc_conv_app_nth eval_nat_numeral)
  let ?t = "\<lambda>i. 128 \<le> b i \<and> b i \<le> 191"
  from some ne consider
      (one) "n = 1" "b 0 < 128"
    | (two) "n = 2" "2 \<le> length data" "0xC2 \<le> b 0" "b 0 \<le> 0xDF" "?t 1"
    | (three) "n = 3" "3 \<le> length data" "?t 1" "?t 2" "0xE0 \<le> b 0" "b 0 \<le> 0xEF"
        "b 0 = 0xE0 \<longrightarrow> 0xA0 \<le> b 1" "b 0 = 0xED \<longrightarrow> b 1 \<le> 0x9F"
    | (four) "n = 4" "4 \<le> length data" "?t 1" "?t 2" "?t 3" "0xF0 \<le> b 0" "b 0 \<le> 0xF4"
        "b 0 = 0xF0 \<longrightarrow> 0x90 \<le> b 1" "b 0 = 0xF4 \<longrightarrow> b 1 \<le> 0x8F"
    by (auto simp: codepoint_bytes_nat Let_def b_def split: if_splits)
  then show ?thesis
  proof cases
    case one
    have "1 \<le> length data" using ne by (cases data) auto
    with one tk bytes[of 0] show ?thesis
      by (intro exI[of _ "b 0"]) (auto simp: scalar_value_def utf8_of_def)
  next
    case two
    define x y where "x = b 0 - 0xC0" and "y = b 1 - 0x80"
    have xy: "b 0 = 0xC0 + x" "b 1 = 0x80 + y" "2 \<le> x" "x < 32" "y < 64"
      using two by (auto simp: x_def y_def)
    have "utf8_of (x * 64 + y) = map of_nat [b 0, b 1]" using xy by (simp add: utf8_of_def)
    with two tk bytes xy show ?thesis
      by (intro exI[of _ "x * 64 + y"]) (auto simp: scalar_value_def)
  next
    case three
    define x y z where "x = b 0 - 0xE0" and "y = b 1 - 0x80" and "z = b 2 - 0x80"
    have xyz: "b 0 = 0xE0 + x" "b 1 = 0x80 + y" "b 2 = 0x80 + z" "x < 16" "y < 64" "z < 64"
      "1 \<le> x \<or> 32 \<le> y" "x \<noteq> 13 \<or> y < 32"
      using three by (auto simp: x_def y_def z_def)
    let ?cp = "x * 4096 + y * 64 + z"
    have d: "?cp div 4096 = x" "?cp div 64 mod 64 = y" "?cp mod 64 = z"
      using xyz digits64_split[of y z x] by auto
    have ge: "2048 \<le> ?cp" "?cp < 65536" using xyz by auto
    have sv: "scalar_value ?cp"
    proof (cases "x \<le> 13")
      case True
      have "?cp < 0xd800" using True xyz by (cases "x = 13") auto
      then show ?thesis by (simp add: scalar_value_def)
    qed (use xyz in \<open>auto simp: scalar_value_def\<close>)
    have "utf8_of ?cp = map of_nat [b 0, b 1, b 2]" using xyz ge d by (simp add: utf8_of_def)
    with three tk bytes sv show ?thesis by (intro exI[of _ ?cp]) auto
  next
    case four
    define x y z w where "x = b 0 - 0xF0" and "y = b 1 - 0x80" and "z = b 2 - 0x80" and "w = b 3 - 0x80"
    have xyz: "b 0 = 0xF0 + x" "b 1 = 0x80 + y" "b 2 = 0x80 + z" "b 3 = 0x80 + w"
      "x \<le> 4" "y < 64" "z < 64" "w < 64" "1 \<le> x \<or> 16 \<le> y" "x \<le> 3 \<or> y < 16"
      using four by (auto simp: x_def y_def z_def w_def)
    let ?cp = "x * 262144 + y * 4096 + z * 64 + w"
    have d: "?cp div 262144 = x" "?cp div 4096 mod 64 = y" "?cp div 64 mod 64 = z" "?cp mod 64 = w"
      using xyz digits64_split4[of y z w x] by auto
    have ge: "65536 \<le> ?cp" "?cp \<le> 0x10ffff" using xyz by auto
    have "utf8_of ?cp = map of_nat [b 0, b 1, b 2, b 3]" using xyz ge d by (simp add: utf8_of_def)
    with four tk bytes ge show ?thesis by (intro exI[of _ ?cp]) (auto simp: scalar_value_def)
  qed
qed


lemma wf_utf8_Nil [simp]: "wf_utf8 []"
  by (auto simp: wf_utf8_def intro!: exI[of _ "[]"])

lemma wf_utf8_step:
  assumes "data \<noteq> []"
  shows "wf_utf8 data \<longleftrightarrow> (\<exists>n. codepoint_bytes data = Some n \<and> wf_utf8 (drop n data))"
proof
  assume "wf_utf8 data"
  then obtain cps where cps: "\<forall>cp \<in> set cps. scalar_value cp" "data = concat (map utf8_of cps)"
    by (auto simp: wf_utf8_def)
  with assms obtain cp rest where c: "cps = cp # rest" by (cases cps) auto
  with cps have "codepoint_bytes data = Some (length (utf8_of cp))"
    by (auto intro: codepoint_bytes_utf8_of)
  moreover have "wf_utf8 (drop (length (utf8_of cp)) data)"
    using cps c by (auto simp: wf_utf8_def)
  ultimately show "\<exists>n. codepoint_bytes data = Some n \<and> wf_utf8 (drop n data)" by blast
next
  assume "\<exists>n. codepoint_bytes data = Some n \<and> wf_utf8 (drop n data)"
  then obtain n cps where n: "codepoint_bytes data = Some n" "\<forall>cp \<in> set cps. scalar_value cp"
    "drop n data = concat (map utf8_of cps)" by (auto simp: wf_utf8_def)
  from codepoint_bytes_sound[OF assms n(1)] obtain cp where "scalar_value cp" "take n data = utf8_of cp"
    by blast
  with n have "\<forall>c \<in> set (cp # cps). scalar_value c" "data = concat (map utf8_of (cp # cps))"
    by (auto, metis append_take_drop_id)
  then show "wf_utf8 data" unfolding wf_utf8_def by blast
qed

text \<open>The longest prefix that is a sequence of encoded scalar values.\<close>

function valid_prefix :: "byte list \<Rightarrow> nat" where
  "valid_prefix data =
     (if data = [] then 0
      else case codepoint_bytes data of None \<Rightarrow> 0 | Some n \<Rightarrow> n + valid_prefix (drop n data))"
  by pat_completeness auto
termination by (relation "measure length") (auto dest!: codepoint_bytes_pos)

declare valid_prefix.simps [simp del]

lemma naive_loop_eq:
  "utf8_naive_loop rp data cpb err =
   (if rp then err + cpb + valid_prefix (drop cpb data)
    else if wf_utf8 (drop cpb data) then err + 1 else err)"
proof (induction rp data cpb err rule: utf8_naive_loop.induct)
  case (1 rp data cpb err)
  show ?case
  proof (cases "cpb < length data")
    case True
    let ?d = "drop cpb data"
    have ne: "?d \<noteq> []" using True by simp
    show ?thesis
    proof (cases "codepoint_bytes ?d")
      case None
      with True ne show ?thesis
        by (simp add: utf8_naive_loop.simps[of rp data] valid_prefix.simps[of ?d] wf_utf8_step[OF ne] Let_def)
    next
      case (Some n)
      with True ne 1[OF True refl refl Some] show ?thesis
        by (simp add: utf8_naive_loop.simps[of rp data] valid_prefix.simps[of ?d] wf_utf8_step[OF ne]
            Let_def split: if_splits)
    qed
  next
    case False
    then show ?thesis by (simp add: utf8_naive_loop.simps[of rp data] valid_prefix.simps)
  qed
qed

lemma ascii_step: "utf8_range_AsciiIsAscii b \<Longrightarrow> codepoint_bytes (b # bs) = Some 1"
  by (simp add: codepoint_bytes_def Let_def)

lemma ascii_prefix:
  "\<forall>b \<in> set as. utf8_range_AsciiIsAscii b \<Longrightarrow>
   (wf_utf8 (as @ bs) \<longleftrightarrow> wf_utf8 bs) \<and> valid_prefix (as @ bs) = length as + valid_prefix bs"
proof (induction as)
  case (Cons a as)
  then show ?case
    by (simp add: wf_utf8_step[of "a # as @ bs"] valid_prefix.simps[of "a # as @ bs"] ascii_step)
qed simp

lemma le_nat_digit: "i < length bs \<Longrightarrow> le_nat bs div 256 ^ i mod 256 = unat (bs ! i)"
proof (induction bs arbitrary: i)
  case (Cons b bs)
  have b: "unat b < 256" by (rule byte_lt)
  show ?case
  proof (cases i)
    case (Suc k)
    have "le_nat (b # bs) div 256 ^ i = le_nat (b # bs) div 256 div 256 ^ k"
      by (simp add: Suc div_mult2_eq)
    also have "le_nat (b # bs) div 256 = le_nat bs" using b by simp
    finally show ?thesis using Cons Suc by simp
  qed (use b in simp)
qed simp

lemma le_word_bit:
  assumes "length bs = 8" and "i < 8" and "bit (bs ! i) 7"
  shows "bit (le_word bs :: u64) (8 * i + 7)"
proof -
  let ?n = "le_nat bs div 256 ^ i"
  have "?n mod 256 = unat (bs ! i)" using assms by (intro le_nat_digit) simp
  then have "take_bit 8 ?n = unat (bs ! i)" by (simp add: take_bit_eq_mod)
  moreover have "bit (unat (bs ! i)) 7" using assms(3) by (simp add: bit_unsigned_iff)
  ultimately have "bit (take_bit 8 ?n) 7" by simp
  then have "bit ?n 7" by (simp only: bit_take_bit_iff)
  then have "odd (?n div 2 ^ 7)" by (rule iffD1[OF bit_iff_odd])
  then have "odd (?n div 128)" by simp
  moreover have "?n div 128 = le_nat bs div 2 ^ (8 * i + 7)"
    by (simp add: div_mult2_eq power_add power_mult)
  moreover have "le_nat bs < 2 ^ 64"
  proof -
    have "le_nat xs < 256 ^ length xs" for xs
    proof (induction xs)
      case (Cons x xs)
      then show ?case using byte_lt[of x] by simp
    qed simp
    from this[of bs] assms(1) show ?thesis by simp
  qed
  then have "unat (le_word bs :: u64) = le_nat bs"
    by (simp add: le_word_def unat_of_nat take_bit_nat_eq_self)
  ultimately have "bit (unat (le_word bs :: u64)) (8 * i + 7)" by (simp add: bit_iff_odd)
  then show ?thesis by (simp add: bit_unsigned_iff)
qed

lemma ascii8:
  assumes "length bs = 8" and "(le_word bs :: u64) AND 0x8080808080808080 = 0"
  shows "\<forall>b \<in> set bs. utf8_range_AsciiIsAscii b"
proof
  fix b assume "b \<in> set bs"
  then obtain i where i: "i < 8" "b = bs ! i" using assms(1) by (auto simp: in_set_conv_nth)
  show "utf8_range_AsciiIsAscii b"
  proof (rule ccontr)
    assume "\<not> utf8_range_AsciiIsAscii b"
    then have "bit (bs ! i) 7"
      using i byte_bit7[of b] by (simp add: utf8_range_AsciiIsAscii_def word_less_nat_alt)
    from le_word_bit[OF assms(1) i(1) this] have "bit (le_word bs :: u64) (8 * i + 7)" .
    moreover have "i = 0 \<or> i = 1 \<or> i = 2 \<or> i = 3 \<or> i = 4 \<or> i = 5 \<or> i = 6 \<or> i = 7" using i(1) by arith
    then have "bit (0x8080808080808080 :: u64) (8 * i + 7)" by (elim disjE) simp_all
    ultimately have "bit ((le_word bs :: u64) AND 0x8080808080808080) (8 * i + 7)"
      by (simp only: bit_and_iff simp_thms)
    with assms(2) show False by simp
  qed
qed

lemma skip_ascii8_prefix:
  "\<exists>as. data = as @ skip_ascii8 data \<and> (\<forall>b \<in> set as. utf8_range_AsciiIsAscii b)"
proof (induction data rule: skip_ascii8.induct)
  case (1 data)
  show ?case
  proof (cases "8 \<le> length data \<and> (le_word (take 8 data) :: u64) AND 0x8080808080808080 = 0")
    case True
    with 1 obtain as where "drop 8 data = as @ skip_ascii8 (drop 8 data)"
      "\<forall>b \<in> set as. utf8_range_AsciiIsAscii b" by blast
    moreover have "\<forall>b \<in> set (take 8 data). utf8_range_AsciiIsAscii b"
      using True by (intro ascii8) auto
    moreover have "skip_ascii8 data = skip_ascii8 (drop 8 data)"
      using True by (simp add: skip_ascii8.simps[of data])
    ultimately show ?thesis
      by (intro exI[of _ "take 8 data @ as"]) (metis Un_iff append.assoc append_take_drop_id set_append)
  next
    case False
    then have "skip_ascii8 data = data" by (subst skip_ascii8.simps) (simp only: if_not_P if_False)
    then show ?thesis by (intro exI[of _ "[]"]) simp
  qed
qed

lemma SkipAscii_prefix:
  "\<exists>as. data = as @ utf8_range_SkipAscii data \<and> (\<forall>b \<in> set as. utf8_range_AsciiIsAscii b)"
proof -
  obtain as where as: "data = as @ skip_ascii8 data" "\<forall>b \<in> set as. utf8_range_AsciiIsAscii b"
    using skip_ascii8_prefix by blast
  let ?w = "takeWhile utf8_range_AsciiIsAscii (skip_ascii8 data)"
  have "data = (as @ ?w) @ utf8_range_SkipAscii data"
    using as(1) by (simp add: utf8_range_SkipAscii_def)
  moreover have "\<forall>b \<in> set (as @ ?w). utf8_range_AsciiIsAscii b"
    using as(2) by (auto dest: set_takeWhileD)
  ultimately show ?thesis by blast
qed

lemma Validate_eq:
  "utf8_range_Validate data rp =
   (if rp then valid_prefix data else if wf_utf8 data then 1 else 0)"
proof -
  obtain as where as: "data = as @ utf8_range_SkipAscii data"
    "\<forall>b \<in> set as. utf8_range_AsciiIsAscii b"
    using SkipAscii_prefix by blast
  have p: "wf_utf8 data \<longleftrightarrow> wf_utf8 (utf8_range_SkipAscii data)"
    "valid_prefix data = length as + valid_prefix (utf8_range_SkipAscii data)"
    using ascii_prefix[OF as(2), of "utf8_range_SkipAscii data"] as(1) by simp_all
  have "length data - length (utf8_range_SkipAscii data) = length as"
    using arg_cong[OF as(1), of length] by simp
  then show ?thesis
    using p by (auto simp: utf8_range_Validate_def utf8_range_ValidateUTF8Naive_def Let_def
        naive_loop_eq valid_prefix.simps[of "[]"])
qed

text \<open>The code point at the front only depends on its own bytes.\<close>

lemma codepoint_bytes_take:
  assumes "data \<noteq> []" "codepoint_bytes data = Some k" "k \<le> n"
  shows "codepoint_bytes (take n data) = Some k"
proof -
  obtain cp where cp: "scalar_value cp" "k \<le> length data" "take k data = utf8_of cp"
    using codepoint_bytes_sound[OF assms(1,2)] by blast
  have "take n data = utf8_of cp @ drop k (take n data)"
    using cp(3) assms(3) by (metis append_take_drop_id min.absorb1 take_take)
  then show ?thesis using codepoint_bytes_utf8_of[OF cp(1)] cp(2,3) by (metis length_take min.absorb2)
qed

lemma codepoint_bytes_untake:
  assumes "take n data \<noteq> []" "codepoint_bytes (take n data) = Some k"
  shows "codepoint_bytes data = Some k \<and> k \<le> n"
proof -
  obtain cp where cp: "scalar_value cp" "k \<le> length (take n data)" "take k (take n data) = utf8_of cp"
    using codepoint_bytes_sound[OF assms] by blast
  then have "data = utf8_of cp @ drop k data" "length (utf8_of cp) = k"
    by (metis append_take_drop_id length_take min.absorb1 min.bounded_iff take_take)
      (metis cp(2,3) length_take min.absorb2)
  then show ?thesis using codepoint_bytes_utf8_of[OF cp(1)] cp(2) by (metis length_take min.bounded_iff)
qed

lemma valid_prefix_props:
  "valid_prefix data \<le> length data \<and> wf_utf8 (take (valid_prefix data) data) \<and>
   (\<forall>n \<le> length data. wf_utf8 (take n data) \<longrightarrow> n \<le> valid_prefix data)"
proof (induction data rule: valid_prefix.induct)
  case (1 data)
  show ?case
  proof (cases "data = []")
    case False
    show ?thesis
    proof (cases "codepoint_bytes data")
      case None
      have "n = 0" if "wf_utf8 (take n data)" for n
        using that None False codepoint_bytes_untake[of n data]
        by (cases "take n data = []") (auto simp: wf_utf8_step)
      with None False show ?thesis by (auto simp: valid_prefix.simps[of data])
    next
      case (Some k)
      note IH = 1[OF False Some]
      have k: "k \<le> length data" using codepoint_bytes_sound[OF False Some] by blast
      have vp: "valid_prefix data = k + valid_prefix (drop k data)"
        using False Some by (simp add: valid_prefix.simps[of data])
      have "1 \<le> k" using codepoint_bytes_pos[OF Some] by simp
      then have "take (valid_prefix data) data \<noteq> []" using False vp by auto
      moreover have "codepoint_bytes (take (valid_prefix data) data) = Some k"
        using codepoint_bytes_take[OF False Some] vp by simp
      moreover have "drop k (take (valid_prefix data) data) =
          take (valid_prefix (drop k data)) (drop k data)" by (simp add: vp drop_take)
      ultimately have wf: "wf_utf8 (take (valid_prefix data) data)"
        using IH by (auto simp: wf_utf8_step)
      have "n \<le> valid_prefix data" if n: "n \<le> length data" "wf_utf8 (take n data)" for n
      proof (cases "take n data = []")
        case False
        then have c: "codepoint_bytes (take n data) = Some k" "k \<le> n" "wf_utf8 (drop k (take n data))"
          using n(2) codepoint_bytes_untake[OF False] Some by (auto simp: wf_utf8_step[OF False])
        then have "wf_utf8 (take (n - k) (drop k data))" by (simp add: drop_take)
        moreover have "n - k \<le> length (drop k data)" using n(1) by simp
        ultimately have "n - k \<le> valid_prefix (drop k data)" using IH by blast
        then show ?thesis using vp by simp
      qed (use n False in auto)
      with wf vp IH k show ?thesis by auto
    qed
  qed (simp add: valid_prefix.simps)
qed

subsection \<open>Properties\<close>

text \<open>
  C11: UTF-8 validation. \<open>utf8_range_IsValid\<close> accepts a byte string exactly when it is a sequence of
  Unicode scalar values encoded in UTF-8: no surrogates, nothing above U+10FFFF, no overlong form,
  no stray or missing continuation byte.
\<close>

theorem IsValid_iff_wf_utf8: "utf8_range_IsValid data \<longleftrightarrow> wf_utf8 data"
  by (simp add: utf8_range_IsValid_def Validate_eq)

text \<open>
  C12: the valid prefix. \<open>utf8_range_ValidPrefix\<close> is the length of the longest prefix of the string
  that is well formed.
\<close>

theorem ValidPrefix_longest:
  "utf8_range_ValidPrefix data = Max {n. n \<le> length data \<and> wf_utf8 (take n data)}"
  using valid_prefix_props[of data]
  by (intro Max_eqI[symmetric]) (auto simp: utf8_range_ValidPrefix_def Validate_eq)

lemma naive_scan_eq:
  "naive_scan data err_pos = (if wf_utf8 data then 0 else err_pos + valid_prefix data)"
proof (induction data err_pos rule: naive_scan.induct)
  case (1 data err_pos)
  show ?case
  proof (cases "codepoint_bytes data")
    case (Some k)
    then show ?thesis
      using 1 by (cases "data = []")
        (auto simp: naive_scan.simps[of data] valid_prefix.simps[of data] wf_utf8_step naive_bytes_eq
          naive_scan.simps[of "[]"])
  qed (auto simp: naive_scan.simps[of data] valid_prefix.simps[of data] wf_utf8_step naive_bytes_eq)
qed


text \<open>Setting high bits above a small number adds them.\<close>

lemma or_high_bits:
  fixes x y :: u32
  assumes "unat x < 2 ^ k"
  shows "x OR push_bit k y = x + push_bit k y"
proof -
  have "unat (take_bit k x) = unat x"
    using assms by (simp add: unsigned_take_bit_eq take_bit_nat_eq_self)
  then have x: "x = take_bit k x" by (simp add: word_eq_iff_unsigned[where 'a = nat])
  have "x AND push_bit k y = 0"
    by (subst x) (auto simp: bit_eq_iff bit_and_iff bit_take_bit_iff bit_push_bit_iff)
  then show ?thesis by (simp only: disjunctive_add_eq_or)
qed

lemma u32_or_byte:
  fixes x y :: u32
  assumes "unat x < 2 ^ k" and "unat x + unat (push_bit k y) < 256"
  shows "ucast (x OR push_bit k y) = (of_nat (unat (push_bit k y) + unat x) :: byte)"
proof -
  have "unat (x + push_bit k y) = unat (push_bit k y) + unat x"
    using assms(2) by (simp add: unat_word_ariths)
  then show ?thesis using or_high_bits[OF assms(1)] by (metis of_nat_unat)
qed

lemma u32_or_consts:
  "unat (x::u32) < 32 \<Longrightarrow> ucast (x OR 0xc0) = (of_nat (0xc0 + unat x) :: byte)"
  "unat (x::u32) < 64 \<Longrightarrow> ucast (x OR 0x80) = (of_nat (0x80 + unat x) :: byte)"
  "unat (x::u32) < 16 \<Longrightarrow> ucast (x OR 0xe0) = (of_nat (0xe0 + unat x) :: byte)"
  "unat (x::u32) < 8 \<Longrightarrow> ucast (x OR 0xf0) = (of_nat (0xf0 + unat x) :: byte)"
  using u32_or_byte[of x 5 6] u32_or_byte[of x 6 2] u32_or_byte[of x 4 14] u32_or_byte[of x 3 30]
  by simp_all

lemma u32_digits:
  "unat (drop_bit n (cp::u32)) = unat cp div 2 ^ n"
  "unat ((cp::u32) AND 0x3f) = unat cp mod 64"
proof -
  show "unat (drop_bit n cp) = unat cp div 2 ^ n"
    by (simp only: unat_drop_bit_eq) (simp only: drop_bit_eq_div)
  have "cp AND 0x3f = take_bit 6 cp" by (simp add: take_bit_eq_mask mask_eq_exp_minus_1)
  then show "unat (cp AND 0x3f) = unat cp mod 64"
    by (simp only: unsigned_take_bit_eq) (simp add: take_bit_eq_mod)
qed

text \<open>
  C14: encoding a code point. \<open>upb_Unicode_ToUTF8\<close> writes the UTF-8 form of every code point up to
  U+10FFFF, so for a scalar value the result is valid UTF-8; above that it writes nothing.
\<close>

theorem ToUTF8_correct:
  "upb_Unicode_ToUTF8 cp = (if unat cp \<le> 0x10ffff then utf8_of (unat cp) else []) \<and>
   (scalar_value (unat cp) \<longrightarrow> utf8_range_IsValid (upb_Unicode_ToUTF8 cp))"
proof -
  have eq: "upb_Unicode_ToUTF8 cp = (if unat cp \<le> 0x10ffff then utf8_of (unat cp) else [])"
  proof -
    let ?n = "unat cp"
    have c1: "cp \<le> 0x7f \<longleftrightarrow> ?n < 0x80" "cp \<le> 0x07ff \<longleftrightarrow> ?n < 0x800" "cp \<le> 0xffff \<longleftrightarrow> ?n < 0x10000"
      "cp \<le> 0x10ffff \<longleftrightarrow> ?n \<le> 0x10ffff"
      by (auto simp: word_le_nat_alt)
    have "ucast cp = (of_nat ?n :: byte)" by (simp add: of_nat_unat)
    moreover have "?n < 0x800 \<Longrightarrow> ?n div 64 < 32" "?n < 0x10000 \<Longrightarrow> ?n div 4096 < 16"
      "?n \<le> 0x10ffff \<Longrightarrow> ?n div 262144 < 8" by auto
    ultimately show ?thesis
      unfolding upb_Unicode_ToUTF8_def c1
      by (auto simp: utf8_of_def u32_or_consts u32_digits simp del: of_nat_add)
  qed
  moreover have "utf8_range_IsValid (utf8_of n)" if "scalar_value n" for n
    using that by (auto simp: utf8_range_IsValid_def Validate_eq wf_utf8_def intro!: exI[of _ "[n]"])
  moreover have "scalar_value n \<Longrightarrow> n \<le> 0x10ffff" for n by (auto simp: scalar_value_def)
  ultimately show ?thesis by auto
qed

theorem ToUTF8_correct_witness:
  "scalar_value (unat (0x20AC :: u32)) \<and> upb_Unicode_ToUTF8 0x20AC = [0xE2, 0x82, 0xAC] \<and>
   utf8_range_IsValid (upb_Unicode_ToUTF8 0x20AC)"
proof -
  have "scalar_value (unat (0x20AC :: u32))" by (simp add: scalar_value_def)
  moreover have "utf8_of (unat (0x20AC :: u32)) = [0xE2, 0x82, 0xAC]" by (simp add: utf8_of_def)
  moreover have "unat (0x20AC :: u32) \<le> 0x10ffff" by simp
  moreover note ToUTF8_correct[where cp = "0x20AC"]
  ultimately show ?thesis by metis
qed

lemma u32_low10: "unat ((x::u32) AND 0x3ff) = unat x mod 1024"
proof -
  have "x AND 0x3ff = take_bit 10 x" by (simp add: take_bit_eq_mask mask_eq_exp_minus_1)
  then show ?thesis by (simp only: unsigned_take_bit_eq) (simp add: take_bit_eq_mod)
qed

lemma unat_through_u16: "unat (x::u32) < 65536 \<Longrightarrow> unat (ucast (ucast x :: u16) :: u32) = unat x"
  by (simp add: unsigned_ucast_eq unsigned_take_bit_eq take_bit_nat_eq_self)

lemma unat_ToHigh:
  assumes "65536 \<le> unat cp" "unat cp \<le> 1114111"
  shows "unat (ucast (upb_Unicode_ToHigh cp) :: u32) = unat cp div 1024 + 0xd7c0"
proof -
  have "unat (drop_bit 10 cp + 0xd7c0) = unat cp div 1024 + 0xd7c0"
    using assms by (simp add: unat_word_ariths u32_digits)
  moreover have "unat cp div 1024 + 0xd7c0 < 65536" using assms by simp
  ultimately show ?thesis by (simp add: upb_Unicode_ToHigh_def unat_through_u16)
qed

lemma unat_ToLow: "unat (ucast (upb_Unicode_ToLow cp) :: u32) = unat cp mod 1024 + 0xdc00"
proof -
  have "unat (cp AND 0x3ff) < 2 ^ 10" by (simp add: u32_low10)
  from or_high_bits[OF this, of 55]
  have "unat ((cp AND 0x3ff) OR 0xdc00) = unat cp mod 1024 + 0xdc00"
    by (simp add: unat_word_ariths u32_low10)
  moreover have "unat cp mod 1024 + 0xdc00 < 65536" by (simp add: less_diff_conv[symmetric])
  ultimately show ?thesis by (simp add: upb_Unicode_ToLow_def unat_through_u16)
qed

text \<open>
  C15: surrogate pairs. Splitting a supplementary code point into its surrogates gives a high and a
  low surrogate, and putting them together gives the code point back.
\<close>

theorem surrogates_roundtrip:
  assumes "0x10000 \<le> cp" and "cp \<le> 0x10ffff"
  shows "upb_Unicode_IsHigh (ucast (upb_Unicode_ToHigh cp)) \<and>
    upb_Unicode_IsLow (ucast (upb_Unicode_ToLow cp)) \<and>
    upb_Unicode_FromPair (ucast (upb_Unicode_ToHigh cp)) (ucast (upb_Unicode_ToLow cp)) = cp"
proof -
  let ?h = "ucast (upb_Unicode_ToHigh cp) :: u32" and ?l = "ucast (upb_Unicode_ToLow cp) :: u32"
  have n: "65536 \<le> unat cp" "unat cp \<le> 1114111" using assms by (simp_all add: word_le_nat_alt)
  have h: "unat ?h = unat cp div 1024 + 0xd7c0" using n by (rule unat_ToHigh)
  have l: "unat ?l = unat cp mod 1024 + 0xdc00" by (rule unat_ToLow)
  have "unat (upb_Unicode_FromPair ?h ?l) = unat cp"
  proof -
    have "unat (push_bit 10 (?h AND 0x3ff)) = (unat cp div 1024 - 64) * 1024"
    proof -
      have "unat cp div 1024 + 0xd7c0 = (unat cp div 1024 - 64) + 54 * 1024"
        using div_le_mono[OF n(1), of 1024] by simp
      moreover have "unat cp div 1024 - 64 < 1024" using n(2) by simp
      ultimately have "unat (?h AND 0x3ff) = unat cp div 1024 - 64"
        by (simp only: h u32_low10 mod_mult_self1 mod_less)
      then show ?thesis using n by (simp add: push_bit_eq_mult unat_word_ariths)
    qed
    moreover have "unat (?l AND 0x3ff) = unat cp mod 1024" using mod_mult_self1[of "unat cp mod 1024" 55 1024] by (simp add: u32_low10 l)
    moreover have "(unat cp div 1024 - 64) * 1024 + unat cp mod 1024 + 65536 = unat cp"
      using n(1) div_le_mono[OF n(1), of 1024] div_mult_mod_eq[of "unat cp" 1024]
      by (simp add: diff_mult_distrib)
    ultimately show ?thesis
      using n by (simp add: upb_Unicode_FromPair_def unat_word_ariths)
  qed
  then have "upb_Unicode_FromPair ?h ?l = cp" by (simp only: word_eq_iff_unsigned[where 'a = nat])
  moreover have "upb_Unicode_IsHigh ?h"
    using div_le_mono[OF n(1), of 1024] div_le_mono[OF n(2), of 1024]
    by (simp add: upb_Unicode_IsHigh_def word_le_nat_alt h)
  moreover have "upb_Unicode_IsLow ?l"
    using l by (simp add: upb_Unicode_IsLow_def word_le_nat_alt)
  ultimately show ?thesis by blast
qed

theorem surrogates_roundtrip_witness:
  "(0x10000 :: u32) \<le> 0x1F600 \<and> (0x1F600 :: u32) \<le> 0x10ffff \<and>
   upb_Unicode_FromPair (ucast (upb_Unicode_ToHigh 0x1F600)) (ucast (upb_Unicode_ToLow 0x1F600)) = 0x1F600"
  using surrogates_roundtrip[of "0x1F600"] by simp

end
