(* ===== verification/Mini_Table.thy ===== *)
theory Mini_Table
  imports Upb_Prelude
begin

text \<open>
  The memory layouts the runtime parses and serialises by: \<open>upb/base/descriptor_constants.h\<close>,
  \<open>upb/mini_table/internal/field.h\<close>, \<open>internal/message.h\<close>, \<open>internal/enum.h\<close> and
  \<open>upb/mini_table/message.c\<close>. The field array with its count is a list, and a table refers to
  another by its index in an environment, since tables may be cyclic; \<open>None\<close> is a sub-message
  that is not linked.

  The lemmas show that the two-stage field lookup (dense index, then binary search) finds exactly
  the field with the number, and that the bitmask-and-list test of a closed enum is membership.
\<close>

subsection \<open>Field types\<close>

text \<open>
  The last two are the fake types \<open>decode.c\<close> stores in \<open>descriptortype\<close> for a field that was not
  found and for an item of a message set.
\<close>

datatype upb_FieldType =
    kUpb_FieldType_Double | kUpb_FieldType_Float | kUpb_FieldType_Int64 | kUpb_FieldType_UInt64
  | kUpb_FieldType_Int32 | kUpb_FieldType_Fixed64 | kUpb_FieldType_Fixed32 | kUpb_FieldType_Bool
  | kUpb_FieldType_String | kUpb_FieldType_Group | kUpb_FieldType_Message | kUpb_FieldType_Bytes
  | kUpb_FieldType_UInt32 | kUpb_FieldType_Enum | kUpb_FieldType_SFixed32
  | kUpb_FieldType_SFixed64 | kUpb_FieldType_SInt32 | kUpb_FieldType_SInt64
  | kUpb_FakeFieldType_FieldNotFound | kUpb_FakeFieldType_MessageSetItem

datatype upb_FieldMode = kUpb_FieldMode_Map | kUpb_FieldMode_Array | kUpb_FieldMode_Scalar

datatype upb_FieldRep =
  kUpb_FieldRep_1Byte | kUpb_FieldRep_4Byte | kUpb_FieldRep_StringView | kUpb_FieldRep_8Byte

subsection \<open>Enum tables\<close>

record upb_MiniTableEnum =
  mask_limit :: u32
  value_count :: u32
  enum_data :: "u32 list"

definition enum_word :: "upb_MiniTableEnum \<Rightarrow> nat \<Rightarrow> u32 res" where
  "enum_word t i = (if i < length (enum_data t) then Inr (enum_data t ! i) else Inl OutOfBounds)"

text \<open>The linear search \<open>for (p = start; p < limit; p++)\<close>, over the indices still to visit.\<close>

fun enum_scan :: "upb_MiniTableEnum \<Rightarrow> u32 \<Rightarrow> nat list \<Rightarrow> bool res" where
  "enum_scan t val [] = Inr False"
| "enum_scan t val (p # ps) =
     bindE (enum_word t p) (\<lambda>w. if w = val then Inr True else enum_scan t val ps)"

definition upb_MiniTableEnum_CheckValue :: "upb_MiniTableEnum \<Rightarrow> u32 \<Rightarrow> bool res" where
  "upb_MiniTableEnum_CheckValue t val =
     (if val < 64 then
        bindE (enum_word t 0) (\<lambda>d0.
        bindE (enum_word t 1) (\<lambda>d1.
          let mask = (ucast d0 :: u64) OR push_bit 32 (ucast d1);
              bit = push_bit (unat val) (1::u64)
          in Inr (mask AND bit \<noteq> 0)))
      else if val < mask_limit t then
        bindE (enum_word t (unat (val div 32))) (\<lambda>mask.
          let bit = push_bit (unat (val mod 32)) (1::u32) in Inr (mask AND bit \<noteq> 0))
      else
        let start = unat (mask_limit t div 32)
        in enum_scan t val [start ..< start + unat (value_count t)])"

text \<open>A table is well formed when its words are there and the mask covers at least 64 values.\<close>

definition enum_wf :: "upb_MiniTableEnum \<Rightarrow> bool" where
  "enum_wf t \<longleftrightarrow> 64 \<le> unat (mask_limit t) \<and> unat (mask_limit t) mod 32 = 0 \<and>
     length (enum_data t) = unat (mask_limit t) div 32 + unat (value_count t)"

text \<open>The values a table stands for: the bits of the mask and the listed values.\<close>

definition enum_values :: "upb_MiniTableEnum \<Rightarrow> u32 set" where
  "enum_values t =
     {v. unat v < unat (mask_limit t) \<and> bit (enum_data t ! (unat v div 32)) (unat v mod 32)} \<union>
     {v. unat (mask_limit t) \<le> unat v \<and> v \<in> set (drop (unat (mask_limit t) div 32) (enum_data t))}"

lemma enum_scan_eq:
  "\<forall>i \<in> set ps. i < length (enum_data t) \<Longrightarrow>
   enum_scan t val ps = Inr (val \<in> (!) (enum_data t) ` set ps)"
  by (induction ps) (auto simp: enum_word_def)

lemma u64_pair_bit:
  assumes "n < 64"
  shows "bit ((ucast (lo::u32) :: u64) OR push_bit 32 (ucast (hi::u32))) n \<longleftrightarrow>
    bit (if n < 32 then lo else hi) (n mod 32)"
  using assms by (auto simp: bit_or_iff bit_push_bit_iff bit_unsigned_iff bit_imp_le_length
      mod_if dest: bit_imp_le_length)

lemma CheckValue_eq:
  assumes "enum_wf t"
  shows "upb_MiniTableEnum_CheckValue t val = Inr (val \<in> enum_values t)"
proof -
  let ?m = "unat (mask_limit t)"
  have wf: "64 \<le> ?m" "?m mod 32 = 0" "length (enum_data t) = ?m div 32 + unat (value_count t)"
    using assms by (auto simp: enum_wf_def)
  have md: "unat (mask_limit t div 32) = ?m div 32" by (simp add: unat_div)
  consider "unat val < 64" | "64 \<le> unat val" "unat val < ?m" | "?m \<le> unat val" by linarith
  then show ?thesis
  proof cases
    case 1
    have len: "2 \<le> length (enum_data t)" using wf by auto
    have d: "unat val div 32 = (if unat val < 32 then 0 else 1)" using 1 by auto
    show ?thesis
      using 1 len wf(1)
      by (auto simp: upb_MiniTableEnum_CheckValue_def enum_values_def word_less_nat_alt enum_word_def
          Let_def and_exp_eq_0_iff_not_bit u64_pair_bit d)
  next
    case 2
    then have "unat val div 32 < length (enum_data t)"
      using wf by (auto simp: less_mult_imp_div_less div_less_iff_less_mult)
    with 2 show ?thesis
      by (auto simp: upb_MiniTableEnum_CheckValue_def enum_values_def word_less_nat_alt enum_word_def
          Let_def and_exp_eq_0_iff_not_bit unat_div unat_mod)
  next
    case 3
    have img: "(!) (enum_data t) ` {?m div 32 ..< ?m div 32 + unat (value_count t)} =
        set (drop (?m div 32) (enum_data t))"
      using wf(3) by (auto simp: set_conv_nth image_iff) (metis le_add_diff_inverse
          add_less_cancel_left atLeastLessThan_iff le_add1)
    have "\<not> unat val < 64" using 3 wf by linarith
    with 3 wf show ?thesis
      by (auto simp: upb_MiniTableEnum_CheckValue_def enum_values_def word_less_nat_alt Let_def md
          enum_scan_eq img)
  qed
qed

subsection \<open>Fields and tables\<close>

datatype mini_sub =
    NoSub
  | SubMsg "nat option"
  | SubEnum upb_MiniTableEnum

record upb_MiniTableField =
  number :: u32
  offset :: u16
  presence :: int
  submsg :: mini_sub
  descriptortype :: upb_FieldType
  mode :: byte

definition upb_MiniTableField_Mode :: "upb_MiniTableField \<Rightarrow> upb_FieldMode option" where
  "upb_MiniTableField_Mode f =
     (let m = mode f AND 3
      in if m = 0 then Some kUpb_FieldMode_Map
         else if m = 1 then Some kUpb_FieldMode_Array
         else if m = 2 then Some kUpb_FieldMode_Scalar else None)"

definition upb_MiniTableField_GetRep :: "upb_MiniTableField \<Rightarrow> upb_FieldRep" where
  "upb_MiniTableField_GetRep f =
     (let r = drop_bit 6 (mode f)
      in if r = 0 then kUpb_FieldRep_1Byte
         else if r = 1 then kUpb_FieldRep_4Byte
         else if r = 2 then kUpb_FieldRep_StringView else kUpb_FieldRep_8Byte)"

definition upb_MiniTableField_IsArray :: "upb_MiniTableField \<Rightarrow> bool" where
  "upb_MiniTableField_IsArray f \<longleftrightarrow> upb_MiniTableField_Mode f = Some kUpb_FieldMode_Array"

definition upb_MiniTableField_IsMap :: "upb_MiniTableField \<Rightarrow> bool" where
  "upb_MiniTableField_IsMap f \<longleftrightarrow> upb_MiniTableField_Mode f = Some kUpb_FieldMode_Map"

definition upb_MiniTableField_IsScalar :: "upb_MiniTableField \<Rightarrow> bool" where
  "upb_MiniTableField_IsScalar f \<longleftrightarrow> upb_MiniTableField_Mode f = Some kUpb_FieldMode_Scalar"

definition upb_MiniTableField_IsPacked :: "upb_MiniTableField \<Rightarrow> bool" where
  "upb_MiniTableField_IsPacked f \<longleftrightarrow> mode f AND 4 \<noteq> 0"

definition upb_MiniTableField_IsExtension :: "upb_MiniTableField \<Rightarrow> bool" where
  "upb_MiniTableField_IsExtension f \<longleftrightarrow> mode f AND 8 \<noteq> 0"

definition upb_MiniTableField_IsAlternate :: "upb_MiniTableField \<Rightarrow> bool" where
  "upb_MiniTableField_IsAlternate f \<longleftrightarrow> mode f AND 16 \<noteq> 0"

definition upb_MiniTableField_Type :: "upb_MiniTableField \<Rightarrow> upb_FieldType res" where
  "upb_MiniTableField_Type f =
     (if upb_MiniTableField_IsAlternate f then
        if descriptortype f = kUpb_FieldType_Int32 then Inr kUpb_FieldType_Enum
        else if descriptortype f = kUpb_FieldType_Bytes then Inr kUpb_FieldType_String
        else Inl AssertFailed
      else Inr (descriptortype f))"

definition upb_MiniTableField_HasHasbit :: "upb_MiniTableField \<Rightarrow> bool" where
  "upb_MiniTableField_HasHasbit f \<longleftrightarrow> presence f > 0"

definition upb_MiniTableField_IsInOneof :: "upb_MiniTableField \<Rightarrow> bool" where
  "upb_MiniTableField_IsInOneof f \<longleftrightarrow> presence f < 0"

definition upb_MiniTableField_IsClosedEnum :: "upb_MiniTableField \<Rightarrow> bool" where
  "upb_MiniTableField_IsClosedEnum f \<longleftrightarrow> descriptortype f = kUpb_FieldType_Enum"

definition upb_MiniTableField_IsSubMessage :: "upb_MiniTableField \<Rightarrow> bool" where
  "upb_MiniTableField_IsSubMessage f \<longleftrightarrow>
     descriptortype f = kUpb_FieldType_Message \<or> descriptortype f = kUpb_FieldType_Group"

definition upb_MiniTableField_HasPresence :: "upb_MiniTableField \<Rightarrow> bool" where
  "upb_MiniTableField_HasPresence f \<longleftrightarrow>
     (if upb_MiniTableField_IsExtension f then upb_MiniTableField_IsScalar f else presence f \<noteq> 0)"

text \<open>The hasbit index is the presence itself; the oneof case offset is its complement.\<close>

definition upb_MiniTableField_OneofOffset :: "upb_MiniTableField \<Rightarrow> nat" where
  "upb_MiniTableField_OneofOffset f = nat (- presence f - 1)"

datatype upb_ExtMode =
  kUpb_ExtMode_NonExtendable | kUpb_ExtMode_Extendable | kUpb_ExtMode_IsMessageSet

record upb_MiniTable =
  mt_fields :: "upb_MiniTableField list"
  ext :: upb_ExtMode
  dense_below :: nat
  required_count :: nat

definition field_at :: "upb_MiniTable \<Rightarrow> nat \<Rightarrow> upb_MiniTableField res" where
  "field_at m i = (if i < length (mt_fields m) then Inr (mt_fields m ! i) else Inl OutOfBounds)"

text \<open>
  The binary search keeps \<open>hi\<close> signed and \<open>lo\<close> unsigned; both stay within the 16-bit field count,
  so \<open>hi + lo\<close> does not overflow. The result is the index of the field.
\<close>

function find_field_search :: "upb_MiniTable \<Rightarrow> u32 \<Rightarrow> nat \<Rightarrow> int \<Rightarrow> nat option res" where
  "find_field_search m num lo hi =
     (if hi \<ge> int lo then
        let mid = (nat hi + lo) div 2
        in bindE (field_at m mid) (\<lambda>f.
             if number f = num then Inr (Some mid)
             else if number f < num then find_field_search m num (mid + 1) hi
             else find_field_search m num lo (int mid - 1))
      else Inr None)"
  by pat_completeness auto
termination
  by (relation "measure (\<lambda>(m, num, lo, hi). nat (hi - int lo + 1))") auto

declare find_field_search.simps [simp del]

definition upb_MiniTable_FindFieldByNumber :: "upb_MiniTable \<Rightarrow> u32 \<Rightarrow> nat option res" where
  "upb_MiniTable_FindFieldByNumber m num =
     (let i = num - 1
      in if unat i < dense_below m then
           bindE (field_at m (unat i)) (\<lambda>f.
           bindE (assertE (number f = num)) (\<lambda>_. Inr (Some (unat i))))
         else
           let hi = int (length (mt_fields m)) - 1
           in if hi < 0 then Inr None
              else bindE (field_at m (nat hi)) (\<lambda>f.
                if num > number f then Inr None
                else find_field_search m num (dense_below m) hi))"

text \<open>
  Well-formed tables: numbers strictly increase and are not zero, and the first \<open>dense_below\<close>
  fields are exactly 1, 2, 3, \<dots>
\<close>

definition table_wf :: "upb_MiniTable \<Rightarrow> bool" where
  "table_wf m \<longleftrightarrow>
     sorted_wrt (<) (map number (mt_fields m)) \<and>
     dense_below m \<le> length (mt_fields m) \<and> length (mt_fields m) < 2 ^ 16 \<and>
     (\<forall>i < dense_below m. number (mt_fields m ! i) = of_nat (i + 1))"

text \<open>The specification: the index of the field with the number, by a left-to-right scan.\<close>

fun index_of_number :: "upb_MiniTableField list \<Rightarrow> u32 \<Rightarrow> nat option" where
  "index_of_number [] num = None"
| "index_of_number (f # fs) num =
     (if number f = num then Some 0 else map_option Suc (index_of_number fs num))"

lemma index_of_number_None: "index_of_number fs num = None \<longleftrightarrow> num \<notin> number ` set fs"
  by (induction fs) auto

lemma index_of_number_nth:
  assumes "sorted_wrt (<) (map number fs)" and "i < length fs"
  shows "index_of_number fs (number (fs ! i)) = Some i"
  using assms
proof (induction fs arbitrary: i)
  case (Cons f fs)
  then show ?case
    by (cases i) (auto simp: less_imp_neq)
qed simp

lemma find_field_search_eq:
  assumes "table_wf m" and "hi < int (length (mt_fields m))"
    and "\<forall>i < length (mt_fields m). number (mt_fields m ! i) = num \<longrightarrow> lo \<le> i \<and> int i \<le> hi"
  shows "find_field_search m num lo hi = Inr (index_of_number (mt_fields m) num)"
  using assms
proof (induction m num lo hi rule: find_field_search.induct)
  case (1 m num lo hi)
  let ?fs = "mt_fields m" and ?mid = "(nat hi + lo) div 2"
  have srt: "sorted_wrt (<) (map number ?fs)" using "1.prems"(1) by (simp add: table_wf_def)
  have mono: "number (?fs ! i) < number (?fs ! j)" if "i < j" "j < length ?fs" for i j
    using srt that by (auto simp: sorted_wrt_iff_nth_less)
  show ?case
  proof (cases "hi \<ge> int lo")
    case False
    then have "num \<notin> number ` set ?fs"
      using "1.prems"(3) by (fastforce simp: in_set_conv_nth)
    with False show ?thesis
      by (simp add: find_field_search.simps[of m num lo hi] index_of_number_None[THEN iffD2])
  next
    case True
    then have mid: "?mid < length ?fs" "int ?mid \<le> hi" "lo \<le> ?mid"
      using "1.prems"(2) by auto
    have at: "field_at m ?mid = Inr (?fs ! ?mid)" using mid by (simp add: field_at_def)
    consider "number (?fs ! ?mid) = num" | "number (?fs ! ?mid) < num"
      | "num < number (?fs ! ?mid)" by (meson linorder_neqE)
    then show ?thesis
    proof cases
      case 1
      with True at show ?thesis
        using index_of_number_nth[OF srt mid(1)]
        by (simp add: find_field_search.simps[of m num lo hi] Let_def)
    next
      case 2
      have "\<forall>i < length ?fs. number (?fs ! i) = num \<longrightarrow> ?mid + 1 \<le> i \<and> int i \<le> hi"
      proof (intro allI impI)
        fix i assume i: "i < length ?fs" "number (?fs ! i) = num"
        then have "\<not> i < ?mid" "i \<noteq> ?mid" using 2 mono[of i ?mid] mid by auto
        with i "1.prems"(3) show "?mid + 1 \<le> i \<and> int i \<le> hi" by auto
      qed
      with 2 True at "1.IH"(1)[OF True refl at _ 2 "1.prems"(1,2)] show ?thesis
        by (auto simp: find_field_search.simps[of m num lo hi] Let_def)
    next
      case 3
      have "\<forall>i < length ?fs. number (?fs ! i) = num \<longrightarrow> lo \<le> i \<and> int i \<le> int ?mid - 1"
      proof (intro allI impI)
        fix i assume i: "i < length ?fs" "number (?fs ! i) = num"
        then have "\<not> ?mid < i" "i \<noteq> ?mid" using 3 mono[of ?mid i] by auto
        with i "1.prems"(3) show "lo \<le> i \<and> int i \<le> int ?mid - 1" by auto
      qed
      with 3 True at mid "1.IH"(2)[OF True refl at _ _ "1.prems"(1)] show ?thesis
        by (auto simp: find_field_search.simps[of m num lo hi] Let_def)
    qed
  qed
qed

lemma FindFieldByNumber_eq:
  assumes wf: "table_wf m"
  shows "upb_MiniTable_FindFieldByNumber m num = Inr (index_of_number (mt_fields m) num)"
proof -
  let ?fs = "mt_fields m" and ?d = "dense_below m"
  have srt: "sorted_wrt (<) (map number ?fs)" and d: "?d \<le> length ?fs" "length ?fs < 2 ^ 16"
    and dense: "\<And>i. i < ?d \<Longrightarrow> number (?fs ! i) = of_nat (i + 1)"
    using wf by (auto simp: table_wf_def)
  have mono: "number (?fs ! i) < number (?fs ! j)" if "i < j" "j < length ?fs" for i j
    using srt that by (auto simp: sorted_wrt_iff_nth_less)
  have inj: "unat (num - 1) < ?d" if "i < ?d" "number (?fs ! i) = num" for i
    using dense[OF that(1)] that d by (auto simp: unat_of_nat)
  show ?thesis
  proof (cases "unat (num - 1) < ?d")
    case True
    then have "number (?fs ! unat (num - 1)) = num"
      using dense[OF True] by (simp add: of_nat_unat)
    moreover have "unat (num - 1) < length ?fs" using True d by simp
    ultimately show ?thesis
      using True index_of_number_nth[OF srt, of "unat (num - 1)"]
      by (simp add: upb_MiniTable_FindFieldByNumber_def Let_def field_at_def)
  next
    case False
    show ?thesis
    proof (cases "?fs = []")
      case True
      with False show ?thesis by (simp add: upb_MiniTable_FindFieldByNumber_def Let_def)
    next
      case nonempty: False
      let ?last = "?fs ! (length ?fs - 1)"
      have at: "field_at m (nat (int (length ?fs) - 1)) = Inr ?last"
        using nonempty by (cases "mt_fields m") (simp_all add: field_at_def nat_diff_distrib)
      have in_range: "?d \<le> i \<and> int i \<le> int (length ?fs) - 1"
        if "i < length ?fs" "number (?fs ! i) = num" for i
        using that inj[of i] False by (meson int_ops(6) linorder_not_le not_less zle_diff1_eq
            of_nat_less_iff)
      have over: "num \<notin> number ` set ?fs" if big: "num > number ?last"
      proof
        assume "num \<in> number ` set ?fs"
        then obtain i where i: "i < length ?fs" "number (?fs ! i) = num"
          by (auto simp: in_set_conv_nth)
        then have "i \<noteq> length ?fs - 1" using big by auto
        then have "number (?fs ! i) < number ?last" using i mono[of i "length ?fs - 1"] by auto
        with i big show False by auto
      qed
      show ?thesis
        using False nonempty at over in_range
        by (auto simp: upb_MiniTable_FindFieldByNumber_def Let_def
            index_of_number_None[THEN iffD2] intro!: find_field_search_eq[OF wf, symmetric] find_field_search_eq[OF wf])
    qed
  qed
qed

subsection \<open>The fields of a oneof\<close>

text \<open>
  \<open>GetOneof\<close> returns the first field of the table with the same presence; \<open>NextOneofField\<close> the next
  one after a given index.
\<close>

fun first_with_presence :: "upb_MiniTableField list \<Rightarrow> int \<Rightarrow> nat \<Rightarrow> nat option" where
  "first_with_presence [] p i = None"
| "first_with_presence (f # fs) p i =
     (if presence f = p then Some i else first_with_presence fs p (Suc i))"

definition upb_MiniTable_GetOneof :: "upb_MiniTable \<Rightarrow> upb_MiniTableField \<Rightarrow> nat option" where
  "upb_MiniTable_GetOneof m f =
     (if \<not> upb_MiniTableField_IsInOneof f then None
      else first_with_presence (mt_fields m) (presence f) 0)"

definition upb_MiniTable_NextOneofField :: "upb_MiniTable \<Rightarrow> nat \<Rightarrow> nat option" where
  "upb_MiniTable_NextOneofField m i =
     first_with_presence (drop (Suc i) (mt_fields m)) (presence (mt_fields m ! i)) (Suc i)"

text \<open>The loop \<open>do { \<dots> } while (NextOneofField(mt, &f))\<close> visits these indices.\<close>

function oneof_walk :: "upb_MiniTable \<Rightarrow> nat \<Rightarrow> nat list" where
  "oneof_walk m i =
     (if i < length (mt_fields m) then
        i # (case upb_MiniTable_NextOneofField m i of None \<Rightarrow> [] | Some j \<Rightarrow> oneof_walk m j)
      else [])"
  by pat_completeness auto

lemma first_with_presence_Some:
  "first_with_presence fs p i = Some j \<Longrightarrow>
   i \<le> j \<and> j - i < length fs \<and> presence (fs ! (j - i)) = p \<and>
   (\<forall>k < j - i. presence (fs ! k) \<noteq> p)"
proof (induction fs p i rule: first_with_presence.induct)
  case (2 f fs p i)
  show ?case
  proof (cases "presence f = p")
    case True
    with "2.prems" show ?thesis by simp
  next
    case False
    with "2.IH" "2.prems" have r: "Suc i \<le> j" "j - Suc i < length fs"
      "presence (fs ! (j - Suc i)) = p" "\<forall>k < j - Suc i. presence (fs ! k) \<noteq> p"
      by auto
    then have ji: "j - i = Suc (j - Suc i)" by simp
    have "\<forall>k < j - i. presence ((f # fs) ! k) \<noteq> p"
      using False r(4) by (auto simp: ji less_Suc_eq_0_disj)
    with r ji show ?thesis by auto
  qed
qed simp

lemma first_with_presence_None:
  "first_with_presence fs p i = None \<longleftrightarrow> (\<forall>f \<in> set fs. presence f \<noteq> p)"
  by (induction fs p i rule: first_with_presence.induct) auto

termination oneof_walk
  by (relation "measure (\<lambda>(m, i). length (mt_fields m) - i)")
    (auto simp: upb_MiniTable_NextOneofField_def dest!: first_with_presence_Some)

declare oneof_walk.simps [simp del]

text \<open>The walk from index \<open>i\<close> lists, in order, every field from \<open>i\<close> on in the same oneof.\<close>

lemma oneof_walk_eq:
  "i < length (mt_fields m) \<Longrightarrow>
   oneof_walk m i = filter (\<lambda>j. presence (mt_fields m ! j) = presence (mt_fields m ! i))
     [i..<length (mt_fields m)]"
proof (induction m i rule: oneof_walk.induct)
  case (1 m i)
  let ?fs = "mt_fields m" and ?P = "\<lambda>j. presence (mt_fields m ! j) = presence (mt_fields m ! i)"
  have head: "filter ?P [i..<length ?fs] = i # filter ?P [Suc i..<length ?fs]"
    using "1.prems" by (simp add: upt_conv_Cons)
  show ?case
  proof (cases "upb_MiniTable_NextOneofField m i")
    case None
    then have "\<forall>j \<in> set [Suc i..<length ?fs]. \<not> ?P j"
      by (auto simp: upb_MiniTable_NextOneofField_def first_with_presence_None set_conv_nth
          Suc_le_eq)
    then show ?thesis
      using None "1.prems" by (simp add: oneof_walk.simps[of m i] head filter_False)
  next
    case (Some j)
    note r = first_with_presence_Some[OF Some[unfolded upb_MiniTable_NextOneofField_def]]
    then have "Suc i + (j - Suc i) = j" by simp
    with r "1.prems" have j: "Suc i \<le> j" "j < length ?fs" "?P j"
      "\<forall>k < j - Suc i. \<not> ?P (Suc i + k)"
      by (auto simp: less_diff_conv)
    have "[Suc i..<length ?fs] = [Suc i..<j] @ [j..<length ?fs]"
      using j upt_add_eq_append[of "Suc i" j "length ?fs - j"] by simp
    moreover have "\<not> ?P x" if "x \<in> set [Suc i..<j]" for x
    proof -
      have "Suc i + (x - Suc i) = x" "x - Suc i < j - Suc i" using that by auto
      with j(4) show ?thesis by metis
    qed
    then have "filter ?P [Suc i..<j] = []" by (simp add: filter_empty_conv)
    ultimately have "filter ?P [Suc i..<length ?fs] = filter ?P [j..<length ?fs]"
      by simp
    also have "\<dots> = oneof_walk m j"
      using "1.IH"[OF "1.prems" Some] j by simp
    finally show ?thesis
      using Some "1.prems" by (simp add: oneof_walk.simps[of m i] head)
  qed
qed

subsection \<open>Properties\<close>

text \<open>
  C36: field lookup. On a well-formed table \<open>upb_MiniTable_FindFieldByNumber\<close>, with its dense index
  and its binary search, reads no field outside the table and returns exactly what a scan from left
  to right returns, for every number.
\<close>

theorem FindFieldByNumber_correct:
  assumes "table_wf m"
  shows "upb_MiniTable_FindFieldByNumber m num = Inr (index_of_number (mt_fields m) num)"
  by (rule FindFieldByNumber_eq[OF assms])

definition example_field :: "u32 \<Rightarrow> upb_MiniTableField" where
  "example_field n = \<lparr>number = n, offset = 8, presence = 0, submsg = NoSub,
     descriptortype = kUpb_FieldType_Int32, mode = 0x42\<rparr>"

definition example_table :: upb_MiniTable where
  "example_table = \<lparr>mt_fields = map example_field [1, 2, 5, 100],
     ext = kUpb_ExtMode_NonExtendable, dense_below = 2, required_count = 0\<rparr>"

theorem FindFieldByNumber_correct_witness:
  "upb_MiniTable_FindFieldByNumber example_table 5 = Inr (Some 2)"
proof -
  have "table_wf example_table"
    by (auto simp: table_wf_def example_table_def example_field_def less_2_cases_iff)
  from FindFieldByNumber_correct[OF this, of 5] show ?thesis
    by (simp add: example_table_def example_field_def)
qed

text \<open>
  C37: closed enums. On a well-formed enum table \<open>upb_MiniTableEnum_CheckValue\<close> stays within the
  data array and answers whether the value is one of the table's: a bit of the mask below
  \<open>mask_limit\<close>, a member of the list from there on.
\<close>

theorem CheckValue_correct:
  assumes "enum_wf t"
  shows "upb_MiniTableEnum_CheckValue t val = Inr (val \<in> enum_values t)"
  by (rule CheckValue_eq[OF assms])

definition example_enum :: upb_MiniTableEnum where
  "example_enum = \<lparr>mask_limit = 64, value_count = 1, enum_data = [5, 0, 1000]\<rparr>"

theorem CheckValue_correct_witness: "upb_MiniTableEnum_CheckValue example_enum 1000 = Inr True"
proof -
  have "enum_wf example_enum" by (simp add: enum_wf_def example_enum_def)
  from CheckValue_correct[OF this, of 1000] show ?thesis
    by (simp add: enum_values_def example_enum_def)
qed



end
