(* ===== verification/Message_Model.thy ===== *)
theory Message_Model
  imports Mini_Table
begin

text \<open>
  Messages in memory: \<open>upb/message/internal/message.h\<close>, \<open>accessors.h\<close>, \<open>map.h\<close> and \<open>extension.h\<close>.
  A message is the cells at the offsets its layout assigns, its hasbits, its oneof cases, its
  unknown-field chunks and its extensions. Memory that was never written is zero, as
  \<open>_upb_Message_New\<close> leaves it, so a missing cell reads as the zero of the type asked for.
  \<open>double\<close> and \<open>float\<close> are kept as their bit patterns: the code only copies them.
\<close>

datatype upb_tabkey = KeyNum u64 | KeyStr "byte list"

datatype upb_Message =
    Message
      (msg_cells: "(nat \<times> upb_Cell) list")
      (msg_hasbits: "nat list")
      (msg_oneofs: "(nat \<times> u32) list")
      (msg_unknown: "byte list list")
      (msg_exts: "(upb_MiniTableField \<times> upb_Cell) list")
and upb_Cell =
    Cell1 byte
  | Cell4 u32
  | Cell8 u64
  | CellStr "byte list"
  | CellMsg "upb_Message option"
  | CellArr "upb_Cell list option"
  | CellMap "upb_Map option"
and upb_Map =
    Map
      (is_strtable: bool)
      (map_array: "upb_Cell option list")
      (map_table: "(upb_tabkey \<times> upb_Cell) list")
      (key_size: nat)
      (val_size: nat)

definition empty_msg :: upb_Message where
  "empty_msg = Message [] [] [] [] []"

text \<open>The presence bits and the oneof case of a field.\<close>

definition upb_Message_GetHasbit :: "upb_Message \<Rightarrow> upb_MiniTableField \<Rightarrow> bool" where
  "upb_Message_GetHasbit msg f \<longleftrightarrow> nat (presence f) \<in> set (msg_hasbits msg)"

definition upb_Message_GetOneofCase :: "upb_Message \<Rightarrow> upb_MiniTableField \<Rightarrow> u32" where
  "upb_Message_GetOneofCase msg f =
     (case map_of (msg_oneofs msg) (upb_MiniTableField_OneofOffset f) of
        None \<Rightarrow> 0 | Some c \<Rightarrow> c)"

text \<open>
  The low hasbits of a message start right after its 8-byte header, at bit 64, and the required
  fields of a layout have the first \<open>required_count\<close> of them.
\<close>

definition upb_Message_IsInitializedShallow :: "upb_Message \<Rightarrow> upb_MiniTable \<Rightarrow> bool" where
  "upb_Message_IsInitializedShallow msg m \<longleftrightarrow>
     (\<forall>k \<in> set [0..<required_count m]. 64 + k \<in> set (msg_hasbits msg))"

text \<open>
  Loads of the scalar in a cell at each width. A cell of another width is memory the layout does
  not describe, and reading it is a fault.
\<close>

definition load1 :: "upb_Cell option \<Rightarrow> byte res" where
  "load1 c = (case c of None \<Rightarrow> Inr 0 | Some (Cell1 b) \<Rightarrow> Inr b | _ \<Rightarrow> Inl OutOfBounds)"

definition load4 :: "upb_Cell option \<Rightarrow> u32 res" where
  "load4 c = (case c of None \<Rightarrow> Inr 0 | Some (Cell4 w) \<Rightarrow> Inr w | _ \<Rightarrow> Inl OutOfBounds)"

definition load8 :: "upb_Cell option \<Rightarrow> u64 res" where
  "load8 c = (case c of None \<Rightarrow> Inr 0 | Some (Cell8 w) \<Rightarrow> Inr w | _ \<Rightarrow> Inl OutOfBounds)"

definition load_str :: "upb_Cell option \<Rightarrow> byte list res" where
  "load_str c = (case c of None \<Rightarrow> Inr [] | Some (CellStr s) \<Rightarrow> Inr s | _ \<Rightarrow> Inl OutOfBounds)"

definition load_msg :: "upb_Cell option \<Rightarrow> upb_Message option res" where
  "load_msg c = (case c of None \<Rightarrow> Inr None | Some (CellMsg m) \<Rightarrow> Inr m | _ \<Rightarrow> Inl OutOfBounds)"

definition load_arr :: "upb_Cell option \<Rightarrow> upb_Cell list option res" where
  "load_arr c = (case c of None \<Rightarrow> Inr None | Some (CellArr a) \<Rightarrow> Inr a | _ \<Rightarrow> Inl OutOfBounds)"

definition load_map :: "upb_Cell option \<Rightarrow> upb_Map option res" where
  "load_map c = (case c of None \<Rightarrow> Inr None | Some (CellMap m) \<Rightarrow> Inr m | _ \<Rightarrow> Inl OutOfBounds)"

definition cell_at :: "upb_Message \<Rightarrow> upb_MiniTableField \<Rightarrow> upb_Cell option" where
  "cell_at msg f = map_of (msg_cells msg) (unat (offset f))"

text \<open>How deep messages nest: the recursion depth of the encoder.\<close>

primrec msg_height :: "upb_Message \<Rightarrow> nat"
  and cell_height :: "upb_Cell \<Rightarrow> nat"
  and map_height :: "upb_Map \<Rightarrow> nat" where
  "msg_height (Message cs hb oo un xs) =
     Suc (max (Max (set (0 # map snd (map (map_prod id cell_height) cs))))
              (Max (set (0 # map snd (map (map_prod id cell_height) xs)))))"
| "cell_height (Cell1 b) = 0"
| "cell_height (Cell4 w) = 0"
| "cell_height (Cell8 w) = 0"
| "cell_height (CellStr s) = 0"
| "cell_height (CellMsg m) = (case map_option msg_height m of None \<Rightarrow> 0 | Some h \<Rightarrow> h)"
| "cell_height (CellArr a) =
     (case map_option (map cell_height) a of None \<Rightarrow> 0 | Some hs \<Rightarrow> Max (set (0 # hs)))"
| "cell_height (CellMap m) = (case map_option map_height m of None \<Rightarrow> 0 | Some h \<Rightarrow> h)"
| "map_height (Map s ar tb ks vs) =
     max (Max (set (0 # map (\<lambda>x. case x of None \<Rightarrow> 0 | Some h \<Rightarrow> h)
                          (map (map_option cell_height) ar))))
         (Max (set (0 # map snd (map (map_prod id cell_height) tb))))"

end
