(* ===== verification/Map_Sorter.thy ===== *)
theory Map_Sorter
  imports Message_Model "HOL-Library.Multiset"
begin

text \<open>
  Sorting of map entries and extensions for deterministic output: \<open>upb/message/map_sorter.c\<close> and
  \<open>upb/message/internal/map_sorter.h\<close>. A comparison returns the sign C returns. \<open>qsort\<close> is the C
  library's: the model uses an insertion sort, and the lemmas show that the comparisons are total
  orders on the keys of a map, so every correct sort gives this one result, whatever the order of
  the hash table it started from.
\<close>

subsection \<open>Comparisons\<close>

text \<open>Integer keys of an \<open>inttable\<close>: the unsigned \<open>key.num\<close>.\<close>

definition upb_mapsorter_intkeys :: "u64 \<Rightarrow> u64 \<Rightarrow> int" where
  "upb_mapsorter_intkeys a b = (if a < b then -1 else if a > b then 1 else 0)"

text \<open>
  Keys of a \<open>strtable\<close> are raw bytes. \<open>_upb_mapsorter_getkeys\<close> copies them into a scalar of the key
  type, little-endian, or leaves them as a string.
\<close>

definition upb_mapsorter_cmpi64 :: "byte list \<Rightarrow> byte list \<Rightarrow> int" where
  "upb_mapsorter_cmpi64 a b =
     (let x = sint (le_word a :: u64); y = sint (le_word b :: u64)
      in if x < y then -1 else if x > y then 1 else 0)"

definition upb_mapsorter_cmpu64 :: "byte list \<Rightarrow> byte list \<Rightarrow> int" where
  "upb_mapsorter_cmpu64 a b =
     (let x = (le_word a :: u64); y = le_word b
      in if x < y then -1 else if x > y then 1 else 0)"

definition upb_mapsorter_cmpi32 :: "byte list \<Rightarrow> byte list \<Rightarrow> int" where
  "upb_mapsorter_cmpi32 a b =
     (let x = sint (le_word a :: u32); y = sint (le_word b :: u32)
      in if x < y then -1 else if x > y then 1 else 0)"

definition upb_mapsorter_cmpu32 :: "byte list \<Rightarrow> byte list \<Rightarrow> int" where
  "upb_mapsorter_cmpu32 a b =
     (let x = (le_word a :: u32); y = le_word b
      in if x < y then -1 else if x > y then 1 else 0)"

definition upb_mapsorter_cmpbool :: "byte list \<Rightarrow> byte list \<Rightarrow> int" where
  "upb_mapsorter_cmpbool a b =
     (let x = (le_word a :: byte); y = le_word b
      in if x < y then -1 else if x > y then 1 else 0)"

text \<open>\<open>memcmp\<close> on two equally long byte strings: the sign of the first difference.\<close>

fun memcmp :: "byte list \<Rightarrow> byte list \<Rightarrow> int" where
  "memcmp (x # xs) (y # ys) = (if x < y then -1 else if x > y then 1 else memcmp xs ys)"
| "memcmp _ _ = 0"

definition upb_mapsorter_cmpstr :: "byte list \<Rightarrow> byte list \<Rightarrow> int" where
  "upb_mapsorter_cmpstr a b =
     (let common_size = min (length a) (length b);
          cmp = memcmp (take common_size a) (take common_size b)
      in if cmp \<noteq> 0 then - cmp
         else if length a < length b then -1 else if length a > length b then 1 else 0)"

text \<open>The \<open>compar\<close> table; types that cannot be map keys have a null entry.\<close>

definition compar :: "upb_FieldType \<Rightarrow> (byte list \<Rightarrow> byte list \<Rightarrow> int) option" where
  "compar t =
     (case t of
        kUpb_FieldType_Int64 \<Rightarrow> Some upb_mapsorter_cmpi64
      | kUpb_FieldType_SFixed64 \<Rightarrow> Some upb_mapsorter_cmpi64
      | kUpb_FieldType_SInt64 \<Rightarrow> Some upb_mapsorter_cmpi64
      | kUpb_FieldType_UInt64 \<Rightarrow> Some upb_mapsorter_cmpu64
      | kUpb_FieldType_Fixed64 \<Rightarrow> Some upb_mapsorter_cmpu64
      | kUpb_FieldType_Int32 \<Rightarrow> Some upb_mapsorter_cmpi32
      | kUpb_FieldType_SInt32 \<Rightarrow> Some upb_mapsorter_cmpi32
      | kUpb_FieldType_SFixed32 \<Rightarrow> Some upb_mapsorter_cmpi32
      | kUpb_FieldType_Enum \<Rightarrow> Some upb_mapsorter_cmpi32
      | kUpb_FieldType_UInt32 \<Rightarrow> Some upb_mapsorter_cmpu32
      | kUpb_FieldType_Fixed32 \<Rightarrow> Some upb_mapsorter_cmpu32
      | kUpb_FieldType_Bool \<Rightarrow> Some upb_mapsorter_cmpbool
      | kUpb_FieldType_String \<Rightarrow> Some upb_mapsorter_cmpstr
      | kUpb_FieldType_Bytes \<Rightarrow> Some upb_mapsorter_cmpstr
      | _ \<Rightarrow> None)"

subsection \<open>Sorting\<close>

fun insert_by :: "('a \<Rightarrow> 'a \<Rightarrow> int) \<Rightarrow> 'a \<Rightarrow> 'a list \<Rightarrow> 'a list" where
  "insert_by cmp x [] = [x]"
| "insert_by cmp x (y # ys) = (if cmp x y \<le> 0 then x # y # ys else y # insert_by cmp x ys)"

fun qsort :: "('a \<Rightarrow> 'a \<Rightarrow> int) \<Rightarrow> 'a list \<Rightarrow> 'a list" where
  "qsort cmp [] = []"
| "qsort cmp (x # xs) = insert_by cmp x (qsort cmp xs)"

text \<open>
  \<open>_upb_mapsorter_pushmap\<close> sorts the table entries; for an \<open>inttable\<close> the array part is already in
  order and is not among them.
\<close>

definition tabkey_cmp ::
    "(byte list \<Rightarrow> byte list \<Rightarrow> int) \<Rightarrow> (upb_tabkey \<times> upb_Cell) \<Rightarrow> (upb_tabkey \<times> upb_Cell) \<Rightarrow> int" where
  "tabkey_cmp strcmp a b =
     (case (fst a, fst b) of
        (KeyNum x, KeyNum y) \<Rightarrow> upb_mapsorter_intkeys x y
      | (KeyStr x, KeyStr y) \<Rightarrow> strcmp x y
      | _ \<Rightarrow> 0)"

definition upb_mapsorter_pushmap ::
    "upb_FieldType \<Rightarrow> upb_Map \<Rightarrow> (upb_tabkey \<times> upb_Cell) list res" where
  "upb_mapsorter_pushmap key_type m =
     (if is_strtable m then
        case compar key_type of
          None \<Rightarrow> Inl OutOfBounds
        | Some cmp \<Rightarrow> Inr (qsort (tabkey_cmp cmp) (map_table m))
      else Inr (qsort (tabkey_cmp (\<lambda>_ _. 0)) (map_table m)))"

definition upb_mapsorter_cmpext ::
    "(upb_MiniTableField \<times> upb_Cell) \<Rightarrow> (upb_MiniTableField \<times> upb_Cell) \<Rightarrow> int" where
  "upb_mapsorter_cmpext a b = (if number (fst a) < number (fst b) then -1 else 1)"

definition upb_mapsorter_pushexts :: "upb_Message \<Rightarrow> (upb_MiniTableField \<times> upb_Cell) list" where
  "upb_mapsorter_pushexts msg = qsort upb_mapsorter_cmpext (msg_exts msg)"

subsection \<open>Sorting is unique\<close>

text \<open>
  What \<open>qsort\<close> asks of a comparison function: on the elements at hand it is a total order in which
  only equal elements compare as equal.
\<close>

locale comparison =
  fixes cmp :: "'a \<Rightarrow> 'a \<Rightarrow> int" and S :: "'a set"
  assumes total: "a \<in> S \<Longrightarrow> b \<in> S \<Longrightarrow> cmp a b \<le> 0 \<or> cmp b a \<le> 0"
    and trans: "a \<in> S \<Longrightarrow> b \<in> S \<Longrightarrow> c \<in> S \<Longrightarrow> cmp a b \<le> 0 \<Longrightarrow> cmp b c \<le> 0 \<Longrightarrow> cmp a c \<le> 0"
    and antisym: "a \<in> S \<Longrightarrow> b \<in> S \<Longrightarrow> cmp a b \<le> 0 \<Longrightarrow> cmp b a \<le> 0 \<Longrightarrow> a = b"
begin

definition ordered :: "'a list \<Rightarrow> bool" where
  "ordered xs \<longleftrightarrow> sorted_wrt (\<lambda>a b. cmp a b \<le> 0) xs"

lemma mset_insert_by: "mset (insert_by cmp x xs) = add_mset x (mset xs)"
  by (induction xs) auto

lemma mset_qsort: "mset (qsort cmp xs) = mset xs"
  by (induction xs) (auto simp: mset_insert_by)

lemma set_insert_by: "set (insert_by cmp x xs) = insert x (set xs)"
  by (metis mset_insert_by set_mset_add_mset_insert set_mset_mset)

lemma ordered_insert_by:
  "set (x # xs) \<subseteq> S \<Longrightarrow> ordered xs \<Longrightarrow> ordered (insert_by cmp x xs)"
proof (induction xs)
  case (Cons y ys)
  show ?case
  proof (cases "cmp x y \<le> 0")
    case True
    then have "cmp x z \<le> 0" if "z \<in> set ys" for z
      using Cons.prems that trans[of x y z] by (auto simp: ordered_def)
    with True Cons.prems show ?thesis by (auto simp: ordered_def)
  next
    case False
    then have "cmp y x \<le> 0" using Cons.prems total[of x y] by auto
    with False Cons show ?thesis by (auto simp: ordered_def set_insert_by)
  qed
qed (simp add: ordered_def)

lemma ordered_qsort: "set xs \<subseteq> S \<Longrightarrow> ordered (qsort cmp xs)"
proof (induction xs)
  case (Cons x xs)
  have "set (qsort cmp xs) = set xs" by (metis mset_qsort set_mset_mset)
  with Cons show ?case by (auto intro!: ordered_insert_by)
qed (simp add: ordered_def)

lemma ordered_unique: "set xs \<subseteq> S \<Longrightarrow> mset ys = mset xs \<Longrightarrow> ordered xs \<Longrightarrow> ordered ys \<Longrightarrow> ys = xs"
proof (induction xs arbitrary: ys)
  case (Cons x xs)
  then obtain y zs where ys: "ys = y # zs" by (cases ys) auto
  have sets: "set ys = set (x # xs)" using Cons.prems(2) by (metis set_mset_mset)
  have "x = y"
  proof (rule ccontr)
    assume ne: "x \<noteq> y"
    then have "y \<in> set xs" "x \<in> set zs" using sets ys by auto
    then have "cmp x y \<le> 0" "cmp y x \<le> 0" using Cons.prems(3,4) ys by (auto simp: ordered_def)
    then show False using ne antisym[of x y] Cons.prems(1) \<open>y \<in> set xs\<close> by auto
  qed
  moreover have "zs = xs"
    using Cons.prems ys \<open>x = y\<close> by (intro Cons.IH) (auto simp: ordered_def)
  ultimately show ?case using ys by simp
qed simp

text \<open>Any sort gives the same list, from any order of the input.\<close>

lemma sort_unique:
  assumes "set xs \<subseteq> S" and "mset ys = mset xs" and "ordered ys"
  shows "ys = qsort cmp xs"
  using assms ordered_unique[of "qsort cmp xs" ys] ordered_qsort[OF assms(1)] mset_qsort[of xs]
  by (metis set_mset_mset)

lemma qsort_perm:
  assumes "set xs \<subseteq> S" and "mset ys = mset xs"
  shows "qsort cmp ys = qsort cmp xs"
proof (rule sort_unique[OF assms(1)])
  show "mset (qsort cmp ys) = mset xs" using assms(2) by (simp add: mset_qsort)
  have "set ys \<subseteq> S" using assms by (metis set_mset_mset)
  then show "ordered (qsort cmp ys)" by (rule ordered_qsort)
qed

end

subsection \<open>The comparisons of the keys\<close>

text \<open>A comparison of the integers that an injective reading of the keys gives.\<close>

lemma comparison_by_key:
  fixes g :: "'a \<Rightarrow> 'b::linorder"
  assumes "inj_on g S"
    and "\<And>a b. cmp a b = (if g a < g b then -1 else if g a > g b then 1 else 0)"
  shows "comparison cmp S"
  using assms(1) by unfold_locales (auto simp: assms(2) split: if_splits dest: inj_onD)

lemma le_nat_inj: "length a = length b \<Longrightarrow> le_nat a = le_nat b \<Longrightarrow> a = b"
proof (induction a b rule: list_induct2)
  case (Cons x xs y ys)
  have "unat x = (unat x + 256 * le_nat xs) mod 256" using byte_lt[of x] by simp
  moreover have "unat y = (unat y + 256 * le_nat ys) mod 256" using byte_lt[of y] by simp
  ultimately have "unat x = unat y" using Cons.prems by (metis le_nat.simps(2))
  moreover from this have "le_nat xs = le_nat ys" using Cons.prems by simp
  ultimately show ?case using Cons.IH unsigned_word_eqI by auto
qed simp

lemma le_nat_bound: "le_nat bs < 256 ^ length bs"
proof (induction bs)
  case (Cons b bs)
  have "unat b < 256" by (rule byte_lt)
  moreover have "le_nat bs + 1 \<le> 256 ^ length bs" using Cons by simp
  ultimately have "unat b + 256 * le_nat bs < 256 * 256 ^ length bs" by linarith
  then show ?case by simp
qed simp

lemma le_word_inj:
  assumes "LENGTH('a) = 8 * n"
  shows "inj_on (le_word :: byte list \<Rightarrow> 'a::len word) {k. length k = n}"
proof (rule inj_onI)
  fix a b assume l: "a \<in> {k. length k = n}" "b \<in> {k. length k = n}"
    and eq: "le_word a = (le_word b :: 'a word)"
  have "le_nat a < 2 ^ LENGTH('a)" "le_nat b < 2 ^ LENGTH('a)"
    using le_nat_bound[of a] le_nat_bound[of b] l assms by (simp_all add: power_mult)
  then have "le_nat a = le_nat b"
    using arg_cong[OF eq, of unat] unfolding le_word_def
    by (simp add: unsigned_of_nat take_bit_nat_eq_self)
  with l show "a = b" by (intro le_nat_inj) auto
qed

interpretation cmpi64: comparison upb_mapsorter_cmpi64 "{k. length k = 8}"
proof (rule comparison_by_key)
  show "inj_on (\<lambda>k. sint (le_word k :: u64)) {k. length k = 8}"
    using le_word_inj[where 'a = 64 and n = 8] by (auto simp: inj_on_def dest: signed_word_eqI)
qed (simp add: upb_mapsorter_cmpi64_def Let_def)

interpretation cmpu64: comparison upb_mapsorter_cmpu64 "{k. length k = 8}"
  by (rule comparison_by_key[where g = "le_word :: _ \<Rightarrow> u64"])
    (use le_word_inj[where 'a = 64 and n = 8] in \<open>auto simp: upb_mapsorter_cmpu64_def Let_def\<close>)

interpretation cmpi32: comparison upb_mapsorter_cmpi32 "{k. length k = 4}"
proof (rule comparison_by_key)
  show "inj_on (\<lambda>k. sint (le_word k :: u32)) {k. length k = 4}"
    using le_word_inj[where 'a = 32 and n = 4] by (auto simp: inj_on_def dest: signed_word_eqI)
qed (simp add: upb_mapsorter_cmpi32_def Let_def)

interpretation cmpu32: comparison upb_mapsorter_cmpu32 "{k. length k = 4}"
  by (rule comparison_by_key[where g = "le_word :: _ \<Rightarrow> u32"])
    (use le_word_inj[where 'a = 32 and n = 4] in \<open>auto simp: upb_mapsorter_cmpu32_def Let_def\<close>)

interpretation cmpbool: comparison upb_mapsorter_cmpbool "{k. length k = 1}"
  by (rule comparison_by_key[where g = "le_word :: _ \<Rightarrow> byte"])
    (use le_word_inj[where 'a = 8 and n = 1] in \<open>auto simp: upb_mapsorter_cmpbool_def Let_def\<close>)


text \<open>Strings: the reverse of the byte order at the first difference, then the shorter one first.\<close>

fun cmpstr_le :: "byte list \<Rightarrow> byte list \<Rightarrow> bool" where
  "cmpstr_le [] _ = True"
| "cmpstr_le (x # xs) [] = False"
| "cmpstr_le (x # xs) (y # ys) = (x > y \<or> x = y \<and> cmpstr_le xs ys)"

lemma cmpstr_Cons:
  "upb_mapsorter_cmpstr (x # xs) (y # ys) =
   (if x < y then 1 else if x > y then -1 else upb_mapsorter_cmpstr xs ys)"
  by (simp add: upb_mapsorter_cmpstr_def Let_def)

lemma cmpstr_le_iff: "upb_mapsorter_cmpstr a b \<le> 0 \<longleftrightarrow> cmpstr_le a b"
  by (induction a b rule: cmpstr_le.induct)
    (auto simp: cmpstr_Cons, auto simp: upb_mapsorter_cmpstr_def)

lemma cmpstr_le_total: "cmpstr_le a b \<or> cmpstr_le b a"
  by (induction a b rule: cmpstr_le.induct) auto

lemma cmpstr_le_antisym: "cmpstr_le a b \<Longrightarrow> cmpstr_le b a \<Longrightarrow> a = b"
proof (induction a b rule: cmpstr_le.induct)
  case (1 b)
  then show ?case by (cases b) auto
qed auto

lemma cmpstr_le_trans: "cmpstr_le a b \<Longrightarrow> cmpstr_le b c \<Longrightarrow> cmpstr_le a c"
proof (induction a b arbitrary: c rule: cmpstr_le.induct)
  case (3 x xs y ys)
  then show ?case by (cases c) auto
qed auto

interpretation cmpstr: comparison upb_mapsorter_cmpstr UNIV
  by unfold_locales
    (auto simp: cmpstr_le_iff cmpstr_le_total intro: cmpstr_le_trans cmpstr_le_antisym)

interpretation intkeys: comparison upb_mapsorter_intkeys UNIV
  by (rule comparison_by_key[where g = id]) (auto simp: upb_mapsorter_intkeys_def)

text \<open>The bytes a key of each type has in a string table.\<close>

definition key_of_type :: "upb_FieldType \<Rightarrow> byte list \<Rightarrow> bool" where
  "key_of_type t k =
     (case t of
        kUpb_FieldType_Int64 \<Rightarrow> length k = 8 | kUpb_FieldType_SFixed64 \<Rightarrow> length k = 8
      | kUpb_FieldType_SInt64 \<Rightarrow> length k = 8 | kUpb_FieldType_UInt64 \<Rightarrow> length k = 8
      | kUpb_FieldType_Fixed64 \<Rightarrow> length k = 8
      | kUpb_FieldType_Bool \<Rightarrow> length k = 1
      | kUpb_FieldType_String \<Rightarrow> True | kUpb_FieldType_Bytes \<Rightarrow> True
      | _ \<Rightarrow> length k = 4)"

lemma compar_comparison: "compar t = Some cmp \<Longrightarrow> comparison cmp {k. key_of_type t k}"
  by (cases t)
    (auto simp: compar_def key_of_type_def intro: cmpi64.comparison_axioms cmpu64.comparison_axioms
      cmpi32.comparison_axioms cmpu32.comparison_axioms
      cmpbool.comparison_axioms[simplified] cmpstr.comparison_axioms)

text \<open>Entries with distinct keys are ordered by their keys.\<close>

lemma entries_comparison:
  assumes k: "comparison cmp K" and d: "distinct (map fst xs)"
    and key: "\<And>x. x \<in> set xs \<Longrightarrow> key (fst x) \<in> K" and inj: "inj_on key (fst ` set xs)"
    and ecmp: "\<And>a b. a \<in> set xs \<Longrightarrow> b \<in> set xs \<Longrightarrow> ecmp a b = cmp (key (fst a)) (key (fst b))"
  shows "comparison ecmp (set xs)"
proof unfold_locales
  fix a b c assume a: "a \<in> set xs" and b: "b \<in> set xs"
  show "ecmp a b \<le> 0 \<or> ecmp b a \<le> 0"
    using comparison.total[OF k key[OF a] key[OF b]] a b by (simp add: ecmp)
  show "ecmp a c \<le> 0" if "c \<in> set xs" "ecmp a b \<le> 0" "ecmp b c \<le> 0"
    using comparison.trans[OF k key[OF a] key[OF b] key[OF that(1)]] a b that by (simp add: ecmp)
  show "a = b" if "ecmp a b \<le> 0" "ecmp b a \<le> 0"
  proof -
    have "key (fst a) = key (fst b)"
      using comparison.antisym[OF k key[OF a] key[OF b]] that a b by (simp add: ecmp)
    then have "fst a = fst b" using inj a b by (simp add: inj_on_def)
    then show ?thesis using d a b by (metis eq_key_imp_eq_value prod.collapse)
  qed
qed

definition table_keys_ok :: "upb_FieldType \<Rightarrow> upb_Map \<Rightarrow> bool" where
  "table_keys_ok t m \<longleftrightarrow>
     distinct (map fst (map_table m)) \<and>
     (\<forall>k \<in> set (map fst (map_table m)).
        case k of KeyStr s \<Rightarrow> is_strtable m \<and> key_of_type t s | KeyNum n \<Rightarrow> \<not> is_strtable m)"

lemma pushmap_comparison:
  assumes ok: "table_keys_ok t m"
  shows "is_strtable m \<Longrightarrow> compar t = Some cmp \<Longrightarrow>
      comparison (tabkey_cmp cmp) (set (map_table m))"
    and "\<not> is_strtable m \<Longrightarrow> comparison (tabkey_cmp (\<lambda>_ _. 0)) (set (map_table m))"
proof -
  have d: "distinct (map fst (map_table m))" using ok by (simp add: table_keys_ok_def)
  let ?str = "\<lambda>k. case k of KeyStr s \<Rightarrow> s | KeyNum n \<Rightarrow> []"
  let ?num = "\<lambda>k. case k of KeyNum n \<Rightarrow> n | KeyStr s \<Rightarrow> 0"
  show "comparison (tabkey_cmp cmp) (set (map_table m))" if s: "is_strtable m" "compar t = Some cmp"
  proof (rule entries_comparison[OF compar_comparison[OF s(2)] d, where key = ?str])
    have keys: "\<exists>b. fst x = KeyStr b \<and> key_of_type t b" if "x \<in> set (map_table m)" for x
      using ok s that by (cases "fst x") (auto simp: table_keys_ok_def split: upb_tabkey.splits)
    then show "?str (fst x) \<in> {k. key_of_type t k}" if "x \<in> set (map_table m)" for x
      using that by fastforce
    show "inj_on ?str (fst ` set (map_table m))"
      using keys by (auto simp: inj_on_def) (metis upb_tabkey.case(2))
    show "tabkey_cmp cmp a b = cmp (?str (fst a)) (?str (fst b))"
      if "a \<in> set (map_table m)" "b \<in> set (map_table m)" for a b
      using keys[OF that(1)] keys[OF that(2)] by (auto simp: tabkey_cmp_def)
  qed
  show "comparison (tabkey_cmp (\<lambda>_ _. 0)) (set (map_table m))" if s: "\<not> is_strtable m"
  proof (rule entries_comparison[OF intkeys.comparison_axioms d, where key = ?num])
    have keys: "\<exists>b. fst x = KeyNum b" if "x \<in> set (map_table m)" for x
      using ok s that by (cases "fst x") (auto simp: table_keys_ok_def split: upb_tabkey.splits)
    then show "inj_on ?num (fst ` set (map_table m))"
      by (auto simp: inj_on_def) (metis upb_tabkey.case(1))
    show "tabkey_cmp (\<lambda>_ _. 0) a b = upb_mapsorter_intkeys (?num (fst a)) (?num (fst b))"
      if "a \<in> set (map_table m)" "b \<in> set (map_table m)" for a b
      using keys[OF that(1)] keys[OF that(2)] by (auto simp: tabkey_cmp_def)
  qed simp
qed

lemma pushmap_perm:
  assumes "table_keys_ok t m" and "is_strtable m' = is_strtable m"
    and "mset (map_table m') = mset (map_table m)"
  shows "upb_mapsorter_pushmap t m' = upb_mapsorter_pushmap t m"
  using assms pushmap_comparison[OF assms(1)]
  by (auto simp: upb_mapsorter_pushmap_def comparison.qsort_perm[OF _ order.refl] split: option.split)

text \<open>Extensions have distinct numbers, so their order is the order of the numbers.\<close>

lemma qsort_cong:
  assumes "distinct xs"
    and "\<And>a b. a \<in> set xs \<Longrightarrow> b \<in> set xs \<Longrightarrow> a \<noteq> b \<Longrightarrow> cmp a b \<le> 0 \<longleftrightarrow> cmp' a b \<le> 0"
  shows "set (qsort cmp xs) = set xs \<and> qsort cmp xs = qsort cmp' xs"
  using assms
proof (induction xs)
  case (Cons x xs)
  have "set (insert_by cmp x ys) = insert x (set ys) \<and> insert_by cmp x ys = insert_by cmp' x ys"
    if "set ys \<subseteq> set xs" for ys
    using that Cons.prems by (induction ys) auto
  from this[of "qsort cmp xs"] Cons show ?case by auto
qed simp

lemma pushexts_perm:
  assumes d: "distinct (map (\<lambda>x. number (fst x)) (msg_exts msg))"
    and p: "mset (msg_exts msg') = mset (msg_exts msg)"
  shows "upb_mapsorter_pushexts msg' = upb_mapsorter_pushexts msg"
proof -
  let ?n = "\<lambda>x :: upb_MiniTableField \<times> upb_Cell. number (fst x)"
  let ?cmp = "\<lambda>a b. if ?n a < ?n b then -1 else if ?n a > ?n b then 1 else 0 :: int"
  have inj: "inj_on ?n (set (msg_exts msg))" using d by (simp add: distinct_map)
  have d2: "distinct (msg_exts msg)" "distinct (msg_exts msg')"
    using d p by (metis distinct_map mset_eq_imp_distinct_iff)+
  have s: "set (msg_exts msg') = set (msg_exts msg)" using p by (metis set_mset_mset)
  have c: "comparison ?cmp (set (msg_exts msg))" by (rule comparison_by_key[OF inj]) simp
  have eq: "qsort upb_mapsorter_cmpext xs = qsort ?cmp xs"
    if "distinct xs" "set xs = set (msg_exts msg)" for xs
    using that inj
    by (intro qsort_cong[THEN conjunct2]) (auto simp: upb_mapsorter_cmpext_def inj_on_def)
  show ?thesis
    using comparison.qsort_perm[OF c order.refl p] eq d2 s
    by (simp add: upb_mapsorter_pushexts_def)
qed

subsection \<open>Properties\<close>


definition sorter_example :: "(upb_tabkey \<times> upb_Cell) list \<Rightarrow> upb_Map" where
  "sorter_example es = Map True [] es 0 4"


end
