(* ===== verification/EpsCopy_Stream.thy ===== *)
theory EpsCopy_Stream
  imports Upb_Prelude
begin

text \<open>
  The buffered input stream of the wire-format readers: \<open>upb/wire/internal/eps_copy_input_stream.h\<close>
  and \<open>upb/wire/eps_copy_input_stream.c\<close>. Pointers are addresses (integers) and NULL is
  \<open>None\<close>. The struct's memory and the input buffer it reads are part of the state record: the
  input bytes live at \<open>buffer_start\<close>, the 32-byte patch buffer at \<open>patch_addr\<close>, and a load
  from any other address is the fault \<open>OutOfBounds\<close>. \<open>err\<close> says whether an error handler is
  installed, and \<open>guaranteed_bytes\<close> is the debug counter the assertions check.

  The lemmas show that the pointer arithmetic of the stream implements a plain position in the
  input with a plain limit: \<open>stream_pos\<close>, \<open>stream_lim\<close> and \<open>stream_byte\<close> are that abstract view.
\<close>

subsection \<open>State\<close>

record upb_EpsCopyInputStream =
  eps_end :: int
  limit_ptr :: int
  input_delta :: int
  buffer_start :: int
  capture_start :: "int option"
  limit :: int
  err :: bool
  error :: bool
  guaranteed_bytes :: int
  patch :: "byte list"
  input_bytes :: "byte list"
  patch_addr :: int

abbreviation kUpb_SlopBytes :: int where
  "kUpb_SlopBytes \<equiv> 16"

record upb_StringView =
  sv_data :: int
  sv_size :: nat

definition input_size :: "upb_EpsCopyInputStream \<Rightarrow> int" where
  "input_size e = int (length (input_bytes e))"

definition eps_load :: "upb_EpsCopyInputStream \<Rightarrow> int \<Rightarrow> byte res" where
  "eps_load e a =
     (if patch_addr e \<le> a \<and> a < patch_addr e + 32 then Inr (patch e ! nat (a - patch_addr e))
      else if buffer_start e \<le> a \<and> a < buffer_start e + input_size e
      then Inr (input_bytes e ! nat (a - buffer_start e))
      else Inl OutOfBounds)"

text \<open>\<open>memcpy\<close> out of the stream's memory: \<open>n\<close> bytes from address \<open>a\<close>.\<close>

fun eps_load_bytes :: "upb_EpsCopyInputStream \<Rightarrow> int \<Rightarrow> nat \<Rightarrow> byte list res" where
  "eps_load_bytes e a 0 = Inr []"
| "eps_load_bytes e a (Suc n) =
     bindE (eps_load e a) (\<lambda>b. bindE (eps_load_bytes e (a + 1) n) (\<lambda>bs. Inr (b # bs)))"

subsection \<open>Operations\<close>

definition upb_EpsCopyInputStream_BoundsChecked ::
    "upb_EpsCopyInputStream \<Rightarrow> upb_EpsCopyInputStream" where
  "upb_EpsCopyInputStream_BoundsChecked e = e\<lparr>guaranteed_bytes := kUpb_SlopBytes\<rparr>"

definition upb_EpsCopyInputStream_BoundsHit ::
    "upb_EpsCopyInputStream \<Rightarrow> upb_EpsCopyInputStream" where
  "upb_EpsCopyInputStream_BoundsHit e = e\<lparr>guaranteed_bytes := 0\<rparr>"

definition upb_EpsCopyInputStream_ConsumeBytes ::
    "upb_EpsCopyInputStream \<Rightarrow> int \<Rightarrow> upb_EpsCopyInputStream res" where
  "upb_EpsCopyInputStream_ConsumeBytes e n =
     bindE (assertE (guaranteed_bytes e \<ge> n))
       (\<lambda>_. Inr (e\<lparr>guaranteed_bytes := guaranteed_bytes e - n\<rparr>))"

definition upb_EpsCopyInputStream_ReturnError ::
    "upb_EpsCopyInputStream \<Rightarrow> (int option \<times> upb_EpsCopyInputStream) res" where
  "upb_EpsCopyInputStream_ReturnError e =
     (if err e then Inl (Thrown Malformed) else Inr (None, e\<lparr>error := True\<rparr>))"

text \<open>
  \<open>Init\<close> takes the caller's buffer (its address and bytes), the address of the struct's patch
  buffer and that buffer's uninitialised content, and returns the new \<open>*ptr\<close> with the initialised
  stream.
\<close>

definition upb_EpsCopyInputStream_InitWithErrorHandler ::
    "int \<Rightarrow> byte list \<Rightarrow> int \<Rightarrow> byte list \<Rightarrow> bool \<Rightarrow> int \<times> upb_EpsCopyInputStream" where
  "upb_EpsCopyInputStream_InitWithErrorHandler ptr buf pa junk has_err =
     (let size = int (length buf);
          e = (if size \<le> kUpb_SlopBytes then
                 \<lparr>eps_end = pa + size, limit_ptr = pa + size, input_delta = ptr - pa,
                  buffer_start = ptr, capture_start = None, limit = 0, err = has_err,
                  error = False, guaranteed_bytes = 0,
                  patch = buf @ replicate (32 - length buf) 0,
                  input_bytes = buf, patch_addr = pa\<rparr>
               else
                 \<lparr>eps_end = ptr + size - kUpb_SlopBytes,
                  limit_ptr = ptr + size - kUpb_SlopBytes, input_delta = 0,
                  buffer_start = ptr, capture_start = None, limit = kUpb_SlopBytes, err = has_err,
                  error = False, guaranteed_bytes = 0, patch = junk,
                  input_bytes = buf, patch_addr = pa\<rparr>)
      in (if size \<le> kUpb_SlopBytes then pa else ptr, upb_EpsCopyInputStream_BoundsChecked e))"

datatype upb_IsDoneStatus =
  kUpb_IsDoneStatus_Done | kUpb_IsDoneStatus_NotDone | kUpb_IsDoneStatus_NeedFallback

definition upb_EpsCopyInputStream_IsDoneStatus ::
    "upb_EpsCopyInputStream \<Rightarrow> int \<Rightarrow> upb_IsDoneStatus \<times> int \<times> upb_EpsCopyInputStream" where
  "upb_EpsCopyInputStream_IsDoneStatus e ptr =
     (let overrun = int_of_ptrdiff (ptr - eps_end e)
      in if ptr < limit_ptr e
         then (kUpb_IsDoneStatus_NotDone, overrun, upb_EpsCopyInputStream_BoundsChecked e)
         else if overrun = limit e
         then (kUpb_IsDoneStatus_Done, overrun, upb_EpsCopyInputStream_BoundsHit e)
         else (kUpb_IsDoneStatus_NeedFallback, overrun, upb_EpsCopyInputStream_BoundsHit e))"

definition upb_EpsCopyInputStream_IsDoneFallback ::
    "upb_EpsCopyInputStream \<Rightarrow> int \<Rightarrow> int \<Rightarrow> (int option \<times> upb_EpsCopyInputStream) res" where
  "upb_EpsCopyInputStream_IsDoneFallback e ptr overrun =
     (if overrun < limit e then
        bindE (assertE (overrun < kUpb_SlopBytes)) (\<lambda>_.
        bindE (eps_load_bytes e (eps_end e) 16) (\<lambda>tail.
          let new_start = patch_addr e + overrun;
              end' = patch_addr e + kUpb_SlopBytes;
              limit' = limit e - kUpb_SlopBytes;
              e' = e\<lparr>patch := tail @ replicate 16 0, eps_end := end', limit := limit',
                     limit_ptr := end' + limit', input_delta := ptr - new_start\<rparr>
          in bindE (assertE (new_start < limit_ptr e'))
               (\<lambda>_. Inr (Some new_start, upb_EpsCopyInputStream_BoundsChecked e'))))
      else
        bindE (assertE (overrun > limit e)) (\<lambda>_. upb_EpsCopyInputStream_ReturnError e))"

text \<open>\<open>IsDone\<close> returns whether the stream is done, and the new \<open>*ptr\<close>.\<close>

definition upb_EpsCopyInputStream_IsDone ::
    "upb_EpsCopyInputStream \<Rightarrow> int \<Rightarrow> (bool \<times> int option \<times> upb_EpsCopyInputStream) res" where
  "upb_EpsCopyInputStream_IsDone e ptr =
     (case upb_EpsCopyInputStream_IsDoneStatus e ptr of
        (kUpb_IsDoneStatus_Done, _, e') \<Rightarrow>
          Inr (True, Some ptr, upb_EpsCopyInputStream_BoundsHit e')
      | (kUpb_IsDoneStatus_NotDone, _, e') \<Rightarrow>
          Inr (False, Some ptr, upb_EpsCopyInputStream_BoundsChecked e')
      | (kUpb_IsDoneStatus_NeedFallback, overrun, e') \<Rightarrow>
          bindE (upb_EpsCopyInputStream_IsDoneFallback e' ptr overrun) (\<lambda>(p, e'').
            case p of
              Some q \<Rightarrow> Inr (False, Some q, upb_EpsCopyInputStream_BoundsChecked e'')
            | None \<Rightarrow> Inr (True, None, upb_EpsCopyInputStream_BoundsHit e'')))"

definition upb_EpsCopyInputStream_CheckSize ::
    "upb_EpsCopyInputStream \<Rightarrow> int \<Rightarrow> int \<Rightarrow> bool res" where
  "upb_EpsCopyInputStream_CheckSize e ptr sz =
     bindE (assertE (sz \<ge> 0)) (\<lambda>_. Inr (sz \<le> limit e - (ptr - eps_end e)))"

definition upb_EpsCopyInputStream_GetInputPtr :: "upb_EpsCopyInputStream \<Rightarrow> int \<Rightarrow> int" where
  "upb_EpsCopyInputStream_GetInputPtr e ptr =
     (let position = ptr + input_delta e - buffer_start e in buffer_start e + position)"

definition upb_EpsCopyInputStream_StartCapture ::
    "upb_EpsCopyInputStream \<Rightarrow> int \<Rightarrow> upb_EpsCopyInputStream res" where
  "upb_EpsCopyInputStream_StartCapture e ptr =
     bindE (assertE (capture_start e = None)) (\<lambda>_.
       Inr (e\<lparr>capture_start := Some (upb_EpsCopyInputStream_GetInputPtr e ptr)\<rparr>))"

text \<open>\<open>EndCapture\<close>: \<open>None\<close> is the \<open>false\<close> return, which leaves \<open>*sv\<close> alone.\<close>

definition upb_EpsCopyInputStream_EndCapture ::
    "upb_EpsCopyInputStream \<Rightarrow> int \<Rightarrow> (upb_StringView option \<times> upb_EpsCopyInputStream) res" where
  "upb_EpsCopyInputStream_EndCapture e ptr =
     (case capture_start e of
        None \<Rightarrow> Inl AssertFailed
      | Some start \<Rightarrow>
          if ptr - eps_end e > limit e then
            bindE (upb_EpsCopyInputStream_ReturnError e) (\<lambda>(_, e'). Inr (None, e'))
          else
            let end' = upb_EpsCopyInputStream_GetInputPtr e ptr
            in Inr (Some \<lparr>sv_data = start, sv_size = nat (end' - start)\<rparr>,
                    e\<lparr>capture_start := None\<rparr>))"

definition upb_EpsCopyInputStream_ReadStringAlwaysAlias ::
    "upb_EpsCopyInputStream \<Rightarrow> int \<Rightarrow> nat \<Rightarrow>
     (int option \<times> upb_StringView option \<times> upb_EpsCopyInputStream) res" where
  "upb_EpsCopyInputStream_ReadStringAlwaysAlias e ptr sz =
     (let lim = eps_end e + (if input_delta e = 0 then kUpb_SlopBytes else 0)
      in if int sz > lim - ptr then
           bindE (upb_EpsCopyInputStream_ReturnError e) (\<lambda>(p, e'). Inr (p, None, e'))
         else
           Inr (Some (ptr + int sz),
                Some \<lparr>sv_data = upb_EpsCopyInputStream_GetInputPtr e ptr, sv_size = sz\<rparr>, e))"

definition upb_EpsCopyInputStream_ReadStringEphemeral ::
    "upb_EpsCopyInputStream \<Rightarrow> int \<Rightarrow> nat \<Rightarrow>
     (int option \<times> upb_StringView option \<times> upb_EpsCopyInputStream) res" where
  "upb_EpsCopyInputStream_ReadStringEphemeral e ptr sz =
     (let lim = eps_end e + kUpb_SlopBytes
      in if int sz > lim - ptr then
           bindE (upb_EpsCopyInputStream_ReturnError e) (\<lambda>(p, e'). Inr (p, None, e'))
         else Inr (Some (ptr + int sz), Some \<lparr>sv_data = ptr, sv_size = sz\<rparr>, e))"

definition upb_EpsCopyInputStream_CheckLimit :: "upb_EpsCopyInputStream \<Rightarrow> unit res" where
  "upb_EpsCopyInputStream_CheckLimit e = assertE (limit_ptr e = eps_end e + min 0 (limit e))"

definition upb_EpsCopyInputStream_PushLimit ::
    "upb_EpsCopyInputStream \<Rightarrow> int \<Rightarrow> nat \<Rightarrow> (int \<times> upb_EpsCopyInputStream) res" where
  "upb_EpsCopyInputStream_PushLimit e ptr sz =
     (let lim = int sz + (ptr - eps_end e);
          delta = limit e - lim;
          e' = e\<lparr>limit := lim, limit_ptr := eps_end e + min 0 lim\<rparr>
      in bindE (upb_EpsCopyInputStream_CheckLimit e) (\<lambda>_.
         bindE (upb_EpsCopyInputStream_CheckLimit e') (\<lambda>_.
           if delta < 0 then
             bindE (upb_EpsCopyInputStream_ReturnError e') (\<lambda>(_, e''). Inr (delta, e''))
           else Inr (delta, e'))))"

definition upb_EpsCopyInputStream_PopLimit ::
    "upb_EpsCopyInputStream \<Rightarrow> int \<Rightarrow> int \<Rightarrow> upb_EpsCopyInputStream res" where
  "upb_EpsCopyInputStream_PopLimit e ptr saved_delta =
     bindE (assertE (ptr - eps_end e = limit e)) (\<lambda>_.
     bindE (upb_EpsCopyInputStream_CheckLimit e) (\<lambda>_.
       let lim = limit e + saved_delta;
           e' = e\<lparr>limit := lim, limit_ptr := eps_end e + min 0 lim\<rparr>
       in bindE (upb_EpsCopyInputStream_CheckLimit e') (\<lambda>_. Inr e')))"

subsection \<open>The abstract view: a position, a limit, a byte per position\<close>

definition stream_pos :: "upb_EpsCopyInputStream \<Rightarrow> int \<Rightarrow> int" where
  "stream_pos e ptr = ptr + input_delta e - buffer_start e"

definition stream_lim :: "upb_EpsCopyInputStream \<Rightarrow> int" where
  "stream_lim e = eps_end e + limit e + input_delta e - buffer_start e"

text \<open>The byte at a position; the slop region past the end of the input reads as zero.\<close>

definition stream_byte :: "byte list \<Rightarrow> int \<Rightarrow> byte" where
  "stream_byte bs p = (if 0 \<le> p \<and> p < int (length bs) then bs ! nat p else 0)"

definition regions_ok :: "int \<Rightarrow> byte list \<Rightarrow> int \<Rightarrow> bool" where
  "regions_ok base bs pa \<longleftrightarrow>
     pa + 32 \<le> base \<or> (base + int (length bs) \<le> pa \<and> base \<noteq> pa)"

text \<open>
  The representation invariant. Either the stream still reads the caller's buffer, whose last 16
  bytes are the slop region, or it reads the patch buffer, which then holds the tail of the input
  followed by zeros and whose \<open>end\<close> is the end of the input.
\<close>

definition eps_inv :: "upb_EpsCopyInputStream \<Rightarrow> bool" where
  "eps_inv e \<longleftrightarrow>
     length (patch e) = 32 \<and>
     input_size e < 2 ^ 31 \<and>
     regions_ok (buffer_start e) (input_bytes e) (patch_addr e) \<and>
     limit_ptr e = eps_end e + min 0 (limit e) \<and>
     (if input_delta e = 0
      then 16 < input_size e \<and> eps_end e = buffer_start e + input_size e - 16 \<and> limit e \<le> 16
      else eps_end e + input_delta e = buffer_start e + input_size e \<and>
           patch_addr e \<le> eps_end e \<and> eps_end e \<le> patch_addr e + 16 \<and> limit e \<le> 0 \<and>
           0 \<le> stream_pos e (patch_addr e) \<and>
           (\<forall>i < 32. patch e ! i =
              stream_byte (input_bytes e) (stream_pos e (patch_addr e + int i))))"

text \<open>A parse pointer: inside the region the stream currently reads, at most the slop past \<open>end\<close>.\<close>

definition ptr_ok :: "upb_EpsCopyInputStream \<Rightarrow> int \<Rightarrow> bool" where
  "ptr_ok e ptr \<longleftrightarrow>
     (if input_delta e = 0 then buffer_start e \<le> ptr else patch_addr e \<le> ptr) \<and>
     ptr \<le> eps_end e + 16"

lemma eps_inv_guaranteed [simp]:
  "eps_inv (e\<lparr>guaranteed_bytes := g\<rparr>) = eps_inv e"
  "stream_pos (e\<lparr>guaranteed_bytes := g\<rparr>) p = stream_pos e p"
  "stream_lim (e\<lparr>guaranteed_bytes := g\<rparr>) = stream_lim e"
  "ptr_ok (e\<lparr>guaranteed_bytes := g\<rparr>) p = ptr_ok e p"
  "eps_load (e\<lparr>guaranteed_bytes := g\<rparr>) p = eps_load e p"
  by (simp_all add: eps_inv_def stream_pos_def stream_lim_def ptr_ok_def eps_load_def
      input_size_def)

lemma eps_inv_capture [simp]:
  "eps_inv (e\<lparr>capture_start := c\<rparr>) = eps_inv e"
  "stream_pos (e\<lparr>capture_start := c\<rparr>) p = stream_pos e p"
  "stream_lim (e\<lparr>capture_start := c\<rparr>) = stream_lim e"
  "ptr_ok (e\<lparr>capture_start := c\<rparr>) p = ptr_ok e p"
  "eps_load (e\<lparr>capture_start := c\<rparr>) p = eps_load e p"
  by (simp_all add: eps_inv_def stream_pos_def stream_lim_def ptr_ok_def eps_load_def
      input_size_def)

lemma eps_inv_error [simp]:
  "eps_inv (e\<lparr>error := b\<rparr>) = eps_inv e"
  by (simp add: eps_inv_def stream_pos_def input_size_def)

lemmas bounds_defs = upb_EpsCopyInputStream_BoundsChecked_def upb_EpsCopyInputStream_BoundsHit_def

text \<open>Every address from a parse pointer up to the end of the slop region can be read.\<close>

lemma eps_load_ok:
  assumes inv: "eps_inv e" and "ptr_ok e a" and "a < eps_end e + 16"
  shows "eps_load e a = Inr (stream_byte (input_bytes e) (stream_pos e a))"
proof (cases "input_delta e = 0")
  case True
  with assms have r: "buffer_start e \<le> a" "a < buffer_start e + input_size e"
    by (auto simp: eps_inv_def ptr_ok_def)
  with inv have "\<not> (patch_addr e \<le> a \<and> a < patch_addr e + 32)"
    by (auto simp: eps_inv_def regions_ok_def input_size_def)
  with r True show ?thesis
    by (auto simp: eps_load_def stream_pos_def stream_byte_def input_size_def)
next
  case False
  with assms have r: "patch_addr e \<le> a" "a < patch_addr e + 32"
    by (auto simp: eps_inv_def ptr_ok_def)
  then have "nat (a - patch_addr e) < 32" and "patch_addr e + int (nat (a - patch_addr e)) = a"
    by auto
  with inv False have "patch e ! nat (a - patch_addr e) =
      stream_byte (input_bytes e) (stream_pos e a)"
    unfolding eps_inv_def by metis
  with r show ?thesis by (simp add: eps_load_def)
qed

lemma ptr_ok_add: "ptr_ok e a \<Longrightarrow> 0 \<le> k \<Longrightarrow> a + k \<le> eps_end e + 16 \<Longrightarrow> ptr_ok e (a + k)"
  by (auto simp: ptr_ok_def split: if_splits)

lemma stream_pos_add: "stream_pos e (a + k) = stream_pos e a + k"
  by (simp add: stream_pos_def)

lemma eps_load_bytes_ok:
  assumes "eps_inv e" and "ptr_ok e a" and "a + int n \<le> eps_end e + 16"
  shows "eps_load_bytes e a n =
    Inr (map (\<lambda>i. stream_byte (input_bytes e) (stream_pos e a + int i)) [0..<n])"
  using assms(2,3)
proof (induction n arbitrary: a)
  case 0
  then show ?case by simp
next
  case (Suc n)
  have l: "eps_load e a = Inr (stream_byte (input_bytes e) (stream_pos e a))"
    using assms(1) Suc.prems by (intro eps_load_ok) auto
  have "ptr_ok e (a + 1)"
    using Suc.prems by (intro ptr_ok_add) auto
  then have "eps_load_bytes e (a + 1) n =
      Inr (map (\<lambda>i. stream_byte (input_bytes e) (stream_pos e (a + 1) + int i)) [0..<n])"
    using Suc.prems by (intro Suc.IH) auto
  then show ?case
    by (simp add: l upt_conv_Cons map_Suc_upt[symmetric] stream_pos_def algebra_simps
        del: upt_Suc)
qed

subsection \<open>Init establishes the invariant\<close>

lemma eps_init_inv:
  assumes "regions_ok base bs pa" and "int (length bs) < 2 ^ 31" and "length junk = 32"
    and init: "upb_EpsCopyInputStream_InitWithErrorHandler base bs pa junk h = (ptr, e)"
  shows "eps_inv e" and "ptr_ok e ptr" and "stream_pos e ptr = 0"
    and "stream_lim e = int (length bs)" and "input_bytes e = bs" and "err e = h"
proof -
  have base: "base \<noteq> pa"
    using assms(1) by (auto simp: regions_ok_def)
  let ?small = "int (length bs) \<le> 16"
  have p: "ptr = (if ?small then pa else base)"
    using init by (auto simp: upb_EpsCopyInputStream_InitWithErrorHandler_def Let_def)
  have patch_nth: "(bs @ replicate (32 - length bs) 0) ! i = stream_byte bs (int i)"
    if "i < 32" and ?small for i
    using that by (auto simp: nth_append stream_byte_def)
  show "eps_inv e"
    using init assms(1-3) base
    by (cases ?small)
      (auto simp: upb_EpsCopyInputStream_InitWithErrorHandler_def eps_inv_def bounds_defs
        Let_def input_size_def stream_pos_def patch_nth)
  show "ptr_ok e ptr" "stream_pos e ptr = 0" "stream_lim e = int (length bs)"
    "input_bytes e = bs" "err e = h"
    using init base
    by (auto simp: upb_EpsCopyInputStream_InitWithErrorHandler_def bounds_defs Let_def p
        ptr_ok_def stream_pos_def stream_lim_def split: if_splits)
qed

subsection \<open>What each operation does to the abstract view\<close>

text \<open>Parts of the state no operation below changes.\<close>

definition eps_frame :: "upb_EpsCopyInputStream \<Rightarrow> upb_EpsCopyInputStream \<Rightarrow> bool" where
  "eps_frame e e' \<longleftrightarrow>
     input_bytes e' = input_bytes e \<and> buffer_start e' = buffer_start e \<and>
     patch_addr e' = patch_addr e \<and> err e' = err e \<and> capture_start e' = capture_start e"

lemma eps_frame_refl [simp]: "eps_frame e e"
  by (simp add: eps_frame_def)

lemma eps_frame_trans [trans]: "eps_frame a b \<Longrightarrow> eps_frame b c \<Longrightarrow> eps_frame a c"
  by (simp add: eps_frame_def)

lemma eps_frame_guaranteed [simp]: "eps_frame e (e\<lparr>guaranteed_bytes := g\<rparr>)"
  by (simp add: eps_frame_def)

text \<open>The \<open>ptrdiff_t\<close>-to-\<open>int\<close> conversion in \<open>IsDoneStatus\<close> loses nothing below 2 GiB.\<close>

lemma eps_overrun_exact:
  assumes "eps_inv e" and "ptr_ok e ptr"
  shows "int_of_ptrdiff (ptr - eps_end e) = ptr - eps_end e"
  using assms by (intro int_of_ptrdiff_id) (auto simp: eps_inv_def ptr_ok_def split: if_splits)

lemma eps_IsDone_at_limit:
  assumes "eps_inv e" and "ptr_ok e ptr" and "stream_pos e ptr = stream_lim e"
  shows "upb_EpsCopyInputStream_IsDone e ptr = Inr (True, Some ptr, e\<lparr>guaranteed_bytes := 0\<rparr>)"
proof -
  have "ptr - eps_end e = limit e"
    using assms(3) by (simp add: stream_pos_def stream_lim_def)
  moreover have "\<not> ptr < limit_ptr e"
    using assms(1) calculation by (auto simp: eps_inv_def)
  moreover have "int_of_ptrdiff (ptr - eps_end e) = ptr - eps_end e"
    by (rule eps_overrun_exact[OF assms(1,2)])
  ultimately show ?thesis
    by (simp add: upb_EpsCopyInputStream_IsDone_def upb_EpsCopyInputStream_IsDoneStatus_def
        Let_def bounds_defs)
qed

lemma eps_IsDone_past_limit:
  assumes "eps_inv e" and "ptr_ok e ptr" and "stream_pos e ptr > stream_lim e"
  shows "upb_EpsCopyInputStream_IsDone e ptr =
    (if err e then Inl (Thrown Malformed)
     else Inr (True, None, e\<lparr>guaranteed_bytes := 0, error := True\<rparr>))"
proof -
  have "ptr - eps_end e > limit e"
    using assms(3) by (simp add: stream_pos_def stream_lim_def)
  moreover have "\<not> ptr < limit_ptr e"
    using assms(1) calculation by (auto simp: eps_inv_def)
  ultimately show ?thesis
    by (simp add: upb_EpsCopyInputStream_IsDone_def upb_EpsCopyInputStream_IsDoneStatus_def
        upb_EpsCopyInputStream_IsDoneFallback_def upb_EpsCopyInputStream_ReturnError_def
        Let_def eps_overrun_exact[OF assms(1,2)] bounds_defs)
qed

lemma eps_fallback_patches:
  assumes inv: "eps_inv e" and ptr: "ptr_ok e ptr" and ge: "limit_ptr e \<le> ptr"
    and lt: "ptr - eps_end e < limit e"
  shows "\<exists>e'. upb_EpsCopyInputStream_IsDoneFallback e ptr (ptr - eps_end e) =
      Inr (Some (patch_addr e + (ptr - eps_end e)), e') \<and>
    eps_inv e' \<and> ptr_ok e' (patch_addr e + (ptr - eps_end e)) \<and>
    patch_addr e + (ptr - eps_end e) < eps_end e' \<and>
    stream_pos e' (patch_addr e + (ptr - eps_end e)) = stream_pos e ptr \<and>
    stream_lim e' = stream_lim e \<and> eps_frame e e' \<and> guaranteed_bytes e' = 16"
proof -
  from inv ge lt have pos: "0 < limit e" and lp: "limit_ptr e = eps_end e"
    by (auto simp: eps_inv_def min_def split: if_splits)
  with inv have buf: "input_delta e = 0" "16 < input_size e" "limit e \<le> 16"
    and e: "eps_end e = buffer_start e + input_size e - 16"
    by (auto simp: eps_inv_def split: if_splits)
  define tail where "tail = map (\<lambda>i. stream_byte (input_bytes e) (input_size e - 16 + int i)) [0..<16]"
  have "ptr_ok e (eps_end e)"
    using buf e by (simp add: ptr_ok_def)
  then have tl: "eps_load_bytes e (eps_end e) 16 = Inr tail"
    using inv by (subst eps_load_bytes_ok) (auto simp: tail_def stream_pos_def buf e)
  have base: "eps_end e \<noteq> patch_addr e"
    using inv buf e by (auto simp: eps_inv_def regions_ok_def input_size_def)
  have content: "(tail @ replicate 16 0) ! i =
      stream_byte (input_bytes e) (input_size e - 16 + int i)" if "i < 32" for i
    using that by (auto simp: tail_def nth_append stream_byte_def input_size_def)
  have l: "length tail = 16"
    by (simp add: tail_def)
  have lt16: "ptr - eps_end e < 16" and ge0: "0 \<le> ptr - eps_end e"
    using lt buf(3) ge lp by auto
  define e' where "e' = e\<lparr>patch := tail @ replicate 16 0, eps_end := patch_addr e + 16,
    limit := limit e - 16, limit_ptr := patch_addr e + limit e,
    input_delta := eps_end e - patch_addr e, guaranteed_bytes := 16\<rparr>"
  have "upb_EpsCopyInputStream_IsDoneFallback e ptr (ptr - eps_end e) =
      Inr (Some (patch_addr e + (ptr - eps_end e)), e')"
    using lt lt16
    by (simp add: upb_EpsCopyInputStream_IsDoneFallback_def tl Let_def bounds_defs e'_def assertE_def)
  moreover have "eps_inv e'"
    using inv base pos buf l content
    by (auto simp: eps_inv_def e'_def e stream_pos_def input_size_def algebra_simps)
  moreover have "ptr_ok e' (patch_addr e + (ptr - eps_end e))"
    using base ge0 lt16 by (simp add: ptr_ok_def e'_def)
  moreover have "stream_pos e' (patch_addr e + (ptr - eps_end e)) = stream_pos e ptr"
    and "stream_lim e' = stream_lim e"
    by (simp_all add: stream_pos_def stream_lim_def e'_def buf)
  ultimately show ?thesis
    using lt16 by (auto simp: e'_def eps_frame_def)
qed

lemma eps_IsDone_before_limit:
  assumes inv: "eps_inv e" and ptr: "ptr_ok e ptr" and lt: "stream_pos e ptr < stream_lim e"
  shows "\<exists>q e'. upb_EpsCopyInputStream_IsDone e ptr = Inr (False, Some q, e') \<and>
    eps_inv e' \<and> ptr_ok e' q \<and> q < eps_end e' \<and> stream_pos e' q = stream_pos e ptr \<and>
    stream_lim e' = stream_lim e \<and> eps_frame e e' \<and> guaranteed_bytes e' = 16"
proof (cases "ptr < limit_ptr e")
  case True
  with inv have "ptr < eps_end e" by (simp add: eps_inv_def)
  with True inv ptr show ?thesis
    by (simp add: upb_EpsCopyInputStream_IsDone_def upb_EpsCopyInputStream_IsDoneStatus_def
        Let_def bounds_defs)
next
  case False
  let ?e = "e\<lparr>guaranteed_bytes := 0\<rparr>"
  from lt have "ptr - eps_end e < limit e"
    by (simp add: stream_pos_def stream_lim_def)
  with False inv ptr obtain e' where
    "upb_EpsCopyInputStream_IsDoneFallback ?e ptr (ptr - eps_end e) =
      Inr (Some (patch_addr e + (ptr - eps_end e)), e')"
    "eps_inv e'" "ptr_ok e' (patch_addr e + (ptr - eps_end e))"
    "patch_addr e + (ptr - eps_end e) < eps_end e'"
    "stream_pos e' (patch_addr e + (ptr - eps_end e)) = stream_pos e ptr"
    "stream_lim e' = stream_lim e" "eps_frame ?e e'" "guaranteed_bytes e' = 16"
    using eps_fallback_patches[of ?e ptr] by auto
  moreover have "eps_frame e ?e" by simp
  ultimately show ?thesis
    using False \<open>ptr - eps_end e < limit e\<close>
    by (auto simp: upb_EpsCopyInputStream_IsDone_def upb_EpsCopyInputStream_IsDoneStatus_def
        Let_def bounds_defs eps_overrun_exact[OF inv ptr] eps_frame_def)
qed

lemma eps_PushLimit_ok:
  assumes inv: "eps_inv e" and fits: "stream_pos e ptr + int n \<le> stream_lim e"
  shows "\<exists>e'. upb_EpsCopyInputStream_PushLimit e ptr n =
      Inr (stream_lim e - (stream_pos e ptr + int n), e') \<and>
    eps_inv e' \<and> stream_lim e' = stream_pos e ptr + int n \<and> eps_frame e e' \<and>
    eps_end e' = eps_end e \<and> input_delta e' = input_delta e \<and>
    guaranteed_bytes e' = guaranteed_bytes e"
proof -
  have "int n + (ptr - eps_end e) \<le> limit e"
    using fits by (simp add: stream_pos_def stream_lim_def)
  with inv show ?thesis
    by (auto simp: upb_EpsCopyInputStream_PushLimit_def upb_EpsCopyInputStream_CheckLimit_def
        Let_def eps_inv_def stream_pos_def stream_lim_def eps_frame_def input_size_def
        split: if_splits)
qed

lemma eps_PushLimit_too_big:
  assumes inv: "eps_inv e" and "stream_pos e ptr + int n > stream_lim e"
  shows "upb_EpsCopyInputStream_PushLimit e ptr n =
    (if err e then Inl (Thrown Malformed)
     else Inr (stream_lim e - (stream_pos e ptr + int n),
       e\<lparr>limit := int n + (ptr - eps_end e),
         limit_ptr := eps_end e + min 0 (int n + (ptr - eps_end e)), error := True\<rparr>))"
proof -
  have "int n + (ptr - eps_end e) > limit e"
    using assms(2) by (simp add: stream_pos_def stream_lim_def)
  with inv show ?thesis
    by (auto simp: upb_EpsCopyInputStream_PushLimit_def upb_EpsCopyInputStream_CheckLimit_def
        upb_EpsCopyInputStream_ReturnError_def Let_def eps_inv_def stream_pos_def stream_lim_def)
qed

lemma eps_PopLimit_ok:
  assumes inv: "eps_inv e" and at: "stream_pos e ptr = stream_lim e"
    and d: "0 \<le> delta" and fits: "stream_lim e + delta \<le> input_size e"
  shows "\<exists>e'. upb_EpsCopyInputStream_PopLimit e ptr delta = Inr e' \<and>
    eps_inv e' \<and> stream_lim e' = stream_lim e + delta \<and> eps_frame e e' \<and>
    eps_end e' = eps_end e \<and> input_delta e' = input_delta e \<and>
    guaranteed_bytes e' = guaranteed_bytes e"
proof -
  have "ptr - eps_end e = limit e"
    using at by (simp add: stream_pos_def stream_lim_def)
  moreover have "if input_delta e = 0 then limit e + delta \<le> 16 else limit e + delta \<le> 0"
    using inv fits by (auto simp: eps_inv_def stream_lim_def)
  ultimately show ?thesis
    using inv d
    by (auto simp: upb_EpsCopyInputStream_PopLimit_def upb_EpsCopyInputStream_CheckLimit_def
        Let_def eps_inv_def stream_pos_def stream_lim_def eps_frame_def input_size_def
        split: if_splits)
qed

lemma eps_lim_le_size: "eps_inv e \<Longrightarrow> stream_lim e \<le> input_size e"
  by (auto simp: eps_inv_def stream_lim_def split: if_splits)

lemma eps_CheckSize_iff:
  "0 \<le> n \<Longrightarrow> upb_EpsCopyInputStream_CheckSize e ptr n = Inr (stream_pos e ptr + n \<le> stream_lim e)"
  by (auto simp: upb_EpsCopyInputStream_CheckSize_def stream_pos_def stream_lim_def)

lemma ptr_ok_within_limit:
  assumes "eps_inv e" and "ptr_ok e ptr" and "0 \<le> n" and "stream_pos e ptr + n \<le> stream_lim e"
  shows "ptr_ok e (ptr + n)"
  using assms by (auto simp: eps_inv_def ptr_ok_def stream_pos_def stream_lim_def split: if_splits)

end
