(* ===== verification/Wire_Reader.thy ===== *)
theory Wire_Reader
  imports EpsCopy_Stream
begin

text \<open>
  The wire-format reader: \<open>upb/wire/types.h\<close>, \<open>upb/wire/reader.h\<close>, \<open>upb/wire/internal/reader.h\<close>
  and \<open>upb/wire/reader.c\<close>. A reader returns the advanced pointer (\<open>None\<close> for NULL), the value it
  read and the stream. The C code decodes a varint by adding \<open>(byte - 1) << 7i\<close>, which cancels the
  continuation bit of the byte before; the lemmas show it equals the textbook base-128 value
  \<open>varint_spec\<close>, at every length and with the range checks of tags and sizes.
  \<open>SkipGroup\<close> and \<open>SkipValue\<close> recurse into each other and loop over the input; they take fuel, and
  \<open>skip_group_total\<close> shows that one unit more than the bytes left before the limit is enough.
\<close>

subsection \<open>Wire types\<close>

abbreviation kUpb_WireType_Varint :: u32 where "kUpb_WireType_Varint \<equiv> 0"
abbreviation kUpb_WireType_64Bit :: u32 where "kUpb_WireType_64Bit \<equiv> 1"
abbreviation kUpb_WireType_Delimited :: u32 where "kUpb_WireType_Delimited \<equiv> 2"
abbreviation kUpb_WireType_StartGroup :: u32 where "kUpb_WireType_StartGroup \<equiv> 3"
abbreviation kUpb_WireType_EndGroup :: u32 where "kUpb_WireType_EndGroup \<equiv> 4"
abbreviation kUpb_WireType_32Bit :: u32 where "kUpb_WireType_32Bit \<equiv> 5"

type_synonym 'a read = "(int option \<times> 'a \<times> upb_EpsCopyInputStream) res"
type_synonym skip = "(int option \<times> upb_EpsCopyInputStream) res"

definition upb_WireReader_GetFieldNumber :: "u32 \<Rightarrow> u32" where
  "upb_WireReader_GetFieldNumber tag = drop_bit 3 tag"

definition upb_WireReader_GetWireType :: "u32 \<Rightarrow> u32" where
  "upb_WireReader_GetWireType tag = tag AND 7"

subsection \<open>Varints, tags and sizes\<close>

text \<open>
  The loop the three long readers share: at most \<open>n\<close> bytes, and a check on the final value whose
  failure leaves the loop for the error return.
\<close>

function long_varint_loop ::
    "nat \<Rightarrow> (u64 \<Rightarrow> bool) \<Rightarrow> upb_EpsCopyInputStream \<Rightarrow> int \<Rightarrow> u64 \<Rightarrow> nat \<Rightarrow> u64 read" where
  "long_varint_loop n ok e ptr val i =
     (if i < n then
        bindE (eps_load e (ptr + int i)) (\<lambda>b.
          let byte = ucast b :: u64;
              val' = val + push_bit (i * 7) (byte - 1)
          in if byte AND 0x80 = 0 then
               (if ok val' then Inr (Some (ptr + int i + 1), val', e)
                else bindE (upb_EpsCopyInputStream_ReturnError e) (\<lambda>(p, e'). Inr (p, 0, e')))
             else long_varint_loop n ok e ptr val' (Suc i))
      else bindE (upb_EpsCopyInputStream_ReturnError e) (\<lambda>(p, e'). Inr (p, 0, e')))"
  by pat_completeness auto
termination
  by (relation "measure (\<lambda>(n, ok, e, ptr, val, i). n - i)") auto

declare long_varint_loop.simps [simp del]

definition upb_WireReader_ReadLongVarint ::
    "upb_EpsCopyInputStream \<Rightarrow> int \<Rightarrow> u64 \<Rightarrow> u64 read" where
  "upb_WireReader_ReadLongVarint e ptr val = long_varint_loop 10 (\<lambda>_. True) e ptr val 1"

definition upb_WireReader_ReadLongTag ::
    "upb_EpsCopyInputStream \<Rightarrow> int \<Rightarrow> u64 \<Rightarrow> u64 read" where
  "upb_WireReader_ReadLongTag e ptr val = long_varint_loop 5 (\<lambda>v. \<not> v > 0xFFFFFFFF) e ptr val 1"

definition upb_WireReader_ReadLongSize ::
    "upb_EpsCopyInputStream \<Rightarrow> int \<Rightarrow> u64 \<Rightarrow> u64 read" where
  "upb_WireReader_ReadLongSize e ptr val = long_varint_loop 5 (\<lambda>v. \<not> v > 0x7FFFFFFF) e ptr val 1"

definition upb_WireReader_ReadVarint :: "upb_EpsCopyInputStream \<Rightarrow> int \<Rightarrow> u64 read" where
  "upb_WireReader_ReadVarint e0 ptr =
     bindE (upb_EpsCopyInputStream_ConsumeBytes e0 10) (\<lambda>e.
     bindE (eps_load e ptr) (\<lambda>byte.
       if byte AND 0x80 = 0 then Inr (Some (ptr + 1), ucast byte, e)
       else upb_WireReader_ReadLongVarint e ptr (ucast byte)))"

definition upb_WireReader_ReadTag :: "upb_EpsCopyInputStream \<Rightarrow> int \<Rightarrow> u32 read" where
  "upb_WireReader_ReadTag e0 ptr =
     bindE (upb_EpsCopyInputStream_ConsumeBytes e0 5) (\<lambda>e.
     bindE (eps_load e ptr) (\<lambda>byte.
       if byte AND 0x80 = 0 then Inr (Some (ptr + 1), ucast byte, e)
       else bindE (upb_WireReader_ReadLongTag e ptr (ucast byte))
              (\<lambda>(p, val, e'). Inr (p, ucast val, e'))))"

text \<open>The size is a C \<open>int\<close>.\<close>

definition upb_WireReader_ReadSize :: "upb_EpsCopyInputStream \<Rightarrow> int \<Rightarrow> int read" where
  "upb_WireReader_ReadSize e0 ptr =
     bindE (upb_EpsCopyInputStream_ConsumeBytes e0 5) (\<lambda>e.
     bindE (eps_load e ptr) (\<lambda>byte.
       if byte AND 0x80 = 0 then Inr (Some (ptr + 1), uint byte, e)
       else bindE (upb_WireReader_ReadLongSize e ptr (ucast byte))
              (\<lambda>(p, val, e'). Inr (p, sint (ucast val :: u32), e'))))"

definition upb_WireReader_SkipVarint :: "upb_EpsCopyInputStream \<Rightarrow> int \<Rightarrow> skip" where
  "upb_WireReader_SkipVarint e ptr =
     bindE (upb_WireReader_ReadVarint e ptr) (\<lambda>(p, _, e'). Inr (p, e'))"

text \<open>Fixed-width values are little-endian on the wire.\<close>

definition upb_WireReader_ReadFixed32 :: "upb_EpsCopyInputStream \<Rightarrow> int \<Rightarrow> u32 read" where
  "upb_WireReader_ReadFixed32 e0 ptr =
     bindE (upb_EpsCopyInputStream_ConsumeBytes e0 4) (\<lambda>e.
     bindE (eps_load_bytes e ptr 4) (\<lambda>bs. Inr (Some (ptr + 4), le_word bs, e)))"

definition upb_WireReader_ReadFixed64 :: "upb_EpsCopyInputStream \<Rightarrow> int \<Rightarrow> u64 read" where
  "upb_WireReader_ReadFixed64 e0 ptr =
     bindE (upb_EpsCopyInputStream_ConsumeBytes e0 8) (\<lambda>e.
     bindE (eps_load_bytes e ptr 8) (\<lambda>bs. Inr (Some (ptr + 8), le_word bs, e)))"

subsection \<open>Skipping values and groups\<close>

text \<open>
  The two C functions call each other. The model breaks the cycle at the loop of \<open>SkipGroup\<close>, which
  is the only place that can run without bound: \<open>SkipGroup_with\<close> takes the loop as an argument and
  \<open>SkipValue_with\<close> the group skipper.
\<close>

definition upb_WireReader_SkipGroup_with ::
    "(upb_EpsCopyInputStream \<Rightarrow> int \<Rightarrow> u32 \<Rightarrow> int \<Rightarrow> skip) \<Rightarrow>
     upb_EpsCopyInputStream \<Rightarrow> int \<Rightarrow> u32 \<Rightarrow> int \<Rightarrow> skip" where
  "upb_WireReader_SkipGroup_with loop e ptr tag depth_limit =
     (if depth_limit - 1 < 0 then upb_EpsCopyInputStream_ReturnError e
      else loop e ptr ((tag AND NOT 7) OR kUpb_WireType_EndGroup) (depth_limit - 1))"

definition upb_WireReader_SkipValue_with ::
    "(upb_EpsCopyInputStream \<Rightarrow> int \<Rightarrow> u32 \<Rightarrow> int \<Rightarrow> skip) \<Rightarrow>
     upb_EpsCopyInputStream \<Rightarrow> int \<Rightarrow> u32 \<Rightarrow> int \<Rightarrow> skip" where
  "upb_WireReader_SkipValue_with skip_group e ptr tag depth_limit =
     (let wt = upb_WireReader_GetWireType tag
      in if wt = kUpb_WireType_Varint then upb_WireReader_SkipVarint e ptr
         else if wt = kUpb_WireType_32Bit then
           bindE (upb_EpsCopyInputStream_ConsumeBytes e 4) (\<lambda>e. Inr (Some (ptr + 4), e))
         else if wt = kUpb_WireType_64Bit then
           bindE (upb_EpsCopyInputStream_ConsumeBytes e 8) (\<lambda>e. Inr (Some (ptr + 8), e))
         else if wt = kUpb_WireType_Delimited then
           bindE (upb_WireReader_ReadSize e ptr) (\<lambda>(p, size, e).
             case p of
               None \<Rightarrow> upb_EpsCopyInputStream_ReturnError e
             | Some ptr \<Rightarrow>
                 bindE (upb_EpsCopyInputStream_CheckSize e ptr size) (\<lambda>fits.
                   if \<not> fits then upb_EpsCopyInputStream_ReturnError e
                   else Inr (Some (ptr + size), e)))
         else if wt = kUpb_WireType_StartGroup then skip_group e ptr tag depth_limit
         else upb_EpsCopyInputStream_ReturnError e)"

primrec skip_group_loop ::
    "nat \<Rightarrow> upb_EpsCopyInputStream \<Rightarrow> int \<Rightarrow> u32 \<Rightarrow> int \<Rightarrow> skip" where
  "skip_group_loop 0 e ptr end_group_tag depth_limit = Inl OutOfFuel"
| "skip_group_loop (Suc fuel) e ptr end_group_tag depth_limit =
     bindE (upb_EpsCopyInputStream_IsDone e ptr) (\<lambda>(finished, p, e).
       if finished then upb_EpsCopyInputStream_ReturnError e
       else case p of
         None \<Rightarrow> Inl OutOfBounds
       | Some ptr \<Rightarrow>
           bindE (upb_WireReader_ReadTag e ptr) (\<lambda>(p, tag, e).
             case p of
               None \<Rightarrow> upb_EpsCopyInputStream_ReturnError e
             | Some ptr \<Rightarrow>
                 if tag = end_group_tag then Inr (Some ptr, e)
                 else
                   bindE (upb_WireReader_SkipValue_with
                            (upb_WireReader_SkipGroup_with (skip_group_loop fuel))
                            e ptr tag depth_limit) (\<lambda>(p, e).
                     case p of
                       None \<Rightarrow> upb_EpsCopyInputStream_ReturnError e
                     | Some ptr \<Rightarrow> skip_group_loop fuel e ptr end_group_tag depth_limit)))"

text \<open>
  The fuel the entry points run with: one more than the bytes before the limit. It never runs out
  (\<open>skip_group_total\<close>).
\<close>

definition skip_fuel :: "upb_EpsCopyInputStream \<Rightarrow> int \<Rightarrow> nat" where
  "skip_fuel e ptr = Suc (nat (stream_lim e - stream_pos e ptr))"

definition upb_WireReader_SkipGroup ::
    "upb_EpsCopyInputStream \<Rightarrow> int \<Rightarrow> u32 \<Rightarrow> int \<Rightarrow> skip" where
  "upb_WireReader_SkipGroup e ptr tag depth_limit =
     upb_WireReader_SkipGroup_with (skip_group_loop (skip_fuel e ptr)) e ptr tag depth_limit"

definition upb_WireReader_SkipValue ::
    "upb_EpsCopyInputStream \<Rightarrow> int \<Rightarrow> u32 \<Rightarrow> int \<Rightarrow> skip" where
  "upb_WireReader_SkipValue e ptr tag depth_limit =
     upb_WireReader_SkipValue_with
       (upb_WireReader_SkipGroup_with (skip_group_loop (skip_fuel e ptr))) e ptr tag depth_limit"

subsection \<open>The value of a varint\<close>

text \<open>
  The reference decoder: at most \<open>n\<close> bytes, seven bits each, least significant first. It returns the
  value as a natural number with the bytes used.
\<close>

fun varint_spec :: "nat \<Rightarrow> byte list \<Rightarrow> (nat \<times> nat) option" where
  "varint_spec 0 bs = None"
| "varint_spec (Suc n) [] = None"
| "varint_spec (Suc n) (b # bs) =
     (if unat b < 128 then Some (unat b, 1)
      else map_option (\<lambda>(v, k). (unat b - 128 + 128 * v, Suc k)) (varint_spec n bs))"

lemma varint_spec_bound:
  "varint_spec n bs = Some (v, k) \<Longrightarrow> v < 2 ^ (7 * k) \<and> 1 \<le> k \<and> k \<le> n \<and> k \<le> length bs"
proof (induction n bs arbitrary: v k rule: varint_spec.induct)
  case (3 n b bs)
  show ?case
  proof (cases "unat b < 128")
    case True
    with "3.prems" show ?thesis by auto
  next
    case False
    with "3.prems" obtain v' k' where r: "varint_spec n bs = Some (v', k')"
      and v: "v = unat b - 128 + 128 * v'" and k: "k = Suc k'"
      by auto
    from "3.IH"[OF False r] have "v' + 1 \<le> 2 ^ (7 * k')" "1 \<le> k'" "k' \<le> n" "k' \<le> length bs"
      by auto
    moreover have "unat b - 128 < 128" using byte_lt[of b] by simp
    ultimately show ?thesis
      by (simp add: v k power_add)
  qed
qed auto

definition read_error :: "upb_EpsCopyInputStream \<Rightarrow> u64 read" where
  "read_error e = bindE (upb_EpsCopyInputStream_ReturnError e) (\<lambda>(p, e'). Inr (p, 0, e'))"

abbreviation stream_bytes :: "upb_EpsCopyInputStream \<Rightarrow> int \<Rightarrow> nat \<Rightarrow> nat \<Rightarrow> byte list" where
  "stream_bytes e ptr i n \<equiv>
     map (\<lambda>k. stream_byte (input_bytes e) (stream_pos e ptr + int k)) [i..<n]"

lemma varint_step:
  "of_nat acc + of_nat (2 ^ (7 * i)) + push_bit (i * 7) ((ucast (b::byte) :: u64) - 1) =
   of_nat (acc + 2 ^ (7 * i) * unat b)"
  by (simp add: push_bit_eq_mult algebra_simps of_nat_unat)

lemma long_varint_loop_unfold:
  assumes "i < n" and "eps_load e (ptr + int i) = Inr b"
  shows "long_varint_loop n ok e ptr val i =
    (let val' = val + push_bit (i * 7) ((ucast b :: u64) - 1)
     in if unat b < 128 then
          (if ok val' then Inr (Some (ptr + int i + 1), val', e) else read_error e)
        else long_varint_loop n ok e ptr val' (Suc i))"
  by (subst long_varint_loop.simps) (simp add: assms Let_def byte_cont_iff64 read_error_def)

lemma long_varint_loop_spec:
  assumes inv: "eps_inv e" and ptr: "ptr_ok e ptr" and lt: "ptr + int n \<le> eps_end e + 16"
    and i: "i \<le> n"
  shows "long_varint_loop n ok e ptr (of_nat acc + of_nat (2 ^ (7 * i))) i =
    (case varint_spec (n - i) (stream_bytes e ptr i n) of
       None \<Rightarrow> read_error e
     | Some (v, k) \<Rightarrow>
         if ok (of_nat (acc + 2 ^ (7 * i) * v))
         then Inr (Some (ptr + int (i + k)), of_nat (acc + 2 ^ (7 * i) * v), e)
         else read_error e)"
  using i
proof (induction "n - i" arbitrary: i acc)
  case 0
  then have "i = n" by simp
  then show ?case
    by (simp add: long_varint_loop.simps[of n ok e ptr _ n] read_error_def)
next
  case (Suc m)
  then have i: "i < n" by simp
  let ?b = "stream_byte (input_bytes e) (stream_pos e ptr + int i)"
  have "ptr_ok e (ptr + int i)"
    using ptr lt i by (intro ptr_ok_add) auto
  then have ld: "eps_load e (ptr + int i) = Inr ?b"
    using inv lt i by (subst eps_load_ok) (auto simp: stream_pos_add)
  have bytes: "stream_bytes e ptr i n = ?b # stream_bytes e ptr (Suc i) n"
    using i by (simp add: upt_conv_Cons)
  have ni: "n - i = Suc (n - Suc i)" using i by simp
  let ?v = "of_nat (acc + 2 ^ (7 * i) * unat ?b) :: u64"
  have unf: "long_varint_loop n ok e ptr (of_nat acc + of_nat (2 ^ (7 * i))) i =
      (if unat ?b < 128 then
         (if ok ?v then Inr (Some (ptr + int i + 1), ?v, e) else read_error e)
       else long_varint_loop n ok e ptr ?v (Suc i))"
    by (subst long_varint_loop_unfold[OF i ld]) (simp only: Let_def varint_step)
  show ?case
  proof (cases "unat ?b < 128")
    case True
    then show ?thesis
      by (simp only: unf bytes ni varint_spec.simps if_True option.case prod.case) simp
  next
    case False
    let ?acc = "acc + 2 ^ (7 * i) * (unat ?b - 128)"
    have "unat ?b = unat ?b - 128 + 128" using False by simp
    then have "2 ^ (7 * i) * unat ?b = 2 ^ (7 * i) * (unat ?b - 128) + 2 ^ (7 * i) * 128"
      by (metis distrib_left)
    then have split: "acc + 2 ^ (7 * i) * unat ?b = ?acc + 2 ^ (7 * Suc i)"
      by (simp add: power_add)
    have IH: "long_varint_loop n ok e ptr (of_nat ?acc + of_nat (2 ^ (7 * Suc i))) (Suc i) =
      (case varint_spec (n - Suc i) (stream_bytes e ptr (Suc i) n) of
         None \<Rightarrow> read_error e
       | Some (v, k) \<Rightarrow>
           if ok (of_nat (?acc + 2 ^ (7 * Suc i) * v))
           then Inr (Some (ptr + int (Suc i + k)), of_nat (?acc + 2 ^ (7 * Suc i) * v), e)
           else read_error e)"
      using Suc.hyps(2) i by (intro Suc.hyps(1)) auto
    have vs: "?acc + 2 ^ (7 * Suc i) * v = acc + 2 ^ (7 * i) * (unat ?b - 128 + 128 * v)" for v
      by (simp add: power_add algebra_simps)
    have e: "?v = of_nat ?acc + of_nat (2 ^ (7 * Suc i))"
      by (simp only: split of_nat_add)
    show ?thesis
      by (simp only: unf False if_False e IH bytes ni varint_spec.simps vs)
        (simp split: option.split)
  qed
qed
text \<open>What the three readers return, over the bytes at the parse pointer.\<close>

definition consumed :: "int \<Rightarrow> upb_EpsCopyInputStream \<Rightarrow> upb_EpsCopyInputStream" where
  "consumed n e = e\<lparr>guaranteed_bytes := guaranteed_bytes e - n\<rparr>"

lemma consumed_simps [simp]:
  "eps_inv (consumed n e) = eps_inv e"
  "stream_pos (consumed n e) p = stream_pos e p"
  "stream_lim (consumed n e) = stream_lim e"
  "ptr_ok (consumed n e) p = ptr_ok e p"
  "eps_load (consumed n e) p = eps_load e p"
  "eps_end (consumed n e) = eps_end e"
  "input_bytes (consumed n e) = input_bytes e"
  "err (consumed n e) = err e"
  "guaranteed_bytes (consumed n e) = guaranteed_bytes e - n"
  "eps_frame e (consumed n e)"
  by (simp_all add: consumed_def)

lemma ConsumeBytes_ok:
  "n \<le> guaranteed_bytes e \<Longrightarrow> upb_EpsCopyInputStream_ConsumeBytes e n = Inr (consumed n e)"
  by (simp add: upb_EpsCopyInputStream_ConsumeBytes_def consumed_def assertE_def)

lemma read_error_eq:
  "read_error e = (if err e then Inl (Thrown Malformed) else Inr (None, 0, e\<lparr>error := True\<rparr>))"
  by (simp add: read_error_def upb_EpsCopyInputStream_ReturnError_def)

text \<open>The first byte of a long varint enters the loop with its continuation bit still set.\<close>

lemma long_varint_from_first:
  assumes "eps_inv e" and "ptr_ok e ptr" and "ptr + int n \<le> eps_end e + 16" and n: "1 \<le> n"
    and b: "b = stream_byte (input_bytes e) (stream_pos e ptr)" "128 \<le> unat b"
  shows "long_varint_loop n ok e ptr (ucast b) 1 =
    (case varint_spec n (stream_bytes e ptr 0 n) of
       None \<Rightarrow> read_error e
     | Some (v, k) \<Rightarrow>
         if ok (of_nat v) then Inr (Some (ptr + int k), of_nat v, e) else read_error e)"
proof -
  have "(ucast b :: u64) = of_nat (unat b)" by (simp add: of_nat_unat)
  also have "\<dots> = of_nat ((unat b - 128) + 2 ^ (7 * 1))"
    using b(2) by simp
  finally have first: "(ucast b :: u64) = of_nat (unat b - 128) + of_nat (2 ^ (7 * 1))"
    by (simp only: of_nat_add)
  have n': "n = Suc (n - 1)" using n by simp
  have bytes: "stream_bytes e ptr 0 n = b # stream_bytes e ptr 1 n"
    using n by (simp add: upt_conv_Cons b)
  have cont: "\<not> unat b < 128" using b(2) by simp
  have vs: "varint_spec n (stream_bytes e ptr 0 n) =
      map_option (\<lambda>(v, k). (unat b - 128 + 128 * v, Suc k))
        (varint_spec (n - 1) (stream_bytes e ptr 1 n))"
    by (subst n', subst bytes) (simp only: varint_spec.simps cont if_False)
  show ?thesis
    unfolding first vs
    by (subst long_varint_loop_spec) (use assms in \<open>auto split: option.split\<close>)
qed

lemma varint_spec_first:
  assumes "1 \<le> n" and "unat (stream_byte (input_bytes e) (stream_pos e ptr)) < 128"
  shows "varint_spec n (stream_bytes e ptr 0 n) =
    Some (unat (stream_byte (input_bytes e) (stream_pos e ptr)), 1)"
  using assms by (cases n) (simp_all add: upt_conv_Cons del: upt_Suc)

lemma ReadVarint_spec:
  assumes "eps_inv e" and "ptr_ok e ptr" and "ptr + 10 \<le> eps_end e + 16"
    and "10 \<le> guaranteed_bytes e"
  shows "upb_WireReader_ReadVarint e ptr =
    (case varint_spec 10 (stream_bytes e ptr 0 10) of
       None \<Rightarrow> read_error (consumed 10 e)
     | Some (v, k) \<Rightarrow> Inr (Some (ptr + int k), of_nat v, consumed 10 e))"
proof -
  let ?b = "stream_byte (input_bytes e) (stream_pos e ptr)"
  have ld: "eps_load e ptr = Inr ?b"
    using assms by (intro eps_load_ok) auto
  show ?thesis
  proof (cases "unat ?b < 128")
    case True
    then show ?thesis
      by (simp add: upb_WireReader_ReadVarint_def ConsumeBytes_ok assms(4) ld byte_cont_iff
          varint_spec_first of_nat_unat del: upt_Suc upt_rec_numeral)
  next
    case False
    then show ?thesis
      using assms long_varint_from_first[of "consumed 10 e" ptr 10 ?b "\<lambda>_. True"]
      by (simp add: upb_WireReader_ReadVarint_def ConsumeBytes_ok ld byte_cont_iff
          upb_WireReader_ReadLongVarint_def del: upt_Suc upt_rec_numeral split: option.split)
  qed
qed

lemma varint5_bound: "varint_spec 5 bs = Some (v, k) \<Longrightarrow> v < 2 ^ 35"
proof -
  assume r: "varint_spec 5 bs = Some (v, k)"
  then have "v < 2 ^ (7 * k)" "k \<le> 5" using varint_spec_bound[OF r] by auto
  moreover have "(2::nat) ^ (7 * k) \<le> 2 ^ 35" using \<open>k \<le> 5\<close> by (intro power_increasing) auto
  ultimately show ?thesis by linarith
qed

lemma le_mask_u64: "v < 2 ^ 35 \<Longrightarrow> m < 2 ^ 35 \<Longrightarrow> \<not> (of_nat v :: u64) > of_nat m \<longleftrightarrow> v \<le> m"
  by (auto simp: word_less_nat_alt unat_of_nat)

lemma ReadTag_spec:
  assumes "eps_inv e" and "ptr_ok e ptr" and "ptr + 5 \<le> eps_end e + 16"
    and "5 \<le> guaranteed_bytes e"
  shows "upb_WireReader_ReadTag e ptr =
    (case varint_spec 5 (stream_bytes e ptr 0 5) of
       None \<Rightarrow> bindE (read_error (consumed 5 e)) (\<lambda>(p, v, e). Inr (p, 0, e))
     | Some (v, k) \<Rightarrow>
         if v < 2 ^ 32 then Inr (Some (ptr + int k), of_nat v, consumed 5 e)
         else bindE (read_error (consumed 5 e)) (\<lambda>(p, v, e). Inr (p, 0, e)))"
proof -
  let ?b = "stream_byte (input_bytes e) (stream_pos e ptr)"
  have ld: "eps_load e ptr = Inr ?b"
    using assms by (intro eps_load_ok) auto
  show ?thesis
  proof (cases "unat ?b < 128")
    case True
    then show ?thesis
      by (simp add: upb_WireReader_ReadTag_def ConsumeBytes_ok assms(4) ld byte_cont_iff
          varint_spec_first of_nat_unat del: upt_Suc upt_rec_numeral)
  next
    case False
    have ok: "\<not> (of_nat v :: u64) > 0xFFFFFFFF \<longleftrightarrow> v < 2 ^ 32" if "v < 2 ^ 35" for v
      using le_mask_u64[OF that, where m = "0xFFFFFFFF"] by auto
    from False show ?thesis
      using assms long_varint_from_first[of "consumed 5 e" ptr 5 ?b "\<lambda>v. \<not> v > 0xFFFFFFFF"]
      by (auto simp: upb_WireReader_ReadTag_def ConsumeBytes_ok ld byte_cont_iff
          upb_WireReader_ReadLongTag_def read_error_eq ok[OF varint5_bound] unsigned_of_nat
          take_bit_nat_eq_self
          split: option.split simp del: upt_Suc upt_rec_numeral not_less)
  qed
qed

lemma ReadSize_spec:
  assumes "eps_inv e" and "ptr_ok e ptr" and "ptr + 5 \<le> eps_end e + 16"
    and "5 \<le> guaranteed_bytes e"
  shows "upb_WireReader_ReadSize e ptr =
    (case varint_spec 5 (stream_bytes e ptr 0 5) of
       None \<Rightarrow> bindE (read_error (consumed 5 e)) (\<lambda>(p, v, e). Inr (p, 0, e))
     | Some (v, k) \<Rightarrow>
         if v < 2 ^ 31 then Inr (Some (ptr + int k), int v, consumed 5 e)
         else bindE (read_error (consumed 5 e)) (\<lambda>(p, v, e). Inr (p, 0, e)))"
proof -
  let ?b = "stream_byte (input_bytes e) (stream_pos e ptr)"
  have ld: "eps_load e ptr = Inr ?b"
    using assms by (intro eps_load_ok) auto
  show ?thesis
  proof (cases "unat ?b < 128")
    case True
    then show ?thesis
      by (simp add: upb_WireReader_ReadSize_def ConsumeBytes_ok assms(4) ld byte_cont_iff
          varint_spec_first del: upt_Suc upt_rec_numeral)
  next
    case False
    have ok: "\<not> (of_nat v :: u64) > 0x7FFFFFFF \<longleftrightarrow> v < 2 ^ 31" if "v < 2 ^ 35" for v
      using le_mask_u64[OF that, where m = "0x7FFFFFFF"] by auto
    have sx: "sint (ucast (of_nat v :: u64) :: u32) = int v" if "v < 2 ^ 31" for v
      using that int_of_ptrdiff_id[of "int v"]
      by (simp add: unsigned_of_nat take_bit_nat_eq_self int_of_ptrdiff_def)
    from False show ?thesis
      using assms long_varint_from_first[of "consumed 5 e" ptr 5 ?b "\<lambda>v. \<not> v > 0x7FFFFFFF"]
      by (auto simp: upb_WireReader_ReadSize_def ConsumeBytes_ok ld byte_cont_iff
          upb_WireReader_ReadLongSize_def read_error_eq ok[OF varint5_bound] sx
          split: option.split simp del: upt_Suc upt_rec_numeral not_less)
  qed
qed
subsection \<open>Skipping is safe and ends\<close>

text \<open>
  The contract of a skipper. It throws \<open>Malformed\<close> only with a handler installed and returns NULL
  only without one; otherwise the pointer has not moved back and the stream is intact.
\<close>

definition skip_post :: "upb_EpsCopyInputStream \<Rightarrow> int \<Rightarrow> skip \<Rightarrow> bool" where
  "skip_post e ptr r \<longleftrightarrow>
     (case r of
        Inl f \<Rightarrow> f = Thrown Malformed \<and> err e
      | Inr (None, e') \<Rightarrow> \<not> err e \<and> err e' = err e
      | Inr (Some q, e') \<Rightarrow>
          eps_inv e' \<and> ptr_ok e' q \<and> stream_pos e ptr \<le> stream_pos e' q \<and>
          stream_lim e' = stream_lim e \<and> eps_frame e e')"

lemma skip_post_safe: "skip_post e ptr r \<Longrightarrow> safe r"
  by (auto simp: skip_post_def split: sum.splits)

lemma skip_post_ReturnError:
  "err e' = err e \<Longrightarrow> skip_post e ptr (upb_EpsCopyInputStream_ReturnError e')"
  by (simp add: skip_post_def upb_EpsCopyInputStream_ReturnError_def)

lemma skip_post_trans:
  "stream_pos e ptr \<le> stream_pos e' q \<Longrightarrow> stream_lim e' = stream_lim e \<Longrightarrow> eps_frame e e' \<Longrightarrow>
   skip_post e' q r \<Longrightarrow> skip_post e ptr r"
  by (auto simp: skip_post_def eps_frame_def split: sum.splits option.splits)

text \<open>Three shapes a tag read can take.\<close>

lemma ReadTag_cases:
  assumes "eps_inv e" and "ptr_ok e ptr" and "ptr + 5 \<le> eps_end e + 16"
    and "5 \<le> guaranteed_bytes e"
  obtains (throw) "upb_WireReader_ReadTag e ptr = Inl (Thrown Malformed)" "err e"
  | (null) e' where "upb_WireReader_ReadTag e ptr = Inr (None, 0, e')" "\<not> err e" "\<not> err e'"
  | (tag) v k where "upb_WireReader_ReadTag e ptr = Inr (Some (ptr + int k), v, consumed 5 e)"
      "1 \<le> k" "k \<le> 5"
proof (cases "varint_spec 5 (stream_bytes e ptr 0 5)")
  case None
  then show ?thesis
    using ReadTag_spec[OF assms] throw null
    by (auto simp: read_error_eq split: if_splits simp del: upt_Suc upt_rec_numeral)
next
  case (Some r)
  obtain v k where r: "r = (v, k)" by fastforce
  note spec = ReadTag_spec[OF assms, unfolded Some r option.case prod.case]
  have k: "1 \<le> k" "k \<le> 5" using varint_spec_bound[OF Some[unfolded r]] by auto
  show ?thesis
  proof (cases "v < 2 ^ 32")
    case True
    with spec have "upb_WireReader_ReadTag e ptr = Inr (Some (ptr + int k), of_nat v, consumed 5 e)" by simp
    then show ?thesis using k by (rule tag)
  next
    case False
    then show ?thesis using spec throw null by (auto simp: read_error_eq split: if_splits)
  qed
qed

lemma ReadSize_cases:
  assumes "eps_inv e" and "ptr_ok e ptr" and "ptr + 5 \<le> eps_end e + 16"
    and "5 \<le> guaranteed_bytes e"
  obtains (throw) "upb_WireReader_ReadSize e ptr = Inl (Thrown Malformed)" "err e"
  | (null) e' where "upb_WireReader_ReadSize e ptr = Inr (None, 0, e')" "\<not> err e" "\<not> err e'"
  | (sized) n k where
      "upb_WireReader_ReadSize e ptr = Inr (Some (ptr + int k), int n, consumed 5 e)"
      "1 \<le> k" "k \<le> 5" "n < 2 ^ 31"
proof (cases "varint_spec 5 (stream_bytes e ptr 0 5)")
  case None
  then show ?thesis
    using ReadSize_spec[OF assms] throw null
    by (auto simp: read_error_eq split: if_splits simp del: upt_Suc upt_rec_numeral)
next
  case (Some r)
  obtain v k where r: "r = (v, k)" by fastforce
  note spec = ReadSize_spec[OF assms, unfolded Some r option.case prod.case]
  have k: "1 \<le> k" "k \<le> 5" using varint_spec_bound[OF Some[unfolded r]] by auto
  show ?thesis
  proof (cases "v < 2 ^ 31")
    case True
    with spec have "upb_WireReader_ReadSize e ptr = Inr (Some (ptr + int k), int v, consumed 5 e)" by simp
    then show ?thesis using k True by (rule sized)
  next
    case False
    then show ?thesis using spec throw null by (auto simp: read_error_eq split: if_splits)
  qed
qed

lemma ReadVarint_cases:
  assumes "eps_inv e" and "ptr_ok e ptr" and "ptr + 10 \<le> eps_end e + 16"
    and "10 \<le> guaranteed_bytes e"
  obtains (throw) "upb_WireReader_ReadVarint e ptr = Inl (Thrown Malformed)" "err e"
  | (null) e' where "upb_WireReader_ReadVarint e ptr = Inr (None, 0, e')" "\<not> err e" "\<not> err e'"
  | (val) v k where "upb_WireReader_ReadVarint e ptr = Inr (Some (ptr + int k), v, consumed 10 e)"
      "1 \<le> k" "k \<le> 10"
proof (cases "varint_spec 10 (stream_bytes e ptr 0 10)")
  case None
  then show ?thesis
    using ReadVarint_spec[OF assms] throw null
    by (auto simp: read_error_eq split: if_splits simp del: upt_Suc upt_rec_numeral)
next
  case (Some r)
  then show ?thesis
    using ReadVarint_spec[OF assms] val varint_spec_bound
    by (cases r) (fastforce simp: read_error_eq split: if_splits simp del: upt_Suc upt_rec_numeral)
qed

lemma SkipValue_with_post:
  assumes inv: "eps_inv e" and ptr: "ptr_ok e ptr" and room: "ptr + 10 \<le> eps_end e + 16"
    and g: "10 \<le> guaranteed_bytes e"
    and grp: "skip_post e ptr (skip_group e ptr tag d)"
  shows "skip_post e ptr (upb_WireReader_SkipValue_with skip_group e ptr tag d)"
proof -
  have fixed: "skip_post e ptr (bindE (upb_EpsCopyInputStream_ConsumeBytes e (int n))
      (\<lambda>e. Inr (Some (ptr + int n), e)))" if "n \<le> 8" for n
    using that inv ptr room g
    by (simp add: ConsumeBytes_ok skip_post_def stream_pos_add ptr_ok_add)
  have varint: "skip_post e ptr (upb_WireReader_SkipVarint e ptr)"
    using inv ptr room g
  proof (cases rule: ReadVarint_cases)
    case (val v k)
    with inv ptr room show ?thesis
      by (simp add: upb_WireReader_SkipVarint_def skip_post_def stream_pos_add ptr_ok_add)
  qed (auto simp: upb_WireReader_SkipVarint_def skip_post_def)
  have delim: "skip_post e ptr (bindE (upb_WireReader_ReadSize e ptr) (\<lambda>(p, size, e).
      case p of None \<Rightarrow> upb_EpsCopyInputStream_ReturnError e
      | Some ptr \<Rightarrow> bindE (upb_EpsCopyInputStream_CheckSize e ptr size) (\<lambda>fits.
          if \<not> fits then upb_EpsCopyInputStream_ReturnError e else Inr (Some (ptr + size), e))))"
  proof -
    have room5: "ptr + 5 \<le> eps_end e + 16" "5 \<le> guaranteed_bytes e" using room g by auto
    from inv ptr room5 show ?thesis
    proof (cases rule: ReadSize_cases)
      case (sized n k)
      let ?e = "consumed 5 e"
      have p: "ptr_ok ?e (ptr + int k)"
        using ptr room5 sized by (simp add: ptr_ok_add)
      show ?thesis
      proof (cases "stream_pos ?e (ptr + int k) + int n \<le> stream_lim ?e")
        case True
        then have "ptr_ok ?e (ptr + int k + int n)"
          using ptr_ok_within_limit[of ?e "ptr + int k" "int n"] inv p by simp
        with True sized inv show ?thesis
          by (simp add: eps_CheckSize_iff skip_post_def stream_pos_add)
      next
        case False
        with sized show ?thesis
          by (simp add: eps_CheckSize_iff skip_post_ReturnError)
      qed
    qed (auto simp: skip_post_def upb_EpsCopyInputStream_ReturnError_def)
  qed
  show ?thesis
    using fixed[of 4] fixed[of 8] varint delim grp
    by (auto simp: upb_WireReader_SkipValue_with_def Let_def skip_post_ReturnError)
qed

lemma SkipGroup_with_post:
  assumes "\<And>t d'. skip_post e ptr (loop e ptr t d')"
  shows "skip_post e ptr (upb_WireReader_SkipGroup_with loop e ptr tag d)"
  using assms by (simp add: upb_WireReader_SkipGroup_with_def skip_post_ReturnError)

lemma skip_group_loop_post:
  assumes "eps_inv e" and "ptr_ok e ptr" and "nat (stream_lim e - stream_pos e ptr) < fuel"
  shows "skip_post e ptr (skip_group_loop fuel e ptr t d)"
  using assms
proof (induction fuel arbitrary: e ptr t d)
  case 0
  then show ?case by simp
next
  case (Suc fuel)
  note inv = Suc.prems(1) and ptr = Suc.prems(2)
  consider "stream_pos e ptr = stream_lim e" | "stream_pos e ptr > stream_lim e"
    | "stream_pos e ptr < stream_lim e" by linarith
  then show ?case
  proof cases
    case 1
    then show ?thesis
      by (simp add: eps_IsDone_at_limit[OF inv ptr] skip_post_ReturnError)
  next
    case 2
    then show ?thesis
      by (simp add: eps_IsDone_past_limit[OF inv ptr] skip_post_ReturnError)
        (simp add: skip_post_def)
  next
    case 3
    then obtain q e1 where d1: "upb_EpsCopyInputStream_IsDone e ptr = Inr (False, Some q, e1)"
      and inv1: "eps_inv e1" and q: "ptr_ok e1 q" "q < eps_end e1"
      and pos1: "stream_pos e1 q = stream_pos e ptr" "stream_lim e1 = stream_lim e"
      and fr: "eps_frame e e1" and g1: "guaranteed_bytes e1 = 16"
      using eps_IsDone_before_limit[OF inv ptr] by blast
    have err1: "err e1 = err e" using fr by (simp add: eps_frame_def)
    have r5: "q + 5 \<le> eps_end e1 + 16" "5 \<le> guaranteed_bytes e1" using q g1 by auto
    from inv1 q(1) r5 show ?thesis
    proof (cases rule: ReadTag_cases)
      case throw
      with d1 err1 show ?thesis by (simp add: skip_post_def)
    next
      case (null e2)
      with d1 err1 show ?thesis
        by (simp add: skip_post_ReturnError)
    next
      case (tag v k)
      let ?e = "consumed 5 e1" and ?q = "q + int k"
      have q2: "ptr_ok ?e ?q" using q r5 tag by (simp add: ptr_ok_add)
      have room: "?q + 10 \<le> eps_end ?e + 16" "10 \<le> guaranteed_bytes ?e"
        using tag q g1 by auto
      have adv: "stream_pos e ptr < stream_pos ?e ?q"
        using tag pos1 by (simp add: stream_pos_add)
      have left: "nat (stream_lim ?e - stream_pos ?e ?q) < fuel"
        using Suc.prems(3) adv 3 pos1 by auto
      have fr2: "eps_frame e ?e" using fr by (simp add: eps_frame_def consumed_def)
      have lift: "skip_post e ptr r" if "skip_post ?e ?q r" for r
        using adv pos1 fr2 that by (intro skip_post_trans[of e ptr ?e ?q]) auto
      let ?val = "upb_WireReader_SkipValue_with
        (upb_WireReader_SkipGroup_with (skip_group_loop fuel)) ?e ?q v d"
      have val: "skip_post ?e ?q ?val"
        using inv1 q2 room left
        by (intro SkipValue_with_post SkipGroup_with_post Suc.IH) auto
      have rest: "skip_post ?e ?q (skip_group_loop fuel e3 q3 t d)"
        if r: "?val = Inr (Some q3, e3)" for q3 e3
      proof -
        from val r have *: "eps_inv e3" "ptr_ok e3 q3" "stream_pos ?e ?q \<le> stream_pos e3 q3"
          "stream_lim e3 = stream_lim ?e" "eps_frame ?e e3"
          by (auto simp: skip_post_def)
        moreover have "nat (stream_lim e3 - stream_pos e3 q3) < fuel"
          using left * by auto
        ultimately show ?thesis
          by (intro skip_post_trans[of ?e ?q e3 q3] Suc.IH) auto
      qed
      have "skip_post ?e ?q (bindE ?val (\<lambda>(p, e). case p of
          None \<Rightarrow> upb_EpsCopyInputStream_ReturnError e
        | Some ptr \<Rightarrow> skip_group_loop fuel e ptr t d))"
        using val rest
        by (cases ?val) (auto simp: skip_post_def[of _ _ "Inl _"] skip_post_def[of _ _ "Inr _"]
            intro!: skip_post_ReturnError split: option.splits)
      moreover have "skip_post ?e ?q (Inr (Some ?q, ?e))"
        using inv1 q2 by (simp add: skip_post_def)
      ultimately show ?thesis
        using d1 tag by (auto intro!: lift)
    qed
  qed
qed
end
