(* ===== verification/Wire_Encoder.thy ===== *)
theory Wire_Encoder
  imports Map_Sorter Wire_Reader
begin

text \<open>
  The serialiser: \<open>upb/wire/encode.c\<close>, \<open>upb/wire/encode.h\<close> and \<open>upb/base/internal/log2.h\<close>. The
  encoder writes backwards into a buffer that it grows: \<open>e_buf\<close> is the memory \<open>[e->buf, e->limit)\<close>,
  a pointer is its offset from \<open>e->buf\<close>, and a store outside the buffer is the fault
  \<open>OutOfBounds\<close>. \<open>alloc_ok\<close> says which sizes the arena can allocate: the theorems hold for every
  such function. \<open>encode_err\<close> is \<open>Inl (Thrown _)\<close>. The model is of a little-endian 64-bit host and
  of the portable \<open>encode_longvarint\<close>. This theory holds the primitives that write bytes,
  varints, lengths and tags; the lemmas show that each prepends exactly its reference bytes.
\<close>

subsection \<open>Powers of two\<close>

fun bit_length :: "nat \<Rightarrow> nat" where
  "bit_length n = (if n = 0 then 0 else Suc (bit_length (n div 2)))"

declare bit_length.simps [simp del]

definition upb_Log2Ceiling :: "nat \<Rightarrow> nat" where
  "upb_Log2Ceiling x = (if x \<le> 1 then 0 else bit_length (x - 1))"

definition SIZE_MAX :: nat where
  "SIZE_MAX = 2 ^ 64 - 1"

definition upb_RoundUpToPowerOfTwo :: "nat \<Rightarrow> nat" where
  "upb_RoundUpToPowerOfTwo x =
     (let lg2 = upb_Log2Ceiling x in if lg2 = 64 then SIZE_MAX else 2 ^ lg2)"

subsection \<open>The output buffer\<close>

record upb_encstate =
  e_buf :: "byte list"
  e_options :: u32
  e_depth :: int
  alloc_ok :: "nat \<Rightarrow> bool"

type_synonym enc = "(nat \<times> upb_encstate) res"

definition buf_store :: "nat \<Rightarrow> upb_encstate \<Rightarrow> byte list \<Rightarrow> upb_encstate res" where
  "buf_store p e bs =
     (if p + length bs \<le> length (e_buf e)
      then Inr (e\<lparr>e_buf := take p (e_buf e) @ bs @ drop (p + length bs) (e_buf e)\<rparr>)
      else Inl OutOfBounds)"

definition buf_memmove :: "nat \<Rightarrow> nat \<Rightarrow> nat \<Rightarrow> upb_encstate \<Rightarrow> upb_encstate res" where
  "buf_memmove dst src n e =
     (if src + n \<le> length (e_buf e) then buf_store dst e (take n (drop src (e_buf e)))
      else Inl OutOfBounds)"

text \<open>\<open>--ptr; *ptr = b\<close>.\<close>

definition push_byte :: "nat \<Rightarrow> upb_encstate \<Rightarrow> byte \<Rightarrow> enc" where
  "push_byte ptr e b =
     (if ptr = 0 then Inl OutOfBounds
      else bindE (buf_store (ptr - 1) e [b]) (\<lambda>e. Inr (ptr - 1, e)))"

text \<open>
  \<open>upb_Arena_Realloc\<close> keeps the old bytes at the front of the new block and leaves the rest
  uninitialised (zero here); \<open>memmove\<close> then copies them to the end.
\<close>

definition encode_growbuffer :: "nat \<Rightarrow> upb_encstate \<Rightarrow> nat \<Rightarrow> enc" where
  "encode_growbuffer ptr e bytes =
     (let old_size = length (e_buf e);
          needed_size = (bytes + (old_size - ptr)) mod 2 ^ 64
      in if needed_size < bytes then Inl (Thrown OutOfMemory)
         else
           let new_size = upb_RoundUpToPowerOfTwo (max 128 needed_size)
           in if new_size = old_size then Inl (Thrown OutOfMemory)
              else if \<not> alloc_ok e new_size then Inl (Thrown OutOfMemory)
              else
                let e1 = e\<lparr>e_buf := e_buf e @ replicate (new_size - old_size) 0\<rparr>
                in bindE (if old_size > 0 then buf_memmove (new_size - old_size) 0 old_size e1
                          else Inr e1)
                     (\<lambda>e2. Inr (new_size - needed_size, e2)))"

definition encode_reserve :: "nat \<Rightarrow> upb_encstate \<Rightarrow> nat \<Rightarrow> enc" where
  "encode_reserve ptr e bytes =
     (if ptr < bytes then encode_growbuffer ptr e bytes else Inr (ptr - bytes, e))"

definition encode_bytes_unchecked :: "nat \<Rightarrow> upb_encstate \<Rightarrow> byte list \<Rightarrow> enc" where
  "encode_bytes_unchecked ptr e data =
     (if data = [] then Inr (ptr, e)
      else if ptr < length data then Inl OutOfBounds
      else bindE (buf_store (ptr - length data) e data) (\<lambda>e. Inr (ptr - length data, e)))"

definition encode_bytes :: "nat \<Rightarrow> upb_encstate \<Rightarrow> byte list \<Rightarrow> enc" where
  "encode_bytes ptr e data =
     (if data = [] then Inr (ptr, e)
      else bindE (encode_reserve ptr e (length data)) (\<lambda>(ptr, e).
             bindE (buf_store ptr e data) (\<lambda>e. Inr (ptr, e))))"

subsection \<open>Scalars\<close>

definition encode_zz32 :: "u32 \<Rightarrow> u32" where
  "encode_zz32 n = push_bit 1 n XOR signed_drop_bit 31 n"

definition encode_zz64 :: "u64 \<Rightarrow> u64" where
  "encode_zz64 n = push_bit 1 n XOR signed_drop_bit 63 n"

definition encode_fixed64_unchecked :: "nat \<Rightarrow> upb_encstate \<Rightarrow> u64 \<Rightarrow> enc" where
  "encode_fixed64_unchecked ptr e val = encode_bytes_unchecked ptr e (le_bytes 8 val)"

definition encode_fixed32_unchecked :: "nat \<Rightarrow> upb_encstate \<Rightarrow> u32 \<Rightarrow> enc" where
  "encode_fixed32_unchecked ptr e val = encode_bytes_unchecked ptr e (le_bytes 4 val)"

text \<open>The \<open>do \<dots> while (val)\<close> loop that writes the bytes of a varint.\<close>

function varint_loop :: "u64 \<Rightarrow> byte list" where
  "varint_loop val =
     (let b = val AND 0x7f; val' = drop_bit 7 val
      in if val' \<noteq> 0 then ucast (b OR 0x80) # varint_loop val' else [ucast b])"
  by pat_completeness auto

lemma drop_bit_7_less: "drop_bit 7 (val::u64) \<noteq> 0 \<Longrightarrow> unat (drop_bit 7 val) < unat val"
proof -
  assume nz: "drop_bit 7 val \<noteq> 0"
  have eq: "unat (drop_bit 7 val) = unat val div 128"
    by (simp add: unat_drop_bit_eq) (simp add: drop_bit_eq_div)
  have "unat val \<noteq> 0" using nz by (metis eq div_0 unat_eq_zero)
  then show ?thesis by (simp add: eq)
qed

termination varint_loop
  by (relation "measure unat") (auto intro: drop_bit_7_less)

declare varint_loop.simps [simp del]

definition encode_longvarint :: "nat \<Rightarrow> upb_encstate \<Rightarrow> u64 \<Rightarrow> enc" where
  "encode_longvarint ptr e val =
     bindE (encode_reserve ptr e 10) (\<lambda>(ptr, e).
       let bs = varint_loop val; len = length bs; start = ptr + 10 - len
       in bindE (buf_store ptr e bs) (\<lambda>e.
          bindE (buf_memmove start ptr len e) (\<lambda>e. Inr (start, e))))"

definition encode_varint_unchecked :: "nat \<Rightarrow> upb_encstate \<Rightarrow> u64 \<Rightarrow> enc" where
  "encode_varint_unchecked ptr e val =
     (if val < 128 then push_byte ptr e (ucast val) else encode_longvarint ptr e val)"

definition encode_varint :: "nat \<Rightarrow> upb_encstate \<Rightarrow> u64 \<Rightarrow> enc" where
  "encode_varint ptr e val =
     (if val < 128 \<and> ptr \<noteq> 0 then push_byte ptr e (ucast val) else encode_longvarint ptr e val)"

definition encode_longlength :: "nat \<Rightarrow> upb_encstate \<Rightarrow> u64 \<Rightarrow> enc" where
  "encode_longlength ptr e val =
     (if val > 0x7FFFFFFF then Inl (Thrown MaxSizeExceeded) else encode_longvarint ptr e val)"

definition encode_length :: "nat \<Rightarrow> upb_encstate \<Rightarrow> u64 \<Rightarrow> enc" where
  "encode_length ptr e val =
     (if val < 128 \<and> ptr \<noteq> 0 then push_byte ptr e (ucast val) else encode_longlength ptr e val)"

definition encode_length_unchecked :: "nat \<Rightarrow> upb_encstate \<Rightarrow> u64 \<Rightarrow> enc" where
  "encode_length_unchecked ptr e val =
     (if val < 128 then push_byte ptr e (ucast val) else encode_longlength ptr e val)"

text \<open>\<open>(field_number << 3) | wire_type\<close> is computed in 32 bits.\<close>

definition make_tag :: "u32 \<Rightarrow> u32 \<Rightarrow> u32" where
  "make_tag field_number wire_type = push_bit 3 field_number OR wire_type"

definition encode_tag_unchecked :: "nat \<Rightarrow> upb_encstate \<Rightarrow> u32 \<Rightarrow> u32 \<Rightarrow> enc" where
  "encode_tag_unchecked ptr e field_number wire_type =
     encode_varint_unchecked ptr e (ucast (make_tag field_number wire_type))"

definition encode_tag :: "nat \<Rightarrow> upb_encstate \<Rightarrow> u32 \<Rightarrow> u32 \<Rightarrow> enc" where
  "encode_tag ptr e field_number wire_type =
     encode_varint ptr e (ucast (make_tag field_number wire_type))"

subsection \<open>Rounding up to a power of two\<close>

lemma bit_length_upper: "n < 2 ^ bit_length n"
proof (induction n rule: bit_length.induct)
  case (1 n)
  then show ?case
    by (cases "n = 0") (auto simp: bit_length.simps[of n])
qed

lemma bit_length_lower: "0 < n \<Longrightarrow> 2 ^ (bit_length n - 1) \<le> n"
proof (induction n rule: bit_length.induct)
  case (1 n)
  show ?case
  proof (cases "n div 2 = 0")
    case True
    with "1.prems" show ?thesis by (simp add: bit_length.simps[of n] bit_length.simps[of 0])
  next
    case False
    then have "0 < bit_length (n div 2)" by (simp add: bit_length.simps[of "n div 2"])
    then have "2 ^ bit_length (n div 2) = 2 * 2 ^ (bit_length (n div 2) - 1)"
      by (metis Suc_diff_1 power_Suc)
    also have "\<dots> \<le> n" using 1 False by auto
    finally show ?thesis using "1.prems" by (simp add: bit_length.simps[of n])
  qed
qed

lemma Log2Ceiling_upper: "x \<le> 2 ^ upb_Log2Ceiling x"
  using bit_length_upper[of "x - 1"] by (auto simp: upb_Log2Ceiling_def)

lemma Log2Ceiling_lower: "1 < x \<Longrightarrow> 2 ^ (upb_Log2Ceiling x - 1) < x"
  using bit_length_lower[of "x - 1"] by (auto simp: upb_Log2Ceiling_def)

lemma RoundUp_ge: "x \<le> SIZE_MAX \<Longrightarrow> x \<le> upb_RoundUpToPowerOfTwo x"
  using Log2Ceiling_upper[of x] by (simp add: upb_RoundUpToPowerOfTwo_def Let_def)

lemma Log2Ceiling_le_64:
  assumes "x \<le> SIZE_MAX" shows "upb_Log2Ceiling x \<le> 64"
proof (rule ccontr)
  assume "\<not> upb_Log2Ceiling x \<le> 64"
  then have "(64::nat) \<le> upb_Log2Ceiling x - 1" and "1 < x"
    by (auto simp: upb_Log2Ceiling_def split: if_splits)
  then have "(2::nat) ^ 64 < x"
    using Log2Ceiling_lower[of x] by (meson le_less_trans one_le_numeral power_increasing)
  with assms show False by (simp add: SIZE_MAX_def)
qed

lemma RoundUp_le: "x \<le> SIZE_MAX \<Longrightarrow> upb_RoundUpToPowerOfTwo x \<le> SIZE_MAX"
proof -
  assume "x \<le> SIZE_MAX"
  then have l: "upb_Log2Ceiling x \<le> 64" by (rule Log2Ceiling_le_64)
  show ?thesis
  proof (cases "upb_Log2Ceiling x = 64")
    case False
    with l have "(2::nat) ^ upb_Log2Ceiling x \<le> 2 ^ 63" by (intro power_increasing) auto
    with False show ?thesis by (simp add: upb_RoundUpToPowerOfTwo_def SIZE_MAX_def)
  qed (simp add: upb_RoundUpToPowerOfTwo_def)
qed

subsection \<open>Backward writing as prepending\<close>

text \<open>What the encoder has written so far: the bytes from the pointer to the limit.\<close>

abbreviation written :: "nat \<Rightarrow> upb_encstate \<Rightarrow> byte list" where
  "written ptr e \<equiv> drop ptr (e_buf e)"

definition enc_ok :: "nat \<Rightarrow> upb_encstate \<Rightarrow> bool" where
  "enc_ok ptr e \<longleftrightarrow> ptr \<le> length (e_buf e) \<and> length (e_buf e) \<le> SIZE_MAX"

definition enc_frame :: "upb_encstate \<Rightarrow> upb_encstate \<Rightarrow> bool" where
  "enc_frame e e' \<longleftrightarrow> e_options e' = e_options e \<and> e_depth e' = e_depth e \<and> alloc_ok e' = alloc_ok e"

type_synonym out = "byte list res"

text \<open>
  Running out of memory is excused when the arena refuses some size, or when the output is beyond
  any object size.
\<close>

definition oom_excused :: "nat \<Rightarrow> upb_encstate \<Rightarrow> out \<Rightarrow> bool" where
  "oom_excused ptr e out \<longleftrightarrow>
     (\<exists>n. \<not> alloc_ok e n) \<or>
     (case out of Inl _ \<Rightarrow> True | Inr bs \<Rightarrow> 2 ^ 63 \<le> length (written ptr e) + length bs)"

text \<open>
  The contract of an encoding step: from any good state it prepends exactly the specified bytes, or
  fails the specified way, or runs out of memory with an excuse. It never stores outside the
  buffer unless the specification itself is a fault.
\<close>

definition step_emits :: "nat \<Rightarrow> upb_encstate \<Rightarrow> enc \<Rightarrow> out \<Rightarrow> bool" where
  "step_emits ptr e r out \<longleftrightarrow>
     (case r of
        Inr (ptr', e') \<Rightarrow>
          (case out of
             Inr bs \<Rightarrow> enc_ok ptr' e' \<and> enc_frame e e' \<and> written ptr' e' = bs @ written ptr e
           | Inl _ \<Rightarrow> False)
      | Inl f \<Rightarrow> out = Inl f \<or> f = Thrown OutOfMemory \<and> oom_excused ptr e out)"

lemma step_emits_safe: "step_emits ptr e r out \<Longrightarrow> safe out \<Longrightarrow> safe r"
  by (auto simp: step_emits_def safe_def split: sum.splits)

lemma enc_frame_refl [simp]: "enc_frame e e"
  by (simp add: enc_frame_def)

lemma enc_frame_trans: "enc_frame a b \<Longrightarrow> enc_frame b c \<Longrightarrow> enc_frame a c"
  by (simp add: enc_frame_def)

lemma enc_frame_buf [simp]: "enc_frame e (e\<lparr>e_buf := b\<rparr>)"
  by (simp add: enc_frame_def)

text \<open>
  Two steps in sequence: the second one's bytes come first, and may depend on the first one's.
\<close>

definition then_out :: "out \<Rightarrow> (byte list \<Rightarrow> out) \<Rightarrow> out" where
  "then_out a b = bindE a (\<lambda>xs. bindE (b xs) (\<lambda>ys. Inr (ys @ xs)))"

lemma then_out_simps [simp]:
  "then_out (Inl f) b = Inl f"
  "then_out (Inr xs) b = bindE (b xs) (\<lambda>ys. Inr (ys @ xs))"
  by (simp_all add: then_out_def)

lemma step_emits_return: "enc_ok ptr e \<Longrightarrow> step_emits ptr e (Inr (ptr, e)) (Inr [])"
  by (simp add: step_emits_def)

lemma step_emits_fail: "step_emits ptr e (Inl f) (Inl f)"
  by (simp add: step_emits_def)

lemma step_emits_bind:
  assumes f: "step_emits ptr e r out"
    and g: "\<And>ptr' e' bs. r = Inr (ptr', e') \<Longrightarrow> out = Inr bs \<Longrightarrow> enc_ok ptr' e' \<Longrightarrow> enc_frame e e' \<Longrightarrow>
      written ptr' e' = bs @ written ptr e \<Longrightarrow> step_emits ptr' e' (k (ptr', e')) (out' bs)"
  shows "step_emits ptr e (bindE r k) (then_out out out')"
proof (cases r)
  case (Inl x)
  with f show ?thesis
    by (cases out) (auto simp: step_emits_def oom_excused_def bindE_def split: sum.splits)
next
  case (Inr s)
  obtain ptr' e' where s: "s = (ptr', e')" by fastforce
  with f Inr obtain bs where bs: "out = Inr bs" "enc_ok ptr' e'" "enc_frame e e'"
    "written ptr' e' = bs @ written ptr e"
    by (auto simp: step_emits_def split: sum.splits)
  then have st: "step_emits ptr' e' (k (ptr', e')) (out' bs)"
    using g Inr s by blast
  have len: "length (written ptr' e') = length bs + length (written ptr e)"
    using bs(4) by (metis length_append)
  show ?thesis
    using st bs Inr s len
    by (cases "k (ptr', e')"; cases "out' bs")
      (auto simp: step_emits_def oom_excused_def enc_frame_def algebra_simps split: prod.splits)
qed

lemma step_emits_pure:
  "(\<And>v. m = Inr v \<Longrightarrow> step_emits ptr e (k v) (h v)) \<Longrightarrow> step_emits ptr e (bindE m k) (bindE m h)"
  by (cases m) (auto simp: step_emits_fail)

subsection \<open>Growing and reserving\<close>

lemma buf_store_ok:
  "p + length bs \<le> length (e_buf e) \<Longrightarrow>
   buf_store p e bs = Inr (e\<lparr>e_buf := take p (e_buf e) @ bs @ drop (p + length bs) (e_buf e)\<rparr>)"
  by (simp add: buf_store_def)

text \<open>\<open>encode_reserve\<close> makes room below the pointer and keeps what was written.\<close>

definition reserved :: "nat \<Rightarrow> upb_encstate \<Rightarrow> nat \<Rightarrow> enc \<Rightarrow> bool" where
  "reserved ptr e n r \<longleftrightarrow>
     (case r of
        Inr (ptr', e') \<Rightarrow>
          enc_ok (ptr' + n) e' \<and> enc_frame e e' \<and> written (ptr' + n) e' = written ptr e
      | Inl f \<Rightarrow> f = Thrown OutOfMemory \<and>
          ((\<exists>n. \<not> alloc_ok e n) \<or> SIZE_MAX < n + length (written ptr e)))"

lemma encode_growbuffer_reserved:
  assumes ok: "enc_ok ptr e" and lt: "ptr < n"
  shows "reserved ptr e n (encode_growbuffer ptr e n)"
proof -
  let ?old = "length (e_buf e)"
  let ?need = "n + (?old - ptr)"
  have ptr: "ptr \<le> ?old" and old: "?old \<le> SIZE_MAX" using ok by (auto simp: enc_ok_def)
  show ?thesis
  proof (cases "SIZE_MAX < ?need")
    case True
    have "?need mod 2 ^ 64 < n"
    proof (cases "n < 2 ^ 64")
      case True
      with \<open>SIZE_MAX < ?need\<close> old ptr have "?need mod 2 ^ 64 = ?need - 2 ^ 64"
        by (simp add: SIZE_MAX_def mod_if)
      with True old ptr \<open>SIZE_MAX < ?need\<close> lt show ?thesis by (simp add: SIZE_MAX_def)
    next
      case False
      moreover have "?need mod 2 ^ 64 < 2 ^ 64" by simp
      ultimately show ?thesis by linarith
    qed
    with True ptr show ?thesis
      by (auto simp: encode_growbuffer_def reserved_def Let_def)
  next
    case False
    then have m: "?need mod 2 ^ 64 = ?need" by (simp add: SIZE_MAX_def)
    let ?new = "upb_RoundUpToPowerOfTwo (max 128 ?need)"
    have mx: "max 128 ?need \<le> SIZE_MAX" using False by (auto simp: SIZE_MAX_def)
    have ge: "?need \<le> ?new" using RoundUp_ge[OF mx] by simp
    have le: "?new \<le> SIZE_MAX" using RoundUp_le[OF mx] .
    have gt: "?old < ?new" using ge lt ptr by linarith
    let ?e1 = "e\<lparr>e_buf := e_buf e @ replicate (?new - ?old) 0\<rparr>"
    define front where "front = take (?new - ?old) (e_buf e @ replicate (?new - ?old) 0)"
    define b where "b = front @ e_buf e"
    have fr: "length front = ?new - ?old" by (simp add: front_def del: take_append)
    then have len: "length b = ?new" using gt by (simp add: b_def)
    have mv: "(if ?old > 0 then buf_memmove (?new - ?old) 0 ?old ?e1 else Inr ?e1) =
        Inr (e\<lparr>e_buf := b\<rparr>)"
      using gt by (auto simp: buf_memmove_def buf_store_def b_def front_def)
    have w: "drop (?new - ?need + n) b = drop ptr (e_buf e)"
    proof -
      have "?new - ?need + n = (?new - ?old) + ptr" using ge gt ptr by linarith
      then show ?thesis by (simp add: b_def fr)
    qed
    show ?thesis
    proof (cases "alloc_ok e ?new")
      case True
      have eb: "e_buf (e\<lparr>e_buf := b\<rparr>) = b" by simp
      have "?new - ?need + n \<le> ?new" using ge by linarith
      then have "enc_ok (?new - ?need + n) (e\<lparr>e_buf := b\<rparr>)"
        using le unfolding enc_ok_def eb len by blast
      moreover have "encode_growbuffer ptr e n = Inr (?new - ?need, e\<lparr>e_buf := b\<rparr>)"
        unfolding encode_growbuffer_def Let_def m mv using True gt by simp
      ultimately show ?thesis using w by (simp add: reserved_def)
    next
      case False
      then show ?thesis using m gt by (auto simp: encode_growbuffer_def Let_def reserved_def)
    qed
  qed
qed

lemma encode_reserve_reserved:
  assumes "enc_ok ptr e"
  shows "reserved ptr e n (encode_reserve ptr e n)"
proof (cases "ptr < n")
  case True
  with encode_growbuffer_reserved[OF assms True] show ?thesis by (simp add: encode_reserve_def)
next
  case False
  with assms show ?thesis by (simp add: encode_reserve_def reserved_def)
qed

text \<open>Using part of a reservation: the step runs from the far end of the reserved room.\<close>

lemma reserve_then:
  assumes ok: "enc_ok ptr e"
    and slack: "\<And>bs. out = Inr bs \<Longrightarrow> n \<le> length bs + 2 ^ 62"
    and k: "\<And>ptr' e'. enc_ok (ptr' + n) e' \<Longrightarrow> enc_frame e e' \<Longrightarrow>
      written (ptr' + n) e' = written ptr e \<Longrightarrow> step_emits (ptr' + n) e' (k (ptr', e')) out"
  shows "step_emits ptr e (bindE (encode_reserve ptr e n) k) out"
proof (cases "encode_reserve ptr e n")
  case (Inl f)
  with encode_reserve_reserved[OF ok, of n] have f: "f = Thrown OutOfMemory"
    and why: "(\<exists>n. \<not> alloc_ok e n) \<or> SIZE_MAX < n + length (written ptr e)"
    by (auto simp: reserved_def)
  have "oom_excused ptr e out"
    using why slack by (cases out) (fastforce simp: oom_excused_def SIZE_MAX_def)+
  with Inl f show ?thesis by (simp add: step_emits_def)
next
  case (Inr s)
  obtain ptr' e' where s: "s = (ptr', e')" by fastforce
  with Inr encode_reserve_reserved[OF ok, of n] have
    r: "enc_ok (ptr' + n) e'" "enc_frame e e'" "written (ptr' + n) e' = written ptr e"
    by (auto simp: reserved_def)
  have st: "step_emits (ptr' + n) e' (k (ptr', e')) out"
    by (rule k[OF r])
  show ?thesis
    using st r Inr s
    by (cases "k (ptr', e')"; cases out)
      (auto simp: step_emits_def oom_excused_def enc_frame_def split: prod.splits)
qed

subsection \<open>The reference varint\<close>

text \<open>The reference encoding: seven bits a byte, least significant first.\<close>

fun varint_bytes :: "nat \<Rightarrow> byte list" where
  "varint_bytes n =
     (if n < 128 then [of_nat n] else of_nat (n mod 128 + 128) # varint_bytes (n div 128))"

declare varint_bytes.simps [simp del]

lemma unat_low7: "unat ((val::u64) AND 0x7f) = unat val mod 128"
proof -
  have "(val AND 0x7f) = take_bit 7 val"
    by (simp add: take_bit_eq_mask mask_eq_exp_minus_1)
  then have "unat (val AND 0x7f) = take_bit 7 (unat val)"
    by (simp only: unsigned_take_bit_eq)
  then show ?thesis by (simp add: take_bit_eq_mod)
qed

lemma u64_low7: "ucast ((val::u64) AND 0x7f) = (of_nat (unat val mod 128) :: byte)"
  by (metis of_nat_unat unat_low7)

lemma u64_low7_cont: "ucast (((val::u64) AND 0x7f) OR 0x80) = (of_nat (unat val mod 128 + 128) :: byte)"
proof -
  have "((val AND 0x7f) AND 0x80) = 0"
    by (simp add: and.assoc)
  then have "((val AND 0x7f) OR 0x80) = (val AND 0x7f) + 0x80"
    by (simp only: disjunctive_add_eq_or)
  moreover have "unat ((val AND 0x7f) + 0x80) = unat val mod 128 + 128"
  proof -
    have "unat val mod 128 + 128 < 256" by simp
    then show ?thesis by (simp only: unat_word_ariths unat_low7) simp
  qed
  ultimately show ?thesis by (metis of_nat_unat)
qed

lemma varint_loop_eq: "varint_loop val = varint_bytes (unat val)"
proof (induction val rule: varint_loop.induct)
  case (1 val)
  have d: "unat (drop_bit 7 val) = unat val div 128"
    by (simp add: unat_drop_bit_eq) (simp add: drop_bit_eq_div)
  show ?case
  proof (cases "drop_bit 7 val = 0")
    case True
    then have "unat val div 128 = 0" by (metis d unat_eq_zero)
    then have small: "unat val < 128" by simp
    then show ?thesis
      using True u64_low7[of val]
      by (simp add: varint_loop.simps[of val] varint_bytes.simps[of "unat val"] Let_def)
  next
    case False
    then have "unat val div 128 \<noteq> 0" by (metis d unat_eq_zero)
    then have "\<not> unat val < 128" by auto
    then show ?thesis
      using False 1 u64_low7_cont[of val]
      by (simp add: varint_loop.simps[of val] varint_bytes.simps[of "unat val"] Let_def d)
  qed
qed

lemma varint_bytes_nonempty [simp]: "varint_bytes n \<noteq> []"
  by (simp add: varint_bytes.simps[of n])

lemma varint_bytes_length: "n < 2 ^ (7 * k) \<Longrightarrow> 1 \<le> k \<Longrightarrow> length (varint_bytes n) \<le> k"
proof (induction n arbitrary: k rule: varint_bytes.induct)
  case (1 n)
  show ?case
  proof (cases "n < 128")
    case True
    with 1 show ?thesis by (simp add: varint_bytes.simps[of n])
  next
    case False
    then obtain k' where k: "k = Suc k'" "1 \<le> k'"
      using "1.prems" by (cases k; cases "k - 1") auto
    have "n div 128 < 2 ^ (7 * k')"
      using "1.prems"(1) by (simp add: k less_mult_imp_div_less power_add mult.commute)
    with 1 False k show ?thesis by (simp add: varint_bytes.simps[of n])
  qed
qed

lemma varint_bytes_u64: "length (varint_bytes (unat (val::u64))) \<le> 10"
proof -
  have "unat val < 2 ^ 64" using unsigned_less[of val] by simp
  also have "(2::nat) ^ 64 \<le> 2 ^ (7 * 10)" by (intro power_increasing) auto
  finally show ?thesis by (intro varint_bytes_length) auto
qed

text \<open>The reader's reference decoder inverts the writer's reference encoder.\<close>

lemma varint_spec_varint_bytes:
  "length (varint_bytes n) \<le> k \<Longrightarrow>
   varint_spec k (varint_bytes n @ rest) = Some (n, length (varint_bytes n))"
proof (induction n arbitrary: k rule: varint_bytes.induct)
  case (1 n)
  then obtain k' where k: "k = Suc k'" by (cases k) auto
  show ?case
  proof (cases "n < 128")
    case True
    then show ?thesis by (simp add: varint_bytes.simps[of n] k unat_of_nat)
  next
    case False
    have u: "unat (of_nat (n mod 128 + 128) :: byte) = n mod 128 + 128"
    proof -
      have "n mod 128 + 128 < 256" by simp
      then show ?thesis by (simp only: unat_of_nat) simp
    qed
    have le: "length (varint_bytes (n div 128)) \<le> k'"
      using "1.prems" False by (simp add: varint_bytes.simps[of n] k)
    have "n mod 128 + 128 * (n div 128) = n" by simp
    with False le "1.IH"[OF False le] u show ?thesis
      by (simp add: varint_bytes.simps[of n] k del: of_nat_add)
  qed
qed

subsection \<open>The primitive writers\<close>

lemma drop_store_suffix:
  "p + length bs \<le> length buf \<Longrightarrow>
   drop p (take p buf @ bs @ drop (p + length bs) buf) = bs @ drop (p + length bs) buf"
  by simp

lemma push_byte_emits:
  assumes "enc_ok ptr e" and "ptr \<noteq> 0"
  shows "step_emits ptr e (push_byte ptr e b) (Inr [b])"
  using assms by (auto simp: push_byte_def buf_store_def step_emits_def enc_ok_def)

lemma bytes_unchecked_emits:
  assumes "enc_ok ptr e" and "length data \<le> ptr"
  shows "step_emits ptr e (encode_bytes_unchecked ptr e data) (Inr data)"
proof (cases "data = []")
  case True
  with assms show ?thesis by (simp add: encode_bytes_unchecked_def step_emits_return)
next
  case False
  let ?p = "ptr - length data"
  have p: "?p + length data = ptr" "ptr \<le> length (e_buf e)" using assms by (auto simp: enc_ok_def)
  with False assms show ?thesis
    by (auto simp: encode_bytes_unchecked_def buf_store_ok step_emits_def enc_ok_def)
qed

lemma store_reserved_emits:
  assumes "enc_ok (p + length data) e"
  shows "step_emits (p + length data) e (bindE (buf_store p e data) (\<lambda>e. Inr (p, e))) (Inr data)"
  using assms by (simp add: buf_store_ok step_emits_def enc_ok_def)

lemma encode_bytes_emits:
  assumes "enc_ok ptr e"
  shows "step_emits ptr e (encode_bytes ptr e data) (Inr data)"
proof (cases "data = []")
  case True
  with assms show ?thesis by (simp add: encode_bytes_def step_emits_return)
next
  case False
  then show ?thesis
    unfolding encode_bytes_def
    by (simp only: if_False prod.case)
      (rule reserve_then, use assms store_reserved_emits in \<open>auto split: prod.split\<close>)
qed

lemma encode_longvarint_emits:
  assumes ok: "enc_ok ptr e"
  shows "step_emits ptr e (encode_longvarint ptr e val) (Inr (varint_bytes (unat val)))"
  unfolding encode_longvarint_def
proof (rule reserve_then[OF ok])
  fix p e' assume e': "enc_ok (p + 10) e'"
  let ?bs = "varint_bytes (unat val)" let ?n = "length ?bs" let ?start = "p + 10 - ?n"
  let ?b1 = "take p (e_buf e') @ ?bs @ drop (p + ?n) (e_buf e')"
  have n: "?n \<le> 10" by (rule varint_bytes_u64)
  have len: "p + 10 \<le> length (e_buf e')" "length (e_buf e') \<le> SIZE_MAX"
    using e' by (auto simp: enc_ok_def)
  have s1: "buf_store p e' ?bs = Inr (e'\<lparr>e_buf := ?b1\<rparr>)"
    using len n by (intro buf_store_ok) simp
  have l1: "length ?b1 = length (e_buf e')" using len n by simp
  have src: "take ?n (drop p ?b1) = ?bs" using len n by simp
  have st: "?start + ?n = p + 10" using n by simp
  have tail: "drop (p + 10) ?b1 = drop (p + 10) (e_buf e')"
    using len n by (simp add: add.commute)
  have s2: "buf_memmove ?start p ?n (e'\<lparr>e_buf := ?b1\<rparr>) =
      Inr (e'\<lparr>e_buf := take ?start ?b1 @ ?bs @ drop (p + 10) (e_buf e')\<rparr>)"
    using len n st l1 src tail
    by (simp add: buf_memmove_def buf_store_def del: take_append drop_append)
  have "length (take ?start ?b1) = ?start" using l1 len by simp
  then show "step_emits (p + 10) e'
      ((\<lambda>(ptr, e). let bs = varint_loop val; len = length bs; start = ptr + 10 - len
        in bindE (buf_store ptr e bs) (\<lambda>e. bindE (buf_memmove start ptr len e)
             (\<lambda>e. Inr (start, e)))) (p, e')) (Inr ?bs)"
    using len n st
    by (simp add: varint_loop_eq Let_def s1 s2 step_emits_def enc_ok_def del: take_append)
qed (simp_all add: SIZE_MAX_def)

lemma varint_bytes_small: "(val::u64) < 128 \<Longrightarrow> varint_bytes (unat val) = [ucast val]"
  by (simp add: varint_bytes.simps[of "unat val"] word_less_nat_alt of_nat_unat)

lemma encode_varint_emits:
  assumes "enc_ok ptr e"
  shows "step_emits ptr e (encode_varint ptr e val) (Inr (varint_bytes (unat val)))"
  using assms push_byte_emits[of ptr e "ucast val"] encode_longvarint_emits[of ptr e val]
  by (auto simp: encode_varint_def varint_bytes_small)

lemma varint_unchecked_emits:
  assumes "enc_ok ptr e" and "ptr \<noteq> 0"
  shows "step_emits ptr e (encode_varint_unchecked ptr e val) (Inr (varint_bytes (unat val)))"
  using assms push_byte_emits[of ptr e "ucast val"] encode_longvarint_emits[of ptr e val]
  by (auto simp: encode_varint_unchecked_def varint_bytes_small)

text \<open>Lengths above 2 GiB are refused.\<close>

definition length_out :: "nat \<Rightarrow> out" where
  "length_out n = (if n > 0x7FFFFFFF then Inl (Thrown MaxSizeExceeded) else Inr (varint_bytes n))"

lemma encode_longlength_emits:
  assumes "enc_ok ptr e"
  shows "step_emits ptr e (encode_longlength ptr e val) (length_out (unat val))"
  using assms encode_longvarint_emits[of ptr e val]
  by (auto simp: encode_longlength_def length_out_def word_less_nat_alt step_emits_fail)

lemma encode_length_emits:
  assumes "enc_ok ptr e"
  shows "step_emits ptr e (encode_length ptr e val) (length_out (unat val))"
  using assms push_byte_emits[of ptr e "ucast val"] encode_longlength_emits[of ptr e val]
  by (auto simp: encode_length_def length_out_def varint_bytes_small word_less_nat_alt)

lemma length_unchecked_emits:
  assumes "enc_ok ptr e" and "ptr \<noteq> 0"
  shows "step_emits ptr e (encode_length_unchecked ptr e val) (length_out (unat val))"
  using assms push_byte_emits[of ptr e "ucast val"] encode_longlength_emits[of ptr e val]
  by (auto simp: encode_length_unchecked_def length_out_def varint_bytes_small word_less_nat_alt)

text \<open>Tags.\<close>

lemma unat_ucast_32_64 [simp]: "unat (ucast (w::u32) :: u64) = unat w"
proof -
  have "unat w < 2 ^ 32" using unsigned_less[of w] by simp
  then show ?thesis by (simp add: unsigned_ucast_eq take_bit_nat_eq_self)
qed

definition tag_bytes :: "u32 \<Rightarrow> u32 \<Rightarrow> byte list" where
  "tag_bytes field_number wire_type = varint_bytes (unat (make_tag field_number wire_type))"

lemma encode_tag_emits:
  "enc_ok ptr e \<Longrightarrow> step_emits ptr e (encode_tag ptr e n wt) (Inr (tag_bytes n wt))"
  using encode_varint_emits[of ptr e "ucast (make_tag n wt)"]
  by (simp add: encode_tag_def tag_bytes_def)

lemma tag_unchecked_emits:
  "enc_ok ptr e \<Longrightarrow> ptr \<noteq> 0 \<Longrightarrow>
   step_emits ptr e (encode_tag_unchecked ptr e n wt) (Inr (tag_bytes n wt))"
  using varint_unchecked_emits[of ptr e "ucast (make_tag n wt)"]
  by (simp add: encode_tag_unchecked_def tag_bytes_def)

lemmas emits_prims =
  encode_bytes_emits encode_varint_emits encode_length_emits encode_tag_emits

end
