(* ===== verification/Message_Encoder.thy ===== *)
theory Message_Encoder
  imports Wire_Encoder
begin

text \<open>
  Serialising whole messages: the rest of \<open>upb/wire/encode.c\<close>. \<open>tabs\<close> is the environment of
  layouts. Functions that call \<open>encode_message\<close> take it as the argument \<open>rec\<close>; the knot is tied in
  \<open>encode_message\<close>, whose fuel bounds the nesting of messages (the height of the message is enough).
  Loops run over the array from its last element to its first, as the C code does, so a list is
  visited reversed.
\<close>

type_synonym msg_encoder = "nat \<Rightarrow> upb_encstate \<Rightarrow> upb_Message \<Rightarrow> upb_MiniTable \<Rightarrow> (nat \<times> upb_encstate \<times> nat) res"

definition upb_MiniTable_GetSubMessageTable ::
    "upb_MiniTable list \<Rightarrow> upb_MiniTableField \<Rightarrow> upb_MiniTable res" where
  "upb_MiniTable_GetSubMessageTable tabs f =
     (case submsg f of
        SubMsg (Some i) \<Rightarrow> if i < length tabs then Inr (tabs ! i) else Inl OutOfBounds
      | _ \<Rightarrow> Inl OutOfBounds)"

text \<open>\<open>if (--e->depth == 0) encode_err(\<dots>)\<close>, and \<open>e->depth++\<close> on the way back.\<close>

definition enter_depth :: "upb_encstate \<Rightarrow> upb_encstate res" where
  "enter_depth e =
     (if e_depth e - 1 = 0 then Inl (Thrown MaxDepthExceeded)
      else Inr (e\<lparr>e_depth := e_depth e - 1\<rparr>))"

definition leave_depth :: "upb_encstate \<Rightarrow> upb_encstate" where
  "leave_depth e = e\<lparr>e_depth := e_depth e + 1\<rparr>"

text \<open>Bytes of an array or a map are read element by element, in the given order.\<close>

fun encode_each :: "('a \<Rightarrow> nat \<Rightarrow> upb_encstate \<Rightarrow> enc) \<Rightarrow> 'a list \<Rightarrow> nat \<Rightarrow> upb_encstate \<Rightarrow> enc" where
  "encode_each f [] ptr e = Inr (ptr, e)"
| "encode_each f (x # xs) ptr e = bindE (f x ptr e) (\<lambda>(ptr, e). encode_each f xs ptr e)"

text \<open>The varint a value of each varint type is written as.\<close>

definition varint_of :: "upb_FieldType \<Rightarrow> upb_Cell option \<Rightarrow> u64 res" where
  "varint_of t c =
     (case t of
        kUpb_FieldType_Int64 \<Rightarrow> load8 c
      | kUpb_FieldType_UInt64 \<Rightarrow> load8 c
      | kUpb_FieldType_UInt32 \<Rightarrow> bindE (load4 c) (\<lambda>v. Inr (ucast v))
      | kUpb_FieldType_Int32 \<Rightarrow> bindE (load4 c) (\<lambda>v. Inr (scast v))
      | kUpb_FieldType_Enum \<Rightarrow> bindE (load4 c) (\<lambda>v. Inr (scast v))
      | kUpb_FieldType_Bool \<Rightarrow> bindE (load1 c) (\<lambda>v. Inr (ucast v))
      | kUpb_FieldType_SInt32 \<Rightarrow> bindE (load4 c) (\<lambda>v. Inr (ucast (encode_zz32 v)))
      | kUpb_FieldType_SInt64 \<Rightarrow> bindE (load8 c) (\<lambda>v. Inr (encode_zz64 v))
      | _ \<Rightarrow> Inl Unreachable)"

text \<open>
  The \<open>CASE\<close> macro: reserve room for the longest tag and value, then write both unchecked.
\<close>

definition scalar_case ::
    "nat \<Rightarrow> upb_encstate \<Rightarrow> upb_MiniTableField \<Rightarrow> u32 \<Rightarrow> (nat \<Rightarrow> upb_encstate \<Rightarrow> enc) \<Rightarrow> enc" where
  "scalar_case ptr e f wtype write =
     bindE (encode_reserve ptr e (5 + 10)) (\<lambda>(ptr, e).
     bindE (write (ptr + 15) e) (\<lambda>(ptr, e). encode_tag_unchecked ptr e (number f) wtype))"

definition encode_scalar ::
    "msg_encoder \<Rightarrow> upb_MiniTable list \<Rightarrow> upb_Cell option \<Rightarrow> upb_MiniTableField \<Rightarrow>
     nat \<Rightarrow> upb_encstate \<Rightarrow> enc" where
  "encode_scalar rec tabs c f ptr e =
     (let varint_case = bindE (varint_of (descriptortype f) c) (\<lambda>v.
            scalar_case ptr e f kUpb_WireType_Varint (\<lambda>ptr e. encode_varint_unchecked ptr e v));
          fixed64_case = bindE (load8 c) (\<lambda>v.
            scalar_case ptr e f kUpb_WireType_64Bit (\<lambda>ptr e. encode_fixed64_unchecked ptr e v));
          fixed32_case = bindE (load4 c) (\<lambda>v.
            scalar_case ptr e f kUpb_WireType_32Bit (\<lambda>ptr e. encode_fixed32_unchecked ptr e v));
          string_case = bindE (load_str c) (\<lambda>view.
            bindE (encode_reserve ptr e (5 + 5 + length view)) (\<lambda>(ptr, e).
            bindE (encode_bytes_unchecked (ptr + (5 + 5 + length view)) e view) (\<lambda>(ptr, e).
            bindE (encode_length_unchecked ptr e (of_nat (length view))) (\<lambda>(ptr, e).
              encode_tag_unchecked ptr e (number f) kUpb_WireType_Delimited))))
      in case descriptortype f of
           kUpb_FieldType_Double \<Rightarrow> fixed64_case
         | kUpb_FieldType_Float \<Rightarrow> fixed32_case
         | kUpb_FieldType_Int64 \<Rightarrow> varint_case
         | kUpb_FieldType_UInt64 \<Rightarrow> varint_case
         | kUpb_FieldType_UInt32 \<Rightarrow> varint_case
         | kUpb_FieldType_Int32 \<Rightarrow> varint_case
         | kUpb_FieldType_Enum \<Rightarrow> varint_case
         | kUpb_FieldType_SFixed64 \<Rightarrow> fixed64_case
         | kUpb_FieldType_Fixed64 \<Rightarrow> fixed64_case
         | kUpb_FieldType_Fixed32 \<Rightarrow> fixed32_case
         | kUpb_FieldType_SFixed32 \<Rightarrow> fixed32_case
         | kUpb_FieldType_Bool \<Rightarrow> varint_case
         | kUpb_FieldType_SInt32 \<Rightarrow> varint_case
         | kUpb_FieldType_SInt64 \<Rightarrow> varint_case
         | kUpb_FieldType_String \<Rightarrow> string_case
         | kUpb_FieldType_Bytes \<Rightarrow> string_case
         | kUpb_FieldType_Group \<Rightarrow>
             bindE (load_msg c) (\<lambda>sub. case sub of
               None \<Rightarrow> Inr (ptr, e)
             | Some m \<Rightarrow>
                 bindE (upb_MiniTable_GetSubMessageTable tabs f) (\<lambda>subm.
                 bindE (enter_depth e) (\<lambda>e.
                 bindE (encode_tag ptr e (number f) kUpb_WireType_EndGroup) (\<lambda>(ptr, e).
                 bindE (rec ptr e m subm) (\<lambda>(ptr, e, _).
                   encode_tag ptr (leave_depth e) (number f) kUpb_WireType_StartGroup)))))
         | kUpb_FieldType_Message \<Rightarrow>
             bindE (load_msg c) (\<lambda>sub. case sub of
               None \<Rightarrow> Inr (ptr, e)
             | Some m \<Rightarrow>
                 bindE (upb_MiniTable_GetSubMessageTable tabs f) (\<lambda>subm.
                 bindE (enter_depth e) (\<lambda>e.
                 bindE (rec ptr e m subm) (\<lambda>(ptr, e, sz).
                 bindE (encode_reserve ptr (leave_depth e) (5 + 5)) (\<lambda>(ptr, e).
                 bindE (encode_length_unchecked (ptr + 10) e (of_nat sz)) (\<lambda>(ptr, e).
                   encode_tag_unchecked ptr e (number f) kUpb_WireType_Delimited))))))
         | _ \<Rightarrow> Inl Unreachable)"

text \<open>
  \<open>encode_fixedarray\<close>: on a little-endian host a packed array is one copy of its memory, and an
  unpacked one a value and a tag per element.
\<close>

definition fixed_elem_bytes :: "nat \<Rightarrow> upb_Cell \<Rightarrow> byte list res" where
  "fixed_elem_bytes elem_size c =
     (if elem_size = 4 then bindE (load4 (Some c)) (\<lambda>v. Inr (le_bytes 4 v))
      else bindE (load8 (Some c)) (\<lambda>v. Inr (le_bytes 8 v)))"

fun concat_res :: "byte list res list \<Rightarrow> byte list res" where
  "concat_res [] = Inr []"
| "concat_res (r # rs) = bindE r (\<lambda>b. bindE (concat_res rs) (\<lambda>bs. Inr (b @ bs)))"

definition encode_fixedarray ::
    "upb_Cell list \<Rightarrow> nat \<Rightarrow> u32 \<Rightarrow> nat \<Rightarrow> upb_encstate \<Rightarrow> enc" where
  "encode_fixedarray arr elem_size tag ptr e =
     (if tag \<noteq> 0 then
        encode_each (\<lambda>c ptr e.
          bindE (fixed_elem_bytes elem_size c) (\<lambda>bs.
          bindE (encode_bytes ptr e bs) (\<lambda>(ptr, e). encode_varint ptr e (ucast tag))))
          (rev arr) ptr e
      else bindE (concat_res (map (fixed_elem_bytes elem_size) arr)) (\<lambda>bs.
             encode_bytes ptr e bs))"

definition encode_varint_array ::
    "upb_FieldType \<Rightarrow> upb_Cell list \<Rightarrow> u32 \<Rightarrow> nat \<Rightarrow> upb_encstate \<Rightarrow> enc" where
  "encode_varint_array t arr tag ptr e =
     encode_each (\<lambda>c ptr e.
       bindE (varint_of t (Some c)) (\<lambda>v.
       bindE (encode_varint ptr e v) (\<lambda>(ptr, e).
         if tag \<noteq> 0 then encode_varint ptr e (ucast tag) else Inr (ptr, e))))
       (rev arr) ptr e"

text \<open>The end of \<open>encode_array\<close>: a packed array gets the length of what was written, and a tag.\<close>

definition finish_packed :: "bool \<Rightarrow> u32 \<Rightarrow> nat \<Rightarrow> enc \<Rightarrow> enc" where
  "finish_packed packed num pre_len r =
     bindE r (\<lambda>(ptr, e).
       if packed then
         bindE (encode_length ptr e (of_nat (length (e_buf e) - ptr - pre_len)))
           (\<lambda>(ptr, e). encode_tag ptr e num kUpb_WireType_Delimited)
       else Inr (ptr, e))"

definition encode_array ::
    "msg_encoder \<Rightarrow> upb_MiniTable list \<Rightarrow> upb_Cell option \<Rightarrow> upb_MiniTableField \<Rightarrow>
     nat \<Rightarrow> upb_encstate \<Rightarrow> enc" where
  "encode_array rec tabs c f ptr e =
     bindE (load_arr c) (\<lambda>a. case a of
       None \<Rightarrow> Inr (ptr, e)
     | Some arr \<Rightarrow>
       if arr = [] then Inr (ptr, e)
       else
         let packed = upb_MiniTableField_IsPacked f;
             pre_len = length (e_buf e) - ptr;
             tag = (\<lambda>wt. if packed then 0 else make_tag (number f) wt);
             finish = finish_packed packed (number f) pre_len;
             fixed64_case = finish (encode_fixedarray arr 8 (tag kUpb_WireType_64Bit) ptr e);
             fixed32_case = finish (encode_fixedarray arr 4 (tag kUpb_WireType_32Bit) ptr e);
             varint_case = finish (encode_varint_array (descriptortype f) arr
                             (tag kUpb_WireType_Varint) ptr e);
             string_case = encode_each (\<lambda>c ptr e.
               bindE (load_str (Some c)) (\<lambda>s.
               bindE (encode_bytes ptr e s) (\<lambda>(ptr, e).
               bindE (encode_length ptr e (of_nat (length s))) (\<lambda>(ptr, e).
                 encode_tag ptr e (number f) kUpb_WireType_Delimited)))) (rev arr) ptr e
         in case descriptortype f of
              kUpb_FieldType_Double \<Rightarrow> fixed64_case
            | kUpb_FieldType_Float \<Rightarrow> fixed32_case
            | kUpb_FieldType_SFixed64 \<Rightarrow> fixed64_case
            | kUpb_FieldType_Fixed64 \<Rightarrow> fixed64_case
            | kUpb_FieldType_Fixed32 \<Rightarrow> fixed32_case
            | kUpb_FieldType_SFixed32 \<Rightarrow> fixed32_case
            | kUpb_FieldType_Int64 \<Rightarrow> varint_case
            | kUpb_FieldType_UInt64 \<Rightarrow> varint_case
            | kUpb_FieldType_UInt32 \<Rightarrow> varint_case
            | kUpb_FieldType_Int32 \<Rightarrow> varint_case
            | kUpb_FieldType_Enum \<Rightarrow> varint_case
            | kUpb_FieldType_Bool \<Rightarrow> varint_case
            | kUpb_FieldType_SInt32 \<Rightarrow> varint_case
            | kUpb_FieldType_SInt64 \<Rightarrow> varint_case
            | kUpb_FieldType_String \<Rightarrow> string_case
            | kUpb_FieldType_Bytes \<Rightarrow> string_case
            | kUpb_FieldType_Group \<Rightarrow>
                bindE (upb_MiniTable_GetSubMessageTable tabs f) (\<lambda>subm.
                bindE (enter_depth e) (\<lambda>e.
                bindE (encode_each (\<lambda>c ptr e.
                    bindE (load_msg (Some c)) (\<lambda>m. case m of None \<Rightarrow> Inl OutOfBounds | Some m \<Rightarrow>
                    bindE (encode_tag ptr e (number f) kUpb_WireType_EndGroup) (\<lambda>(ptr, e).
                    bindE (rec ptr e m subm) (\<lambda>(ptr, e, _).
                      encode_tag ptr e (number f) kUpb_WireType_StartGroup))))
                    (rev arr) ptr e) (\<lambda>(ptr, e). Inr (ptr, leave_depth e))))
            | kUpb_FieldType_Message \<Rightarrow>
                bindE (upb_MiniTable_GetSubMessageTable tabs f) (\<lambda>subm.
                bindE (enter_depth e) (\<lambda>e.
                bindE (encode_each (\<lambda>c ptr e.
                    bindE (load_msg (Some c)) (\<lambda>m. case m of None \<Rightarrow> Inl OutOfBounds | Some m \<Rightarrow>
                    bindE (rec ptr e m subm) (\<lambda>(ptr, e, sz).
                    bindE (encode_length ptr e (of_nat sz)) (\<lambda>(ptr, e).
                      encode_tag ptr e (number f) kUpb_WireType_Delimited))))
                    (rev arr) ptr e) (\<lambda>(ptr, e). Inr (ptr, leave_depth e))))
            | _ \<Rightarrow> finish (Inr (ptr, e)))"

subsection \<open>Maps\<close>

text \<open>A map entry is the cells of its key and its value.\<close>

definition encode_mapentry ::
    "msg_encoder \<Rightarrow> upb_MiniTable list \<Rightarrow> u32 \<Rightarrow> upb_MiniTable \<Rightarrow> upb_Cell \<times> upb_Cell \<Rightarrow>
     nat \<Rightarrow> upb_encstate \<Rightarrow> enc" where
  "encode_mapentry rec tabs num layout ent ptr e =
     bindE (field_at layout 0) (\<lambda>key_field.
     bindE (field_at layout 1) (\<lambda>val_field.
       let pre_len = length (e_buf e) - ptr
       in bindE (encode_scalar rec tabs (Some (snd ent)) val_field ptr e) (\<lambda>(ptr, e).
          bindE (encode_scalar rec tabs (Some (fst ent)) key_field ptr e) (\<lambda>(ptr, e).
          let sz = length (e_buf e) - ptr - pre_len
          in bindE (encode_length ptr e (of_nat sz)) (\<lambda>(ptr, e).
               encode_tag ptr e num kUpb_WireType_Delimited)))))"

text \<open>The key of a table entry as the cell of the entry message (\<open>memcpy\<close> of \<open>key_size\<close> bytes).\<close>

definition key_cell :: "nat \<Rightarrow> upb_tabkey \<Rightarrow> upb_Cell" where
  "key_cell ksize k =
     (case k of
        KeyStr s \<Rightarrow> CellStr s
      | KeyNum n \<Rightarrow> if ksize = 1 then Cell1 (ucast n) else if ksize = 4 then Cell4 (ucast n) else Cell8 n)"

text \<open>The array part of an \<open>inttable\<close>, in index order, without its empty slots.\<close>

fun array_entries :: "nat \<Rightarrow> nat \<Rightarrow> upb_Cell option list \<Rightarrow> (upb_Cell \<times> upb_Cell) list" where
  "array_entries ksize i [] = []"
| "array_entries ksize i (None # cs) = array_entries ksize (Suc i) cs"
| "array_entries ksize i (Some v # cs) =
     (key_cell ksize (KeyNum (of_nat i)), v) # array_entries ksize (Suc i) cs"

definition table_entries :: "nat \<Rightarrow> (upb_tabkey \<times> upb_Cell) list \<Rightarrow> (upb_Cell \<times> upb_Cell) list" where
  "table_entries ksize = map (\<lambda>(k, v). (key_cell ksize k, v))"

definition upb_Map_Size :: "upb_Map \<Rightarrow> nat" where
  "upb_Map_Size m = length (map_table m) + length (filter (\<lambda>c. c \<noteq> None) (map_array m))"

abbreviation kUpb_EncodeOption_Deterministic :: u32 where "kUpb_EncodeOption_Deterministic \<equiv> 1"
abbreviation kUpb_EncodeOption_SkipUnknown :: u32 where "kUpb_EncodeOption_SkipUnknown \<equiv> 2"
abbreviation kUpb_EncodeOption_CheckRequired :: u32 where "kUpb_EncodeOption_CheckRequired \<equiv> 4"

text \<open>The entries in the order \<open>encode_map\<close> writes them.\<close>

definition map_write_order :: "u32 \<Rightarrow> upb_MiniTable \<Rightarrow> upb_Map \<Rightarrow> (upb_Cell \<times> upb_Cell) list res" where
  "map_write_order options layout m =
     (let array_part = if is_strtable m then [] else array_entries (key_size m) 0 (map_array m)
      in if options AND kUpb_EncodeOption_Deterministic \<noteq> 0 then
           bindE (field_at layout 0) (\<lambda>key_field.
           bindE (upb_mapsorter_pushmap (descriptortype key_field) m) (\<lambda>sorted.
             Inr (array_part @ table_entries (key_size m) sorted)))
         else Inr (array_part @ table_entries (key_size m) (map_table m)))"

definition encode_map ::
    "msg_encoder \<Rightarrow> upb_MiniTable list \<Rightarrow> upb_Cell option \<Rightarrow> upb_MiniTableField \<Rightarrow>
     nat \<Rightarrow> upb_encstate \<Rightarrow> enc" where
  "encode_map rec tabs c f ptr e =
     bindE (load_map c) (\<lambda>map.
     bindE (upb_MiniTable_GetSubMessageTable tabs f) (\<lambda>layout.
     bindE (assertE (length (mt_fields layout) = 2)) (\<lambda>_.
       case map of
         None \<Rightarrow> Inr (ptr, e)
       | Some m \<Rightarrow>
           if upb_Map_Size m = 0 then Inr (ptr, e)
           else bindE (map_write_order (e_options e) layout m) (\<lambda>ents.
                  encode_each (encode_mapentry rec tabs (number f) layout) ents ptr e))))"

subsection \<open>Fields, extensions, messages\<close>

definition encode_shouldencode :: "upb_Message \<Rightarrow> upb_MiniTableField \<Rightarrow> bool res" where
  "encode_shouldencode msg f =
     (if presence f = 0 then
        case upb_MiniTableField_GetRep f of
          kUpb_FieldRep_1Byte \<Rightarrow> bindE (load1 (cell_at msg f)) (\<lambda>ch. Inr (ch \<noteq> 0))
        | kUpb_FieldRep_4Byte \<Rightarrow> bindE (load4 (cell_at msg f)) (\<lambda>u32. Inr (u32 \<noteq> 0))
        | kUpb_FieldRep_8Byte \<Rightarrow>
            (case cell_at msg f of
               Some (CellMsg p) \<Rightarrow> Inr (p \<noteq> None)
             | Some (CellArr p) \<Rightarrow> Inr (p \<noteq> None)
             | Some (CellMap p) \<Rightarrow> Inr (p \<noteq> None)
             | c \<Rightarrow> bindE (load8 c) (\<lambda>u64. Inr (u64 \<noteq> 0)))
        | kUpb_FieldRep_StringView \<Rightarrow> bindE (load_str (cell_at msg f)) (\<lambda>s. Inr (length s \<noteq> 0))
      else if upb_MiniTableField_HasHasbit f then Inr (upb_Message_GetHasbit msg f)
      else Inr (upb_Message_GetOneofCase msg f = number f))"

definition encode_field ::
    "msg_encoder \<Rightarrow> upb_MiniTable list \<Rightarrow> upb_Cell option \<Rightarrow> upb_MiniTableField \<Rightarrow>
     nat \<Rightarrow> upb_encstate \<Rightarrow> enc" where
  "encode_field rec tabs c f ptr e =
     (case upb_MiniTableField_Mode f of
        Some kUpb_FieldMode_Array \<Rightarrow> encode_array rec tabs c f ptr e
      | Some kUpb_FieldMode_Map \<Rightarrow> encode_map rec tabs c f ptr e
      | Some kUpb_FieldMode_Scalar \<Rightarrow> encode_scalar rec tabs c f ptr e
      | None \<Rightarrow> Inl Unreachable)"

abbreviation kUpb_MsgSet_Item :: u32 where "kUpb_MsgSet_Item \<equiv> 1"
abbreviation kUpb_MsgSet_TypeId :: u32 where "kUpb_MsgSet_TypeId \<equiv> 2"
abbreviation kUpb_MsgSet_Message :: u32 where "kUpb_MsgSet_Message \<equiv> 3"

definition encode_msgset_item ::
    "msg_encoder \<Rightarrow> upb_MiniTable list \<Rightarrow> upb_MiniTableField \<times> upb_Cell \<Rightarrow>
     nat \<Rightarrow> upb_encstate \<Rightarrow> enc" where
  "encode_msgset_item rec tabs x ptr e =
     bindE (load_msg (Some (snd x))) (\<lambda>m. case m of None \<Rightarrow> Inl OutOfBounds | Some m \<Rightarrow>
     bindE (encode_tag ptr e kUpb_MsgSet_Item kUpb_WireType_EndGroup) (\<lambda>(ptr, e).
     bindE (upb_MiniTable_GetSubMessageTable tabs (fst x)) (\<lambda>subm.
     bindE (rec ptr e m subm) (\<lambda>(ptr, e, sz).
     bindE (encode_varint ptr e (of_nat sz)) (\<lambda>(ptr, e).
     bindE (encode_tag ptr e kUpb_MsgSet_Message kUpb_WireType_Delimited) (\<lambda>(ptr, e).
     bindE (encode_varint ptr e (ucast (number (fst x)))) (\<lambda>(ptr, e).
     bindE (encode_tag ptr e kUpb_MsgSet_TypeId kUpb_WireType_Varint) (\<lambda>(ptr, e).
       encode_tag ptr e kUpb_MsgSet_Item kUpb_WireType_StartGroup))))))))"

definition encode_ext ::
    "msg_encoder \<Rightarrow> upb_MiniTable list \<Rightarrow> bool \<Rightarrow> upb_MiniTableField \<times> upb_Cell \<Rightarrow>
     nat \<Rightarrow> upb_encstate \<Rightarrow> enc" where
  "encode_ext rec tabs is_message_set x ptr e =
     (if is_message_set then encode_msgset_item rec tabs x ptr e
      else encode_field rec tabs (Some (snd x)) (fst x) ptr e)"

text \<open>Extensions in the order they are written: sorted by number, or newest first.\<close>

definition encode_exts ::
    "msg_encoder \<Rightarrow> upb_MiniTable list \<Rightarrow> upb_MiniTable \<Rightarrow> upb_Message \<Rightarrow>
     nat \<Rightarrow> upb_encstate \<Rightarrow> enc" where
  "encode_exts rec tabs m msg ptr e =
     (if ext m = kUpb_ExtMode_NonExtendable then Inr (ptr, e)
      else
        let order = if e_options e AND kUpb_EncodeOption_Deterministic \<noteq> 0
                    then upb_mapsorter_pushexts msg else rev (msg_exts msg)
        in encode_each (encode_ext rec tabs (ext m = kUpb_ExtMode_IsMessageSet)) order ptr e)"

definition encode_unknown :: "upb_Message \<Rightarrow> nat \<Rightarrow> upb_encstate \<Rightarrow> enc" where
  "encode_unknown msg ptr e =
     (let unknown_size = sum_list (map length (msg_unknown msg))
      in if unknown_size \<noteq> 0 then
           bindE (encode_reserve ptr e unknown_size) (\<lambda>(ptr, e).
           bindE (buf_store ptr e (concat (msg_unknown msg))) (\<lambda>e. Inr (ptr, e)))
         else Inr (ptr, e))"

definition encode_message_body ::
    "msg_encoder \<Rightarrow> upb_MiniTable list \<Rightarrow> msg_encoder" where
  "encode_message_body rec tabs ptr e msg m =
     (let pre_len = length (e_buf e) - ptr
      in bindE (if e_options e AND kUpb_EncodeOption_CheckRequired \<noteq> 0 \<and> required_count m \<noteq> 0 \<and>
                   \<not> upb_Message_IsInitializedShallow msg m
                then Inl (Thrown MissingRequired) else Inr ()) (\<lambda>_.
         bindE (if e_options e AND kUpb_EncodeOption_SkipUnknown = 0
                then encode_unknown msg ptr e else Inr (ptr, e)) (\<lambda>(ptr, e).
         bindE (encode_exts rec tabs m msg ptr e) (\<lambda>(ptr, e).
         bindE (encode_each (\<lambda>f ptr e.
             bindE (encode_shouldencode msg f) (\<lambda>b.
               if b then encode_field rec tabs (cell_at msg f) f ptr e else Inr (ptr, e)))
             (rev (mt_fields m)) ptr e) (\<lambda>(ptr, e).
           Inr (ptr, e, length (e_buf e) - ptr - pre_len))))))"

primrec encode_message :: "nat \<Rightarrow> upb_MiniTable list \<Rightarrow> msg_encoder" where
  "encode_message 0 tabs = (\<lambda>ptr e msg m. Inl OutOfFuel)"
| "encode_message (Suc fuel) tabs = encode_message_body (encode_message fuel tabs) tabs"

subsection \<open>Entry points\<close>

definition upb_EncodeOptions_GetEffectiveMaxDepth :: "u32 \<Rightarrow> u16" where
  "upb_EncodeOptions_GetEffectiveMaxDepth options =
     (let max_depth = (ucast (drop_bit 16 options) :: u16)
      in if max_depth \<noteq> 0 then max_depth else 100)"

datatype encode_result = EncodeOk "byte list" | EncodeError status_code | EncodeFault fault

definition upb_Encoder_Encode ::
    "upb_MiniTable list \<Rightarrow> upb_encstate \<Rightarrow> upb_Message \<Rightarrow> upb_MiniTable \<Rightarrow> bool \<Rightarrow> encode_result" where
  "upb_Encoder_Encode tabs encoder msg l prepend_len =
     (case bindE (encode_message (Suc (msg_height msg)) tabs 0 encoder msg l) (\<lambda>(ptr, e, sz).
             if prepend_len then encode_length ptr e (of_nat sz) else Inr (ptr, e)) of
        Inr (ptr, e) \<Rightarrow> EncodeOk (drop ptr (e_buf e))
      | Inl (Thrown c) \<Rightarrow> EncodeError c
      | Inl f \<Rightarrow> EncodeFault f)"

definition upb_Encode_opt ::
    "upb_MiniTable list \<Rightarrow> (nat \<Rightarrow> bool) \<Rightarrow> upb_Message \<Rightarrow> upb_MiniTable \<Rightarrow> u32 \<Rightarrow> bool \<Rightarrow> encode_result" where
  "upb_Encode_opt tabs arena msg l options prepend_len =
     upb_Encoder_Encode tabs
       \<lparr>e_buf = [], e_options = options,
        e_depth = uint (upb_EncodeOptions_GetEffectiveMaxDepth options), alloc_ok = arena\<rparr>
       msg l prepend_len"

definition upb_Encode ::
    "upb_MiniTable list \<Rightarrow> (nat \<Rightarrow> bool) \<Rightarrow> upb_Message \<Rightarrow> upb_MiniTable \<Rightarrow> u32 \<Rightarrow> encode_result" where
  "upb_Encode tabs arena msg l options = upb_Encode_opt tabs arena msg l options False"

definition upb_EncodeLengthPrefixed ::
    "upb_MiniTable list \<Rightarrow> (nat \<Rightarrow> bool) \<Rightarrow> upb_Message \<Rightarrow> upb_MiniTable \<Rightarrow> u32 \<Rightarrow> encode_result" where
  "upb_EncodeLengthPrefixed tabs arena msg l options = upb_Encode_opt tabs arena msg l options True"

definition upb_EncodeStatus_String :: "status_code option \<Rightarrow> string" where
  "upb_EncodeStatus_String st =
     (case st of
        None \<Rightarrow> ''Ok''
      | Some MissingRequired \<Rightarrow> ''Missing required field''
      | Some MaxDepthExceeded \<Rightarrow> ''Max depth exceeded''
      | Some OutOfMemory \<Rightarrow> ''Arena alloc failed''
      | Some _ \<Rightarrow> ''Unknown encode status'')"

end
