(* ===== verification/Wire_Decoder.thy ===== *)
theory Wire_Decoder
  imports Message_Encoder Utf8_Range
begin

text \<open>
  The parser's state and primitives: \<open>upb/wire/internal/decoder.h\<close>, \<open>internal/decoder.c\<close> and the
  parts of \<open>upb/wire/decode.c\<close> that read one value: strings, packed arrays, the conversion of a wire
  value to the field's type, and the bytes of the unknown fields the parser writes itself.

  The decoder is a record that is passed and returned. \<open>d_mem\<close> gives the outcome of each call that
  may need memory, in order: \<open>False\<close> is an arena that refuses. \<open>d_enc_mem\<close> says which sizes the arena
  gives the encoder, which the parser calls for map entries. A \<open>longjmp\<close> to the error handler is
  \<open>Inl (Thrown _)\<close>. A \<open>wireval\<close> is its eight bytes as a little-endian word, and a value of type
  \<open>'a dec\<close> is the advanced pointer, the result and the decoder.
\<close>

subsection \<open>State\<close>

abbreviation DECODE_NOGROUP :: u32 where
  "DECODE_NOGROUP \<equiv> - 1"

abbreviation kUpb_DecodeOption_AliasString :: u16 where "kUpb_DecodeOption_AliasString \<equiv> 1"
abbreviation kUpb_DecodeOption_CheckRequired :: u16 where "kUpb_DecodeOption_CheckRequired \<equiv> 2"
abbreviation kUpb_DecodeOption_AlwaysValidateUtf8 :: u16 where
  "kUpb_DecodeOption_AlwaysValidateUtf8 \<equiv> 8"
abbreviation kUpb_DecodeOption_DisableFastTable :: u32 where
  "kUpb_DecodeOption_DisableFastTable \<equiv> 16"

type_synonym extension_registry = "upb_MiniTable \<Rightarrow> u32 \<Rightarrow> upb_MiniTableField option"

record upb_Decoder =
  d_input :: upb_EpsCopyInputStream
  extreg :: "extension_registry option"
  d_depth :: int
  end_group :: u32
  d_options :: u16
  missing_required :: bool
  message_is_done :: bool
  d_mem :: "nat \<Rightarrow> bool"
  d_enc_mem :: "nat \<Rightarrow> bool"

type_synonym 'a dec = "(int \<times> 'a \<times> upb_Decoder) res"

text \<open>A call that may need memory, and throws when the arena refuses.\<close>

definition next_mem :: "upb_Decoder \<Rightarrow> upb_Decoder" where
  "next_mem d = d\<lparr>d_mem := \<lambda>n. d_mem d (Suc n)\<rparr>"

definition need_mem :: "upb_Decoder \<Rightarrow> upb_Decoder res" where
  "need_mem d = (if d_mem d 0 then Inr (next_mem d) else Inl (Thrown OutOfMemory))"

text \<open>
  \<open>EPS(d)\<close>: the decoder's stream has an error handler, so its operations return a pointer or jump.
\<close>

definition eps_read :: "upb_Decoder \<Rightarrow> 'a read \<Rightarrow> 'a dec" where
  "eps_read d r =
     bindE r (\<lambda>(p, x, e). case p of
         None \<Rightarrow> Inl Unreachable
       | Some q \<Rightarrow> Inr (q, x, d\<lparr>d_input := e\<rparr>))"

definition eps_done :: "upb_Decoder \<Rightarrow> int \<Rightarrow> bool dec" where
  "eps_done d ptr =
     bindE (upb_EpsCopyInputStream_IsDone (d_input d) ptr) (\<lambda>(b, p, e). eps_read d (Inr (p, b, e)))"

definition upb_Decoder_DecodeSize :: "upb_Decoder \<Rightarrow> int \<Rightarrow> u32 dec" where
  "upb_Decoder_DecodeSize d ptr =
     bindE (eps_read d (upb_WireReader_ReadSize (d_input d) ptr))
       (\<lambda>(ptr, sz, d). Inr (ptr, word_of_int sz, d))"

subsection \<open>Strings\<close>

definition upb_Decoder_FieldRequiresUtf8Validation :: "upb_Decoder \<Rightarrow> upb_MiniTableField \<Rightarrow> bool" where
  "upb_Decoder_FieldRequiresUtf8Validation d field \<longleftrightarrow>
     descriptortype field = kUpb_FieldType_String \<or>
     (descriptortype field = kUpb_FieldType_Bytes \<and> upb_MiniTableField_IsAlternate field \<and>
      d_options d AND kUpb_DecodeOption_AlwaysValidateUtf8 \<noteq> 0)"

text \<open>The bytes a string view refers to.\<close>

definition view_bytes :: "upb_EpsCopyInputStream \<Rightarrow> upb_StringView \<Rightarrow> byte list res" where
  "view_bytes e sv = eps_load_bytes e (sv_data sv) (sv_size sv)"

text \<open>\<open>None\<close> is the \<open>false\<close> return.\<close>

definition upb_Decoder_ReadString ::
    "upb_Decoder \<Rightarrow> int \<Rightarrow> nat \<Rightarrow> bool \<Rightarrow> byte list option dec" where
  "upb_Decoder_ReadString d ptr sz validate_utf8 =
     bindE (upb_EpsCopyInputStream_ReadStringAlwaysAlias (d_input d) ptr sz) (\<lambda>(p, tmp, e).
       let d = d\<lparr>d_input := e\<rparr>
       in case (p, tmp) of
            (Some ptr, Some sv) \<Rightarrow>
              bindE (view_bytes e sv) (\<lambda>bs.
                if validate_utf8 \<and> \<not> utf8_range_IsValid bs then Inl (Thrown BadUtf8)
                else if d_options d AND kUpb_DecodeOption_AliasString = 0
                then (if d_mem d 0 then Inr (ptr, Some bs, next_mem d)
                      else Inr (ptr, None, next_mem d))
                else Inr (ptr, Some bs, d))
          | _ \<Rightarrow> Inr (ptr, None, d))"

definition upb_Decoder_ReadString2 ::
    "upb_Decoder \<Rightarrow> int \<Rightarrow> u32 \<Rightarrow> bool \<Rightarrow> byte list dec" where
  "upb_Decoder_ReadString2 d ptr sz validate_utf8 =
     bindE (upb_Decoder_ReadString d ptr (unat sz) validate_utf8) (\<lambda>(ptr, str, d).
       case str of None \<Rightarrow> Inl (Thrown OutOfMemory) | Some bs \<Rightarrow> Inr (ptr, bs, d))"

subsection \<open>Wire values\<close>

type_synonym wireval = u64

text \<open>On a little-endian host \<open>MungeInt32\<close> does nothing; a store to a member sets its low bytes.\<close>

definition upb_Decoder_MungeInt32 :: "wireval \<Rightarrow> wireval" where
  "upb_Decoder_MungeInt32 val = val"

definition upb_Decoder_Munge :: "upb_MiniTableField \<Rightarrow> wireval \<Rightarrow> wireval res" where
  "upb_Decoder_Munge field val =
     (case descriptortype field of
        kUpb_FieldType_Bool \<Rightarrow> Inr ((val AND NOT 0xFF) OR (if val \<noteq> 0 then 1 else 0))
      | kUpb_FieldType_SInt32 \<Rightarrow>
          let n = ucast val :: u32;
              v = drop_bit 1 n XOR - (n AND 1)
          in Inr ((val AND NOT 0xFFFFFFFF) OR ucast v)
      | kUpb_FieldType_SInt64 \<Rightarrow> Inr (drop_bit 1 val XOR - (val AND 1))
      | kUpb_FieldType_Int32 \<Rightarrow> Inr (upb_Decoder_MungeInt32 val)
      | kUpb_FieldType_UInt32 \<Rightarrow> Inr (upb_Decoder_MungeInt32 val)
      | kUpb_FieldType_Enum \<Rightarrow> Inl Unreachable
      | _ \<Rightarrow> Inr val)"

text \<open>\<open>memcpy(mem, val, 1 << lg2)\<close>: the low bytes of a wire value as a cell.\<close>

definition val_cell :: "nat \<Rightarrow> wireval \<Rightarrow> upb_Cell res" where
  "val_cell lg2 val =
     (if lg2 = 0 then Inr (Cell1 (ucast val))
      else if lg2 = 2 then Inr (Cell4 (ucast val))
      else if lg2 = 3 then Inr (Cell8 val) else Inl Unreachable)"

text \<open>The \<open>do \<dots> while (val)\<close> loop of \<open>upb_Decoder_EncodeVarint32\<close>.\<close>

function upb_Decoder_EncodeVarint32 :: "u32 \<Rightarrow> byte list" where
  "upb_Decoder_EncodeVarint32 val =
     (let b = ucast (val AND 0x7f) :: byte; val' = drop_bit 7 val
      in if val' \<noteq> 0 then (b OR 0x80) # upb_Decoder_EncodeVarint32 val' else [b])"
  by pat_completeness auto

lemma u32_drop7: "unat (drop_bit 7 (val::u32)) = unat val div 128"
  by (simp add: unat_drop_bit_eq) (simp add: drop_bit_eq_div)

termination upb_Decoder_EncodeVarint32
proof (relation "measure unat")
  fix val x :: u32
  assume "x = drop_bit 7 val" "x \<noteq> 0"
  moreover from this have "unat val \<noteq> 0" by (metis u32_drop7 div_0 unat_eq_zero)
  ultimately show "(x, val) \<in> measure unat" by (simp add: u32_drop7)
qed simp

declare upb_Decoder_EncodeVarint32.simps [simp del]

text \<open>The unknown field an enum value that is not in its table becomes: tag and value.\<close>

definition upb_Decoder_AddEnumValueToUnknown ::
    "upb_Decoder \<Rightarrow> upb_MiniTableField \<Rightarrow> wireval \<Rightarrow> (byte list \<times> upb_Decoder) res" where
  "upb_Decoder_AddEnumValueToUnknown d field val =
     (let tag = push_bit 3 (number field) OR kUpb_WireType_Varint
      in bindE (need_mem d) (\<lambda>d.
           Inr (upb_Decoder_EncodeVarint32 tag @ upb_Decoder_EncodeVarint32 (ucast val), d)))"

subsection \<open>Packed arrays\<close>

definition upb_Decoder_Reserve :: "upb_Decoder \<Rightarrow> upb_Decoder res" where
  "upb_Decoder_Reserve d = need_mem d"

text \<open>An array's memory holds the fixed-width elements of a packed field as they are on the wire.\<close>

definition fixed_cells :: "nat \<Rightarrow> byte list \<Rightarrow> nat \<Rightarrow> upb_Cell list" where
  "fixed_cells lg2 bs cnt =
     map (\<lambda>i. if lg2 = 2 then Cell4 (le_word (take 4 (drop (4 * i) bs)))
              else Cell8 (le_word (take 8 (drop (8 * i) bs)))) [0..<cnt]"

definition upb_Decoder_DecodeFixedPacked ::
    "upb_Decoder \<Rightarrow> int \<Rightarrow> upb_Cell list \<Rightarrow> u32 \<Rightarrow> nat \<Rightarrow> upb_Cell list dec" where
  "upb_Decoder_DecodeFixedPacked d ptr arr sz lg2 =
     bindE (upb_EpsCopyInputStream_ReadStringEphemeral (d_input d) ptr (unat sz)) (\<lambda>(p, sv, e).
       let d = d\<lparr>d_input := e\<rparr>
       in case (p, sv) of
            (Some ptr, Some sv) \<Rightarrow>
              if sz AND (2 ^ lg2 - 1) \<noteq> 0 then Inl (Thrown Malformed)
              else
                let cnt = unat (drop_bit lg2 sz)
                in if cnt = 0 then Inr (ptr, arr, d)
                   else bindE (upb_Decoder_Reserve d) (\<lambda>d.
                        bindE (view_bytes (d_input d) sv) (\<lambda>bs.
                          Inr (ptr, arr @ fixed_cells lg2 bs cnt, d)))
          | _ \<Rightarrow> Inl (Thrown Malformed))"

text \<open>
  The loops over packed varints run to the pushed limit. Each turn reads at least one byte, so one
  more than the bytes left is enough fuel.
\<close>

primrec varint_packed_loop ::
    "nat \<Rightarrow> upb_MiniTableField \<Rightarrow> nat \<Rightarrow> upb_Decoder \<Rightarrow> int \<Rightarrow> upb_Cell list \<Rightarrow> upb_Cell list dec" where
  "varint_packed_loop 0 field lg2 d ptr arr = Inl OutOfFuel"
| "varint_packed_loop (Suc fuel) field lg2 d ptr arr =
     bindE (eps_done d ptr) (\<lambda>(ptr, fin, d).
       if fin then Inr (ptr, arr, d)
       else
         bindE (eps_read d (upb_WireReader_ReadVarint (d_input d) ptr)) (\<lambda>(ptr, elem, d).
         bindE (upb_Decoder_Munge field elem) (\<lambda>elem.
         bindE (upb_Decoder_Reserve d) (\<lambda>d.
         bindE (val_cell lg2 elem) (\<lambda>c.
           varint_packed_loop fuel field lg2 d ptr (arr @ [c]))))))"

definition upb_Decoder_DecodeVarintPacked ::
    "upb_Decoder \<Rightarrow> int \<Rightarrow> upb_Cell list \<Rightarrow> u32 \<Rightarrow> upb_MiniTableField \<Rightarrow> nat \<Rightarrow> upb_Cell list dec" where
  "upb_Decoder_DecodeVarintPacked d ptr arr sz field lg2 =
     bindE (upb_EpsCopyInputStream_PushLimit (d_input d) ptr (unat sz)) (\<lambda>(delta, e).
     bindE (varint_packed_loop (skip_fuel e ptr) field lg2 (d\<lparr>d_input := e\<rparr>) ptr arr)
       (\<lambda>(ptr, arr, d).
     bindE (upb_EpsCopyInputStream_PopLimit (d_input d) ptr delta) (\<lambda>e.
       Inr (ptr, arr, d\<lparr>d_input := e\<rparr>))))"

definition upb_MiniTable_GetSubEnumTable :: "upb_MiniTableField \<Rightarrow> upb_MiniTableEnum res" where
  "upb_MiniTable_GetSubEnumTable f =
     (case submsg f of SubEnum e \<Rightarrow> Inr e | _ \<Rightarrow> Inl OutOfBounds)"

primrec enum_packed_loop ::
    "nat \<Rightarrow> upb_MiniTableField \<Rightarrow> upb_MiniTableEnum \<Rightarrow> upb_Decoder \<Rightarrow> int \<Rightarrow>
     upb_Cell list \<Rightarrow> byte list list \<Rightarrow> (upb_Cell list \<times> byte list list) dec" where
  "enum_packed_loop 0 field en d ptr arr unk = Inl OutOfFuel"
| "enum_packed_loop (Suc fuel) field en d ptr arr unk =
     bindE (eps_done d ptr) (\<lambda>(ptr, fin, d).
       if fin then Inr (ptr, (arr, unk), d)
       else
         bindE (eps_read d (upb_WireReader_ReadVarint (d_input d) ptr)) (\<lambda>(ptr, elem, d).
         bindE (upb_MiniTableEnum_CheckValue en (ucast elem)) (\<lambda>known.
           if \<not> known then
             bindE (upb_Decoder_AddEnumValueToUnknown d field elem) (\<lambda>(chunk, d).
               enum_packed_loop fuel field en d ptr arr (unk @ [chunk]))
           else
             bindE (upb_Decoder_Reserve d) (\<lambda>d.
             bindE (val_cell 2 elem) (\<lambda>c.
               enum_packed_loop fuel field en d ptr (arr @ [c]) unk)))))"

definition upb_Decoder_DecodeEnumPacked ::
    "upb_Decoder \<Rightarrow> int \<Rightarrow> upb_Cell list \<Rightarrow> upb_MiniTableField \<Rightarrow> u32 \<Rightarrow>
     (upb_Cell list \<times> byte list list) dec" where
  "upb_Decoder_DecodeEnumPacked d ptr arr field sz =
     bindE (upb_MiniTable_GetSubEnumTable field) (\<lambda>en.
     bindE (upb_EpsCopyInputStream_PushLimit (d_input d) ptr (unat sz)) (\<lambda>(delta, e).
     bindE (enum_packed_loop (skip_fuel e ptr) field en (d\<lparr>d_input := e\<rparr>) ptr arr [])
       (\<lambda>(ptr, res, d).
     bindE (upb_EpsCopyInputStream_PopLimit (d_input d) ptr delta) (\<lambda>e.
       Inr (ptr, res, d\<lparr>d_input := e\<rparr>)))))"

subsection \<open>Required fields\<close>

definition upb_Decoder_CheckRequired ::
    "upb_Decoder \<Rightarrow> upb_Message \<Rightarrow> upb_MiniTable \<Rightarrow> upb_Decoder res" where
  "upb_Decoder_CheckRequired d msg m =
     bindE (assertE (required_count m \<noteq> 0)) (\<lambda>_.
       Inr (if d_options d AND kUpb_DecodeOption_CheckRequired \<noteq> 0
            then d\<lparr>missing_required :=
                     missing_required d \<or> \<not> upb_Message_IsInitializedShallow msg m\<rparr>
            else d))"

end
