(* ===== verification/Field_Decoder.thy ===== *)
theory Field_Decoder
  imports Wire_Decoder
begin

text \<open>
  Storing a parsed value in a message: the functions of \<open>upb/wire/decode.c\<close> for known fields, with the
  parts of \<open>upb/message/internal/map.h\<close>, \<open>accessors.h\<close> and \<open>extension.c\<close> they write messages through.
  \<open>tabs\<close> is the environment of layouts. Functions that call \<open>_upb_Decoder_DecodeMessage\<close> take it as
  the argument \<open>rec\<close>; the knot is tied in \<open>Message_Decoder\<close>.

  The boundaries between the chunks of unknown data are not those of the C code, which extends the
  last chunk in place where it can: only the concatenation is.
\<close>

subsection \<open>Writing messages\<close>

definition put_cell :: "upb_Message \<Rightarrow> upb_MiniTableField \<Rightarrow> upb_Cell \<Rightarrow> upb_Message" where
  "put_cell msg f c =
     Message ((unat (offset f), c) # filter (\<lambda>(k, _). k \<noteq> unat (offset f)) (msg_cells msg))
       (msg_hasbits msg) (msg_oneofs msg) (msg_unknown msg) (msg_exts msg)"

definition clear_cell :: "upb_Message \<Rightarrow> upb_MiniTableField \<Rightarrow> upb_Message" where
  "clear_cell msg f =
     Message (filter (\<lambda>(k, _). k \<noteq> unat (offset f)) (msg_cells msg))
       (msg_hasbits msg) (msg_oneofs msg) (msg_unknown msg) (msg_exts msg)"

definition upb_Message_SetHasbit :: "upb_Message \<Rightarrow> upb_MiniTableField \<Rightarrow> upb_Message" where
  "upb_Message_SetHasbit msg f =
     Message (msg_cells msg) (List.insert (nat (presence f)) (msg_hasbits msg)) (msg_oneofs msg)
       (msg_unknown msg) (msg_exts msg)"

definition upb_Message_SetOneofCase :: "upb_Message \<Rightarrow> upb_MiniTableField \<Rightarrow> upb_Message" where
  "upb_Message_SetOneofCase msg f =
     Message (msg_cells msg) (msg_hasbits msg)
       ((upb_MiniTableField_OneofOffset f, number f) #
        filter (\<lambda>(k, _). k \<noteq> upb_MiniTableField_OneofOffset f) (msg_oneofs msg))
       (msg_unknown msg) (msg_exts msg)"

definition upb_Message_AddUnknown :: "upb_Message \<Rightarrow> byte list list \<Rightarrow> upb_Message" where
  "upb_Message_AddUnknown msg chunks =
     Message (msg_cells msg) (msg_hasbits msg) (msg_oneofs msg) (msg_unknown msg @ chunks)
       (msg_exts msg)"

definition upb_Message_HasUnknown :: "upb_Message \<Rightarrow> bool" where
  "upb_Message_HasUnknown msg \<longleftrightarrow> msg_unknown msg \<noteq> []"

text \<open>
  An extension's data starts as zero bytes; the cell says how the field reads them. A new extension
  is the last one of the message.
\<close>

definition zero_cell :: "upb_FieldMode option \<Rightarrow> upb_FieldType \<Rightarrow> upb_Cell" where
  "zero_cell md t =
     (case md of
        Some kUpb_FieldMode_Array \<Rightarrow> CellArr None
      | Some kUpb_FieldMode_Map \<Rightarrow> CellMap None
      | _ \<Rightarrow>
        (case t of
           kUpb_FieldType_Bool \<Rightarrow> Cell1 0
         | kUpb_FieldType_Float \<Rightarrow> Cell4 0 | kUpb_FieldType_Int32 \<Rightarrow> Cell4 0
         | kUpb_FieldType_Fixed32 \<Rightarrow> Cell4 0 | kUpb_FieldType_UInt32 \<Rightarrow> Cell4 0
         | kUpb_FieldType_Enum \<Rightarrow> Cell4 0 | kUpb_FieldType_SFixed32 \<Rightarrow> Cell4 0
         | kUpb_FieldType_SInt32 \<Rightarrow> Cell4 0
         | kUpb_FieldType_String \<Rightarrow> CellStr [] | kUpb_FieldType_Bytes \<Rightarrow> CellStr []
         | kUpb_FieldType_Group \<Rightarrow> CellMsg None | kUpb_FieldType_Message \<Rightarrow> CellMsg None
         | _ \<Rightarrow> Cell8 0))"

definition upb_Message_Getext :: "upb_Message \<Rightarrow> upb_MiniTableField \<Rightarrow> upb_Cell option" where
  "upb_Message_Getext msg e = map_of (msg_exts msg) e"

definition upb_Message_GetOrCreateExtension ::
    "upb_Decoder \<Rightarrow> upb_Message \<Rightarrow> upb_MiniTableField \<Rightarrow> (upb_Cell \<times> upb_Message \<times> upb_Decoder) res" where
  "upb_Message_GetOrCreateExtension d msg e =
     (case upb_Message_Getext msg e of
        Some c \<Rightarrow> Inr (c, msg, d)
      | None \<Rightarrow>
          bindE (need_mem d) (\<lambda>d.
            let c = zero_cell (upb_MiniTableField_Mode e) (descriptortype e)
            in Inr (c, Message (msg_cells msg) (msg_hasbits msg) (msg_oneofs msg)
                         (msg_unknown msg) (msg_exts msg @ [(e, c)]), d)))"

definition put_ext :: "upb_Message \<Rightarrow> upb_MiniTableField \<Rightarrow> upb_Cell \<Rightarrow> upb_Message" where
  "put_ext msg e c =
     Message (msg_cells msg) (msg_hasbits msg) (msg_oneofs msg) (msg_unknown msg)
       (map (\<lambda>(e', c'). if e' = e then (e', c) else (e', c')) (msg_exts msg))"

text \<open>
  Maps. An integer table keeps the keys below its array size in the array part, which has one slot
  in a new map; the order of the hash part is not modelled. A key or a value of width \<open>0\<close> is a string.
\<close>

definition upb_Map_New :: "nat \<Rightarrow> nat \<Rightarrow> upb_Map" where
  "upb_Map_New ks vs =
     (if ks \<le> 8 \<and> ks \<noteq> 0 then Map False [None] [] ks vs else Map True [] [] ks vs)"

definition upb_map_tokey :: "nat \<Rightarrow> upb_Cell option \<Rightarrow> upb_tabkey res" where
  "upb_map_tokey ks c =
     (if ks = 0 then bindE (load_str c) (\<lambda>s. Inr (KeyStr s))
      else if ks = 1 then bindE (load1 c) (\<lambda>b. Inr (KeyNum (ucast b)))
      else if ks = 4 then bindE (load4 c) (\<lambda>w. Inr (KeyNum (ucast w)))
      else bindE (load8 c) (\<lambda>w. Inr (KeyNum w)))"

definition map_put :: "upb_Map \<Rightarrow> upb_tabkey \<Rightarrow> upb_Cell \<Rightarrow> upb_Map" where
  "map_put m k v =
     (case k of
        KeyNum w \<Rightarrow>
          if unat w < length (map_array m)
          then Map (is_strtable m) ((map_array m)[unat w := Some v]) (map_table m) (key_size m) (val_size m)
          else Map (is_strtable m) (map_array m)
                 (filter (\<lambda>(k', _). k' \<noteq> k) (map_table m) @ [(k, v)]) (key_size m) (val_size m)
      | KeyStr s \<Rightarrow>
          Map (is_strtable m) (map_array m)
            (filter (\<lambda>(k', _). k' \<noteq> k) (map_table m) @ [(k, v)]) (key_size m) (val_size m))"

definition upb_Map_Insert ::
    "upb_Decoder \<Rightarrow> upb_Map \<Rightarrow> upb_Cell option \<Rightarrow> upb_Cell \<Rightarrow> (upb_Map \<times> upb_Decoder) res" where
  "upb_Map_Insert d m k v =
     bindE (need_mem d) (\<lambda>d.
     bindE (upb_map_tokey (key_size m) k) (\<lambda>key.
     bindE (assertE ((case key of KeyStr _ \<Rightarrow> True | _ \<Rightarrow> False) = is_strtable m)) (\<lambda>_.
       Inr (map_put m key v, d))))"

subsection \<open>Sub-messages\<close>

type_synonym msg_decoder = "upb_Decoder \<Rightarrow> int \<Rightarrow> upb_Message \<Rightarrow> upb_MiniTable \<Rightarrow> upb_Message dec"

text \<open>\<open>None\<close> is the NULL of a sub-message that is not linked.\<close>

definition sub_table :: "upb_MiniTable list \<Rightarrow> upb_MiniTableField \<Rightarrow> upb_MiniTable option res" where
  "sub_table tabs f =
     (case submsg f of
        SubMsg (Some i) \<Rightarrow> if i < length tabs then Inr (Some (tabs ! i)) else Inl OutOfBounds
      | SubMsg None \<Rightarrow> Inr None
      | _ \<Rightarrow> Inl OutOfBounds)"

definition linked_table :: "upb_MiniTable list \<Rightarrow> upb_MiniTableField \<Rightarrow> upb_MiniTable res" where
  "linked_table tabs f =
     bindE (sub_table tabs f) (\<lambda>t. case t of None \<Rightarrow> Inl AssertFailed | Some t \<Rightarrow> Inr t)"

definition upb_Decoder_NewSubMessage ::
    "upb_MiniTable list \<Rightarrow> upb_Decoder \<Rightarrow> upb_MiniTableField \<Rightarrow> (upb_Message \<times> upb_Decoder) res" where
  "upb_Decoder_NewSubMessage tabs d field =
     bindE (linked_table tabs field) (\<lambda>_. bindE (need_mem d) (\<lambda>d. Inr (empty_msg, d)))"

definition upb_Decoder_RecurseSubMessage ::
    "msg_decoder \<Rightarrow> upb_Decoder \<Rightarrow> int \<Rightarrow> upb_Message \<Rightarrow> upb_MiniTable \<Rightarrow> u32 \<Rightarrow> upb_Message dec" where
  "upb_Decoder_RecurseSubMessage rec d ptr sub subl expected_end_group =
     (if d_depth d - 1 < 0 then Inl (Thrown MaxDepthExceeded)
      else
        bindE (rec (d\<lparr>d_depth := d_depth d - 1\<rparr>) ptr sub subl) (\<lambda>(ptr, sub, d).
          let d = d\<lparr>d_depth := d_depth d + 1\<rparr>
          in if end_group d \<noteq> expected_end_group then Inl (Thrown Malformed) else Inr (ptr, sub, d)))"

definition upb_Decoder_DecodeSubMessage ::
    "msg_decoder \<Rightarrow> upb_MiniTable list \<Rightarrow> upb_Decoder \<Rightarrow> int \<Rightarrow> upb_Message \<Rightarrow>
     upb_MiniTableField \<Rightarrow> u32 \<Rightarrow> upb_Message dec" where
  "upb_Decoder_DecodeSubMessage rec tabs d ptr sub field sz =
     bindE (upb_EpsCopyInputStream_PushLimit (d_input d) ptr (unat sz)) (\<lambda>(delta, e).
     bindE (linked_table tabs field) (\<lambda>subl.
     bindE (upb_Decoder_RecurseSubMessage rec (d\<lparr>d_input := e\<rparr>) ptr sub subl DECODE_NOGROUP)
       (\<lambda>(ptr, sub, d).
     bindE (upb_EpsCopyInputStream_PopLimit (d_input d) ptr delta) (\<lambda>e.
       Inr (ptr, sub, d\<lparr>d_input := e\<rparr>)))))"

definition upb_Decoder_DecodeGroup ::
    "msg_decoder \<Rightarrow> upb_Decoder \<Rightarrow> int \<Rightarrow> upb_Message \<Rightarrow> upb_MiniTable \<Rightarrow> u32 \<Rightarrow> upb_Message dec" where
  "upb_Decoder_DecodeGroup rec d ptr sub subl num =
     bindE (eps_done d ptr) (\<lambda>(ptr, fin, d).
       if fin then Inl (Thrown Malformed)
       else
         bindE (upb_Decoder_RecurseSubMessage rec d ptr sub subl num) (\<lambda>(ptr, sub, d).
           Inr (ptr, sub, d\<lparr>end_group := DECODE_NOGROUP\<rparr>)))"

definition upb_Decoder_DecodeKnownGroup ::
    "msg_decoder \<Rightarrow> upb_MiniTable list \<Rightarrow> upb_Decoder \<Rightarrow> int \<Rightarrow> upb_Message \<Rightarrow>
     upb_MiniTableField \<Rightarrow> upb_Message dec" where
  "upb_Decoder_DecodeKnownGroup rec tabs d ptr sub field =
     bindE (linked_table tabs field) (\<lambda>subl.
       upb_Decoder_DecodeGroup rec d ptr sub subl (number field))"

text \<open>The choice between a group and a length-delimited sub-message, by the type of the field.\<close>

definition decode_sub ::
    "msg_decoder \<Rightarrow> upb_MiniTable list \<Rightarrow> upb_Decoder \<Rightarrow> int \<Rightarrow> upb_Message \<Rightarrow>
     upb_MiniTableField \<Rightarrow> wireval \<Rightarrow> upb_Message dec" where
  "decode_sub rec tabs d ptr sub field val =
     (if descriptortype field = kUpb_FieldType_Group
      then upb_Decoder_DecodeKnownGroup rec tabs d ptr sub field
      else upb_Decoder_DecodeSubMessage rec tabs d ptr sub field (ucast val))"

subsection \<open>Known fields\<close>

datatype upb_DecodeOp =
    kUpb_DecodeOp_UnknownField
  | kUpb_DecodeOp_MessageSetItem
  | kUpb_DecodeOp_Scalar1Byte
  | kUpb_DecodeOp_Scalar4Byte
  | kUpb_DecodeOp_Scalar8Byte
  | kUpb_DecodeOp_String
  | kUpb_DecodeOp_Bytes
  | kUpb_DecodeOp_SubMessage
  | OP_FIXPCK_LG2 nat
  | OP_VARPCK_LG2 nat
  | kUpb_DecodeOp_PackedEnum

definition upb_Decoder_CreateArray :: "upb_Decoder \<Rightarrow> upb_Decoder res" where
  "upb_Decoder_CreateArray d = need_mem d"

text \<open>
  \<open>DecodeToArray\<close> returns the message and the unknown fields that packed enum values became, which
  the caller adds to the message the extension belongs to.
\<close>

definition upb_Decoder_DecodeToArray ::
    "msg_decoder \<Rightarrow> upb_MiniTable list \<Rightarrow> upb_Decoder \<Rightarrow> int \<Rightarrow> upb_Message \<Rightarrow>
     upb_MiniTableField \<Rightarrow> wireval \<Rightarrow> upb_DecodeOp \<Rightarrow> (upb_Message \<times> byte list list) dec" where
  "upb_Decoder_DecodeToArray rec tabs d ptr msg field val op =
     bindE (load_arr (cell_at msg field)) (\<lambda>arrp.
     bindE (case arrp of
              Some arr \<Rightarrow> bindE (upb_Decoder_Reserve d) (\<lambda>d. Inr (arr, d))
            | None \<Rightarrow> bindE (upb_Decoder_CreateArray d) (\<lambda>d. Inr ([], d))) (\<lambda>(arr, d).
       let store = (\<lambda>arr. put_cell msg field (CellArr (Some arr)));
           scalar = (\<lambda>lg2. bindE (val_cell lg2 val) (\<lambda>c. Inr (ptr, (store (arr @ [c]), []), d)));
           string = (\<lambda>utf8. bindE (upb_Decoder_ReadString2 d ptr (ucast val) utf8) (\<lambda>(ptr, s, d).
             Inr (ptr, (store (arr @ [CellStr s]), []), d)))
       in case op of
            kUpb_DecodeOp_Scalar1Byte \<Rightarrow> scalar 0
          | kUpb_DecodeOp_Scalar4Byte \<Rightarrow> scalar 2
          | kUpb_DecodeOp_Scalar8Byte \<Rightarrow> scalar 3
          | kUpb_DecodeOp_String \<Rightarrow> string True
          | kUpb_DecodeOp_Bytes \<Rightarrow> string False
          | kUpb_DecodeOp_SubMessage \<Rightarrow>
              bindE (upb_Decoder_NewSubMessage tabs d field) (\<lambda>(sub, d).
              bindE (decode_sub rec tabs d ptr sub field val) (\<lambda>(ptr, sub, d).
                Inr (ptr, (store (arr @ [CellMsg (Some sub)]), []), d)))
          | OP_FIXPCK_LG2 lg2 \<Rightarrow>
              bindE (upb_Decoder_DecodeFixedPacked d ptr arr (ucast val) lg2) (\<lambda>(ptr, arr, d).
                Inr (ptr, (store arr, []), d))
          | OP_VARPCK_LG2 lg2 \<Rightarrow>
              bindE (upb_Decoder_DecodeVarintPacked d ptr arr (ucast val) field lg2) (\<lambda>(ptr, arr, d).
                Inr (ptr, (store arr, []), d))
          | kUpb_DecodeOp_PackedEnum \<Rightarrow>
              bindE (upb_Decoder_DecodeEnumPacked d ptr arr field (ucast val)) (\<lambda>(ptr, (arr, unk), d).
                Inr (ptr, (store arr, unk), d))
          | _ \<Rightarrow> Inl Unreachable))"

text \<open>The table \<open>kSizeInMap\<close>, with 0 for \<open>UPB_MAPTYPE_STRING\<close>.\<close>

definition kSizeInMap :: "upb_FieldType \<Rightarrow> nat res" where
  "kSizeInMap t =
     (case t of
        kUpb_FieldType_Double \<Rightarrow> Inr 8 | kUpb_FieldType_Float \<Rightarrow> Inr 4
      | kUpb_FieldType_Int64 \<Rightarrow> Inr 8 | kUpb_FieldType_UInt64 \<Rightarrow> Inr 8
      | kUpb_FieldType_Int32 \<Rightarrow> Inr 4 | kUpb_FieldType_Fixed64 \<Rightarrow> Inr 8
      | kUpb_FieldType_Fixed32 \<Rightarrow> Inr 4 | kUpb_FieldType_Bool \<Rightarrow> Inr 1
      | kUpb_FieldType_String \<Rightarrow> Inr 0 | kUpb_FieldType_Group \<Rightarrow> Inr 8
      | kUpb_FieldType_Message \<Rightarrow> Inr 8 | kUpb_FieldType_Bytes \<Rightarrow> Inr 0
      | kUpb_FieldType_UInt32 \<Rightarrow> Inr 4 | kUpb_FieldType_Enum \<Rightarrow> Inr 4
      | kUpb_FieldType_SFixed32 \<Rightarrow> Inr 4 | kUpb_FieldType_SFixed64 \<Rightarrow> Inr 8
      | kUpb_FieldType_SInt32 \<Rightarrow> Inr 4 | kUpb_FieldType_SInt64 \<Rightarrow> Inr 8
      | _ \<Rightarrow> Inl OutOfBounds)"

definition upb_Decoder_CreateMap ::
    "upb_Decoder \<Rightarrow> upb_MiniTableField \<Rightarrow> upb_MiniTableField \<Rightarrow> (upb_Map \<times> upb_Decoder) res" where
  "upb_Decoder_CreateMap d key_field val_field =
     bindE (kSizeInMap (descriptortype key_field)) (\<lambda>ks.
     bindE (kSizeInMap (descriptortype val_field)) (\<lambda>vs.
     bindE (need_mem d) (\<lambda>d. Inr (upb_Map_New ks vs, d))))"

definition upb_Decoder_AddMapEntryUnknown ::
    "upb_MiniTable list \<Rightarrow> upb_Decoder \<Rightarrow> upb_Message \<Rightarrow> upb_MiniTableField \<Rightarrow> upb_Message \<Rightarrow>
     upb_MiniTable \<Rightarrow> (upb_Message \<times> upb_Decoder) res" where
  "upb_Decoder_AddMapEntryUnknown tabs d msg field ent_msg entry =
     (case upb_Encode tabs (d_enc_mem d) ent_msg entry 0 of
        EncodeOk buf \<Rightarrow>
          let tag = push_bit 3 (number field) OR kUpb_WireType_Delimited;
              delim = upb_Decoder_EncodeVarint32 tag @ upb_Decoder_EncodeVarint32 (of_nat (length buf))
          in bindE (need_mem d) (\<lambda>d. Inr (upb_Message_AddUnknown msg [delim @ buf], d))
      | EncodeError _ \<Rightarrow> Inl (Thrown OutOfMemory)
      | EncodeFault f \<Rightarrow> Inl f)"

text \<open>\<open>memcpy(msgval, val, size)\<close>: the value of a map entry, zero where it was never written.\<close>

definition entry_value :: "upb_MiniTableField \<Rightarrow> upb_Message \<Rightarrow> upb_Cell" where
  "entry_value f ent =
     (case cell_at ent f of
        None \<Rightarrow> zero_cell (Some kUpb_FieldMode_Scalar) (descriptortype f)
      | Some c \<Rightarrow> c)"

definition upb_Decoder_DecodeToMap ::
    "msg_decoder \<Rightarrow> upb_MiniTable list \<Rightarrow> upb_Decoder \<Rightarrow> int \<Rightarrow> upb_Message \<Rightarrow>
     upb_MiniTableField \<Rightarrow> wireval \<Rightarrow> upb_Message dec" where
  "upb_Decoder_DecodeToMap rec tabs d ptr msg field val =
     bindE (load_map (cell_at msg field)) (\<lambda>map_p.
     bindE (upb_MiniTableField_Type field) (\<lambda>ty.
     bindE (assertE (ty = kUpb_FieldType_Message)) (\<lambda>_.
     bindE (linked_table tabs field) (\<lambda>entry.
     bindE (assertE (length (mt_fields entry) = 2)) (\<lambda>_.
       let kf = mt_fields entry ! 0; vf = mt_fields entry ! 1
       in bindE (assertE (upb_MiniTableField_IsScalar kf \<and> upb_MiniTableField_IsScalar vf)) (\<lambda>_.
          bindE (case map_p of Some m \<Rightarrow> Inr (m, d) | None \<Rightarrow> upb_Decoder_CreateMap d kf vf) (\<lambda>(m, d).
          bindE (if upb_MiniTableField_IsSubMessage vf then sub_table tabs vf else Inr None) (\<lambda>subt.
          bindE (if subt = None then Inr (empty_msg, d)
                 else bindE (upb_Decoder_NewSubMessage tabs d vf) (\<lambda>(sub, d).
                   Inr (put_cell empty_msg vf (CellMsg (Some sub)), d))) (\<lambda>(ent, d).
          bindE (upb_Decoder_DecodeSubMessage rec tabs d ptr ent field (ucast val)) (\<lambda>(ptr, ent, d).
          bindE (case subt of
                   Some t \<Rightarrow>
                     if required_count t \<noteq> 0 then
                       bindE (load_msg (cell_at ent vf)) (\<lambda>sub. case sub of
                         None \<Rightarrow> Inl OutOfBounds
                       | Some sub \<Rightarrow> upb_Decoder_CheckRequired d sub t)
                     else Inr d
                 | None \<Rightarrow> Inr d) (\<lambda>d.
            let msg = put_cell msg field (CellMap (Some m))
            in if upb_Message_HasUnknown ent then
                 bindE (upb_Decoder_AddMapEntryUnknown tabs d msg field ent entry) (\<lambda>(msg, d).
                   Inr (ptr, msg, d))
               else
                 bindE (upb_Map_Insert d m (cell_at ent kf) (entry_value vf ent)) (\<lambda>(m, d).
                   Inr (ptr, put_cell msg field (CellMap (Some m)), d)))))))))))))"

definition set_presence :: "upb_Message \<Rightarrow> upb_MiniTableField \<Rightarrow> upb_DecodeOp \<Rightarrow> upb_Message" where
  "set_presence msg field op =
     (if upb_MiniTableField_HasHasbit field then upb_Message_SetHasbit msg field
      else if upb_MiniTableField_IsInOneof field then
        upb_Message_SetOneofCase
          (if op = kUpb_DecodeOp_SubMessage \<and> upb_Message_GetOneofCase msg field \<noteq> number field
           then clear_cell msg field else msg) field
      else msg)"

definition upb_Decoder_DecodeToSubMessage ::
    "msg_decoder \<Rightarrow> upb_MiniTable list \<Rightarrow> upb_Decoder \<Rightarrow> int \<Rightarrow> upb_Message \<Rightarrow>
     upb_MiniTableField \<Rightarrow> wireval \<Rightarrow> upb_DecodeOp \<Rightarrow> upb_Message dec" where
  "upb_Decoder_DecodeToSubMessage rec tabs d ptr msg0 field val op =
     (let msg = set_presence msg0 field op;
          scalar = (\<lambda>lg2. bindE (val_cell lg2 val) (\<lambda>c. Inr (ptr, put_cell msg field c, d)));
          string = (\<lambda>utf8. bindE (upb_Decoder_ReadString2 d ptr (ucast val) utf8) (\<lambda>(ptr, s, d).
            Inr (ptr, put_cell msg field (CellStr s), d)))
      in case op of
           kUpb_DecodeOp_SubMessage \<Rightarrow>
             bindE (load_msg (cell_at msg field)) (\<lambda>submsgp.
             bindE (case submsgp of
                      Some sub \<Rightarrow> Inr (sub, d)
                    | None \<Rightarrow> upb_Decoder_NewSubMessage tabs d field) (\<lambda>(sub, d).
             bindE (decode_sub rec tabs d ptr sub field val) (\<lambda>(ptr, sub, d).
               Inr (ptr, put_cell msg field (CellMsg (Some sub)), d))))
         | kUpb_DecodeOp_String \<Rightarrow> string True
         | kUpb_DecodeOp_Bytes \<Rightarrow> string False
         | kUpb_DecodeOp_Scalar8Byte \<Rightarrow> scalar 3
         | kUpb_DecodeOp_Scalar4Byte \<Rightarrow> scalar 2
         | kUpb_DecodeOp_Scalar1Byte \<Rightarrow> scalar 0
         | _ \<Rightarrow> Inl Unreachable)"

text \<open>The switch on the mode of the field.\<close>

definition decode_to_field ::
    "msg_decoder \<Rightarrow> upb_MiniTable list \<Rightarrow> upb_Decoder \<Rightarrow> int \<Rightarrow> upb_Message \<Rightarrow>
     upb_MiniTableField \<Rightarrow> upb_DecodeOp \<Rightarrow> wireval \<Rightarrow> (upb_Message \<times> byte list list) dec" where
  "decode_to_field rec tabs d ptr msg field op val =
     (case upb_MiniTableField_Mode field of
        Some kUpb_FieldMode_Array \<Rightarrow> upb_Decoder_DecodeToArray rec tabs d ptr msg field val op
      | Some kUpb_FieldMode_Map \<Rightarrow>
          bindE (upb_Decoder_DecodeToMap rec tabs d ptr msg field val) (\<lambda>(ptr, msg, d).
            Inr (ptr, (msg, []), d))
      | Some kUpb_FieldMode_Scalar \<Rightarrow>
          bindE (upb_Decoder_DecodeToSubMessage rec tabs d ptr msg field val op) (\<lambda>(ptr, msg, d).
            Inr (ptr, (msg, []), d))
      | None \<Rightarrow> Inl Unreachable)"

text \<open>
  The data of an extension is parsed as a message with one field at offset 0 and no presence bits;
  a field that is laid out otherwise, or a map that has unknown entries to keep, would write outside
  that data.
\<close>

definition ext_view :: "upb_Cell \<Rightarrow> upb_Message" where
  "ext_view c = Message [(0, c)] [] [] [] []"

definition upb_Decoder_DecodeKnownField ::
    "msg_decoder \<Rightarrow> upb_MiniTable list \<Rightarrow> upb_Decoder \<Rightarrow> int \<Rightarrow> upb_Message \<Rightarrow>
     upb_MiniTableField \<Rightarrow> upb_DecodeOp \<Rightarrow> wireval \<Rightarrow> upb_Message dec" where
  "upb_Decoder_DecodeKnownField rec tabs d ptr msg field op val =
     (if upb_MiniTableField_IsExtension field then
        bindE (upb_Message_GetOrCreateExtension d msg field) (\<lambda>(c, msg, d).
          if offset field \<noteq> 0 \<or> presence field \<noteq> 0 then Inl OutOfBounds
          else
            bindE (decode_to_field rec tabs d ptr (ext_view c) field op val) (\<lambda>(ptr, (view, unk), d).
              if upb_Message_HasUnknown view then Inl OutOfBounds
              else
                case cell_at view field of
                  None \<Rightarrow> Inl OutOfBounds
                | Some c \<Rightarrow> Inr (ptr, upb_Message_AddUnknown (put_ext msg field c) unk, d)))
      else
        bindE (decode_to_field rec tabs d ptr msg field op val) (\<lambda>(ptr, (msg, unk), d).
          Inr (ptr, upb_Message_AddUnknown msg unk, d)))"

end
