(* ===== verification/Message_Decoder.thy ===== *)
theory Message_Decoder
  imports Field_Decoder
begin

text \<open>
  Parsing whole messages: the rest of \<open>upb/wire/decode.c\<close> and \<open>upb/wire/decode.h\<close>. The recursion of
  \<open>_upb_Decoder_DecodeMessage\<close> is tied in \<open>decode_loop\<close>, whose fuel counts fields: every field takes at
  least one byte of the input, so one more than the bytes of the input is enough.

  The message is the one the parser leaves when it returns; after a jump to the error handler it is
  not modelled. The fast-table parser (\<open>UPB_FASTTABLE\<close>) is off, so
  \<open>_upb_Decoder_TryDecodeMessageFast\<close> is \<open>false\<close>.
\<close>

subsection \<open>Options\<close>

definition upb_DecodeOptions_MaxDepth :: "u16 \<Rightarrow> u32" where
  "upb_DecodeOptions_MaxDepth depth = push_bit 16 (ucast depth)"

definition upb_DecodeOptions_GetMaxDepth :: "u32 \<Rightarrow> u16" where
  "upb_DecodeOptions_GetMaxDepth options = ucast (drop_bit 16 options)"

definition upb_DecodeOptions_GetEffectiveMaxDepth :: "u32 \<Rightarrow> u16" where
  "upb_DecodeOptions_GetEffectiveMaxDepth options =
     (let max_depth = upb_DecodeOptions_GetMaxDepth options
      in if max_depth \<noteq> 0 then max_depth else 100)"

definition upb_Decode_LimitDepth :: "u32 \<Rightarrow> u32 \<Rightarrow> u32" where
  "upb_Decode_LimitDepth decode_options lim =
     (let max_depth = ucast (upb_DecodeOptions_GetEffectiveMaxDepth decode_options) :: u32;
          max_depth = if max_depth > lim then lim else max_depth
      in upb_DecodeOptions_MaxDepth (ucast max_depth) OR (decode_options AND 0xffff))"

subsection \<open>Init, the top level and the nested parse of a message set item\<close>

text \<open>
  The parser of a message set item is a second decoder on the same arena. Its input is a slice of
  the outer input at the slice's address; its own patch buffer is somewhere else, here right below
  the slice.
\<close>

definition upb_Decoder_Init ::
    "int \<Rightarrow> byte list \<Rightarrow> int \<Rightarrow> byte list \<Rightarrow> extension_registry option \<Rightarrow> u32 \<Rightarrow>
     (nat \<Rightarrow> bool) \<Rightarrow> (nat \<Rightarrow> bool) \<Rightarrow> int \<times> upb_Decoder" where
  "upb_Decoder_Init buf bs pa junk reg options mem enc_mem =
     (let (ptr, input) = upb_EpsCopyInputStream_InitWithErrorHandler buf bs pa junk True;
          options = (if options AND ucast kUpb_DecodeOption_AlwaysValidateUtf8 \<noteq> 0
                     then options OR kUpb_DecodeOption_DisableFastTable else options)
      in (ptr, \<lparr>d_input = input, extreg = reg,
           d_depth = uint (upb_DecodeOptions_GetEffectiveMaxDepth options),
           end_group = DECODE_NOGROUP, d_options = ucast options, missing_required = False,
           message_is_done = False, d_mem = mem, d_enc_mem = enc_mem\<rparr>))"

text \<open>\<open>None\<close> is \<open>kUpb_DecodeStatus_Ok\<close>.\<close>

definition upb_Decoder_DecodeTop ::
    "msg_decoder \<Rightarrow> upb_Decoder \<Rightarrow> int \<Rightarrow> upb_Message \<Rightarrow> upb_MiniTable \<Rightarrow>
     (status_code option \<times> upb_Message \<times> (nat \<Rightarrow> bool)) res" where
  "upb_Decoder_DecodeTop rec d buf msg m =
     bindE (rec d buf msg m) (\<lambda>(_, msg, d).
       Inr (if end_group d \<noteq> DECODE_NOGROUP then Some Malformed
            else if missing_required d then Some MissingRequired else None, msg, d_mem d))"

definition upb_Decode_with ::
    "msg_decoder \<Rightarrow> int \<Rightarrow> byte list \<Rightarrow> int \<Rightarrow> byte list \<Rightarrow> upb_Message \<Rightarrow> upb_MiniTable \<Rightarrow>
     extension_registry option \<Rightarrow> u32 \<Rightarrow> (nat \<Rightarrow> bool) \<Rightarrow> (nat \<Rightarrow> bool) \<Rightarrow>
     (status_code option \<times> upb_Message \<times> (nat \<Rightarrow> bool)) res" where
  "upb_Decode_with rec buf bs pa junk msg mt reg options mem enc_mem =
     (case upb_Decoder_Init buf bs pa junk reg options mem enc_mem of
        (ptr, d) \<Rightarrow> upb_Decoder_DecodeTop rec d ptr msg mt)"

subsection \<open>Message sets\<close>

definition kStartItemTag :: u32 where "kStartItemTag = push_bit 3 kUpb_MsgSet_Item OR kUpb_WireType_StartGroup"
definition kEndItemTag :: u32 where "kEndItemTag = push_bit 3 kUpb_MsgSet_Item OR kUpb_WireType_EndGroup"
definition kTypeIdTag :: u32 where "kTypeIdTag = push_bit 3 kUpb_MsgSet_TypeId OR kUpb_WireType_Varint"
definition kMessageTag :: u32 where "kMessageTag = push_bit 3 kUpb_MsgSet_Message OR kUpb_WireType_Delimited"

text \<open>The payload of an item: its bytes and their address in the input.\<close>

type_synonym payload = "int \<times> byte list"

definition upb_Decoder_AddKnownMessageSetItem ::
    "msg_decoder \<Rightarrow> upb_MiniTable list \<Rightarrow> upb_Decoder \<Rightarrow> upb_Message \<Rightarrow> upb_MiniTableField \<Rightarrow>
     payload \<Rightarrow> (upb_Message \<times> upb_Decoder) res" where
  "upb_Decoder_AddKnownMessageSetItem rec tabs d msg item_mt data =
     bindE (upb_Message_GetOrCreateExtension d msg item_mt) (\<lambda>(_, msg, d).
     bindE (upb_Decoder_NewSubMessage tabs d item_mt) (\<lambda>(sub, d).
       if d_depth d \<le> 1 then Inl (Thrown MaxDepthExceeded)
       else
         bindE (linked_table tabs item_mt) (\<lambda>subl.
         bindE (upb_Decode_with rec (fst data) (snd data) (fst data - 32) (replicate 32 0) sub subl
                  (extreg d)
                  (upb_Decode_LimitDepth (ucast (d_options d)) (word_of_int (d_depth d - 1)))
                  (d_mem d) (d_enc_mem d)) (\<lambda>(status, sub, mem).
           case status of
             Some c \<Rightarrow> Inl (Thrown c)
           | None \<Rightarrow> Inr (put_ext msg item_mt (CellMsg (Some sub)), d\<lparr>d_mem := mem\<rparr>)))))"

definition upb_Decoder_AddUnknownMessageSetItem ::
    "upb_Decoder \<Rightarrow> upb_Message \<Rightarrow> u32 \<Rightarrow> byte list \<Rightarrow> (upb_Message \<times> upb_Decoder) res" where
  "upb_Decoder_AddUnknownMessageSetItem d msg type_id message_data =
     (let before = upb_Decoder_EncodeVarint32 kStartItemTag @ upb_Decoder_EncodeVarint32 kTypeIdTag @
            upb_Decoder_EncodeVarint32 type_id @ upb_Decoder_EncodeVarint32 kMessageTag @
            upb_Decoder_EncodeVarint32 (of_nat (length message_data))
      in bindE (need_mem d) (\<lambda>d.
           Inr (upb_Message_AddUnknown msg
                  [before @ message_data @ upb_Decoder_EncodeVarint32 kEndItemTag], d)))"

definition upb_Decoder_AddMessageSetItem ::
    "msg_decoder \<Rightarrow> upb_MiniTable list \<Rightarrow> upb_Decoder \<Rightarrow> upb_Message \<Rightarrow> upb_MiniTable \<Rightarrow> u32 \<Rightarrow>
     payload \<Rightarrow> (upb_Message \<times> upb_Decoder) res" where
  "upb_Decoder_AddMessageSetItem rec tabs d msg t type_id data =
     (case extreg d of
        None \<Rightarrow> Inl OutOfBounds
      | Some reg \<Rightarrow>
          (case reg t type_id of
             Some item_mt \<Rightarrow> upb_Decoder_AddKnownMessageSetItem rec tabs d msg item_mt data
           | None \<Rightarrow> upb_Decoder_AddUnknownMessageSetItem d msg type_id (snd data)))"

definition upb_Decoder_SkipValue :: "upb_Decoder \<Rightarrow> int \<Rightarrow> u32 \<Rightarrow> unit dec" where
  "upb_Decoder_SkipValue d ptr tag =
     bindE (upb_WireReader_SkipValue (d_input d) ptr tag (d_depth d))
       (\<lambda>(p, e). eps_read d (Inr (p, (), e)))"

text \<open>
  The item's loop. The state mask is the pair of the type id and the payload seen so far; a second
  one of either is ignored.
\<close>

primrec msgset_item_loop ::
    "nat \<Rightarrow> msg_decoder \<Rightarrow> upb_MiniTable list \<Rightarrow> upb_MiniTable \<Rightarrow> upb_Decoder \<Rightarrow> int \<Rightarrow> upb_Message \<Rightarrow>
     u32 option \<Rightarrow> payload option \<Rightarrow> upb_Message dec" where
  "msgset_item_loop 0 rec tabs layout d ptr msg have_id have_payload = Inl OutOfFuel"
| "msgset_item_loop (Suc fuel) rec tabs layout d ptr msg have_id have_payload =
     bindE (eps_done d ptr) (\<lambda>(ptr, fin, d).
       if fin then Inl (Thrown Malformed)
       else
         bindE (eps_read d (upb_WireReader_ReadTag (d_input d) ptr)) (\<lambda>(ptr, tag, d).
           if tag = kEndItemTag then Inr (ptr, msg, d)
           else if tag = kTypeIdTag then
             bindE (eps_read d (upb_WireReader_ReadVarint (d_input d) ptr)) (\<lambda>(ptr, tmp, d).
               if have_id \<noteq> None
               then msgset_item_loop fuel rec tabs layout d ptr msg have_id have_payload
               else
                 bindE (case have_payload of
                          Some data \<Rightarrow>
                            upb_Decoder_AddMessageSetItem rec tabs d msg layout (ucast tmp) data
                        | None \<Rightarrow> Inr (msg, d)) (\<lambda>(msg, d).
                   msgset_item_loop fuel rec tabs layout d ptr msg (Some (ucast tmp)) have_payload))
           else if tag = kMessageTag then
             bindE (upb_Decoder_DecodeSize d ptr) (\<lambda>(ptr, sz, d).
             bindE (upb_EpsCopyInputStream_ReadStringAlwaysAlias (d_input d) ptr (unat sz)) (\<lambda>(p, sv, e).
               case (p, sv) of
                 (Some ptr, Some sv) \<Rightarrow>
                   let d = d\<lparr>d_input := e\<rparr>
                   in if have_payload \<noteq> None
                      then msgset_item_loop fuel rec tabs layout d ptr msg have_id have_payload
                      else
                        bindE (view_bytes e sv) (\<lambda>bs.
                        bindE (case have_id of
                                 Some type_id \<Rightarrow>
                                   upb_Decoder_AddMessageSetItem rec tabs d msg layout type_id
                                     (sv_data sv, bs)
                               | None \<Rightarrow> Inr (msg, d)) (\<lambda>(msg, d).
                          msgset_item_loop fuel rec tabs layout d ptr msg have_id
                            (Some (sv_data sv, bs))))
               | _ \<Rightarrow> Inl (Thrown Malformed)))
           else
             bindE (upb_Decoder_SkipValue d ptr tag) (\<lambda>(ptr, _, d).
               msgset_item_loop fuel rec tabs layout d ptr msg have_id have_payload)))"

definition upb_Decoder_DecodeMessageSetItem ::
    "msg_decoder \<Rightarrow> upb_MiniTable list \<Rightarrow> upb_Decoder \<Rightarrow> int \<Rightarrow> upb_Message \<Rightarrow> upb_MiniTable \<Rightarrow>
     upb_Message dec" where
  "upb_Decoder_DecodeMessageSetItem rec tabs d ptr msg layout =
     msgset_item_loop (skip_fuel (d_input d) ptr) rec tabs layout d ptr msg None None"

subsection \<open>Finding the field and the operation\<close>

definition upb_Decoder_FieldNotFoundField :: upb_MiniTableField where
  "upb_Decoder_FieldNotFoundField =
     \<lparr>number = 0, offset = 0, presence = 0, submsg = NoSub,
      descriptortype = kUpb_FakeFieldType_FieldNotFound, mode = 0\<rparr>"

definition message_set_item_field :: upb_MiniTableField where
  "message_set_item_field =
     \<lparr>number = 0, offset = 0, presence = 0, submsg = NoSub,
      descriptortype = kUpb_FakeFieldType_MessageSetItem, mode = 0\<rparr>"

definition upb_Decoder_FindExtensionField ::
    "extension_registry \<Rightarrow> upb_MiniTable \<Rightarrow> u32 \<Rightarrow> upb_ExtMode \<Rightarrow> u32 \<Rightarrow> upb_MiniTableField" where
  "upb_Decoder_FindExtensionField reg t field_number ext_mode wire_type =
     (if ext_mode = kUpb_ExtMode_Extendable \<or>
         (ext_mode = kUpb_ExtMode_IsMessageSet \<and> wire_type = kUpb_WireType_Delimited) then
        (case reg t field_number of Some f \<Rightarrow> f | None \<Rightarrow> upb_Decoder_FieldNotFoundField)
      else if ext_mode = kUpb_ExtMode_IsMessageSet \<and> field_number = kUpb_MsgSet_Item
      then message_set_item_field
      else upb_Decoder_FieldNotFoundField)"

definition upb_Decoder_FindField ::
    "upb_Decoder \<Rightarrow> upb_MiniTable \<Rightarrow> u32 \<Rightarrow> u32 \<Rightarrow> upb_MiniTableField res" where
  "upb_Decoder_FindField d t field_number wire_type =
     bindE (upb_MiniTable_FindFieldByNumber t field_number) (\<lambda>field.
       case field of
         Some i \<Rightarrow> Inr (mt_fields t ! i)
       | None \<Rightarrow>
           (case extreg d of
              Some reg \<Rightarrow>
                if ext t \<noteq> kUpb_ExtMode_NonExtendable
                then Inr (upb_Decoder_FindExtensionField reg t field_number (ext t) wire_type)
                else Inr upb_Decoder_FieldNotFoundField
            | None \<Rightarrow> Inr upb_Decoder_FieldNotFoundField))"

definition upb_Decoder_GetVarintOp :: "upb_MiniTableField \<Rightarrow> upb_DecodeOp" where
  "upb_Decoder_GetVarintOp field =
     (case descriptortype field of
        kUpb_FieldType_Int64 \<Rightarrow> kUpb_DecodeOp_Scalar8Byte
      | kUpb_FieldType_UInt64 \<Rightarrow> kUpb_DecodeOp_Scalar8Byte
      | kUpb_FieldType_Int32 \<Rightarrow> kUpb_DecodeOp_Scalar4Byte
      | kUpb_FieldType_Bool \<Rightarrow> kUpb_DecodeOp_Scalar1Byte
      | kUpb_FieldType_UInt32 \<Rightarrow> kUpb_DecodeOp_Scalar4Byte
      | kUpb_FieldType_Enum \<Rightarrow> kUpb_DecodeOp_Scalar4Byte
      | kUpb_FieldType_SInt32 \<Rightarrow> kUpb_DecodeOp_Scalar4Byte
      | kUpb_FieldType_SInt64 \<Rightarrow> kUpb_DecodeOp_Scalar8Byte
      | _ \<Rightarrow> kUpb_DecodeOp_UnknownField)"

text \<open>
  The debug check of a sub-message that is not linked: every member of its oneof has to be one too.
\<close>

fun check_oneof_unlinked :: "upb_MiniTable \<Rightarrow> nat list \<Rightarrow> unit res" where
  "check_oneof_unlinked mt [] = Inr ()"
| "check_oneof_unlinked mt (i # is) =
     bindE (assertE (upb_MiniTableField_IsSubMessage (mt_fields mt ! i))) (\<lambda>_.
     bindE (assertE (submsg (mt_fields mt ! i) = SubMsg None)) (\<lambda>_. check_oneof_unlinked mt is))"

definition upb_Decoder_CheckUnlinked ::
    "upb_MiniTable list \<Rightarrow> upb_MiniTable \<Rightarrow> upb_MiniTableField \<Rightarrow> upb_DecodeOp \<Rightarrow> upb_DecodeOp res" where
  "upb_Decoder_CheckUnlinked tabs mt field op =
     (if upb_MiniTableField_IsExtension field then Inr op
      else
        bindE (sub_table tabs field) (\<lambda>mt_sub.
          if mt_sub \<noteq> None then Inr op
          else
            bindE (case upb_MiniTable_GetOneof mt field of
                     Some i \<Rightarrow> check_oneof_unlinked mt (oneof_walk mt i)
                   | None \<Rightarrow> Inr ()) (\<lambda>_. Inr kUpb_DecodeOp_UnknownField)))"

definition upb_Decoder_MaybeVerifyUtf8 ::
    "upb_Decoder \<Rightarrow> upb_MiniTableField \<Rightarrow> upb_DecodeOp \<Rightarrow> upb_DecodeOp" where
  "upb_Decoder_MaybeVerifyUtf8 d field op =
     (if upb_Decoder_FieldRequiresUtf8Validation d field then kUpb_DecodeOp_String else op)"

text \<open>The table \<open>kDelimitedOps\<close>, its first half for a field that is not repeated.\<close>

definition kDelimitedOps :: "bool \<Rightarrow> upb_FieldType \<Rightarrow> upb_DecodeOp res" where
  "kDelimitedOps repeated t =
     (if \<not> repeated then
        (case t of
           kUpb_FieldType_String \<Rightarrow> Inr kUpb_DecodeOp_String
         | kUpb_FieldType_Message \<Rightarrow> Inr kUpb_DecodeOp_SubMessage
         | kUpb_FieldType_Bytes \<Rightarrow> Inr kUpb_DecodeOp_Bytes
         | kUpb_FakeFieldType_MessageSetItem \<Rightarrow> Inr kUpb_DecodeOp_SubMessage
         | _ \<Rightarrow> Inr kUpb_DecodeOp_UnknownField)
      else
        (case t of
           kUpb_FieldType_Double \<Rightarrow> Inr (OP_FIXPCK_LG2 3)
         | kUpb_FieldType_Float \<Rightarrow> Inr (OP_FIXPCK_LG2 2)
         | kUpb_FieldType_Int64 \<Rightarrow> Inr (OP_VARPCK_LG2 3)
         | kUpb_FieldType_UInt64 \<Rightarrow> Inr (OP_VARPCK_LG2 3)
         | kUpb_FieldType_Int32 \<Rightarrow> Inr (OP_VARPCK_LG2 2)
         | kUpb_FieldType_Fixed64 \<Rightarrow> Inr (OP_FIXPCK_LG2 3)
         | kUpb_FieldType_Fixed32 \<Rightarrow> Inr (OP_FIXPCK_LG2 2)
         | kUpb_FieldType_Bool \<Rightarrow> Inr (OP_VARPCK_LG2 0)
         | kUpb_FieldType_String \<Rightarrow> Inr kUpb_DecodeOp_String
         | kUpb_FieldType_Group \<Rightarrow> Inr kUpb_DecodeOp_SubMessage
         | kUpb_FieldType_Message \<Rightarrow> Inr kUpb_DecodeOp_SubMessage
         | kUpb_FieldType_Bytes \<Rightarrow> Inr kUpb_DecodeOp_Bytes
         | kUpb_FieldType_UInt32 \<Rightarrow> Inr (OP_VARPCK_LG2 2)
         | kUpb_FieldType_Enum \<Rightarrow> Inr kUpb_DecodeOp_PackedEnum
         | kUpb_FieldType_SFixed32 \<Rightarrow> Inr (OP_FIXPCK_LG2 2)
         | kUpb_FieldType_SFixed64 \<Rightarrow> Inr (OP_FIXPCK_LG2 3)
         | kUpb_FieldType_SInt32 \<Rightarrow> Inr (OP_VARPCK_LG2 2)
         | kUpb_FieldType_SInt64 \<Rightarrow> Inr (OP_VARPCK_LG2 3)
         | kUpb_FakeFieldType_FieldNotFound \<Rightarrow> Inr kUpb_DecodeOp_SubMessage
         | kUpb_FakeFieldType_MessageSetItem \<Rightarrow> Inl OutOfBounds))"

definition upb_Decoder_GetDelimitedOp ::
    "upb_MiniTable list \<Rightarrow> upb_Decoder \<Rightarrow> upb_MiniTable \<Rightarrow> upb_MiniTableField \<Rightarrow> upb_DecodeOp res" where
  "upb_Decoder_GetDelimitedOp tabs d mt field =
     bindE (kDelimitedOps (upb_MiniTableField_IsArray field) (descriptortype field)) (\<lambda>op.
       if op = kUpb_DecodeOp_SubMessage then upb_Decoder_CheckUnlinked tabs mt field op
       else if op = kUpb_DecodeOp_Bytes then Inr (upb_Decoder_MaybeVerifyUtf8 d field op)
       else Inr op)"

text \<open>\<open>DecodeWireValue\<close> returns the wire value and the operation.\<close>

definition upb_Decoder_DecodeWireValue ::
    "upb_MiniTable list \<Rightarrow> upb_Decoder \<Rightarrow> int \<Rightarrow> upb_MiniTable \<Rightarrow> upb_MiniTableField \<Rightarrow> u32 \<Rightarrow>
     (wireval \<times> upb_DecodeOp) dec" where
  "upb_Decoder_DecodeWireValue tabs d ptr mt field wire_type =
     (if wire_type = kUpb_WireType_Varint then
        bindE (eps_read d (upb_WireReader_ReadVarint (d_input d) ptr)) (\<lambda>(ptr, val, d).
          if upb_MiniTableField_IsClosedEnum field then
            bindE (upb_MiniTable_GetSubEnumTable field) (\<lambda>en.
            bindE (upb_MiniTableEnum_CheckValue en (ucast val)) (\<lambda>known.
              if \<not> known then Inr (ptr, (val, kUpb_DecodeOp_UnknownField), d)
              else Inr (ptr, (upb_Decoder_MungeInt32 val, upb_Decoder_GetVarintOp field), d)))
          else
            bindE (upb_Decoder_Munge field val) (\<lambda>val.
              Inr (ptr, (val, upb_Decoder_GetVarintOp field), d)))
      else if wire_type = kUpb_WireType_32Bit then
        bindE (eps_read d (upb_WireReader_ReadFixed32 (d_input d) ptr)) (\<lambda>(ptr, val, d).
          Inr (ptr, (ucast val,
            if descriptortype field \<in>
                 {kUpb_FieldType_Float, kUpb_FieldType_Fixed32, kUpb_FieldType_SFixed32}
            then kUpb_DecodeOp_Scalar4Byte else kUpb_DecodeOp_UnknownField), d))
      else if wire_type = kUpb_WireType_64Bit then
        bindE (eps_read d (upb_WireReader_ReadFixed64 (d_input d) ptr)) (\<lambda>(ptr, val, d).
          Inr (ptr, (val,
            if descriptortype field \<in>
                 {kUpb_FieldType_Double, kUpb_FieldType_Fixed64, kUpb_FieldType_SFixed64}
            then kUpb_DecodeOp_Scalar8Byte else kUpb_DecodeOp_UnknownField), d))
      else if wire_type = kUpb_WireType_Delimited then
        bindE (upb_Decoder_DecodeSize d ptr) (\<lambda>(ptr, sz, d).
        bindE (upb_Decoder_GetDelimitedOp tabs d mt field) (\<lambda>op. Inr (ptr, (ucast sz, op), d)))
      else if wire_type = kUpb_WireType_StartGroup then
        bindE (if descriptortype field = kUpb_FieldType_Group
               then upb_Decoder_CheckUnlinked tabs mt field kUpb_DecodeOp_SubMessage
               else if descriptortype field = kUpb_FakeFieldType_MessageSetItem
               then Inr kUpb_DecodeOp_MessageSetItem
               else Inr kUpb_DecodeOp_UnknownField) (\<lambda>op.
          Inr (ptr, (ucast (number field), op), d))
      else Inl (Thrown Malformed))"

subsection \<open>Unknown fields\<close>

text \<open>
  The captured bytes from the tag to the end of the value. With \<open>AliasString\<close> they are a view of
  the input and only a view is allocated; either way the call may need memory.
\<close>

definition upb_Decoder_DecodeUnknownField ::
    "upb_Decoder \<Rightarrow> int \<Rightarrow> upb_Message \<Rightarrow> u32 \<Rightarrow> u32 \<Rightarrow> wireval \<Rightarrow> int \<Rightarrow> upb_Message dec" where
  "upb_Decoder_DecodeUnknownField d ptr msg field_number wire_type val start =
     (if field_number = 0 then Inl (Thrown Malformed)
      else
        bindE (upb_EpsCopyInputStream_StartCapture (d_input d) start) (\<lambda>e.
          let d = d\<lparr>d_input := e\<rparr>
          in bindE (if wire_type = kUpb_WireType_Delimited then
                      bindE (upb_EpsCopyInputStream_ReadStringEphemeral e ptr (unat (ucast val :: u32)))
                        (\<lambda>(p, _, e). case p of
                           None \<Rightarrow> Inl (Thrown Malformed)
                         | Some ptr \<Rightarrow> Inr (ptr, (), d\<lparr>d_input := e\<rparr>))
                    else if wire_type = kUpb_WireType_StartGroup then
                      bindE (upb_WireReader_SkipGroup e ptr (push_bit 3 field_number) (d_depth d))
                        (\<lambda>(p, e). eps_read d (Inr (p, (), e)))
                    else Inr (ptr, (), d)) (\<lambda>(ptr, _, d).
             bindE (upb_EpsCopyInputStream_EndCapture (d_input d) ptr) (\<lambda>(sv, e). case sv of
                 None \<Rightarrow> Inl Unreachable
               | Some sv \<Rightarrow>
                   bindE (view_bytes e sv) (\<lambda>bs.
                   bindE (need_mem (d\<lparr>d_input := e\<rparr>)) (\<lambda>d.
                     Inr (ptr, upb_Message_AddUnknown msg [bs], d)))))))"

subsection \<open>Fields and messages\<close>

definition upb_Decoder_DecodeFieldTag :: "upb_Decoder \<Rightarrow> int \<Rightarrow> (u32 \<times> u32) dec" where
  "upb_Decoder_DecodeFieldTag d ptr =
     bindE (assertE (ptr < limit_ptr (d_input d))) (\<lambda>_.
     bindE (eps_read d (upb_WireReader_ReadTag (d_input d) ptr)) (\<lambda>(ptr, tag, d).
       Inr (ptr, (drop_bit 3 tag, tag AND 7), d)))"

definition upb_Decoder_DecodeFieldData ::
    "msg_decoder \<Rightarrow> upb_MiniTable list \<Rightarrow> upb_Decoder \<Rightarrow> int \<Rightarrow> upb_Message \<Rightarrow> upb_MiniTable \<Rightarrow>
     u32 \<Rightarrow> u32 \<Rightarrow> int \<Rightarrow> upb_Message dec" where
  "upb_Decoder_DecodeFieldData rec tabs d ptr msg mt field_number wire_type start =
     bindE (upb_Decoder_FindField d mt field_number wire_type) (\<lambda>field.
     bindE (upb_Decoder_DecodeWireValue tabs d ptr mt field wire_type) (\<lambda>(ptr, (val, op), d).
       case op of
         kUpb_DecodeOp_UnknownField \<Rightarrow>
           upb_Decoder_DecodeUnknownField d ptr msg field_number wire_type val start
       | kUpb_DecodeOp_MessageSetItem \<Rightarrow> upb_Decoder_DecodeMessageSetItem rec tabs d ptr msg mt
       | _ \<Rightarrow> upb_Decoder_DecodeKnownField rec tabs d ptr msg field op val))"

definition upb_Decoder_EndMessage :: "upb_Decoder \<Rightarrow> upb_Decoder" where
  "upb_Decoder_EndMessage d = d\<lparr>message_is_done := True\<rparr>"

definition upb_Decoder_DecodeFieldNoFast :: "msg_decoder \<Rightarrow> upb_MiniTable list \<Rightarrow> msg_decoder" where
  "upb_Decoder_DecodeFieldNoFast rec tabs d ptr msg mt =
     (let start = ptr
      in bindE (upb_Decoder_DecodeFieldTag d ptr) (\<lambda>(ptr, (field_number, wire_type), d).
           if wire_type = kUpb_WireType_EndGroup
           then Inr (ptr, msg, upb_Decoder_EndMessage (d\<lparr>end_group := field_number\<rparr>))
           else upb_Decoder_DecodeFieldData rec tabs d ptr msg mt field_number wire_type start))"

definition upb_Decoder_DecodeField :: "msg_decoder \<Rightarrow> upb_MiniTable list \<Rightarrow> msg_decoder" where
  "upb_Decoder_DecodeField rec tabs d ptr msg mt =
     bindE (eps_done d ptr) (\<lambda>(ptr, fin, d).
       if fin then Inr (ptr, msg, upb_Decoder_EndMessage d)
       else upb_Decoder_DecodeFieldNoFast rec tabs d ptr msg mt)"

text \<open>
  \<open>_upb_Decoder_DecodeMessage\<close> around its \<open>do \<dots> while\<close> loop, and the loop with the recursion tied.
\<close>

definition upb_Decoder_DecodeMessage :: "msg_decoder \<Rightarrow> msg_decoder" where
  "upb_Decoder_DecodeMessage loop d ptr msg mt =
     bindE (assertE (\<not> message_is_done d)) (\<lambda>_.
     bindE (loop d ptr msg mt) (\<lambda>(ptr, msg, d).
       let d = d\<lparr>message_is_done := False\<rparr>
       in if required_count mt \<noteq> 0
          then bindE (upb_Decoder_CheckRequired d msg mt) (\<lambda>d. Inr (ptr, msg, d))
          else Inr (ptr, msg, d)))"

primrec decode_loop :: "nat \<Rightarrow> upb_MiniTable list \<Rightarrow> msg_decoder" where
  "decode_loop 0 tabs = (\<lambda>d ptr msg mt. Inl OutOfFuel)"
| "decode_loop (Suc fuel) tabs = (\<lambda>d ptr msg mt.
     bindE (upb_Decoder_DecodeField (upb_Decoder_DecodeMessage (decode_loop fuel tabs)) tabs d ptr msg mt)
       (\<lambda>(ptr, msg, d).
         if message_is_done d then Inr (ptr, msg, d) else decode_loop fuel tabs d ptr msg mt))"

subsection \<open>Entry points\<close>

datatype decode_result =
    Decoded "status_code option" upb_Message
  | DecodeError status_code
  | DecodeFault fault

definition upb_Decode ::
    "upb_MiniTable list \<Rightarrow> (nat \<Rightarrow> bool) \<Rightarrow> (nat \<Rightarrow> bool) \<Rightarrow> int \<Rightarrow> byte list \<Rightarrow> int \<Rightarrow> byte list \<Rightarrow>
     upb_Message \<Rightarrow> upb_MiniTable \<Rightarrow> extension_registry option \<Rightarrow> u32 \<Rightarrow> decode_result" where
  "upb_Decode tabs mem enc_mem buf bs pa junk msg mt reg options =
     (case upb_Decode_with (upb_Decoder_DecodeMessage (decode_loop (Suc (length bs)) tabs))
             buf bs pa junk msg mt reg options mem enc_mem of
        Inr (status, msg, _) \<Rightarrow> Decoded status msg
      | Inl (Thrown c) \<Rightarrow> DecodeError c
      | Inl f \<Rightarrow> DecodeFault f)"

text \<open>
  The hand-written varint in front of a length-prefixed message; \<open>None\<close> is the \<open>Malformed\<close> return of
  the loop, otherwise the length and \<open>*num_bytes_read\<close>, which may wrap around.
\<close>

function prefix_loop :: "byte list \<Rightarrow> nat \<Rightarrow> u64 \<Rightarrow> (nat \<times> u64 \<times> u64) option" where
  "prefix_loop bs i msg_len =
     (if i \<ge> length bs \<or> i > 9 then None
      else
        let b = scast (bs ! i) :: u64;
            msg_len' = msg_len + push_bit (i * 7) (b AND 0x7f)
        in if b AND 0x80 = 0 then Some (i + 1, msg_len', of_nat (i + 1) + msg_len')
           else prefix_loop bs (i + 1) msg_len')"
  by pat_completeness auto
termination by (relation "measure (\<lambda>(bs, i, _). length bs - i)") auto

declare prefix_loop.simps [simp del]

definition upb_DecodeLengthPrefixed ::
    "upb_MiniTable list \<Rightarrow> (nat \<Rightarrow> bool) \<Rightarrow> (nat \<Rightarrow> bool) \<Rightarrow> int \<Rightarrow> byte list \<Rightarrow> int \<Rightarrow> byte list \<Rightarrow>
     upb_Message \<Rightarrow> upb_MiniTable \<Rightarrow> extension_registry option \<Rightarrow> u32 \<Rightarrow> decode_result" where
  "upb_DecodeLengthPrefixed tabs mem enc_mem buf bs pa junk msg mt reg options =
     (case prefix_loop bs 0 0 of
        None \<Rightarrow> DecodeError Malformed
      | Some (i, msg_len, num_bytes_read) \<Rightarrow>
          if num_bytes_read > of_nat (length bs) then DecodeError Malformed
          else if msg_len > 0x7FFFFFFF then DecodeError Malformed
          else if i + unat msg_len > length bs then DecodeFault OutOfBounds
          else upb_Decode tabs mem enc_mem (buf + int i) (take (unat msg_len) (drop i bs)) pa junk
                 msg mt reg options)"

definition upb_DecodeStatus_String :: "status_code option \<Rightarrow> string" where
  "upb_DecodeStatus_String status =
     (case status of
        None \<Rightarrow> ''Ok''
      | Some Malformed \<Rightarrow> ''Wire format was corrupt''
      | Some OutOfMemory \<Rightarrow> ''Arena alloc failed''
      | Some BadUtf8 \<Rightarrow> ''String field had bad UTF-8''
      | Some MaxDepthExceeded \<Rightarrow> ''Exceeded upb_DecodeOptions_MaxDepth''
      | Some MissingRequired \<Rightarrow> ''Missing required field''
      | _ \<Rightarrow> ''Unknown decode status'')"

end
