(* ===== verification/Decoder_Post.thy ===== *)
theory Decoder_Post
  imports Message_Decoder
begin

text \<open>
  Postconditions of the parser's stream operations. \<open>post Q r\<close> says that \<open>r\<close> is a jump to the error
  handler or a return that satisfies \<open>Q\<close>: nothing undefined, no failed assertion, fuel left over.
  \<open>dec_at\<close> is the state of a decoder between two operations, \<open>moved\<close> relates two such states: the
  pointer did not go back, and all that a parse of one field keeps is kept.
\<close>

subsection \<open>Postconditions\<close>

definition post :: "('a \<Rightarrow> bool) \<Rightarrow> 'a res \<Rightarrow> bool" where
  "post Q r \<longleftrightarrow> (case r of Inr x \<Rightarrow> Q x | Inl f \<Rightarrow> (\<exists>c. f = Thrown c))"

lemma post_simps [simp]:
  "post Q (Inr x) = Q x" "post Q (Inl (Thrown c))"
  "\<not> post Q (Inl OutOfBounds)" "\<not> post Q (Inl AssertFailed)" "\<not> post Q (Inl Unreachable)"
  "\<not> post Q (Inl OutOfFuel)"
  by (simp_all add: post_def)

lemma post_bindE: "post P m \<Longrightarrow> (\<And>x. P x \<Longrightarrow> post Q (f x)) \<Longrightarrow> post Q (bindE m f)"
  by (cases m) (auto simp: post_def)

lemma post_mono: "post P r \<Longrightarrow> (\<And>x. P x \<Longrightarrow> Q x) \<Longrightarrow> post Q r"
  by (cases r) (auto simp: post_def)

lemma post_assertE [simp]: "post Q (assertE b) \<longleftrightarrow> b \<and> Q ()"
  by (simp add: assertE_def)

lemma post_safe: "post Q r \<Longrightarrow> safe r"
  by (cases r) (auto simp: post_def)

subsection \<open>Decoder states\<close>

definition dec_at :: "upb_Decoder \<Rightarrow> int \<Rightarrow> bool" where
  "dec_at d ptr \<longleftrightarrow> eps_inv (d_input d) \<and> ptr_ok (d_input d) ptr \<and> err (d_input d) \<and>
     capture_start (d_input d) = None"

definition dec_frame :: "upb_Decoder \<Rightarrow> upb_Decoder \<Rightarrow> bool" where
  "dec_frame d d' \<longleftrightarrow>
     stream_lim (d_input d') = stream_lim (d_input d) \<and> eps_frame (d_input d) (d_input d') \<and>
     extreg d' = extreg d \<and> d_depth d' = d_depth d \<and> end_group d' = end_group d \<and>
     d_options d' = d_options d \<and> message_is_done d' = message_is_done d"

abbreviation dpos :: "upb_Decoder \<Rightarrow> int \<Rightarrow> int" where
  "dpos d ptr \<equiv> stream_pos (d_input d) ptr"

definition moved :: "upb_Decoder \<Rightarrow> int \<Rightarrow> upb_Decoder \<Rightarrow> int \<Rightarrow> bool" where
  "moved d ptr d' ptr' \<longleftrightarrow> dec_at d' ptr' \<and> dec_frame d d' \<and> dpos d ptr \<le> dpos d' ptr'"

lemma dec_frame_refl [simp]: "dec_frame d d"
  by (simp add: dec_frame_def)

lemma dec_frame_trans: "dec_frame a b \<Longrightarrow> dec_frame b c \<Longrightarrow> dec_frame a c"
  using eps_frame_trans by (auto simp: dec_frame_def)

lemma moved_trans: "moved a p b q \<Longrightarrow> moved b q c r \<Longrightarrow> moved a p c r"
  using dec_frame_trans by (auto simp: moved_def)

lemma moved_refl: "dec_at d ptr \<Longrightarrow> moved d ptr d ptr"
  by (simp add: moved_def)

lemma moved_at: "moved d ptr d' ptr' \<Longrightarrow> dec_at d' ptr'"
  by (simp add: moved_def)

lemma moved_input:
  "moved d ptr d' ptr' \<Longrightarrow> input_bytes (d_input d') = input_bytes (d_input d) \<and>
   input_size (d_input d') = input_size (d_input d) \<and>
   stream_lim (d_input d') = stream_lim (d_input d)"
  by (auto simp: moved_def dec_frame_def eps_frame_def input_size_def)

text \<open>Fields of the decoder that do not touch the stream.\<close>

lemma dec_at_update [simp]:
  "dec_at (d\<lparr>d_mem := m\<rparr>) p = dec_at d p" "dec_at (d\<lparr>d_depth := n\<rparr>) p = dec_at d p"
  "dec_at (d\<lparr>end_group := g\<rparr>) p = dec_at d p" "dec_at (d\<lparr>message_is_done := b\<rparr>) p = dec_at d p"
  "dec_at (d\<lparr>missing_required := b\<rparr>) p = dec_at d p"
  by (simp_all add: dec_at_def)

lemma moved_mem [simp]:
  "moved (d\<lparr>d_mem := m\<rparr>) p d' q = moved d p d' q" "moved d p (d'\<lparr>d_mem := m\<rparr>) q = moved d p d' q"
  by (simp_all add: moved_def dec_frame_def)

lemma moved_missing [simp]: "moved d p (d'\<lparr>missing_required := b\<rparr>) q = moved d p d' q"
  by (simp add: moved_def dec_frame_def)

lemma next_mem_simps [simp]:
  "d_input (next_mem d) = d_input d" "extreg (next_mem d) = extreg d" "d_depth (next_mem d) = d_depth d"
  "d_options (next_mem d) = d_options d" "end_group (next_mem d) = end_group d"
  "message_is_done (next_mem d) = message_is_done d" "d_enc_mem (next_mem d) = d_enc_mem d"
  by (simp_all add: next_mem_def)

lemma moved_next_mem [simp]:
  "moved (next_mem d) p d' q = moved d p d' q" "moved d p (next_mem d') q = moved d p d' q"
  "dec_at (next_mem d) p = dec_at d p"
  by (simp_all add: next_mem_def)

lemma need_mem_post: "post (\<lambda>d'. d' = next_mem d) (need_mem d)"
  by (simp add: need_mem_def)

subsection \<open>Stream operations\<close>

text \<open>After \<open>IsDone\<close> returns false the pointer is before the end and sixteen bytes may be read.\<close>

definition ready :: "upb_Decoder \<Rightarrow> int \<Rightarrow> int \<Rightarrow> bool" where
  "ready d ptr n \<longleftrightarrow> dec_at d ptr \<and> n \<le> guaranteed_bytes (d_input d) \<and> ptr + n \<le> eps_end (d_input d) + 16"

lemma eps_done_post:
  assumes "dec_at d ptr"
  shows "post (\<lambda>(ptr', fin, d'). moved d ptr d' ptr' \<and> dpos d' ptr' = dpos d ptr \<and>
    (fin \<longrightarrow> dpos d ptr = stream_lim (d_input d)) \<and>
    (\<not> fin \<longrightarrow> dpos d ptr < stream_lim (d_input d) \<and> ready d' ptr' 16 \<and> ptr' < limit_ptr (d_input d') \<and>
       ptr' < eps_end (d_input d'))) (eps_done d ptr)"
proof -
  have a: "eps_inv (d_input d)" "ptr_ok (d_input d) ptr" "err (d_input d)" "capture_start (d_input d) = None"
    using assms by (auto simp: dec_at_def)
  consider "dpos d ptr = stream_lim (d_input d)" | "dpos d ptr > stream_lim (d_input d)"
    | "dpos d ptr < stream_lim (d_input d)" by linarith
  then show ?thesis
  proof cases
    case 1
    then show ?thesis
      using eps_IsDone_at_limit[OF a(1,2) 1] a
      by (simp add: eps_done_def eps_read_def moved_def dec_at_def dec_frame_def)
  next
    case 2
    then show ?thesis using eps_IsDone_past_limit[OF a(1,2) 2] a by (simp add: eps_done_def)
  next
    case 3
    then obtain q e' where r: "upb_EpsCopyInputStream_IsDone (d_input d) ptr = Inr (False, Some q, e')"
      "eps_inv e'" "ptr_ok e' q" "q < eps_end e'" "stream_pos e' q = dpos d ptr"
      "stream_lim e' = stream_lim (d_input d)" "eps_frame (d_input d) e'" "guaranteed_bytes e' = 16"
      using eps_IsDone_before_limit[OF a(1,2)] by blast
    have "q < limit_ptr e'"
      using r(2,4,5,6) 3 by (auto simp: eps_inv_def stream_pos_def stream_lim_def)
    then show ?thesis
      using r a 3
      by (auto simp: eps_done_def eps_read_def moved_def dec_at_def dec_frame_def ready_def eps_frame_def)
  qed
qed

lemma moved_consumed:
  assumes "dec_at d ptr" "0 \<le> k" "ptr + k \<le> eps_end (d_input d) + 16"
  shows "moved d ptr (d\<lparr>d_input := consumed n (d_input d)\<rparr>) (ptr + k)"
  using assms ptr_ok_add[of "d_input d" ptr k]
  by (auto simp: moved_def dec_at_def dec_frame_def stream_pos_add) (simp_all add: consumed_def)

lemma ready_consumed:
  assumes "ready d ptr m" "0 \<le> k" "k \<le> n" "n \<le> m"
  shows "ready (d\<lparr>d_input := consumed n (d_input d)\<rparr>) (ptr + k) (m - n)"
  using assms moved_consumed[of d ptr k n]
  by (auto simp: ready_def moved_def)

lemma ReadTag_post:
  assumes "ready d ptr m" "5 \<le> m"
  shows "post (\<lambda>(ptr', tag, d'). moved d ptr d' ptr' \<and> ready d' ptr' (m - 5) \<and> dpos d ptr < dpos d' ptr' \<and>
      (\<forall>p. dpos d' p = dpos d p))
    (eps_read d (upb_WireReader_ReadTag (d_input d) ptr))"
proof -
  have "eps_inv (d_input d)" "ptr_ok (d_input d) ptr" "ptr + 5 \<le> eps_end (d_input d) + 16"
    "5 \<le> guaranteed_bytes (d_input d)" "err (d_input d)"
    using assms by (auto simp: ready_def dec_at_def)
  then show ?thesis
  proof (cases rule: ReadTag_cases)
    case (tag v k)
    then show ?thesis
      using assms moved_consumed[of d ptr "int k" 5] ready_consumed[OF assms(1), of "int k" 5]
      by (auto simp: eps_read_def ready_def stream_pos_add)
  qed (auto simp: eps_read_def)
qed

lemma ReadVarint_post:
  assumes "ready d ptr m" "10 \<le> m"
  shows "post (\<lambda>(ptr', val, d'). moved d ptr d' ptr' \<and> ready d' ptr' (m - 10) \<and> dpos d ptr < dpos d' ptr' \<and>
      (\<forall>p. dpos d' p = dpos d p))
    (eps_read d (upb_WireReader_ReadVarint (d_input d) ptr))"
proof -
  have "eps_inv (d_input d)" "ptr_ok (d_input d) ptr" "ptr + 10 \<le> eps_end (d_input d) + 16"
    "10 \<le> guaranteed_bytes (d_input d)" "err (d_input d)"
    using assms by (auto simp: ready_def dec_at_def)
  then show ?thesis
  proof (cases rule: ReadVarint_cases)
    case (val v k)
    then show ?thesis
      using assms moved_consumed[of d ptr "int k" 10] ready_consumed[OF assms(1), of "int k" 10]
      by (auto simp: eps_read_def ready_def stream_pos_add)
  qed (auto simp: eps_read_def)
qed

lemma DecodeSize_post:
  assumes "ready d ptr m" "5 \<le> m"
  shows "post (\<lambda>(ptr', sz, d'). moved d ptr d' ptr' \<and> ready d' ptr' (m - 5) \<and> dpos d ptr < dpos d' ptr' \<and>
      (\<forall>p. dpos d' p = dpos d p))
    (upb_Decoder_DecodeSize d ptr)"
proof -
  have "eps_inv (d_input d)" "ptr_ok (d_input d) ptr" "ptr + 5 \<le> eps_end (d_input d) + 16"
    "5 \<le> guaranteed_bytes (d_input d)" "err (d_input d)"
    using assms by (auto simp: ready_def dec_at_def)
  then show ?thesis
  proof (cases rule: ReadSize_cases)
    case (sized n k)
    then show ?thesis
      using assms moved_consumed[of d ptr "int k" 5] ready_consumed[OF assms(1), of "int k" 5]
      by (auto simp: upb_Decoder_DecodeSize_def eps_read_def ready_def stream_pos_add)
  qed (auto simp: upb_Decoder_DecodeSize_def eps_read_def)
qed

lemma ReadFixed_post:
  assumes "ready d ptr m"
  shows "4 \<le> m \<Longrightarrow> post (\<lambda>(ptr', val, d'). moved d ptr d' ptr' \<and> (\<forall>p. dpos d' p = dpos d p))
      (eps_read d (upb_WireReader_ReadFixed32 (d_input d) ptr))"
    and "8 \<le> m \<Longrightarrow> post (\<lambda>(ptr', val, d'). moved d ptr d' ptr' \<and> (\<forall>p. dpos d' p = dpos d p))
      (eps_read d (upb_WireReader_ReadFixed64 (d_input d) ptr))"
proof -
  have a: "eps_inv (d_input d)" "ptr_ok (d_input d) ptr" "ptr + m \<le> eps_end (d_input d) + 16"
    "m \<le> guaranteed_bytes (d_input d)" "dec_at d ptr"
    using assms by (auto simp: ready_def dec_at_def)
  have l: "eps_load_bytes (consumed n (d_input d)) ptr k = eps_load_bytes (d_input d) ptr k" for n k
    by (induction k arbitrary: ptr) simp_all
  show "post (\<lambda>(ptr', val, d'). moved d ptr d' ptr' \<and> (\<forall>p. dpos d' p = dpos d p)) (eps_read d (upb_WireReader_ReadFixed32 (d_input d) ptr))"
    if "4 \<le> m"
    using a that moved_consumed[OF a(5), of 4 4] eps_load_bytes_ok[OF a(1,2), of 4]
    by (simp add: upb_WireReader_ReadFixed32_def ConsumeBytes_ok eps_read_def l)
  show "post (\<lambda>(ptr', val, d'). moved d ptr d' ptr' \<and> (\<forall>p. dpos d' p = dpos d p)) (eps_read d (upb_WireReader_ReadFixed64 (d_input d) ptr))"
    if "8 \<le> m"
    using a that moved_consumed[OF a(5), of 8 8] eps_load_bytes_ok[OF a(1,2), of 8]
    by (simp add: upb_WireReader_ReadFixed64_def ConsumeBytes_ok eps_read_def l)
qed

text \<open>The same as rules for a continuation, so that a proof follows the code from call to call.\<close>

lemma done_then:
  assumes "dec_at d ptr"
    and "\<And>p d'. moved d ptr d' p \<Longrightarrow> dpos d' p = dpos d ptr \<Longrightarrow> dpos d ptr = stream_lim (d_input d) \<Longrightarrow>
      post Q (f p True d')"
    and "\<And>p d'. moved d ptr d' p \<Longrightarrow> dpos d' p = dpos d ptr \<Longrightarrow> dpos d ptr < stream_lim (d_input d) \<Longrightarrow>
      ready d' p 16 \<Longrightarrow> p < limit_ptr (d_input d') \<Longrightarrow> post Q (f p False d')"
  shows "post Q (bindE (eps_done d ptr) (\<lambda>(p, fin, d'). f p fin d'))"
proof (rule post_bindE[OF eps_done_post[OF assms(1)]], clarify)
  fix p fin d'
  assume "moved d ptr d' p" "dpos d' p = dpos d ptr" "fin \<longrightarrow> dpos d ptr = stream_lim (d_input d)"
    "\<not> fin \<longrightarrow> dpos d ptr < stream_lim (d_input d) \<and> ready d' p 16 \<and> p < limit_ptr (d_input d') \<and>
       p < eps_end (d_input d')"
  then show "post Q (f p fin d')" using assms(2,3) by (cases fin) auto
qed

lemma tag_then:
  assumes "ready d ptr m" "5 \<le> m"
    and "\<And>p v d'. moved d ptr d' p \<Longrightarrow> ready d' p (m - 5) \<Longrightarrow> dpos d ptr < dpos d' p \<Longrightarrow> post Q (f p v d')"
  shows "post Q (bindE (eps_read d (upb_WireReader_ReadTag (d_input d) ptr)) (\<lambda>(p, v, d'). f p v d'))"
  using assms(3) by (intro post_bindE[OF ReadTag_post[OF assms(1,2)]]) auto

lemma varint_then:
  assumes "ready d ptr m" "10 \<le> m"
    and "\<And>p v d'. moved d ptr d' p \<Longrightarrow> dpos d ptr < dpos d' p \<Longrightarrow> post Q (f p v d')"
  shows "post Q (bindE (eps_read d (upb_WireReader_ReadVarint (d_input d) ptr)) (\<lambda>(p, v, d'). f p v d'))"
  using assms(3) by (intro post_bindE[OF ReadVarint_post[OF assms(1,2)]]) auto

lemma size_then:
  assumes "ready d ptr m" "5 \<le> m"
    and "\<And>p v d'. moved d ptr d' p \<Longrightarrow> dpos d ptr < dpos d' p \<Longrightarrow> post Q (f p v d')"
  shows "post Q (bindE (upb_Decoder_DecodeSize d ptr) (\<lambda>(p, v, d'). f p v d'))"
  using assms(3) by (intro post_bindE[OF DecodeSize_post[OF assms(1,2)]]) auto

lemma mem_then: "post Q (f (next_mem d)) \<Longrightarrow> post Q (bindE (need_mem d) f)"
  by (rule post_bindE[OF need_mem_post]) simp

lemma Reserve_then: "post Q (f (next_mem d)) \<Longrightarrow> post Q (bindE (upb_Decoder_Reserve d) f)"
  unfolding upb_Decoder_Reserve_def by (rule mem_then)

lemma Inr_then: "m = Inr x \<Longrightarrow> post Q (f x) \<Longrightarrow> post Q (bindE m f)"
  by simp

subsection \<open>Views of the input\<close>

lemma eps_load_input:
  assumes "eps_inv e" "0 \<le> p" "p < input_size e"
  shows "eps_load e (buffer_start e + p) = Inr (input_bytes e ! nat p)"
  using assms by (auto simp: eps_load_def eps_inv_def regions_ok_def input_size_def)

lemma eps_load_bytes_input:
  assumes "eps_inv e" "0 \<le> p" "p + int n \<le> input_size e"
  shows "eps_load_bytes e (buffer_start e + p) n = Inr (take n (drop (nat p) (input_bytes e)))"
  using assms(2,3)
proof (induction n arbitrary: p)
  case (Suc n)
  have "eps_load_bytes e (buffer_start e + (p + 1)) n = Inr (take n (drop (nat (p + 1)) (input_bytes e)))"
    using Suc.prems by (intro Suc.IH) auto
  moreover have "nat (p + 1) = Suc (nat p)" using Suc.prems by simp
  moreover have "nat p < length (input_bytes e)" using Suc.prems by (simp add: input_size_def)
  ultimately show ?case
    using Suc.prems by (simp add: eps_load_input[OF assms(1)] add.assoc take_Suc_conv_app_nth[symmetric]
        Cons_nth_drop_Suc[symmetric])
qed simp

lemma ptr_ok_pos: "eps_inv e \<Longrightarrow> ptr_ok e ptr \<Longrightarrow> 0 \<le> stream_pos e ptr"
  by (auto simp: eps_inv_def ptr_ok_def stream_pos_def split: if_splits)

text \<open>
  A view that \<open>ReadStringAlwaysAlias\<close> returns lies within the input, though it may run past the
  current limit: that is found when the next \<open>IsDone\<close> sees the pointer past it.
\<close>

definition in_input :: "upb_Decoder \<Rightarrow> int \<Rightarrow> upb_StringView \<Rightarrow> bool" where
  "in_input d ptr sv \<longleftrightarrow>
     sv_data sv = buffer_start (d_input d) + dpos d ptr \<and>
     dpos d ptr + int (sv_size sv) \<le> input_size (d_input d)"

definition slice :: "upb_Decoder \<Rightarrow> int \<Rightarrow> nat \<Rightarrow> byte list" where
  "slice d ptr n = take n (drop (nat (dpos d ptr)) (input_bytes (d_input d)))"

lemma AlwaysAlias_cases:
  assumes "dec_at d ptr"
  obtains (throw) "upb_EpsCopyInputStream_ReadStringAlwaysAlias (d_input d) ptr sz = Inl (Thrown Malformed)"
  | (view) sv where "upb_EpsCopyInputStream_ReadStringAlwaysAlias (d_input d) ptr sz =
        Inr (Some (ptr + int sz), Some sv, d_input d)"
      "moved d ptr d (ptr + int sz)" "in_input d ptr sv" "sv_size sv = sz"
      "view_bytes (d_input d) sv = Inr (slice d ptr sz)"
proof -
  let ?e = "d_input d"
  have a: "eps_inv ?e" "ptr_ok ?e ptr" "err ?e" using assms by (auto simp: dec_at_def)
  have lim: "eps_end ?e + (if input_delta ?e = 0 then 16 else 0) - ptr = input_size ?e - dpos d ptr"
    using a(1) by (auto simp: eps_inv_def stream_pos_def split: if_splits)
  show ?thesis
  proof (cases "int sz > input_size ?e - dpos d ptr")
    case True
    then show ?thesis
      using a(3) by (intro throw)
        (simp add: upb_EpsCopyInputStream_ReadStringAlwaysAlias_def lim upb_EpsCopyInputStream_ReturnError_def)
  next
    case False
    let ?sv = "\<lparr>sv_data = upb_EpsCopyInputStream_GetInputPtr ?e ptr, sv_size = sz\<rparr>"
    have "ptr + int sz \<le> eps_end ?e + 16"
      using False lim by (auto split: if_splits)
    then have "moved d ptr d (ptr + int sz)"
      using assms ptr_ok_add[OF a(2), of "int sz"] by (auto simp: moved_def dec_at_def stream_pos_add)
    moreover have io: "in_input d ptr ?sv"
      using False by (simp add: in_input_def upb_EpsCopyInputStream_GetInputPtr_def stream_pos_def Let_def)
    moreover have "view_bytes ?e ?sv = Inr (slice d ptr sz)"
      using io eps_load_bytes_input[OF a(1) ptr_ok_pos[OF a(1,2)], of sz]
      by (simp add: view_bytes_def in_input_def slice_def)
    ultimately show ?thesis
      using False by (intro view[of ?sv])
        (simp_all add: upb_EpsCopyInputStream_ReadStringAlwaysAlias_def lim)
  qed
qed

lemma Ephemeral_cases:
  assumes "dec_at d ptr"
  obtains (throw) "upb_EpsCopyInputStream_ReadStringEphemeral (d_input d) ptr sz = Inl (Thrown Malformed)"
  | (view) sv bs where "upb_EpsCopyInputStream_ReadStringEphemeral (d_input d) ptr sz =
        Inr (Some (ptr + int sz), Some sv, d_input d)"
      "moved d ptr d (ptr + int sz)" "view_bytes (d_input d) sv = Inr bs" "length bs = sz"
proof -
  let ?e = "d_input d"
  have a: "eps_inv ?e" "ptr_ok ?e ptr" "err ?e" using assms by (auto simp: dec_at_def)
  show ?thesis
  proof (cases "int sz > eps_end ?e + 16 - ptr")
    case True
    then show ?thesis
      using a(3) by (intro throw)
        (simp add: upb_EpsCopyInputStream_ReadStringEphemeral_def upb_EpsCopyInputStream_ReturnError_def)
  next
    case False
    let ?sv = "\<lparr>sv_data = ptr, sv_size = sz\<rparr>"
    have "moved d ptr d (ptr + int sz)"
      using assms False ptr_ok_add[OF a(2), of "int sz"] by (auto simp: moved_def dec_at_def stream_pos_add)
    moreover have "\<exists>bs. view_bytes ?e ?sv = Inr bs \<and> length bs = sz"
      using False eps_load_bytes_ok[OF a(1,2), of sz] by (simp add: view_bytes_def)
    ultimately show ?thesis
      using False view[of ?sv] by (auto simp: upb_EpsCopyInputStream_ReadStringEphemeral_def)
  qed
qed

lemma ReadString2_post:
  assumes "dec_at d ptr"
  shows "post (\<lambda>(ptr', bs, d'). moved d ptr d' ptr' \<and> bs = slice d ptr (unat sz) \<and>
      (utf8 \<longrightarrow> utf8_range_IsValid bs))
    (upb_Decoder_ReadString2 d ptr sz utf8)"
  using assms
proof (cases rule: AlwaysAlias_cases[where sz = "unat sz"])
  case (view sv)
  then show ?thesis
    by (auto simp: upb_Decoder_ReadString2_def upb_Decoder_ReadString_def Let_def)
qed (simp add: upb_Decoder_ReadString2_def upb_Decoder_ReadString_def)

subsection \<open>Limits\<close>

lemma PushLimit_post:
  assumes "dec_at d ptr"
  shows "post (\<lambda>(delta, e). dec_at (d\<lparr>d_input := e\<rparr>) ptr \<and> 0 \<le> delta \<and>
      delta = stream_lim (d_input d) - stream_lim e \<and> stream_lim e = dpos d ptr + int n \<and>
      eps_frame (d_input d) e \<and> stream_pos e ptr = dpos d ptr)
    (upb_EpsCopyInputStream_PushLimit (d_input d) ptr n)"
proof -
  have a: "eps_inv (d_input d)" "ptr_ok (d_input d) ptr" "err (d_input d)" "capture_start (d_input d) = None"
    using assms by (auto simp: dec_at_def)
  show ?thesis
  proof (cases "dpos d ptr + int n \<le> stream_lim (d_input d)")
    case True
    from eps_PushLimit_ok[OF a(1) this] obtain e' where
      e: "upb_EpsCopyInputStream_PushLimit (d_input d) ptr n =
        Inr (stream_lim (d_input d) - (dpos d ptr + int n), e')"
      "eps_inv e'" "stream_lim e' = dpos d ptr + int n" "eps_frame (d_input d) e'"
      "eps_end e' = eps_end (d_input d)" "input_delta e' = input_delta (d_input d)" by blast
    then show ?thesis
      using a True by (auto simp: dec_at_def ptr_ok_def eps_frame_def stream_pos_def)
  next
    case False
    then show ?thesis using eps_PushLimit_too_big[OF a(1), of ptr n] a by simp
  qed
qed

text \<open>
  A parse within a pushed limit that ends at that limit is followed by \<open>PopLimit\<close>, which restores the
  outer limit.
\<close>

lemma PopLimit_post:
  assumes "dec_at d' ptr'" "dpos d' ptr' = stream_lim (d_input d')"
    and "0 \<le> delta" "stream_lim (d_input d') + delta \<le> input_size (d_input d')"
  shows "post (\<lambda>e. dec_at (d'\<lparr>d_input := e\<rparr>) ptr' \<and> stream_lim e = stream_lim (d_input d') + delta \<and>
      eps_frame (d_input d') e \<and> stream_pos e ptr' = dpos d' ptr')
    (upb_EpsCopyInputStream_PopLimit (d_input d') ptr' delta)"
proof -
  have a: "eps_inv (d_input d')" "ptr_ok (d_input d') ptr'" "err (d_input d')"
    "capture_start (d_input d') = None"
    using assms by (auto simp: dec_at_def)
  from eps_PopLimit_ok[OF a(1) assms(2-4)] obtain e' where
    "upb_EpsCopyInputStream_PopLimit (d_input d') ptr' delta = Inr e'"
    "eps_inv e'" "stream_lim e' = stream_lim (d_input d') + delta" "eps_frame (d_input d') e'"
    "eps_end e' = eps_end (d_input d')" "input_delta e' = input_delta (d_input d')" by blast
  then show ?thesis
    using a by (auto simp: dec_at_def ptr_ok_def eps_frame_def stream_pos_def)
qed

text \<open>The pattern push, parse to the limit, pop.\<close>

definition within :: "upb_Decoder \<Rightarrow> int \<Rightarrow> upb_Decoder \<Rightarrow> bool" where
  "within d ptr d' \<longleftrightarrow> dec_at d' ptr \<and> stream_lim (d_input d') \<le> stream_lim (d_input d) \<and>
     eps_frame (d_input d) (d_input d') \<and> dpos d' ptr = dpos d ptr \<and>
     extreg d' = extreg d \<and> d_depth d' = d_depth d \<and> end_group d' = end_group d \<and>
     d_options d' = d_options d \<and> message_is_done d' = message_is_done d"

lemma limited_post:
  assumes at: "dec_at d ptr"
    and body: "\<And>e. within d ptr (d\<lparr>d_input := e\<rparr>) \<Longrightarrow>
      post (\<lambda>(ptr', x, d'). moved (d\<lparr>d_input := e\<rparr>) ptr d' ptr' \<and>
        dpos d' ptr' = stream_lim (d_input d') \<and> Q x) (body e)"
  shows "post (\<lambda>(ptr', x, d'). moved d ptr d' ptr' \<and> Q x)
    (bindE (upb_EpsCopyInputStream_PushLimit (d_input d) ptr n) (\<lambda>(delta, e).
     bindE (body e) (\<lambda>(ptr, x, d).
     bindE (upb_EpsCopyInputStream_PopLimit (d_input d) ptr delta) (\<lambda>e.
       Inr (ptr, x, d\<lparr>d_input := e\<rparr>)))))"
proof (rule post_bindE[OF PushLimit_post[OF at]])
  fix x assume "case x of (delta, e) \<Rightarrow> dec_at (d\<lparr>d_input := e\<rparr>) ptr \<and> 0 \<le> delta \<and>
    delta = stream_lim (d_input d) - stream_lim e \<and> stream_lim e = dpos d ptr + int n \<and>
    eps_frame (d_input d) e \<and> stream_pos e ptr = dpos d ptr"
  then obtain delta e where x: "x = (delta, e)"
    and e: "dec_at (d\<lparr>d_input := e\<rparr>) ptr" "0 \<le> delta" "delta = stream_lim (d_input d) - stream_lim e"
      "eps_frame (d_input d) e" "stream_pos e ptr = dpos d ptr" by auto
  have w: "within d ptr (d\<lparr>d_input := e\<rparr>)" using e by (simp add: within_def)
  have pop: "post (\<lambda>(ptr', x, d'). moved d ptr d' ptr' \<and> Q x)
      (bindE (upb_EpsCopyInputStream_PopLimit (d_input d') ptr' delta) (\<lambda>e. Inr (ptr', y, d'\<lparr>d_input := e\<rparr>)))"
    if m: "moved (d\<lparr>d_input := e\<rparr>) ptr d' ptr'" "dpos d' ptr' = stream_lim (d_input d')" "Q y" for d' ptr' y
  proof -
    have fr: "dec_at d' ptr'" "stream_lim (d_input d') = stream_lim e" "eps_frame e (d_input d')"
      using m(1) by (auto simp: moved_def dec_frame_def)
    have "input_size (d_input d') = input_size (d_input d)"
      using e(4) fr(3) by (simp add: eps_frame_def input_size_def)
    moreover have "stream_lim (d_input d) \<le> input_size (d_input d)"
      using at eps_lim_le_size by (auto simp: dec_at_def)
    ultimately show ?thesis
      using e fr m by (intro post_bindE[OF PopLimit_post[OF fr(1) m(2) e(2)]])
        (auto simp: moved_def dec_frame_def eps_frame_def)
  qed
  show "post (\<lambda>(ptr', x, d'). moved d ptr d' ptr' \<and> Q x)
    (case x of (delta, e) \<Rightarrow> bindE (body e) (\<lambda>(ptr, x, d).
     bindE (upb_EpsCopyInputStream_PopLimit (d_input d) ptr delta) (\<lambda>e. Inr (ptr, x, d\<lparr>d_input := e\<rparr>))))"
    unfolding x prod.case using pop by (intro post_bindE[OF body[OF w]]) auto
qed

subsection \<open>Packed arrays\<close>

lemma val_cell_Inr: "lg2 \<in> {0, 2, 3} \<Longrightarrow> \<exists>c. val_cell lg2 v = Inr c"
  by (auto simp: val_cell_def)

lemma Munge_Inr: "descriptortype field \<noteq> kUpb_FieldType_Enum \<Longrightarrow> \<exists>w. upb_Decoder_Munge field v = Inr w"
  by (auto simp: upb_Decoder_Munge_def Let_def split: upb_FieldType.split)

text \<open>What a loop to the limit delivers.\<close>

definition at_limit :: "upb_Decoder \<Rightarrow> int \<Rightarrow> ('a \<Rightarrow> bool) \<Rightarrow> int \<times> 'a \<times> upb_Decoder \<Rightarrow> bool" where
  "at_limit d ptr Q = (\<lambda>(ptr', x, d'). moved d ptr d' ptr' \<and> dpos d' ptr' = stream_lim (d_input d') \<and> Q x)"

lemma at_limit_moved: "moved d ptr d1 p1 \<Longrightarrow> post (at_limit d1 p1 Q) r \<Longrightarrow> post (at_limit d ptr Q) r"
  by (erule post_mono) (auto simp: at_limit_def intro: moved_trans)

lemma fuel_left:
  "moved d ptr d' p \<Longrightarrow> nat (stream_lim (d_input d) - dpos d ptr) < Suc n \<Longrightarrow> dpos d ptr < dpos d' p \<Longrightarrow>
   dpos d ptr < stream_lim (d_input d) \<Longrightarrow> nat (stream_lim (d_input d') - dpos d' p) < n"
  using moved_input[of d ptr d' p] by simp

lemma varint_packed_loop_post:
  assumes "dec_at d ptr" "nat (stream_lim (d_input d) - dpos d ptr) < fuel"
    and ty: "descriptortype field \<noteq> kUpb_FieldType_Enum" and lg2: "lg2 \<in> {0, 2, 3}"
    and "\<forall>c \<in> set arr. P c" and P: "\<And>v c. val_cell lg2 v = Inr c \<Longrightarrow> P c"
  shows "post (at_limit d ptr (\<lambda>arr'. \<forall>c \<in> set arr'. P c)) (varint_packed_loop fuel field lg2 d ptr arr)"
  using assms(1,2,5)
proof (induction fuel arbitrary: d ptr arr)
  case (Suc fuel)
  let ?Q = "\<lambda>arr'. \<forall>c \<in> set arr'. P c"
  show ?case
    unfolding varint_packed_loop.simps
  proof (rule done_then[OF Suc.prems(1)], goal_cases)
    case (1 p d1)
    then show ?case using Suc.prems(3) moved_input[OF 1(1)] by (simp add: at_limit_def)
  next
    case (2 p d1)
    show ?case
      unfolding if_False
    proof (rule varint_then[OF 2(4)], simp)
      fix p2 v d2 assume m: "moved d1 p d2 p2" "dpos d1 p < dpos d2 p2"
      obtain w c where w: "upb_Decoder_Munge field v = Inr w" "val_cell lg2 w = Inr c"
        using Munge_Inr[OF ty] val_cell_Inr[OF lg2] by metis
      note m' = moved_trans[OF 2(1) m(1)]
      have "post (at_limit (next_mem d2) p2 ?Q) (varint_packed_loop fuel field lg2 (next_mem d2) p2 (arr @ [c]))"
        using Suc.prems(2,3) P[OF w(2)] moved_at[OF m'] fuel_left[OF m'] m 2
        by (intro Suc.IH) auto
      then show "post (at_limit d ptr ?Q) (bindE (upb_Decoder_Munge field v) (\<lambda>elem.
          bindE (upb_Decoder_Reserve d2) (\<lambda>d. bindE (val_cell lg2 elem) (\<lambda>c.
            varint_packed_loop fuel field lg2 d p2 (arr @ [c])))))"
        using w m' by (auto intro!: Reserve_then at_limit_moved[of d ptr "next_mem d2" p2])
    qed
  qed
qed simp

lemma enum_packed_loop_post:
  assumes "dec_at d ptr" "nat (stream_lim (d_input d) - dpos d ptr) < fuel" and en: "enum_wf en"
    and "\<forall>c \<in> set arr. P c" and P: "\<And>v. P (Cell4 v)"
  shows "post (at_limit d ptr (\<lambda>(arr', unk'). \<forall>c \<in> set arr'. P c))
    (enum_packed_loop fuel field en d ptr arr unk)"
  using assms(1,2,4)
proof (induction fuel arbitrary: d ptr arr unk)
  case (Suc fuel)
  let ?Q = "\<lambda>(arr', unk'). \<forall>c \<in> set arr'. P c"
  show ?case
    unfolding enum_packed_loop.simps
  proof (rule done_then[OF Suc.prems(1)], goal_cases)
    case (1 p d1)
    then show ?case using Suc.prems(3) moved_input[OF 1(1)] by (simp add: at_limit_def)
  next
    case (2 p d1)
    show ?case
      unfolding if_False
    proof (rule varint_then[OF 2(4)], simp)
      fix p2 v d2 assume m: "moved d1 p d2 p2" "dpos d1 p < dpos d2 p2"
      note m' = moved_trans[OF 2(1) m(1)]
      have rest: "post (at_limit d ptr ?Q) (enum_packed_loop fuel field en (next_mem d2) p2 arr2 unk2)"
        if "\<forall>c \<in> set arr2. P c" for arr2 unk2
      proof (rule at_limit_moved[of _ _ "next_mem d2" p2])
        show "post (at_limit (next_mem d2) p2 ?Q) (enum_packed_loop fuel field en (next_mem d2) p2 arr2 unk2)"
          using Suc.prems(2) that moved_at[OF m'] fuel_left[OF m'] m 2 by (intro Suc.IH) auto
      qed (use m' in simp)
      then show "post (at_limit d ptr ?Q) (bindE (upb_MiniTableEnum_CheckValue en (ucast v)) (\<lambda>known.
           if \<not> known then
             bindE (upb_Decoder_AddEnumValueToUnknown d2 field v) (\<lambda>(chunk, d).
               enum_packed_loop fuel field en d p2 arr (unk @ [chunk]))
           else
             bindE (upb_Decoder_Reserve d2) (\<lambda>d.
             bindE (val_cell 2 v) (\<lambda>c. enum_packed_loop fuel field en d p2 (arr @ [c]) unk))))"
        using Suc.prems(3) P
        by (auto simp: CheckValue_eq[OF en] upb_Decoder_AddEnumValueToUnknown_def Let_def bindE_assoc
            val_cell_def intro!: Reserve_then mem_then rest)
    qed
  qed
qed simp

lemma skip_fuel_enough: "nat (stream_lim e - stream_pos e ptr) < skip_fuel e ptr"
  by (simp add: skip_fuel_def)

lemma DecodeVarintPacked_post:
  assumes "dec_at d ptr" "descriptortype field \<noteq> kUpb_FieldType_Enum" "lg2 \<in> {0, 2, 3}"
    and "\<forall>c \<in> set arr. P c" "\<And>v c. val_cell lg2 v = Inr c \<Longrightarrow> P c"
  shows "post (\<lambda>(ptr', arr', d'). moved d ptr d' ptr' \<and> (\<forall>c \<in> set arr'. P c))
    (upb_Decoder_DecodeVarintPacked d ptr arr sz field lg2)"
  unfolding upb_Decoder_DecodeVarintPacked_def
proof (rule limited_post[OF assms(1)])
  fix e assume "within d ptr (d\<lparr>d_input := e\<rparr>)"
  then show "post (\<lambda>(ptr', x, d'). moved (d\<lparr>d_input := e\<rparr>) ptr d' ptr' \<and>
      dpos d' ptr' = stream_lim (d_input d') \<and> (\<forall>c \<in> set x. P c))
    (varint_packed_loop (skip_fuel e ptr) field lg2 (d\<lparr>d_input := e\<rparr>) ptr arr)"
    using assms varint_packed_loop_post[of "d\<lparr>d_input := e\<rparr>" ptr "skip_fuel e ptr" field lg2 arr P]
      skip_fuel_enough[of e ptr]
    by (simp add: within_def at_limit_def)
qed

lemma DecodeEnumPacked_post:
  assumes "dec_at d ptr" "submsg field = SubEnum en" "enum_wf en"
    and "\<forall>c \<in> set arr. P c" "\<And>v. P (Cell4 v)"
  shows "post (\<lambda>(ptr', (arr', unk'), d'). moved d ptr d' ptr' \<and> (\<forall>c \<in> set arr'. P c))
    (upb_Decoder_DecodeEnumPacked d ptr arr field sz)"
proof -
  have "post (\<lambda>(ptr', x, d'). moved d ptr d' ptr' \<and> (case x of (arr', unk') \<Rightarrow> \<forall>c \<in> set arr'. P c))
    (upb_Decoder_DecodeEnumPacked d ptr arr field sz)"
    unfolding upb_Decoder_DecodeEnumPacked_def
  proof (rule Inr_then, simp add: upb_MiniTable_GetSubEnumTable_def assms(2), rule limited_post[OF assms(1)])
    fix e assume "within d ptr (d\<lparr>d_input := e\<rparr>)"
    then show "post (\<lambda>(ptr', x, d'). moved (d\<lparr>d_input := e\<rparr>) ptr d' ptr' \<and>
        dpos d' ptr' = stream_lim (d_input d') \<and> (case x of (arr', unk') \<Rightarrow> \<forall>c \<in> set arr'. P c))
      (enum_packed_loop (skip_fuel e ptr) field en (d\<lparr>d_input := e\<rparr>) ptr arr [])"
      using assms enum_packed_loop_post[of "d\<lparr>d_input := e\<rparr>" ptr "skip_fuel e ptr" en arr P field "[]"]
        skip_fuel_enough[of e ptr]
      by (simp add: within_def at_limit_def)
  qed
  then show ?thesis by (rule post_mono) auto
qed

lemma DecodeFixedPacked_post:
  assumes "dec_at d ptr" "lg2 \<in> {2, 3}" and "\<forall>c \<in> set arr. P c"
    and "\<And>v. lg2 = 2 \<Longrightarrow> P (Cell4 v)" "\<And>v. lg2 = 3 \<Longrightarrow> P (Cell8 v)"
  shows "post (\<lambda>(ptr', arr', d'). moved d ptr d' ptr' \<and> (\<forall>c \<in> set arr'. P c))
    (upb_Decoder_DecodeFixedPacked d ptr arr sz lg2)"
  using assms(1)
proof (cases rule: Ephemeral_cases[where sz = "unat sz"])
  case (view sv bs)
  then show ?thesis
    using assms by (auto simp: upb_Decoder_DecodeFixedPacked_def Let_def fixed_cells_def intro!: Reserve_then)
qed (simp add: upb_Decoder_DecodeFixedPacked_def)

end
