(* ===== verification/Encoder_Spec.thy ===== *)
theory Encoder_Spec
  imports Message_Encoder
begin

text \<open>
  The reference serialiser: what a message is on the wire, as pure functions into bytes. Nothing
  here knows of buffers or of writing backwards. A value of \<open>out\<close> is the bytes, or the way the
  encoding fails; where several parts of a message fail, the failure is that of the last part,
  because the code writes from the back. \<open>rec\<close> is the encoding of a sub-message, \<open>d\<close> the depth that
  is left.
\<close>

subsection \<open>The reference serialiser\<close>

type_synonym msg_out = "int \<Rightarrow> upb_Message \<Rightarrow> upb_MiniTable \<Rightarrow> out"

text \<open>The list of encodings one after the other; the last one fails first.\<close>

fun out_each :: "('a \<Rightarrow> out) \<Rightarrow> 'a list \<Rightarrow> out" where
  "out_each g [] = Inr []"
| "out_each g (x # xs) = then_out (out_each g xs) (\<lambda>_. g x)"

definition delimited_out :: "u32 \<Rightarrow> byte list \<Rightarrow> out" where
  "delimited_out num body =
     bindE (length_out (length body)) (\<lambda>l. Inr (tag_bytes num kUpb_WireType_Delimited @ l @ body))"

definition group_bytes :: "u32 \<Rightarrow> byte list \<Rightarrow> byte list" where
  "group_bytes num body =
     tag_bytes num kUpb_WireType_StartGroup @ body @ tag_bytes num kUpb_WireType_EndGroup"

definition depth_out :: "int \<Rightarrow> int res" where
  "depth_out d = (if d - 1 = 0 then Inl (Thrown MaxDepthExceeded) else Inr (d - 1))"

datatype wire_class =
  ClassVarint | ClassFixed64 | ClassFixed32 | ClassString | ClassGroup | ClassMessage | ClassNone

definition wire_class :: "upb_FieldType \<Rightarrow> wire_class" where
  "wire_class t =
     (case t of
        kUpb_FieldType_Double \<Rightarrow> ClassFixed64 | kUpb_FieldType_Float \<Rightarrow> ClassFixed32
      | kUpb_FieldType_SFixed64 \<Rightarrow> ClassFixed64 | kUpb_FieldType_Fixed64 \<Rightarrow> ClassFixed64
      | kUpb_FieldType_Fixed32 \<Rightarrow> ClassFixed32 | kUpb_FieldType_SFixed32 \<Rightarrow> ClassFixed32
      | kUpb_FieldType_String \<Rightarrow> ClassString | kUpb_FieldType_Bytes \<Rightarrow> ClassString
      | kUpb_FieldType_Group \<Rightarrow> ClassGroup | kUpb_FieldType_Message \<Rightarrow> ClassMessage
      | kUpb_FakeFieldType_FieldNotFound \<Rightarrow> ClassNone
      | kUpb_FakeFieldType_MessageSetItem \<Rightarrow> ClassNone
      | _ \<Rightarrow> ClassVarint)"

text \<open>
  The number each varint type is written as: negative values in two's complement of 64 bits, \<open>sint\<close>
  values in zigzag order 0, -1, 1, -2, \<dots>
\<close>

definition zigzag :: "int \<Rightarrow> nat" where
  "zigzag i = nat (if 0 \<le> i then 2 * i else - 2 * i - 1)"

definition varint_value :: "upb_FieldType \<Rightarrow> upb_Cell option \<Rightarrow> nat res" where
  "varint_value t c =
     (case t of
        kUpb_FieldType_Int64 \<Rightarrow> bindE (load8 c) (\<lambda>v. Inr (nat (sint v mod 2 ^ 64)))
      | kUpb_FieldType_UInt64 \<Rightarrow> bindE (load8 c) (\<lambda>v. Inr (unat v))
      | kUpb_FieldType_UInt32 \<Rightarrow> bindE (load4 c) (\<lambda>v. Inr (unat v))
      | kUpb_FieldType_Int32 \<Rightarrow> bindE (load4 c) (\<lambda>v. Inr (nat (sint v mod 2 ^ 64)))
      | kUpb_FieldType_Enum \<Rightarrow> bindE (load4 c) (\<lambda>v. Inr (nat (sint v mod 2 ^ 64)))
      | kUpb_FieldType_Bool \<Rightarrow> bindE (load1 c) (\<lambda>v. Inr (unat v))
      | kUpb_FieldType_SInt32 \<Rightarrow> bindE (load4 c) (\<lambda>v. Inr (zigzag (sint v)))
      | kUpb_FieldType_SInt64 \<Rightarrow> bindE (load8 c) (\<lambda>v. Inr (zigzag (sint v)))
      | _ \<Rightarrow> Inl Unreachable)"

definition number_out :: "upb_FieldType \<Rightarrow> upb_Cell option \<Rightarrow> out" where
  "number_out t c =
     (case wire_class t of
        ClassFixed64 \<Rightarrow> bindE (load8 c) (\<lambda>v. Inr (le_bytes 8 v))
      | ClassFixed32 \<Rightarrow> bindE (load4 c) (\<lambda>v. Inr (le_bytes 4 v))
      | _ \<Rightarrow> bindE (varint_value t c) (\<lambda>v. Inr (varint_bytes v)))"

definition number_wire_type :: "upb_FieldType \<Rightarrow> u32" where
  "number_wire_type t =
     (case wire_class t of
        ClassFixed64 \<Rightarrow> kUpb_WireType_64Bit | ClassFixed32 \<Rightarrow> kUpb_WireType_32Bit
      | _ \<Rightarrow> kUpb_WireType_Varint)"

definition submsg_out :: "msg_out \<Rightarrow> int \<Rightarrow> upb_MiniTableField \<Rightarrow> upb_Message \<Rightarrow> upb_MiniTable \<Rightarrow> out" where
  "submsg_out rec d f m subm =
     bindE (rec d m subm) (\<lambda>body.
       if wire_class (descriptortype f) = ClassGroup then Inr (group_bytes (number f) body)
       else delimited_out (number f) body)"

definition scalar_out ::
    "msg_out \<Rightarrow> upb_MiniTable list \<Rightarrow> int \<Rightarrow> upb_Cell option \<Rightarrow> upb_MiniTableField \<Rightarrow> out" where
  "scalar_out rec tabs d c f =
     (let sub = bindE (load_msg c) (\<lambda>sub. case sub of
            None \<Rightarrow> Inr []
          | Some m \<Rightarrow>
              bindE (upb_MiniTable_GetSubMessageTable tabs f) (\<lambda>subm.
              bindE (depth_out d) (\<lambda>d. submsg_out rec d f m subm)));
          number = bindE (number_out (descriptortype f) c) (\<lambda>b.
            Inr (tag_bytes (number f) (number_wire_type (descriptortype f)) @ b))
      in case wire_class (descriptortype f) of
        ClassVarint \<Rightarrow> number
      | ClassFixed64 \<Rightarrow> number
      | ClassFixed32 \<Rightarrow> number
      | ClassString \<Rightarrow> bindE (load_str c) (delimited_out (upb_MiniTableField.number f))
      | ClassGroup \<Rightarrow> sub
      | ClassMessage \<Rightarrow> sub
      | ClassNone \<Rightarrow> Inl Unreachable)"

text \<open>
  An unpacked array writes each element with its tag. The code takes the tag 0, which only field
  number 0 has, for "no tag".
\<close>

definition element_tag :: "u32 \<Rightarrow> u32 \<Rightarrow> byte list" where
  "element_tag num wt = (if make_tag num wt = 0 then [] else tag_bytes num wt)"

definition numbers_out :: "upb_MiniTableField \<Rightarrow> upb_Cell list \<Rightarrow> out" where
  "numbers_out f arr =
     (let t = descriptortype f; element = (\<lambda>c. number_out t (Some c))
      in if upb_MiniTableField_IsPacked f
         then bindE (out_each element arr) (delimited_out (number f))
         else out_each (\<lambda>c. bindE (element c) (\<lambda>b.
                Inr (element_tag (number f) (number_wire_type t) @ b))) arr)"

definition array_out ::
    "msg_out \<Rightarrow> upb_MiniTable list \<Rightarrow> int \<Rightarrow> upb_Cell option \<Rightarrow> upb_MiniTableField \<Rightarrow> out" where
  "array_out rec tabs d c f =
     bindE (load_arr c) (\<lambda>a. case a of
       None \<Rightarrow> Inr []
     | Some arr \<Rightarrow>
         if arr = [] then Inr []
         else
           let subs = bindE (upb_MiniTable_GetSubMessageTable tabs f) (\<lambda>subm.
                 bindE (depth_out d) (\<lambda>d.
                   out_each (\<lambda>c. bindE (load_msg (Some c)) (\<lambda>m. case m of
                     None \<Rightarrow> Inl OutOfBounds | Some m \<Rightarrow> submsg_out rec d f m subm)) arr))
           in case wire_class (descriptortype f) of
             ClassVarint \<Rightarrow> numbers_out f arr
           | ClassFixed64 \<Rightarrow> numbers_out f arr
           | ClassFixed32 \<Rightarrow> numbers_out f arr
           | ClassString \<Rightarrow>
               out_each (\<lambda>c. bindE (load_str (Some c)) (delimited_out (number f))) arr
           | ClassGroup \<Rightarrow> subs
           | ClassMessage \<Rightarrow> subs
           | ClassNone \<Rightarrow>
               if upb_MiniTableField_IsPacked f then delimited_out (number f) [] else Inr [])"

definition entry_out ::
    "msg_out \<Rightarrow> upb_MiniTable list \<Rightarrow> int \<Rightarrow> u32 \<Rightarrow> upb_MiniTable \<Rightarrow> upb_Cell \<times> upb_Cell \<Rightarrow> out" where
  "entry_out rec tabs d num layout ent =
     bindE (field_at layout 0) (\<lambda>key_field.
     bindE (field_at layout 1) (\<lambda>val_field.
     bindE (then_out (scalar_out rec tabs d (Some (snd ent)) val_field)
              (\<lambda>_. scalar_out rec tabs d (Some (fst ent)) key_field)) (delimited_out num)))"

definition map_out ::
    "msg_out \<Rightarrow> upb_MiniTable list \<Rightarrow> u32 \<Rightarrow> int \<Rightarrow> upb_Cell option \<Rightarrow> upb_MiniTableField \<Rightarrow> out" where
  "map_out rec tabs options d c f =
     bindE (load_map c) (\<lambda>map.
     bindE (upb_MiniTable_GetSubMessageTable tabs f) (\<lambda>layout.
     bindE (assertE (length (mt_fields layout) = 2)) (\<lambda>_.
       case map of
         None \<Rightarrow> Inr []
       | Some m \<Rightarrow>
           if upb_Map_Size m = 0 then Inr []
           else bindE (map_write_order options layout m) (\<lambda>ents.
                  out_each (entry_out rec tabs d (number f) layout) (rev ents)))))"

definition field_out ::
    "msg_out \<Rightarrow> upb_MiniTable list \<Rightarrow> u32 \<Rightarrow> int \<Rightarrow> upb_Cell option \<Rightarrow> upb_MiniTableField \<Rightarrow> out" where
  "field_out rec tabs options d c f =
     (case upb_MiniTableField_Mode f of
        Some kUpb_FieldMode_Array \<Rightarrow> array_out rec tabs d c f
      | Some kUpb_FieldMode_Map \<Rightarrow> map_out rec tabs options d c f
      | Some kUpb_FieldMode_Scalar \<Rightarrow> scalar_out rec tabs d c f
      | None \<Rightarrow> Inl Unreachable)"

definition msgset_item_bytes :: "u32 \<Rightarrow> byte list \<Rightarrow> byte list" where
  "msgset_item_bytes type_id body =
     group_bytes kUpb_MsgSet_Item
       (tag_bytes kUpb_MsgSet_TypeId kUpb_WireType_Varint @ varint_bytes (unat type_id) @
        tag_bytes kUpb_MsgSet_Message kUpb_WireType_Delimited @ varint_bytes (length body) @ body)"

definition ext_out ::
    "msg_out \<Rightarrow> upb_MiniTable list \<Rightarrow> u32 \<Rightarrow> int \<Rightarrow> bool \<Rightarrow> upb_MiniTableField \<times> upb_Cell \<Rightarrow> out" where
  "ext_out rec tabs options d is_message_set x =
     (if is_message_set then
        bindE (load_msg (Some (snd x))) (\<lambda>m. case m of
          None \<Rightarrow> Inl OutOfBounds
        | Some m \<Rightarrow>
            bindE (upb_MiniTable_GetSubMessageTable tabs (fst x)) (\<lambda>subm.
            bindE (rec d m subm) (\<lambda>body. Inr (msgset_item_bytes (number (fst x)) body))))
      else field_out rec tabs options d (Some (snd x)) (fst x))"

definition exts_out ::
    "msg_out \<Rightarrow> upb_MiniTable list \<Rightarrow> u32 \<Rightarrow> int \<Rightarrow> upb_MiniTable \<Rightarrow> upb_Message \<Rightarrow> out" where
  "exts_out rec tabs options d m msg =
     (if ext m = kUpb_ExtMode_NonExtendable then Inr []
      else out_each (ext_out rec tabs options d (ext m = kUpb_ExtMode_IsMessageSet))
             (if options AND kUpb_EncodeOption_Deterministic \<noteq> 0
              then rev (upb_mapsorter_pushexts msg) else msg_exts msg))"

definition present_out ::
    "msg_out \<Rightarrow> upb_MiniTable list \<Rightarrow> u32 \<Rightarrow> int \<Rightarrow> upb_Message \<Rightarrow> upb_MiniTableField \<Rightarrow> out" where
  "present_out rec tabs options d msg f =
     bindE (encode_shouldencode msg f) (\<lambda>b.
       if b then field_out rec tabs options d (cell_at msg f) f else Inr [])"

definition message_out_body ::
    "msg_out \<Rightarrow> upb_MiniTable list \<Rightarrow> u32 \<Rightarrow> msg_out" where
  "message_out_body rec tabs options d msg m =
     (if options AND kUpb_EncodeOption_CheckRequired \<noteq> 0 \<and> required_count m \<noteq> 0 \<and>
         \<not> upb_Message_IsInitializedShallow msg m
      then Inl (Thrown MissingRequired)
      else
        bindE (exts_out rec tabs options d m msg) (\<lambda>exts.
        bindE (out_each (present_out rec tabs options d msg) (mt_fields m)) (\<lambda>known.
          Inr (known @ exts @
               (if options AND kUpb_EncodeOption_SkipUnknown = 0 then concat (msg_unknown msg)
                else [])))))"

primrec message_out :: "nat \<Rightarrow> upb_MiniTable list \<Rightarrow> u32 \<Rightarrow> msg_out" where
  "message_out 0 tabs options = (\<lambda>d msg m. Inl OutOfFuel)"
| "message_out (Suc fuel) tabs options = message_out_body (message_out fuel tabs options) tabs options"

subsection \<open>The numbers of the code\<close>

text \<open>The shifts and exclusive ors of the code compute these numbers.\<close>

lemma signed_drop_sign:
  fixes w :: "'a::len word"
  shows "signed_drop_bit (LENGTH('a) - 1) w = (if sint w < 0 then - 1 else 0)"
proof -
  have "sint (signed_drop_bit (LENGTH('a) - 1) w) = drop_bit (LENGTH('a) - 1) (sint w)"
    by (simp add: sint_signed_drop_bit_eq)
  also have "\<dots> = (if sint w < 0 then - 1 else 0)"
  proof (cases "sint w < 0")
    case True
    have "(sint w + 2 ^ (LENGTH('a) - 1)) div 2 ^ (LENGTH('a) - 1) = 0"
      using True sint_greater_eq[of w] by (simp add: zdiv_eq_0_iff)
    then have "sint w div 2 ^ (LENGTH('a) - 1) = - 1"
      using div_add_self2[of "2 ^ (LENGTH('a) - 1)" "sint w"] by simp
    then show ?thesis using True by (simp add: drop_bit_eq_div)
  qed (use sint_less[of w] in \<open>simp add: drop_bit_eq_div zdiv_eq_0_iff\<close>)
  finally show ?thesis by (metis signed_0 sint_n1 signed_word_eqI)
qed

lemma zz_word:
  fixes w :: "'a::len word"
  assumes "1 < LENGTH('a)"
  shows "unat (push_bit 1 w XOR signed_drop_bit (LENGTH('a) - 1) w) = zigzag (sint w)"
proof -
  have r: "- (2 ^ (LENGTH('a) - 1)) \<le> sint w" "sint w < 2 ^ (LENGTH('a) - 1)" using sint_greater_eq[of w] sint_less[of w] by auto
  have p: "(2 :: int) ^ LENGTH('a) = 2 * 2 ^ (LENGTH('a) - 1)" using power_Suc[of "2 :: int" "LENGTH('a) - 1"] by simp
  show ?thesis
  proof (cases "sint w < 0")
    case True
    have "push_bit 1 w XOR - 1 = NOT (2 * w)" by (simp add: push_bit_eq_mult mult.commute)
    also have "\<dots> = word_of_int (- 2 * sint w - 1)" by (simp add: not_eq_complement)
    finally have "uint (push_bit 1 w XOR - 1) = (- 2 * sint w - 1) mod 2 ^ LENGTH('a)"
      by (metis uint_word_of_int)
    also have "\<dots> = - 2 * sint w - 1" using True r p by (intro mod_pos_pos_trivial) auto
    finally show ?thesis using True by (simp only: signed_drop_sign if_True zigzag_def not_le[symmetric] if_False not_False_eq_True flip: nat_uint_eq)
  next
    case False
    have "push_bit 1 w = word_of_int (2 * sint w)" by (simp add: push_bit_eq_mult mult.commute)
    then have "uint (push_bit 1 w) = (2 * sint w) mod 2 ^ LENGTH('a)" by (metis uint_word_of_int)
    also have "\<dots> = 2 * sint w" using False r p by (intro mod_pos_pos_trivial) auto
    finally show ?thesis using False by (simp only: signed_drop_sign if_False zigzag_def not_less if_True xor.right_neutral not_False_eq_True flip: nat_uint_eq) simp
  qed
qed

lemma unat_zz: "unat (encode_zz32 v) = zigzag (sint v)" "unat (encode_zz64 w) = zigzag (sint w)"
  using zz_word[of v] zz_word[of w] by (simp_all add: encode_zz32_def encode_zz64_def)

lemma unat_of_sint: "unat (word_of_int i :: u64) = nat (i mod 2 ^ 64)"
proof -
  have "uint (word_of_int i :: u64) = i mod 2 ^ 64" by (simp add: uint_word_of_int)
  then show ?thesis by (metis nat_uint_eq)
qed

lemma unat_scast: "unat (scast (v :: u32) :: u64) = nat (sint v mod 2 ^ 64)"
  unfolding scast_eq by (rule unat_of_sint)

lemma unat_sint: "unat (v :: u64) = nat (sint v mod 2 ^ 64)"
  using unat_of_sint[of "sint v"] by simp

lemma unat_ucast_up: "unat (ucast (v :: u32) :: u64) = unat v" "unat (ucast (b :: byte) :: u64) = unat b"
  by (simp_all add: unsigned_ucast_eq take_bit_nat_eq_self order.strict_trans[OF unsigned_less])

lemma varint_value_eq: "varint_value t c = bindE (varint_of t c) (\<lambda>v. Inr (unat v))"
  unfolding varint_value_def varint_of_def
  by (cases t) (simp_all only: upb_FieldType.case unat_zz unat_scast unat_sint[symmetric] unat_ucast_up bindE_Inl bindE_Inr bindE_assoc sum.case)

lemma number_out_eq:
  "number_out t c =
     (case wire_class t of
        ClassFixed64 \<Rightarrow> bindE (load8 c) (\<lambda>v. Inr (le_bytes 8 v))
      | ClassFixed32 \<Rightarrow> bindE (load4 c) (\<lambda>v. Inr (le_bytes 4 v))
      | _ \<Rightarrow> bindE (varint_of t c) (\<lambda>v. Inr (varint_bytes (unat v))))"
  by (simp add: number_out_def varint_value_eq bindE_assoc split: wire_class.split)

end
