(* ===== verification/Message_Conforms.thy ===== *)
theory Message_Conforms
  imports Encoder_Spec
begin

text \<open>
  The type invariant of messages: every cell is of the type its layout gives the field at that
  offset, sub-messages of their own layouts included. It is what the encoder relies on and what the
  parser establishes. \<open>msg_conforms n\<close> looks \<open>n\<close> messages deep; \<open>conforms\<close> is the whole message, and
  \<open>conforms_unfold\<close> is its fixed-point equation.
\<close>

subsection \<open>Messages that conform to their layout\<close>

text \<open>
  The width in memory of each scalar type, as the accessors of the generated code use it, and the
  cells a field may have. \<open>rec\<close> is the check of a sub-message.
\<close>

definition scalar_width :: "upb_FieldType \<Rightarrow> nat" where
  "scalar_width t =
     (case t of
        kUpb_FieldType_Bool \<Rightarrow> 1
      | kUpb_FieldType_Int32 \<Rightarrow> 4 | kUpb_FieldType_UInt32 \<Rightarrow> 4 | kUpb_FieldType_SInt32 \<Rightarrow> 4
      | kUpb_FieldType_Enum \<Rightarrow> 4 | kUpb_FieldType_Float \<Rightarrow> 4 | kUpb_FieldType_Fixed32 \<Rightarrow> 4
      | kUpb_FieldType_SFixed32 \<Rightarrow> 4
      | _ \<Rightarrow> 8)"

definition key_width :: "upb_FieldType \<Rightarrow> nat" where
  "key_width t = (if wire_class t = ClassString then 0 else scalar_width t)"

type_synonym msg_check = "upb_Message \<Rightarrow> upb_MiniTable \<Rightarrow> bool"

definition linked :: "upb_MiniTable list \<Rightarrow> upb_MiniTableField \<Rightarrow> upb_MiniTable option" where
  "linked tabs f =
     (case submsg f of SubMsg (Some i) \<Rightarrow> if i < length tabs then Some (tabs ! i) else None | _ \<Rightarrow> None)"

definition element_conforms ::
    "msg_check \<Rightarrow> upb_MiniTable list \<Rightarrow> upb_MiniTableField \<Rightarrow> upb_Cell \<Rightarrow> bool" where
  "element_conforms rec tabs f c =
     (case c of
        Cell1 _ \<Rightarrow> wire_class (descriptortype f) = ClassVarint \<and> scalar_width (descriptortype f) = 1
      | Cell4 _ \<Rightarrow> wire_class (descriptortype f) \<in> {ClassVarint, ClassFixed32} \<and>
          scalar_width (descriptortype f) = 4
      | Cell8 _ \<Rightarrow> wire_class (descriptortype f) \<in> {ClassVarint, ClassFixed64} \<and>
          scalar_width (descriptortype f) = 8
      | CellStr _ \<Rightarrow> wire_class (descriptortype f) = ClassString
      | CellMsg (Some m) \<Rightarrow> wire_class (descriptortype f) \<in> {ClassGroup, ClassMessage} \<and>
          (case linked tabs f of None \<Rightarrow> False | Some l \<Rightarrow> rec m l)
      | _ \<Rightarrow> False)"

definition map_conforms ::
    "msg_check \<Rightarrow> upb_MiniTable list \<Rightarrow> upb_MiniTable \<Rightarrow> upb_Map \<Rightarrow> bool" where
  "map_conforms rec tabs layout m \<longleftrightarrow>
     (is_strtable m \<longrightarrow> compar (descriptortype (mt_fields layout ! 0)) \<noteq> None) \<and>
     key_size m = key_width (descriptortype (mt_fields layout ! 0)) \<and>
     is_strtable m = (key_size m = 0) \<and>
     (\<forall>(k, v) \<in> set (array_entries (key_size m) 0 (map_array m) @
                      table_entries (key_size m) (map_table m)).
        element_conforms rec tabs (mt_fields layout ! 0) k \<and>
        element_conforms rec tabs (mt_fields layout ! 1) v)"

definition field_conforms ::
    "msg_check \<Rightarrow> upb_MiniTable list \<Rightarrow> upb_MiniTableField \<Rightarrow> upb_Cell option \<Rightarrow> bool" where
  "field_conforms rec tabs f c =
     (case upb_MiniTableField_Mode f of
        None \<Rightarrow> False
      | Some kUpb_FieldMode_Scalar \<Rightarrow> wire_class (descriptortype f) \<noteq> ClassNone \<and>
          (case c of None \<Rightarrow> True
           | Some (CellMsg None) \<Rightarrow> wire_class (descriptortype f) \<in> {ClassGroup, ClassMessage}
           | Some c \<Rightarrow> element_conforms rec tabs f c)
      | Some kUpb_FieldMode_Array \<Rightarrow>
          (case c of None \<Rightarrow> True | Some (CellArr None) \<Rightarrow> True
           | Some (CellArr (Some xs)) \<Rightarrow> (\<forall>x \<in> set xs. element_conforms rec tabs f x)
           | _ \<Rightarrow> False)
      | Some kUpb_FieldMode_Map \<Rightarrow>
          (case linked tabs f of None \<Rightarrow> False
           | Some l \<Rightarrow> length (mt_fields l) = 2 \<and>
               (case c of None \<Rightarrow> True | Some (CellMap None) \<Rightarrow> True
                | Some (CellMap (Some m)) \<Rightarrow> map_conforms rec tabs l m
                | _ \<Rightarrow> False)))"

text \<open>A field without presence is present when its memory is not zero, read by its representation.\<close>

definition rep_conforms :: "upb_MiniTableField \<Rightarrow> upb_Cell option \<Rightarrow> bool" where
  "rep_conforms f c \<longleftrightarrow>
     (case c of None \<Rightarrow> True
      | Some (Cell1 _) \<Rightarrow> upb_MiniTableField_GetRep f = kUpb_FieldRep_1Byte
      | Some (Cell4 _) \<Rightarrow> upb_MiniTableField_GetRep f = kUpb_FieldRep_4Byte
      | Some (CellStr _) \<Rightarrow> upb_MiniTableField_GetRep f = kUpb_FieldRep_StringView
      | Some _ \<Rightarrow> upb_MiniTableField_GetRep f = kUpb_FieldRep_8Byte)"

definition ext_conforms ::
    "msg_check \<Rightarrow> upb_MiniTable list \<Rightarrow> bool \<Rightarrow> upb_MiniTableField \<times> upb_Cell \<Rightarrow> bool" where
  "ext_conforms rec tabs is_message_set x =
     (if is_message_set then
        (case snd x of CellMsg (Some m) \<Rightarrow>
           (case linked tabs (fst x) of None \<Rightarrow> False | Some l \<Rightarrow> rec m l) | _ \<Rightarrow> False)
      else field_conforms rec tabs (fst x) (Some (snd x)))"

text \<open>
  The memory of a oneof member is its own only while the oneof's case says so; of the other fields
  it always is. A field without presence bits also has to have the representation it is tested by.
\<close>

definition field_active :: "upb_Message \<Rightarrow> upb_MiniTableField \<Rightarrow> bool" where
  "field_active msg f \<longleftrightarrow> 0 \<le> presence f \<or> upb_Message_GetOneofCase msg f = number f"

definition body_conforms :: "msg_check \<Rightarrow> upb_MiniTable list \<Rightarrow> msg_check" where
  "body_conforms chk tabs msg m \<longleftrightarrow>
     (\<forall>f \<in> set (mt_fields m).
        (presence f = 0 \<longrightarrow> rep_conforms f (cell_at msg f)) \<and>
        (field_active msg f \<longrightarrow> field_conforms chk tabs f (cell_at msg f))) \<and>
     (\<forall>x \<in> set (msg_exts msg). ext_conforms chk tabs (ext m = kUpb_ExtMode_IsMessageSet) x)"

primrec msg_conforms :: "nat \<Rightarrow> upb_MiniTable list \<Rightarrow> msg_check" where
  "msg_conforms 0 tabs = (\<lambda>msg m. True)"
| "msg_conforms (Suc n) tabs = body_conforms (msg_conforms n tabs) tabs"

definition conforms :: "upb_MiniTable list \<Rightarrow> msg_check" where
  "conforms tabs msg m \<longleftrightarrow> (\<forall>n. msg_conforms n tabs msg m)"

lemma element_conforms_all:
  "(\<forall>n. element_conforms (c n) tabs f x) = element_conforms (\<lambda>m l. \<forall>n. c n m l) tabs f x"
  by (auto simp: element_conforms_def split: upb_Cell.split option.split)

lemma map_conforms_all:
  "(\<forall>n. map_conforms (c n) tabs l m) = map_conforms (\<lambda>m l. \<forall>n. c n m l) tabs l m"
  unfolding map_conforms_def element_conforms_all[symmetric] by fastforce

lemma field_conforms_all:
  "(\<forall>n. field_conforms (c n) tabs f x) = field_conforms (\<lambda>m l. \<forall>n. c n m l) tabs f x"
  by (auto simp: field_conforms_def element_conforms_all[symmetric] map_conforms_all[symmetric]
      split: upb_Cell.split option.split upb_FieldMode.split)

lemma ext_conforms_all:
  "(\<forall>n. ext_conforms (c n) tabs b x) = ext_conforms (\<lambda>m l. \<forall>n. c n m l) tabs b x"
  by (auto simp: ext_conforms_def field_conforms_all[symmetric] split: upb_Cell.split option.split)

lemma body_conforms_all:
  "(\<forall>n. body_conforms (c n) tabs msg m) = body_conforms (\<lambda>m l. \<forall>n. c n m l) tabs msg m"
  unfolding body_conforms_def field_conforms_all[symmetric] ext_conforms_all[symmetric] by blast

theorem conforms_unfold: "conforms tabs msg m = body_conforms (conforms tabs) tabs msg m"
proof -
  have "conforms tabs msg m \<longleftrightarrow> (\<forall>n. msg_conforms (Suc n) tabs msg m)"
    unfolding conforms_def by (metis msg_conforms.simps(1) not0_implies_Suc)
  also have "\<dots> \<longleftrightarrow> body_conforms (\<lambda>m l. \<forall>n. msg_conforms n tabs m l) tabs msg m"
    by (simp add: body_conforms_all)
  finally show ?thesis by (simp add: conforms_def[abs_def])
qed

end
