(* ===== verification/Layout_Conforms.thy ===== *)
theory Layout_Conforms
  imports Message_Decoder Message_Conforms
begin

text \<open>
  Layouts the parser may be given, and what its writes to a message keep: a message that conforms to
  such a layout still does after a value of the field's type is stored in one of its fields or
  extensions. \<open>grows\<close> says that a sub-message that is present stays present.
\<close>

subsection \<open>Well-formed layouts\<close>

definition rep_of :: "upb_MiniTableField \<Rightarrow> upb_FieldRep" where
  "rep_of f =
     (if \<not> upb_MiniTableField_IsScalar f then kUpb_FieldRep_8Byte
      else if wire_class (descriptortype f) = ClassString then kUpb_FieldRep_StringView
      else if scalar_width (descriptortype f) = 1 then kUpb_FieldRep_1Byte
      else if scalar_width (descriptortype f) = 4 then kUpb_FieldRep_4Byte else kUpb_FieldRep_8Byte)"

text \<open>
  The entry layout of a map field has a key and a value field, neither in a oneof; the key is a
  scalar the map sorter can compare and a message value is linked.
\<close>

definition map_entry_ok :: "upb_MiniTable list \<Rightarrow> upb_MiniTable \<Rightarrow> bool" where
  "map_entry_ok tabs l \<longleftrightarrow>
     length (mt_fields l) = 2 \<and>
     (\<forall>f \<in> set (mt_fields l). upb_MiniTableField_IsScalar f \<and> 0 \<le> presence f) \<and>
     wire_class (descriptortype (mt_fields l ! 0)) \<notin> {ClassGroup, ClassMessage} \<and>
     (wire_class (descriptortype (mt_fields l ! 0)) = ClassString \<longrightarrow>
        compar (descriptortype (mt_fields l ! 0)) \<noteq> None) \<and>
     (upb_MiniTableField_IsSubMessage (mt_fields l ! 1) \<longrightarrow> linked tabs (mt_fields l ! 1) \<noteq> None)"

definition field_ok :: "upb_MiniTable list \<Rightarrow> upb_MiniTableField \<Rightarrow> bool" where
  "field_ok tabs f \<longleftrightarrow>
     upb_MiniTableField_Mode f \<noteq> None \<and>
     wire_class (descriptortype f) \<noteq> ClassNone \<and>
     upb_MiniTableField_GetRep f = rep_of f \<and>
     (descriptortype f = kUpb_FieldType_Enum \<longrightarrow>
        (case submsg f of SubEnum en \<Rightarrow> enum_wf en | _ \<Rightarrow> False)) \<and>
     (upb_MiniTableField_IsSubMessage f \<longrightarrow>
        (case submsg f of SubMsg (Some i) \<Rightarrow> i < length tabs | SubMsg None \<Rightarrow> True | _ \<Rightarrow> False)) \<and>
     (presence f < 0 \<longrightarrow> upb_MiniTableField_IsScalar f) \<and>
     (upb_MiniTableField_IsMap f \<longrightarrow>
        descriptortype f = kUpb_FieldType_Message \<and> \<not> upb_MiniTableField_IsAlternate f \<and>
        (case linked tabs f of None \<Rightarrow> False | Some l \<Rightarrow> map_entry_ok tabs l))"

text \<open>Two fields share memory only within a oneof, and the unlinked members of a oneof come together.\<close>

definition fields_ok :: "upb_MiniTable list \<Rightarrow> upb_MiniTable \<Rightarrow> bool" where
  "fields_ok tabs m \<longleftrightarrow>
     table_wf m \<and>
     (\<forall>f \<in> set (mt_fields m). field_ok tabs f) \<and>
     (\<forall>f \<in> set (mt_fields m). \<forall>g \<in> set (mt_fields m).
        f \<noteq> g \<longrightarrow> offset f \<noteq> offset g \<or> (presence f < 0 \<and> presence f = presence g)) \<and>
     (\<forall>f \<in> set (mt_fields m). \<forall>g \<in> set (mt_fields m).
        presence f < 0 \<and> presence f = presence g \<and> upb_MiniTableField_IsSubMessage f \<and>
        submsg f = SubMsg None \<longrightarrow> upb_MiniTableField_IsSubMessage g \<and> submsg g = SubMsg None)"

definition table_ok :: "upb_MiniTable list \<Rightarrow> upb_MiniTable \<Rightarrow> bool" where
  "table_ok tabs m \<longleftrightarrow>
     fields_ok tabs m \<and> (\<forall>f \<in> set (mt_fields m). \<not> upb_MiniTableField_IsExtension f)"

definition layouts_ok :: "upb_MiniTable list \<Rightarrow> bool" where
  "layouts_ok tabs \<longleftrightarrow> (\<forall>m \<in> set tabs. table_ok tabs m)"

text \<open>An extension is laid out alone; those of a message set are sub-messages.\<close>

definition ext_field_ok :: "upb_MiniTable list \<Rightarrow> upb_ExtMode \<Rightarrow> upb_MiniTableField \<Rightarrow> bool" where
  "ext_field_ok tabs x f \<longleftrightarrow>
     field_ok tabs f \<and> upb_MiniTableField_IsExtension f \<and> offset f = 0 \<and> presence f = 0 \<and>
     \<not> upb_MiniTableField_IsMap f \<and> (upb_MiniTableField_IsSubMessage f \<longrightarrow> linked tabs f \<noteq> None) \<and>
     (x = kUpb_ExtMode_IsMessageSet \<longrightarrow>
        upb_MiniTableField_IsScalar f \<and> descriptortype f = kUpb_FieldType_Message)"

definition registry_ok :: "upb_MiniTable list \<Rightarrow> extension_registry option \<Rightarrow> bool" where
  "registry_ok tabs reg \<longleftrightarrow>
     (\<forall>r t num f. reg = Some r \<and> r t num = Some f \<longrightarrow> ext_field_ok tabs (ext t) f)"

lemma fields_okD:
  assumes "fields_ok tabs m"
  shows "table_wf m" "f \<in> set (mt_fields m) \<Longrightarrow> field_ok tabs f"
    "f \<in> set (mt_fields m) \<Longrightarrow> g \<in> set (mt_fields m) \<Longrightarrow> f \<noteq> g \<Longrightarrow> offset f = offset g \<Longrightarrow>
       presence f < 0 \<and> presence f = presence g"
    "f \<in> set (mt_fields m) \<Longrightarrow> g \<in> set (mt_fields m) \<Longrightarrow> presence f < 0 \<Longrightarrow> presence f = presence g \<Longrightarrow>
       upb_MiniTableField_IsSubMessage f \<Longrightarrow> submsg f = SubMsg None \<Longrightarrow>
       upb_MiniTableField_IsSubMessage g \<and> submsg g = SubMsg None"
  using assms unfolding fields_ok_def by blast+

lemma field_distinct:
  assumes "table_wf m" "f \<in> set (mt_fields m)" "g \<in> set (mt_fields m)" "f \<noteq> g"
  shows "number f \<noteq> number g"
  using assms
  by (auto simp: table_wf_def in_set_conv_nth sorted_wrt_iff_nth_less)
    (metis linorder_neqE_nat order_less_irrefl)

lemma linked_in_tabs: "linked tabs f = Some l \<Longrightarrow> l \<in> set tabs"
  by (auto simp: linked_def split: mini_sub.splits option.splits if_splits)

lemma linked_table_Some: "linked tabs f = Some l \<Longrightarrow> linked_table tabs f = Inr l"
  by (auto simp: linked_def linked_table_def sub_table_def split: mini_sub.splits option.splits if_splits)

lemma sub_table_eq:
  "field_ok tabs f \<Longrightarrow> upb_MiniTableField_IsSubMessage f \<Longrightarrow> sub_table tabs f = Inr (linked tabs f)"
  by (auto simp: field_ok_def linked_def sub_table_def split: mini_sub.splits option.splits)

lemma IsSubMessage_class:
  "upb_MiniTableField_IsSubMessage f \<longleftrightarrow> wire_class (descriptortype f) \<in> {ClassGroup, ClassMessage}"
  by (auto simp: upb_MiniTableField_IsSubMessage_def wire_class_def split: upb_FieldType.split)

subsection \<open>Cells of the right type\<close>

text \<open>In a well-formed layout a cell of the field's type also has the field's representation.\<close>

lemma scalar_width_cases: "scalar_width t = 1 \<or> scalar_width t = 4 \<or> scalar_width t = 8"
  by (cases t) (simp_all add: scalar_width_def)

lemma class_width:
  "wire_class t = ClassFixed32 \<Longrightarrow> scalar_width t = 4" "wire_class t = ClassFixed64 \<Longrightarrow> scalar_width t = 8"
  "wire_class t \<in> {ClassGroup, ClassMessage} \<Longrightarrow> scalar_width t = 8"
  by (cases t; simp add: wire_class_def scalar_width_def)+

lemma rep_of_conforms:
  assumes "field_ok tabs f" "field_conforms chk tabs f c"
  shows "rep_conforms f c"
proof (cases "upb_MiniTableField_IsScalar f")
  case True
  then show ?thesis
    using assms class_width[of "descriptortype f"]
    by (auto simp: field_ok_def rep_of_def rep_conforms_def field_conforms_def element_conforms_def
        upb_MiniTableField_IsScalar_def split: option.splits upb_Cell.splits)
next
  case False
  then show ?thesis
    using assms
    by (auto simp: field_ok_def rep_of_def rep_conforms_def field_conforms_def
        upb_MiniTableField_IsScalar_def split: option.splits upb_Cell.splits upb_FieldMode.splits)
qed

lemma scalar_conforms:
  assumes "field_ok tabs f" "upb_MiniTableField_IsScalar f" "element_conforms chk tabs f c"
  shows "field_conforms chk tabs f (Some c)"
  using assms
  by (auto simp: field_conforms_def field_ok_def upb_MiniTableField_IsScalar_def element_conforms_def
      split: upb_Cell.splits option.splits)

text \<open>The zero of a scalar type is a value of the type, but for the NULL of a sub-message.\<close>

lemma zero_scalar_element:
  assumes "wire_class t \<notin> {ClassNone, ClassGroup, ClassMessage}" "descriptortype f = t"
  shows "element_conforms chk tabs f (zero_cell (Some kUpb_FieldMode_Scalar) t)"
  using assms(1) unfolding element_conforms_def assms(2)
  by (cases t) (simp_all add: zero_cell_def wire_class_def scalar_width_def)

lemma zero_message_cell:
  "wire_class t \<in> {ClassGroup, ClassMessage} \<Longrightarrow> zero_cell (Some kUpb_FieldMode_Scalar) t = CellMsg None"
  by (cases t) (simp_all add: zero_cell_def wire_class_def)

lemma zero_cell_conforms:
  assumes "field_ok tabs f" "\<not> upb_MiniTableField_IsMap f"
  shows "field_conforms chk tabs f (Some (zero_cell (upb_MiniTableField_Mode f) (descriptortype f)))"
proof -
  have f: "wire_class (descriptortype f) \<noteq> ClassNone" "upb_MiniTableField_Mode f \<noteq> None"
    using assms(1) by (auto simp: field_ok_def)
  consider "upb_MiniTableField_Mode f = Some kUpb_FieldMode_Array"
    | "upb_MiniTableField_Mode f = Some kUpb_FieldMode_Scalar"
    using f(2) assms(2) unfolding upb_MiniTableField_IsMap_def by (metis option.exhaust upb_FieldMode.exhaust)
  then show ?thesis
  proof cases
    case 2
    then have sc: "upb_MiniTableField_IsScalar f" by (simp add: upb_MiniTableField_IsScalar_def)
    show ?thesis
    proof (cases "wire_class (descriptortype f) \<in> {ClassGroup, ClassMessage}")
      case True
      with 2 f zero_message_cell[OF True] show ?thesis by (simp add: field_conforms_def)
    next
      case False
      with f(1) 2 scalar_conforms[OF assms(1) sc zero_scalar_element] show ?thesis by simp
    qed
  qed (simp add: zero_cell_def field_conforms_def)
qed

lemma none_conforms: "field_ok tabs f \<Longrightarrow> field_conforms chk tabs f None"
  unfolding field_conforms_def field_ok_def upb_MiniTableField_IsMap_def map_entry_ok_def
  by (cases "upb_MiniTableField_Mode f"; cases "linked tabs f")
    (simp_all split: upb_FieldMode.split)

lemma empty_conforms:
  assumes "fields_ok tabs m"
  shows "conforms tabs empty_msg m"
proof (subst conforms_unfold, unfold body_conforms_def, intro conjI ballI impI)
  fix f assume "f \<in> set (mt_fields m)"
  then have f: "field_ok tabs f" using assms by (simp add: fields_ok_def)
  have c: "cell_at empty_msg f = None" by (simp add: empty_msg_def cell_at_def)
  show "rep_conforms f (cell_at empty_msg f)" by (simp add: c rep_conforms_def)
  show "field_conforms (conforms tabs) tabs f (cell_at empty_msg f)" using f by (simp add: c none_conforms)
qed (simp add: empty_msg_def)

subsection \<open>Storing a value\<close>

lemma map_of_filter_key: "map_of (filter (\<lambda>(k, _). k \<noteq> a) xs) b = (if b = a then None else map_of xs b)"
  by (induction xs) auto

lemma offset_eq: "unat (offset f) = unat (offset g) \<longleftrightarrow> offset f = offset g"
  by (simp add: word_eq_iff_unsigned[where 'a = nat])

lemma cell_put [simp]:
  "cell_at (put_cell msg f c) g = (if offset g = offset f then Some c else cell_at msg g)"
  by (auto simp: cell_at_def put_cell_def map_of_filter_key offset_eq)

lemma put_cell_parts [simp]:
  "msg_hasbits (put_cell msg f c) = msg_hasbits msg" "msg_oneofs (put_cell msg f c) = msg_oneofs msg"
  "msg_unknown (put_cell msg f c) = msg_unknown msg" "msg_exts (put_cell msg f c) = msg_exts msg"
  "upb_Message_GetOneofCase (put_cell msg f c) g = upb_Message_GetOneofCase msg g"
  by (simp_all add: put_cell_def upb_Message_GetOneofCase_def)

lemma clear_cell_parts [simp]:
  "msg_unknown (clear_cell msg f) = msg_unknown msg" "msg_exts (clear_cell msg f) = msg_exts msg"
  "upb_Message_GetOneofCase (clear_cell msg f) g = upb_Message_GetOneofCase msg g"
  "cell_at (clear_cell msg f) g = (if offset g = offset f then None else cell_at msg g)"
  by (auto simp: clear_cell_def upb_Message_GetOneofCase_def cell_at_def map_of_filter_key offset_eq)

lemma SetHasbit_parts [simp]:
  "msg_unknown (upb_Message_SetHasbit msg f) = msg_unknown msg"
  "msg_exts (upb_Message_SetHasbit msg f) = msg_exts msg"
  "upb_Message_GetOneofCase (upb_Message_SetHasbit msg f) g = upb_Message_GetOneofCase msg g"
  "cell_at (upb_Message_SetHasbit msg f) g = cell_at msg g"
  by (simp_all add: upb_Message_SetHasbit_def upb_Message_GetOneofCase_def cell_at_def)

lemma SetOneofCase_parts [simp]:
  "msg_unknown (upb_Message_SetOneofCase msg f) = msg_unknown msg"
  "msg_exts (upb_Message_SetOneofCase msg f) = msg_exts msg"
  "cell_at (upb_Message_SetOneofCase msg f) g = cell_at msg g"
  "upb_Message_GetOneofCase (upb_Message_SetOneofCase msg f) g =
     (if upb_MiniTableField_OneofOffset g = upb_MiniTableField_OneofOffset f then number f
      else upb_Message_GetOneofCase msg g)"
  by (simp_all add: upb_Message_SetOneofCase_def upb_Message_GetOneofCase_def cell_at_def map_of_filter_key)

lemma AddUnknown_parts [simp]:
  "msg_exts (upb_Message_AddUnknown msg u) = msg_exts msg" "cell_at (upb_Message_AddUnknown msg u) g = cell_at msg g"
  "upb_Message_GetOneofCase (upb_Message_AddUnknown msg u) g = upb_Message_GetOneofCase msg g"
  "msg_unknown (upb_Message_AddUnknown msg u) = msg_unknown msg @ u"
  by (simp_all add: upb_Message_AddUnknown_def upb_Message_GetOneofCase_def cell_at_def)

lemma OneofOffset_eq:
  "presence f < 0 \<Longrightarrow> presence g < 0 \<Longrightarrow>
   upb_MiniTableField_OneofOffset g = upb_MiniTableField_OneofOffset f \<longleftrightarrow> presence g = presence f"
  by (auto simp: upb_MiniTableField_OneofOffset_def)

text \<open>The presence bits after a store: those of other fields keep their meaning.\<close>

lemma set_presence_parts:
  "msg_unknown (set_presence msg f op) = msg_unknown msg"
  "msg_exts (set_presence msg f op) = msg_exts msg"
  "offset g \<noteq> offset f \<Longrightarrow> cell_at (set_presence msg f op) g = cell_at msg g"
  "presence f < 0 \<Longrightarrow> upb_Message_GetOneofCase (set_presence msg f op) f = number f"
  "presence f < 0 \<Longrightarrow> presence g = presence f \<Longrightarrow>
     upb_Message_GetOneofCase (set_presence msg f op) g = number f"
  "presence g < 0 \<Longrightarrow> presence g \<noteq> presence f \<Longrightarrow>
     upb_Message_GetOneofCase (set_presence msg f op) g = upb_Message_GetOneofCase msg g"
  using OneofOffset_eq[of f g]
  by (auto simp: set_presence_def upb_MiniTableField_HasHasbit_def upb_MiniTableField_IsInOneof_def
      upb_MiniTableField_OneofOffset_def)

text \<open>Storing a cell of the right type in a field, with its presence set or without.\<close>

lemma conforms_store:
  assumes m: "fields_ok tabs m" "f \<in> set (mt_fields m)" and c: "conforms tabs msg m"
    and new: "field_conforms (conforms tabs) tabs f (Some x)"
    and msg': "msg_exts msg' = msg_exts msg" "cell_at msg' f = Some x"
      "\<And>g. offset g \<noteq> offset f \<Longrightarrow> cell_at msg' g = cell_at msg g"
      "\<And>g. presence g < 0 \<Longrightarrow> presence g \<noteq> presence f \<Longrightarrow>
         upb_Message_GetOneofCase msg' g = upb_Message_GetOneofCase msg g"
      "\<And>g. presence f < 0 \<Longrightarrow> presence g = presence f \<Longrightarrow> upb_Message_GetOneofCase msg' g = number f"
  shows "conforms tabs msg' m"
proof -
  have old: "body_conforms (conforms tabs) tabs msg m" using c by (simp add: conforms_unfold[symmetric])
  have "(presence g = 0 \<longrightarrow> rep_conforms g (cell_at msg' g)) \<and>
      (field_active msg' g \<longrightarrow> field_conforms (conforms tabs) tabs g (cell_at msg' g))"
    if g: "g \<in> set (mt_fields m)" for g
  proof (cases "g = f")
    case True
    have "field_ok tabs f" using fields_okD(2)[OF m] .
    then show ?thesis using True msg'(2) new rep_of_conforms[OF _ new] by simp
  next
    case False
    have num: "number g \<noteq> number f" using field_distinct[OF fields_okD(1)[OF m(1)] g m(2) False] .
    show ?thesis
    proof (cases "presence f < 0 \<and> presence g = presence f")
      case True
      then have "\<not> field_active msg' g" using msg'(5)[of g] num by (simp add: field_active_def)
      with True show ?thesis by simp
    next
      case nosib: False
      then have "offset g \<noteq> offset f" using fields_okD(3)[OF m(1) g m(2) False] by auto
      moreover have "field_active msg' g = field_active msg g"
        using nosib msg'(4)[of g] by (cases "presence g < 0") (auto simp: field_active_def)
      moreover have "presence g = 0 \<longrightarrow> rep_conforms g (cell_at msg g)"
        "field_active msg g \<longrightarrow> field_conforms (conforms tabs) tabs g (cell_at msg g)"
        using old g unfolding body_conforms_def by blast+
      ultimately show ?thesis using msg'(3)[of g] by presburger
    qed
  qed
  then show ?thesis
    using old msg'(1) by (subst conforms_unfold) (simp add: body_conforms_def)
qed

lemma conforms_put_cell:
  assumes "fields_ok tabs m" "f \<in> set (mt_fields m)" "conforms tabs msg m" "0 \<le> presence f"
    and "field_conforms (conforms tabs) tabs f (Some x)"
  shows "conforms tabs (put_cell msg f x) m"
  using assms by (intro conforms_store[OF assms(1-3,5)]) auto

lemma conforms_put_present:
  assumes "fields_ok tabs m" "f \<in> set (mt_fields m)" "conforms tabs msg m"
    and "field_conforms (conforms tabs) tabs f (Some x)"
  shows "conforms tabs (put_cell (set_presence msg f op) f x) m"
  using assms set_presence_parts[where msg = msg and f = f and op = op]
  by (intro conforms_store[OF assms(1-4)]) auto

lemma conforms_AddUnknown:
  "conforms tabs msg m \<Longrightarrow> conforms tabs (upb_Message_AddUnknown msg u) m"
  by (subst (asm) conforms_unfold, subst conforms_unfold) (simp add: body_conforms_def field_active_def)

lemma conforms_field:
  "conforms tabs msg m \<Longrightarrow> f \<in> set (mt_fields m) \<Longrightarrow> field_active msg f \<Longrightarrow>
   field_conforms (conforms tabs) tabs f (cell_at msg f)"
  by (subst (asm) conforms_unfold) (simp add: body_conforms_def)

subsection \<open>Extensions\<close>

lemma put_ext_parts [simp]:
  "cell_at (put_ext msg e c) g = cell_at msg g" "msg_unknown (put_ext msg e c) = msg_unknown msg"
  "upb_Message_GetOneofCase (put_ext msg e c) g = upb_Message_GetOneofCase msg g"
  by (simp_all add: put_ext_def cell_at_def upb_Message_GetOneofCase_def)

text \<open>
  A new extension of a message set is NULL until its value is stored, so the message conforms again
  only after that.
\<close>

definition ext_slot ::
    "upb_MiniTable list \<Rightarrow> upb_MiniTable \<Rightarrow> upb_MiniTableField \<Rightarrow> upb_Message \<Rightarrow> bool" where
  "ext_slot tabs m e msg \<longleftrightarrow>
     (\<forall>c. ext_conforms (conforms tabs) tabs (ext m = kUpb_ExtMode_IsMessageSet) (e, c) \<longrightarrow>
        conforms tabs (put_ext msg e c) m)"

lemma body_conforms_exts:
  assumes "body_conforms chk tabs msg m" "\<And>g. cell_at msg' g = cell_at msg g"
    "\<And>g. upb_Message_GetOneofCase msg' g = upb_Message_GetOneofCase msg g"
    "\<And>x. x \<in> set (msg_exts msg') \<Longrightarrow> ext_conforms chk tabs (ext m = kUpb_ExtMode_IsMessageSet) x"
  shows "body_conforms chk tabs msg' m"
  using assms by (simp add: body_conforms_def field_active_def)

lemma set_put_ext:
  "x \<in> set (msg_exts (put_ext msg e c)) \<Longrightarrow> x = (e, c) \<or> (x \<in> set (msg_exts msg) \<and> fst x \<noteq> e)"
  by (auto simp: put_ext_def split: if_splits)

lemma GetOrCreateExtension_post:
  assumes c: "conforms tabs msg m" and e: "ext_field_ok tabs (ext m) e"
  shows "case upb_Message_GetOrCreateExtension d msg e of
      Inl f \<Rightarrow> f = Thrown OutOfMemory
    | Inr (c, msg', d') \<Rightarrow> (d' = d \<or> d' = next_mem d) \<and> field_conforms (conforms tabs) tabs e (Some c) \<and>
        ext_slot tabs m e msg' \<and> (\<forall>g. cell_at msg' g = cell_at msg g)"
proof -
  let ?MS = "ext m = kUpb_ExtMode_IsMessageSet"
  have old: "body_conforms (conforms tabs) tabs msg m" using c by (simp add: conforms_unfold[symmetric])
  have ok: "field_ok tabs e" "\<not> upb_MiniTableField_IsMap e" using e by (auto simp: ext_field_ok_def)
  have slot: "ext_slot tabs m e msg'"
    if "\<And>g. cell_at msg' g = cell_at msg g"
      "\<And>g. upb_Message_GetOneofCase msg' g = upb_Message_GetOneofCase msg g"
      "\<And>x. x \<in> set (msg_exts msg') \<Longrightarrow> fst x \<noteq> e \<Longrightarrow> x \<in> set (msg_exts msg)" for msg'
    unfolding ext_slot_def
  proof (intro allI impI)
    fix c assume x: "ext_conforms (conforms tabs) tabs ?MS (e, c)"
    have "body_conforms (conforms tabs) tabs (put_ext msg' e c) m"
    proof (rule body_conforms_exts[OF old])
      fix x assume "x \<in> set (msg_exts (put_ext msg' e c))"
      then show "ext_conforms (conforms tabs) tabs ?MS x"
        using set_put_ext[of x msg' e c] that(3)[of x] x old unfolding body_conforms_def by blast
    qed (use that in simp_all)
    then show "conforms tabs (put_ext msg' e c) m" by (simp add: conforms_unfold[symmetric])
  qed
  show ?thesis
  proof (cases "upb_Message_Getext msg e")
    case (Some c)
    then have "(e, c) \<in> set (msg_exts msg)"
      unfolding upb_Message_Getext_def by (rule map_of_SomeD)
    then have x: "ext_conforms (conforms tabs) tabs ?MS (e, c)" using old unfolding body_conforms_def by blast
    have "field_conforms (conforms tabs) tabs e (Some c)"
    proof (cases ?MS)
      case True
      with x obtain s l where "c = CellMsg (Some s)" "linked tabs e = Some l" "conforms tabs s l"
        by (auto simp: ext_conforms_def split: upb_Cell.splits option.splits)
      with True e show ?thesis
        by (intro scalar_conforms) (auto simp: ext_field_ok_def element_conforms_def wire_class_def)
    qed (use x in \<open>simp add: ext_conforms_def\<close>)
    then show ?thesis using Some slot[of msg] by (simp add: upb_Message_GetOrCreateExtension_def)
  next
    case None
    let ?c = "zero_cell (upb_MiniTableField_Mode e) (descriptortype e)"
    let ?msg = "Message (msg_cells msg) (msg_hasbits msg) (msg_oneofs msg) (msg_unknown msg)
      (msg_exts msg @ [(e, ?c)])"
    have "cell_at ?msg g = cell_at msg g" for g by (simp add: cell_at_def)
    moreover have "ext_slot tabs m e ?msg"
      by (rule slot) (auto simp: cell_at_def upb_Message_GetOneofCase_def)
    ultimately show ?thesis
      using None zero_cell_conforms[OF ok]
      by (simp add: upb_Message_GetOrCreateExtension_def need_mem_def Let_def)
  qed
qed

subsection \<open>Maps\<close>

lemma array_entries_update:
  "set (array_entries ks i (cs[j := Some v])) \<subseteq>
   insert (key_cell ks (KeyNum (of_nat (i + j))), v) (set (array_entries ks i cs))"
proof (induction ks i cs arbitrary: j rule: array_entries.induct)
  case (2 ks i cs)
  then show ?case
    using "2"[of "j - 1"] by (cases j) (simp_all del: of_nat_add of_nat_Suc)
next
  case (3 ks i w cs)
  then show ?case
    using "3"[of "j - 1"] by (cases j) (auto simp del: of_nat_add of_nat_Suc)
qed simp

lemma map_put_entries:
  "set (array_entries (key_size m) 0 (map_array (map_put m k v)) @
        table_entries (key_size m) (map_table (map_put m k v))) \<subseteq>
   insert (key_cell (key_size m) k, v)
     (set (array_entries (key_size m) 0 (map_array m) @ table_entries (key_size m) (map_table m)))"
proof (cases k)
  case (KeyNum w)
  then show ?thesis
    using array_entries_update[of "key_size m" 0 "map_array m" "unat w" v]
    by (auto simp: map_put_def table_entries_def)
qed (auto simp: map_put_def table_entries_def)

lemma map_put_parts [simp]:
  "key_size (map_put m k v) = key_size m" "is_strtable (map_put m k v) = is_strtable m"
  by (auto simp: map_put_def split: upb_tabkey.split)

lemma map_put_conforms:
  assumes "map_conforms chk tabs l m"
    and "element_conforms chk tabs (mt_fields l ! 0) (key_cell (key_size m) k)"
    and "element_conforms chk tabs (mt_fields l ! 1) v"
  shows "map_conforms chk tabs l (map_put m k v)"
  using assms map_put_entries[of m k v] unfolding map_conforms_def by fastforce

text \<open>The key of an entry, read at the width of the map, is of the key field's type.\<close>

lemma tokey_ok:
  assumes "wire_class (descriptortype kf) \<notin> {ClassNone, ClassGroup, ClassMessage}"
    and "case c of None \<Rightarrow> True | Some x \<Rightarrow> element_conforms chk tabs kf x"
  shows "\<exists>k. upb_map_tokey (key_width (descriptortype kf)) c = Inr k \<and>
    element_conforms chk tabs kf (key_cell (key_width (descriptortype kf)) k) \<and>
    (case k of KeyStr _ \<Rightarrow> True | _ \<Rightarrow> False) = (key_width (descriptortype kf) = 0)"
proof (cases "wire_class (descriptortype kf) = ClassString")
  case True
  then show ?thesis
    using assms(2)
    by (auto simp: upb_map_tokey_def key_width_def load_str_def key_cell_def element_conforms_def
        split: option.splits upb_Cell.splits)
next
  case False
  have "scalar_width (descriptortype kf) = 1 \<or> scalar_width (descriptortype kf) = 4 \<or>
      scalar_width (descriptortype kf) = 8" by (rule scalar_width_cases)
  then show ?thesis
    using assms False class_width[of "descriptortype kf"]
    by (elim disjE; cases "wire_class (descriptortype kf)")
      (auto simp: upb_map_tokey_def key_width_def load1_def load4_def load8_def key_cell_def
        element_conforms_def split: option.splits upb_Cell.splits)
qed

lemma new_map_conforms:
  assumes "map_entry_ok tabs l" "wire_class (descriptortype (mt_fields l ! 0)) \<noteq> ClassNone"
  shows "map_conforms chk tabs l (upb_Map_New (key_width (descriptortype (mt_fields l ! 0))) vs)"
  using assms scalar_width_cases[of "descriptortype (mt_fields l ! 0)"]
  by (auto simp: map_conforms_def upb_Map_New_def key_width_def map_entry_ok_def table_entries_def)

lemma kSizeInMap_eq:
  "wire_class t \<noteq> ClassNone \<Longrightarrow> kSizeInMap t = Inr (if wire_class t = ClassString then 0 else scalar_width t)"
  by (cases t) (simp_all add: kSizeInMap_def wire_class_def scalar_width_def)

subsection \<open>Sub-messages stay present\<close>

definition has_sub :: "upb_Message \<Rightarrow> upb_MiniTableField \<Rightarrow> bool" where
  "has_sub msg f \<longleftrightarrow> (\<exists>s. cell_at msg f = Some (CellMsg (Some s)))"

definition grows :: "upb_MiniTable \<Rightarrow> upb_Message \<Rightarrow> upb_Message \<Rightarrow> bool" where
  "grows m msg msg' \<longleftrightarrow>
     (\<forall>f \<in> set (mt_fields m). 0 \<le> presence f \<and> has_sub msg f \<longrightarrow> has_sub msg' f)"

lemma grows_refl [simp]: "grows m msg msg"
  by (simp add: grows_def)

lemma grows_trans: "grows m a b \<Longrightarrow> grows m b c \<Longrightarrow> grows m a c"
  by (auto simp: grows_def)

lemma grows_same: "(\<And>g. cell_at msg' g = cell_at msg g) \<Longrightarrow> grows m msg msg'"
  by (simp add: grows_def has_sub_def)

lemma grows_put:
  assumes "fields_ok tabs m" "f \<in> set (mt_fields m)"
    and "\<And>g. offset g \<noteq> offset f \<Longrightarrow> cell_at msg' g = cell_at msg g"
    and "0 \<le> presence f \<Longrightarrow> has_sub msg f \<Longrightarrow> has_sub msg' f"
  shows "grows m msg msg'"
  unfolding grows_def
proof (intro ballI impI)
  fix g assume g: "g \<in> set (mt_fields m)" "0 \<le> presence g \<and> has_sub msg g"
  show "has_sub msg' g"
  proof (cases "g = f")
    case False
    then have "offset g \<noteq> offset f" using fields_okD(3)[OF assms(1) g(1) assms(2)] g(2) by auto
    with assms(3) g show ?thesis by (simp add: has_sub_def)
  qed (use assms(4) g in simp)
qed

end
