(* ===== verification/Encoder_Refinement.thy ===== *)
theory Encoder_Refinement
  imports Encoder_Spec
begin

text \<open>
  The encoder of \<open>upb/wire/encode.c\<close> writes exactly the bytes of the reference serialiser. The
  contract between \<open>encode_message\<close> and the functions below it, which call it back for
  sub-messages, is the locale \<open>msg_writer\<close>; it is interpreted on \<open>encode_message\<close> itself.
\<close>

subsection \<open>Composition of steps\<close>

lemma then_out_nil: "then_out (Inr []) k = k []"
  by (cases "k []") simp_all

lemma encode_each_append:
  "encode_each f (xs @ ys) ptr e = bindE (encode_each f xs ptr e) (\<lambda>(ptr, e). encode_each f ys ptr e)"
  by (induction xs arbitrary: ptr e) (auto simp: bindE_assoc intro!: bindE_cong split: prod.split)

lemma encode_each_emits:
  assumes ok: "enc_ok ptr e"
    and step: "\<And>x ptr' e'. x \<in> set xs \<Longrightarrow> enc_ok ptr' e' \<Longrightarrow> enc_frame e e' \<Longrightarrow>
      step_emits ptr' e' (f x ptr' e') (g x)"
  shows "step_emits ptr e (encode_each f (rev xs) ptr e) (out_each g xs)"
  using assms(2)
proof (induction xs)
  case Nil
  then show ?case using ok by (simp add: step_emits_return)
next
  case (Cons x xs)
  have one: "step_emits p' e' (encode_each f [x] p' e') (g x)"
    if "enc_ok p' e'" "enc_frame e e'" for p' e'
  proof -
    have "encode_each f [x] p' e' = f x p' e'"
      by (cases "f x p' e'") auto
    then show ?thesis using Cons.prems that by simp
  qed
  have IH: "step_emits ptr e (encode_each f (rev xs) ptr e) (out_each g xs)"
    using Cons by simp
  show ?case
    unfolding rev.simps(2) encode_each_append out_each.simps
    by (rule step_emits_bind[OF IH]) (use one in auto)
qed

text \<open>A step that also returns how many bytes it wrote.\<close>

definition msg_emits :: "nat \<Rightarrow> upb_encstate \<Rightarrow> (nat \<times> upb_encstate \<times> nat) res \<Rightarrow> out \<Rightarrow> bool" where
  "msg_emits ptr e r out \<longleftrightarrow>
     step_emits ptr e (bindE r (\<lambda>(p, e', sz). Inr (p, e'))) out \<and>
     (\<forall>p e' sz. r = Inr (p, e', sz) \<longrightarrow> sz = length (written p e') - length (written ptr e))"

lemma msg_emits_bind:
  assumes f: "msg_emits ptr e r out"
    and g: "\<And>p e' bs. out = Inr bs \<Longrightarrow> enc_ok p e' \<Longrightarrow> enc_frame e e' \<Longrightarrow>
      written p e' = bs @ written ptr e \<Longrightarrow> length bs \<le> SIZE_MAX \<Longrightarrow>
      step_emits p e' (k (p, e', length bs)) (out' bs)"
  shows "step_emits ptr e (bindE r k) (then_out out out')"
proof (cases r)
  case (Inl x)
  with f show ?thesis
    by (cases out)
      (auto simp: msg_emits_def step_emits_def oom_excused_def bindE_def split: sum.splits)
next
  case (Inr s)
  obtain p e' sz where s: "s = (p, e', sz)" by (metis prod_cases3)
  let ?r = "Inr (p, e') :: enc" and ?k = "\<lambda>(p, e'). k (p, e', sz)"
  have st: "step_emits ptr e ?r out" and sz: "sz = length (written p e') - length (written ptr e)"
    using f Inr s by (auto simp: msg_emits_def)
  have "step_emits ptr e (bindE ?r ?k) (then_out out out')"
  proof (rule step_emits_bind[OF st])
    fix p1 e1 bs
    assume a: "?r = Inr (p1, e1)" "out = Inr bs" "enc_ok p1 e1" "enc_frame e e1"
      "written p1 e1 = bs @ written ptr e"
    have l: "length (written p1 e1) = length bs + length (written ptr e)"
      using a(5) by (metis length_append)
    then have "sz = length bs" using sz a(1) by simp
    moreover have "length bs \<le> SIZE_MAX" using l a(3) unfolding enc_ok_def length_drop by linarith
    ultimately show "step_emits p1 e1 ((\<lambda>(p, e'). k (p, e', sz)) (p1, e1)) (out' bs)"
      using g[OF a(2,3,4,5)] by simp
  qed
  then show ?thesis using Inr s by simp
qed

text \<open>The depth counter goes down around a step and back up.\<close>

lemma leave_depth_emits:
  assumes st: "step_emits ptr (e\<lparr>e_depth := e_depth e - 1\<rparr>) r out"
    and g: "\<And>p e' bs. out = Inr bs \<Longrightarrow> enc_ok p e' \<Longrightarrow> enc_frame e e' \<Longrightarrow>
      written p e' = bs @ written ptr e \<Longrightarrow> step_emits p e' (k (p, e')) (out' bs)"
  shows "step_emits ptr e (bindE r (\<lambda>(p, e'). k (p, leave_depth e'))) (then_out out out')"
proof -
  have "step_emits ptr e (bindE r (\<lambda>(p, e'). Inr (p, leave_depth e'))) out"
    using st by (auto simp: step_emits_def enc_ok_def enc_frame_def leave_depth_def oom_excused_def
        split: sum.splits prod.splits)
  from step_emits_bind[OF this, of k out'] g
  show ?thesis by (auto simp: bindE_assoc case_prod_beta')
qed

lemma enter_depth_eq:
  "enter_depth e = bindE (depth_out (e_depth e)) (\<lambda>d. Inr (e\<lparr>e_depth := d\<rparr>))"
  by (simp add: enter_depth_def depth_out_def)

text \<open>
  The writers that do not reserve room: within ten bytes they stay in the buffer, so the room
  below the pointer shrinks by exactly what they wrote.
\<close>

lemma longvarint_keeps:
  assumes "enc_ok ptr e" and "10 \<le> ptr" and "encode_longvarint ptr e val = Inr (p, e')"
  shows "length (e_buf e') = length (e_buf e)"
  using assms varint_bytes_u64[of val]
  by (auto simp: encode_longvarint_def encode_reserve_def buf_memmove_def buf_store_def Let_def
      varint_loop_eq enc_ok_def split: if_splits)

lemma push_byte_keeps: "push_byte ptr e b = Inr (p, e') \<Longrightarrow> length (e_buf e') = length (e_buf e)"
  by (auto simp: push_byte_def buf_store_def bindE_eq_Inr split: if_splits)

lemma unchecked_keeps:
  assumes "enc_ok ptr e" and "10 \<le> ptr"
  shows "encode_varint_unchecked ptr e val = Inr (p, e') \<Longrightarrow> length (e_buf e') = length (e_buf e)"
    and "encode_length_unchecked ptr e val = Inr (p, e') \<Longrightarrow> length (e_buf e') = length (e_buf e)"
  using longvarint_keeps[OF assms] push_byte_keeps
  by (auto simp: encode_varint_unchecked_def encode_length_unchecked_def encode_longlength_def
      split: if_splits)

lemma bytes_unchecked_keeps:
  "encode_bytes_unchecked ptr e data = Inr (p, e') \<Longrightarrow> length (e_buf e') = length (e_buf e)"
  by (auto simp: encode_bytes_unchecked_def buf_store_def bindE_eq_Inr split: if_splits)

lemma room_left:
  assumes "enc_ok ptr e" "enc_ok p e'" "length (e_buf e') = length (e_buf e)"
    and "written p e' = bs @ written ptr e"
  shows "p + length bs = ptr"
proof -
  have "length (written p e') = length bs + length (written ptr e)"
    using assms(4) by (metis length_append)
  then show ?thesis using assms(1-3) by (auto simp: enc_ok_def)
qed

text \<open>The value of a scalar, written below a reservation of 15 bytes, leaves room for the tag.\<close>

lemma scalar_case_emits:
  assumes ok: "enc_ok ptr e"
    and w: "\<And>p e'. enc_ok p e' \<Longrightarrow> 10 \<le> p \<Longrightarrow> step_emits p e' (write p e') (Inr bs)"
    and keeps: "\<And>p e' p2 e2. enc_ok p e' \<Longrightarrow> 10 \<le> p \<Longrightarrow> write p e' = Inr (p2, e2) \<Longrightarrow>
      length (e_buf e2) = length (e_buf e')"
    and len: "length bs \<le> 10"
  shows "step_emits ptr e (scalar_case ptr e f wt write) (Inr (tag_bytes (number f) wt @ bs))"
  unfolding scalar_case_def
proof (rule reserve_then[OF ok])
  fix p e1 assume r: "enc_ok (p + (5 + 10)) e1"
  have "step_emits (p + 15) e1 (bindE (write (p + 15) e1) (\<lambda>(ptr, e).
      encode_tag_unchecked ptr e (number f) wt))
      (then_out (Inr bs) (\<lambda>_. Inr (tag_bytes (number f) wt)))"
  proof (rule step_emits_bind)
    show "step_emits (p + 15) e1 (write (p + 15) e1) (Inr bs)" using r by (intro w) auto
  next
    fix p2 e2 bs'
    assume a: "write (p + 15) e1 = Inr (p2, e2)" "Inr bs = (Inr bs' :: out)" "enc_ok p2 e2"
      "written p2 e2 = bs' @ written (p + 15) e1"
    have "length (e_buf e2) = length (e_buf e1)" using r a(1) by (intro keeps[of "p + 15" e1]) auto
    then have "p2 + length bs = p + 15" using r a by (intro room_left[of _ e1]) auto
    then have "p2 \<noteq> 0" using len by linarith
    then show "step_emits p2 e2 ((\<lambda>(ptr, e). encode_tag_unchecked ptr e (number f) wt) (p2, e2))
        (Inr (tag_bytes (number f) wt))"
      using a(3) by (simp add: tag_unchecked_emits)
  qed
  then show "step_emits (p + (5 + 10)) e1 ((\<lambda>(ptr, e). bindE (write (ptr + 15) e)
      (\<lambda>(ptr, e). encode_tag_unchecked ptr e (number f) wt)) (p, e1))
      (Inr (tag_bytes (number f) wt @ bs))"
    by simp
qed simp

lemma unat_of_nat_64: "n \<le> SIZE_MAX \<Longrightarrow> unat (of_nat n :: u64) = n"
  by (simp add: unat_of_nat SIZE_MAX_def)

lemma length_bytes_le_5: "length_out n = Inr l \<Longrightarrow> length l \<le> 5"
  using varint_bytes_length[of n 5] by (auto simp: length_out_def split: if_splits)

text \<open>The length and the tag in front of a body that was just written.\<close>

lemma delimited_tail_emits:
  assumes ok: "enc_ok ptr e" and n: "n \<le> SIZE_MAX"
  shows "step_emits ptr e
    (bindE (encode_length ptr e (of_nat n)) (\<lambda>(ptr, e). encode_tag ptr e num kUpb_WireType_Delimited))
    (bindE (length_out n) (\<lambda>l. Inr (tag_bytes num kUpb_WireType_Delimited @ l)))"
proof -
  have "step_emits ptr e (encode_length ptr e (of_nat n)) (length_out n)"
    using encode_length_emits[OF ok, of "of_nat n"] n by (simp add: unat_of_nat_64)
  from step_emits_bind[OF this, of "\<lambda>(ptr, e). encode_tag ptr e num kUpb_WireType_Delimited"
      "\<lambda>_. Inr (tag_bytes num kUpb_WireType_Delimited)"]
  show ?thesis by (simp add: encode_tag_emits then_out_def)
qed

lemma delimited_then_out:
  "then_out out (\<lambda>bs. bindE (length_out (length bs)) (\<lambda>l. Inr (tag_bytes num 2 @ l))) =
   bindE out (delimited_out num)"
  by (cases out) (simp_all add: delimited_out_def bindE_assoc)

text \<open>The same with ten bytes reserved first.\<close>

lemma delimited_tail_unchecked_emits:
  assumes ok: "enc_ok (ptr + 10) e" and n: "n \<le> SIZE_MAX"
  shows "step_emits (ptr + 10) e
    (bindE (encode_length_unchecked (ptr + 10) e (of_nat n))
       (\<lambda>(ptr, e). encode_tag_unchecked ptr e num kUpb_WireType_Delimited))
    (bindE (length_out n) (\<lambda>l. Inr (tag_bytes num kUpb_WireType_Delimited @ l)))"
proof -
  have st: "step_emits (ptr + 10) e (encode_length_unchecked (ptr + 10) e (of_nat n)) (length_out n)"
    using length_unchecked_emits[OF ok, of "of_nat n"] n by (simp add: unat_of_nat_64)
  have "step_emits (ptr + 10) e
    (bindE (encode_length_unchecked (ptr + 10) e (of_nat n))
       (\<lambda>(ptr, e). encode_tag_unchecked ptr e num kUpb_WireType_Delimited))
    (then_out (length_out n) (\<lambda>_. Inr (tag_bytes num kUpb_WireType_Delimited)))"
  proof (rule step_emits_bind[OF st])
    fix p2 e2 l
    assume a: "encode_length_unchecked (ptr + 10) e (of_nat n) = Inr (p2, e2)"
      "length_out n = Inr l" "enc_ok p2 e2" "written p2 e2 = l @ written (ptr + 10) e"
    have "length (e_buf e2) = length (e_buf e)" using unchecked_keeps(2)[OF ok _ a(1)] by simp
    then have "p2 + length l = ptr + 10" using ok a by (intro room_left[of _ e]) auto
    then have "p2 \<noteq> 0" using length_bytes_le_5[OF a(2)] by linarith
    then show "step_emits p2 e2 ((\<lambda>(ptr, e). encode_tag_unchecked ptr e num kUpb_WireType_Delimited)
        (p2, e2)) (Inr (tag_bytes num kUpb_WireType_Delimited))"
      using a(3) by (simp add: tag_unchecked_emits)
  qed
  then show ?thesis by (simp add: then_out_def)
qed

lemma string_emits:
  assumes ok: "enc_ok ptr e"
  shows "step_emits ptr e
    (bindE (encode_reserve ptr e (5 + 5 + length view)) (\<lambda>(ptr, e).
     bindE (encode_bytes_unchecked (ptr + (5 + 5 + length view)) e view) (\<lambda>(ptr, e).
     bindE (encode_length_unchecked ptr e (of_nat (length view))) (\<lambda>(ptr, e).
       encode_tag_unchecked ptr e num kUpb_WireType_Delimited)))) (delimited_out num view)"
proof (rule reserve_then[OF ok])
  fix bs assume "delimited_out num view = Inr bs"
  then show "5 + 5 + length view \<le> length bs + 2 ^ 62"
    by (auto simp: delimited_out_def bindE_eq_Inr)
next
  fix p e1 assume r: "enc_ok (p + (5 + 5 + length view)) e1"
  let ?p = "p + (5 + 5 + length view)"
  let ?tail = "\<lambda>(ptr, e). bindE (encode_length_unchecked ptr e (of_nat (length view)))
    (\<lambda>(ptr, e). encode_tag_unchecked ptr e num kUpb_WireType_Delimited)"
  have n: "length view \<le> SIZE_MAX" using r by (simp add: enc_ok_def)
  have "step_emits ?p e1 (bindE (encode_bytes_unchecked ?p e1 view) ?tail)
    (then_out (Inr view)
      (\<lambda>bs. bindE (length_out (length bs)) (\<lambda>l. Inr (tag_bytes num kUpb_WireType_Delimited @ l))))"
  proof (rule step_emits_bind)
    show "step_emits ?p e1 (encode_bytes_unchecked ?p e1 view) (Inr view)"
      using r by (intro bytes_unchecked_emits) auto
  next
    fix p2 e2 bs
    assume a: "encode_bytes_unchecked ?p e1 view = Inr (p2, e2)" "Inr view = (Inr bs :: out)"
      "enc_ok p2 e2" "written p2 e2 = bs @ written ?p e1"
    have "length (e_buf e2) = length (e_buf e1)" using bytes_unchecked_keeps[OF a(1)] .
    then have "p2 + length view = ?p" using r a by (intro room_left[of _ e1]) auto
    then have p2: "p2 = p + 10" by simp
    have "enc_ok (p + 10) e2" using a(3) p2 by simp
    from delimited_tail_unchecked_emits[OF this n, of num]
    show "step_emits p2 e2 (?tail (p2, e2)) (bindE (length_out (length bs))
        (\<lambda>l. Inr (tag_bytes num kUpb_WireType_Delimited @ l)))"
      using a(2) p2 by (simp del: of_nat_add)
  qed
  then show "step_emits ?p e1 ((\<lambda>(ptr, e).
      bindE (encode_bytes_unchecked (ptr + (5 + 5 + length view)) e view) ?tail) (p, e1))
      (delimited_out num view)"
    unfolding delimited_then_out by simp
qed

subsection \<open>The parts of a message\<close>

text \<open>
  What the functions below \<open>encode_message\<close> rely on: it writes the reference bytes of the
  sub-message and reports their number.
\<close>

locale msg_writer =
  fixes rec :: msg_encoder and tabs :: "upb_MiniTable list" and srec :: "u32 \<Rightarrow> msg_out"
  assumes rec_emits:
    "enc_ok ptr e \<Longrightarrow> msg_emits ptr e (rec ptr e msg m) (srec (e_options e) (e_depth e) msg m)"
begin

abbreviation out_rec :: "upb_encstate \<Rightarrow> msg_out" where
  "out_rec e \<equiv> srec (e_options e)"

lemma submsg_delimited:
  assumes ok: "enc_ok ptr e" and f: "wire_class (descriptortype f) = ClassMessage"
  shows "step_emits ptr e
    (bindE (rec ptr e m subm) (\<lambda>(ptr, e, sz).
     bindE (encode_length ptr e (of_nat sz)) (\<lambda>(ptr, e).
       encode_tag ptr e (number f) kUpb_WireType_Delimited)))
    (submsg_out (out_rec e) (e_depth e) f m subm)"
  unfolding submsg_out_def f
  by (simp only: wire_class.distinct if_False delimited_then_out[symmetric])
    (rule msg_emits_bind[OF rec_emits[OF ok]], simp add: delimited_tail_emits)

lemma submsg_group:
  assumes ok: "enc_ok ptr e" and f: "wire_class (descriptortype f) = ClassGroup"
  shows "step_emits ptr e
    (bindE (encode_tag ptr e (number f) kUpb_WireType_EndGroup) (\<lambda>(ptr, e).
     bindE (rec ptr e m subm) (\<lambda>(ptr, e, _).
       encode_tag ptr e (number f) kUpb_WireType_StartGroup)))
    (submsg_out (out_rec e) (e_depth e) f m subm)"
proof -
  let ?last_tag = "tag_bytes (number f) kUpb_WireType_EndGroup"
  let ?first_tag = "tag_bytes (number f) kUpb_WireType_StartGroup"
  have "step_emits ptr e
    (bindE (encode_tag ptr e (number f) kUpb_WireType_EndGroup) (\<lambda>(ptr, e).
     bindE (rec ptr e m subm) (\<lambda>(ptr, e, _).
       encode_tag ptr e (number f) kUpb_WireType_StartGroup)))
    (then_out (Inr ?last_tag) (\<lambda>_. then_out (out_rec e (e_depth e) m subm) (\<lambda>_. Inr ?first_tag)))"
  proof (rule step_emits_bind[OF encode_tag_emits[OF ok]])
    fix p e' bs assume a: "enc_ok p e'" "enc_frame e e'"
    then have "msg_emits p e' (rec p e' m subm) (out_rec e (e_depth e) m subm)"
      using rec_emits[OF a(1), of m subm] by (simp add: enc_frame_def)
    from msg_emits_bind[OF this, of "\<lambda>(ptr, e, _). encode_tag ptr e (number f) kUpb_WireType_StartGroup"
        "\<lambda>_. Inr ?first_tag"]
    show "step_emits p e' ((\<lambda>(ptr, e). bindE (rec ptr e m subm) (\<lambda>(ptr, e, _).
        encode_tag ptr e (number f) kUpb_WireType_StartGroup)) (p, e'))
        (then_out (out_rec e (e_depth e) m subm) (\<lambda>_. Inr ?first_tag))"
      by (simp add: encode_tag_emits)
  qed
  then show ?thesis
    by (cases "out_rec e (e_depth e) m subm") (simp_all add: submsg_out_def f group_bytes_def)
qed

end

lemma then_out_skip [simp]: "then_out out (\<lambda>_. Inr []) = out"
  by (cases out) simp_all

lemma then_out_bindE: "then_out (bindE m h) k = bindE m (\<lambda>v. then_out (h v) k)"
  by (cases m) simp_all

lemma step_emits_depth:
  assumes "\<And>d. depth_out (e_depth e) = Inr d \<Longrightarrow> d = e_depth e - 1 \<Longrightarrow>
    step_emits ptr e (k (e\<lparr>e_depth := e_depth e - 1\<rparr>)) (h d)"
  shows "step_emits ptr e (bindE (enter_depth e) k) (bindE (depth_out (e_depth e)) h)"
  using assms by (auto simp: enter_depth_def depth_out_def step_emits_fail)

lemma enc_ok_depth [simp]: "enc_ok ptr (e\<lparr>e_depth := d\<rparr>) = enc_ok ptr e"
  by (simp add: enc_ok_def)

lemma msg_emits_leave:
  assumes "msg_emits ptr (e\<lparr>e_depth := e_depth e - 1\<rparr>) r out"
  shows "msg_emits ptr e (bindE r (\<lambda>(p, e', sz). Inr (p, leave_depth e', sz))) out"
  using assms
  by (auto simp: msg_emits_def step_emits_def enc_ok_def enc_frame_def leave_depth_def
      oom_excused_def bindE_eq_Inr bindE_eq_Inl split: sum.splits prod.splits)

context msg_writer
begin

lemma scalar_submsg_emits:
  assumes ok: "enc_ok ptr e" and f: "wire_class (descriptortype f) = ClassMessage"
  shows "step_emits ptr e
    (bindE (enter_depth e) (\<lambda>e.
     bindE (rec ptr e m subm) (\<lambda>(ptr, e, sz).
     bindE (encode_reserve ptr (leave_depth e) (5 + 5)) (\<lambda>(ptr, e).
     bindE (encode_length_unchecked (ptr + 10) e (of_nat sz)) (\<lambda>(ptr, e).
       encode_tag_unchecked ptr e (number f) kUpb_WireType_Delimited)))))
    (bindE (depth_out (e_depth e)) (\<lambda>d. submsg_out (out_rec e) d f m subm))"
proof (rule step_emits_depth)
  fix d assume d: "d = e_depth e - 1"
  let ?e1 = "e\<lparr>e_depth := e_depth e - 1\<rparr>"
  let ?k = "\<lambda>(ptr, e, sz). bindE (encode_reserve ptr e (5 + 5)) (\<lambda>(ptr, e).
     bindE (encode_length_unchecked (ptr + 10) e (of_nat sz)) (\<lambda>(ptr, e).
       encode_tag_unchecked ptr e (number f) kUpb_WireType_Delimited))"
  have "msg_emits ptr ?e1 (rec ptr ?e1 m subm) (out_rec e d m subm)"
    using rec_emits[of ptr ?e1 m subm] ok d by simp
  note m = msg_emits_leave[OF this]
  have "step_emits ptr e (bindE (bindE (rec ptr ?e1 m subm)
      (\<lambda>(p, e', sz). Inr (p, leave_depth e', sz))) ?k)
      (then_out (out_rec e d m subm) (\<lambda>bs. bindE (length_out (length bs))
        (\<lambda>l. Inr (tag_bytes (number f) kUpb_WireType_Delimited @ l))))"
  proof (rule msg_emits_bind[OF m])
    fix p e' and bs :: "byte list" assume a: "enc_ok p e'" "length bs \<le> SIZE_MAX"
    show "step_emits p e' (?k (p, e', length bs)) (bindE (length_out (length bs))
        (\<lambda>l. Inr (tag_bytes (number f) kUpb_WireType_Delimited @ l)))"
      unfolding prod.case
    proof (rule reserve_then[OF a(1)])
      fix p2 e2 assume "enc_ok (p2 + (5 + 5)) e2"
      with a(2) show "step_emits (p2 + (5 + 5)) e2 ((\<lambda>(ptr, e).
          bindE (encode_length_unchecked (ptr + 10) e (of_nat (length bs))) (\<lambda>(ptr, e).
            encode_tag_unchecked ptr e (number f) kUpb_WireType_Delimited)) (p2, e2))
          (bindE (length_out (length bs))
            (\<lambda>l. Inr (tag_bytes (number f) kUpb_WireType_Delimited @ l)))"
        using delimited_tail_unchecked_emits[of p2 e2 "length bs" "number f"] by simp
    qed simp
  qed
  then show "step_emits ptr e (bindE (rec ptr ?e1 m subm) (\<lambda>(ptr, e, sz).
     bindE (encode_reserve ptr (leave_depth e) (5 + 5)) (\<lambda>(ptr, e).
     bindE (encode_length_unchecked (ptr + 10) e (of_nat sz)) (\<lambda>(ptr, e).
       encode_tag_unchecked ptr e (number f) kUpb_WireType_Delimited))))
     (submsg_out (out_rec e) d f m subm)"
    unfolding delimited_then_out
    by (simp add: submsg_out_def f bindE_assoc case_prod_beta')
qed

lemma scalar_group_emits:
  assumes ok: "enc_ok ptr e" and f: "wire_class (descriptortype f) = ClassGroup"
  shows "step_emits ptr e
    (bindE (enter_depth e) (\<lambda>e.
     bindE (encode_tag ptr e (number f) kUpb_WireType_EndGroup) (\<lambda>(ptr, e).
     bindE (rec ptr e m subm) (\<lambda>(ptr, e, _).
       encode_tag ptr (leave_depth e) (number f) kUpb_WireType_StartGroup))))
    (bindE (depth_out (e_depth e)) (\<lambda>d. submsg_out (out_rec e) d f m subm))"
proof (rule step_emits_depth)
  fix d assume d: "d = e_depth e - 1"
  let ?e1 = "e\<lparr>e_depth := e_depth e - 1\<rparr>"
  let ?last_tag = "tag_bytes (number f) kUpb_WireType_EndGroup"
  let ?first_tag = "tag_bytes (number f) kUpb_WireType_StartGroup"
  let ?r = "bindE (encode_tag ptr ?e1 (number f) kUpb_WireType_EndGroup) (\<lambda>(ptr, e).
     bindE (rec ptr e m subm) (\<lambda>(ptr, e, _). Inr (ptr, e)))"
  have ok1: "enc_ok ptr ?e1" using ok by simp
  have "step_emits ptr ?e1 ?r (then_out (Inr ?last_tag) (\<lambda>_. out_rec e d m subm))"
  proof (rule step_emits_bind[OF encode_tag_emits[OF ok1]])
    fix p e' assume a: "enc_ok p e'" "enc_frame ?e1 e'"
    show "step_emits p e' ((\<lambda>(ptr, e). bindE (rec ptr e m subm) (\<lambda>(ptr, e, _). Inr (ptr, e)))
        (p, e')) (out_rec e d m subm)"
      using rec_emits[OF a(1), of m subm] a(2) d by (simp add: msg_emits_def enc_frame_def)
  qed
  from leave_depth_emits[OF this, of "\<lambda>(p, e). encode_tag p e (number f) kUpb_WireType_StartGroup"
      "\<lambda>_. Inr ?first_tag"]
  have "step_emits ptr e (bindE ?r (\<lambda>(p, e'). encode_tag p (leave_depth e') (number f)
      kUpb_WireType_StartGroup)) (submsg_out (out_rec e) d f m subm)"
    by (cases "out_rec e d m subm")
      (simp_all add: submsg_out_def f group_bytes_def encode_tag_emits)
  then show "step_emits ptr e (bindE (encode_tag ptr ?e1 (number f) kUpb_WireType_EndGroup) (\<lambda>(ptr, e).
     bindE (rec ptr e m subm) (\<lambda>(ptr, e, _).
       encode_tag ptr (leave_depth e) (number f) kUpb_WireType_StartGroup)))
     (submsg_out (out_rec e) d f m subm)"
    by (simp add: bindE_assoc case_prod_beta')
qed

lemma scalar_sub_emits:
  assumes ok: "enc_ok ptr e"
    and k: "\<And>m subm. step_emits ptr e (k m subm)
      (bindE (depth_out (e_depth e)) (\<lambda>d. submsg_out (out_rec e) d f m subm))"
  shows "step_emits ptr e
    (bindE (load_msg c) (\<lambda>sub. case sub of None \<Rightarrow> Inr (ptr, e)
       | Some m \<Rightarrow> bindE (upb_MiniTable_GetSubMessageTable tabs f) (k m)))
    (bindE (load_msg c) (\<lambda>sub. case sub of None \<Rightarrow> Inr []
       | Some m \<Rightarrow> bindE (upb_MiniTable_GetSubMessageTable tabs f) (\<lambda>subm.
           bindE (depth_out (e_depth e)) (\<lambda>d. submsg_out (out_rec e) d f m subm))))"
  using ok k by (auto intro!: step_emits_pure step_emits_return split: option.split)

lemma number_case_emits:
  assumes ok: "enc_ok ptr e"
  shows "step_emits ptr e (bindE (varint_of t c) (\<lambda>v.
      scalar_case ptr e f kUpb_WireType_Varint (\<lambda>ptr e. encode_varint_unchecked ptr e v)))
      (bindE (bindE (varint_of t c) (\<lambda>v. Inr (varint_bytes (unat v))))
        (\<lambda>b. Inr (tag_bytes (number f) kUpb_WireType_Varint @ b)))"
    and "step_emits ptr e (bindE (load8 c) (\<lambda>v.
      scalar_case ptr e f kUpb_WireType_64Bit (\<lambda>ptr e. encode_fixed64_unchecked ptr e v)))
      (bindE (bindE (load8 c) (\<lambda>v. Inr (le_bytes 8 v)))
        (\<lambda>b. Inr (tag_bytes (number f) kUpb_WireType_64Bit @ b)))"
    and "step_emits ptr e (bindE (load4 c) (\<lambda>v.
      scalar_case ptr e f kUpb_WireType_32Bit (\<lambda>ptr e. encode_fixed32_unchecked ptr e v)))
      (bindE (bindE (load4 c) (\<lambda>v. Inr (le_bytes 4 v)))
        (\<lambda>b. Inr (tag_bytes (number f) kUpb_WireType_32Bit @ b)))"
  unfolding bindE_assoc bindE_Inr encode_fixed64_unchecked_def encode_fixed32_unchecked_def
  by (rule step_emits_pure, rule scalar_case_emits[OF ok], rule varint_unchecked_emits,
      auto simp: varint_bytes_u64 intro: unchecked_keeps(1))
    (rule step_emits_pure, rule scalar_case_emits[OF ok], rule bytes_unchecked_emits,
      auto intro: bytes_unchecked_keeps)+

lemma encode_scalar_emits:
  assumes ok: "enc_ok ptr e"
  shows "step_emits ptr e (encode_scalar rec tabs c f ptr e)
    (scalar_out (out_rec e) tabs (e_depth e) c f)"
proof -
  note nums = number_case_emits[OF ok, where f = f and c = c]
  note str = string_emits[OF ok, where num = "number f"]
  show ?thesis
    using nums str scalar_sub_emits[OF ok scalar_group_emits[OF ok], where f = f and c = c]
      scalar_sub_emits[OF ok scalar_submsg_emits[OF ok], where f = f and c = c]
    unfolding encode_scalar_def scalar_out_def Let_def number_out_eq number_wire_type_def
    by (cases "descriptortype f")
      (simp_all only: wire_class_def upb_FieldType.case wire_class.case step_emits_fail
        step_emits_pure simp_thms)
qed

end

lemma encode_tag_varint_emits:
  "enc_ok ptr e \<Longrightarrow>
   step_emits ptr e (encode_varint ptr e (ucast (make_tag n wt))) (Inr (tag_bytes n wt))"
  using encode_tag_emits[of ptr e n wt] by (simp add: encode_tag_def)

text \<open>The packed fixed-width array is one copy; element by element it is the same bytes.\<close>

lemma concat_res_out_each:
  assumes "\<And>c f. c \<in> set arr \<Longrightarrow> g c = Inl f \<Longrightarrow> f = OutOfBounds"
  shows "concat_res (map g arr) = out_each g arr"
  using assms
proof (induction arr)
  case (Cons c arr)
  have "concat_res (map g arr) = Inl f \<Longrightarrow> f = OutOfBounds" for f
    using Cons.prems by (induction arr arbitrary: f) (auto simp: bindE_eq_Inl)
  moreover have "out_each g arr = concat_res (map g arr)"
    by (rule Cons.IH[symmetric]) (rule Cons.prems, simp_all)
  ultimately show ?case
    using Cons.prems by (cases "g c"; cases "concat_res (map g arr)") (simp, fastforce+)
qed simp

lemma fixed_elem_fault: "fixed_elem_bytes n c = Inl f \<Longrightarrow> f = OutOfBounds"
  by (auto simp: fixed_elem_bytes_def load4_def load8_def bindE_eq_Inl
      split: upb_Cell.splits if_splits)

lemma encode_fixedarray_emits:
  assumes ok: "enc_ok ptr e"
    and tag: "tag = (if packed then 0 else make_tag num wt)" and wt: "make_tag num wt \<noteq> 0"
  shows "step_emits ptr e (encode_fixedarray arr n tag ptr e)
    (if packed then out_each (fixed_elem_bytes n) arr
     else out_each (\<lambda>c. bindE (fixed_elem_bytes n c) (\<lambda>b. Inr (element_tag num wt @ b))) arr)"
proof (cases packed)
  case True
  have "step_emits ptr e (bindE (concat_res (map (fixed_elem_bytes n) arr)) (encode_bytes ptr e))
      (bindE (concat_res (map (fixed_elem_bytes n) arr)) Inr)"
    by (rule step_emits_pure) (rule encode_bytes_emits[OF ok])
  moreover have "concat_res (map (fixed_elem_bytes n) arr) = out_each (fixed_elem_bytes n) arr"
    by (rule concat_res_out_each) (rule fixed_elem_fault)
  moreover have "bindE r Inr = r" for r :: out by (cases r) auto
  ultimately show ?thesis using True tag by (simp add: encode_fixedarray_def)
next
  case False
  let ?f = "\<lambda>c ptr e. bindE (fixed_elem_bytes n c) (\<lambda>bs.
    bindE (encode_bytes ptr e bs) (\<lambda>(ptr, e). encode_varint ptr e (ucast tag)))"
  have "step_emits ptr e (encode_each ?f (rev arr) ptr e)
      (out_each (\<lambda>c. bindE (fixed_elem_bytes n c) (\<lambda>b. Inr (element_tag num wt @ b))) arr)"
  proof (rule encode_each_emits[OF ok])
    fix c p e' assume p: "enc_ok p e'"
    show "step_emits p e' (?f c p e')
        (bindE (fixed_elem_bytes n c) (\<lambda>b. Inr (element_tag num wt @ b)))"
    proof (rule step_emits_pure)
      fix b
      have "step_emits p e' (bindE (encode_bytes p e' b) (\<lambda>(ptr, e). encode_varint ptr e (ucast tag)))
          (then_out (Inr b) (\<lambda>_. Inr (tag_bytes num wt)))"
        by (rule step_emits_bind[OF encode_bytes_emits[OF p]])
          (use False tag in \<open>simp add: encode_tag_varint_emits\<close>)
      then show "step_emits p e' (bindE (encode_bytes p e' b)
          (\<lambda>(ptr, e). encode_varint ptr e (ucast tag))) (Inr (element_tag num wt @ b))"
        using wt by (simp add: element_tag_def)
    qed
  qed
  then show ?thesis using False wt tag by (simp add: encode_fixedarray_def)
qed

lemma encode_varint_array_emits:
  assumes ok: "enc_ok ptr e" and tag: "tag = (if packed then 0 else make_tag num wt)"
  shows "step_emits ptr e (encode_varint_array t arr tag ptr e)
    (out_each (\<lambda>c. bindE (varint_of t (Some c)) (\<lambda>v.
       Inr ((if packed then [] else element_tag num wt) @ varint_bytes (unat v)))) arr)"
  unfolding encode_varint_array_def
proof (rule encode_each_emits[OF ok], rule step_emits_pure)
  fix c p e' v assume p: "enc_ok p e'"
  let ?tag = "if tag \<noteq> 0 then tag_bytes num wt else []"
  have "step_emits p e' (bindE (encode_varint p e' v) (\<lambda>(ptr, e).
      if tag \<noteq> 0 then encode_varint ptr e (ucast tag) else Inr (ptr, e)))
      (then_out (Inr (varint_bytes (unat v))) (\<lambda>_. Inr ?tag))"
    by (rule step_emits_bind[OF encode_varint_emits[OF p]])
      (use tag in \<open>auto simp: encode_tag_varint_emits step_emits_return split: if_splits\<close>)
  then show "step_emits p e' (bindE (encode_varint p e' v) (\<lambda>(ptr, e).
      if tag \<noteq> 0 then encode_varint ptr e (ucast tag) else Inr (ptr, e)))
      (Inr ((if packed then [] else element_tag num wt) @ varint_bytes (unat v)))"
    using tag by (auto simp: element_tag_def split: if_splits)
qed

lemma make_tag_nonzero [simp]: "make_tag num 1 \<noteq> 0" "make_tag num 5 \<noteq> 0"
proof -
  have "bit (make_tag num 1) 0" "bit (make_tag num 5) 0"
    by (simp_all add: make_tag_def bit_or_iff bit_push_bit_iff)
  then show "make_tag num 1 \<noteq> 0" "make_tag num 5 \<noteq> 0" by auto
qed

lemma size_of_written:
  assumes "enc_ok p e'" and "written p e' = bs @ written ptr e"
  shows "length (e_buf e') - (p + (length (e_buf e) - ptr)) = length bs" and "length bs \<le> SIZE_MAX"
proof -
  have l: "length (written p e') = length bs + length (written ptr e)"
    using assms(2) by (metis length_append)
  then show "length (e_buf e') - (p + (length (e_buf e) - ptr)) = length bs" by simp
  show "length bs \<le> SIZE_MAX" using l assms(1) unfolding enc_ok_def length_drop by linarith
qed

lemma finish_packed_emits:
  assumes "step_emits ptr e r out"
  shows "step_emits ptr e (finish_packed packed num (length (e_buf e) - ptr) r)
    (if packed then bindE out (delimited_out num) else out)"
proof -
  have "step_emits ptr e (finish_packed packed num (length (e_buf e) - ptr) r)
    (then_out out (\<lambda>bs. if packed then bindE (length_out (length bs))
        (\<lambda>l. Inr (tag_bytes num kUpb_WireType_Delimited @ l)) else Inr []))"
    unfolding finish_packed_def
    by (rule step_emits_bind[OF assms])
      (auto simp: size_of_written delimited_tail_emits step_emits_return)
  then show ?thesis
    using delimited_then_out[of out num] by (cases packed) simp_all
qed

lemma numbers_out_packed:
  "numbers_out f arr =
   (if upb_MiniTableField_IsPacked f then
      bindE (out_each (\<lambda>c. number_out (descriptortype f) (Some c)) arr) (delimited_out (number f))
    else out_each (\<lambda>c. bindE (number_out (descriptortype f) (Some c)) (\<lambda>b.
      Inr (element_tag (number f) (number_wire_type (descriptortype f)) @ b))) arr)"
  by (simp add: numbers_out_def Let_def)

lemma number_out_fixed:
  "wire_class t = ClassFixed64 \<Longrightarrow> number_out t (Some c) = fixed_elem_bytes 8 c"
  "wire_class t = ClassFixed32 \<Longrightarrow> number_out t (Some c) = fixed_elem_bytes 4 c"
  by (simp_all add: number_out_eq fixed_elem_bytes_def)

lemma fixed_numbers_emits:
  assumes ok: "enc_ok ptr e"
    and t: "wire_class (descriptortype f) = ClassFixed64 \<and> n = 8 \<and> wt = kUpb_WireType_64Bit \<or>
            wire_class (descriptortype f) = ClassFixed32 \<and> n = 4 \<and> wt = kUpb_WireType_32Bit"
  shows "step_emits ptr e (finish_packed (upb_MiniTableField_IsPacked f) (number f)
      (length (e_buf e) - ptr) (encode_fixedarray arr n
        (if upb_MiniTableField_IsPacked f then 0 else make_tag (number f) wt) ptr e))
    (numbers_out f arr)"
proof -
  have wt: "number_wire_type (descriptortype f) = wt" "make_tag (number f) wt \<noteq> 0"
    and el: "number_out (descriptortype f) (Some c) = fixed_elem_bytes n c" for c
    using t by (auto simp: number_wire_type_def number_out_fixed)
  from finish_packed_emits[OF encode_fixedarray_emits[OF ok refl wt(2)],
      of "upb_MiniTableField_IsPacked f" "number f" arr n "upb_MiniTableField_IsPacked f"]
  show ?thesis
    unfolding numbers_out_packed wt(1) el by (cases "upb_MiniTableField_IsPacked f") simp_all
qed

lemma varint_numbers_emits:
  assumes ok: "enc_ok ptr e" and t: "wire_class (descriptortype f) = ClassVarint"
  shows "step_emits ptr e (finish_packed (upb_MiniTableField_IsPacked f) (number f)
      (length (e_buf e) - ptr) (encode_varint_array (descriptortype f) arr
        (if upb_MiniTableField_IsPacked f then 0 else make_tag (number f) kUpb_WireType_Varint) ptr e))
    (numbers_out f arr)"
proof -
  have "number_out (descriptortype f) (Some c) =
      bindE (varint_of (descriptortype f) (Some c)) (\<lambda>v. Inr (varint_bytes (unat v)))" for c
    using t by (simp add: number_out_eq)
  with finish_packed_emits[OF encode_varint_array_emits[OF ok refl],
      of "upb_MiniTableField_IsPacked f" "number f" "descriptortype f" arr
         "upb_MiniTableField_IsPacked f" "number f" kUpb_WireType_Varint] t
  show ?thesis
    by (cases "upb_MiniTableField_IsPacked f")
      (simp_all add: numbers_out_packed number_wire_type_def bindE_assoc)
qed

context msg_writer
begin

lemma submsgs_emits:
  assumes ok: "enc_ok ptr e"
    and one: "\<And>subm m p e'. enc_ok p e' \<Longrightarrow> step_emits p e' (w subm m p e')
      (submsg_out (out_rec e') (e_depth e') f m subm)"
  shows "step_emits ptr e
    (bindE (upb_MiniTable_GetSubMessageTable tabs f) (\<lambda>subm.
     bindE (enter_depth e) (\<lambda>e.
     bindE (encode_each (\<lambda>c ptr e. bindE (load_msg (Some c)) (\<lambda>m. case m of
        None \<Rightarrow> Inl OutOfBounds | Some m \<Rightarrow> w subm m ptr e)) (rev arr) ptr e)
       (\<lambda>(ptr, e). Inr (ptr, leave_depth e)))))
    (bindE (upb_MiniTable_GetSubMessageTable tabs f) (\<lambda>subm.
     bindE (depth_out (e_depth e)) (\<lambda>d. out_each (\<lambda>c. bindE (load_msg (Some c)) (\<lambda>m. case m of
        None \<Rightarrow> Inl OutOfBounds | Some m \<Rightarrow> submsg_out (out_rec e) d f m subm)) arr)))"
proof (rule step_emits_pure, rule step_emits_depth)
  fix subm d assume d: "d = e_depth e - 1"
  let ?e1 = "e\<lparr>e_depth := e_depth e - 1\<rparr>"
  let ?f = "\<lambda>c ptr e. bindE (load_msg (Some c)) (\<lambda>m. case m of
        None \<Rightarrow> Inl OutOfBounds | Some m \<Rightarrow> w subm m ptr e)"
  let ?g = "\<lambda>c. bindE (load_msg (Some c)) (\<lambda>m. case m of
        None \<Rightarrow> Inl OutOfBounds | Some m \<Rightarrow> submsg_out (out_rec e) d f m subm)"
  have "step_emits ptr ?e1 (encode_each ?f (rev arr) ptr ?e1) (out_each ?g arr)"
  proof (rule encode_each_emits)
    fix c p e' assume a: "enc_ok p e'" "enc_frame ?e1 e'"
    show "step_emits p e' (?f c p e') (?g c)"
      using one[OF a(1)] a(2) d
      by (auto simp: enc_frame_def step_emits_fail intro!: step_emits_pure split: option.split)
  qed (use ok in simp)
  from leave_depth_emits[OF this, of Inr "\<lambda>_. Inr []"]
  show "step_emits ptr e (bindE (encode_each ?f (rev arr) ptr ?e1)
      (\<lambda>(ptr, e). Inr (ptr, leave_depth e))) (out_each ?g arr)"
    by (simp add: step_emits_return)
qed

lemma strings_emits:
  assumes ok: "enc_ok ptr e"
  shows "step_emits ptr e (encode_each (\<lambda>c ptr e.
      bindE (load_str (Some c)) (\<lambda>s.
      bindE (encode_bytes ptr e s) (\<lambda>(ptr, e).
      bindE (encode_length ptr e (of_nat (length s))) (\<lambda>(ptr, e).
        encode_tag ptr e num kUpb_WireType_Delimited)))) (rev arr) ptr e)
    (out_each (\<lambda>c. bindE (load_str (Some c)) (delimited_out num)) arr)"
proof (rule encode_each_emits[OF ok], rule step_emits_pure)
  fix c p e' s assume p: "enc_ok p e'"
  have "step_emits p e' (bindE (encode_bytes p e' s) (\<lambda>(ptr, e).
      bindE (encode_length ptr e (of_nat (length s))) (\<lambda>(ptr, e).
        encode_tag ptr e num kUpb_WireType_Delimited)))
      (then_out (Inr s) (\<lambda>bs. bindE (length_out (length bs))
        (\<lambda>l. Inr (tag_bytes num kUpb_WireType_Delimited @ l))))"
    by (rule step_emits_bind[OF encode_bytes_emits[OF p]])
      (auto simp: delimited_tail_emits size_of_written)
  then show "step_emits p e' (bindE (encode_bytes p e' s) (\<lambda>(ptr, e).
      bindE (encode_length ptr e (of_nat (length s))) (\<lambda>(ptr, e).
        encode_tag ptr e num kUpb_WireType_Delimited))) (delimited_out num s)"
    unfolding delimited_then_out by simp
qed

lemma finish_nothing_emits:
  assumes ok: "enc_ok ptr e"
  shows "step_emits ptr e (finish_packed packed num (length (e_buf e) - ptr) (Inr (ptr, e)))
    (if packed then delimited_out num [] else Inr [])"
  using finish_packed_emits[OF step_emits_return[OF ok], of packed num] by (cases packed) simp_all

lemma encode_array_emits:
  assumes ok: "enc_ok ptr e"
  shows "step_emits ptr e (encode_array rec tabs c f ptr e)
    (array_out (out_rec e) tabs (e_depth e) c f)"
proof -
  note facts = submsgs_emits[OF ok submsg_group] submsgs_emits[OF ok submsg_delimited]
    fixed_numbers_emits[OF ok, of f] varint_numbers_emits[OF ok, of f]
    strings_emits[OF ok] finish_nothing_emits[OF ok]
  have "step_emits ptr e (encode_array rec tabs (Some (CellArr (Some arr))) f ptr e)
      (array_out (out_rec e) tabs (e_depth e) (Some (CellArr (Some arr))) f)" if "arr \<noteq> []" for arr
    using that facts
    unfolding encode_array_def array_out_def Let_def load_arr_def
    by (cases "descriptortype f")
      (simp_all only: wire_class_def upb_FieldType.case wire_class.case upb_Cell.case option.case
        bindE_Inr simp_thms if_False)
  note main = this[unfolded encode_array_def array_out_def load_arr_def option.case upb_Cell.case bindE_Inr]
  show ?thesis
  proof (cases "load_arr c")
    case (Inl x)
    then show ?thesis by (simp add: encode_array_def array_out_def step_emits_fail)
  next
    case (Inr a)
    consider "a = None" | "a = Some []" | arr where "a = Some arr" "arr \<noteq> []" by (cases a) auto
    then show ?thesis
    proof cases
      case 3
      with main[OF 3(2)] Inr show ?thesis
        by (simp only: encode_array_def array_out_def bindE_Inr option.case)
    qed (use Inr ok in \<open>simp_all add: encode_array_def array_out_def step_emits_return\<close>)
  qed
qed

lemma encode_mapentry_emits:
  assumes ok: "enc_ok ptr e"
  shows "step_emits ptr e (encode_mapentry rec tabs num layout ent ptr e)
    (entry_out (out_rec e) tabs (e_depth e) num layout ent)"
  unfolding encode_mapentry_def entry_out_def Let_def
proof (rule step_emits_pure, rule step_emits_pure)
  fix kf vf
  let ?v = "scalar_out (out_rec e) tabs (e_depth e) (Some (snd ent)) vf"
  let ?k = "scalar_out (out_rec e) tabs (e_depth e) (Some (fst ent)) kf"
  let ?body = "bindE (encode_scalar rec tabs (Some (snd ent)) vf ptr e) (\<lambda>(ptr, e).
    encode_scalar rec tabs (Some (fst ent)) kf ptr e)"
  have "step_emits ptr e ?body (then_out ?v (\<lambda>_. ?k))"
  proof (rule step_emits_bind[OF encode_scalar_emits[OF ok]])
    fix p e' assume a: "enc_ok p e'" "enc_frame e e'"
    then show "step_emits p e' ((\<lambda>(ptr, e). encode_scalar rec tabs (Some (fst ent)) kf ptr e) (p, e')) ?k"
      using encode_scalar_emits[OF a(1), of "Some (fst ent)" kf] by (simp add: enc_frame_def)
  qed
  from finish_packed_emits[OF this, of True num]
  show "step_emits ptr e
    (bindE (encode_scalar rec tabs (Some (snd ent)) vf ptr e) (\<lambda>(ptr', e').
     bindE (encode_scalar rec tabs (Some (fst ent)) kf ptr' e') (\<lambda>(ptr'', e'').
     bindE (encode_length ptr'' e'' (of_nat (length (e_buf e'') - ptr'' - (length (e_buf e) - ptr))))
       (\<lambda>(ptr, e). encode_tag ptr e num kUpb_WireType_Delimited))))
    (bindE (then_out ?v (\<lambda>_. ?k)) (delimited_out num))"
    by (simp add: finish_packed_def bindE_assoc case_prod_beta')
qed

lemma encode_map_emits:
  assumes ok: "enc_ok ptr e"
  shows "step_emits ptr e (encode_map rec tabs c f ptr e)
    (map_out (out_rec e) tabs (e_options e) (e_depth e) c f)"
proof -
  have "step_emits ptr e (encode_each (encode_mapentry rec tabs (number f) layout) ents ptr e)
      (out_each (entry_out (out_rec e) tabs (e_depth e) (number f) layout) (rev ents))"
    for layout ents
  proof -
    have "step_emits p e' (encode_mapentry rec tabs (number f) layout x p e')
        (entry_out (out_rec e) tabs (e_depth e) (number f) layout x)"
      if "enc_ok p e'" "enc_frame e e'" for x p e'
      using encode_mapentry_emits[OF that(1)] that(2) by (simp add: enc_frame_def)
    from encode_each_emits[OF ok this, of "rev ents"] show ?thesis by simp
  qed
  then show ?thesis
    unfolding encode_map_def map_out_def
    by (intro step_emits_pure) (use ok in \<open>auto simp: step_emits_return
      intro!: step_emits_pure split: option.split\<close>)
qed

lemma encode_field_emits:
  assumes ok: "enc_ok ptr e"
  shows "step_emits ptr e (encode_field rec tabs c f ptr e)
    (field_out (out_rec e) tabs (e_options e) (e_depth e) c f)"
  using encode_scalar_emits[OF ok] encode_array_emits[OF ok] encode_map_emits[OF ok]
  by (auto simp: encode_field_def field_out_def step_emits_fail
      split: option.split upb_FieldMode.split)

end

lemma then_out_const: "then_out (Inr xs) (\<lambda>_. Inr ys) = Inr (ys @ xs)"
  by simp

lemma emits_then:
  assumes "step_emits ptr e r out"
    and "\<And>p e'. enc_ok p e' \<Longrightarrow> enc_frame e e' \<Longrightarrow> step_emits p e' (k p e') out'"
  shows "step_emits ptr e (bindE r (\<lambda>(p, e'). k p e')) (then_out out (\<lambda>_. out'))"
  by (rule step_emits_bind[OF assms(1)]) (use assms(2) in simp)

context msg_writer
begin

text \<open>The part of a message-set item in front of the sub-message.\<close>

lemma msgset_head_emits:
  assumes ok: "enc_ok ptr e" and n: "n \<le> SIZE_MAX"
  shows "step_emits ptr e
    (bindE (encode_varint ptr e (of_nat n)) (\<lambda>(ptr, e).
     bindE (encode_tag ptr e kUpb_MsgSet_Message kUpb_WireType_Delimited) (\<lambda>(ptr, e).
     bindE (encode_varint ptr e (ucast (number f))) (\<lambda>(ptr, e).
     bindE (encode_tag ptr e kUpb_MsgSet_TypeId kUpb_WireType_Varint) (\<lambda>(ptr, e).
       encode_tag ptr e kUpb_MsgSet_Item kUpb_WireType_StartGroup)))))
    (Inr (tag_bytes kUpb_MsgSet_Item kUpb_WireType_StartGroup @
          tag_bytes kUpb_MsgSet_TypeId kUpb_WireType_Varint @ varint_bytes (unat (number f)) @
          tag_bytes kUpb_MsgSet_Message kUpb_WireType_Delimited @ varint_bytes n))"
proof -
  have v: "step_emits p e' (encode_varint p e' (of_nat n)) (Inr (varint_bytes n))"
    if "enc_ok p e'" for p e'
    using encode_varint_emits[OF that, of "of_nat n"] n by (simp add: unat_of_nat_64)
  have w: "step_emits p e' (encode_varint p e' (ucast (number f))) (Inr (varint_bytes (unat (number f))))"
    if "enc_ok p e'" for p e'
    using encode_varint_emits[OF that, of "ucast (number f)"] by simp
  have "step_emits ptr e
    (bindE (encode_varint ptr e (of_nat n)) (\<lambda>(ptr, e).
     bindE (encode_tag ptr e kUpb_MsgSet_Message kUpb_WireType_Delimited) (\<lambda>(ptr, e).
     bindE (encode_varint ptr e (ucast (number f))) (\<lambda>(ptr, e).
     bindE (encode_tag ptr e kUpb_MsgSet_TypeId kUpb_WireType_Varint) (\<lambda>(ptr, e).
       encode_tag ptr e kUpb_MsgSet_Item kUpb_WireType_StartGroup)))))
    (then_out (Inr (varint_bytes n)) (\<lambda>_.
     then_out (Inr (tag_bytes kUpb_MsgSet_Message kUpb_WireType_Delimited)) (\<lambda>_.
     then_out (Inr (varint_bytes (unat (number f)))) (\<lambda>_.
     then_out (Inr (tag_bytes kUpb_MsgSet_TypeId kUpb_WireType_Varint)) (\<lambda>_.
       Inr (tag_bytes kUpb_MsgSet_Item kUpb_WireType_StartGroup))))))"
    by (intro emits_then v w encode_tag_emits ok)
  then show ?thesis by simp
qed

lemma encode_msgset_item_emits:
  assumes ok: "enc_ok ptr e"
  shows "step_emits ptr e (encode_msgset_item rec tabs x ptr e)
    (ext_out (out_rec e) tabs (e_options e) (e_depth e) True x)"
proof -
  let ?last_tag = "tag_bytes kUpb_MsgSet_Item kUpb_WireType_EndGroup"
  let ?head = "\<lambda>n. tag_bytes kUpb_MsgSet_Item kUpb_WireType_StartGroup @
    tag_bytes kUpb_MsgSet_TypeId kUpb_WireType_Varint @ varint_bytes (unat (number (fst x))) @
    tag_bytes kUpb_MsgSet_Message kUpb_WireType_Delimited @ varint_bytes n"
  let ?sub = "upb_MiniTable_GetSubMessageTable tabs (fst x)"
  have item: "step_emits ptr e
     (bindE (encode_tag ptr e kUpb_MsgSet_Item kUpb_WireType_EndGroup) (\<lambda>(ptr, e).
      bindE ?sub (\<lambda>subm.
      bindE (rec ptr e m subm) (\<lambda>(ptr, e, sz).
      bindE (encode_varint ptr e (of_nat sz)) (\<lambda>(ptr, e).
      bindE (encode_tag ptr e kUpb_MsgSet_Message kUpb_WireType_Delimited) (\<lambda>(ptr, e).
      bindE (encode_varint ptr e (ucast (number (fst x)))) (\<lambda>(ptr, e).
      bindE (encode_tag ptr e kUpb_MsgSet_TypeId kUpb_WireType_Varint) (\<lambda>(ptr, e).
        encode_tag ptr e kUpb_MsgSet_Item kUpb_WireType_StartGroup))))))))
     (bindE ?sub (\<lambda>subm. bindE (out_rec e (e_depth e) m subm)
       (\<lambda>body. Inr (msgset_item_bytes (number (fst x)) body))))" (is "step_emits ptr e ?impl _") for m
  proof -
    have "step_emits ptr e ?impl (then_out (Inr ?last_tag) (\<lambda>_. bindE ?sub (\<lambda>subm.
        then_out (out_rec e (e_depth e) m subm) (\<lambda>body. Inr (?head (length body))))))"
    proof (rule emits_then[OF encode_tag_emits[OF ok]], rule step_emits_pure)
      fix p e' subm assume a: "enc_ok p e'" "enc_frame e e'"
      then have "msg_emits p e' (rec p e' m subm) (out_rec e (e_depth e) m subm)"
        using rec_emits[OF a(1), of m subm] by (simp add: enc_frame_def)
      from this show "step_emits p e' (bindE (rec p e' m subm) (\<lambda>(ptr, e, sz).
          bindE (encode_varint ptr e (of_nat sz)) (\<lambda>(ptr, e).
          bindE (encode_tag ptr e kUpb_MsgSet_Message kUpb_WireType_Delimited) (\<lambda>(ptr, e).
          bindE (encode_varint ptr e (ucast (number (fst x)))) (\<lambda>(ptr, e).
          bindE (encode_tag ptr e kUpb_MsgSet_TypeId kUpb_WireType_Varint) (\<lambda>(ptr, e).
            encode_tag ptr e kUpb_MsgSet_Item kUpb_WireType_StartGroup))))))
          (then_out (out_rec e (e_depth e) m subm) (\<lambda>body. Inr (?head (length body))))"
        by (rule msg_emits_bind) (simp add: msgset_head_emits)
    qed
    moreover have "then_out (Inr ?last_tag) (\<lambda>_. bindE ?sub (\<lambda>subm.
        then_out (out_rec e (e_depth e) m subm) (\<lambda>body. Inr (?head (length body))))) =
      bindE ?sub (\<lambda>subm. bindE (out_rec e (e_depth e) m subm)
        (\<lambda>body. Inr (msgset_item_bytes (number (fst x)) body)))"
      by (simp add: then_out_def bindE_assoc msgset_item_bytes_def group_bytes_def)
    ultimately show ?thesis by simp
  qed
  show ?thesis
    unfolding encode_msgset_item_def ext_out_def if_True
    by (rule step_emits_pure) (auto simp: item step_emits_fail split: option.split)
qed

lemma encode_ext_emits:
  assumes ok: "enc_ok ptr e"
  shows "step_emits ptr e (encode_ext rec tabs is_set x ptr e)
    (ext_out (out_rec e) tabs (e_options e) (e_depth e) is_set x)"
  using encode_msgset_item_emits[OF ok, of x] encode_field_emits[OF ok]
  by (cases is_set) (simp_all add: encode_ext_def ext_out_def)

lemma encode_exts_emits:
  assumes ok: "enc_ok ptr e"
  shows "step_emits ptr e (encode_exts rec tabs m msg ptr e)
    (exts_out (out_rec e) tabs (e_options e) (e_depth e) m msg)"
proof -
  have "step_emits ptr e (encode_each (encode_ext rec tabs is_set) (rev xs) ptr e)
      (out_each (ext_out (out_rec e) tabs (e_options e) (e_depth e) is_set) xs)" for xs is_set
  proof (rule encode_each_emits[OF ok])
    fix x p e' assume a: "enc_ok p e'" "enc_frame e e'"
    show "step_emits p e' (encode_ext rec tabs is_set x p e')
        (ext_out (out_rec e) tabs (e_options e) (e_depth e) is_set x)"
      using encode_ext_emits[OF a(1), of is_set x] a(2) by (simp add: enc_frame_def)
  qed
  from this[of _ "msg_exts msg"] this[of _ "rev (upb_mapsorter_pushexts msg)"] ok
  show ?thesis by (simp add: encode_exts_def exts_out_def Let_def step_emits_return)
qed

lemma encode_unknown_emits:
  assumes ok: "enc_ok ptr e"
  shows "step_emits ptr e (encode_unknown msg ptr e) (Inr (concat (msg_unknown msg)))"
proof -
  let ?bs = "concat (msg_unknown msg)"
  have len: "sum_list (map length (msg_unknown msg)) = length ?bs" by (simp add: length_concat)
  show ?thesis
  proof (cases "?bs = []")
    case True
    with ok show ?thesis unfolding encode_unknown_def len Let_def True by (simp add: step_emits_return)
  next
    case False
    have "step_emits ptr e (bindE (encode_reserve ptr e (length ?bs)) (\<lambda>(ptr, e).
        bindE (buf_store ptr e ?bs) (\<lambda>e. Inr (ptr, e)))) (Inr ?bs)"
      by (rule reserve_then[OF ok]) (use store_reserved_emits in auto)
    with False show ?thesis unfolding encode_unknown_def len Let_def by simp
  qed
qed

lemma present_field_emits:
  assumes ok: "enc_ok ptr e"
  shows "step_emits ptr e (bindE (encode_shouldencode msg f) (\<lambda>b.
      if b then encode_field rec tabs (cell_at msg f) f ptr e else Inr (ptr, e)))
    (present_out (out_rec e) tabs (e_options e) (e_depth e) msg f)"
  unfolding present_out_def
  by (rule step_emits_pure) (use encode_field_emits[OF ok] ok in \<open>simp add: step_emits_return\<close>)

lemma msg_emits_sized:
  assumes "step_emits ptr e r out"
  shows "msg_emits ptr e (bindE r (\<lambda>(p, e'). Inr (p, e', length (e_buf e') - p - (length (e_buf e) - ptr)))) out"
  using assms by (cases r) (auto simp: msg_emits_def split: prod.splits)

lemma encode_message_body_emits:
  assumes ok: "enc_ok ptr e"
  shows "msg_emits ptr e (encode_message_body rec tabs ptr e msg m)
    (message_out_body (out_rec e) tabs (e_options e) (e_depth e) msg m)"
proof -
  let ?missing = "e_options e AND kUpb_EncodeOption_CheckRequired \<noteq> 0 \<and> required_count m \<noteq> 0 \<and>
    \<not> upb_Message_IsInitializedShallow msg m"
  let ?keep = "e_options e AND kUpb_EncodeOption_SkipUnknown = 0"
  let ?unk = "if ?keep then concat (msg_unknown msg) else []"
  let ?each = "\<lambda>ptr e. encode_each (\<lambda>f ptr e. bindE (encode_shouldencode msg f) (\<lambda>b.
      if b then encode_field rec tabs (cell_at msg f) f ptr e else Inr (ptr, e)))
    (rev (mt_fields m)) ptr e"
  let ?exts = "exts_out (out_rec e) tabs (e_options e) (e_depth e) m msg"
  let ?fields = "out_each (present_out (out_rec e) tabs (e_options e) (e_depth e) msg) (mt_fields m)"
  let ?r = "bindE (if ?keep then encode_unknown msg ptr e else Inr (ptr, e)) (\<lambda>(p, e1).
    bindE (encode_exts rec tabs m msg p e1) (\<lambda>(p, e2). ?each p e2))"
  have u: "step_emits ptr e (if ?keep then encode_unknown msg ptr e else Inr (ptr, e)) (Inr ?unk)"
    using encode_unknown_emits[OF ok] ok by (simp add: step_emits_return)
  have "step_emits ptr e ?r (then_out (Inr ?unk) (\<lambda>_. then_out ?exts (\<lambda>_. ?fields)))"
  proof (rule emits_then[OF u], rule emits_then)
    fix p e1 assume a: "enc_ok p e1" "enc_frame e e1"
    show "step_emits p e1 (encode_exts rec tabs m msg p e1) ?exts"
      using encode_exts_emits[OF a(1), of m msg] a(2) by (simp add: enc_frame_def)
    fix p2 e2 assume b: "enc_ok p2 e2" "enc_frame e1 e2"
    show "step_emits p2 e2 (?each p2 e2) ?fields"
    proof (rule encode_each_emits[OF b(1)])
      fix f p3 e3 assume c: "enc_ok p3 e3" "enc_frame e2 e3"
      have "enc_frame e e3" using a(2) b(2) c(2) enc_frame_trans by blast
      with present_field_emits[OF c(1), of msg f]
      show "step_emits p3 e3 (bindE (encode_shouldencode msg f) (\<lambda>b.
          if b then encode_field rec tabs (cell_at msg f) f p3 e3 else Inr (p3, e3)))
          (present_out (out_rec e) tabs (e_options e) (e_depth e) msg f)"
        by (simp add: enc_frame_def)
    qed
  qed
  note sized = msg_emits_sized[OF this]
  show ?thesis
  proof (cases ?missing)
    case True
    then show ?thesis
      by (simp add: encode_message_body_def message_out_body_def msg_emits_def step_emits_fail)
  next
    case False
    have impl: "encode_message_body rec tabs ptr e msg m =
        bindE ?r (\<lambda>(p, e'). Inr (p, e', length (e_buf e') - p - (length (e_buf e) - ptr)))"
      unfolding encode_message_body_def Let_def if_not_P[OF False] bindE_Inr
      by (simp only: bindE_assoc case_prod_beta' fst_conv snd_conv)
    have "message_out_body (out_rec e) tabs (e_options e) (e_depth e) msg m =
        then_out (Inr ?unk) (\<lambda>_. then_out ?exts (\<lambda>_. ?fields))"
      unfolding message_out_body_def if_not_P[OF False] then_out_def bindE_Inr bindE_assoc
      by (simp only: append_assoc)
    with sized impl show ?thesis by metis
  qed
qed

end

text \<open>The fuel of the encoder and of the reference go down together.\<close>

lemma encode_message_emits:
  "enc_ok ptr e \<Longrightarrow>
   msg_emits ptr e (encode_message n tabs ptr e msg m)
     (message_out n tabs (e_options e) (e_depth e) msg m)"
proof (induction n arbitrary: ptr e msg m)
  case 0
  then show ?case by (simp add: msg_emits_def step_emits_fail)
next
  case (Suc n)
  have "msg_writer (encode_message n tabs) (message_out n tabs)"
    using Suc.IH by unfold_locales
  from msg_writer.encode_message_body_emits[OF this Suc.prems, of tabs msg m] show ?case
    by simp
qed

interpretation em: msg_writer "encode_message n tabs" tabs "message_out n tabs" for n tabs
  by unfold_locales (rule encode_message_emits)

end
