(* ===== verification/Encoder_Safety.thy ===== *)
theory Encoder_Safety
  imports Encoder_Refinement Message_Conforms
begin

text \<open>
  The fuel of the encoder is enough for every message, and a message whose cells have the types its
  layout says is encoded without undefined behaviour. The last part states what the two entry
  points \<open>upb_Encode\<close> and \<open>upb_EncodeLengthPrefixed\<close> return.
\<close>

subsection \<open>Enough fuel\<close>

lemma load_not_fuel [simp]:
  "load1 c \<noteq> Inl OutOfFuel" "load4 c \<noteq> Inl OutOfFuel" "load8 c \<noteq> Inl OutOfFuel"
  "load_str c \<noteq> Inl OutOfFuel" "load_msg c \<noteq> Inl OutOfFuel" "load_arr c \<noteq> Inl OutOfFuel"
  "load_map c \<noteq> Inl OutOfFuel"
  by (auto simp: load1_def load4_def load8_def load_str_def load_msg_def load_arr_def load_map_def
      split: option.split upb_Cell.split)

lemma table_not_fuel [simp]:
  "upb_MiniTable_GetSubMessageTable tabs f \<noteq> Inl OutOfFuel" "field_at l i \<noteq> Inl OutOfFuel"
  "assertE b \<noteq> Inl OutOfFuel" "depth_out d \<noteq> Inl OutOfFuel" "length_out n \<noteq> Inl OutOfFuel"
  by (auto simp: upb_MiniTable_GetSubMessageTable_def field_at_def assertE_def depth_out_def
      length_out_def split: mini_sub.split option.split)

lemma delimited_not_fuel [simp]: "delimited_out num bs \<noteq> Inl OutOfFuel"
  by (simp add: delimited_out_def bindE_eq_Inl)

lemma number_not_fuel [simp]: "number_out t c \<noteq> Inl OutOfFuel"
  by (auto simp: number_out_eq varint_of_def bindE_eq_Inl split: wire_class.split upb_FieldType.split)

lemma write_order_not_fuel [simp]: "map_write_order options layout m \<noteq> Inl OutOfFuel"
  by (auto simp: map_write_order_def Let_def bindE_eq_Inl upb_mapsorter_pushmap_def
      split: option.split)

lemma shouldencode_not_fuel [simp]: "encode_shouldencode msg f \<noteq> Inl OutOfFuel"
  by (auto simp: encode_shouldencode_def bindE_eq_Inl split: upb_FieldRep.split option.split upb_Cell.split)

lemma then_out_fault:
  "then_out a b = Inl f \<longleftrightarrow> a = Inl f \<or> (\<exists>xs. a = Inr xs \<and> b xs = Inl f)"
  by (auto simp: then_out_def bindE_eq_Inl)

lemma out_each_fault: "out_each g xs = Inl f \<Longrightarrow> \<exists>x \<in> set xs. g x = Inl f"
  by (induction xs) (auto simp: then_out_fault)

definition enough_for :: "msg_out \<Rightarrow> nat \<Rightarrow> bool" where
  "enough_for rec h \<longleftrightarrow> (\<forall>d m l. msg_height m \<le> h \<longrightarrow> rec d m l \<noteq> Inl OutOfFuel)"

definition opt_height :: "upb_Cell option \<Rightarrow> nat" where
  "opt_height c = (case c of None \<Rightarrow> 0 | Some c \<Rightarrow> cell_height c)"

lemma load_msg_height: "load_msg c = Inr (Some m) \<Longrightarrow> msg_height m = opt_height c"
  by (auto simp: load_msg_def opt_height_def split: option.splits upb_Cell.splits)

lemma load_arr_height: "load_arr c = Inr (Some arr) \<Longrightarrow> x \<in> set arr \<Longrightarrow> cell_height x \<le> opt_height c"
  by (auto simp: load_arr_def opt_height_def split: option.splits upb_Cell.splits)

lemma submsg_enough:
  "enough_for rec h \<Longrightarrow> msg_height m \<le> h \<Longrightarrow> submsg_out rec d f m l \<noteq> Inl OutOfFuel"
  by (auto simp: submsg_out_def enough_for_def bindE_eq_Inl)

lemma scalar_enough:
  assumes "enough_for rec h" and "opt_height c \<le> h"
  shows "scalar_out rec tabs d c f \<noteq> Inl OutOfFuel"
  using assms submsg_enough[OF assms(1)] load_msg_height[of c]
  by (auto simp: scalar_out_def Let_def bindE_eq_Inl split: wire_class.split option.split)

lemma numbers_enough: "numbers_out f arr \<noteq> Inl OutOfFuel"
  by (auto simp: numbers_out_def Let_def bindE_eq_Inl dest!: out_each_fault)

lemma array_enough:
  assumes r: "enough_for rec h" and h: "opt_height c \<le> h"
  shows "array_out rec tabs d c f \<noteq> Inl OutOfFuel"
proof -
  have el: "submsg_out rec d f m subm \<noteq> Inl OutOfFuel"
    if "load_arr c = Inr (Some arr)" "x \<in> set arr" "load_msg (Some x) = Inr (Some m)" for arr x d m subm
    using submsg_enough[OF r] load_msg_height[OF that(3)] load_arr_height[OF that(1,2)] h
    by (auto simp: opt_height_def)
  show ?thesis
    using el numbers_enough
    by (auto simp: array_out_def Let_def bindE_eq_Inl split: wire_class.splits option.splits if_splits
        dest!: out_each_fault)
qed

lemma qsort_set: "set (qsort cmp xs) = set xs"
proof -
  have "set (insert_by cmp x ys) = insert x (set ys)" for x :: 'a and ys
    by (induction ys) auto
  then show ?thesis by (induction xs) auto
qed

lemma array_entries_height:
  "ent \<in> set (array_entries ks i cs) \<Longrightarrow>
   cell_height (fst ent) = 0 \<and> Some (snd ent) \<in> set cs"
  by (induction ks i cs rule: array_entries.induct)
    (auto simp: key_cell_def split: upb_tabkey.split)

lemma table_entries_height:
  "ent \<in> set (table_entries ks tb) \<Longrightarrow> cell_height (fst ent) = 0 \<and> snd ent \<in> snd ` set tb"
  by (force simp: table_entries_def key_cell_def split: upb_tabkey.split)

lemma write_order_entries:
  assumes "map_write_order options layout m = Inr ents" and "ent \<in> set ents"
  shows "cell_height (fst ent) = 0 \<and>
    (Some (snd ent) \<in> set (map_array m) \<or> snd ent \<in> snd ` set (map_table m))"
proof -
  have "ent \<in> set (array_entries (key_size m) 0 (map_array m)) \<or>
      (\<exists>tb. set tb = set (map_table m) \<and> ent \<in> set (table_entries (key_size m) tb))"
    using assms
    by (auto simp: map_write_order_def Let_def bindE_eq_Inr upb_mapsorter_pushmap_def qsort_set
        split: if_splits option.splits)
  then show ?thesis
    using array_entries_height table_entries_height by metis
qed

lemma write_order_height:
  assumes "map_write_order options layout m = Inr ents" and "ent \<in> set ents"
  shows "cell_height (fst ent) \<le> map_height m" and "cell_height (snd ent) \<le> map_height m"
proof -
  note e = write_order_entries[OF assms]
  then show "cell_height (fst ent) \<le> map_height m" by simp
  have arr: "cell_height v \<le> map_height m" if "Some v \<in> set (map_array m)" for v
    using that by (cases m) (auto intro!: max.coboundedI1 Max_ge image_eqI[where x = "Some v"])
  have tab: "cell_height v \<le> map_height m" if "v \<in> snd ` set (map_table m)" for v
    using that by (cases m) (force intro!: max.coboundedI2 Max_ge)
  from e arr tab show "cell_height (snd ent) \<le> map_height m" by blast
qed


lemma map_enough:
  assumes r: "enough_for rec h" and h: "opt_height c \<le> h"
  shows "map_out rec tabs options d c f \<noteq> Inl OutOfFuel"
proof -
  have el: "entry_out rec tabs d n layout ent \<noteq> Inl OutOfFuel"
    if "load_map c = Inr (Some m)" "map_write_order options layout m = Inr ents" "ent \<in> set ents"
    for layout n m ents ent
  proof -
    have "map_height m = opt_height c"
      using that(1) by (auto simp: load_map_def opt_height_def split: option.splits upb_Cell.splits)
    then have "opt_height (Some (fst ent)) \<le> h" "opt_height (Some (snd ent)) \<le> h"
      using write_order_height[OF that(2,3)] h by (simp_all add: opt_height_def)
    with scalar_enough[OF r] show ?thesis
      by (auto simp: entry_out_def bindE_eq_Inl then_out_fault)
  qed
  then show ?thesis
    by (auto simp: map_out_def bindE_eq_Inl split: option.splits if_splits dest!: out_each_fault)
qed

lemma field_enough:
  "enough_for rec h \<Longrightarrow> opt_height c \<le> h \<Longrightarrow> field_out rec tabs options d c f \<noteq> Inl OutOfFuel"
  using scalar_enough array_enough map_enough
  by (auto simp: field_out_def split: option.split upb_FieldMode.split)

lemma ext_enough:
  "enough_for rec h \<Longrightarrow> cell_height (snd x) \<le> h \<Longrightarrow> ext_out rec tabs options d b x \<noteq> Inl OutOfFuel"
  using field_enough[of rec h "Some (snd x)"] load_msg_height[of "Some (snd x)"]
  by (auto simp: ext_out_def bindE_eq_Inl opt_height_def enough_for_def split: option.split)

lemma ext_height: "x \<in> set (msg_exts msg) \<Longrightarrow> cell_height (snd x) < msg_height msg"
  by (cases msg) (force simp: less_Suc_eq_le intro!: max.coboundedI2 Max_ge)

lemma cell_at_height: "opt_height (cell_at msg f) < msg_height msg"
proof (cases "cell_at msg f")
  case None
  then show ?thesis by (cases msg) (simp add: opt_height_def)
next
  case (Some c)
  then have "c \<in> snd ` set (msg_cells msg)"
    by (auto simp: cell_at_def dest!: map_of_SomeD intro: rev_image_eqI)
  then show ?thesis
    using Some by (cases msg) (force simp: opt_height_def less_Suc_eq_le intro!: max.coboundedI1 Max_ge)
qed

lemma body_enough:
  assumes r: "enough_for rec h" and h: "msg_height msg \<le> Suc h"
  shows "message_out_body rec tabs options d msg m \<noteq> Inl OutOfFuel"
proof -
  have "ext_out rec tabs options d b x \<noteq> Inl OutOfFuel" if "x \<in> set (msg_exts msg)" for b x
    using ext_enough[OF r] ext_height[OF that] h by simp
  moreover have "set (upb_mapsorter_pushexts msg) = set (msg_exts msg)"
    by (simp add: upb_mapsorter_pushexts_def qsort_set)
  ultimately have "exts_out rec tabs options d m msg \<noteq> Inl OutOfFuel"
    by (auto simp: exts_out_def dest!: out_each_fault)
  moreover have "present_out rec tabs options d msg f \<noteq> Inl OutOfFuel" for f
    using field_enough[OF r, of "cell_at msg f"] cell_at_height[of msg f] h
    by (auto simp: present_out_def bindE_eq_Inl)
  ultimately show ?thesis
    by (auto simp: message_out_body_def bindE_eq_Inl dest!: out_each_fault)
qed

lemma msg_height_pos: "0 < msg_height m"
  by (cases m) simp

lemma message_out_enough: "enough_for (message_out n tabs options) n"
proof (induction n)
  case 0
  then show ?case using msg_height_pos by (simp add: enough_for_def)
next
  case (Suc n)
  then show ?case using body_enough by (simp add: enough_for_def)
qed

text \<open>No undefined behaviour: a value, a status code or the end of the fuel.\<close>

definition no_ub :: "'a res \<Rightarrow> bool" where
  "no_ub r \<longleftrightarrow> (case r of Inr _ \<Rightarrow> True | Inl f \<Rightarrow> f = OutOfFuel \<or> (\<exists>c. f = Thrown c))"

lemma no_ub_simps [simp]: "no_ub (Inr a)" "no_ub (Inl (Thrown c))" "no_ub (Inl OutOfFuel)"
  by (simp_all add: no_ub_def)

lemma no_ub_bindE [intro]: "no_ub m \<Longrightarrow> (\<And>a. m = Inr a \<Longrightarrow> no_ub (k a)) \<Longrightarrow> no_ub (bindE m k)"
  by (cases m) (auto simp: no_ub_def)

lemma no_ub_then_out [intro]: "no_ub a \<Longrightarrow> (\<And>xs. a = Inr xs \<Longrightarrow> no_ub (b xs)) \<Longrightarrow> no_ub (then_out a b)"
  unfolding then_out_def by (intro no_ub_bindE) auto

lemma no_ub_out_each: "(\<And>x. x \<in> set xs \<Longrightarrow> no_ub (g x)) \<Longrightarrow> no_ub (out_each g xs)"
  by (induction xs) auto

lemma no_ub_delimited [simp]: "no_ub (delimited_out num bs)"
  by (auto simp: delimited_out_def length_out_def)

lemma no_ub_depth [simp]: "no_ub (depth_out d)"
  by (simp add: depth_out_def)

lemma table_of_linked: "linked tabs f = Some l \<Longrightarrow> upb_MiniTable_GetSubMessageTable tabs f = Inr l"
  by (auto simp: linked_def upb_MiniTable_GetSubMessageTable_def split: mini_sub.splits option.splits if_splits)

definition defined_on :: "msg_check \<Rightarrow> msg_out \<Rightarrow> bool" where
  "defined_on chk rec \<longleftrightarrow> (\<forall>d m l. chk m l \<longrightarrow> no_ub (rec d m l))"

lemma submsg_no_ub: "defined_on chk rec \<Longrightarrow> chk m l \<Longrightarrow> no_ub (submsg_out rec d f m l)"
  by (auto simp: submsg_out_def defined_on_def)

lemma number_no_ub:
  assumes "element_conforms chk tabs f c"
    and "wire_class (descriptortype f) \<in> {ClassVarint, ClassFixed64, ClassFixed32}"
  shows "no_ub (number_out (descriptortype f) (Some c))"
  using assms
  by (cases c; cases "descriptortype f")
    (auto simp: element_conforms_def number_out_eq varint_of_def wire_class_def scalar_width_def
      load1_def load4_def load8_def split: option.splits)

lemma element_sub:
  assumes "element_conforms chk tabs f c" and "wire_class (descriptortype f) \<in> {ClassGroup, ClassMessage}"
  obtains m l where "c = CellMsg (Some m)" "linked tabs f = Some l" "chk m l"
  using assms by (cases c) (auto simp: element_conforms_def split: option.splits)

lemma element_str:
  assumes "element_conforms chk tabs f c" and "wire_class (descriptortype f) = ClassString"
  obtains s where "c = CellStr s"
  using assms by (cases c) (auto simp: element_conforms_def split: option.splits)

lemma element_not_none: "element_conforms chk tabs f c \<Longrightarrow> wire_class (descriptortype f) \<noteq> ClassNone"
  by (cases c) (auto simp: element_conforms_def split: option.splits)

lemma scalar_no_ub:
  assumes r: "defined_on chk rec" and c: "element_conforms chk tabs f c"
  shows "no_ub (scalar_out rec tabs d (Some c) f)"
proof (cases "wire_class (descriptortype f)")
  case ClassString
  then obtain s where "c = CellStr s" using element_str[OF c] by blast
  with ClassString show ?thesis by (simp add: scalar_out_def load_str_def)
next
  case ClassGroup
  then obtain m l where "c = CellMsg (Some m)" "linked tabs f = Some l" "chk m l"
    using element_sub[OF c] by blast
  with ClassGroup r show ?thesis
    by (auto simp: scalar_out_def load_msg_def table_of_linked submsg_no_ub)
next
  case ClassMessage
  then obtain m l where "c = CellMsg (Some m)" "linked tabs f = Some l" "chk m l"
    using element_sub[OF c] by blast
  with ClassMessage r show ?thesis
    by (auto simp: scalar_out_def load_msg_def table_of_linked submsg_no_ub)
next
  case ClassNone
  then show ?thesis using element_not_none[OF c] by simp
qed (use number_no_ub[OF c] in \<open>auto simp: scalar_out_def\<close>)

lemma zero_scalar_no_ub:
  "wire_class (descriptortype f) \<noteq> ClassNone \<Longrightarrow> no_ub (scalar_out rec tabs d None f)"
  by (cases "descriptortype f")
    (auto simp: scalar_out_def wire_class_def number_out_eq varint_of_def load1_def load4_def
      load8_def load_str_def load_msg_def)

lemma array_no_ub:
  assumes r: "defined_on chk rec" and c: "\<forall>x \<in> set xs. element_conforms chk tabs f x"
  shows "no_ub (array_out rec tabs d (Some (CellArr (Some xs))) f)"
proof (cases "xs = []")
  case False
  then obtain x0 where x0: "x0 \<in> set xs" by (cases xs) auto
  have nums: "no_ub (numbers_out f xs)"
    if "wire_class (descriptortype f) \<in> {ClassVarint, ClassFixed64, ClassFixed32}"
    using number_no_ub[OF _ that] c by (auto simp: numbers_out_def Let_def intro!: no_ub_out_each no_ub_bindE)
  have strs: "no_ub (out_each (\<lambda>c. bindE (load_str (Some c)) (delimited_out (number f))) xs)"
    if "wire_class (descriptortype f) = ClassString"
  proof (rule no_ub_out_each)
    fix x assume "x \<in> set xs"
    with c have "element_conforms chk tabs f x" by blast
    from element_str[OF this that] obtain s where "x = CellStr s" by blast
    then show "no_ub (bindE (load_str (Some x)) (delimited_out (number f)))" by (simp add: load_str_def)
  qed
  have subs: "no_ub (bindE (upb_MiniTable_GetSubMessageTable tabs f) (\<lambda>subm.
      bindE (depth_out d) (\<lambda>d. out_each (\<lambda>c. bindE (load_msg (Some c)) (\<lambda>m. case m of
        None \<Rightarrow> Inl OutOfBounds | Some m \<Rightarrow> submsg_out rec d f m subm)) xs)))"
    if w: "wire_class (descriptortype f) \<in> {ClassGroup, ClassMessage}"
  proof -
    from element_sub[OF _ w] c x0 obtain l where l: "linked tabs f = Some l" by blast
    have "no_ub (bindE (load_msg (Some x)) (\<lambda>m. case m of
        None \<Rightarrow> Inl OutOfBounds | Some m \<Rightarrow> submsg_out rec d f m l))" if x: "x \<in> set xs" for x d
    proof -
      from c x have "element_conforms chk tabs f x" by blast
      from element_sub[OF this w] l obtain m where "x = CellMsg (Some m)" "chk m l" by auto
      with r show ?thesis by (simp add: load_msg_def submsg_no_ub)
    qed
    with l show ?thesis by (auto simp: table_of_linked intro!: no_ub_out_each)
  qed
  have "wire_class (descriptortype f) \<noteq> ClassNone" using c x0 element_not_none by blast
  with False nums strs subs show ?thesis
    by (cases "wire_class (descriptortype f)") (simp_all add: array_out_def load_arr_def Let_def)
qed (simp add: array_out_def load_arr_def)

lemma write_order_no_ub:
  assumes "map_conforms chk tabs layout m" and "length (mt_fields layout) = 2"
  shows "no_ub (map_write_order options layout m)"
  using assms
  by (auto simp: map_conforms_def map_write_order_def Let_def field_at_def
      upb_mapsorter_pushmap_def split: option.split intro!: no_ub_bindE)

lemma table_entries_set: "set tb = set tb' \<Longrightarrow> set (table_entries ks tb) = set (table_entries ks tb')"
  by (simp add: table_entries_def)

lemma write_order_set:
  assumes "map_write_order options layout m = Inr ents" and "ent \<in> set ents"
  shows "ent \<in> set (array_entries (key_size m) 0 (map_array m) @
    table_entries (key_size m) (map_table m))"
  using assms table_entries_set[of "qsort _ (map_table m)" "map_table m" "key_size m"]
  by (auto simp: map_write_order_def Let_def bindE_eq_Inr upb_mapsorter_pushmap_def qsort_set
      split: if_splits option.splits)

lemma map_no_ub:
  assumes r: "defined_on chk rec" and l: "linked tabs f = Some l" "length (mt_fields l) = 2"
    and m: "map_conforms chk tabs l m"
  shows "no_ub (map_out rec tabs options d (Some (CellMap (Some m))) f)"
proof -
  have "no_ub (entry_out rec tabs d (number f) l ent)"
    if "map_write_order options l m = Inr ents" "ent \<in> set ents" for ents ent
  proof -
    have "element_conforms chk tabs (mt_fields l ! 0) (fst ent)"
      and "element_conforms chk tabs (mt_fields l ! 1) (snd ent)"
      using write_order_set[OF that] m by (cases ent; fastforce simp: map_conforms_def)+
    with l scalar_no_ub[OF r] show ?thesis
      by (auto simp: entry_out_def field_at_def intro!: no_ub_bindE no_ub_then_out)
  qed
  then show ?thesis
    using l write_order_no_ub[OF m l(2)]
    by (auto simp: map_out_def load_map_def table_of_linked intro!: no_ub_out_each)
qed

lemma field_no_ub:
  assumes r: "defined_on chk rec" and c: "field_conforms chk tabs f c"
  shows "no_ub (field_out rec tabs options d c f)"
proof (cases "upb_MiniTableField_Mode f")
  case (Some md)
  show ?thesis
  proof (cases md)
    case kUpb_FieldMode_Map
    then obtain l where l: "linked tabs f = Some l" "length (mt_fields l) = 2"
      using c Some by (auto simp: field_conforms_def split: option.splits)
    from c Some kUpb_FieldMode_Map l consider "c = None \<or> c = Some (CellMap None)"
      | m where "c = Some (CellMap (Some m))" "map_conforms chk tabs l m"
      by (auto simp: field_conforms_def split: option.splits upb_Cell.splits)
    then show ?thesis
      using Some kUpb_FieldMode_Map l map_no_ub[OF r l]
      by cases (auto simp: field_out_def map_out_def load_map_def table_of_linked)
  next
    case kUpb_FieldMode_Array
    with c Some consider "c = None \<or> c = Some (CellArr None)"
      | xs where "c = Some (CellArr (Some xs))" "\<forall>x \<in> set xs. element_conforms chk tabs f x"
      by (auto simp: field_conforms_def split: option.splits upb_Cell.splits)
    then show ?thesis
      using Some kUpb_FieldMode_Array array_no_ub[OF r]
      by cases (auto simp: field_out_def array_out_def load_arr_def)
  next
    case kUpb_FieldMode_Scalar
    with c Some have nn: "wire_class (descriptortype f) \<noteq> ClassNone"
      by (auto simp: field_conforms_def)
    from c Some kUpb_FieldMode_Scalar consider "c = None"
      | "c = Some (CellMsg None)" "wire_class (descriptortype f) \<in> {ClassGroup, ClassMessage}"
      | x where "c = Some x" "element_conforms chk tabs f x"
      by (auto simp: field_conforms_def split: option.splits upb_Cell.splits)
    then show ?thesis
      using Some kUpb_FieldMode_Scalar scalar_no_ub[OF r] zero_scalar_no_ub[OF nn]
      by cases (auto simp: field_out_def scalar_out_def load_msg_def)
  qed
qed (use c in \<open>simp add: field_conforms_def\<close>)

lemma ext_no_ub:
  assumes r: "defined_on chk rec" and x: "ext_conforms chk tabs b x"
  shows "no_ub (ext_out rec tabs options d b x)"
proof (cases b)
  case True
  with x obtain m l where "snd x = CellMsg (Some m)" "linked tabs (fst x) = Some l" "chk m l"
    by (auto simp: ext_conforms_def split: upb_Cell.splits option.splits)
  with True r show ?thesis
    by (auto simp: ext_out_def load_msg_def table_of_linked defined_on_def)
next
  case False
  with x field_no_ub[OF r] show ?thesis by (simp add: ext_out_def ext_conforms_def)
qed

lemma shouldencode_no_ub:
  "(presence f = 0 \<Longrightarrow> rep_conforms f (cell_at msg f)) \<Longrightarrow> no_ub (encode_shouldencode msg f)"
  by (auto simp: rep_conforms_def encode_shouldencode_def load1_def load4_def load8_def load_str_def
      split: option.splits upb_Cell.splits upb_FieldRep.splits)

lemma message_out_no_ub: "defined_on (msg_conforms n tabs) (message_out n tabs options)"
proof (induction n)
  case (Suc n)
  show ?case
    unfolding defined_on_def
  proof (intro allI impI)
    fix d msg m assume c: "msg_conforms (Suc n) tabs msg m"
    have "set (upb_mapsorter_pushexts msg) = set (msg_exts msg)"
      by (simp add: upb_mapsorter_pushexts_def qsort_set)
    then have "no_ub (exts_out (message_out n tabs options) tabs options d m msg)"
      using c ext_no_ub[OF Suc] by (auto simp: body_conforms_def exts_out_def intro!: no_ub_out_each)
    moreover have "no_ub (present_out (message_out n tabs options) tabs options d msg f)"
      if "f \<in> set (mt_fields m)" for f
    proof -
      have f: "presence f = 0 \<longrightarrow> rep_conforms f (cell_at msg f)"
        "field_active msg f \<longrightarrow> field_conforms (msg_conforms n tabs) tabs f (cell_at msg f)"
        using c that by (auto simp: body_conforms_def)
      have "field_active msg f" if "encode_shouldencode msg f = Inr True"
        using that
        by (cases "presence f < 0")
          (auto simp: encode_shouldencode_def field_active_def upb_MiniTableField_HasHasbit_def)
      with f field_no_ub[OF Suc] show ?thesis
        unfolding present_out_def by (intro no_ub_bindE shouldencode_no_ub) auto
    qed
    ultimately show "no_ub (message_out (Suc n) tabs options d msg m)"
      by (auto simp: message_out_body_def intro!: no_ub_bindE no_ub_out_each)
  qed
qed (simp add: defined_on_def)

subsection \<open>Entry points\<close>

text \<open>The reference output of the two entry points.\<close>

definition encode_out :: "upb_MiniTable list \<Rightarrow> upb_Message \<Rightarrow> upb_MiniTable \<Rightarrow> u32 \<Rightarrow> out" where
  "encode_out tabs msg l options =
     message_out (Suc (msg_height msg)) tabs options
       (uint (upb_EncodeOptions_GetEffectiveMaxDepth options)) msg l"

definition prefixed_out :: "upb_MiniTable list \<Rightarrow> upb_Message \<Rightarrow> upb_MiniTable \<Rightarrow> u32 \<Rightarrow> out" where
  "prefixed_out tabs msg l options =
     bindE (encode_out tabs msg l options) (\<lambda>bs.
     bindE (length_out (length bs)) (\<lambda>n. Inr (n @ bs)))"

text \<open>When the entry point may report that it is out of memory.\<close>

definition oom_allowed :: "(nat \<Rightarrow> bool) \<Rightarrow> out \<Rightarrow> bool" where
  "oom_allowed arena out \<longleftrightarrow>
     (\<exists>n. \<not> arena n) \<or> (case out of Inl _ \<Rightarrow> True | Inr bs \<Rightarrow> 2 ^ 63 \<le> length bs)"

definition agrees :: "(nat \<Rightarrow> bool) \<Rightarrow> out \<Rightarrow> encode_result \<Rightarrow> bool" where
  "agrees arena out r =
     (case r of
        EncodeOk bs \<Rightarrow> out = Inr bs
      | EncodeError c \<Rightarrow> out = Inl (Thrown c) \<or> c = OutOfMemory \<and> oom_allowed arena out
      | EncodeFault f \<Rightarrow> out = Inl f \<and> (\<forall>c. f \<noteq> Thrown c))"

abbreviation initial_state :: "(nat \<Rightarrow> bool) \<Rightarrow> u32 \<Rightarrow> upb_encstate" where
  "initial_state arena options \<equiv>
     \<lparr>e_buf = [], e_options = options,
      e_depth = uint (upb_EncodeOptions_GetEffectiveMaxDepth options), alloc_ok = arena\<rparr>"

lemma step_agrees:
  assumes "step_emits 0 (initial_state arena options) r out"
  shows "agrees arena out (case r of Inr (ptr, e) \<Rightarrow> EncodeOk (drop ptr (e_buf e))
    | Inl (Thrown c) \<Rightarrow> EncodeError c | Inl f \<Rightarrow> EncodeFault f)"
  using assms
  by (cases out) (auto simp: step_emits_def agrees_def oom_excused_def oom_allowed_def
      split: sum.splits fault.splits prod.splits)

lemma Encode_opt_agrees:
  "agrees arena (if prepend then prefixed_out tabs msg l options else encode_out tabs msg l options)
     (upb_Encode_opt tabs arena msg l options prepend)"
proof -
  let ?e = "initial_state arena options" and ?n = "Suc (msg_height msg)"
  have ok: "enc_ok 0 ?e" by (simp add: enc_ok_def)
  have m: "msg_emits 0 ?e (encode_message ?n tabs 0 ?e msg l) (encode_out tabs msg l options)"
    using em.rec_emits[OF ok, of ?n tabs msg l] by (simp add: encode_out_def)
  have "step_emits 0 ?e (bindE (encode_message ?n tabs 0 ?e msg l) (\<lambda>(ptr, e, sz).
      if prepend then encode_length ptr e (of_nat sz) else Inr (ptr, e)))
      (then_out (encode_out tabs msg l options)
        (\<lambda>bs. if prepend then length_out (length bs) else Inr []))"
  proof (rule msg_emits_bind[OF m])
    fix p e' and bs :: "byte list" assume a: "enc_ok p e'" "length bs \<le> SIZE_MAX"
    then show "step_emits p e' ((\<lambda>(ptr, e, sz). if prepend then encode_length ptr e (of_nat sz)
        else Inr (ptr, e)) (p, e', length bs)) (if prepend then length_out (length bs) else Inr [])"
      using encode_length_emits[OF a(1), of "of_nat (length bs)"]
      by (simp add: unat_of_nat_64 step_emits_return)
  qed
  moreover have "then_out (encode_out tabs msg l options)
      (\<lambda>bs. if prepend then length_out (length bs) else Inr []) =
      (if prepend then prefixed_out tabs msg l options else encode_out tabs msg l options)"
    by (cases "encode_out tabs msg l options") (simp_all add: prefixed_out_def)
  ultimately show ?thesis
    using step_agrees by (simp add: upb_Encode_opt_def upb_Encoder_Encode_def)
qed

lemma encode_out_enough: "encode_out tabs msg l options \<noteq> Inl OutOfFuel"
  using message_out_enough[of "Suc (msg_height msg)" tabs options]
  by (simp add: encode_out_def enough_for_def)

lemma encode_out_safe:
  assumes "msg_conforms (Suc (msg_height msg)) tabs msg l"
  shows "safe (encode_out tabs msg l options)"
proof -
  have "no_ub (encode_out tabs msg l options)"
    using message_out_no_ub[of "Suc (msg_height msg)" tabs options] assms
    unfolding encode_out_def defined_on_def by blast
  with encode_out_enough[of tabs msg l options] show ?thesis
    by (auto simp: no_ub_def safe_def split: sum.splits fault.splits)
qed

lemma encode_no_fault:
  assumes "msg_conforms (Suc (msg_height msg)) tabs msg l"
  shows "upb_Encode tabs arena msg l options \<noteq> EncodeFault f"
  using encode_out_safe[OF assms, of options] Encode_opt_agrees[of arena False tabs msg l options]
  by (cases f) (auto simp: agrees_def upb_Encode_def safe_def)

lemma encode_ok:
  assumes "\<forall>n. arena n" and "encode_out tabs msg l options = Inr bs" and "length bs < 2 ^ 63"
  shows "upb_Encode tabs arena msg l options = EncodeOk bs"
  using assms Encode_opt_agrees[of arena False tabs msg l options]
  by (cases "upb_Encode tabs arena msg l options")
    (auto simp: agrees_def oom_allowed_def upb_Encode_def)

subsection \<open>Properties\<close>

text \<open>
  C16: the encoder refines the reference serialiser. For every message, layout, options and arena,
  \<open>upb_Encode\<close> returns the bytes of the reference serialiser, or the status code it gives; running
  out of memory is reported only when the arena refuses an allocation, the output has 2^63 bytes or
  the reference fails as well. So no byte depends on how the buffer grew.
\<close>

theorem upb_Encode_refines:
  "agrees arena (encode_out tabs msg l options) (upb_Encode tabs arena msg l options)"
  using Encode_opt_agrees[of arena False] by (simp add: upb_Encode_def)

text \<open>
  C19: the length-prefixed form. \<open>upb_EncodeLengthPrefixed\<close> returns the same bytes behind their
  number as a varint, and fails with \<open>MaxSizeExceeded\<close> when they are more than 2 GiB.
\<close>

theorem upb_EncodeLengthPrefixed_refines:
  "agrees arena (prefixed_out tabs msg l options) (upb_EncodeLengthPrefixed tabs arena msg l options)"
  using Encode_opt_agrees[of arena True] by (simp add: upb_EncodeLengthPrefixed_def)


definition point_table :: upb_MiniTable where
  "point_table = \<lparr>mt_fields =
     [\<lparr>number = 1, offset = 8, presence = 0, submsg = NoSub,
       descriptortype = kUpb_FieldType_Int32, mode = 0x42\<rparr>,
      \<lparr>number = 2, offset = 16, presence = 64, submsg = NoSub,
       descriptortype = kUpb_FieldType_String, mode = 0x82\<rparr>],
     ext = kUpb_ExtMode_NonExtendable, dense_below = 2, required_count = 0\<rparr>"

definition point_msg :: upb_Message where
  "point_msg = Message [(8, Cell4 150), (16, CellStr [104, 105])] [64] [] [] []"

lemmas point_simps = point_msg_def point_table_def



lemmas encode_eval = encode_out_def message_out_body_def exts_out_def ext_out_def present_out_def
  encode_shouldencode_def cell_at_def field_out_def scalar_out_def number_out_eq varint_of_def
  load1_def load4_def load8_def load_str_def load_msg_def wire_class_def submsg_out_def
  upb_MiniTableField_Mode_def upb_MiniTableField_GetRep_def upb_MiniTableField_HasHasbit_def
  upb_Message_GetHasbit_def delimited_out_def length_out_def tag_bytes_def make_tag_def
  varint_bytes.simps number_wire_type_def upb_EncodeOptions_GetEffectiveMaxDepth_def depth_out_def
  upb_MiniTable_GetSubMessageTable_def msgset_item_bytes_def group_bytes_def


definition set_table :: upb_MiniTable where
  "set_table = \<lparr>mt_fields = [], ext = kUpb_ExtMode_IsMessageSet, dense_below = 0, required_count = 0\<rparr>"

definition set_item :: upb_MiniTableField where
  "set_item = \<lparr>number = 5, offset = 0, presence = 0, submsg = SubMsg (Some 0),
     descriptortype = kUpb_FieldType_Message, mode = 0xCA\<rparr>"

primrec nested_sets :: "nat \<Rightarrow> upb_Message" where
  "nested_sets 0 = empty_msg"
| "nested_sets (Suc n) = Message [] [] [] [] [(set_item, CellMsg (Some (nested_sets n)))]"

primrec nested_set_bytes :: "nat \<Rightarrow> byte list" where
  "nested_set_bytes 0 = []"
| "nested_set_bytes (Suc n) = msgset_item_bytes 5 (nested_set_bytes n)"

lemma nested_sets_height: "msg_height (nested_sets n) = Suc n"
  by (induction n) (simp_all add: empty_msg_def)

lemma nested_sets_out:
  "n < fuel \<Longrightarrow> message_out fuel [set_table] 0x10000 d (nested_sets n) set_table = Inr (nested_set_bytes n)"
proof (induction n arbitrary: fuel)
  case 0
  then show ?case
    by (cases fuel) (simp_all add: message_out_body_def exts_out_def set_table_def empty_msg_def)
next
  case (Suc n)
  then obtain k where k: "fuel = Suc k" "n < k" by (cases fuel) auto
  have "upb_MiniTable_GetSubMessageTable [set_table] set_item = Inr set_table"
    by (simp add: upb_MiniTable_GetSubMessageTable_def set_item_def)
  then show ?case
    using Suc.IH[OF k(2)] k
    by (simp add: message_out_body_def exts_out_def ext_out_def load_msg_def set_table_def set_item_def)
qed

text \<open>
  C40: the depth limit does not bound message sets. A message nested as a field of a message uses up
  one level of the limit, but an item of a message set uses none: with the limit 1, which refuses
  every sub-message field, message sets nested in message sets, as deep as one likes, are written in full. The
  recursion of the encoder is bounded by the message alone there.
\<close>

theorem message_sets_ignore_depth:
  assumes "length (nested_set_bytes n) < 2 ^ 63"
  shows "upb_EncodeOptions_GetEffectiveMaxDepth 0x10000 = 1 \<and>
    upb_Encode [set_table] (\<lambda>_. True) (nested_sets n) set_table 0x10000 =
      EncodeOk (nested_set_bytes n)"
proof
  show "upb_EncodeOptions_GetEffectiveMaxDepth 0x10000 = 1"
    by (simp add: upb_EncodeOptions_GetEffectiveMaxDepth_def)
  have "encode_out [set_table] (nested_sets n) set_table 0x10000 = Inr (nested_set_bytes n)"
    unfolding encode_out_def nested_sets_height by (rule nested_sets_out) simp
  then show "upb_Encode [set_table] (\<lambda>_. True) (nested_sets n) set_table 0x10000 =
      EncodeOk (nested_set_bytes n)"
    using assms by (intro encode_ok) simp_all
qed

theorem message_sets_ignore_depth_witness:
  "upb_Encode [set_table] (\<lambda>_. True) (nested_sets (Suc (Suc 0))) set_table 0x10000 =
     EncodeOk (nested_set_bytes (Suc (Suc 0)))"
proof -
  have "length (nested_set_bytes (Suc (Suc 0))) < 2 ^ 63"
    by (simp add: msgset_item_bytes_def group_bytes_def tag_bytes_def make_tag_def varint_bytes.simps)
  from message_sets_ignore_depth[OF this] show ?thesis by (rule conjunct2)
qed

end
