(* ===== verification/Field_Safety.thy ===== *)
theory Field_Safety
  imports Decoder_Post Layout_Conforms Encoder_Safety
begin

text \<open>
  Storing parsed fields is safe and keeps messages well typed. The locale \<open>msg_parser\<close> is the contract of
  \<open>_upb_Decoder_DecodeMessage\<close> as the functions for fields use it: from a good state it jumps to the
  error handler or returns a good state and a message that conforms to its layout, and a message
  that did not end with an end-group tag ends exactly at the limit. Inside the locale each function
  for fields is shown to keep that contract, given it for sub-messages; \<open>Decoder_Safety\<close> interprets it by
  the parser itself. \<open>N\<close> bounds the bytes of the input that are left, on which that proof is by induction.
\<close>

subsection \<open>The contract\<close>

definition parse_ok :: "upb_MiniTable list \<Rightarrow> upb_MiniTable \<Rightarrow> upb_Decoder \<Rightarrow> int \<Rightarrow> upb_Message \<Rightarrow> bool" where
  "parse_ok tabs m d ptr msg \<longleftrightarrow>
     layouts_ok tabs \<and> registry_ok tabs (extreg d) \<and> fields_ok tabs m \<and> conforms tabs msg m \<and>
     dec_at d ptr \<and> \<not> message_is_done d \<and> end_group d = DECODE_NOGROUP"

definition left :: "upb_Decoder \<Rightarrow> int \<Rightarrow> nat" where
  "left d ptr = nat (input_size (d_input d) - dpos d ptr)"

text \<open>A whole message was parsed: only the end group may have changed, and then the limit may be ahead.\<close>

definition parsed :: "upb_Decoder \<Rightarrow> int \<Rightarrow> upb_Decoder \<Rightarrow> int \<Rightarrow> bool" where
  "parsed d ptr d' ptr' \<longleftrightarrow>
     moved d ptr (d'\<lparr>end_group := end_group d\<rparr>) ptr' \<and>
     (end_group d' = DECODE_NOGROUP \<longrightarrow> dpos d' ptr' = stream_lim (d_input d'))"

lemma parse_ok_moved:
  assumes "parse_ok tabs m d ptr msg" "moved d ptr d' ptr'" "fields_ok tabs m'" "conforms tabs msg' m'"
  shows "parse_ok tabs m' d' ptr' msg'"
  using assms by (auto simp: parse_ok_def moved_def dec_frame_def)

lemma left_moved: "moved d ptr d' ptr' \<Longrightarrow> left d' ptr' \<le> left d ptr"
  using moved_input[of d ptr d' ptr'] by (auto simp: left_def moved_def)

lemma linked_ok: "layouts_ok tabs \<Longrightarrow> linked tabs f = Some l \<Longrightarrow> table_ok tabs l \<and> fields_ok tabs l"
  using linked_in_tabs[of tabs f l] by (simp add: layouts_ok_def table_ok_def)

subsection \<open>Operations that fit a field\<close>

text \<open>The operations \<open>DecodeWireValue\<close> chooses for a field write values of the field's type.\<close>

definition op_fits :: "upb_MiniTable list \<Rightarrow> upb_MiniTableField \<Rightarrow> upb_DecodeOp \<Rightarrow> bool" where
  "op_fits tabs f op \<longleftrightarrow>
     (case op of
        kUpb_DecodeOp_Scalar1Byte \<Rightarrow> wire_class (descriptortype f) = ClassVarint \<and> scalar_width (descriptortype f) = 1
      | kUpb_DecodeOp_Scalar4Byte \<Rightarrow> wire_class (descriptortype f) \<in> {ClassVarint, ClassFixed32} \<and>
          scalar_width (descriptortype f) = 4
      | kUpb_DecodeOp_Scalar8Byte \<Rightarrow> wire_class (descriptortype f) \<in> {ClassVarint, ClassFixed64} \<and>
          scalar_width (descriptortype f) = 8
      | kUpb_DecodeOp_String \<Rightarrow> wire_class (descriptortype f) = ClassString
      | kUpb_DecodeOp_Bytes \<Rightarrow> wire_class (descriptortype f) = ClassString
      | kUpb_DecodeOp_SubMessage \<Rightarrow> upb_MiniTableField_IsSubMessage f \<and> linked tabs f \<noteq> None
      | OP_FIXPCK_LG2 n \<Rightarrow> upb_MiniTableField_IsArray f \<and>
          (n = 2 \<and> wire_class (descriptortype f) = ClassFixed32 \<or>
           n = 3 \<and> wire_class (descriptortype f) = ClassFixed64)
      | OP_VARPCK_LG2 n \<Rightarrow> upb_MiniTableField_IsArray f \<and> wire_class (descriptortype f) = ClassVarint \<and>
          descriptortype f \<noteq> kUpb_FieldType_Enum \<and> n \<in> {0, 2, 3} \<and> scalar_width (descriptortype f) = 2 ^ n
      | kUpb_DecodeOp_PackedEnum \<Rightarrow> upb_MiniTableField_IsArray f \<and> descriptortype f = kUpb_FieldType_Enum
      | _ \<Rightarrow> False)"

lemma str_element: "wire_class (descriptortype f) = ClassString \<Longrightarrow> element_conforms chk tabs f (CellStr s)"
  by (simp add: element_conforms_def)

lemma sub_element:
  "upb_MiniTableField_IsSubMessage f \<Longrightarrow> linked tabs f = Some l \<Longrightarrow> chk s l \<Longrightarrow>
   element_conforms chk tabs f (CellMsg (Some s))"
  by (simp add: element_conforms_def IsSubMessage_class)

lemma scalar_element:
  "op_fits tabs f kUpb_DecodeOp_Scalar1Byte \<Longrightarrow> val_cell 0 v = Inr c \<Longrightarrow> element_conforms chk tabs f c"
  "op_fits tabs f kUpb_DecodeOp_Scalar4Byte \<Longrightarrow> val_cell 2 v = Inr c \<Longrightarrow> element_conforms chk tabs f c"
  "op_fits tabs f kUpb_DecodeOp_Scalar8Byte \<Longrightarrow> val_cell 3 v = Inr c \<Longrightarrow> element_conforms chk tabs f c"
  by (auto simp: op_fits_def val_cell_def element_conforms_def)

lemma packed_element:
  "op_fits tabs f (OP_VARPCK_LG2 n) \<Longrightarrow> val_cell n v = Inr c \<Longrightarrow> element_conforms chk tabs f c"
  "op_fits tabs f (OP_FIXPCK_LG2 2) \<Longrightarrow> element_conforms chk tabs f (Cell4 w)"
  "op_fits tabs f (OP_FIXPCK_LG2 3) \<Longrightarrow> element_conforms chk tabs f (Cell8 x)"
  "op_fits tabs f kUpb_DecodeOp_PackedEnum \<Longrightarrow> element_conforms chk tabs f (Cell4 w)"
  using class_width[of "descriptortype f"]
  by (auto simp: op_fits_def val_cell_def element_conforms_def wire_class_def scalar_width_def split: if_splits)

text \<open>What storing a parsed value in a field delivers.\<close>

definition stored ::
    "upb_MiniTable list \<Rightarrow> upb_MiniTable \<Rightarrow> upb_MiniTableField \<Rightarrow> upb_DecodeOp \<Rightarrow> upb_Message \<Rightarrow>
     upb_Message \<Rightarrow> bool" where
  "stored tabs m f op msg msg' \<longleftrightarrow>
     conforms tabs msg' m \<and> grows m msg msg' \<and> cell_at msg' f \<noteq> None \<and>
     (upb_MiniTableField_IsMap f \<or> msg_unknown msg' = msg_unknown msg) \<and>
     (op = kUpb_DecodeOp_SubMessage \<and> upb_MiniTableField_IsScalar f \<longrightarrow> has_sub msg' f)"

lemma array_cell:
  assumes "field_conforms chk tabs f c" "upb_MiniTableField_IsArray f"
  shows "\<exists>a. load_arr c = Inr a \<and> (\<forall>xs. a = Some xs \<longrightarrow> (\<forall>x \<in> set xs. element_conforms chk tabs f x))"
  using assms
  by (auto simp: field_conforms_def upb_MiniTableField_IsArray_def load_arr_def
      split: option.splits upb_Cell.splits)

text \<open>A container replaced in its field.\<close>

lemma nonscalar_presence: "field_ok tabs f \<Longrightarrow> \<not> upb_MiniTableField_IsScalar f \<Longrightarrow> 0 \<le> presence f"
  by (force simp: field_ok_def)

lemma container_stored:
  assumes "fields_ok tabs m" "f \<in> set (mt_fields m)" "conforms tabs msg m" "\<not> upb_MiniTableField_IsScalar f"
    and "field_conforms (conforms tabs) tabs f (Some x)"
  shows "stored tabs m f op msg (put_cell msg f x)"
proof -
  have f: "field_ok tabs f" using fields_okD(2)[OF assms(1,2)] .
  have p: "0 \<le> presence f" using nonscalar_presence[OF f assms(4)] .
  from conforms_put_cell[OF assms(1-3) p assms(5)] have "conforms tabs (put_cell msg f x) m" .
  moreover have "\<not> has_sub msg f"
  proof
    assume "has_sub msg f"
    moreover have "field_conforms (conforms tabs) tabs f (cell_at msg f)"
      using conforms_field[OF assms(3,2)] p by (simp add: field_active_def)
    ultimately show False
      using assms(4)
      by (cases "the (upb_MiniTableField_Mode f)")
        (auto simp: has_sub_def field_conforms_def upb_MiniTableField_IsScalar_def split: option.splits)
  qed
  ultimately show ?thesis
    using assms(4) by (auto simp: stored_def intro!: grows_put[OF assms(1,2)])
qed

lemma array_stored:
  assumes "fields_ok tabs m" "f \<in> set (mt_fields m)" "conforms tabs msg m" "upb_MiniTableField_IsArray f"
    and "\<forall>x \<in> set xs. element_conforms (conforms tabs) tabs f x"
  shows "stored tabs m f op msg (put_cell msg f (CellArr (Some xs)))"
  using assms(4,5)
  by (intro container_stored[OF assms(1-3)])
    (simp_all add: field_conforms_def upb_MiniTableField_IsArray_def upb_MiniTableField_IsScalar_def)

text \<open>The array a repeated field holds, and the field with one more element.\<close>

definition array_elems :: "upb_Cell list option \<Rightarrow> upb_Cell list" where
  "array_elems a = (case a of Some xs \<Rightarrow> xs | None \<Rightarrow> [])"

lemma array_field_cell:
  assumes "fields_ok tabs m" "f \<in> set (mt_fields m)" "conforms tabs msg m" "upb_MiniTableField_IsArray f"
  shows "\<exists>a. load_arr (cell_at msg f) = Inr a \<and>
    (\<forall>x \<in> set (array_elems a). element_conforms (conforms tabs) tabs f x)"
proof -
  have "0 \<le> presence f"
    using fields_okD(2)[OF assms(1,2)] assms(4)
    by (force simp: field_ok_def upb_MiniTableField_IsArray_def upb_MiniTableField_IsScalar_def)
  then have "field_conforms (conforms tabs) tabs f (cell_at msg f)"
    using conforms_field[OF assms(3,2)] by (simp add: field_active_def)
  from array_cell[OF this assms(4)] show ?thesis by (auto simp: array_elems_def split: option.split)
qed

lemma open_array_then:
  "post Q (k (array_elems a) (next_mem d)) \<Longrightarrow>
   post Q (bindE (case a of
       Some arr \<Rightarrow> bindE (upb_Decoder_Reserve d) (\<lambda>d. Inr (arr, d))
     | None \<Rightarrow> bindE (upb_Decoder_CreateArray d) (\<lambda>d. Inr ([], d))) (\<lambda>(arr, d). k arr d))"
  by (cases a)
    (auto simp: array_elems_def bindE_assoc upb_Decoder_CreateArray_def intro!: Reserve_then mem_then)

lemma append_scalar_post:
  assumes "n \<in> {0, 2, 3}" "moved d ptr d1 ptr"
    and "\<And>c. val_cell n val = Inr c \<Longrightarrow> stored tabs m f op msg (g c)"
  shows "post (\<lambda>(ptr', (msg', unk), d'). moved d ptr d' ptr' \<and> stored tabs m f op msg msg')
    (bindE (val_cell n val) (\<lambda>c. Inr (ptr, (g c, []), d1)))"
  using assms val_cell_Inr[OF assms(1), of val] by auto

lemma append_string_post:
  assumes "moved d ptr d1 ptr" and "\<And>s. stored tabs m f op msg (g s)"
  shows "post (\<lambda>(ptr', (msg', unk), d'). moved d ptr d' ptr' \<and> stored tabs m f op msg msg')
    (bindE (upb_Decoder_ReadString2 d1 ptr sz u) (\<lambda>(ptr, s, d). Inr (ptr, (g s, []), d)))"
  using assms by (intro post_bindE[OF ReadString2_post[OF moved_at[OF assms(1)]]]) (auto intro: moved_trans)

text \<open>A scalar field with a new value.\<close>

lemma scalar_stored:
  assumes "fields_ok tabs m" "f \<in> set (mt_fields m)" "conforms tabs msg m" "upb_MiniTableField_IsScalar f"
    and "op_fits tabs f op" "element_conforms (conforms tabs) tabs f x"
  shows "stored tabs m f op msg (put_cell (set_presence msg f op) f x)"
proof -
  have f: "field_ok tabs f" using fields_okD(2)[OF assms(1,2)] .
  have new: "conforms tabs (put_cell (set_presence msg f op) f x) m"
    by (rule conforms_put_present[OF assms(1-3) scalar_conforms[OF f assms(4,6)]])
  have sub: "upb_MiniTableField_IsSubMessage f \<Longrightarrow> has_sub (put_cell (set_presence msg f op) f x) f"
    using assms(6) unfolding IsSubMessage_class
    by (auto simp: has_sub_def element_conforms_def split: upb_Cell.splits option.splits)
  have "upb_MiniTableField_IsSubMessage f" if "0 \<le> presence f" "has_sub msg f"
  proof -
    have "field_conforms (conforms tabs) tabs f (cell_at msg f)"
      using conforms_field[OF assms(3,2)] that by (simp add: field_active_def)
    with that(2) assms(4) show ?thesis
      by (auto simp: IsSubMessage_class has_sub_def field_conforms_def element_conforms_def
          upb_MiniTableField_IsScalar_def)
  qed
  then have "grows m msg (put_cell (set_presence msg f op) f x)"
    using sub set_presence_parts(3)[of _ f] by (intro grows_put[OF assms(1,2)]) auto
  moreover have "op = kUpb_DecodeOp_SubMessage \<Longrightarrow> upb_MiniTableField_IsSubMessage f"
    using assms(5) by (simp add: op_fits_def)
  ultimately show ?thesis
    using new sub by (auto simp: stored_def set_presence_parts)
qed

text \<open>The sub-message a parse continues with: the one the field has, if it is the field's own.\<close>

lemma sub_cell:
  assumes "field_ok tabs f" "f \<in> set (mt_fields m)" "conforms tabs msg m" "upb_MiniTableField_IsScalar f"
    and "upb_MiniTableField_IsSubMessage f" "linked tabs f = Some l"
  shows "\<exists>s. load_msg (cell_at (set_presence msg f kUpb_DecodeOp_SubMessage) f) = Inr s \<and>
    (case s of None \<Rightarrow> True | Some sub \<Rightarrow> conforms tabs sub l)"
proof (cases "field_active msg f")
  case True
  have "cell_at (set_presence msg f kUpb_DecodeOp_SubMessage) f = cell_at msg f"
    using True by (auto simp: set_presence_def field_active_def upb_MiniTableField_IsInOneof_def)
  then show ?thesis
    using conforms_field[OF assms(3,2) True] assms(4-6)
    by (auto simp: field_conforms_def upb_MiniTableField_IsScalar_def IsSubMessage_class
        element_conforms_def load_msg_def split: option.splits upb_Cell.splits)
next
  case False
  then have "cell_at (set_presence msg f kUpb_DecodeOp_SubMessage) f = None"
    by (simp add: set_presence_def field_active_def upb_MiniTableField_IsInOneof_def
        upb_MiniTableField_HasHasbit_def)
  then show ?thesis by (simp add: load_msg_def)
qed

lemma parse_sub:
  assumes "parse_ok tabs m d ptr msg" "linked tabs f = Some l"
  shows "parse_ok tabs l (next_mem d) ptr empty_msg" "conforms tabs sub l \<Longrightarrow> parse_ok tabs l d ptr sub"
  using assms linked_ok[of tabs f l] empty_conforms[of tabs l] by (auto simp: parse_ok_def)

lemma left_next_mem [simp]: "left (next_mem d) ptr = left d ptr"
  by (simp add: left_def)

text \<open>Maps and their entries.\<close>

lemma map_field:
  assumes "field_ok tabs f" "upb_MiniTableField_IsMap f"
  obtains l where "linked tabs f = Some l" "map_entry_ok tabs l"
    "upb_MiniTableField_Type f = Inr kUpb_FieldType_Message"
  using assms by (auto simp: field_ok_def upb_MiniTableField_Type_def split: option.splits)

lemma map_field_cell:
  assumes "fields_ok tabs m" "f \<in> set (mt_fields m)" "conforms tabs msg m" "upb_MiniTableField_IsMap f"
    and "linked tabs f = Some l"
  shows "\<exists>a. load_map (cell_at msg f) = Inr a \<and>
    (\<forall>m0. a = Some m0 \<longrightarrow> map_conforms (conforms tabs) tabs l m0)"
proof -
  have "0 \<le> presence f"
    using nonscalar_presence[OF fields_okD(2)[OF assms(1,2)]] assms(4)
    by (simp add: upb_MiniTableField_IsMap_def upb_MiniTableField_IsScalar_def)
  then have "field_conforms (conforms tabs) tabs f (cell_at msg f)"
    using conforms_field[OF assms(3,2)] by (simp add: field_active_def)
  then show ?thesis
    using assms(4,5)
    by (auto simp: field_conforms_def upb_MiniTableField_IsMap_def load_map_def
        split: option.splits upb_Cell.splits)
qed

lemma map_stored:
  assumes "fields_ok tabs m" "f \<in> set (mt_fields m)" "conforms tabs msg m" "upb_MiniTableField_IsMap f"
    and "linked tabs f = Some l" "map_entry_ok tabs l" "map_conforms (conforms tabs) tabs l m1"
  shows "stored tabs m f op msg (put_cell msg f (CellMap (Some m1)))"
  using assms(4-)
  by (intro container_stored[OF assms(1-3)])
    (simp_all add: field_conforms_def upb_MiniTableField_IsMap_def upb_MiniTableField_IsScalar_def map_entry_ok_def)

lemma stored_AddUnknown:
  "stored tabs m f op msg msg' \<Longrightarrow> upb_MiniTableField_IsMap f \<Longrightarrow>
   stored tabs m f op msg (upb_Message_AddUnknown msg' u)"
  by (auto simp: stored_def conforms_AddUnknown has_sub_def grows_def)

lemma put_cell_twice [simp]: "put_cell (put_cell msg f a) f b = put_cell msg f b"
  by (simp add: put_cell_def split_def)

definition linked_value :: "upb_MiniTable list \<Rightarrow> upb_MiniTable \<Rightarrow> upb_MiniTable option" where
  "linked_value tabs l =
     (if upb_MiniTableField_IsSubMessage (mt_fields l ! 1) then linked tabs (mt_fields l ! 1) else None)"

lemma map_entry_okD:
  assumes "map_entry_ok tabs l"
  shows "length (mt_fields l) = 2" "mt_fields l ! 0 \<in> set (mt_fields l)" "mt_fields l ! 1 \<in> set (mt_fields l)"
    "upb_MiniTableField_IsScalar (mt_fields l ! 0)" "upb_MiniTableField_IsScalar (mt_fields l ! 1)"
    "0 \<le> presence (mt_fields l ! 0)" "0 \<le> presence (mt_fields l ! 1)"
    "upb_MiniTableField_IsSubMessage (mt_fields l ! 1) \<longleftrightarrow> linked_value tabs l \<noteq> None"
    "wire_class (descriptortype (mt_fields l ! 0)) \<notin> {ClassGroup, ClassMessage}"
  using assms by (auto simp: map_entry_ok_def linked_value_def)

lemma entry_field_conforms:
  assumes "map_entry_ok tabs l" "conforms tabs ent l" "f \<in> set (mt_fields l)" "cell_at ent f = Some x"
    "x \<noteq> CellMsg None \<or> wire_class (descriptortype f) \<notin> {ClassGroup, ClassMessage}"
  shows "element_conforms (conforms tabs) tabs f x"
proof -
  have f: "upb_MiniTableField_IsScalar f" "field_active ent f"
    using assms(1,3) by (auto simp: map_entry_ok_def field_active_def)
  from conforms_field[OF assms(2,3) f(2)] show ?thesis
    using assms(4,5) f(1)
    by (auto simp: field_conforms_def upb_MiniTableField_IsScalar_def split: upb_Cell.splits option.splits)
qed

lemma AddMapEntryUnknown_post:
  assumes "conforms tabs ent l"
  shows "post (\<lambda>(msg', d'). d' = next_mem d \<and> (\<exists>u. msg' = upb_Message_AddUnknown msg u))
    (upb_Decoder_AddMapEntryUnknown tabs d msg f ent l)"
proof -
  have "msg_conforms (Suc (msg_height ent)) tabs ent l" using assms unfolding conforms_def by blast
  from encode_no_fault[OF this, of "d_enc_mem d" 0] show ?thesis
    by (cases "upb_Encode tabs (d_enc_mem d) ent l 0")
      (auto simp: upb_Decoder_AddMapEntryUnknown_def Let_def intro!: mem_then)
qed

lemma CreateMap_post:
  assumes "fields_ok tabs l" "map_entry_ok tabs l"
  shows "post (\<lambda>(m1, d1). d1 = next_mem d \<and> map_conforms chk tabs l m1)
    (upb_Decoder_CreateMap d (mt_fields l ! 0) (mt_fields l ! 1))"
proof -
  have cls: "wire_class (descriptortype (mt_fields l ! 0)) \<noteq> ClassNone"
    "wire_class (descriptortype (mt_fields l ! 1)) \<noteq> ClassNone"
    using fields_okD(2)[OF assms(1)] map_entry_okD(2,3)[OF assms(2)] by (auto simp: field_ok_def)
  then show ?thesis
    using new_map_conforms[OF assms(2) cls(1), where chk = chk]
    by (auto simp: upb_Decoder_CreateMap_def kSizeInMap_eq key_width_def intro!: mem_then)
qed

lemma Map_Insert_post:
  assumes l: "fields_ok tabs l" "map_entry_ok tabs l" and m: "map_conforms (conforms tabs) tabs l m1"
    and ent: "conforms tabs ent l" "linked_value tabs l \<noteq> None \<Longrightarrow> has_sub ent (mt_fields l ! 1)"
  shows "post (\<lambda>(m2, d'). d' = next_mem d \<and> map_conforms (conforms tabs) tabs l m2)
    (upb_Map_Insert d m1 (cell_at ent (mt_fields l ! 0)) (entry_value (mt_fields l ! 1) ent))"
proof -
  let ?kf = "mt_fields l ! 0" and ?vf = "mt_fields l ! 1"
  note e = map_entry_okD[OF l(2)]
  have cls: "wire_class (descriptortype ?kf) \<noteq> ClassNone" "wire_class (descriptortype ?vf) \<noteq> ClassNone"
    using fields_okD(2)[OF l(1) e(2)] fields_okD(2)[OF l(1) e(3)] by (auto simp: field_ok_def)
  have v: "element_conforms (conforms tabs) tabs ?vf (entry_value ?vf ent)"
  proof (cases "upb_MiniTableField_IsSubMessage ?vf")
    case True
    then obtain s where "cell_at ent ?vf = Some (CellMsg (Some s))" using ent(2) e(8) by (auto simp: has_sub_def)
    with entry_field_conforms[OF l(2) ent(1) e(3)] show ?thesis by (simp add: entry_value_def)
  next
    case False
    then have "wire_class (descriptortype ?vf) \<notin> {ClassNone, ClassGroup, ClassMessage}"
      using cls by (simp add: IsSubMessage_class)
    then show ?thesis
      using entry_field_conforms[OF l(2) ent(1) e(3)] zero_scalar_element[of _ ?vf]
      by (auto simp: entry_value_def split: option.split)
  qed
  have kc: "case cell_at ent ?kf of None \<Rightarrow> True | Some x \<Rightarrow> element_conforms (conforms tabs) tabs ?kf x"
    using entry_field_conforms[OF l(2) ent(1) e(2)] e(9) by (auto split: option.split)
  obtain k where k: "upb_map_tokey (key_size m1) (cell_at ent ?kf) = Inr k"
    "element_conforms (conforms tabs) tabs ?kf (key_cell (key_size m1) k)"
    "(case k of KeyStr _ \<Rightarrow> True | _ \<Rightarrow> False) = is_strtable m1"
    using tokey_ok[OF _ kc] cls(1) e(9) m by (auto simp: map_conforms_def)
  show ?thesis
    using k v map_put_conforms[OF m] by (auto simp: upb_Map_Insert_def intro!: mem_then)
qed

text \<open>The data of an extension, seen as a message with that field only.\<close>

definition view_table :: "upb_MiniTableField \<Rightarrow> upb_MiniTable" where
  "view_table f = \<lparr>mt_fields = [f], ext = kUpb_ExtMode_NonExtendable, dense_below = 0, required_count = 0\<rparr>"

lemma view_conforms:
  assumes "ext_field_ok tabs x f" "field_conforms (conforms tabs) tabs f (Some c)"
  shows "fields_ok tabs (view_table f) \<and> conforms tabs (ext_view c) (view_table f)"
proof
  have f: "field_ok tabs f" "offset f = 0" "presence f = 0" using assms(1) by (auto simp: ext_field_ok_def)
  then show "fields_ok tabs (view_table f)" by (simp add: fields_ok_def view_table_def table_wf_def)
  show "conforms tabs (ext_view c) (view_table f)"
    using f assms(2) rep_of_conforms[OF f(1) assms(2)]
    by (subst conforms_unfold) (simp add: body_conforms_def view_table_def ext_view_def cell_at_def)
qed

lemma view_result:
  assumes "ext_field_ok tabs x f" "op_fits tabs f op" "stored tabs (view_table f) f op (ext_view c) view"
  shows "\<exists>y. cell_at view f = Some y \<and> ext_conforms (conforms tabs) tabs (x = kUpb_ExtMode_IsMessageSet) (f, y)"
proof -
  have f: "presence f = 0" using assms(1) by (auto simp: ext_field_ok_def)
  obtain y where y: "cell_at view f = Some y" using assms(3) by (auto simp: stored_def)
  have fc: "field_conforms (conforms tabs) tabs f (Some y)"
    using conforms_field[of tabs view "view_table f" f] assms(3) f y
    by (simp add: stored_def view_table_def field_active_def)
  show ?thesis
  proof (cases "x = kUpb_ExtMode_IsMessageSet")
    case True
    with assms(1) have ms: "upb_MiniTableField_IsScalar f" "descriptortype f = kUpb_FieldType_Message"
      by (auto simp: ext_field_ok_def)
    then have "op = kUpb_DecodeOp_SubMessage"
      using assms(2)
      by (auto simp: op_fits_def wire_class_def upb_MiniTableField_IsScalar_def upb_MiniTableField_IsArray_def
          split: upb_DecodeOp.splits)
    with assms(3) ms y obtain s where "y = CellMsg (Some s)" by (auto simp: stored_def has_sub_def)
    with fc ms y True show ?thesis
      by (auto simp: ext_conforms_def field_conforms_def upb_MiniTableField_IsScalar_def element_conforms_def)
  qed (use y fc in \<open>simp add: ext_conforms_def\<close>)
qed

locale msg_parser =
  fixes rec :: msg_decoder and tabs :: "upb_MiniTable list" and N :: nat
  assumes rec_post: "parse_ok tabs m d ptr msg \<Longrightarrow> table_ok tabs m \<Longrightarrow> left d ptr < N \<Longrightarrow>
    post (\<lambda>(ptr', msg', d'). parsed d ptr d' ptr' \<and> conforms tabs msg' m \<and> grows m msg msg')
      (rec d ptr msg m)"
begin

text \<open>Sub-messages and groups.\<close>

lemma Recurse_post:
  assumes "parse_ok tabs m d ptr msg" "table_ok tabs m" "left d ptr < N"
  shows "post (\<lambda>(ptr', msg', d'). moved d ptr (d'\<lparr>end_group := end_group d\<rparr>) ptr' \<and> end_group d' = g \<and>
      (g = DECODE_NOGROUP \<longrightarrow> dpos d' ptr' = stream_lim (d_input d')) \<and>
      conforms tabs msg' m \<and> grows m msg msg')
    (upb_Decoder_RecurseSubMessage rec d ptr msg m g)"
proof (cases "d_depth d - 1 < 0")
  case False
  let ?d = "d\<lparr>d_depth := d_depth d - 1\<rparr>"
  have "parse_ok tabs m ?d ptr msg" "left ?d ptr < N"
    using assms(1,3) by (simp_all add: parse_ok_def left_def)
  from rec_post[OF this(1) assms(2) this(2)] show ?thesis
    using False
    by (auto simp: upb_Decoder_RecurseSubMessage_def Let_def parsed_def moved_def dec_frame_def
        intro!: post_bindE[where P = "\<lambda>(ptr', msg', d'). parsed ?d ptr d' ptr' \<and> conforms tabs msg' m \<and>
          grows m msg msg'"])
qed (simp add: upb_Decoder_RecurseSubMessage_def)

lemma DecodeSubMessage_post:
  assumes "parse_ok tabs l d ptr sub" "linked tabs field = Some l" "left d ptr < N"
  shows "post (\<lambda>(ptr', sub', d'). moved d ptr d' ptr' \<and> conforms tabs sub' l \<and> grows l sub sub')
    (upb_Decoder_DecodeSubMessage rec tabs d ptr sub field sz)"
proof -
  have l: "table_ok tabs l"
    using assms(1) linked_in_tabs[OF assms(2)] by (simp add: parse_ok_def layouts_ok_def)
  have at: "dec_at d ptr" using assms(1) by (simp add: parse_ok_def)
  have g: "end_group d = DECODE_NOGROUP" using assms(1) by (simp add: parse_ok_def)
  show ?thesis
    unfolding upb_Decoder_DecodeSubMessage_def linked_table_Some[OF assms(2)] bindE_Inr
  proof (rule limited_post[OF at])
    fix e assume w: "within d ptr (d\<lparr>d_input := e\<rparr>)"
    let ?d = "d\<lparr>d_input := e\<rparr>"
    have "parse_ok tabs l ?d ptr sub" "left ?d ptr < N"
      using assms(1,3) w by (auto simp: parse_ok_def within_def left_def eps_frame_def input_size_def)
    from Recurse_post[OF this(1) l this(2), of DECODE_NOGROUP]
    show "post (\<lambda>(ptr', x, d'). moved ?d ptr d' ptr' \<and> dpos d' ptr' = stream_lim (d_input d') \<and>
        conforms tabs x l \<and> grows l sub x)
      (upb_Decoder_RecurseSubMessage rec ?d ptr sub l DECODE_NOGROUP)"
      by (rule post_mono) (auto simp: moved_def dec_frame_def g)
  qed
qed

lemma DecodeKnownGroup_post:
  assumes "parse_ok tabs l d ptr sub" "linked tabs field = Some l" "left d ptr < N"
  shows "post (\<lambda>(ptr', sub', d'). moved d ptr d' ptr' \<and> conforms tabs sub' l \<and> grows l sub sub')
    (upb_Decoder_DecodeKnownGroup rec tabs d ptr sub field)"
proof -
  have l: "table_ok tabs l"
    using assms(1) linked_in_tabs[OF assms(2)] by (simp add: parse_ok_def layouts_ok_def)
  have at: "dec_at d ptr" "end_group d = DECODE_NOGROUP" using assms(1) by (simp_all add: parse_ok_def)
  show ?thesis
    unfolding upb_Decoder_DecodeKnownGroup_def upb_Decoder_DecodeGroup_def
      linked_table_Some[OF assms(2)] bindE_Inr
  proof (rule done_then[OF at(1)], goal_cases)
    case (2 p d1)
    have p: "parse_ok tabs l d1 p sub" "left d1 p < N"
      using assms(1,3) 2(1,2) moved_input[OF 2(1)]
      by (auto simp: parse_ok_def moved_def dec_frame_def left_def)
    show ?case
      unfolding if_False
    proof (rule post_bindE[OF Recurse_post[OF p(1) l p(2)]], clarsimp)
      fix p2 sub2 d2
      assume "moved d1 p (d2\<lparr>end_group := end_group d1\<rparr>) p2"
      from moved_trans[OF 2(1) this] show "moved d ptr (d2\<lparr>end_group := DECODE_NOGROUP\<rparr>) p2"
        using at(2) 2(1) by (auto simp: moved_def dec_frame_def)
    qed
  qed simp
qed

lemma decode_sub_post:
  assumes "parse_ok tabs l d ptr sub" "linked tabs field = Some l" "left d ptr < N"
  shows "post (\<lambda>(ptr', sub', d'). moved d ptr d' ptr' \<and> conforms tabs sub' l \<and> grows l sub sub')
    (decode_sub rec tabs d ptr sub field val)"
  using DecodeSubMessage_post[OF assms] DecodeKnownGroup_post[OF assms] by (simp add: decode_sub_def)

text \<open>Repeated fields.\<close>

lemma NewSubMessage_then:
  assumes "linked tabs f = Some l" "post Q (k (empty_msg, next_mem d))"
  shows "post Q (bindE (upb_Decoder_NewSubMessage tabs d f) k)"
  using assms by (auto simp: upb_Decoder_NewSubMessage_def linked_table_Some bindE_assoc intro!: mem_then)

lemma DecodeToArray_post:
  assumes ok: "parse_ok tabs m d ptr msg" "f \<in> set (mt_fields m)" "left d ptr < N"
    and arr: "upb_MiniTableField_IsArray f" and fits: "op_fits tabs f op"
  shows "post (\<lambda>(ptr', (msg', unk), d'). moved d ptr d' ptr' \<and> stored tabs m f op msg msg')
    (upb_Decoder_DecodeToArray rec tabs d ptr msg f val op)"
proof -
  have c: "fields_ok tabs m" "conforms tabs msg m" "dec_at d ptr" "layouts_ok tabs"
    using ok by (auto simp: parse_ok_def)
  let ?P = "element_conforms (conforms tabs) tabs f" and ?d = "next_mem d"
  obtain a where a: "load_arr (cell_at msg f) = Inr a" "\<forall>x \<in> set (array_elems a). ?P x"
    using array_field_cell[OF c(1) ok(2) c(2) arr] by blast
  let ?a = "array_elems a"
  have at: "dec_at ?d ptr" "moved d ptr ?d ptr" using c(3) moved_refl by simp_all
  note st = array_stored[OF c(1) ok(2) c(2) arr, of _ op]
  have st1: "stored tabs m f op msg (put_cell msg f (CellArr (Some (?a @ [x]))))" if "?P x" for x
    using st a(2) that by auto
  note fits' = fits scalar_element[where tabs = tabs and f = f] packed_element[where tabs = tabs and f = f]
  show ?thesis
    unfolding upb_Decoder_DecodeToArray_def a(1) bindE_Inr
  proof (rule open_array_then, cases op, goal_cases)
    case 3
    with fits' st1 at show ?case by (auto simp: Let_def intro!: append_scalar_post)
  next
    case 4
    with fits' st1 at show ?case by (auto simp: Let_def intro!: append_scalar_post)
  next
    case 5
    with fits' st1 at show ?case by (auto simp: Let_def intro!: append_scalar_post)
  next
    case 8
    then obtain l where l: "linked tabs f = Some l" "upb_MiniTableField_IsSubMessage f"
      using fits by (auto simp: op_fits_def)
    have "parse_ok tabs l (next_mem ?d) ptr empty_msg" "left (next_mem ?d) ptr < N"
      using ok c linked_ok[OF c(4) l(1)] empty_conforms[of tabs l] by (auto simp: parse_ok_def left_def)
    from decode_sub_post[OF this(1) l(1) this(2), of val] 8 show ?case
      using st1 sub_element[OF l(2,1)]
      by (auto simp: Let_def intro!: NewSubMessage_then[OF l(1)]
          post_bindE[where P = "\<lambda>(ptr', sub', d'). moved d ptr d' ptr' \<and> conforms tabs sub' l"]
          elim!: post_mono)
  next
    case (9 n)
    with fits have n: "n \<in> {2, 3}" by (auto simp: op_fits_def)
    show ?case
      using 9 fits' st by (auto simp: Let_def intro!: post_bindE[OF DecodeFixedPacked_post[OF at(1) n a(2)]])
  next
    case (10 n)
    with fits have n: "descriptortype f \<noteq> kUpb_FieldType_Enum" "n \<in> {0, 2, 3}" by (auto simp: op_fits_def)
    show ?case
      using 10 fits' st by (auto simp: Let_def intro!: post_bindE[OF DecodeVarintPacked_post[OF at(1) n a(2)]])
  next
    case 11
    then obtain en where en: "submsg f = SubEnum en" "enum_wf en"
      using fits fields_okD(2)[OF c(1) ok(2)] by (auto simp: op_fits_def field_ok_def split: mini_sub.splits)
    show ?case
      using 11 fits' st by (auto simp: Let_def intro!: post_bindE[OF DecodeEnumPacked_post[OF at(1) en a(2)]])
  qed (use fits st1 at str_element[of f] in \<open>auto simp: Let_def op_fits_def intro!: append_string_post\<close>)
qed

text \<open>Scalar fields.\<close>

lemma DecodeToSubMessage_post:
  assumes ok: "parse_ok tabs m d ptr msg" "f \<in> set (mt_fields m)" "left d ptr < N"
    and sc: "upb_MiniTableField_IsScalar f" and fits: "op_fits tabs f op"
  shows "post (\<lambda>(ptr', msg', d'). moved d ptr d' ptr' \<and> stored tabs m f op msg msg')
    (upb_Decoder_DecodeToSubMessage rec tabs d ptr msg f val op)"
proof -
  have c: "fields_ok tabs m" "conforms tabs msg m" "dec_at d ptr" "layouts_ok tabs"
    using ok by (auto simp: parse_ok_def)
  have at: "moved d ptr d ptr" using c(3) by (rule moved_refl)
  let ?P = "element_conforms (conforms tabs) tabs f"
  note st = scalar_stored[OF c(1) ok(2) c(2) sc fits]
  have scalar: "post (\<lambda>(ptr', msg', d'). moved d ptr d' ptr' \<and> stored tabs m f op msg msg')
      (bindE (val_cell n val) (\<lambda>c. Inr (ptr, put_cell (set_presence msg f op) f c, d)))"
    if "n \<in> {0, 2, 3}" "\<And>c. val_cell n val = Inr c \<Longrightarrow> ?P c" for n
    using that at st val_cell_Inr[OF that(1), of val] by auto
  have string: "post (\<lambda>(ptr', msg', d'). moved d ptr d' ptr' \<and> stored tabs m f op msg msg')
      (bindE (upb_Decoder_ReadString2 d ptr (ucast val) u) (\<lambda>(ptr, s, d).
        Inr (ptr, put_cell (set_presence msg f op) f (CellStr s), d)))"
    if "wire_class (descriptortype f) = ClassString" for u
    using st str_element[OF that] by (intro post_bindE[OF ReadString2_post[OF c(3)]]) auto
  note fits' = fits scalar_element[where tabs = tabs and f = f]
  show ?thesis
    unfolding upb_Decoder_DecodeToSubMessage_def
  proof (cases op, goal_cases)
    case 3
    with fits' scalar[of 0] show ?case by (simp add: Let_def)
  next
    case 4
    with fits' scalar[of 2] show ?case by (simp add: Let_def)
  next
    case 5
    with fits' scalar[of 3] show ?case by (simp add: Let_def)
  next
    case 8
    then obtain l where l: "linked tabs f = Some l" "upb_MiniTableField_IsSubMessage f"
      using fits by (auto simp: op_fits_def)
    obtain s where s: "load_msg (cell_at (set_presence msg f op) f) = Inr s"
      "\<And>sub. s = Some sub \<Longrightarrow> conforms tabs sub l"
      using sub_cell[OF fields_okD(2)[OF c(1) ok(2)] ok(2) c(2) sc l(2,1)] 8 by (auto split: option.splits)
    have sub: "post (\<lambda>(ptr', sub', d'). moved d ptr d' ptr' \<and> conforms tabs sub' l)
        (decode_sub rec tabs d1 ptr s1 f val)"
      if "parse_ok tabs l d1 ptr s1" "moved d ptr d1 ptr" "left d1 ptr < N" for d1 s1
      using decode_sub_post[OF that(1) l(1) that(3)] by (rule post_mono) (auto intro: moved_trans[OF that(2)])
    have fin: "stored tabs m f op msg (put_cell (set_presence msg f op) f (CellMsg (Some sub)))"
      if "conforms tabs sub l" for sub
      by (rule st) (rule sub_element[where chk = "conforms tabs", OF l(2,1) that])
    show ?case
    proof (cases s)
      case None
      show ?thesis
        using 8 s(1) None fin at ok(3)
        by (auto simp: Let_def intro!: NewSubMessage_then[OF l(1)] post_bindE[OF sub[OF parse_sub(1)[OF ok(1) l(1)]]])
    next
      case (Some s1)
      show ?thesis
        using 8 s Some fin at ok(3) 
        by (auto simp: Let_def intro!: post_bindE[OF sub[OF parse_sub(2)[OF ok(1) l(1)]]])
    qed
  qed (use fits string sc in \<open>auto simp: Let_def op_fits_def upb_MiniTableField_IsScalar_def
      upb_MiniTableField_IsArray_def\<close>)
qed

text \<open>Map entries.\<close>

lemma DecodeToMap_post:
  assumes ok: "parse_ok tabs m d ptr msg" "f \<in> set (mt_fields m)" "left d ptr < N"
    and mp: "upb_MiniTableField_IsMap f"
  shows "post (\<lambda>(ptr', msg', d'). moved d ptr d' ptr' \<and> stored tabs m f op msg msg')
    (upb_Decoder_DecodeToMap rec tabs d ptr msg f val)"
proof -
  have c: "fields_ok tabs m" "conforms tabs msg m" "dec_at d ptr" "layouts_ok tabs"
    using ok by (auto simp: parse_ok_def)
  obtain l where l: "linked tabs f = Some l" "map_entry_ok tabs l" "upb_MiniTableField_Type f = Inr kUpb_FieldType_Message"
    using map_field[OF fields_okD(2)[OF c(1) ok(2)] mp] .
  obtain mp0 where m0: "load_map (cell_at msg f) = Inr mp0"
    "\<And>m0. mp0 = Some m0 \<Longrightarrow> map_conforms (conforms tabs) tabs l m0"
    using map_field_cell[OF c(1) ok(2) c(2) mp l(1)] by blast
  note entry = map_entry_okD[OF l(2)]
  have lo: "fields_ok tabs l" using linked_ok[OF c(4) l(1)] by simp
  let ?kf = "mt_fields l ! 0" and ?vf = "mt_fields l ! 1"
  let ?Q = "\<lambda>(ptr', msg', d'). moved d ptr d' ptr' \<and> stored tabs m f op msg msg'"
  have main: "post ?Q (bindE (upb_Decoder_DecodeSubMessage rec tabs d1 ptr ent f (ucast val)) (\<lambda>(ptr, ent, d).
          bindE (case linked_value tabs l of
                   Some t \<Rightarrow>
                     if required_count t \<noteq> 0 then
                       bindE (load_msg (cell_at ent ?vf)) (\<lambda>sub. case sub of
                         None \<Rightarrow> Inl OutOfBounds
                       | Some sub \<Rightarrow> upb_Decoder_CheckRequired d sub t)
                     else Inr d
                 | None \<Rightarrow> Inr d) (\<lambda>d.
            let msg = put_cell msg f (CellMap (Some m1))
            in if upb_Message_HasUnknown ent then
                 bindE (upb_Decoder_AddMapEntryUnknown tabs d msg f ent l) (\<lambda>(msg, d).
                   Inr (ptr, msg, d))
               else
                 bindE (upb_Map_Insert d m1 (cell_at ent ?kf) (entry_value ?vf ent)) (\<lambda>(m, d).
                   Inr (ptr, put_cell msg f (CellMap (Some m)), d)))))"
    if d1: "moved d ptr d1 ptr" and m1: "map_conforms (conforms tabs) tabs l m1"
      and ent: "conforms tabs ent l" "linked_value tabs l \<noteq> None \<Longrightarrow> has_sub ent ?vf" for d1 m1 ent
  proof -
    have p: "parse_ok tabs l d1 ptr ent" "left d1 ptr < N"
      using parse_ok_moved[OF ok(1) d1 lo ent(1)] left_moved[OF d1] ok(3) by auto
    show ?thesis
    proof (rule post_bindE[OF DecodeSubMessage_post[OF p(1) l(1) p(2)]], clarify, goal_cases)
      case (1 ptr2 ent2 d2)
      have sub: "linked_value tabs l \<noteq> None \<Longrightarrow> has_sub ent2 ?vf"
        using 1(3) ent(2) entry(3,7) by (auto simp: grows_def)
      show ?case
      proof (rule post_bindE[where P = "\<lambda>d'. moved d ptr d' ptr2"], goal_cases)
        case 1
        show ?case
          using sub moved_trans[OF d1 \<open>moved d1 ptr d2 ptr2\<close>]
          by (auto simp: has_sub_def load_msg_def upb_Decoder_CheckRequired_def split: option.split)
      next
        case (2 d3)
        show ?case
          using 2 map_stored[OF c(1) ok(2) c(2) mp l(1,2)] m1 mp
          by (auto simp: Let_def simp del: One_nat_def intro!: stored_AddUnknown
              post_bindE[OF AddMapEntryUnknown_post[OF 1(2)]]
                post_bindE[OF Map_Insert_post[OF lo l(2) m1 1(2) sub]])
      qed
    qed
  qed
  have opened: "post (\<lambda>(m1, d1). moved d ptr d1 ptr \<and> map_conforms (conforms tabs) tabs l m1)
      (case mp0 of Some m \<Rightarrow> Inr (m, d) | None \<Rightarrow> upb_Decoder_CreateMap d ?kf ?vf)"
    using m0(2) moved_refl[OF c(3)]
    by (auto simp del: One_nat_def intro!: post_mono[OF CreateMap_post[OF lo l(2)]] split: option.split)
  have lv: "(if upb_MiniTableField_IsSubMessage ?vf then sub_table tabs ?vf else Inr None) = Inr (linked_value tabs l)"
    using sub_table_eq[OF fields_okD(2)[OF lo entry(3)]] by (simp add: linked_value_def)
  have ent: "post (\<lambda>(ent, d2). moved d ptr d2 ptr \<and> conforms tabs ent l \<and>
        (linked_value tabs l \<noteq> None \<longrightarrow> has_sub ent ?vf))
      (if linked_value tabs l = None then Inr (empty_msg, d1)
       else bindE (upb_Decoder_NewSubMessage tabs d1 ?vf) (\<lambda>(sub, d).
         Inr (put_cell empty_msg ?vf (CellMsg (Some sub)), d)))"
    if "moved d ptr d1 ptr" for d1
  proof (cases "linked_value tabs l")
    case None
    then show ?thesis using that empty_conforms[OF lo] by simp
  next
    case (Some t)
    then have t: "linked tabs ?vf = Some t" "upb_MiniTableField_IsSubMessage ?vf"
      by (auto simp: linked_value_def split: if_splits)
    have "conforms tabs empty_msg t" using linked_ok[OF c(4) t(1)] empty_conforms by blast
    from sub_element[where chk = "conforms tabs", OF t(2,1) this]
    have "conforms tabs (put_cell empty_msg ?vf (CellMsg (Some empty_msg))) l"
      by (intro conforms_put_cell[OF lo entry(3) empty_conforms[OF lo] entry(7)]
          scalar_conforms[OF fields_okD(2)[OF lo entry(3)] entry(5)])
    then show ?thesis using that Some
      by (auto simp: has_sub_def simp del: One_nat_def intro!: NewSubMessage_then[OF t(1)])
  qed
  have asserts: "assertE (length (mt_fields l) = 2) = Inr ()"
    "assertE (upb_MiniTableField_IsScalar ?kf \<and> upb_MiniTableField_IsScalar ?vf) = Inr ()"
    using entry(1,4,5) by simp_all
  show ?thesis
    unfolding upb_Decoder_DecodeToMap_def m0(1) l(3) linked_table_Some[OF l(1)] bindE_Inr simp_thms
      assertE_True asserts Let_def lv
  proof (rule post_bindE[OF opened], clarify, rule post_bindE[OF ent], assumption, clarify, goal_cases)
    case (1 m1 d1 ent d2)
    then show ?case by (intro main[unfolded Let_def]) blast+
  qed
qed

text \<open>Any field of a layout, and extensions.\<close>

lemma decode_to_field_post:
  assumes ok: "parse_ok tabs m d ptr msg" "f \<in> set (mt_fields m)" "left d ptr < N"
    and fits: "op_fits tabs f op"
  shows "post (\<lambda>(ptr', (msg', unk), d'). moved d ptr d' ptr' \<and> stored tabs m f op msg msg')
    (decode_to_field rec tabs d ptr msg f op val)"
proof -
  have "upb_MiniTableField_Mode f \<noteq> None"
    using ok(1) fields_okD(2)[OF _ ok(2)] by (auto simp: parse_ok_def field_ok_def)
  then obtain md where "upb_MiniTableField_Mode f = Some md" by blast
  then show ?thesis
  proof (cases md)
    case kUpb_FieldMode_Map
    with \<open>_ = Some md\<close> show ?thesis
      by (auto simp: decode_to_field_def upb_MiniTableField_IsMap_def
          intro!: post_bindE[OF DecodeToMap_post[OF ok]])
  next
    case kUpb_FieldMode_Array
    with \<open>_ = Some md\<close> show ?thesis
      using DecodeToArray_post[OF ok _ fits]
      by (simp add: decode_to_field_def upb_MiniTableField_IsArray_def)
  next
    case kUpb_FieldMode_Scalar
    with \<open>_ = Some md\<close> show ?thesis
      by (auto simp: decode_to_field_def upb_MiniTableField_IsScalar_def
          intro!: post_bindE[OF DecodeToSubMessage_post[OF ok _ fits]])
  qed
qed

lemma DecodeKnownExtension_post:
  assumes ok: "parse_ok tabs m d ptr msg" "ext_field_ok tabs (ext m) f" "left d ptr < N"
    and fits: "op_fits tabs f op"
  shows "post (\<lambda>(ptr', msg', d'). moved d ptr d' ptr' \<and> conforms tabs msg' m \<and> grows m msg msg')
    (upb_Decoder_DecodeKnownField rec tabs d ptr msg f op val)"
proof -
  have f: "upb_MiniTableField_IsExtension f" "offset f = 0" "presence f = 0"
    using ok(2) by (auto simp: ext_field_ok_def)
  have c: "conforms tabs msg m" "dec_at d ptr" using ok(1) by (auto simp: parse_ok_def)
  have main: "post (\<lambda>(ptr', msg', d'). moved d ptr d' ptr' \<and> conforms tabs msg' m \<and> grows m msg msg')
      (bindE (decode_to_field rec tabs d1 ptr (ext_view c) f op val) (\<lambda>(ptr, (view, unk), d).
         if upb_Message_HasUnknown view then Inl OutOfBounds
         else case cell_at view f of
             None \<Rightarrow> Inl OutOfBounds
           | Some c \<Rightarrow> Inr (ptr, upb_Message_AddUnknown (put_ext msg1 f c) unk, d)))"
    if d1: "d1 = d \<or> d1 = next_mem d" and cell: "field_conforms (conforms tabs) tabs f (Some c)"
      and slot: "ext_slot tabs m f msg1" "\<forall>g. cell_at msg1 g = cell_at msg g" for c d1 msg1
  proof -
    have "parse_ok tabs (view_table f) d1 ptr (ext_view c)" "left d1 ptr < N" "moved d ptr d1 ptr"
      using ok view_conforms[OF ok(2) cell] d1 moved_refl[OF c(2)] by (auto simp: parse_ok_def)
    note p = this
    show ?thesis
    proof (rule post_bindE[OF decode_to_field_post[OF p(1) _ p(2) fits]], simp add: view_table_def, clarify)
      fix ptr' view unk d'
      assume m: "moved d1 ptr d' ptr'" and st: "stored tabs (view_table f) f op (ext_view c) view"
      obtain x where x: "cell_at view f = Some x" "ext_conforms (conforms tabs) tabs (ext m = kUpb_ExtMode_IsMessageSet) (f, x)"
        using view_result[OF ok(2) fits st] by blast
      have "\<not> upb_Message_HasUnknown view"
        using st ok(2) by (auto simp: stored_def ext_field_ok_def upb_Message_HasUnknown_def ext_view_def)
      moreover have "conforms tabs (upb_Message_AddUnknown (put_ext msg1 f x) unk) m"
        using slot(1) x(2) by (auto simp: ext_slot_def intro!: conforms_AddUnknown)
      moreover have "grows m msg (upb_Message_AddUnknown (put_ext msg1 f x) unk)"
        using slot(2) by (intro grows_same) simp
      ultimately show "post (\<lambda>(ptr', msg', d'). moved d ptr d' ptr' \<and> conforms tabs msg' m \<and> grows m msg msg')
        (if upb_Message_HasUnknown view then Inl OutOfBounds
         else case cell_at view f of
             None \<Rightarrow> Inl OutOfBounds
           | Some c \<Rightarrow> Inr (ptr', upb_Message_AddUnknown (put_ext msg1 f c) unk, d'))"
        using x(1) moved_trans[OF p(3) m] by simp
    qed
  qed
  show ?thesis
    using GetOrCreateExtension_post[OF c(1) ok(2), of d] f main
    by (cases "upb_Message_GetOrCreateExtension d msg f") (auto simp: upb_Decoder_DecodeKnownField_def)
qed

lemma DecodeKnownField_post:
  assumes ok: "parse_ok tabs m d ptr msg" "left d ptr < N"
    and f: "f \<in> set (mt_fields m) \<and> \<not> upb_MiniTableField_IsExtension f \<or> ext_field_ok tabs (ext m) f"
    and fits: "op_fits tabs f op"
  shows "post (\<lambda>(ptr', msg', d'). moved d ptr d' ptr' \<and> conforms tabs msg' m \<and> grows m msg msg')
    (upb_Decoder_DecodeKnownField rec tabs d ptr msg f op val)"
proof (cases "ext_field_ok tabs (ext m) f")
  case True
  with DecodeKnownExtension_post[OF ok(1) _ ok(2) fits] show ?thesis .
next
  case False
  with f have f: "f \<in> set (mt_fields m)" "\<not> upb_MiniTableField_IsExtension f" by auto
  show ?thesis
    using f(2)
    by (auto simp: upb_Decoder_DecodeKnownField_def stored_def grows_def has_sub_def
        intro!: conforms_AddUnknown post_bindE[OF decode_to_field_post[OF ok(1) f(1) ok(2) fits]])
qed

end

end
