(* ===== verification/Decoder_Safety.thy ===== *)
theory Decoder_Safety
  imports Field_Safety
begin

text \<open>
  The parser is safe on every input. This theory follows the functions of \<open>upb/wire/decode.c\<close> from
  the tag to the end of the message: the field that is found and the operation chosen for it fit
  together, an unknown field is captured byte for byte, a message set item is parsed by the nested
  decoder, and every field takes at least its tag. The interpretation \<open>dm\<close> then discharges the contract
  \<open>msg_parser\<close> for the parser with fuel \<open>N\<close>, by induction on \<open>N\<close>.
\<close>

subsection \<open>The field and its operation\<close>

definition known_field :: "upb_MiniTable list \<Rightarrow> upb_MiniTable \<Rightarrow> upb_MiniTableField \<Rightarrow> bool" where
  "known_field tabs m f \<longleftrightarrow>
     f \<in> set (mt_fields m) \<and> \<not> upb_MiniTableField_IsExtension f \<or> ext_field_ok tabs (ext m) f"

definition found :: "upb_MiniTable list \<Rightarrow> upb_Decoder \<Rightarrow> upb_MiniTable \<Rightarrow> u32 \<Rightarrow> upb_MiniTableField \<Rightarrow> bool" where
  "found tabs d m wire_type f \<longleftrightarrow>
     known_field tabs m f \<or> f = upb_Decoder_FieldNotFoundField \<or>
     (f = message_set_item_field \<and> wire_type \<noteq> kUpb_WireType_Delimited \<and>
      ext m = kUpb_ExtMode_IsMessageSet \<and> extreg d \<noteq> None)"

lemma index_of_number_Some: "index_of_number fs num = Some i \<Longrightarrow> i < length fs \<and> number (fs ! i) = num"
  by (induction fs arbitrary: i) (auto split: if_splits)

lemma FindField_found:
  assumes "table_ok tabs m" "registry_ok tabs (extreg d)"
  shows "\<exists>f. upb_Decoder_FindField d m num wire_type = Inr f \<and> found tabs d m wire_type f"
proof -
  have wf: "table_wf m" using assms(1) by (simp add: table_ok_def fields_ok_def)
  have reg: "ext_field_ok tabs (ext m) f" if "extreg d = Some r" "r m num = Some f" for r f
    using assms(2) that unfolding registry_ok_def by blast
  show ?thesis
  proof (cases "index_of_number (mt_fields m) num")
    case (Some i)
    then show ?thesis
      using index_of_number_Some[OF Some] assms(1)
      by (auto simp: upb_Decoder_FindField_def FindFieldByNumber_eq[OF wf] found_def known_field_def table_ok_def)
  next
    case None
    then show ?thesis
      using reg
      by (auto simp: upb_Decoder_FindField_def FindFieldByNumber_eq[OF wf] found_def known_field_def
          upb_Decoder_FindExtensionField_def split: option.split)
  qed
qed

lemma known_field_ok: "fields_ok tabs m \<Longrightarrow> known_field tabs m f \<Longrightarrow> field_ok tabs f"
  using fields_okD(2)[of tabs m f] by (auto simp: known_field_def ext_field_ok_def)

lemma oneof_unlinked_ok:
  "(\<And>i. i \<in> set is \<Longrightarrow> upb_MiniTableField_IsSubMessage (mt_fields m ! i) \<and> submsg (mt_fields m ! i) = SubMsg None) \<Longrightarrow>
   check_oneof_unlinked m is = Inr ()"
  by (induction "is") auto

lemma CheckUnlinked_fits:
  assumes "fields_ok tabs m" "known_field tabs m f" "upb_MiniTableField_IsSubMessage f"
  shows "\<exists>op. upb_Decoder_CheckUnlinked tabs m f kUpb_DecodeOp_SubMessage = Inr op \<and>
    (op = kUpb_DecodeOp_UnknownField \<or> op_fits tabs f op)"
proof (cases "upb_MiniTableField_IsExtension f")
  case True
  with assms show ?thesis
    by (auto simp: upb_Decoder_CheckUnlinked_def known_field_def ext_field_ok_def op_fits_def)
next
  case False
  then have f: "f \<in> set (mt_fields m)" using assms(2) by (auto simp: known_field_def ext_field_ok_def)
  have st: "sub_table tabs f = Inr (linked tabs f)"
    using sub_table_eq[OF known_field_ok[OF assms(1,2)] assms(3)] .
  show ?thesis
  proof (cases "linked tabs f")
    case (Some l)
    with False st assms(3) show ?thesis by (simp add: upb_Decoder_CheckUnlinked_def op_fits_def)
  next
    case None
    then have un: "submsg f = SubMsg None"
      using known_field_ok[OF assms(1,2)] assms(3)
      by (auto simp: field_ok_def linked_def split: mini_sub.splits option.splits if_splits)
    have "check_oneof_unlinked m (oneof_walk m i) = Inr ()" if "upb_MiniTable_GetOneof m f = Some i" for i
    proof (rule oneof_unlinked_ok)
      fix j assume j: "j \<in> set (oneof_walk m i)"
      have p: "presence f < 0" "i < length (mt_fields m)" "presence (mt_fields m ! i) = presence f"
        using that first_with_presence_Some[of "mt_fields m" "presence f" 0 i]
        by (auto simp: upb_MiniTable_GetOneof_def upb_MiniTableField_IsInOneof_def split: if_splits)
      then have "mt_fields m ! j \<in> set (mt_fields m)" "presence (mt_fields m ! j) = presence f"
        using j by (auto simp: oneof_walk_eq)
      then show "upb_MiniTableField_IsSubMessage (mt_fields m ! j) \<and> submsg (mt_fields m ! j) = SubMsg None"
        using fields_okD(4)[OF assms(1) f _ p(1) _ assms(3) un] by auto
    qed
    with False st None show ?thesis
      by (auto simp: upb_Decoder_CheckUnlinked_def split: option.split)
  qed
qed

text \<open>The operation \<open>DecodeWireValue\<close> returns for a field.\<close>

definition op_for :: "upb_MiniTable list \<Rightarrow> upb_MiniTable \<Rightarrow> upb_MiniTableField \<Rightarrow> upb_DecodeOp \<Rightarrow> bool" where
  "op_for tabs m f op \<longleftrightarrow>
     op = kUpb_DecodeOp_UnknownField \<or>
     (op = kUpb_DecodeOp_MessageSetItem \<and> f = message_set_item_field) \<or>
     (known_field tabs m f \<and> op_fits tabs f op)"

lemma placeholder_types [simp]:
  "descriptortype upb_Decoder_FieldNotFoundField = kUpb_FakeFieldType_FieldNotFound"
  "descriptortype message_set_item_field = kUpb_FakeFieldType_MessageSetItem"
  "\<not> upb_MiniTableField_IsArray upb_Decoder_FieldNotFoundField"
  "message_set_item_field \<noteq> upb_Decoder_FieldNotFoundField"
  by (simp_all add: upb_Decoder_FieldNotFoundField_def message_set_item_field_def
      upb_MiniTableField_IsArray_def upb_MiniTableField_Mode_def)

lemma varint_op_fits: "upb_Decoder_GetVarintOp f = kUpb_DecodeOp_UnknownField \<or> op_fits tabs f (upb_Decoder_GetVarintOp f)"
  by (cases "descriptortype f")
    (simp_all add: upb_Decoder_GetVarintOp_def op_fits_def wire_class_def scalar_width_def)

lemma GetDelimitedOp_fits:
  assumes "fields_ok tabs m" "known_field tabs m f"
  shows "\<exists>op. upb_Decoder_GetDelimitedOp tabs d m f = Inr op \<and>
    (op = kUpb_DecodeOp_UnknownField \<or> op_fits tabs f op)"
proof -
  have t: "wire_class (descriptortype f) \<noteq> ClassNone"
    using known_field_ok[OF assms] by (simp add: field_ok_def)
  show ?thesis
  proof (cases "upb_MiniTableField_IsSubMessage f")
    case True
    then show ?thesis
      using CheckUnlinked_fits[OF assms True]
      by (cases "descriptortype f"; cases "upb_MiniTableField_IsArray f")
        (simp_all add: upb_Decoder_GetDelimitedOp_def kDelimitedOps_def upb_MiniTableField_IsSubMessage_def)
  next
    case False
    then show ?thesis
      using t
      by (cases "descriptortype f"; cases "upb_MiniTableField_IsArray f")
        (simp_all add: upb_Decoder_GetDelimitedOp_def kDelimitedOps_def upb_MiniTableField_IsSubMessage_def
          upb_Decoder_MaybeVerifyUtf8_def op_fits_def wire_class_def scalar_width_def)
  qed
qed

lemma post_if: "(b \<Longrightarrow> post Q x) \<Longrightarrow> (\<not> b \<Longrightarrow> post Q y) \<Longrightarrow> post Q (if b then x else y)"
  by simp

lemma DecodeWireValue_post:
  assumes "ready d ptr 11" "fields_ok tabs m" "found tabs d m wire_type f"
  shows "post (\<lambda>(ptr', (val, op), d'). moved d ptr d' ptr' \<and> (\<forall>p. dpos d' p = dpos d p) \<and> op_for tabs m f op)
    (upb_Decoder_DecodeWireValue tabs d ptr m f wire_type)"
proof -
  note at = assms(1)
  have self: "moved d ptr d ptr" using at by (simp add: ready_def moved_refl)
  have known: "field_ok tabs f" if "wire_class (descriptortype f) \<noteq> ClassNone"
    using assms(3) known_field_ok[OF assms(2)] that by (auto simp: found_def wire_class_def)
  have opk: "op_for tabs m f op" if "op_fits tabs f op" "wire_class (descriptortype f) \<noteq> ClassNone" for op
    using that assms(3) by (auto simp: op_for_def found_def wire_class_def)
  have munge: "\<exists>v'. upb_Decoder_Munge f v = Inr v'" if "descriptortype f \<noteq> kUpb_FieldType_Enum" for v
    using Munge_Inr[OF that] .
  have unk: "op_for tabs m f kUpb_DecodeOp_UnknownField" by (simp add: op_for_def)
  have varint: "op_for tabs m f (upb_Decoder_GetVarintOp f)"
  proof (cases "wire_class (descriptortype f) = ClassNone")
    case True
    then show ?thesis
      by (cases "descriptortype f") (simp_all add: op_for_def upb_Decoder_GetVarintOp_def wire_class_def)
  qed (use varint_op_fits[of f tabs] opk in \<open>auto simp: op_for_def\<close>)
  have closed: "\<exists>en. upb_MiniTable_GetSubEnumTable f = Inr en \<and> enum_wf en" if "descriptortype f = kUpb_FieldType_Enum"
    using known that
    by (auto simp: field_ok_def wire_class_def upb_MiniTable_GetSubEnumTable_def split: mini_sub.splits)
  have delim: "\<exists>op. upb_Decoder_GetDelimitedOp tabs d' m f = Inr op \<and> op_for tabs m f op"
    if "wire_type = kUpb_WireType_Delimited" for d'
  proof (cases "known_field tabs m f")
    case True
    then show ?thesis using GetDelimitedOp_fits[OF assms(2) True, of d'] by (auto simp: op_for_def)
  next
    case False
    then show ?thesis
      using assms(3) that by (auto simp: found_def upb_Decoder_GetDelimitedOp_def kDelimitedOps_def op_for_def)
  qed
  have group: "\<exists>op. upb_Decoder_CheckUnlinked tabs m f kUpb_DecodeOp_SubMessage = Inr op \<and> op_for tabs m f op"
    if "descriptortype f = kUpb_FieldType_Group"
  proof -
    have k: "known_field tabs m f" using assms(3) that by (auto simp: found_def)
    from CheckUnlinked_fits[OF assms(2) k] that k show ?thesis
      by (auto simp: upb_MiniTableField_IsSubMessage_def op_for_def)
  qed
  have item: "op_for tabs m f kUpb_DecodeOp_MessageSetItem" if "descriptortype f = kUpb_FakeFieldType_MessageSetItem"
    using assms(3) that known_field_ok[OF assms(2), of f] by (auto simp: found_def op_for_def field_ok_def wire_class_def)
  let ?Q = "\<lambda>(ptr', (val, op), d'). moved d ptr d' ptr' \<and> (\<forall>p. dpos d' p = dpos d p) \<and> op_for tabs m f op"
  have read_varint: "post ?Q (bindE (eps_read d (upb_WireReader_ReadVarint (d_input d) ptr)) (\<lambda>(ptr, val, d).
          if upb_MiniTableField_IsClosedEnum f then
            bindE (upb_MiniTable_GetSubEnumTable f) (\<lambda>en.
            bindE (upb_MiniTableEnum_CheckValue en (ucast val)) (\<lambda>known.
              if \<not> known then Inr (ptr, (val, kUpb_DecodeOp_UnknownField), d)
              else Inr (ptr, (upb_Decoder_MungeInt32 val, upb_Decoder_GetVarintOp f), d)))
          else
            bindE (upb_Decoder_Munge f val) (\<lambda>val.
              Inr (ptr, (val, upb_Decoder_GetVarintOp f), d))))"
  proof (rule post_bindE[OF ReadVarint_post[OF at]], simp, clarify, goal_cases)
    case (1 p v d')
    show ?case
    proof (cases "descriptortype f = kUpb_FieldType_Enum")
      case True
      then obtain en where "upb_MiniTable_GetSubEnumTable f = Inr en" "enum_wf en" using closed by blast
      with True 1 varint show ?thesis
        by (simp add: upb_MiniTableField_IsClosedEnum_def CheckValue_eq unk)
    next
      case False
      with munge[of v] 1 varint show ?thesis by (auto simp: upb_MiniTableField_IsClosedEnum_def)
    qed
  qed
  have fixed: "op_for tabs m f (if descriptortype f \<in>
        {kUpb_FieldType_Float, kUpb_FieldType_Fixed32, kUpb_FieldType_SFixed32}
      then kUpb_DecodeOp_Scalar4Byte else kUpb_DecodeOp_UnknownField)"
    "op_for tabs m f (if descriptortype f \<in>
        {kUpb_FieldType_Double, kUpb_FieldType_Fixed64, kUpb_FieldType_SFixed64}
      then kUpb_DecodeOp_Scalar8Byte else kUpb_DecodeOp_UnknownField)"
    by (auto simp: op_fits_def wire_class_def scalar_width_def unk intro!: opk)
  have read_size: "post ?Q (bindE (upb_Decoder_DecodeSize d ptr) (\<lambda>(ptr, sz, d).
        bindE (upb_Decoder_GetDelimitedOp tabs d m f) (\<lambda>op. Inr (ptr, (ucast sz, op), d))))"
    if "wire_type = kUpb_WireType_Delimited"
  proof (rule post_bindE[OF DecodeSize_post[OF at]], simp, clarify, goal_cases)
    case (1 p v d')
    with delim[OF that, of d'] show ?case by auto
  qed
  show ?thesis
    unfolding upb_Decoder_DecodeWireValue_def
  proof (rule post_if[OF read_varint], rule post_if, goal_cases)
    case 1
    show ?case using fixed(1) by (intro post_bindE[OF ReadFixed_post(1)[OF at]]) auto
  next
    case 2
    show ?case
    proof (rule post_if, goal_cases)
      case 1
      show ?case using fixed(2) by (intro post_bindE[OF ReadFixed_post(2)[OF at]]) auto
    next
      case 2
      show ?case
        using read_size self group
        by (auto simp: unk item)
    qed
  qed
qed

subsection \<open>The start of a parse\<close>

lemma Init_at:
  assumes "regions_ok base bs pa" "int (length bs) < 2 ^ 31" "length junk = 32"
    and d: "upb_Decoder_Init base bs pa junk reg options mem enc_mem = (ptr, d)"
  shows "dec_at d ptr" "dpos d ptr = 0" "stream_lim (d_input d) = int (length bs)" "input_bytes (d_input d) = bs"
    "left d ptr = length bs" "extreg d = reg" "end_group d = DECODE_NOGROUP" "\<not> message_is_done d"
proof -
  obtain e where e: "upb_EpsCopyInputStream_InitWithErrorHandler base bs pa junk True = (ptr, e)" "d_input d = e"
    "extreg d = reg" "end_group d = DECODE_NOGROUP" "\<not> message_is_done d"
    using d by (auto simp: upb_Decoder_Init_def Let_def split: prod.splits)
  have cap: "capture_start e = None"
    using e(1) by (auto simp: upb_EpsCopyInputStream_InitWithErrorHandler_def bounds_defs Let_def split: if_splits)
  note init = eps_init_inv[OF assms(1-3) e(1)]
  show "dec_at d ptr" "dpos d ptr = 0" "stream_lim (d_input d) = int (length bs)" "input_bytes (d_input d) = bs"
    "left d ptr = length bs" "extreg d = reg" "end_group d = DECODE_NOGROUP" "\<not> message_is_done d"
    using e init cap by (auto simp: dec_at_def left_def input_size_def)
qed

subsection \<open>Unknown fields\<close>

text \<open>A skip while the stream captures: the capture goes on.\<close>

lemma skip_capture_post:
  assumes "skip_post (d_input d) ptr r" "err (d_input d)"
  shows "post (\<lambda>(ptr', _, d'). \<exists>e'. d' = d\<lparr>d_input := e'\<rparr> \<and> skip_post (d_input d) ptr (Inr (Some ptr', e')))
    (bindE r (\<lambda>(p, e). eps_read d (Inr (p, (), e))))"
  using assms by (cases r) (auto simp: skip_post_def eps_read_def split: option.splits)

lemma SkipGroup_post:
  assumes "eps_inv e" "ptr_ok e ptr"
  shows "skip_post e ptr (upb_WireReader_SkipGroup e ptr tag depth)"
  unfolding upb_WireReader_SkipGroup_def
  using assms skip_fuel_enough[of e ptr] by (intro SkipGroup_with_post skip_group_loop_post) auto

lemma EndCapture_post:
  assumes inv: "eps_inv e" "ptr_ok e ptr" "err e" and cap: "capture_start e = Some (buffer_start e + p)"
    and p: "0 \<le> p" "p \<le> stream_pos e ptr"
  shows "post (\<lambda>(sv, e'). \<exists>v. sv = Some v \<and> e' = e\<lparr>capture_start := None\<rparr> \<and>
      view_bytes e' v = Inr (take (nat (stream_pos e ptr - p)) (drop (nat p) (input_bytes e))))
    (upb_EpsCopyInputStream_EndCapture e ptr)"
proof (cases "ptr - eps_end e > limit e")
  case True
  with inv cap show ?thesis
    by (simp add: upb_EpsCopyInputStream_EndCapture_def upb_EpsCopyInputStream_ReturnError_def)
next
  case False
  let ?e = "e\<lparr>capture_start := None\<rparr>"
  have "stream_pos e ptr \<le> input_size e"
    using False eps_lim_le_size[OF inv(1)] by (simp add: stream_pos_def stream_lim_def)
  then have "eps_load_bytes ?e (buffer_start ?e + p) (nat (stream_pos e ptr - p)) =
      Inr (take (nat (stream_pos e ptr - p)) (drop (nat p) (input_bytes ?e)))"
    using inv(1) p by (intro eps_load_bytes_input) (auto simp: input_size_def)
  with False cap show ?thesis
    by (simp add: upb_EpsCopyInputStream_EndCapture_def Let_def view_bytes_def
        upb_EpsCopyInputStream_GetInputPtr_def stream_pos_def algebra_simps)
qed

text \<open>
  The bytes an unknown field adds to the message are those of the input, from its tag to the end of
  its value.
\<close>

lemma DecodeUnknownField_post:
  assumes at: "dec_at d ptr" and start: "0 \<le> dpos d start" "dpos d start \<le> dpos d ptr"
  shows "post (\<lambda>(ptr', msg', d'). moved d ptr d' ptr' \<and>
      msg' = upb_Message_AddUnknown msg [take (nat (dpos d' ptr' - dpos d start))
        (drop (nat (dpos d start)) (input_bytes (d_input d)))])
    (upb_Decoder_DecodeUnknownField d ptr msg num wire_type val start)"
proof -
  have a: "eps_inv (d_input d)" "ptr_ok (d_input d) ptr" "err (d_input d)" "capture_start (d_input d) = None"
    using at by (auto simp: dec_at_def)
  define e where "e = (d_input d)\<lparr>capture_start := Some (buffer_start (d_input d) + dpos d start)\<rparr>"
  have cap: "upb_EpsCopyInputStream_StartCapture (d_input d) start = Inr e"
    using a(4) by (simp add: upb_EpsCopyInputStream_StartCapture_def e_def
        upb_EpsCopyInputStream_GetInputPtr_def stream_pos_def)
  have e: "eps_inv e" "ptr_ok e ptr" "err e" "stream_pos e = stream_pos (d_input d)" using a by (auto simp: e_def)
  have same: "skip_post e ptr (Inr (Some ptr, e))" using e by (simp add: skip_post_def)
  let ?d = "d\<lparr>d_input := e\<rparr>"
  let ?P = "\<lambda>(ptr', _, d'). \<exists>e'. d' = ?d\<lparr>d_input := e'\<rparr> \<and> skip_post e ptr (Inr (Some ptr', e'))"
  have delim: "post ?P
     (bindE (upb_EpsCopyInputStream_ReadStringEphemeral e ptr n) (\<lambda>(p, _, e). case p of
         None \<Rightarrow> Inl (Thrown Malformed) | Some ptr \<Rightarrow> Inr (ptr, (), ?d\<lparr>d_input := e\<rparr>)))" for n
    using e ptr_ok_add[OF e(2), of "int n"]
    by (auto simp: upb_EpsCopyInputStream_ReadStringEphemeral_def upb_EpsCopyInputStream_ReturnError_def
        skip_post_def stream_pos_add)
  have group: "post ?P
     (bindE (upb_WireReader_SkipGroup e ptr tag depth) (\<lambda>(p, e). eps_read ?d (Inr (p, (), e))))" for tag depth
    using skip_capture_post[of ?d ptr "upb_WireReader_SkipGroup e ptr tag depth"] SkipGroup_post[OF e(1,2)] e(3)
    by simp
  show ?thesis
    unfolding upb_Decoder_DecodeUnknownField_def cap bindE_Inr Let_def
  proof (rule post_if, simp, rule post_bindE[where
        P = ?P], goal_cases)
    case 1
    have "post ?P (Inr (ptr, (), ?d))" using same by (auto intro!: exI[of _ e])
    then show ?case using delim group by presburger
  next
    case (2 x)
    then obtain q e2 where x: "x = (q, (), d\<lparr>d_input := e2\<rparr>)" "skip_post e ptr (Inr (Some q, e2))"
      by (cases x) auto
    let ?e = e2
    have e': "eps_inv ?e" "ptr_ok ?e q" "stream_pos e ptr \<le> stream_pos ?e q" "stream_lim ?e = stream_lim e"
      "eps_frame e ?e" using x(2) by (auto simp: skip_post_def)
    have c: "err ?e" "capture_start ?e = Some (buffer_start ?e + dpos d start)" "input_bytes ?e = input_bytes (d_input d)"
      using e'(5) a by (auto simp: eps_frame_def e_def)
    have "dpos d start \<le> stream_pos ?e q" using start e'(3) e(4) by simp
    note E = EndCapture_post[OF e'(1,2) c(1,2) start(1) this]
    have m: "moved d ptr (d\<lparr>d_input := ?e\<lparr>capture_start := None\<rparr>\<rparr>) q"
      using e' e(4) a by (auto simp: moved_def dec_at_def dec_frame_def eps_frame_def e_def)
    have sel: "d_input (d\<lparr>d_input := e2\<rparr>) = e2" by simp
    show ?case
      unfolding x(1) prod.case sel
      by (rule post_bindE[OF E]) (use m c in \<open>auto intro!: mem_then\<close>)
  qed
qed

subsection \<open>Message sets\<close>

lemma SkipValue_post:
  assumes "ready d ptr 11"
  shows "post (\<lambda>(ptr', _, d'). moved d ptr d' ptr') (upb_Decoder_SkipValue d ptr tag)"
proof -
  have at: "dec_at d ptr" "eps_inv (d_input d)" "ptr_ok (d_input d) ptr" "err (d_input d)"
    and g: "ptr + 10 \<le> eps_end (d_input d) + 16" "10 \<le> guaranteed_bytes (d_input d)"
    using assms by (auto simp: ready_def dec_at_def)
  have "skip_post (d_input d) ptr (upb_WireReader_SkipValue (d_input d) ptr tag (d_depth d))"
    unfolding upb_WireReader_SkipValue_def
    using skip_fuel_enough[of "d_input d" ptr]
    by (intro SkipValue_with_post[OF at(2,3) g] SkipGroup_with_post skip_group_loop_post[OF at(2,3)]) simp
  from skip_capture_post[OF this at(4)] show ?thesis
    unfolding upb_Decoder_SkipValue_def
    by (rule post_mono) (use at in \<open>auto simp: skip_post_def moved_def dec_at_def dec_frame_def eps_frame_def\<close>)
qed

text \<open>One field, the end of the group, or the end of the message.\<close>

definition field_result ::
    "upb_MiniTable list \<Rightarrow> upb_Decoder \<Rightarrow> int \<Rightarrow> upb_Message \<Rightarrow> upb_MiniTable \<Rightarrow>
     int \<times> upb_Message \<times> upb_Decoder \<Rightarrow> bool" where
  "field_result tabs d ptr msg m = (\<lambda>(ptr', msg', d'). conforms tabs msg' m \<and> grows m msg msg' \<and>
     (if message_is_done d' then parsed d ptr (d'\<lparr>message_is_done := False\<rparr>) ptr'
      else moved d ptr d' ptr' \<and> left d' ptr' < left d ptr))"

lemma no_group: "drop_bit 3 (tag :: u32) \<noteq> DECODE_NOGROUP"
proof
  assume "drop_bit 3 tag = (- 1 :: u32)"
  then have "bit (drop_bit 3 tag) 31 = bit (- 1 :: u32) 31" by simp
  then show False using bit_imp_le_length[of tag 34] by (auto simp: bit_drop_bit_eq)
qed

text \<open>Reading the tag of a field: what follows it starts closer to the end of the input.\<close>

lemma DecodeField_then:
  assumes at: "dec_at d ptr"
    and fin: "\<And>p d1. moved d ptr d1 p \<Longrightarrow> dpos d1 p = dpos d ptr \<Longrightarrow> dpos d ptr = stream_lim (d_input d) \<Longrightarrow>
      Q (p, msg, upb_Decoder_EndMessage d1)"
    and stop: "\<And>p tag d2. moved d ptr d2 p \<Longrightarrow>
      Q (p, msg, upb_Decoder_EndMessage (d2\<lparr>end_group := drop_bit 3 tag\<rparr>))"
    and data: "\<And>p p2 tag d2. moved d ptr d2 p2 \<Longrightarrow> dpos d ptr < dpos d2 p2 \<Longrightarrow> dpos d2 p = dpos d ptr \<Longrightarrow>
      dpos d ptr < stream_lim (d_input d) \<Longrightarrow> ready d2 p2 11 \<Longrightarrow> left d2 p2 < left d ptr \<Longrightarrow>
      post Q (upb_Decoder_DecodeFieldData rec tabs d2 p2 msg m (drop_bit 3 tag) (tag AND 7) p)"
  shows "post Q (upb_Decoder_DecodeField rec tabs d ptr msg m)"
  unfolding upb_Decoder_DecodeField_def
proof (rule done_then[OF at], goal_cases)
  case (1 p d1)
  then show ?case using fin by simp
next
  case (2 p d1)
  show ?case
    unfolding if_False upb_Decoder_DecodeFieldNoFast_def upb_Decoder_DecodeFieldTag_def Let_def bindE_assoc
  proof (rule post_bindE[where P = "\<lambda>_. True"], use 2(5) in simp, rule post_bindE[OF ReadTag_post[OF 2(4)]], simp,
      clarsimp simp del: post_simps(1), goal_cases)
    case (1 p2 tag d2)
    note m2 = moved_trans[OF 2(1) 1(1)]
    have pos: "dpos d ptr < dpos d2 p2" "dpos d2 p = dpos d ptr" using 1(3,4) 2(2) by auto
    have "left d2 p2 < left d ptr"
      using pos(1) 2(3) moved_input[OF m2] eps_lim_le_size[of "d_input d"] at by (auto simp: left_def dec_at_def)
    then show ?case using stop[OF m2, of tag] data[OF m2 pos 2(3), of tag] 1(2) by simp
  qed
qed

context msg_parser
begin

lemma Decode_with_post:
  assumes "layouts_ok tabs" "registry_ok tabs reg" "table_ok tabs l" "conforms tabs sub l"
    and "regions_ok base bs pa" "int (length bs) < 2 ^ 31" "length junk = 32" "length bs < N"
  shows "post (\<lambda>(status, sub', mem'). conforms tabs sub' l)
    (upb_Decode_with rec base bs pa junk sub l reg options mem enc_mem)"
proof -
  obtain ptr d where d: "upb_Decoder_Init base bs pa junk reg options mem enc_mem = (ptr, d)" by fastforce
  note init = Init_at[OF assms(5-7) d]
  have p: "parse_ok tabs l d ptr sub" "left d ptr < N"
    using assms(1-4,8) init by (auto simp: parse_ok_def table_ok_def)
  show ?thesis
    unfolding upb_Decode_with_def d prod.case upb_Decoder_DecodeTop_def
    by (rule post_bindE[OF rec_post[OF p(1) assms(3) p(2)]]) auto
qed

text \<open>What an item leaves: the message still conforms and only the memory of the decoder was used.\<close>

definition item_done :: "upb_MiniTable \<Rightarrow> upb_Decoder \<Rightarrow> upb_Message \<Rightarrow> upb_Message \<times> upb_Decoder \<Rightarrow> bool" where
  "item_done m d msg = (\<lambda>(msg', d'). (\<exists>mem. d' = d\<lparr>d_mem := mem\<rparr>) \<and> conforms tabs msg' m \<and> grows m msg msg')"

lemma AddMessageSetItem_post:
  assumes ok: "layouts_ok tabs" "registry_ok tabs (extreg d)" "conforms tabs msg m"
    and ms: "ext m = kUpb_ExtMode_IsMessageSet" "extreg d \<noteq> None"
    and data: "int (length (snd data)) < 2 ^ 31" "length (snd data) < N"
  shows "post (item_done m d msg) (upb_Decoder_AddMessageSetItem rec tabs d msg m type_id data)"
proof -
  obtain r where r: "extreg d = Some r" using ms(2) by blast
  show ?thesis
  proof (cases "r m type_id")
    case None
    then show ?thesis
      using r ok(3)
      by (auto simp: upb_Decoder_AddMessageSetItem_def upb_Decoder_AddUnknownMessageSetItem_def Let_def
          item_done_def next_mem_def conforms_AddUnknown intro!: mem_then grows_same)
  next
    case (Some f)
    have f: "ext_field_ok tabs (ext m) f" using ok(2) r Some unfolding registry_ok_def by blast
    then obtain l where l: "linked tabs f = Some l"
      using ms(1) by (auto simp: ext_field_ok_def upb_MiniTableField_IsSubMessage_def)
    have tl: "table_ok tabs l" "conforms tabs empty_msg l"
      using linked_ok[OF ok(1) l] empty_conforms by blast+
    have reg: "regions_ok (fst data) (snd data) (fst data - 32)" by (simp add: regions_ok_def)
    have step: "post (item_done m d msg) (bindE (upb_Decoder_NewSubMessage tabs d1 f) (\<lambda>(sub, d).
       if d_depth d \<le> 1 then Inl (Thrown MaxDepthExceeded)
       else
         bindE (linked_table tabs f) (\<lambda>subl.
         bindE (upb_Decode_with rec (fst data) (snd data) (fst data - 32) (replicate 32 0) sub subl
                  (extreg d)
                  (upb_Decode_LimitDepth (ucast (d_options d)) (word_of_int (d_depth d - 1)))
                  (d_mem d) (d_enc_mem d)) (\<lambda>(status, sub, mem).
           case status of
             Some c \<Rightarrow> Inl (Thrown c)
           | None \<Rightarrow> Inr (put_ext msg1 f (CellMsg (Some sub)), d\<lparr>d_mem := mem\<rparr>)))))"
      if "d1 = d \<or> d1 = next_mem d" "ext_slot tabs m f msg1" "\<forall>g. cell_at msg1 g = cell_at msg g" for d1 msg1
    proof (rule NewSubMessage_then[OF l], clarsimp simp: linked_table_Some[OF l], goal_cases)
      case 1
      have reg': "registry_ok tabs (extreg d1)" using ok(2) that(1) by auto
      show ?case
        using that l ms(1)
        by (intro post_bindE[OF Decode_with_post[OF ok(1) reg' tl reg data(1) _ data(2)]])
          (auto simp: item_done_def next_mem_def ext_slot_def ext_conforms_def intro!: grows_same
            split: option.split)
    qed
    show ?thesis
      using GetOrCreateExtension_post[OF ok(3) f, of d] step r Some
      by (cases "upb_Message_GetOrCreateExtension d msg f")
        (auto simp: upb_Decoder_AddMessageSetItem_def upb_Decoder_AddKnownMessageSetItem_def)
  qed
qed

definition payload_ok :: "payload option \<Rightarrow> bool" where
  "payload_ok pay \<longleftrightarrow> (\<forall>data. pay = Some data \<longrightarrow> int (length (snd data)) < 2 ^ 31 \<and> length (snd data) < N)"

abbreviation field_done :: "upb_Decoder \<Rightarrow> int \<Rightarrow> upb_Message \<Rightarrow> upb_MiniTable \<Rightarrow> int \<times> upb_Message \<times> upb_Decoder \<Rightarrow> bool" where
  "field_done d ptr msg m \<equiv> (\<lambda>(ptr', msg', d'). moved d ptr d' ptr' \<and> conforms tabs msg' m \<and> grows m msg msg')"

lemma field_done_trans:
  assumes "post (field_done d1 p1 msg1 m) r" "moved d ptr d1 p1" "grows m msg msg1"
  shows "post (field_done d ptr msg m) r"
  using assms(1) by (rule post_mono) (auto intro: moved_trans[OF assms(2)] grows_trans[OF assms(3)])

lemma slice_length:
  assumes "dec_at d ptr" "in_input d ptr sv" "sv_size sv = n"
  shows "int (length (slice d ptr n)) < 2 ^ 31" "length (slice d ptr n) \<le> left d ptr"
proof -
  have "int (length (input_bytes (d_input d))) < 2 ^ 31" "0 \<le> dpos d ptr"
    using assms(1) ptr_ok_pos by (auto simp: dec_at_def eps_inv_def input_size_def)
  then show "int (length (slice d ptr n)) < 2 ^ 31" "length (slice d ptr n) \<le> left d ptr"
    by (auto simp: slice_def left_def input_size_def)
qed

lemma item_added_post:
  assumes ok: "parse_ok tabs m d ptr msg" and ms: "ext m = kUpb_ExtMode_IsMessageSet" "extreg d \<noteq> None"
    and pay: "payload_ok (Some data)"
  shows "post (item_done m d msg) (upb_Decoder_AddMessageSetItem rec tabs d msg m type_id data)"
  using ok pay by (intro AddMessageSetItem_post ms) (auto simp: parse_ok_def payload_ok_def)

lemma msgset_item_loop_post:
  assumes "parse_ok tabs m d ptr msg" "ext m = kUpb_ExtMode_IsMessageSet" "extreg d \<noteq> None"
    and "left d ptr < N" "payload_ok pay" "nat (stream_lim (d_input d) - dpos d ptr) < fuel"
  shows "post (field_done d ptr msg m) (msgset_item_loop fuel rec tabs m d ptr msg tid pay)"
  using assms
proof (induction fuel arbitrary: d ptr msg tid pay)
  case (Suc fuel)
  note ok = Suc.prems(1)
  have at: "dec_at d ptr" "fields_ok tabs m" "conforms tabs msg m" using ok by (auto simp: parse_ok_def)
  have rest: "post (field_done d ptr msg m) (msgset_item_loop fuel rec tabs m d' p' msg' tid' pay')"
    if "moved d ptr d' p'" "dpos d ptr < dpos d' p'" "dpos d ptr < stream_lim (d_input d)"
      "conforms tabs msg' m" "grows m msg msg'" "payload_ok pay'" for d' p' msg' tid' pay'
  proof (rule field_done_trans[OF _ that(1,5)], rule Suc.IH)
    show "parse_ok tabs m d' p' msg'" by (rule parse_ok_moved[OF ok that(1) at(2) that(4)])
    show "extreg d' \<noteq> None" using Suc.prems(3) that(1) by (auto simp: moved_def dec_frame_def)
    show "left d' p' < N" using left_moved[OF that(1)] Suc.prems(4) by simp
    show "nat (stream_lim (d_input d') - dpos d' p') < fuel" by (rule fuel_left[OF that(1) Suc.prems(6) that(2,3)])
  qed (use Suc.prems that in auto)
  have item: "post (field_done d ptr msg m)
      (bindE (upb_Decoder_AddMessageSetItem rec tabs d' msg m i data) (\<lambda>(msg', d').
         msgset_item_loop fuel rec tabs m d' p' msg' tid' pay'))"
    if "moved d ptr d' p'" "dpos d ptr < dpos d' p'" "dpos d ptr < stream_lim (d_input d)"
      "payload_ok (Some data)" "payload_ok pay'" for d' p' i data tid' pay'
  proof (rule post_bindE[OF item_added_post[OF parse_ok_moved[OF ok that(1) at(2,3)] Suc.prems(2) _ that(4)]])
    show "extreg d' \<noteq> None" using Suc.prems(3) that(1) by (auto simp: moved_def dec_frame_def)
  qed (use that in \<open>auto simp: item_done_def intro!: rest\<close>)
  show ?case
    unfolding msgset_item_loop.simps
  proof (rule done_then[OF at(1)], simp, unfold if_False, goal_cases)
    case (1 p d1)
    show ?case
    proof (rule tag_then[OF 1(4)], simp, goal_cases)
      case (1 p2 tag d2)
      note m2 = moved_trans[OF \<open>moved d ptr d1 p\<close> 1(1)]
      have adv: "dpos d ptr < dpos d2 p2" using 1(3) \<open>dpos d1 p = dpos d ptr\<close> by simp
      have r: "ready d2 p2 11" using 1(2) by simp
      note lim = \<open>dpos d ptr < stream_lim (d_input d)\<close>
      have id_case: "post (field_done d ptr msg m)
         (bindE (eps_read d2 (upb_WireReader_ReadVarint (d_input d2) p2)) (\<lambda>(ptr, tmp, d).
            if tid \<noteq> None then msgset_item_loop fuel rec tabs m d ptr msg tid pay
            else bindE (case pay of Some data \<Rightarrow> upb_Decoder_AddMessageSetItem rec tabs d msg m (ucast tmp) data
                        | None \<Rightarrow> Inr (msg, d)) (\<lambda>(msg, d).
                   msgset_item_loop fuel rec tabs m d ptr msg (Some (ucast tmp)) pay)))"
      proof (rule varint_then[OF r], simp, goal_cases)
        case (1 p3 v d3)
        note m3 = moved_trans[OF m2 1(1)]
        have "dpos d ptr < dpos d3 p3" using adv 1(2) by simp
        note nx = rest[OF m3 this lim at(3) grows_refl Suc.prems(5)] item[OF m3 this lim _ Suc.prems(5)]
        show ?case using nx Suc.prems(5) by (cases tid; cases pay) simp_all
      qed
      have msg_case: "post (field_done d ptr msg m)
         (bindE (upb_Decoder_DecodeSize d2 p2) (\<lambda>(ptr, sz, d).
             bindE (upb_EpsCopyInputStream_ReadStringAlwaysAlias (d_input d) ptr (unat sz)) (\<lambda>(p, sv, e).
               case (p, sv) of
                 (Some ptr, Some sv) \<Rightarrow>
                   let d = d\<lparr>d_input := e\<rparr>
                   in if pay \<noteq> None then msgset_item_loop fuel rec tabs m d ptr msg tid pay
                      else
                        bindE (view_bytes e sv) (\<lambda>bs.
                        bindE (case tid of
                                 Some type_id \<Rightarrow>
                                   upb_Decoder_AddMessageSetItem rec tabs d msg m type_id (sv_data sv, bs)
                               | None \<Rightarrow> Inr (msg, d)) (\<lambda>(msg, d).
                          msgset_item_loop fuel rec tabs m d ptr msg tid (Some (sv_data sv, bs))))
               | _ \<Rightarrow> Inl (Thrown Malformed))))"
      proof (rule size_then[OF r], simp, goal_cases)
        case (1 p3 sz d3)
        have "dec_at d3 p3" using moved_at[OF 1(1)] .
        then show ?case
        proof (cases rule: AlwaysAlias_cases[where sz = "unat sz"])
          case throw
          then show ?thesis by simp
        next
          case (view sv)
          note m3 = moved_trans[OF moved_trans[OF m2 1(1)] view(2)]
          have lt: "dpos d ptr < dpos d3 (p3 + int (unat sz))" using adv 1(2) view(2) by (auto simp: moved_def)
          have len: "payload_ok (Some (sv_data sv, slice d3 p3 (unat sz)))"
            using slice_length[OF \<open>dec_at d3 p3\<close> view(3,4)] left_moved[OF moved_trans[OF m2 1(1)]] Suc.prems(4)
            by (auto simp: payload_ok_def)
          note nx = rest[OF m3 lt lim at(3) grows_refl] item[OF m3 lt lim len len]
          show ?thesis using nx view(1,5) Suc.prems(5) len by (cases tid; cases pay) simp_all
        qed
      qed
      have skip_case: "post (field_done d ptr msg m) (bindE (upb_Decoder_SkipValue d2 p2 tag) (\<lambda>(ptr, _, d).
           msgset_item_loop fuel rec tabs m d ptr msg tid pay))"
      proof (rule post_bindE[OF SkipValue_post[OF r]], clarify, goal_cases)
        case (1 p3 d3)
        then have "dpos d ptr < dpos d3 p3" using adv by (auto simp: moved_def)
        from rest[OF moved_trans[OF m2 1] this lim at(3) grows_refl Suc.prems(5)] show ?case .
      qed
      show ?case
        by (intro post_if id_case msg_case skip_case) (use m2 at(3) in simp)
    qed
  qed
qed simp

lemma DecodeFieldData_post:
  assumes ok: "parse_ok tabs m d ptr msg" "table_ok tabs m" "left d ptr < N" "ready d ptr 11"
    and start: "0 \<le> dpos d start" "dpos d start \<le> dpos d ptr"
  shows "post (field_done d ptr msg m) (upb_Decoder_DecodeFieldData rec tabs d ptr msg m num wire_type start)"
proof -
  have c: "fields_ok tabs m" "registry_ok tabs (extreg d)" "conforms tabs msg m"
    using ok(1) by (auto simp: parse_ok_def)
  obtain f where f: "upb_Decoder_FindField d m num wire_type = Inr f" "found tabs d m wire_type f"
    using FindField_found[OF ok(2) c(2)] by blast
  have "post (field_done d ptr msg m) (case op of
         kUpb_DecodeOp_UnknownField \<Rightarrow>
           upb_Decoder_DecodeUnknownField d' p msg num wire_type val start
       | kUpb_DecodeOp_MessageSetItem \<Rightarrow> upb_Decoder_DecodeMessageSetItem rec tabs d' p msg m
       | _ \<Rightarrow> upb_Decoder_DecodeKnownField rec tabs d' p msg f op val)"
    if m: "moved d ptr d' p" "\<forall>q. dpos d' q = dpos d q" and op: "op_for tabs m f op" for p val op d'
  proof (rule field_done_trans[OF _ m(1) grows_refl])
    have ok': "parse_ok tabs m d' p msg" "left d' p < N" "dec_at d' p"
      using parse_ok_moved[OF ok(1) m(1) c(1,3)] left_moved[OF m(1)] ok(3) moved_at[OF m(1)] by auto
    have unk: "post (field_done d' p msg m) (upb_Decoder_DecodeUnknownField d' p msg num wire_type val start)"
    proof (rule post_mono[OF DecodeUnknownField_post[OF ok'(3)]])
      show "0 \<le> dpos d' start" "dpos d' start \<le> dpos d' p" using start m by (auto simp: moved_def)
    qed (use c(3) in \<open>auto intro!: conforms_AddUnknown grows_same\<close>)
    consider "op = kUpb_DecodeOp_UnknownField"
      | "op = kUpb_DecodeOp_MessageSetItem" "f = message_set_item_field" "\<not> op_fits tabs f op"
      | "known_field tabs m f" "op_fits tabs f op"
      using op by (auto simp: op_for_def op_fits_def)
    then show "post (field_done d' p msg m) (case op of
         kUpb_DecodeOp_UnknownField \<Rightarrow>
           upb_Decoder_DecodeUnknownField d' p msg num wire_type val start
       | kUpb_DecodeOp_MessageSetItem \<Rightarrow> upb_Decoder_DecodeMessageSetItem rec tabs d' p msg m
       | _ \<Rightarrow> upb_Decoder_DecodeKnownField rec tabs d' p msg f op val)"
    proof cases
      case 2
      then have "ext m = kUpb_ExtMode_IsMessageSet" "extreg d' \<noteq> None"
        using f(2) known_field_ok[OF c(1), of f] m(1)
        by (auto simp: found_def field_ok_def wire_class_def moved_def dec_frame_def)
      from msgset_item_loop_post[OF ok'(1) this ok'(2) _ skip_fuel_enough] 2 show ?thesis
        by (simp add: upb_Decoder_DecodeMessageSetItem_def payload_ok_def)
    next
      case 3
      from DecodeKnownField_post[OF ok'(1,2) _ 3(2)] 3 show ?thesis
        by (cases op) (simp_all add: known_field_def op_fits_def)
    qed (simp add: unk)
  qed
  then show ?thesis
    unfolding upb_Decoder_DecodeFieldData_def f(1) bindE_Inr
    by (intro post_bindE[OF DecodeWireValue_post[OF ok(4) c(1) f(2)]]) auto
qed

lemma DecodeField_post:
  assumes ok: "parse_ok tabs m d ptr msg" "table_ok tabs m" "left d ptr < Suc N"
  shows "post (field_result tabs d ptr msg m) (upb_Decoder_DecodeField rec tabs d ptr msg m)"
proof -
  have c: "fields_ok tabs m" "conforms tabs msg m" "dec_at d ptr" "\<not> message_is_done d" "end_group d = DECODE_NOGROUP"
    using ok(1) by (auto simp: parse_ok_def)
  show ?thesis
  proof (rule DecodeField_then[OF c(3)], goal_cases)
    case (1 p d1)
    then show ?case
      using c moved_input[OF 1(1)]
      by (auto simp: field_result_def parsed_def upb_Decoder_EndMessage_def moved_def dec_frame_def)
  next
    case (2 p tag d2)
    then show ?case
      using c no_group[of tag]
      by (auto simp: field_result_def parsed_def upb_Decoder_EndMessage_def moved_def dec_frame_def)
  next
    case (3 p p2 tag d2)
    have "left d2 p2 < N" "0 \<le> dpos d2 p" "dpos d2 p \<le> dpos d2 p2"
      using 3(2-6) ok(3) c(3) ptr_ok_pos by (auto simp: dec_at_def)
    then have "post (field_done d2 p2 msg m)
        (upb_Decoder_DecodeFieldData rec tabs d2 p2 msg m (drop_bit 3 tag) (tag AND 7) p)"
      by (intro DecodeFieldData_post[OF parse_ok_moved[OF ok(1) 3(1) c(1,2)] ok(2) _ 3(5)])
    then show ?case
    proof (rule post_mono, clarify)
      fix p3 msg3 d3 assume r: "moved d2 p2 d3 p3" "conforms tabs msg3 m" "grows m msg msg3"
      have "left d3 p3 < left d ptr" "\<not> message_is_done d3"
        using left_moved[OF r(1)] 3(6) moved_trans[OF 3(1) r(1)] c(4) by (auto simp: moved_def dec_frame_def)
      with r moved_trans[OF 3(1) r(1)] show "field_result tabs d ptr msg m (p3, msg3, d3)" by (simp add: field_result_def)
    qed
  qed
qed

end

subsection \<open>The parser\<close>

text \<open>The loop over fields: it ends with the message done.\<close>

definition loop_ok :: "upb_MiniTable list \<Rightarrow> nat \<Rightarrow> bool" where
  "loop_ok tabs n \<longleftrightarrow> (\<forall>m d ptr msg. parse_ok tabs m d ptr msg \<and> table_ok tabs m \<and> left d ptr < n \<longrightarrow>
     post (\<lambda>(ptr', msg', d'). conforms tabs msg' m \<and> grows m msg msg' \<and>
         parsed d ptr (d'\<lparr>message_is_done := False\<rparr>) ptr')
       (decode_loop n tabs d ptr msg m))"

lemma parsed_missing [simp]: "parsed d p (d'\<lparr>missing_required := b\<rparr>) q = parsed d p d' q"
  by (simp add: parsed_def moved_def dec_frame_def)

lemma parser_of_loop:
  assumes "loop_ok tabs n"
  shows "msg_parser (upb_Decoder_DecodeMessage (decode_loop n tabs)) tabs n"
proof
  fix m d ptr msg
  assume a: "parse_ok tabs m d ptr msg" "table_ok tabs m" "left d ptr < n"
  have "post (\<lambda>(ptr', msg', d'). conforms tabs msg' m \<and> grows m msg msg' \<and>
      parsed d ptr (d'\<lparr>message_is_done := False\<rparr>) ptr') (decode_loop n tabs d ptr msg m)"
    using assms a unfolding loop_ok_def by blast
  then show "post (\<lambda>(ptr', msg', d'). parsed d ptr d' ptr' \<and> conforms tabs msg' m \<and> grows m msg msg')
      (upb_Decoder_DecodeMessage (decode_loop n tabs) d ptr msg m)"
    using a(1)
    by (auto simp: upb_Decoder_DecodeMessage_def parse_ok_def upb_Decoder_CheckRequired_def Let_def
        intro!: post_bindE[where m = "decode_loop n tabs d ptr msg m"])
qed

lemma parsed_moved: "moved d ptr d1 p1 \<Longrightarrow> parsed d1 p1 d' p' \<Longrightarrow> parsed d ptr d' p'"
  using moved_trans[of d ptr d1 p1 "d'\<lparr>end_group := end_group d1\<rparr>" p']
  by (auto simp: parsed_def moved_def dec_frame_def)

lemma loop_ok: "loop_ok tabs n"
proof (induction n)
  case (Suc n)
  note field = msg_parser.DecodeField_post[OF parser_of_loop[OF Suc]]
  show ?case
    unfolding loop_ok_def
  proof (intro allI impI, elim conjE)
    fix m d ptr msg
    assume a: "parse_ok tabs m d ptr msg" "table_ok tabs m" "left d ptr < Suc n"
    let ?Q = "\<lambda>d ptr msg (ptr', msg', d'). conforms tabs msg' m \<and> grows m msg msg' \<and>
      parsed d ptr (d'\<lparr>message_is_done := False\<rparr>) ptr'"
    show "post (?Q d ptr msg) (decode_loop (Suc n) tabs d ptr msg m)"
      unfolding decode_loop.simps
    proof (rule post_bindE[OF field[OF a]], clarify)
      fix p1 msg1 d1
      assume r: "field_result tabs d ptr msg m (p1, msg1, d1)"
      show "post (?Q d ptr msg) (if message_is_done d1 then Inr (p1, msg1, d1) else decode_loop n tabs d1 p1 msg1 m)"
      proof (cases "message_is_done d1")
        case True
        with r show ?thesis by (simp add: field_result_def)
      next
        case False
        with r have s: "conforms tabs msg1 m" "grows m msg msg1" "moved d ptr d1 p1" "left d1 p1 < left d ptr"
          by (simp_all add: field_result_def)
        have ok: "parse_ok tabs m d1 p1 msg1" "left d1 p1 < n"
          using a s(4) parse_ok_moved[OF a(1) s(3) _ s(1)] by (auto simp: table_ok_def)
        have "post (?Q d1 p1 msg1) (decode_loop n tabs d1 p1 msg1 m)"
          using Suc ok a(2) unfolding loop_ok_def by blast
        then have "post (?Q d ptr msg) (decode_loop n tabs d1 p1 msg1 m)"
          by (rule post_mono) (auto intro: parsed_moved[OF s(3)] grows_trans[OF s(2)])
        with False show ?thesis by simp
      qed
    qed
  qed
qed (simp add: loop_ok_def)

interpretation dm: msg_parser "upb_Decoder_DecodeMessage (decode_loop n tabs)" tabs n for n tabs
  by (rule parser_of_loop[OF loop_ok])

definition decode_ok :: "upb_MiniTable list \<Rightarrow> upb_MiniTable \<Rightarrow> decode_result \<Rightarrow> bool" where
  "decode_ok tabs m r \<longleftrightarrow>
     (case r of Decoded status msg \<Rightarrow> conforms tabs msg m | DecodeError c \<Rightarrow> True | DecodeFault f \<Rightarrow> False)"

lemma Decode_ok:
  assumes "layouts_ok tabs" "table_ok tabs m" "registry_ok tabs reg" "conforms tabs msg m"
    and "regions_ok buf bs pa" "length bs < 2 ^ 31" "length junk = 32"
  shows "decode_ok tabs m (upb_Decode tabs mem enc_mem buf bs pa junk msg m reg options)"
proof -
  have "int (length bs) < 2 ^ 31" using assms(6) by simp
  from dm.Decode_with_post[OF assms(1,3,2,4,5) this assms(7), of "Suc (length bs)" options mem enc_mem]
  show ?thesis by (auto simp: decode_ok_def upb_Decode_def post_def split: sum.splits)
qed

text \<open>The length prefix: a varint of at most ten bytes.\<close>

lemma prefix_loop_bound:
  "prefix_loop bs i len = Some (j, len', n) \<Longrightarrow> n = of_nat j + len' \<and> j \<le> length bs \<and> j \<le> 10"
proof (induction bs i len rule: prefix_loop.induct)
  case (1 bs i len)
  show ?case
    using 1 by (subst (asm) (2) prefix_loop.simps) (auto simp: Let_def split: if_splits)
qed

lemma prefix_in_bounds:
  assumes "prefix_loop bs 0 0 = Some (i, len, n)" "\<not> n > of_nat (length bs)" "\<not> len > 0x7FFFFFFF"
    and "length bs < 2 ^ 31"
  shows "i + unat len \<le> length bs"
proof -
  have n: "n = of_nat i + len" "i \<le> 10" using prefix_loop_bound[OF assms(1)] by auto
  have "unat len \<le> 0x7FFFFFFF" using assms(3) by (simp add: not_less word_le_nat_alt)
  then have "unat n = i + unat len"
    using n by (simp add: unat_word_ariths unat_of_nat)
  then show ?thesis using assms(2,4) by (simp add: not_less word_le_nat_alt unat_of_nat)
qed

subsection \<open>Properties\<close>


text \<open>A recursive layout: an int32 and a sub-message of the same layout.\<close>

definition node_table :: upb_MiniTable where
  "node_table = \<lparr>mt_fields =
     [\<lparr>number = 1, offset = 8, presence = 0, submsg = NoSub,
       descriptortype = kUpb_FieldType_Int32, mode = 0x42\<rparr>,
      \<lparr>number = 2, offset = 16, presence = 64, submsg = SubMsg (Some 0),
       descriptortype = kUpb_FieldType_Message, mode = 0xC2\<rparr>],
     ext = kUpb_ExtMode_NonExtendable, dense_below = 2, required_count = 0\<rparr>"

definition node_bytes :: "byte list" where
  "node_bytes = [0x08, 0x96, 0x01, 0x12, 0x02, 0x08, 0x05]"

lemma all_less_2: "(\<forall>i < 2. P i) \<longleftrightarrow> P 0 \<and> P (1 :: nat)"
  by (auto simp: less_2_cases_iff)

lemma node_table_ok: "table_ok [node_table] node_table"
  by (simp add: table_ok_def fields_ok_def table_wf_def field_ok_def node_table_def rep_of_def
      upb_MiniTableField_Mode_def upb_MiniTableField_GetRep_def upb_MiniTableField_IsExtension_def
      upb_MiniTableField_IsScalar_def upb_MiniTableField_IsMap_def upb_MiniTableField_IsSubMessage_def
      wire_class_def scalar_width_def all_less_2)

lemmas node_ok = node_table_ok empty_conforms[of "[node_table]" node_table]




definition group_table :: "byte \<Rightarrow> upb_MiniTable" where
  "group_table md = \<lparr>mt_fields =
     [\<lparr>number = 1, offset = 8, presence = 0, submsg = SubMsg (Some 0),
       descriptortype = kUpb_FieldType_Group, mode = md\<rparr>],
     ext = kUpb_ExtMode_NonExtendable, dense_below = 1, required_count = 0\<rparr>"

definition group_decode :: "byte \<Rightarrow> decode_result" where
  "group_decode md =
     upb_Decode [group_table md] (\<lambda>_. True) (\<lambda>_. True) 1000 [0x0A, 0x05, 0x0C] 0 (replicate 32 0) empty_msg
       (group_table md) None 0"


end
