(* ===== verification/Passthrough.thy ===== *)
theory Passthrough
  imports Decoder_Safety
begin

text \<open>
  Unknown fields survive: a message of a type the program knows nothing about is parsed into unknown
  fields only, byte for byte, and the encoder writes the same bytes back. This spans the two halves of
  the runtime, \<open>upb/wire/decode.c\<close> and \<open>upb/wire/encode.c\<close>.
\<close>

definition blank_table :: "upb_MiniTable \<Rightarrow> bool" where
  "blank_table m \<longleftrightarrow> mt_fields m = [] \<and> dense_below m = 0 \<and> required_count m = 0 \<and>
     ext m = kUpb_ExtMode_NonExtendable"

text \<open>The input from one position to another.\<close>

definition seg :: "byte list \<Rightarrow> int \<Rightarrow> int \<Rightarrow> byte list" where
  "seg bs a b = take (nat (b - a)) (drop (nat a) bs)"

lemma seg_append: "0 \<le> a \<Longrightarrow> a \<le> b \<Longrightarrow> b \<le> c \<Longrightarrow> seg bs a b @ seg bs b c = seg bs a c"
proof -
  assume "0 \<le> a" "a \<le> b" "b \<le> c"
  then have "nat (c - a) = nat (b - a) + nat (c - b)" "nat b = nat (b - a) + nat a" by simp_all
  then show ?thesis by (simp add: seg_def take_add add.commute)
qed

lemma blank_fields_ok: "blank_table m \<Longrightarrow> table_ok tabs m"
  by (simp add: blank_table_def table_ok_def fields_ok_def table_wf_def)

lemma blank_FindField:
  assumes "blank_table m"
  shows "upb_Decoder_FindField d m num wire_type = Inr upb_Decoder_FieldNotFoundField"
proof -
  have wf: "table_wf m" using assms by (simp add: blank_table_def table_wf_def)
  show ?thesis
    using assms
    by (auto simp: upb_Decoder_FindField_def FindFieldByNumber_eq[OF wf] blank_table_def split: option.split)
qed

lemma not_found_op:
  assumes "blank_table m" "op_for tabs m upb_Decoder_FieldNotFoundField op"
  shows "op = kUpb_DecodeOp_UnknownField"
  using assms
  by (auto simp: op_for_def known_field_def blank_table_def ext_field_ok_def upb_MiniTableField_IsExtension_def
      upb_Decoder_FieldNotFoundField_def message_set_item_field_def)

text \<open>One field: it is added to the unknown fields.\<close>

lemma blank_FieldData:
  assumes m: "blank_table m" and r: "ready d ptr 11" and start: "0 \<le> dpos d start" "dpos d start \<le> dpos d ptr"
  shows "post (\<lambda>(ptr', msg', d'). moved d ptr d' ptr' \<and>
      msg' = upb_Message_AddUnknown msg [seg (input_bytes (d_input d)) (dpos d start) (dpos d' ptr')])
    (upb_Decoder_DecodeFieldData rec tabs d ptr msg m num wire_type start)"
proof -
  have ok: "fields_ok tabs m" "found tabs d m wire_type upb_Decoder_FieldNotFoundField"
    using blank_fields_ok[OF m, of tabs] by (auto simp: table_ok_def found_def)
  show ?thesis
    unfolding upb_Decoder_DecodeFieldData_def blank_FindField[OF m] bindE_Inr
  proof (rule post_bindE[OF DecodeWireValue_post[OF r ok]], clarify, goal_cases)
    case (1 p val op d1)
    have s: "dec_at d1 p" "0 \<le> dpos d1 start" "dpos d1 start \<le> dpos d1 p" "dpos d1 start = dpos d start"
      "input_bytes (d_input d1) = input_bytes (d_input d)"
      using 1(1,2) start moved_input[OF 1(1)] by (auto simp: moved_def)
    show ?case
      unfolding not_found_op[OF m 1(3)] upb_DecodeOp.case
      by (rule post_mono[OF DecodeUnknownField_post[OF s(1-3)]])
        (use s(4,5) moved_trans[OF 1(1)] in \<open>auto simp: seg_def\<close>)
  qed
qed

definition kept :: "upb_Decoder \<Rightarrow> int \<Rightarrow> upb_Message \<Rightarrow> int \<times> upb_Message \<times> upb_Decoder \<Rightarrow> bool" where
  "kept d ptr msg = (\<lambda>(ptr', msg', d').
     if message_is_done d' then
       end_group d' = DECODE_NOGROUP \<longrightarrow> msg' = msg \<and> dpos d ptr = stream_lim (d_input d)
     else
       moved d ptr d' ptr' \<and> left d' ptr' < left d ptr \<and> dpos d ptr < stream_lim (d_input d) \<and>
       msg' = upb_Message_AddUnknown msg [seg (input_bytes (d_input d)) (dpos d ptr) (dpos d' ptr')])"

lemma blank_DecodeField:
  assumes m: "blank_table m" and at: "dec_at d ptr" "\<not> message_is_done d" "end_group d = DECODE_NOGROUP"
  shows "post (kept d ptr msg) (upb_Decoder_DecodeField rec tabs d ptr msg m)"
proof (rule DecodeField_then[OF at(1)], goal_cases)
  case (1 p d1)
  then show ?case by (simp add: kept_def upb_Decoder_EndMessage_def)
next
  case (2 p tag d2)
  then show ?case using no_group[of tag] by (simp add: kept_def upb_Decoder_EndMessage_def)
next
  case (3 p p2 tag d2)
  have p: "0 \<le> dpos d2 p" "dpos d2 p \<le> dpos d2 p2" "input_bytes (d_input d2) = input_bytes (d_input d)"
    using 3 at(1) ptr_ok_pos moved_input[OF 3(1)] by (auto simp: dec_at_def)
  show ?case
  proof (rule post_mono[OF blank_FieldData[OF m 3(5) p(1,2)]], clarify)
    fix p3 d3 assume r: "moved d2 p2 d3 p3"
    show "kept d ptr msg (p3, upb_Message_AddUnknown msg
        [seg (input_bytes (d_input d2)) (dpos d2 p) (dpos d3 p3)], d3)"
      using moved_trans[OF 3(1) r] left_moved[OF r] 3(3,4,6) at(2) p(3)
      by (auto simp: kept_def moved_def dec_frame_def)
  qed
qed

definition kept_all :: "upb_Decoder \<Rightarrow> int \<Rightarrow> upb_Message \<Rightarrow> int \<times> upb_Message \<times> upb_Decoder \<Rightarrow> bool" where
  "kept_all d ptr msg = (\<lambda>(ptr', msg', d'). end_group d' = DECODE_NOGROUP \<longrightarrow>
     dpos d ptr \<le> stream_lim (d_input d) \<and>
     (\<exists>us. msg' = upb_Message_AddUnknown msg us \<and>
        concat us = seg (input_bytes (d_input d)) (dpos d ptr) (stream_lim (d_input d))))"

lemma AddUnknown_more [simp]:
  "upb_Message_AddUnknown (upb_Message_AddUnknown msg us) vs = upb_Message_AddUnknown msg (us @ vs)"
  "upb_Message_AddUnknown msg [] = msg"
  by (cases msg; simp add: upb_Message_AddUnknown_def)+

lemma blank_loop:
  assumes m: "blank_table m" and at: "dec_at d ptr" "\<not> message_is_done d" "end_group d = DECODE_NOGROUP"
    and n: "left d ptr < n"
  shows "post (kept_all d ptr msg) (decode_loop n tabs d ptr msg m)"
  using at n
proof (induction n arbitrary: d ptr msg)
  case (Suc n)
  show ?case
    unfolding decode_loop.simps
  proof (rule post_bindE[OF blank_DecodeField[OF m Suc.prems(1-3)]], clarify)
    fix p msg1 d1 assume k: "kept d ptr msg (p, msg1, d1)"
    let ?s = "seg (input_bytes (d_input d))" and ?l = "stream_lim (d_input d)"
    show "post (kept_all d ptr msg) (if message_is_done d1 then Inr (p, msg1, d1) else decode_loop n tabs d1 p msg1 m)"
    proof (cases "message_is_done d1")
      case True
      with k show ?thesis by (auto simp: kept_def kept_all_def seg_def intro!: exI[of _ "[]"])
    next
      case False
      with k have s: "moved d ptr d1 p" "left d1 p < left d ptr" "dpos d ptr < ?l"
        "msg1 = upb_Message_AddUnknown msg [?s (dpos d ptr) (dpos d1 p)]" by (auto simp: kept_def)
      have at1: "dec_at d1 p" "end_group d1 = DECODE_NOGROUP" "0 \<le> dpos d ptr" "dpos d ptr \<le> dpos d1 p"
        using s(1) Suc.prems(1,3) ptr_ok_pos by (auto simp: moved_def dec_frame_def dec_at_def)
      have "post (kept_all d1 p msg1) (decode_loop n tabs d1 p msg1 m)"
        using Suc.prems(4) s(2) False by (intro Suc.IH at1) simp_all
      then have "post (kept_all d ptr msg) (decode_loop n tabs d1 p msg1 m)"
      proof (rule post_mono, clarify)
        fix p' msg' d' assume k': "kept_all d1 p msg1 (p', msg', d')"
        show "kept_all d ptr msg (p', msg', d')"
          using k' s(3,4) moved_input[OF s(1)] seg_append[OF at1(3,4), of ?l "input_bytes (d_input d)"]
          by (auto simp: kept_all_def)
      qed
      with False show ?thesis by simp
    qed
  qed
qed simp

lemma blank_Decode:
  assumes m: "blank_table m" and r: "regions_ok buf bs pa" "length bs < 2 ^ 31" "length junk = 32"
    and dec: "upb_Decode tabs mem enc_mem buf bs pa junk empty_msg m reg options = Decoded None msg"
  shows "\<exists>us. msg = upb_Message_AddUnknown empty_msg us \<and> concat us = bs"
proof -
  obtain ptr d where d: "upb_Decoder_Init buf bs pa junk reg options mem enc_mem = (ptr, d)" by fastforce
  have len: "int (length bs) < 2 ^ 31" using r(2) by simp
  note init = Init_at[OF r(1) len r(3) d]
  have "post (kept_all d ptr empty_msg) (decode_loop (Suc (length bs)) tabs d ptr empty_msg m)"
    using init by (intro blank_loop[OF m]) auto
  moreover obtain p d' where "decode_loop (Suc (length bs)) tabs d ptr empty_msg m = Inr (p, msg, d')"
    "end_group d' = DECODE_NOGROUP"
    using dec m init
    by (auto simp: upb_Decode_def upb_Decode_with_def d upb_Decoder_DecodeTop_def upb_Decoder_DecodeMessage_def
        blank_table_def Let_def bindE_eq_Inr split: sum.splits fault.splits if_splits)
  ultimately show ?thesis using init by (auto simp: kept_all_def seg_def)
qed

lemma blank_encode:
  assumes "blank_table m"
  shows "encode_out tabs (upb_Message_AddUnknown empty_msg us) m 0 = Inr (concat us)"
  using assms
  by (simp add: encode_out_def message_out_body_def exts_out_def blank_table_def upb_Message_AddUnknown_def empty_msg_def)

subsection \<open>Properties\<close>

text \<open>
  C3: unknown fields survive a round trip. Input that parses successfully as a message of a type
  without fields is returned byte for byte by encoding the message, groups and non-canonical varints
  included.
\<close>

theorem unknown_fields_roundtrip:
  assumes "blank_table m" "regions_ok buf bs pa" "length bs < 2 ^ 31" "length junk = 32" "\<forall>n. arena n"
    and "upb_Decode tabs mem enc_mem buf bs pa junk empty_msg m reg options = Decoded None msg"
  shows "upb_Encode tabs arena msg m 0 = EncodeOk bs"
proof -
  obtain us where "msg = upb_Message_AddUnknown empty_msg us" "concat us = bs"
    using blank_Decode[OF assms(1-4,6)] by blast
  with blank_encode[OF assms(1)] assms(3) show ?thesis by (intro encode_ok[OF assms(5)]) auto
qed

definition empty_table :: upb_MiniTable where
  "empty_table = \<lparr>mt_fields = [], ext = kUpb_ExtMode_NonExtendable, dense_below = 0, required_count = 0\<rparr>"

lemma empty_table_decode:
  "upb_Decode [] (\<lambda>_. True) (\<lambda>_. True) 1000 [0x0B, 0x08, 0x96, 0x81, 0x00, 0x0C, 0x12, 0x01, 0x41] 0
     (replicate 32 0) empty_msg empty_table None 0 =
   Decoded None (Message [] [] [] [[0x0B, 0x08, 0x96, 0x81, 0x00, 0x0C], [0x12, 0x01, 0x41]] [])"
  by code_simp

theorem unknown_fields_roundtrip_witness:
  "upb_Encode [] (\<lambda>_. True) (Message [] [] [] [[0x0B, 0x08, 0x96, 0x81, 0x00, 0x0C], [0x12, 0x01, 0x41]] [])
     empty_table 0 = EncodeOk [0x0B, 0x08, 0x96, 0x81, 0x00, 0x0C, 0x12, 0x01, 0x41]"
  by (rule unknown_fields_roundtrip[OF _ _ _ _ _ empty_table_decode])
    (simp_all add: blank_table_def empty_table_def regions_ok_def)

end
