(* ===== verification/Hash_Table.thy ===== *)
theory Hash_Table
  imports Wire_Encoder
begin

text \<open>
  The base hash table of \<open>upb/hash/common.c\<close>: a chained scatter table in the style of Lua's tables.
  The chains of colliding keys run through the entries of the table itself; a key that collides is
  put in a free entry, and an entry that sits in another key's main position is moved away.

  An entry is its value, its key and the index of the next entry of its chain. \<open>None\<close> is the empty
  key, which is the zero of the C union. A removed entry keeps its stale value and \<open>next\<close>, as in the
  code. Hash and equality functions are arguments, as in the code; they fail on a NULL string key.
  An allocation consumes one answer of the arena.
\<close>

subsection \<open>State\<close>

record 'k upb_tabent =
  te_val :: u64
  te_key :: "'k option"
  te_next :: "nat option"

record 'k upb_table =
  entries :: "'k upb_tabent list"
  t_count :: u32
  t_mask :: u32

type_synonym arena = "nat \<Rightarrow> bool"
type_synonym 'k hashfunc_t = "'k option \<Rightarrow> u64 \<Rightarrow> u32 res"
type_synonym ('k, 'l) eqlfunc_t = "'k option \<Rightarrow> u64 \<Rightarrow> 'l \<Rightarrow> bool res"

definition upb_table_size :: "'k upb_table \<Rightarrow> nat" where
  "upb_table_size t = unat (t_mask t + 1)"

definition upb_tabent_isempty :: "'k upb_tabent \<Rightarrow> bool" where
  "upb_tabent_isempty e \<longleftrightarrow> te_key e = None"

definition zero_tabent :: "'k upb_tabent" where
  "zero_tabent = \<lparr>te_val = 0, te_key = None, te_next = None\<rparr>"

definition ent_at :: "'k upb_table \<Rightarrow> nat \<Rightarrow> 'k upb_tabent res" where
  "ent_at t i = (if i < length (entries t) then Inr (entries t ! i) else Inl OutOfBounds)"

definition set_ent :: "'k upb_table \<Rightarrow> nat \<Rightarrow> 'k upb_tabent \<Rightarrow> 'k upb_table res" where
  "set_ent t i e =
     (if i < length (entries t) then Inr (t\<lparr>entries := (entries t)[i := e]\<rparr>) else Inl OutOfBounds)"

subsection \<open>Operations\<close>

fun popcnt32_loop :: "nat \<Rightarrow> u32 \<Rightarrow> nat \<Rightarrow> nat" where
  "popcnt32_loop 0 i n = n"
| "popcnt32_loop (Suc fuel) i n =
     (if i = 0 then n else popcnt32_loop fuel (drop_bit 1 i) (n + unat (i AND 1)))"

definition upb_popcnt32 :: "u32 \<Rightarrow> nat" where
  "upb_popcnt32 i = popcnt32_loop 32 i 0"

definition upb_log2_table_size :: "'k upb_table \<Rightarrow> nat" where
  "upb_log2_table_size t = upb_popcnt32 (t_mask t)"

definition upb_inthash :: "u64 \<Rightarrow> u32" where
  "upb_inthash key = ucast key XOR ucast (drop_bit 32 key)"

definition upb_getentry :: "'k upb_table \<Rightarrow> u32 \<Rightarrow> nat" where
  "upb_getentry t hash = unat (hash AND t_mask t)"

definition isfull :: "'k upb_table \<Rightarrow> bool" where
  "isfull t \<longleftrightarrow> (let size = t_mask t + 1 in t_count t = size - drop_bit 3 size)"

text \<open>\<open>None\<close> is the \<open>false\<close> return, after which the table must not be used.\<close>

definition table_init :: "nat \<Rightarrow> arena \<Rightarrow> 'k upb_table option \<times> arena" where
  "table_init size_lg2 a =
     (if size_lg2 \<ge> 32 then (None, a)
      else
        let size = push_bit size_lg2 1 :: u32
        in if a 0
           then (Some \<lparr>entries = replicate (unat size) zero_tabent, t_count = 0, t_mask = size - 1\<rparr>,
                 \<lambda>n. a (Suc n))
           else (None, \<lambda>n. a (Suc n)))"

definition emptyent :: "'k upb_table \<Rightarrow> nat \<Rightarrow> nat res" where
  "emptyent t e =
     (case find (\<lambda>i. upb_tabent_isempty (entries t ! i))
             ([e + 1..<upb_table_size t] @ [0..<upb_table_size t]) of
        Some i \<Rightarrow> Inr i
      | None \<Rightarrow> Inl AssertFailed)"

primrec find_loop :: "nat \<Rightarrow> 'k upb_table \<Rightarrow> nat \<Rightarrow> 'l \<Rightarrow> ('k, 'l) eqlfunc_t \<Rightarrow> nat option res" where
  "find_loop 0 t i key eql = Inl OutOfFuel"
| "find_loop (Suc fuel) t i key eql =
     bindE (ent_at t i) (\<lambda>e.
     bindE (eql (te_key e) (te_val e) key) (\<lambda>b.
       if b then Inr (Some i)
       else case te_next e of None \<Rightarrow> Inr None | Some j \<Rightarrow> find_loop fuel t j key eql))"

definition findentry :: "'k upb_table \<Rightarrow> 'l \<Rightarrow> u32 \<Rightarrow> ('k, 'l) eqlfunc_t \<Rightarrow> nat option res" where
  "findentry t key hash eql =
     (if t_count t = 0 then Inr None
      else
        bindE (ent_at t (upb_getentry t hash)) (\<lambda>e.
          if upb_tabent_isempty e then Inr None
          else find_loop (length (entries t)) t (upb_getentry t hash) key eql))"

definition table_lookup :: "'k upb_table \<Rightarrow> 'l \<Rightarrow> u32 \<Rightarrow> ('k, 'l) eqlfunc_t \<Rightarrow> u64 option res" where
  "table_lookup t key hash eql =
     bindE (findentry t key hash eql) (\<lambda>e. case e of
       Some i \<Rightarrow> bindE (ent_at t i) (\<lambda>e. Inr (Some (te_val e)))
     | None \<Rightarrow> Inr None)"

text \<open>The entry of the chain that points to \<open>mainpos\<close>.\<close>

primrec pred_loop :: "nat \<Rightarrow> 'k upb_table \<Rightarrow> nat \<Rightarrow> nat \<Rightarrow> nat res" where
  "pred_loop 0 t chain mainpos = Inl OutOfFuel"
| "pred_loop (Suc fuel) t chain mainpos =
     bindE (ent_at t chain) (\<lambda>e.
       if te_next e = Some mainpos then Inr chain
       else case te_next e of None \<Rightarrow> Inl AssertFailed | Some j \<Rightarrow> pred_loop fuel t j mainpos)"

definition table_insert ::
    "'k upb_table \<Rightarrow> 'l \<Rightarrow> 'k option \<Rightarrow> u64 \<Rightarrow> u32 \<Rightarrow> 'k hashfunc_t \<Rightarrow> ('k, 'l) eqlfunc_t \<Rightarrow>
     'k upb_table res" where
  "table_insert t key tabkey val hash hashfunc eql =
     bindE (findentry t key hash eql) (\<lambda>found.
     bindE (assertE (found = None)) (\<lambda>_.
       let t = t\<lparr>t_count := t_count t + 1\<rparr>;
           mainpos = upb_getentry t hash;
           finish = (\<lambda>t our nxt.
             bindE (set_ent t our \<lparr>te_val = val, te_key = tabkey, te_next = nxt\<rparr>) (\<lambda>t.
             bindE (findentry t key hash eql) (\<lambda>found.
             bindE (assertE (found = Some our)) (\<lambda>_. Inr t))))
       in bindE (ent_at t mainpos) (\<lambda>m.
          if upb_tabent_isempty m then finish t mainpos None
          else
            bindE (emptyent t mainpos) (\<lambda>new_e.
            bindE (hashfunc (te_key m) (te_val m)) (\<lambda>mhash.
              let chain = upb_getentry t mhash
              in if chain = mainpos then
                   bindE (set_ent t mainpos (m\<lparr>te_next := Some new_e\<rparr>)) (\<lambda>t.
                     finish t new_e (te_next m))
                 else
                   bindE (set_ent t new_e m) (\<lambda>t.
                   bindE (pred_loop (length (entries t)) t chain mainpos) (\<lambda>p.
                   bindE (ent_at t p) (\<lambda>e.
                   bindE (set_ent t p (e\<lparr>te_next := Some new_e\<rparr>)) (\<lambda>t.
                     finish t mainpos None)))))))))"

text \<open>\<open>rm\<close> returns the value of the entry it removed. The loop stops before that entry.\<close>

primrec rm_loop ::
    "nat \<Rightarrow> 'k upb_table \<Rightarrow> nat \<Rightarrow> 'l \<Rightarrow> ('k, 'l) eqlfunc_t \<Rightarrow> nat res" where
  "rm_loop 0 t chain key eql = Inl OutOfFuel"
| "rm_loop (Suc fuel) t chain key eql =
     bindE (ent_at t chain) (\<lambda>e. case te_next e of
       None \<Rightarrow> Inr chain
     | Some j \<Rightarrow>
         bindE (ent_at t j) (\<lambda>n.
         bindE (eql (te_key n) (te_val n) key) (\<lambda>b.
           if b then Inr chain else rm_loop fuel t j key eql)))"

definition table_rm ::
    "'k upb_table \<Rightarrow> 'l \<Rightarrow> u32 \<Rightarrow> ('k, 'l) eqlfunc_t \<Rightarrow> (u64 option \<times> 'k upb_table) res" where
  "table_rm t key hash eql =
     (let chain = upb_getentry t hash
      in bindE (ent_at t chain) (\<lambda>c.
         if upb_tabent_isempty c then Inr (None, t)
         else
           bindE (eql (te_key c) (te_val c) key) (\<lambda>b.
             if b then
               let t = t\<lparr>t_count := t_count t - 1\<rparr>
               in case te_next c of
                    Some move \<Rightarrow>
                      bindE (ent_at t move) (\<lambda>m.
                      bindE (set_ent t chain m) (\<lambda>t.
                      bindE (ent_at t move) (\<lambda>m.
                      bindE (set_ent t move (m\<lparr>te_key := None\<rparr>)) (\<lambda>t.
                        Inr (Some (te_val c), t)))))
                  | None \<Rightarrow>
                      bindE (set_ent t chain (c\<lparr>te_key := None\<rparr>)) (\<lambda>t. Inr (Some (te_val c), t))
             else
               bindE (rm_loop (length (entries t)) t chain key eql) (\<lambda>p.
               bindE (ent_at t p) (\<lambda>pe. case te_next pe of
                 None \<Rightarrow> Inr (None, t)
               | Some r \<Rightarrow>
                   let t = t\<lparr>t_count := t_count t - 1\<rparr>
                   in bindE (ent_at t r) (\<lambda>re.
                      bindE (set_ent t r (re\<lparr>te_key := None\<rparr>)) (\<lambda>t.
                      bindE (ent_at t p) (\<lambda>pe.
                      bindE (set_ent t p (pe\<lparr>te_next := te_next re\<rparr>)) (\<lambda>t.
                        Inr (Some (te_val re), t))))))))))"

text \<open>
  Iteration. Indices are \<open>size_t\<close> values, from \<open>-1\<close> before the first; \<open>SIZE_MAX - 1\<close> is the end.
\<close>

definition table_next :: "'k upb_table \<Rightarrow> int \<Rightarrow> int" where
  "table_next t i =
     (case find (\<lambda>j. \<not> upb_tabent_isempty (entries t ! j)) [nat (i + 1)..<upb_table_size t] of
        Some j \<Rightarrow> int j
      | None \<Rightarrow> int SIZE_MAX - 1)"

definition table_begin :: "'k upb_table \<Rightarrow> int" where
  "table_begin t = table_next t (- 1)"

text \<open>
  The loop that copies all entries of \<open>t\<close> into a new table, shared by the integer and the extension
  table. \<open>keyf\<close> makes the lookup key of an entry. The fuel is the number of entries and one more.
\<close>

primrec rehash_loop ::
    "nat \<Rightarrow> 'k upb_table \<Rightarrow> 'k upb_table \<Rightarrow> int \<Rightarrow> ('k option \<Rightarrow> u64 \<Rightarrow> 'l res) \<Rightarrow> 'k hashfunc_t \<Rightarrow>
     ('k, 'l) eqlfunc_t \<Rightarrow> 'k upb_table res" where
  "rehash_loop 0 t new i keyf hashfunc eql = Inl OutOfFuel"
| "rehash_loop (Suc fuel) t new i keyf hashfunc eql =
     (if i < int (upb_table_size t) then
        bindE (ent_at t (nat i)) (\<lambda>e.
        bindE (hashfunc (te_key e) (te_val e)) (\<lambda>hash.
        bindE (keyf (te_key e) (te_val e)) (\<lambda>key.
        bindE (table_insert new key (te_key e) (te_val e) hash hashfunc eql) (\<lambda>new.
          rehash_loop fuel t new (table_next t i) keyf hashfunc eql))))
      else Inr new)"

text \<open>
  Removal of the entry at an iterator, shared by the string and the integer table: the first entry
  whose \<open>next\<close> points to it is taken as its predecessor.
\<close>

definition table_removeiter :: "'k upb_table \<Rightarrow> nat \<Rightarrow> 'k upb_table res" where
  "table_removeiter t i =
     bindE (ent_at t i) (\<lambda>ent.
       let prev = find (\<lambda>j. te_next (entries t ! j) = Some i) [0..<upb_table_size t]
       in bindE (case prev of
                   None \<Rightarrow> Inr t
                 | Some p \<Rightarrow>
                     bindE (ent_at t p) (\<lambda>pe. set_ent t p (pe\<lparr>te_next := te_next ent\<rparr>))) (\<lambda>t.
          let t = t\<lparr>t_count := t_count t - 1\<rparr>
          in bindE (ent_at t i) (\<lambda>ent.
             set_ent t i (ent\<lparr>te_key := None, te_next := None\<rparr>))))"

definition table_clear :: "'k upb_table \<Rightarrow> 'k upb_table" where
  "table_clear t = t\<lparr>t_count := 0, entries := replicate (upb_table_size t) zero_tabent\<rparr>"

definition entries_needed_for :: "u64 \<Rightarrow> u64 res" where
  "entries_needed_for expected_size =
     (let need_entries = expected_size + 1 + expected_size div 7
      in bindE (assertE (need_entries - drop_bit 3 need_entries \<ge> expected_size)) (\<lambda>_. Inr need_entries))"

end
