(* ===== verification/Hash_Invariant.thy ===== *)
theory Hash_Invariant
  imports Hash_Table
begin

text \<open>
  The invariant of the hash table, on its entries alone: the occupied entries are split into chains,
  one for each main position, that start at that position and hold exactly the keys that hash to it.
  The chains are a ghost function from main positions to lists of indices. Each lemma below is one
  way in which an operation rewrites the entries, with the chains it leaves.
\<close>

subsection \<open>Paths through the entries\<close>

primrec path :: "'k upb_tabent list \<Rightarrow> nat option \<Rightarrow> nat list \<Rightarrow> nat option \<Rightarrow> bool" where
  "path es x [] y \<longleftrightarrow> x = y"
| "path es x (a # as) y \<longleftrightarrow> x = Some a \<and> a < length es \<and> path es (te_next (es ! a)) as y"

lemma path_append [simp]: "path es x (as @ bs) z \<longleftrightarrow> (\<exists>y. path es x as y \<and> path es y bs z)"
  by (induction as arbitrary: x) auto

lemma path_upd [simp]: "i \<notin> set as \<Longrightarrow> path (es[i := e]) x as y = path es x as y"
  by (induction as arbitrary: x) (auto simp: nth_list_update)

lemma path_cong:
  "length es' = length es \<Longrightarrow> (\<And>i. i \<in> set as \<Longrightarrow> es' ! i = es ! i) \<Longrightarrow> path es' x as y = path es x as y"
  by (induction as arbitrary: x) auto

lemma path_range: "path es x as y \<Longrightarrow> i \<in> set as \<Longrightarrow> i < length es"
  by (induction as arbitrary: x) auto

lemma path_split: "path es x (as @ i # bs) y \<Longrightarrow> path es (Some i) (i # bs) y"
  by simp

subsection \<open>Chains\<close>

text \<open>
  \<open>ks\<close> gives the logical key of an occupied entry, \<open>hm\<close> the main position of a key.
\<close>

definition bucket :: "('k upb_tabent \<Rightarrow> 'l option) \<Rightarrow> ('l \<Rightarrow> nat) \<Rightarrow> 'k upb_tabent list \<Rightarrow> nat \<Rightarrow> nat list \<Rightarrow> bool" where
  "bucket ks hm es h as \<longleftrightarrow>
     (as \<noteq> [] \<longrightarrow> path es (Some h) as None) \<and> distinct as \<and>
     (\<forall>i \<in> set as. \<exists>l. ks (es ! i) = Some l \<and> hm l = h)"

definition chains ::
    "('k upb_tabent \<Rightarrow> 'l option) \<Rightarrow> ('l \<Rightarrow> nat) \<Rightarrow> 'k upb_tabent list \<Rightarrow> (nat \<Rightarrow> nat list) \<Rightarrow> bool" where
  "chains ks hm es C \<longleftrightarrow>
     (\<forall>h < length es. bucket ks hm es h (C h)) \<and>
     (\<forall>i < length es. \<forall>l. ks (es ! i) = Some l \<longrightarrow> i \<in> set (C (hm l))) \<and>
     (\<forall>i < length es. \<forall>j < length es. \<forall>l. ks (es ! i) = Some l \<and> ks (es ! j) = Some l \<longrightarrow> i = j)"

lemma chainsD:
  assumes "chains ks hm es C"
  shows "h < length es \<Longrightarrow> bucket ks hm es h (C h)"
    "i < length es \<Longrightarrow> ks (es ! i) = Some l \<Longrightarrow> i \<in> set (C (hm l))"
    "i < length es \<Longrightarrow> j < length es \<Longrightarrow> ks (es ! i) = Some l \<Longrightarrow> ks (es ! j) = Some l \<Longrightarrow> i = j"
  using assms unfolding chains_def by blast+

lemma bucket_cong:
  "bucket ks hm es h as \<Longrightarrow> length es' = length es \<Longrightarrow> (\<And>i. i \<in> set as \<Longrightarrow> es' ! i = es ! i) \<Longrightarrow>
   bucket ks hm es' h as"
  using path_cong[of es' es as] by (auto simp: bucket_def)

lemma bucket_hd: "bucket ks hm es h as \<Longrightarrow> as \<noteq> [] \<Longrightarrow> \<exists>bs. as = h # bs \<and> h \<notin> set bs"
  by (cases as) (auto simp: bucket_def)

lemma bucket_range: "bucket ks hm es h as \<Longrightarrow> i \<in> set as \<Longrightarrow> i < length es"
  using path_range by (fastforce simp: bucket_def)

text \<open>An entry is in the chain of its key and in no other; a free entry is in none.\<close>

lemma chains_other:
  assumes "chains ks hm es C" "h < length es" "i \<in> set (C h)" "ks (es ! i) = Some l"
  shows "hm l = h"
  using chainsD(1)[OF assms(1,2)] assms(3,4) by (auto simp: bucket_def)

lemma chains_free:
  assumes "chains ks hm es C" "h < length es" "ks (es ! i) = None"
  shows "i \<notin> set (C h)"
  using chainsD(1)[OF assms(1,2)] assms(3) by (auto simp: bucket_def)

text \<open>Rewriting some entries and the chains they are in keeps the rest.\<close>

lemma chains_rewrite:
  assumes C: "chains ks hm es C" and len: "length es' = length es"
    and new: "\<And>h. h < length es \<Longrightarrow> C' h \<noteq> C h \<or> (\<exists>i \<in> set (C h). es' ! i \<noteq> es ! i) \<Longrightarrow> bucket ks hm es' h (C' h)"
    and cover: "\<And>i l. i < length es \<Longrightarrow> ks (es' ! i) = Some l \<Longrightarrow> i \<in> set (C' (hm l))"
    and uniq: "\<And>i j l. i < length es \<Longrightarrow> j < length es \<Longrightarrow> ks (es' ! i) = Some l \<Longrightarrow> ks (es' ! j) = Some l \<Longrightarrow> i = j"
  shows "chains ks hm es' C'"
  unfolding chains_def len
proof (intro conjI allI impI)
  fix h assume h: "h < length es"
  show "bucket ks hm es' h (C' h)"
  proof (cases "C' h \<noteq> C h \<or> (\<exists>i \<in> set (C h). es' ! i \<noteq> es ! i)")
    case False
    with bucket_cong[OF chainsD(1)[OF C h] len] show ?thesis by auto
  qed (rule new[OF h])
qed (use cover uniq in blast)+

subsection \<open>Insertion\<close>

text \<open>A key is added in a free entry; the lemmas say which entry and what happens to the others.\<close>

lemma chains_add_free:
  assumes C: "chains ks hm es C" and h: "h < length es" "ks (es ! h) = None"
    and e: "ks e = Some l" "hm l = h" "te_next e = None" and fresh: "\<And>i. i < length es \<Longrightarrow> ks (es ! i) \<noteq> Some l"
  shows "chains ks hm (es[h := e]) (C(h := [h]))"
proof (rule chains_rewrite[OF C])
  have out: "h \<notin> set (C g)" if "g < length es" for g using chains_free[OF C that h(2)] .
  show "bucket ks hm (es[h := e]) g ((C(h := [h])) g)"
    if "g < length es" "(C(h := [h])) g \<noteq> C g \<or> (\<exists>i \<in> set (C g). es[h := e] ! i \<noteq> es ! i)" for g
  proof -
    have "es[h := e] ! i = es ! i" if "i \<in> set (C g)" for i
      using out[OF \<open>g < length es\<close>] that by (metis nth_list_update_neq)
    then have "g = h" using that by (auto split: if_splits)
    then show ?thesis using h e by (simp add: bucket_def)
  qed
  show "i \<in> set ((C(h := [h])) (hm l'))" if "i < length es" "ks (es[h := e] ! i) = Some l'" for i l'
  proof (cases "i = h")
    case True
    then show ?thesis using that h e by simp
  next
    case False
    then have i: "i \<in> set (C (hm l'))" using that chainsD(2)[OF C that(1)] by simp
    have "hm l' \<noteq> h"
    proof
      assume "hm l' = h"
      with i bucket_hd[OF chainsD(1)[OF C h(1)]] out[OF h(1)] show False by (cases "C h") auto
    qed
    with i show ?thesis by simp
  qed
  show "i = j" if "i < length es" "j < length es" "ks (es[h := e] ! i) = Some l'" "ks (es[h := e] ! j) = Some l'" for i j l'
    using that h(1) chainsD(3)[OF C that(1,2)] fresh e(1) by (auto simp: nth_list_update split: if_splits)
qed simp

lemma chains_add_collide:
  assumes C: "chains ks hm es C" and h: "h < length es" "ks (es ! h) = Some l0" "hm l0 = h"
    and n: "n < length es" "ks (es ! n) = None"
    and e: "ks e = Some l" "hm l = h" "te_next e = te_next (es ! h)"
    and m: "ks m = Some l0" "te_next m = Some n" and fresh: "\<And>i. i < length es \<Longrightarrow> ks (es ! i) \<noteq> Some l"
  shows "chains ks hm (es[h := m, n := e]) (C(h := h # n # tl (C h)))"
proof -
  let ?es = "es[h := m, n := e]" and ?C = "C(h := h # n # tl (C h))"
  have hn: "h \<noteq> n" using h n by auto
  have h_in: "h \<in> set (C h)" using chainsD(2)[OF C h(1,2)] h(3) by simp
  then obtain bs where Ch: "C h = h # bs" "h \<notin> set bs" using bucket_hd[OF chainsD(1)[OF C h(1)]] by (cases "C h") auto
  have n_out: "n \<notin> set (C g)" if "g < length es" for g using chains_free[OF C that n(2)] .
  have h_out: "h \<notin> set (C g)" if "g < length es" "g \<noteq> h" for g
    using chains_other[OF C that(1) _ h(2)] h(3) that(2) by auto
  have ks: "ks (?es ! i) = (if i = n then Some l else ks (es ! i))" if "i < length es" for i
    using that h n e m hn by (auto simp: nth_list_update)
  have rest: "?es ! i = es ! i" if "i \<noteq> h" "i \<noteq> n" for i using that by simp
  show ?thesis
  proof (rule chains_rewrite[OF C])
    show "bucket ks hm ?es g (?C g)"
      if g: "g < length es" "?C g \<noteq> C g \<or> (\<exists>i \<in> set (C g). ?es ! i \<noteq> es ! i)" for g
    proof -
      have "?es ! i = es ! i" if "i \<in> set (C g)" "g \<noteq> h" for i
        using n_out[OF g(1)] h_out[OF g(1)] that rest by metis
      then have gh: "g = h" using g(2) by (auto split: if_splits)
      have b: "bucket ks hm es h (h # bs)" using chainsD(1)[OF C h(1)] Ch by simp
      have "path ?es (te_next (es ! h)) bs None"
        using b Ch(2) n_out[OF h(1)] Ch(1) by (auto simp: bucket_def)
      then have "path ?es (Some h) (h # n # bs) None" using h n hn e m by (simp add: nth_list_update)
      moreover have "\<forall>i \<in> set (h # n # bs). \<exists>l. ks (?es ! i) = Some l \<and> hm l = h"
        using b bucket_range[OF b] ks n(1) e(1,2) h by (auto simp: bucket_def)
      ultimately show ?thesis using gh Ch b n_out[OF h(1)] hn by (auto simp: bucket_def)
    qed
    show "i \<in> set (?C (hm l'))" if "i < length es" "ks (?es ! i) = Some l'" for i l'
      using that(2) ks[OF that(1)] chainsD(2)[OF C that(1)] e(1,2) Ch
      by (auto split: if_splits)
    show "i = j" if "i < length es" "j < length es" "ks (?es ! i) = Some l'" "ks (?es ! j) = Some l'" for i j l'
      using that ks chainsD(3)[OF C that(1,2)] fresh by (auto split: if_splits)
  qed simp
qed

text \<open>
  The entry \<open>h\<close> belongs to the chain of another main position \<open>g\<close>: it is moved to the free entry \<open>n\<close>,
  its predecessor \<open>p\<close> is redirected, and the new key takes its place.
\<close>

lemma chains_add_evict:
  assumes C: "chains ks hm es C" and h: "h < length es" "ks (es ! h) = Some l0" "hm l0 = g" "g \<noteq> h" "g < length es"
    and n: "n < length es" "ks (es ! n) = None" and Cg: "C g = xs @ p # h # ys"
    and e: "ks e = Some l" "hm l = h" "te_next e = None"
    and p': "ks p' = ks (es ! p)" "te_next p' = Some n" and fresh: "\<And>i. i < length es \<Longrightarrow> ks (es ! i) \<noteq> Some l"
  shows "chains ks hm (es[n := es ! h, p := p', h := e]) (C(g := xs @ p # n # ys, h := [h]))"
proof -
  let ?es = "es[n := es ! h, p := p', h := e]" and ?C = "C(g := xs @ p # n # ys, h := [h])"
  have b: "bucket ks hm es g (xs @ p # h # ys)" using chainsD(1)[OF C h(5)] Cg by simp
  have p: "p < length es" using bucket_range[OF b] by simp
  have dist: "distinct (xs @ p # h # ys)" using b by (simp add: bucket_def)
  have n_out: "n \<notin> set (C f)" if "f < length es" for f using chains_free[OF C that n(2)] .
  have ne: "n \<noteq> h" "n \<noteq> p" "p \<noteq> h" using n_out[OF h(5)] dist Cg by auto
  have in_g: "i \<notin> set (C f)" if "f < length es" "f \<noteq> g" "i \<in> set (C g)" for f i
  proof -
    from b that(3) Cg obtain l1 where "ks (es ! i) = Some l1" "hm l1 = g" by (auto simp: bucket_def)
    with chains_other[OF C that(1)] that(2) show ?thesis by auto
  qed
  have Ch: "C h = []"
  proof (rule ccontr)
    assume "C h \<noteq> []"
    with bucket_hd[OF chainsD(1)[OF C h(1)]] have "h \<in> set (C h)" by auto
    with in_g[OF h(1), of h] h(4) Cg show False by simp
  qed
  have ks: "ks (?es ! i) = (if i = h then Some l else if i = n then Some l0 else ks (es ! i))" if "i < length es" for i
    using that h n e p p' ne by (auto simp: nth_list_update)
  have rest: "?es ! i = es ! i" if "i \<noteq> h" "i \<noteq> n" "i \<noteq> p" for i using that by simp
  show ?thesis
  proof (rule chains_rewrite[OF C])
    show "bucket ks hm ?es f (?C f)"
      if f: "f < length es" "?C f \<noteq> C f \<or> (\<exists>i \<in> set (C f). ?es ! i \<noteq> es ! i)" for f
    proof -
      have "?es ! i = es ! i" if "i \<in> set (C f)" "f \<noteq> g" for i
      proof (rule rest)
        show "i \<noteq> h" "i \<noteq> n" "i \<noteq> p"
          using n_out[OF f(1)] in_g[OF f(1) that(2), of p] in_g[OF f(1) that(2), of h] that Cg by auto
      qed
      then consider "f = g" | "f = h" using f(2) by (auto split: if_splits)
      then show ?thesis
      proof cases
        case 1
        have "path es (Some g) xs (Some p)" "path es (te_next (es ! h)) ys None"
          using b by (auto simp: bucket_def)
        then have "path ?es (Some g) xs (Some p)" "path ?es (te_next (es ! h)) ys None"
          using dist n_out[OF h(5)] Cg by auto
        then have "path ?es (Some g) (xs @ p # n # ys) None"
          using h n p p' ne by (auto simp: nth_list_update)
        moreover have "\<forall>i \<in> set (xs @ p # n # ys). \<exists>l. ks (?es ! i) = Some l \<and> hm l = g"
        proof
          fix i assume i: "i \<in> set (xs @ p # n # ys)"
          then have "i \<noteq> h" "i < length es" "i = n \<or> i \<in> set (xs @ p # h # ys)"
            using dist ne n(1) bucket_range[OF b] by auto
          with ks[of i] b h(3) show "\<exists>l. ks (?es ! i) = Some l \<and> hm l = g"
            unfolding bucket_def by (cases "i = n") (simp, metis)
        qed
        ultimately show ?thesis using 1 h(4) dist n_out[OF h(5)] Cg by (auto simp: bucket_def)
      next
        case 2
        then show ?thesis using h e by (simp add: bucket_def)
      qed
    qed
    show "i \<in> set (?C (hm l'))" if i: "i < length es" "ks (?es ! i) = Some l'" for i l'
    proof -
      consider "i = h" "l' = l" | "i = n" "l' = l0" | "i \<noteq> h" "i \<noteq> n" "ks (es ! i) = Some l'"
        using i(2) ks[OF i(1)] by (auto split: if_splits)
      then show ?thesis
      proof cases
        case 3
        from chainsD(2)[OF C i(1) this(3)] 3(1) Cg Ch show ?thesis by auto
      qed (use e(2) h(3,4) in auto)
    qed
    show "i = j" if "i < length es" "j < length es" "ks (?es ! i) = Some l'" "ks (?es ! j) = Some l'" for i j l'
    proof -
      define pos where "pos k = (if k = n then h else k)" for k
      have "ks (?es ! k) = (if k = h then Some l else ks (es ! pos k))" "pos k < length es" if "k < length es" for k
        using ks[OF that] h(1,2) that by (auto simp: pos_def)
      with that fresh have "i = h \<and> j = h \<or> i \<noteq> h \<and> j \<noteq> h \<and> pos i = pos j"
        using chainsD(3)[OF C, of "pos i" "pos j" l'] by (auto split: if_splits)
      then show ?thesis using ne by (auto simp: pos_def split: if_splits)
    qed
  qed simp
qed

subsection \<open>Removal\<close>

text \<open>The only entry of its chain is cleared.\<close>

lemma chains_remove_single:
  assumes C: "chains ks hm es C" and h: "h < length es" "C h = [h]" and e: "ks e = None"
  shows "chains ks hm (es[h := e]) (C(h := []))"
proof -
  obtain l where l: "ks (es ! h) = Some l" "hm l = h" using chainsD(1)[OF C h(1)] h(2) by (auto simp: bucket_def)
  show ?thesis
  proof (rule chains_rewrite[OF C])
    show "bucket ks hm (es[h := e]) g ((C(h := [])) g)"
      if "g < length es" "(C(h := [])) g \<noteq> C g \<or> (\<exists>i \<in> set (C g). es[h := e] ! i \<noteq> es ! i)" for g
    proof (cases "g = h")
      case False
      then have "h \<notin> set (C g)" using chains_other[OF C that(1) _ l(1)] l(2) by auto
      then have "es[h := e] ! i = es ! i" if "i \<in> set (C g)" for i using that by (metis nth_list_update_neq)
      with False that show ?thesis by auto
    qed (simp add: bucket_def)
    show "i \<in> set ((C(h := [])) (hm l'))" if "i < length es" "ks (es[h := e] ! i) = Some l'" for i l'
      using that chainsD(2)[OF C that(1)] h e by (auto simp: nth_list_update split: if_splits)
    show "i = j" if "i < length es" "j < length es" "ks (es[h := e] ! i) = Some l'" "ks (es[h := e] ! j) = Some l'" for i j l'
      using that h(1) chainsD(3)[OF C that(1,2)] e by (auto simp: nth_list_update split: if_splits)
  qed simp
qed

text \<open>
  Both other removals rewrite two entries of one chain. \<open>pos\<close> says where the key of an entry was
  before.
\<close>

lemma chains_shrink:
  assumes C: "chains ks hm es C" and h: "h < length es" and len: "length es' = length es"
    and b: "bucket ks hm es' h as" and same: "\<And>i. i \<notin> set (C h) \<Longrightarrow> es' ! i = es ! i"
    and old: "\<And>i l. i \<in> set (C h) \<Longrightarrow> ks (es' ! i) = Some l \<Longrightarrow> i \<in> set as \<and> pos i \<in> set (C h) \<and> ks (es ! pos i) = Some l"
    and inj: "inj_on pos (set as)"
  shows "chains ks hm es' (C(h := as))"
proof (rule chains_rewrite[OF C len])
  have sep: "i \<notin> set (C h)" if "g < length es" "g \<noteq> h" "i \<in> set (C g)" for g i
    using chainsD(1)[OF C that(1)] chains_other[OF C h, of i] that(2,3) by (auto simp: bucket_def)
  show "bucket ks hm es' g ((C(h := as)) g)"
    if "g < length es" "(C(h := as)) g \<noteq> C g \<or> (\<exists>i \<in> set (C g). es' ! i \<noteq> es ! i)" for g
    using that b same sep[OF that(1)] by (cases "g = h") auto
  have where_from: "i \<in> set as \<and> pos i \<in> set (C h) \<and> ks (es ! pos i) = Some l \<or> i \<notin> set (C h) \<and> ks (es ! i) = Some l"
    if "ks (es' ! i) = Some l" for i l
    using that same[of i] old[of i l] by (cases "i \<in> set (C h)") auto
  have hml: "hm l = h" if "i \<in> set (C h)" "ks (es ! i) = Some l" for i l using chains_other[OF C h that] .
  show "i \<in> set ((C(h := as)) (hm l))" if "i < length es" "ks (es' ! i) = Some l" for i l
    using where_from[OF that(2)] hml chainsD(2)[OF C that(1), of l] by auto
  show "i = j" if ij: "i < length es" "j < length es" "ks (es' ! i) = Some l" "ks (es' ! j) = Some l" for i j l
  proof -
    have r: "k < length es" if "k \<in> set (C h)" for k using bucket_range[OF chainsD(1)[OF C h] that] .
    have eq: "a = b" if "a < length es" "b < length es" "ks (es ! a) = Some l" "ks (es ! b) = Some l" for a b
      using chainsD(3)[OF C that] .
    from where_from[OF ij(3)] where_from[OF ij(4)] show ?thesis
    proof (elim disjE conjE, goal_cases)
      case 1
      then show ?case using eq[OF r r, of "pos i" "pos j"] inj by (simp add: inj_on_def)
    next
      case 2
      then show ?case using eq[OF r ij(2), of "pos i"] by simp
    next
      case 3
      then show ?case using eq[OF ij(1) r, of "pos j"] by simp
    next
      case 4
      then show ?case using eq[OF ij(1,2)] by simp
    qed
  qed
qed

lemma chains_remove_head:
  assumes C: "chains ks hm es C" and h: "h < length es" "C h = h # m # r" and e: "ks e = None"
  shows "chains ks hm (es[h := es ! m, m := e]) (C(h := h # r))"
proof (rule chains_shrink[OF C h(1), where pos = "\<lambda>i. if i = h then m else i"])
  have b: "bucket ks hm es h (h # m # r)" using chainsD(1)[OF C h(1)] h(2) by simp
  then have d: "distinct (h # m # r)" and m: "m < length es" using bucket_range[OF b] by (auto simp: bucket_def)
  let ?es = "es[h := es ! m, m := e]"
  have "path es (te_next (es ! m)) r None" using b by (auto simp: bucket_def)
  then have "path ?es (te_next (es ! m)) r None" using d by simp
  then have "path ?es (Some h) (h # r) None" using d h(1) by (simp add: nth_list_update)
  moreover have "ks (?es ! i) = ks (es ! (if i = h then m else i))" if "i \<in> set (h # r)" for i
  proof (cases "i = h")
    case False
    with that d have "i \<noteq> m" by auto
    with False show ?thesis by simp
  qed (use d h(1) in simp)
  ultimately show "bucket ks hm ?es h (h # r)" using b d by (auto simp: bucket_def)
  show "?es ! i = es ! i" if "i \<notin> set (C h)" for i using that h(2) by simp
  show "i \<in> set (h # r) \<and> (if i = h then m else i) \<in> set (C h) \<and> ks (es ! (if i = h then m else i)) = Some l"
    if "i \<in> set (C h)" "ks (?es ! i) = Some l" for i l
    using that h d e m by (auto simp: nth_list_update split: if_splits)
  show "inj_on (\<lambda>i. if i = h then m else i) (set (h # r))" using d by (auto simp: inj_on_def)
qed simp

lemma chains_remove_mid:
  assumes C: "chains ks hm es C" and h: "h < length es" "C h = xs @ p # q # ys" and e: "ks e = None"
    and p': "ks p' = ks (es ! p)" "te_next p' = te_next (es ! q)"
  shows "chains ks hm (es[q := e, p := p']) (C(h := xs @ p # ys))"
proof (rule chains_shrink[OF C h(1), where pos = "\<lambda>i. i"])
  have b: "bucket ks hm es h (xs @ p # q # ys)" using chainsD(1)[OF C h(1)] h(2) by simp
  then have d: "distinct (xs @ p # q # ys)" and pq: "p < length es" "q < length es"
    using bucket_range[OF b] by (auto simp: bucket_def)
  let ?es = "es[q := e, p := p']"
  have "path es (Some h) xs (Some p)" "path es (te_next (es ! q)) ys None" using b by (auto simp: bucket_def)
  then have "path ?es (Some h) xs (Some p)" "path ?es (te_next (es ! q)) ys None" using d by auto
  then have "path ?es (Some h) (xs @ p # ys) None" using d pq p' by (auto simp: nth_list_update)
  moreover have ks: "ks (?es ! i) = (if i = q then None else ks (es ! i))" for i
    using d pq p' e by (cases "i = p"; cases "i = q") auto
  ultimately show "bucket ks hm ?es h (xs @ p # ys)" using b d by (auto simp: bucket_def)
  show "?es ! i = es ! i" if "i \<notin> set (C h)" for i using that h(2) by simp
  show "i \<in> set (xs @ p # ys) \<and> i \<in> set (C h) \<and> ks (es ! i) = Some l"
    if "i \<in> set (C h)" "ks (?es ! i) = Some l" for i l
    using that h(2) ks[of i] by (auto split: if_splits)
qed simp_all

end
