(* ===== verification/Hash_Correct.thy ===== *)
theory Hash_Correct
  imports Hash_Invariant
begin

text \<open>
  The hash table implements a finite map. The locale \<open>hash_keys\<close> is what the table needs of its keys:
  the hash and equality functions agree with a logical key. Inside it, every operation of the base table
  is shown to keep the invariant and to refine the operation on maps; the string, integer and
  extension tables interpret it with their own functions.
\<close>

lemma find_SomeD: "find P xs = Some x \<Longrightarrow> P x \<and> x \<in> set xs"
  by (induction xs) (auto split: if_splits)

subsection \<open>The size of a table\<close>

definition tab_shape :: "'k upb_table \<Rightarrow> bool" where
  "tab_shape t \<longleftrightarrow> (\<exists>k < 32. t_mask t = 2 ^ k - 1 \<and> length (entries t) = 2 ^ k)"

lemma tab_shape_mask:
  assumes "tab_shape t"
  shows "length (entries t) = Suc (unat (t_mask t))" "upb_table_size t = length (entries t)"
    "length (entries t) \<le> 2 ^ 31"
proof -
  obtain k where k: "k < 32" "t_mask t = 2 ^ k - 1" "length (entries t) = 2 ^ k"
    using assms by (auto simp: tab_shape_def)
  have "(2 :: nat) ^ k < 2 ^ 32" using k(1) by (intro power_strict_increasing) auto
  then have "unat (of_nat (2 ^ k) :: u32) = 2 ^ k" by (simp add: unat_of_nat del: of_nat_power)
  then have u: "unat (2 ^ k :: u32) = 2 ^ k" by simp
  show "upb_table_size t = length (entries t)" using k u by (simp add: upb_table_size_def)
  have "(2 :: u32) ^ k \<noteq> 0" using u by (metis power_not_zero unat_0 zero_neq_numeral)
  then show "length (entries t) = Suc (unat (t_mask t))"
    using k u by (simp add: unat_minus_one)
  have "(2 :: nat) ^ k \<le> 2 ^ 31" using k(1) by (intro power_increasing) auto
  then show "length (entries t) \<le> 2 ^ 31" using k(3) by simp
qed

lemma getentry_less: "tab_shape t \<Longrightarrow> upb_getentry t hash < length (entries t)"
  using tab_shape_mask(1)[of t] word_and_le1[of "hash" "t_mask t"]
  by (simp add: upb_getentry_def word_le_nat_alt less_Suc_eq_le word_and_le1)

lemma ent_at_ok [simp]: "i < length (entries t) \<Longrightarrow> ent_at t i = Inr (entries t ! i)"
  by (simp add: ent_at_def)

lemma set_ent_ok [simp]: "i < length (entries t) \<Longrightarrow> set_ent t i e = Inr (t\<lparr>entries := (entries t)[i := e]\<rparr>)"
  by (simp add: set_ent_def)

definition occupied :: "'k upb_tabent list \<Rightarrow> nat set" where
  "occupied es = {i. i < length es \<and> te_key (es ! i) \<noteq> None}"

lemma occupied_upd:
  "i < length es \<Longrightarrow> occupied (es[i := e]) = (if te_key e = None then occupied es - {i} else insert i (occupied es))"
  by (auto simp: occupied_def nth_list_update split: if_splits)

lemma occupied_finite [simp]: "finite (occupied es)"
  by (simp add: occupied_def)

lemma occupied_card: "card (occupied es) \<le> length es"
  using card_mono[of "{..<length es}" "occupied es"] by (auto simp: occupied_def)

lemma occupied_keep:
  "i < length es \<Longrightarrow> te_key (es ! i) \<noteq> None \<Longrightarrow> te_key e \<noteq> None \<Longrightarrow> occupied (es[i := e]) = occupied es"
  by (simp add: occupied_upd) (auto simp: occupied_def)

lemma occupied_clear:
  "i < length es \<Longrightarrow> te_key (es ! i) \<noteq> None \<Longrightarrow> te_key e = None \<Longrightarrow>
   Suc (card (occupied (es[i := e]))) = card (occupied es)"
  by (subst occupied_upd, assumption, subst if_P, assumption) (rule card_Suc_Diff1, auto simp: occupied_def)

lemma emptyent_ok:
  assumes "tab_shape t" "card (occupied (entries t)) < length (entries t)"
  shows "\<exists>n < length (entries t). emptyent t i = Inr n \<and> te_key (entries t ! n) = None"
proof -
  have "\<exists>n < length (entries t). te_key (entries t ! n) = None"
  proof (rule ccontr)
    assume "\<not> ?thesis"
    then have "occupied (entries t) = {..<length (entries t)}" by (auto simp: occupied_def)
    with assms(2) show False by simp
  qed
  then obtain n where n: "n < length (entries t)" "te_key (entries t ! n) = None" by blast
  let ?is = "[i + 1..<length (entries t)] @ [0..<length (entries t)]"
  let ?P = "\<lambda>i. upb_tabent_isempty (entries t ! i)"
  obtain m where m: "find ?P ?is = Some m"
    using n by (cases "find ?P ?is") (auto simp: find_None_iff upb_tabent_isempty_def)
  then have "m < length (entries t)" "?P m" using find_SomeD[OF m] by auto
  with m tab_shape_mask(2)[OF assms(1)] show ?thesis
    by (auto simp: emptyent_def upb_tabent_isempty_def)
qed

text \<open>The next occupied entry from index \<open>n\<close> on.\<close>

lemma table_next_cases:
  assumes "tab_shape t"
  obtains (entry) j where "table_next t (int n - 1) = int j" "n \<le> j" "j < length (entries t)"
      "te_key (entries t ! j) \<noteq> None" "\<And>i. n \<le> i \<Longrightarrow> i < j \<Longrightarrow> te_key (entries t ! i) = None"
  | (stop) "table_next t (int n - 1) = int SIZE_MAX - 1" "\<not> table_next t (int n - 1) < int (length (entries t))"
      "\<And>i. n \<le> i \<Longrightarrow> i < length (entries t) \<Longrightarrow> te_key (entries t ! i) = None"
proof (cases "find (\<lambda>j. \<not> upb_tabent_isempty (entries t ! j)) [n..<length (entries t)]")
  case None
  then have e: "table_next t (int n - 1) = int SIZE_MAX - 1"
    using tab_shape_mask(2)[OF assms] by (simp add: table_next_def)
  then have "\<not> table_next t (int n - 1) < int (length (entries t))"
    using tab_shape_mask(3)[OF assms] by (simp add: SIZE_MAX_def)
  moreover have "te_key (entries t ! i) = None" if "n \<le> i" "i < length (entries t)" for i
    using None that by (simp add: find_None_iff upb_tabent_isempty_def)
  ultimately show thesis using stop e by blast
next
  case (Some j)
  then obtain i where i: "i < length [n..<length (entries t)]" "j = n + i" "te_key (entries t ! j) \<noteq> None"
      "\<And>i'. i' < i \<Longrightarrow> te_key (entries t ! (n + i')) = None"
    by (auto simp: find_Some_iff upb_tabent_isempty_def)
  have "te_key (entries t ! i') = None" if "n \<le> i'" "i' < j" for i'
    using i(4)[of "i' - n"] i(2) that by simp
  then show thesis using entry[of j] Some i tab_shape_mask(2)[OF assms] by (simp add: table_next_def)
qed

lemma pred_loop_ok:
  assumes "path (entries t) (Some a) (xs @ [p]) (Some h)" "h \<notin> set (xs @ [p])" "length xs < fuel"
  shows "pred_loop fuel t a h = Inr p"
  using assms
proof (induction fuel arbitrary: a xs)
  case (Suc fuel)
  show ?case
  proof (cases xs)
    case Nil
    then show ?thesis using Suc.prems(1) by simp
  next
    case (Cons c ys)
    then obtain b where b: "te_next (entries t ! a) = Some b" "path (entries t) (Some b) (ys @ [p]) (Some h)" "b \<noteq> h"
      using Suc.prems(1,2) by (cases ys) auto
    have "pred_loop fuel t b h = Inr p" using Suc.prems(2,3) Cons by (intro Suc.IH[OF b(2)]) auto
    then show ?thesis using b Suc.prems(1) Cons by auto
  qed
qed simp

lemma count_update [simp]:
  "upb_getentry (t\<lparr>t_count := c\<rparr>) h = upb_getentry t h" "emptyent (t\<lparr>t_count := c\<rparr>) i = emptyent t i"
  by (simp_all add: upb_getentry_def emptyent_def upb_table_size_def)

lemma count_Suc: "unat (c :: u32) < 2 ^ 31 \<Longrightarrow> unat (c + 1) = Suc (unat c)"
  by (simp add: unat_word_ariths)

locale hash_keys =
  fixes key_of :: "'k \<Rightarrow> u64 \<Rightarrow> 'l" and lhash :: "'l \<Rightarrow> u32"
    and hashfunc :: "'k hashfunc_t" and eql :: "('k, 'l) eqlfunc_t"
  assumes hash_key: "hashfunc (Some k) v = Inr (lhash (key_of k v))"
    and eql_key: "eql (Some k) v l = Inr (key_of k v = l)"
begin

definition lkey :: "'k upb_tabent \<Rightarrow> 'l option" where
  "lkey e = map_option (\<lambda>k. key_of k (te_val e)) (te_key e)"

definition home :: "'k upb_table \<Rightarrow> 'l \<Rightarrow> nat" where
  "home t l = upb_getentry t (lhash l)"

definition tab_inv :: "'k upb_table \<Rightarrow> bool" where
  "tab_inv t \<longleftrightarrow> tab_shape t \<and> unat (t_count t) = card (occupied (entries t)) \<and>
     (\<exists>C. chains lkey (home t) (entries t) C)"

lemma lkey_None [simp]: "lkey e = None \<longleftrightarrow> te_key e = None"
  by (simp add: lkey_def)

lemma lkey_eql: "lkey e = Some l' \<Longrightarrow> eql (te_key e) (te_val e) l = Inr (l' = l)"
  by (auto simp: lkey_def eql_key)

lemma lkey_hash: "lkey e = Some l \<Longrightarrow> hashfunc (te_key e) (te_val e) = Inr (lhash l)"
  by (auto simp: lkey_def hash_key)

lemma home_count [simp]: "home (t\<lparr>t_count := c\<rparr>) l = home t l"
  by (simp add: home_def)

lemma home_less: "tab_shape t \<Longrightarrow> home t l < length (entries t)"
  by (simp add: home_def getentry_less)

subsection \<open>Lookup\<close>

lemma find_loop_ok:
  assumes "path (entries t) (Some a) (a # as) None" "\<And>i. i \<in> set (a # as) \<Longrightarrow> te_key (entries t ! i) \<noteq> None"
    and "length as < fuel"
  shows "find_loop fuel t a l eql = Inr (find (\<lambda>i. lkey (entries t ! i) = Some l) (a # as))"
  using assms
proof (induction fuel arbitrary: a as)
  case (Suc fuel)
  obtain l' where l': "lkey (entries t ! a) = Some l'" using Suc.prems(2)[of a] by (auto simp: lkey_def)
  show ?case
  proof (cases as)
    case Nil
    then show ?thesis using Suc.prems(1) l' by (simp add: lkey_eql)
  next
    case (Cons b bs)
    then have "find_loop fuel t b l eql = Inr (find (\<lambda>i. lkey (entries t ! i) = Some l) (b # bs))"
      using Suc.prems by (intro Suc.IH) auto
    then show ?thesis using Suc.prems(1) l' Cons by (auto simp: lkey_eql)
  qed
qed simp

text \<open>The chain from an occupied entry, and that it is the whole chain of a key whose main position it is.\<close>

lemma chain_from:
  assumes C: "chains lkey (home t) (entries t) C" and sh: "tab_shape t"
    and i: "i < length (entries t)" "te_key (entries t ! i) \<noteq> None"
  obtains as where "path (entries t) (Some i) (i # as) None" "distinct (i # as)" "length as < length (entries t)"
    "\<And>j. j \<in> set (i # as) \<Longrightarrow> j < length (entries t) \<and> te_key (entries t ! j) \<noteq> None"
    "C i \<noteq> [] \<Longrightarrow> C i = i # as"
proof -
  obtain l where l: "lkey (entries t ! i) = Some l" using i(2) by (auto simp: lkey_def)
  let ?g = "home t l"
  have g: "?g < length (entries t)" using home_less[OF sh] .
  have b: "bucket lkey (home t) (entries t) ?g (C ?g)" using chainsD(1)[OF C g] .
  have "i \<in> set (C ?g)" using chainsD(2)[OF C i(1) l] .
  then obtain xs as where Cg: "C ?g = xs @ i # as" by (meson split_list)
  have d: "distinct (xs @ i # as)" using b Cg by (simp add: bucket_def)
  have mem: "j < length (entries t) \<and> te_key (entries t ! j) \<noteq> None" if "j \<in> set (i # as)" for j
    using that bucket_range[OF b] b Cg by (auto simp: bucket_def lkey_def)
  have "set (i # as) \<subseteq> {..<length (entries t)}" using mem by auto
  then have "card (set (i # as)) \<le> length (entries t)" using card_mono[of "{..<length (entries t)}"] by fastforce
  then have len: "length as < length (entries t)" using d by (simp add: distinct_card)
  have "C i = i # as" if ne: "C i \<noteq> []"
  proof -
    have "i \<in> set (C i)" using bucket_hd[OF chainsD(1)[OF C i(1)] ne] by auto
    with chains_other[OF C i(1) _ l] have gi: "?g = i" by simp
    obtain bs where "C i = i # bs" "i \<notin> set bs" using bucket_hd[OF chainsD(1)[OF C i(1)] ne] by blast
    with Cg gi d show ?thesis by (cases xs) auto
  qed
  then show thesis using that[of as] b Cg d mem len by (auto simp: bucket_def)
qed

lemma findentry_ok:
  assumes inv: "tab_inv t"
  shows "\<exists>r. findentry t l (lhash l) eql = Inr r \<and>
    (case r of Some i \<Rightarrow> i < length (entries t) \<and> lkey (entries t ! i) = Some l
     | None \<Rightarrow> \<forall>i < length (entries t). lkey (entries t ! i) \<noteq> Some l)"
proof -
  obtain C where C: "chains lkey (home t) (entries t) C" and sh: "tab_shape t"
    and cnt: "unat (t_count t) = card (occupied (entries t))" using inv by (auto simp: tab_inv_def)
  let ?h = "home t l" and ?P = "\<lambda>i. lkey (entries t ! i) = Some l"
  have h: "?h < length (entries t)" using home_less[OF sh] .
  have at_home: "C ?h \<noteq> [] \<and> i \<in> set (C ?h)" if "i < length (entries t)" "?P i" for i
    using chainsD(2)[OF C that] by auto
  consider "t_count t = 0" | "t_count t \<noteq> 0" "te_key (entries t ! ?h) = None"
    | "t_count t \<noteq> 0" "te_key (entries t ! ?h) \<noteq> None" by blast
  then show ?thesis
  proof cases
    case 1
    then have "occupied (entries t) = {}" using cnt by simp
    then show ?thesis using 1 by (auto simp: findentry_def occupied_def lkey_def)
  next
    case 2
    have "\<not> ?P i" if i: "i < length (entries t)" for i
    proof
      assume "?P i"
      then obtain bs where "C ?h = ?h # bs" using at_home[OF i] bucket_hd[OF chainsD(1)[OF C h]] by blast
      with chains_free[OF C h, of ?h] 2(2) show False by simp
    qed
    then show ?thesis using 2 h by (auto simp: findentry_def home_def upb_tabent_isempty_def)
  next
    case 3
    from chain_from[OF C sh h 3(2)] obtain as where as: "path (entries t) (Some ?h) (?h # as) None"
      "length as < length (entries t)" "C ?h \<noteq> [] \<Longrightarrow> C ?h = ?h # as"
      "\<And>j. j \<in> set (?h # as) \<Longrightarrow> j < length (entries t) \<and> te_key (entries t ! j) \<noteq> None" by metis
    have ne: "\<not> upb_tabent_isempty (entries t ! ?h)" using 3(2) by (simp add: upb_tabent_isempty_def)
    have "findentry t l (lhash l) eql = Inr (find ?P (?h # as))"
      using find_loop_ok[OF as(1) conjunct2[OF as(4)] as(2), of l] 3(1) h ne
      unfolding findentry_def home_def[symmetric] by simp
    moreover have "case find ?P (?h # as) of Some i \<Rightarrow> i < length (entries t) \<and> ?P i
        | None \<Rightarrow> \<forall>i < length (entries t). \<not> ?P i"
    proof (cases "find ?P (?h # as)")
      case None
      then have "\<not> ?P i" if "i < length (entries t)" for i
        using at_home[OF that] as(3) unfolding find_None_iff by auto
      with None show ?thesis by simp
    next
      case (Some i)
      from find_SomeD[OF this] have "?P i" "i \<in> set (?h # as)" by auto
      with Some as(4) show ?thesis by auto
    qed
    ultimately show ?thesis by simp
  qed
qed

subsection \<open>The map a table stands for\<close>

definition pair :: "'k upb_tabent \<Rightarrow> ('l \<times> u64) set" where
  "pair e = {(l, v). lkey e = Some l \<and> te_val e = v}"

definition pairs :: "'k upb_tabent list \<Rightarrow> ('l \<times> u64) set" where
  "pairs es = (\<Union>i < length es. pair (es ! i))"

definition tab_rel :: "'k upb_table \<Rightarrow> ('l \<Rightarrow> u64 option) \<Rightarrow> bool" where
  "tab_rel t m \<longleftrightarrow> tab_inv t \<and> pairs (entries t) = {(l, v). m l = Some v}"

lemma pairs_upd:
  assumes "i < length es"
  shows "pairs (es[i := e]) = pair e \<union> (\<Union>j \<in> {..<length es} - {i}. pair (es ! j))"
proof -
  have "{..<length es} = insert i ({..<length es} - {i})" using assms by auto
  then have "pairs (es[i := e]) = (\<Union>j \<in> insert i ({..<length es} - {i}). pair (es[i := e] ! j))"
    by (simp add: pairs_def)
  also have "\<dots> = pair e \<union> (\<Union>j \<in> {..<length es} - {i}. pair (es ! j))" using assms by (auto simp: nth_list_update split: if_splits)
  finally show ?thesis .
qed

lemma pairs_split: "i < length es \<Longrightarrow> pairs es = pair (es ! i) \<union> (\<Union>j \<in> {..<length es} - {i}. pair (es ! j))"
  using pairs_upd[of i es "es ! i"] by simp

lemma pairs_add:
  assumes "i < length es" "pair (es ! i) = {} \<or> (\<exists>j < length es. j \<noteq> i \<and> pair (es ! j) = pair (es ! i))"
  shows "pairs (es[i := e]) = pair e \<union> pairs es"
  using assms pairs_upd[OF assms(1), of e] pairs_split[OF assms(1)] by auto

lemma pairs_same: "i < length es \<Longrightarrow> pair e = pair (es ! i) \<Longrightarrow> pairs (es[i := e]) = pairs es"
  using pairs_upd[of i es e] pairs_split[of i es] by simp

text \<open>Replacing an entry loses its pair, when the keys are distinct.\<close>

lemma pairs_drop:
  assumes C: "chains lkey hm es C" and i: "i < length es" "lkey (es ! i) = Some l"
  shows "pairs (es[i := e]) = pair e \<union> (pairs es - {(l, te_val (es ! i))})"
proof -
  have "pair (es ! j) \<inter> {(l, te_val (es ! i))} = {}" if "j < length es" "j \<noteq> i" for j
    using chainsD(3)[OF C that(1) i(1) _ i(2)] that(2) by (auto simp: pair_def)
  moreover have "pair (es ! i) = {(l, te_val (es ! i))}" using i(2) by (auto simp: pair_def)
  ultimately show ?thesis using pairs_upd[OF i(1), of e] pairs_split[OF i(1)] by auto
qed

lemma pair_none [simp]: "te_key e = None \<Longrightarrow> pair e = {}"
  by (simp add: pair_def lkey_def)

lemma pair_cong: "te_key e = te_key e' \<Longrightarrow> te_val e = te_val e' \<Longrightarrow> pair e = pair e'"
  by (simp add: pair_def lkey_def)

lemma tab_rel_iff:
  "tab_rel t m \<Longrightarrow> m l = Some v \<longleftrightarrow> (\<exists>i < length (entries t). lkey (entries t ! i) = Some l \<and> te_val (entries t ! i) = v)"
  by (fastforce simp: tab_rel_def pairs_def pair_def set_eq_iff)

lemma tab_rel_key: "tab_rel t m \<Longrightarrow> m l = None \<longleftrightarrow> (\<forall>i < length (entries t). lkey (entries t ! i) \<noteq> Some l)"
  using tab_rel_iff[of t m l] by (metis option.exhaust option.distinct(1))

lemma tab_rel_val: "tab_rel t m \<Longrightarrow> i < length (entries t) \<Longrightarrow> lkey (entries t ! i) = Some l \<Longrightarrow> m l = Some (te_val (entries t ! i))"
  using tab_rel_iff[of t m l] by blast

lemma table_lookup_ok:
  assumes "tab_rel t m"
  shows "table_lookup t l (lhash l) eql = Inr (m l)"
proof -
  have "tab_inv t" using assms by (simp add: tab_rel_def)
  from findentry_ok[OF this, of l] obtain r where r: "findentry t l (lhash l) eql = Inr r"
    "case r of Some i \<Rightarrow> i < length (entries t) \<and> lkey (entries t ! i) = Some l
     | None \<Rightarrow> \<forall>i < length (entries t). lkey (entries t ! i) \<noteq> Some l" by blast
  then show ?thesis
    using tab_rel_key[OF assms, of l] tab_rel_val[OF assms, of _ l]
    by (auto simp: table_lookup_def split: option.splits)
qed

text \<open>Establishing the relation for a rewritten table.\<close>

lemma tab_rel_rewrite:
  assumes rel: "tab_rel t m" and C: "chains lkey (home t) es' C'" and len: "length es' = length (entries t)"
    and cnt: "unat c = card (occupied es')" and ps: "pairs es' = {(l, v). m' l = Some v}"
  shows "tab_rel (t\<lparr>t_count := c, entries := es'\<rparr>) m'"
proof -
  have "home (t\<lparr>t_count := c, entries := es'\<rparr>) = home t" by (simp add: home_def fun_eq_iff upb_getentry_def)
  then show ?thesis using assms by (auto simp: tab_rel_def tab_inv_def tab_shape_def)
qed

subsection \<open>Insertion\<close>

lemma findentry_at:
  assumes "tab_rel t m" "i < length (entries t)" "lkey (entries t ! i) = Some l"
  shows "findentry t l (lhash l) eql = Inr (Some i)"
proof -
  have inv: "tab_inv t" using assms(1) by (simp add: tab_rel_def)
  obtain C where C: "chains lkey (home t) (entries t) C" using inv by (auto simp: tab_inv_def)
  from findentry_ok[OF inv, of l] obtain r where r: "findentry t l (lhash l) eql = Inr r"
    "case r of Some j \<Rightarrow> j < length (entries t) \<and> lkey (entries t ! j) = Some l
     | None \<Rightarrow> \<forall>j < length (entries t). lkey (entries t ! j) \<noteq> Some l" by blast
  show ?thesis
  proof (cases r)
    case None
    then show ?thesis using r(2) assms(2,3) by simp
  next
    case (Some j)
    then show ?thesis using r chainsD(3)[OF C _ assms(2) _ assms(3)] by simp
  qed
qed

text \<open>The common end of the three ways to insert.\<close>

definition added :: "'k upb_table \<Rightarrow> ('l \<Rightarrow> u64 option) \<Rightarrow> 'l \<Rightarrow> u64 \<Rightarrow> 'k upb_table res \<Rightarrow> bool" where
  "added t m l v r \<longleftrightarrow> (\<exists>t'. r = Inr t' \<and> tab_rel t' (m(l \<mapsto> v)) \<and> t_mask t' = t_mask t \<and>
     length (entries t') = length (entries t) \<and> t_count t' = t_count t + 1)"

lemma insert_finish:
  assumes rel: "tab_rel t m" and fresh: "m l = None" and C: "chains lkey (home t) es' C'"
    and len: "length es' = length (entries t)" and room: "card (occupied (entries t)) < length (entries t)"
    and occ: "card (occupied es') = Suc (card (occupied (entries t)))"
    and ps: "pairs es' = insert (l, v) (pairs (entries t))" and our: "our < length (entries t)" "lkey (es' ! our) = Some l"
  shows "added t m l v (let t1 = t\<lparr>t_count := t_count t + 1, entries := es'\<rparr> in
    bindE (findentry t1 l (lhash l) eql) (\<lambda>found. bindE (assertE (found = Some our)) (\<lambda>_. Inr t1)))"
proof -
  let ?t = "t\<lparr>t_count := t_count t + 1, entries := es'\<rparr>"
  have inv: "tab_shape t" "unat (t_count t) = card (occupied (entries t))" using rel by (auto simp: tab_rel_def tab_inv_def)
  have "unat (t_count t) < 2 ^ 31" using inv room tab_shape_mask(3)[OF inv(1)] by linarith
  then have "unat (t_count t + 1) = card (occupied es')" using inv occ by (simp add: count_Suc)
  moreover have "pairs es' = {(l', v'). (m(l \<mapsto> v)) l' = Some v'}"
    using ps rel fresh by (auto simp: tab_rel_def split: if_splits)
  ultimately have r: "tab_rel ?t (m(l \<mapsto> v))" using tab_rel_rewrite[OF rel C len] by blast
  from findentry_at[OF this, of our l] our len r show ?thesis by (simp add: added_def)
qed

text \<open>The state before an insertion, and the three ways it can go on.\<close>

definition insertable :: "'k upb_table \<Rightarrow> ('l \<Rightarrow> u64 option) \<Rightarrow> 'l \<Rightarrow> 'k \<Rightarrow> u64 \<Rightarrow> bool" where
  "insertable t m l k v \<longleftrightarrow>
     tab_rel t m \<and> m l = None \<and> key_of k v = l \<and> card (occupied (entries t)) < length (entries t)"

lemma insertableD:
  assumes "insertable t m l k v"
  shows "tab_rel t m" "m l = None" "card (occupied (entries t)) < length (entries t)" "tab_shape t"
    "home t l < length (entries t)" "\<And>i. i < length (entries t) \<Longrightarrow> lkey (entries t ! i) \<noteq> Some l"
    "lkey \<lparr>te_val = v, te_key = Some k, te_next = nxt\<rparr> = Some l"
    "pair \<lparr>te_val = v, te_key = Some k, te_next = nxt\<rparr> = {(l, v)}"
    "findentry t l (lhash l) eql = Inr None"
proof -
  show rel: "tab_rel t m" and "m l = None" "card (occupied (entries t)) < length (entries t)"
    using assms by (simp_all add: insertable_def)
  then show none: "lkey (entries t ! i) \<noteq> Some l" if "i < length (entries t)" for i
    using tab_rel_key[OF rel] that by blast
  have inv: "tab_inv t" using rel by (simp add: tab_rel_def)
  then show sh: "tab_shape t" by (simp add: tab_inv_def)
  show "home t l < length (entries t)" using home_less[OF sh] .
  show "findentry t l (lhash l) eql = Inr None"
    using findentry_ok[OF inv, of l] none by (auto split: option.splits)
qed (use assms in \<open>auto simp: insertable_def lkey_def pair_def\<close>)

lemma insert_free:
  assumes ins: "insertable t m l k v" and C: "chains lkey (home t) (entries t) C"
    and None: "te_key (entries t ! home t l) = None"
  shows "added t m l v (table_insert t l (Some k) v (lhash l) hashfunc eql)"
proof -
  note I = insertableD[OF ins]
  let ?es = "entries t" and ?h = "home t l" and ?e = "\<lparr>te_val = v, te_key = Some k, te_next = None\<rparr>"
  have "added t m l v (let t1 = t\<lparr>t_count := t_count t + 1, entries := ?es[?h := ?e]\<rparr> in
      bindE (findentry t1 l (lhash l) eql) (\<lambda>found. bindE (assertE (found = Some ?h)) (\<lambda>_. Inr t1)))"
  proof (rule insert_finish[OF I(1,2) _ _ I(3)])
    show "chains lkey (home t) (?es[?h := ?e]) (C(?h := [?h]))"
      using None I(6,7) by (intro chains_add_free[OF C I(5)]) simp_all
    show "card (occupied (?es[?h := ?e])) = Suc (card (occupied ?es))"
      using I(5) None by (simp add: occupied_upd) (simp add: occupied_def)
    show "pairs (?es[?h := ?e]) = Set.insert (l, v) (pairs ?es)"
      using pairs_add[OF I(5)] None I(8) by simp
  qed (use I(5,7) in simp_all)
  then show ?thesis
    using I(5,9) None by (simp add: table_insert_def Let_def home_def[symmetric] upb_tabent_isempty_def)
qed

lemma insert_collide:
  assumes ins: "insertable t m l k v" and C: "chains lkey (home t) (entries t) C"
    and l0: "lkey (entries t ! home t l) = Some l0" and h0: "home t l0 = home t l"
  shows "added t m l v (table_insert t l (Some k) v (lhash l) hashfunc eql)"
proof -
  note I = insertableD[OF ins]
  let ?es = "entries t" and ?h = "home t l"
  obtain k0 where Some: "te_key (?es ! ?h) = Some k0" using l0 by (auto simp: lkey_def)
  obtain n where n: "n < length ?es" "emptyent t ?h = Inr n" "te_key (?es ! n) = None"
    using emptyent_ok[OF I(4,3)] by blast
  have nh: "n \<noteq> ?h" using n Some by auto
  let ?m = "(?es ! ?h)\<lparr>te_next := Some n\<rparr>" and ?e1 = "\<lparr>te_val = v, te_key = Some k, te_next = te_next (?es ! ?h)\<rparr>"
  have "added t m l v (let t1 = t\<lparr>t_count := t_count t + 1, entries := ?es[?h := ?m, n := ?e1]\<rparr> in
      bindE (findentry t1 l (lhash l) eql) (\<lambda>found. bindE (assertE (found = Some n)) (\<lambda>_. Inr t1)))"
  proof (rule insert_finish[OF I(1,2) _ _ I(3)])
    show "chains lkey (home t) (?es[?h := ?m, n := ?e1]) (C(?h := ?h # n # tl (C ?h)))"
      using I(6,7) l0 h0 n by (intro chains_add_collide[OF C I(5) l0]) (simp_all add: lkey_def)
    show "card (occupied (?es[?h := ?m, n := ?e1])) = Suc (card (occupied ?es))"
      using I(5) n Some nh by (simp add: occupied_upd) (simp add: occupied_def insert_absorb)
    show "pairs (?es[?h := ?m, n := ?e1]) = Set.insert (l, v) (pairs ?es)"
      using pairs_add[of n "?es[?h := ?m]" ?e1] pairs_same[OF I(5), of ?m] pair_cong[of ?m "?es ! ?h"] n nh I(8) by simp
  qed (use n I(7) in simp_all)
  then show ?thesis
    using I(5,9) Some n h0 lkey_hash[OF l0] nh
    by (simp add: table_insert_def Let_def home_def[symmetric] upb_tabent_isempty_def)
qed

text \<open>The chain of the key that occupies the main position, around that position.\<close>

lemma evicted_chain:
  assumes C: "chains lkey (home t) (entries t) C" and sh: "tab_shape t" and h: "h < length (entries t)"
    and l0: "lkey (entries t ! h) = Some l0" and h0: "home t l0 \<noteq> h"
  obtains xs p ys where "C (home t l0) = xs @ p # h # ys" "distinct (xs @ p # h # ys)" "p < length (entries t)"
    "te_key (entries t ! p) \<noteq> None" "path (entries t) (Some (home t l0)) (xs @ [p]) (Some h)"
    "length xs < length (entries t)"
proof -
  let ?g = "home t l0"
  have g: "?g < length (entries t)" using home_less[OF sh] .
  have b: "bucket lkey (home t) (entries t) ?g (C ?g)" using chainsD(1)[OF C g] .
  have "h \<in> set (C ?g)" using chainsD(2)[OF C h l0] .
  then obtain zs ys where zs: "C ?g = zs @ h # ys" by (meson split_list)
  have "zs \<noteq> []" using zs bucket_hd[OF b] h0 by (cases zs) auto
  then obtain xs p where xs: "zs = xs @ [p]" by (metis rev_exhaust)
  have Cg: "C ?g = xs @ p # h # ys" using zs xs by simp
  have d: "distinct (xs @ p # h # ys)" and p: "p < length (entries t)" "te_key (entries t ! p) \<noteq> None"
    using b bucket_range[OF b, of p] Cg by (auto simp: bucket_def lkey_def)
  have pre: "path (entries t) (Some ?g) (xs @ [p]) (Some h)" using b Cg by (auto simp: bucket_def)
  then have "set (xs @ [p]) \<subseteq> {..<length (entries t)}" using path_range by fastforce
  then have "length (xs @ [p]) \<le> length (entries t)"
    using d card_mono[of "{..<length (entries t)}" "set (xs @ [p])"] distinct_card[of "xs @ [p]"] by simp
  then show thesis using that[OF Cg d p pre] by simp
qed

lemma insert_evict:
  assumes ins: "insertable t m l k v" and C: "chains lkey (home t) (entries t) C"
    and l0: "lkey (entries t ! home t l) = Some l0" and h0: "home t l0 \<noteq> home t l"
  shows "added t m l v (table_insert t l (Some k) v (lhash l) hashfunc eql)"
proof -
  note I = insertableD[OF ins]
  let ?es = "entries t" and ?h = "home t l" and ?g = "home t l0"
  let ?e = "\<lparr>te_val = v, te_key = Some k, te_next = None\<rparr>"
  obtain k0 where Some: "te_key (?es ! ?h) = Some k0" using l0 by (auto simp: lkey_def)
  obtain n where n: "n < length ?es" "emptyent t ?h = Inr n" "te_key (?es ! n) = None"
    using emptyent_ok[OF I(4,3)] by blast
  have nh: "n \<noteq> ?h" using n Some by auto
  have g: "?g < length ?es" using home_less[OF I(4)] .
  obtain xs p ys where Cg: "C ?g = xs @ p # ?h # ys" and d: "distinct (xs @ p # ?h # ys)"
    and p: "p < length ?es" "te_key (?es ! p) \<noteq> None" and pre: "path ?es (Some ?g) (xs @ [p]) (Some ?h)"
    and len: "length xs < length ?es" using evicted_chain[OF C I(4,5) l0 h0] .
  have np: "n \<noteq> p" "n \<notin> set (xs @ [p])" using p n chains_free[OF C g, of n] Cg by auto
  let ?p = "(?es ! p)\<lparr>te_next := Some n\<rparr>"
  have pl: "pred_loop (length ?es) (t\<lparr>t_count := c, entries := ?es[n := ?es ! ?h]\<rparr>) ?g ?h = Inr p" for c
    using pre np d len by (intro pred_loop_ok[where xs = xs]) auto
  have "added t m l v (let t1 = t\<lparr>t_count := t_count t + 1, entries := ?es[n := ?es ! ?h, p := ?p, ?h := ?e]\<rparr> in
      bindE (findentry t1 l (lhash l) eql) (\<lambda>found. bindE (assertE (found = Some ?h)) (\<lambda>_. Inr t1)))"
  proof (rule insert_finish[OF I(1,2) _ _ I(3)])
    show "chains lkey (home t) (?es[n := ?es ! ?h, p := ?p, ?h := ?e]) (C(?g := xs @ p # n # ys, ?h := [?h]))"
      using I(6,7) n h0 g by (intro chains_add_evict[OF C I(5) l0 refl _ _ _ _ Cg]) (simp_all add: lkey_def)
    show "card (occupied (?es[n := ?es ! ?h, p := ?p, ?h := ?e])) = Suc (card (occupied ?es))"
      using I(5) n Some p np by (simp add: occupied_upd) (simp add: occupied_def insert_absorb)
    have "pairs (?es[n := ?es ! ?h]) = pairs ?es"
      using pairs_add[OF n(1), of "?es ! ?h"] n pairs_split[OF I(5)] by auto
    moreover have "pairs (?es[n := ?es ! ?h, p := ?p]) = pairs (?es[n := ?es ! ?h])"
      using p(1) np(1) by (intro pairs_same) (simp, rule pair_cong, simp_all)
    moreover have "pairs (?es[n := ?es ! ?h, p := ?p, ?h := ?e]) =
        pair ?e \<union> pairs (?es[n := ?es ! ?h, p := ?p])"
      using I(5) n(1) nh np(1) d by (intro pairs_add) (auto intro!: exI[of _ n])
    ultimately show "pairs (?es[n := ?es ! ?h, p := ?p, ?h := ?e]) = Set.insert (l, v) (pairs ?es)"
      using I(8) by simp
  qed (use I(5,7) in simp_all)
  then show ?thesis
    using I(5,9) Some n(1,2) h0 lkey_hash[OF l0] pl[of "t_count t + 1"] p(1) np(1)
    by (simp add: table_insert_def Let_def home_def[symmetric] upb_tabent_isempty_def)
qed

lemma table_insert_ok:
  assumes ins: "insertable t m l k v"
  shows "added t m l v (table_insert t l (Some k) v (lhash l) hashfunc eql)"
proof -
  obtain C where C: "chains lkey (home t) (entries t) C"
    using insertableD(1)[OF ins] by (auto simp: tab_rel_def tab_inv_def)
  show ?thesis
    using insert_free[OF ins C] insert_collide[OF ins C] insert_evict[OF ins C]
    by (cases "lkey (entries t ! home t l)") auto
qed

subsection \<open>Removal\<close>

lemma rm_loop_ok:
  assumes "path (entries t) (Some a) (a # as) None" "\<And>i. i \<in> set (a # as) \<Longrightarrow> te_key (entries t ! i) \<noteq> None"
    and "length as < fuel"
  shows "\<exists>xs p ys. a # as = xs @ p # ys \<and> rm_loop fuel t a l eql = Inr p \<and>
    (\<forall>i \<in> set (tl (xs @ [p])). lkey (entries t ! i) \<noteq> Some l) \<and>
    (case ys of [] \<Rightarrow> te_next (entries t ! p) = None
     | q # _ \<Rightarrow> te_next (entries t ! p) = Some q \<and> lkey (entries t ! q) = Some l)"
  using assms
proof (induction fuel arbitrary: a as)
  case (Suc fuel)
  show ?case
  proof (cases as)
    case Nil
    then show ?thesis using Suc.prems(1) by (intro exI[of _ "[]"] exI[of _ a]) simp
  next
    case (Cons b bs)
    obtain l' where l': "lkey (entries t ! b) = Some l'" using Suc.prems(2)[of b] Cons by (auto simp: lkey_def)
    have nx: "te_next (entries t ! a) = Some b" "a < length (entries t)" "b < length (entries t)"
      using Suc.prems(1) Cons by auto
    show ?thesis
    proof (cases "l' = l")
      case True
      then show ?thesis using nx l' Cons by (intro exI[of _ "[]"] exI[of _ a] exI[of _ "b # bs"]) (simp add: lkey_eql)
    next
      case False
      obtain xs p ys where IH: "b # bs = xs @ p # ys" "rm_loop fuel t b l eql = Inr p"
        "\<forall>i \<in> set (tl (xs @ [p])). lkey (entries t ! i) \<noteq> Some l"
        "case ys of [] \<Rightarrow> te_next (entries t ! p) = None
         | q # _ \<Rightarrow> te_next (entries t ! p) = Some q \<and> lkey (entries t ! q) = Some l"
        using Suc.IH[of b bs] Suc.prems Cons by auto
      have "\<forall>i \<in> set (tl ((a # xs) @ [p])). lkey (entries t ! i) \<noteq> Some l"
        using IH(1,3) l' False by (cases xs) auto
      then show ?thesis
        using IH nx l' Cons False by (intro exI[of _ "a # xs"] exI[of _ p] exI[of _ ys]) (simp add: lkey_eql)
    qed
  qed
qed simp

definition removed :: "'k upb_table \<Rightarrow> ('l \<Rightarrow> u64 option) \<Rightarrow> 'l \<Rightarrow> (u64 option \<times> 'k upb_table) res \<Rightarrow> bool" where
  "removed t m l r \<longleftrightarrow> (\<exists>t'. r = Inr (m l, t') \<and> tab_rel t' (m(l := None)) \<and> t_mask t' = t_mask t \<and>
     length (entries t') = length (entries t) \<and> unat (t_count t') \<le> unat (t_count t))"

lemma absent_removed: "tab_rel t m \<Longrightarrow> m l = None \<Longrightarrow> removed t m l (Inr (None, t))"
  by (simp add: removed_def fun_upd_idem)

lemma remove_finish:
  assumes rel: "tab_rel t m" and C: "chains lkey (home t) es' C'" and len: "length es' = length (entries t)"
    and i: "i < length (entries t)" "lkey (entries t ! i) = Some l"
    and occ: "Suc (card (occupied es')) = card (occupied (entries t))"
    and ps: "pairs es' = pairs (entries t) - {(l, te_val (entries t ! i))}"
  shows "removed t m l (Inr (Some (te_val (entries t ! i)), t\<lparr>t_count := t_count t - 1, entries := es'\<rparr>))"
proof -
  have v: "m l = Some (te_val (entries t ! i))" using tab_rel_val[OF rel i] .
  have cnt: "unat (t_count t) = card (occupied (entries t))" using rel by (auto simp: tab_rel_def tab_inv_def)
  then have "t_count t \<noteq> 0" using occ by auto
  then have c: "unat (t_count t - 1) = card (occupied es')" using cnt occ by (simp add: unat_minus_one)
  have "pairs es' = {(l', v'). (m(l := None)) l' = Some v'}"
    using ps rel v by (auto simp: tab_rel_def split: if_splits)
  with c have "tab_rel (t\<lparr>t_count := t_count t - 1, entries := es'\<rparr>) (m(l := None))"
    using tab_rel_rewrite[OF rel C len] by blast
  moreover have "unat (t_count t - 1) \<le> unat (t_count t)" using c cnt occ by simp
  ultimately show ?thesis using v len by (simp add: removed_def del: One_nat_def)
qed

lemma table_rm_head:
  assumes rel: "tab_rel t m" and h: "lkey (entries t ! home t l) = Some l"
  shows "removed t m l (table_rm t l (lhash l) eql)"
proof -
  obtain C where C: "chains lkey (home t) (entries t) C" and sh: "tab_shape t"
    using rel by (auto simp: tab_rel_def tab_inv_def)
  let ?es = "entries t" and ?h = "home t l"
  have hl: "upb_getentry t (lhash l) = ?h" by (simp add: home_def)
  have hr: "?h < length ?es" using home_less[OF sh] .
  have ne: "te_key (?es ! ?h) \<noteq> None" using h by (auto simp: lkey_def)
  then have full: "\<not> upb_tabent_isempty (?es ! ?h)" by (simp add: upb_tabent_isempty_def)
  have b: "bucket lkey (home t) ?es ?h (C ?h)" using chainsD(1)[OF C hr] .
  obtain as where Ch: "C ?h = ?h # as" "?h \<notin> set as" using chainsD(2)[OF C hr h] bucket_hd[OF b] by (cases "C ?h") auto
  show ?thesis
  proof (cases as)
    case Nil
    let ?e = "(?es ! ?h)\<lparr>te_key := None\<rparr>"
    have "te_next (?es ! ?h) = None" using b Ch Nil by (simp add: bucket_def)
    moreover have "removed t m l (Inr (Some (te_val (?es ! ?h)), t\<lparr>t_count := t_count t - 1, entries := ?es[?h := ?e]\<rparr>))"
    proof (rule remove_finish[OF rel _ _ hr h])
      show "chains lkey (home t) (?es[?h := ?e]) (C(?h := []))"
        using Ch Nil by (intro chains_remove_single[OF C hr]) simp_all
      show "Suc (card (occupied (?es[?h := ?e]))) = card (occupied ?es)"
        using hr ne by (intro occupied_clear) simp_all
      show "pairs (?es[?h := ?e]) = pairs ?es - {(l, te_val (?es ! ?h))}" using pairs_drop[OF C hr h] by simp
    qed simp
    ultimately show ?thesis
      using hr full h by (simp add: table_rm_def Let_def hl lkey_eql)
  next
    case (Cons q r)
    have q: "q < length ?es" "te_next (?es ! ?h) = Some q" "q \<noteq> ?h" and qk: "te_key (?es ! q) \<noteq> None"
      using b bucket_range[OF b, of q] Ch Cons by (auto simp: bucket_def lkey_def)
    let ?e = "(?es ! q)\<lparr>te_key := None\<rparr>"
    have "removed t m l (Inr (Some (te_val (?es ! ?h)), t\<lparr>t_count := t_count t - 1, entries := ?es[?h := ?es ! q, q := ?e]\<rparr>))"
    proof (rule remove_finish[OF rel _ _ hr h])
      show "chains lkey (home t) (?es[?h := ?es ! q, q := ?e]) (C(?h := ?h # r))"
        using Ch Cons by (intro chains_remove_head[OF C hr]) simp_all
      show "Suc (card (occupied (?es[?h := ?es ! q, q := ?e]))) = card (occupied ?es)"
        using hr q ne qk occupied_keep[OF hr ne qk] occupied_clear[of q "?es[?h := ?es ! q]" ?e] by simp
      have "(l, te_val (?es ! ?h)) \<notin> pair (?es ! q)" "pair (?es ! q) \<subseteq> pairs ?es"
        using chainsD(3)[OF C q(1) hr _ h] q(3) pairs_split[OF q(1)] by (auto simp: pair_def)
      moreover have "pairs (?es[?h := ?es ! q, q := ?e]) = pair ?e \<union> pairs (?es[?h := ?es ! q])"
        using hr q by (intro pairs_add) (auto intro!: exI[of _ ?h])
      ultimately show "pairs (?es[?h := ?es ! q, q := ?e]) = pairs ?es - {(l, te_val (?es ! ?h))}"
        using pairs_drop[OF C hr h, of "?es ! q"] pairs_split[OF hr] pairs_split[OF q(1)] by auto
    qed simp
    then show ?thesis
      using hr full h q by (simp add: table_rm_def Let_def hl lkey_eql)
  qed
qed

lemma table_rm_ok:
  assumes rel: "tab_rel t m"
  shows "removed t m l (table_rm t l (lhash l) eql)"
proof -
  obtain C where C: "chains lkey (home t) (entries t) C" and sh: "tab_shape t"
    using rel by (auto simp: tab_rel_def tab_inv_def)
  let ?es = "entries t" and ?h = "home t l"
  have hl: "upb_getentry t (lhash l) = ?h" by (simp add: home_def)
  have hr: "?h < length ?es" using home_less[OF sh] .
  have b: "bucket lkey (home t) ?es ?h (C ?h)" using chainsD(1)[OF C hr] .
  have at_home: "C ?h \<noteq> []" if "i < length ?es" "lkey (?es ! i) = Some l" for i using chainsD(2)[OF C that] by auto
  consider "te_key (?es ! ?h) = None" | "lkey (?es ! ?h) = Some l"
    | "te_key (?es ! ?h) \<noteq> None" "lkey (?es ! ?h) \<noteq> Some l" by (cases "lkey (?es ! ?h) = Some l") auto
  then show ?thesis
  proof cases
    case 1
    have "lkey (?es ! i) \<noteq> Some l" if i: "i < length ?es" for i
    proof
      assume "lkey (?es ! i) = Some l"
      then obtain bs where "C ?h = ?h # bs" using at_home[OF i] bucket_hd[OF b] by blast
      with chains_free[OF C hr, of ?h] 1 show False by simp
    qed
    then have "m l = None" using tab_rel_key[OF rel, of l] by simp
    with absent_removed[OF rel] show ?thesis
      using 1 hr by (simp add: table_rm_def hl upb_tabent_isempty_def)
  next
    case 2
    with table_rm_head[OF rel] show ?thesis .
  next
    case 3
    from chain_from[OF C sh hr 3(1)] obtain as where as: "path ?es (Some ?h) (?h # as) None"
      "length as < length ?es" "C ?h \<noteq> [] \<Longrightarrow> C ?h = ?h # as"
      "\<And>j. j \<in> set (?h # as) \<Longrightarrow> j < length ?es \<and> te_key (?es ! j) \<noteq> None" by metis
    from rm_loop_ok[OF as(1) conjunct2[OF as(4)] as(2), of l] obtain xs p ys where r: "?h # as = xs @ p # ys"
      "rm_loop (length ?es) t ?h l eql = Inr p" "\<forall>i \<in> set (tl (xs @ [p])). lkey (?es ! i) \<noteq> Some l"
      "case ys of [] \<Rightarrow> te_next (?es ! p) = None
       | q # _ \<Rightarrow> te_next (?es ! p) = Some q \<and> lkey (?es ! q) = Some l" by blast
    have p: "p < length ?es" "te_key (?es ! p) \<noteq> None" using as(4)[of p] r(1) by auto
    have full: "\<not> upb_tabent_isempty (?es ! ?h)" using 3(1) by (simp add: upb_tabent_isempty_def)
    obtain l1 where "lkey (?es ! ?h) = Some l1" "l1 \<noteq> l" using 3 by (cases "lkey (?es ! ?h)") auto
    then have run: "table_rm t l (lhash l) eql =
        bindE (ent_at t p) (\<lambda>pe. case te_next pe of
                 None \<Rightarrow> Inr (None, t)
               | Some r \<Rightarrow>
                   let t = t\<lparr>t_count := t_count t - 1\<rparr>
                   in bindE (ent_at t r) (\<lambda>re.
                      bindE (set_ent t r (re\<lparr>te_key := None\<rparr>)) (\<lambda>t.
                      bindE (ent_at t p) (\<lambda>pe.
                      bindE (set_ent t p (pe\<lparr>te_next := te_next re\<rparr>)) (\<lambda>t.
                        Inr (Some (te_val re), t))))))"
      using hr r(2) full by (simp add: table_rm_def hl Let_def lkey_eql)
    show ?thesis
    proof (cases ys)
      case Nil
      have "lkey (?es ! i) \<noteq> Some l" if "i \<in> set (?h # as)" for i
        using that r(1,3) Nil 3(2) by (cases xs) auto
      then have "m l = None"
        unfolding tab_rel_key[OF rel] using at_home as(3) chainsD(2)[OF C] by metis
      with absent_removed[OF rel] show ?thesis unfolding run using Nil r(4) p by simp
    next
      case (Cons q zs)
      then have q: "te_next (?es ! p) = Some q" "lkey (?es ! q) = Some l" "q < length ?es"
        using r(1,4) as(4)[of q] by auto
      have Ch: "C ?h = xs @ p # q # zs" using at_home[OF q(3,2)] as(3) r(1) Cons by simp
      have pq: "p \<noteq> q" using b Ch by (simp add: bucket_def)
      have qk: "te_key (?es ! q) \<noteq> None" using q(2) by (auto simp: lkey_def)
      let ?q = "(?es ! q)\<lparr>te_key := None\<rparr>" and ?p = "(?es ! p)\<lparr>te_next := te_next (?es ! q)\<rparr>"
      have "removed t m l (Inr (Some (te_val (?es ! q)), t\<lparr>t_count := t_count t - 1, entries := ?es[q := ?q, p := ?p]\<rparr>))"
      proof (rule remove_finish[OF rel _ _ q(3,2)])
        show "chains lkey (home t) (?es[q := ?q, p := ?p]) (C(?h := xs @ p # zs))"
          by (intro chains_remove_mid[OF C hr Ch]) (simp_all add: lkey_def)
        show "Suc (card (occupied (?es[q := ?q, p := ?p]))) = card (occupied ?es)"
          using p pq q(3) qk occupied_clear[of q ?es ?q] occupied_keep[of p "?es[q := ?q]" ?p] by simp
        have "pair ?p = pair (?es ! p)" by (rule pair_cong) simp_all
        then show "pairs (?es[q := ?q, p := ?p]) = pairs ?es - {(l, te_val (?es ! q))}"
          using pairs_drop[OF C q(3,2), of ?q] pairs_same[of p "?es[q := ?q]" ?p] p(1) pq by simp
      qed simp
      then show ?thesis unfolding run using p q(1,3) pq by (simp add: Let_def)
    qed
  qed
qed

subsection \<open>Copying a table\<close>

lemma pairs_take:
  assumes "n \<le> j" "j < length es" "\<And>i. n \<le> i \<Longrightarrow> i < j \<Longrightarrow> te_key (es ! i) = None"
  shows "pairs (take (Suc j) es) = pair (es ! j) \<union> pairs (take n es)"
proof -
  have "{..<Suc j} = insert j ({..<n} \<union> {n..<j})" using assms(1) by auto
  moreover have "(\<Union>i\<in>{n..<j}. pair (es ! i)) = {}" using assms(3) by auto
  ultimately have "(\<Union>i<Suc j. pair (es ! i)) = pair (es ! j) \<union> (\<Union>i<n. pair (es ! i))" by auto
  moreover have "length (take (Suc j) es) = Suc j" "length (take n es) = n" using assms(1,2) by auto
  ultimately show ?thesis by (simp add: pairs_def)
qed

lemma pairs_take_all:
  assumes "n \<le> length es" "\<And>i. n \<le> i \<Longrightarrow> i < length es \<Longrightarrow> te_key (es ! i) = None"
  shows "pairs (take n es) = pairs es"
proof -
  have "{..<length es} = {..<n} \<union> {n..<length es}" using assms(1) by auto
  moreover have "(\<Union>i\<in>{n..<length es}. pair (es ! i)) = {}" using assms(2) by auto
  ultimately have "(\<Union>i<length es. pair (es ! i)) = (\<Union>i<n. pair (es ! i))" by auto
  moreover have "length (take n es) = n" using assms(1) by auto
  ultimately show ?thesis by (simp add: pairs_def)
qed

text \<open>What the copy holds after the first \<open>n\<close> entries.\<close>

definition copied :: "'k upb_table \<Rightarrow> nat \<Rightarrow> 'k upb_table \<Rightarrow> bool" where
  "copied t n new \<longleftrightarrow> tab_inv new \<and> pairs (entries new) = pairs (take n (entries t)) \<and>
     card (occupied (entries new)) = card (occupied (take n (entries t)))"

lemma copied_rel:
  assumes "tab_rel t m" "copied t n new"
  shows "\<exists>m'. tab_rel new m' \<and> (\<forall>l v. m' l = Some v \<longleftrightarrow> (l, v) \<in> pairs (take n (entries t)))"
proof -
  have sub: "pairs (take n (entries t)) \<subseteq> {(l, v). m l = Some v}"
    using assms(1) by (auto simp: tab_rel_def pairs_def)
  let ?m = "\<lambda>l. if \<exists>v. (l, v) \<in> pairs (take n (entries t)) then m l else None"
  have "\<forall>l v. ?m l = Some v \<longleftrightarrow> (l, v) \<in> pairs (take n (entries t))" using sub by auto
  moreover from this have "tab_rel new ?m" using assms(2) by (auto simp: tab_rel_def copied_def)
  ultimately show ?thesis by blast
qed

lemma copied_insert:
  assumes rel: "tab_rel t m" and cp: "copied t n new" and room: "card (occupied (entries t)) \<le> length (entries new)"
    and j: "n \<le> j" "j < length (entries t)" "lkey (entries t ! j) = Some l" "te_key (entries t ! j) = Some k"
    and gap: "\<And>i. n \<le> i \<Longrightarrow> i < j \<Longrightarrow> te_key (entries t ! i) = None"
  shows "\<exists>new'. table_insert new l (Some k) (te_val (entries t ! j)) (lhash l) hashfunc eql = Inr new' \<and>
    copied t (Suc j) new' \<and> t_mask new' = t_mask new \<and> length (entries new') = length (entries new)"
proof -
  let ?es = "entries t" and ?v = "te_val (entries t ! j)"
  obtain m' where m': "tab_rel new m'" "\<forall>l v. m' l = Some v \<longleftrightarrow> (l, v) \<in> pairs (take n ?es)"
    using copied_rel[OF rel cp] by blast
  obtain C where C: "chains lkey (home t) ?es C" using rel by (auto simp: tab_rel_def tab_inv_def)
  have "(l, v) \<notin> pairs (take n ?es)" for v
  proof
    assume "(l, v) \<in> pairs (take n ?es)"
    then obtain i where "i < n" "i < length ?es" "lkey (?es ! i) = Some l" by (auto simp: pairs_def pair_def)
    with chainsD(3)[OF C _ j(2) _ j(3)] j(1) show False by fastforce
  qed
  then have "m' l = None" using m'(2) by (meson not_Some_eq)
  have occ: "occupied (take (Suc j) ?es) = insert j (occupied (take n ?es))"
  proof (intro set_eqI iffI)
    fix i assume i: "i \<in> occupied (take (Suc j) ?es)"
    then have "i < n \<or> i = j" using gap[of i] j(2) by (fastforce simp: occupied_def less_Suc_eq)
    with i j(1,2) show "i \<in> insert j (occupied (take n ?es))" by (auto simp: occupied_def)
  qed (use j in \<open>auto simp: occupied_def\<close>)
  have "j \<notin> occupied (take n ?es)" using j(1) by (simp add: occupied_def)
  then have card: "card (occupied (take (Suc j) ?es)) = Suc (card (occupied (take n ?es)))" using occ by simp
  have "card (occupied (take (Suc j) ?es)) \<le> card (occupied ?es)" by (rule card_mono) (auto simp: occupied_def)
  then have "card (occupied (entries new)) < length (entries new)" using cp card room by (simp add: copied_def)
  moreover have kl: "key_of k ?v = l" using j(3,4) by (simp add: lkey_def)
  ultimately have "insertable new m' l k ?v" using m'(1) \<open>m' l = None\<close> by (simp add: insertable_def)
  from table_insert_ok[OF this] obtain new' where n': "table_insert new l (Some k) ?v (lhash l) hashfunc eql = Inr new'"
    "tab_rel new' (m'(l \<mapsto> ?v))" "t_mask new' = t_mask new" "length (entries new') = length (entries new)"
    "t_count new' = t_count new + 1"
    unfolding added_def by (elim exE conjE) blast
  have inv: "tab_inv new'" "tab_inv new" using n'(2) m'(1) by (simp_all add: tab_rel_def)
  have "unat (t_count new) < 2 ^ 31"
    using inv(2) \<open>card (occupied (entries new)) < length (entries new)\<close> tab_shape_mask(3)[of new]
    by (simp add: tab_inv_def)
  then have "card (occupied (entries new')) = Suc (card (occupied (entries new)))"
    using inv n'(5) count_Suc[of "t_count new"] by (simp add: tab_inv_def)
  moreover have "pairs (entries new') = pairs (take (Suc j) ?es)"
  proof -
    have "pairs (entries new') = insert (l, ?v) {(l', v'). m' l' = Some v'}"
      using n'(2) \<open>m' l = None\<close> by (auto simp: tab_rel_def split: if_splits)
    also have "\<dots> = insert (l, ?v) (pairs (take n ?es))" using m'(2) by auto
    also have "\<dots> = pairs (take (Suc j) ?es)" using pairs_take[OF j(1,2) gap] j(3) by (auto simp: pair_def)
    finally show ?thesis .
  qed
  ultimately show ?thesis using n' inv(1) cp card by (auto simp: copied_def)
qed

lemma rehash_loop_ok:
  assumes rel: "tab_rel t m" and keyf: "\<And>k v. keyf (Some k) v = Inr (key_of k v)"
    and "copied t n new" "card (occupied (entries t)) \<le> length (entries new)" "n \<le> length (entries t)"
    and "length (entries t) < n + fuel"
  shows "\<exists>new'. rehash_loop fuel t new (table_next t (int n - 1)) keyf hashfunc eql = Inr new' \<and> tab_rel new' m \<and>
    t_mask new' = t_mask new \<and> length (entries new') = length (entries new) \<and> t_count new' = t_count t"
  using assms(3-)
proof (induction fuel arbitrary: n new)
  case (Suc fuel)
  have sh: "tab_shape t" using rel by (simp add: tab_rel_def tab_inv_def)
  show ?case
  proof (cases rule: table_next_cases[OF sh, of n, case_names entry stop])
    case (entry j)
    obtain k l where k: "te_key (entries t ! j) = Some k" "lkey (entries t ! j) = Some l" using entry(4) by (auto simp: lkey_def)
    obtain new1 where n1: "table_insert new l (Some k) (te_val (entries t ! j)) (lhash l) hashfunc eql = Inr new1"
      "copied t (Suc j) new1" "t_mask new1 = t_mask new" "length (entries new1) = length (entries new)"
      using copied_insert[OF rel Suc.prems(1,2) entry(2,3) k(2,1) entry(5)] by blast
    have "\<exists>new'. rehash_loop fuel t new1 (table_next t (int (Suc j) - 1)) keyf hashfunc eql = Inr new' \<and> tab_rel new' m \<and>
        t_mask new' = t_mask new1 \<and> length (entries new') = length (entries new1) \<and> t_count new' = t_count t"
      using n1 Suc.prems entry(2,3) by (intro Suc.IH) auto
    moreover have "key_of k (te_val (entries t ! j)) = l" using k by (simp add: lkey_def)
    ultimately show ?thesis
      using entry(1,3) k n1 lkey_hash[OF k(2)] tab_shape_mask(2)[OF sh] by (simp add: keyf)
  next
    case stop
    have "pairs (entries new) = pairs (entries t)"
      using Suc.prems(1) pairs_take_all[OF Suc.prems(3) stop(3)] by (simp add: copied_def)
    moreover have "occupied (take n (entries t)) = occupied (entries t)"
    proof (intro set_eqI iffI)
      fix i assume i: "i \<in> occupied (entries t)"
      then have "i < n" using stop(3)[of i] by (fastforce simp: occupied_def)
      with i show "i \<in> occupied (take n (entries t))" by (simp add: occupied_def)
    qed (auto simp: occupied_def)
    ultimately have "tab_rel new m" "unat (t_count new) = unat (t_count t)"
      using rel Suc.prems(1) by (auto simp: tab_rel_def copied_def tab_inv_def)
    then show ?thesis using stop(1,2) tab_shape_mask(2)[OF sh] by (simp add: word_unat_eq_iff)
  qed
qed simp

text \<open>A new table is empty, and so is a cleared one.\<close>

lemma zero_entries:
  assumes "tab_shape t" "entries t = replicate n zero_tabent" "t_count t = 0"
  shows "tab_rel t Map.empty"
proof -
  have "chains lkey (home t) (entries t) (\<lambda>_. [])"
    using assms by (auto simp: chains_def bucket_def zero_tabent_def lkey_def)
  then show ?thesis using assms by (auto simp: tab_rel_def tab_inv_def occupied_def zero_tabent_def pairs_def)
qed

lemma table_clear_ok: "tab_shape t \<Longrightarrow> tab_rel (table_clear t) Map.empty"
  by (rule zero_entries) (auto simp: table_clear_def tab_shape_mask(2) tab_shape_def)

lemma table_init_ok:
  assumes "table_init k a = (Some t, a')"
  shows "tab_rel t Map.empty" "length (entries t) = 2 ^ k" "k < 32" "t_mask t = 2 ^ k - 1" "t_count t = 0"
proof -
  show k: "k < 32" using assms by (auto simp: table_init_def split: if_splits)
  have "(2 :: nat) ^ k < 2 ^ 32" using k by (intro power_strict_increasing) auto
  then have "unat (of_nat (2 ^ k) :: u32) = 2 ^ k" by (simp add: unat_of_nat del: of_nat_power)
  then have u: "unat (push_bit k 1 :: u32) = 2 ^ k" by (simp add: push_bit_eq_mult)
  show t: "length (entries t) = 2 ^ k" "t_mask t = 2 ^ k - 1" "t_count t = 0"
    using assms u by (auto simp: table_init_def Let_def push_bit_eq_mult split: if_splits)
  then show "tab_rel t Map.empty"
    using assms k by (intro zero_entries) (auto simp: tab_shape_def table_init_def Let_def split: if_splits)
qed

end

end
