(* ===== verification/Hash_Load.thy ===== *)
theory Hash_Load
  imports Hash_Correct
begin

text \<open>
  The load factor of the base table: a table is full when seven eighths of its entries are used, so a
  table that is not full has a free entry, and the doubled table has room for all entries. The locale
  \<open>map_table\<close> is the contract that the string, integer and extension tables offer their users.
\<close>

subsection \<open>Load factor\<close>

definition load_limit :: "nat \<Rightarrow> nat" where
  "load_limit n = n - n div 8"

definition loaded :: "'k upb_table \<Rightarrow> bool" where
  "loaded t \<longleftrightarrow> unat (t_count t) \<le> load_limit (length (entries t))"

lemma load_limit_mono: "i \<le> j \<Longrightarrow> load_limit i \<le> load_limit j"
proof (erule lift_Suc_mono_le[rotated])
  fix n
  have "Suc n div 8 \<le> Suc (n div 8)" by (simp add: div_Suc)
  then show "load_limit n \<le> load_limit (Suc n)" by (simp add: load_limit_def)
qed

lemma load_limit_le: "load_limit n \<le> n"
  by (simp add: load_limit_def)

lemma load_limit_double: "0 < n \<Longrightarrow> load_limit n < load_limit (2 * n)"
  using load_limit_le[of n] div_less_dividend[of 4 n] by (simp add: load_limit_def)

lemma isfull_iff:
  assumes "tab_shape t"
  shows "isfull t \<longleftrightarrow> unat (t_count t) = load_limit (length (entries t))"
proof -
  let ?s = "t_mask t + 1"
  have s: "unat ?s = length (entries t)" using tab_shape_mask(2)[OF assms] by (simp add: upb_table_size_def)
  have d: "unat (drop_bit 3 ?s) = length (entries t) div 8"
    unfolding unat_drop_bit_eq s by (simp add: drop_bit_eq_div)
  then have "drop_bit 3 ?s \<le> ?s" by (simp only: word_le_nat_alt s div_le_dividend)
  then have "unat (?s - drop_bit 3 ?s) = load_limit (length (entries t))"
    by (simp only: unat_sub s d load_limit_def)
  then show ?thesis by (simp add: isfull_def Let_def word_unat_eq_iff)
qed

lemma popcnt_mask: "k \<le> fuel \<Longrightarrow> k \<le> 32 \<Longrightarrow> popcnt32_loop fuel (mask k) n = n + k"
proof (induction fuel arbitrary: k n)
  case (Suc fuel)
  show ?case
  proof (cases k)
    case (Suc k')
    have "drop_bit 1 (mask k :: u32) = mask k'"
      using Suc Suc.prems by (intro bit_word_eqI) (auto simp: bit_simps)
    moreover have one: "(mask k :: u32) AND 1 = 1"
      using Suc by (intro bit_word_eqI) (auto simp: bit_simps)
    moreover have "(mask k :: u32) \<noteq> 0" using one by (metis and_zero_eq and.commute zero_neq_one)
    ultimately show ?thesis using Suc Suc.IH[of k' "Suc n"] Suc.prems by simp
  qed simp
qed simp

lemma log2_table_size:
  assumes "t_mask t = 2 ^ k - 1" "k < 32"
  shows "upb_log2_table_size t = k"
  using popcnt_mask[of k 32 0] assms by (simp add: upb_log2_table_size_def upb_popcnt32_def mask_eq_exp_minus_1)

lemma table_init_arena:
  "table_init k a = (None, a') \<Longrightarrow> \<not> (k < 32 \<and> a 0)" "table_init k a = (Some t, a') \<Longrightarrow> a' = (\<lambda>n. a (Suc n))"
  by (auto simp: table_init_def Let_def split: if_splits)

lemma table_init_full_arena: "table_init k a = (r, a') \<Longrightarrow> (\<forall>n. a n) \<Longrightarrow> \<forall>n. a' n"
  by (auto simp: table_init_def Let_def split: if_splits)

lemma Log2Ceiling_le:
  assumes "x \<le> 2 ^ n"
  shows "upb_Log2Ceiling x \<le> n"
proof (rule ccontr)
  assume "\<not> upb_Log2Ceiling x \<le> n"
  then have "n \<le> upb_Log2Ceiling x - 1" "1 < x" by (auto simp: upb_Log2Ceiling_def split: if_splits)
  then have "2 ^ n < x" using Log2Ceiling_lower[of x] by (meson le_less_trans one_le_numeral power_increasing)
  with assms show False by simp
qed

text \<open>The number of entries for an expected number of values is enough, below the overflow of \<open>size_t\<close>.\<close>

lemma entries_needed_ok:
  assumes "unat n < 2 ^ 63"
  shows "\<exists>k. entries_needed_for n = Inr k \<and> unat k = unat n + 1 + unat n div 7 \<and>
    unat n \<le> load_limit (unat k)"
proof -
  let ?k = "n + 1 + n div 7"
  have "unat (n + 1) = unat n + 1" using assms by (simp add: unat_word_ariths)
  then have k: "unat ?k = unat n + 1 + unat n div 7"
    using assms by (simp add: unat_word_ariths unat_div)
  have d: "unat (drop_bit 3 ?k) = unat ?k div 8" by (simp only: unat_drop_bit_eq) (simp add: drop_bit_eq_div)
  then have "drop_bit 3 ?k \<le> ?k" by (simp only: word_le_nat_alt div_le_dividend)
  then have s: "unat (?k - drop_bit 3 ?k) = load_limit (unat ?k)" by (simp only: unat_sub d load_limit_def)
  have "unat n = unat n div 7 * 7 + unat n mod 7" "unat n mod 7 < 7" by simp_all
  then have "unat ?k div 8 < Suc (unat n div 7)" unfolding k by (intro div_less_iff_less_mult[THEN iffD2]) simp_all
  then have "unat n \<le> load_limit (unat ?k)" using k by (simp add: load_limit_def)
  moreover from this have "?k - drop_bit 3 ?k \<ge> n" by (simp only: word_le_nat_alt s)
  ultimately show ?thesis using k by (simp add: entries_needed_for_def Let_def)
qed

text \<open>Chains depend on the keys and the links of the entries only.\<close>

lemma path_links:
  "length es' = length es \<Longrightarrow> (\<And>i. i < length es \<Longrightarrow> te_next (es' ! i) = te_next (es ! i)) \<Longrightarrow>
   path es' x as y = path es x as y"
  by (induction as arbitrary: x) auto

lemma chains_same:
  assumes C: "chains ks hm es C" and len: "length es' = length es"
    and same: "\<And>i. i < length es \<Longrightarrow> ks (es' ! i) = ks (es ! i) \<and> te_next (es' ! i) = te_next (es ! i)"
  shows "chains ks hm es' C"
proof -
  have "bucket ks hm es' h (C h)" if "h < length es" for h
    using chainsD(1)[OF C that] bucket_range[OF chainsD(1)[OF C that]] same path_links[of es' es] len
    by (simp add: bucket_def)
  then show ?thesis using C len same by (simp add: chains_def)
qed

context hash_keys
begin

text \<open>A table that stands for \<open>m\<close> and keeps its load factor.\<close>

definition map_rel :: "'k upb_table \<Rightarrow> ('l \<Rightarrow> u64 option) \<Rightarrow> bool" where
  "map_rel t m \<longleftrightarrow> tab_rel t m \<and> loaded t"

lemma map_relD: "map_rel t m \<Longrightarrow> tab_rel t m" "map_rel t m \<Longrightarrow> tab_shape t" "map_rel t m \<Longrightarrow> loaded t"
  "map_rel t m \<Longrightarrow> unat (t_count t) = card (occupied (entries t))"
  by (auto simp: map_rel_def tab_rel_def tab_inv_def)

lemma map_rel_insert:
  assumes "map_rel t m" "\<not> isfull t" "m l = None" "key_of k v = l"
  shows "\<exists>t'. table_insert t l (Some k) v (lhash l) hashfunc eql = Inr t' \<and> map_rel t' (m(l \<mapsto> v)) \<and>
    t_mask t' = t_mask t \<and> t_count t' = t_count t + 1"
proof -
  note R = map_relD[OF assms(1)]
  have less: "unat (t_count t) < load_limit (length (entries t))"
    using R(3) assms(2) isfull_iff[OF R(2)] by (simp add: loaded_def)
  then have "insertable t m l k v"
    using R(1,4) assms(3,4) load_limit_le[of "length (entries t)"] by (simp add: insertable_def)
  from table_insert_ok[OF this] obtain t' where t': "table_insert t l (Some k) v (lhash l) hashfunc eql = Inr t'"
    "tab_rel t' (m(l \<mapsto> v))" "t_mask t' = t_mask t" "length (entries t') = length (entries t)" "t_count t' = t_count t + 1"
    unfolding added_def by blast
  have "unat (t_count t) < 2 ^ 31"
    using less load_limit_le[of "length (entries t)"] tab_shape_mask(3)[OF R(2)] by linarith
  then have "loaded t'" using t'(4,5) less count_Suc[of "t_count t"] by (simp add: loaded_def)
  with t' show ?thesis by (auto simp: map_rel_def)
qed

lemma map_rel_remove:
  assumes "map_rel t m"
  shows "\<exists>t'. table_rm t l (lhash l) eql = Inr (m l, t') \<and> map_rel t' (m(l := None))"
proof -
  from table_rm_ok[OF map_relD(1)[OF assms], of l] obtain t' where t': "table_rm t l (lhash l) eql = Inr (m l, t')"
    "tab_rel t' (m(l := None))" "length (entries t') = length (entries t)" "unat (t_count t') \<le> unat (t_count t)"
    unfolding removed_def by blast
  then show ?thesis using map_relD(3)[OF assms] by (auto simp: map_rel_def loaded_def)
qed

lemma map_rel_lookup: "map_rel t m \<Longrightarrow> table_lookup t l (lhash l) eql = Inr (m l)"
  by (rule table_lookup_ok[OF map_relD(1)])

lemma map_rel_clear: "map_rel t m \<Longrightarrow> map_rel (table_clear t) Map.empty"
  using table_clear_ok[OF map_relD(2)] by (auto simp: map_rel_def loaded_def table_clear_def)

lemma map_rel_init: "table_init k a = (Some t, a') \<Longrightarrow> map_rel t Map.empty"
  using table_init_ok[of k a t a'] by (simp add: map_rel_def loaded_def)

text \<open>The copy into a table of twice the size, which then has room.\<close>

lemma map_rel_double:
  assumes rel: "map_rel t m" and full: "isfull t" and keyf: "\<And>k v. keyf (Some k) v = Inr (key_of k v)"
    and init: "table_init (upb_log2_table_size t + 1) a = (Some new, a')"
  shows "\<exists>new'. rehash_loop (Suc (upb_table_size t)) t new (table_begin t) keyf hashfunc eql = Inr new' \<and>
    map_rel new' m \<and> \<not> isfull new' \<and> t_count new' = t_count t"
proof -
  note R = map_relD[OF rel]
  obtain k where k: "k < 32" "t_mask t = 2 ^ k - 1" "length (entries t) = 2 ^ k" using R(2) by (auto simp: tab_shape_def)
  note I = table_init_ok[OF init, unfolded log2_table_size[OF k(2,1)]]
  have twice: "length (entries new) = 2 * length (entries t)" using I(2) k(3) by simp
  have "unat (t_count new) = card (occupied (entries new))" using I(1) by (simp add: tab_rel_def tab_inv_def)
  then have "copied t 0 new" using I(1,5) by (auto simp: copied_def tab_rel_def pairs_def occupied_def)
  moreover have "card (occupied (entries t)) \<le> length (entries new)"
    using occupied_card[of "entries t"] twice by simp
  ultimately obtain new' where n: "rehash_loop (Suc (upb_table_size t)) t new (table_begin t) keyf hashfunc eql = Inr new'"
    "tab_rel new' m" "length (entries new') = length (entries new)" "t_count new' = t_count t"
    using rehash_loop_ok[OF R(1) keyf, of 0 new "Suc (upb_table_size t)"] tab_shape_mask(2)[OF R(2)]
    by (auto simp: table_begin_def)
  have "unat (t_count new') < load_limit (length (entries new'))"
    using load_limit_double[of "length (entries t)"] R(3) k(3) n(3,4) twice by (simp add: loaded_def)
  moreover have "tab_shape new'" using n(2) by (simp add: tab_rel_def tab_inv_def)
  ultimately have "loaded new'" "\<not> isfull new'" using isfull_iff[of new'] by (simp_all add: loaded_def)
  with n show ?thesis by (auto simp: map_rel_def)
qed

text \<open>Storing a value in an entry whose key stays the same.\<close>

lemma map_rel_store:
  assumes rel: "map_rel t m" and i: "i < length (entries t)" "te_key (entries t ! i) = Some k"
    and l: "key_of k (te_val (entries t ! i)) = l" "key_of k v = l"
  shows "map_rel (t\<lparr>entries := (entries t)[i := (entries t ! i)\<lparr>te_val := v\<rparr>]\<rparr>) (m(l \<mapsto> v))" (is "map_rel ?t _")
proof -
  note R = map_relD[OF rel]
  let ?e = "(entries t ! i)\<lparr>te_val := v\<rparr>"
  obtain C where C: "chains lkey (home t) (entries t) C" using R(1) by (auto simp: tab_rel_def tab_inv_def)
  have old: "lkey (entries t ! i) = Some l" using i(2) l(1) by (simp add: lkey_def)
  have C': "chains lkey (home t) (entries ?t) C"
    using old l(2) i by (intro chains_same[OF C]) (auto simp: nth_list_update lkey_def)
  have "pairs (entries ?t) = pair ?e \<union> (pairs (entries t) - {(l, te_val (entries t ! i))})"
    using pairs_drop[OF C i(1) old] by simp
  also have "\<dots> = {(l', v'). (m(l \<mapsto> v)) l' = Some v'}"
    using R(1) tab_rel_val[OF R(1) i(1) old] i(2) l(2) by (auto simp: tab_rel_def pair_def lkey_def split: if_splits)
  finally have ps: "pairs (entries ?t) = {(l', v'). (m(l \<mapsto> v)) l' = Some v'}" .
  have "occupied (entries ?t) = occupied (entries t)" using i by (simp add: occupied_keep)
  then have "tab_rel (t\<lparr>t_count := t_count t, entries := entries ?t\<rparr>) (m(l \<mapsto> v))"
    using R(4) C' by (intro tab_rel_rewrite[OF R(1)]) (use ps in auto)
  then show ?thesis using R(3) by (simp add: map_rel_def loaded_def)
qed

text \<open>The count is the size of the map.\<close>

lemma tab_rel_card:
  assumes "tab_rel t m"
  shows "card (dom m) = unat (t_count t)"
proof -
  obtain C where C: "chains lkey (home t) (entries t) C" and cnt: "unat (t_count t) = card (occupied (entries t))"
    using assms by (auto simp: tab_rel_def tab_inv_def)
  let ?f = "\<lambda>i. the (lkey (entries t ! i))"
  have k: "lkey (entries t ! i) = Some (?f i)" "i < length (entries t)" if "i \<in> occupied (entries t)" for i
    using that by (auto simp: occupied_def lkey_def)
  have "inj_on ?f (occupied (entries t))"
    using k chainsD(3)[OF C] by (intro inj_onI) metis
  moreover have "dom m = ?f ` occupied (entries t)"
  proof (intro set_eqI iffI)
    fix l assume "l \<in> dom m"
    then obtain i where "i < length (entries t)" "lkey (entries t ! i) = Some l"
      using tab_rel_key[OF assms, of l] by (auto simp: domIff)
    then show "l \<in> ?f ` occupied (entries t)" by (intro image_eqI[of _ _ i]) (auto simp: occupied_def lkey_def)
  next
    fix l assume "l \<in> ?f ` occupied (entries t)"
    then show "l \<in> dom m" using k tab_rel_val[OF assms] by blast
  qed
  ultimately show ?thesis using cnt by (simp add: card_image)
qed

text \<open>What an iteration from index \<open>n\<close> on visits.\<close>

definition items_from :: "'k upb_table \<Rightarrow> nat \<Rightarrow> ('l \<times> u64) list" where
  "items_from t n = map (\<lambda>i. (the (lkey (entries t ! i)), te_val (entries t ! i)))
     (filter (\<lambda>i. te_key (entries t ! i) \<noteq> None) [n..<length (entries t)])"

lemma items_from_entry:
  assumes "n \<le> j" "j < length (entries t)" "lkey (entries t ! j) = Some l"
    and "\<And>i. n \<le> i \<Longrightarrow> i < j \<Longrightarrow> te_key (entries t ! i) = None"
  shows "items_from t n = (l, te_val (entries t ! j)) # items_from t (Suc j)"
proof -
  have "[n..<length (entries t)] = [n..<j] @ j # [Suc j..<length (entries t)]"
    using assms(1,2) upt_add_eq_append[of n j "length (entries t) - j"] by (simp add: upt_conv_Cons)
  moreover have "filter (\<lambda>i. te_key (entries t ! i) \<noteq> None) [n..<j] = []"
    using assms(4) by (auto simp: filter_empty_conv)
  moreover have "te_key (entries t ! j) \<noteq> None" using assms(3) by (auto simp: lkey_def)
  ultimately show ?thesis using assms(3) by (simp add: items_from_def)
qed

lemma items_from_stop:
  "(\<And>i. n \<le> i \<Longrightarrow> i < length (entries t) \<Longrightarrow> te_key (entries t ! i) = None) \<Longrightarrow> items_from t n = []"
  by (simp add: items_from_def filter_empty_conv)

lemma items_map:
  assumes "tab_rel t m"
  shows "distinct (map fst (items_from t 0))" "map_of (items_from t 0) = m"
proof -
  obtain C where C: "chains lkey (home t) (entries t) C" using assms by (auto simp: tab_rel_def tab_inv_def)
  let ?is = "filter (\<lambda>i. te_key (entries t ! i) \<noteq> None) [0..<length (entries t)]"
  have k: "lkey (entries t ! i) = Some (the (lkey (entries t ! i)))" "i < length (entries t)" if "i \<in> set ?is" for i
    using that by (auto simp: lkey_def)
  have "inj_on (\<lambda>i. the (lkey (entries t ! i))) (set ?is)"
    using k chainsD(3)[OF C] by (intro inj_onI) metis
  then show d: "distinct (map fst (items_from t 0))" by (simp add: items_from_def distinct_map comp_def)
  have "set (items_from t 0) = {(l, v). m l = Some v}"
  proof -
    have "set (items_from t 0) = pairs (entries t)"
      by (force simp: items_from_def pairs_def pair_def lkey_def)
    then show ?thesis using assms by (simp add: tab_rel_def)
  qed
  then have "map_of (items_from t 0) l = Some v \<longleftrightarrow> m l = Some v" for l v
    using map_of_eq_Some_iff[OF d, of l v] by auto
  then show "map_of (items_from t 0) = m" by (metis ext not_Some_eq)
qed

end

subsection \<open>The contract of a table\<close>

text \<open>
  \<open>rel t m\<close> says that the table \<open>t\<close> stands for the map \<open>m\<close>. An insertion of an absent key may fail for lack
  of memory and then leaves the map as it was.
\<close>

locale map_table =
  fixes rel :: "'t \<Rightarrow> ('l \<Rightarrow> u64 option) \<Rightarrow> bool" and valid :: "'l \<Rightarrow> u64 \<Rightarrow> bool"
    and insert_op :: "'t \<Rightarrow> 'l \<Rightarrow> u64 \<Rightarrow> arena \<Rightarrow> (bool \<times> 't \<times> arena) res"
    and lookup_op :: "'t \<Rightarrow> 'l \<Rightarrow> u64 option res" and remove_op :: "'t \<Rightarrow> 'l \<Rightarrow> (u64 option \<times> 't) res"
    and clear_op :: "'t \<Rightarrow> 't" and count_op :: "'t \<Rightarrow> nat"
  assumes insert_law: "rel t m \<Longrightarrow> m l = None \<Longrightarrow> valid l v \<Longrightarrow>
      \<exists>ok t' a'. insert_op t l v a = Inr (ok, t', a') \<and> rel t' (if ok then m(l \<mapsto> v) else m)"
    and lookup_law: "rel t m \<Longrightarrow> lookup_op t l = Inr (m l)"
    and remove_law: "rel t m \<Longrightarrow> \<exists>t'. remove_op t l = Inr (m l, t') \<and> rel t' (m(l := None))"
    and clear_law: "rel t m \<Longrightarrow> rel (clear_op t) Map.empty"
    and count_law: "rel t m \<Longrightarrow> count_op t = card (dom m)"

text \<open>
  A client of a table: a sequence of calls and what each of them returned. \<open>Put\<close> is the way the message
  maps overwrite a key, with a removal first.
\<close>

datatype 'l tab_call = Put 'l u64 | Look 'l | Remove 'l | Clear | Count

datatype tab_ret = RBool bool | RVal "u64 option" | RNat nat | RVoid

definition tab_step ::
    "('t \<Rightarrow> 'l \<Rightarrow> u64 \<Rightarrow> arena \<Rightarrow> (bool \<times> 't \<times> arena) res) \<Rightarrow> ('t \<Rightarrow> 'l \<Rightarrow> u64 option res) \<Rightarrow>
     ('t \<Rightarrow> 'l \<Rightarrow> (u64 option \<times> 't) res) \<Rightarrow> ('t \<Rightarrow> 't) \<Rightarrow> ('t \<Rightarrow> nat) \<Rightarrow>
     't \<Rightarrow> arena \<Rightarrow> 'l tab_call \<Rightarrow> (tab_ret \<times> 't \<times> arena) res" where
  "tab_step ins look rm clr cnt t a c = (case c of
     Put l v \<Rightarrow>
       bindE (rm t l) (\<lambda>(_, t).
       bindE (ins t l v a) (\<lambda>(ok, t, a). Inr (RBool ok, t, a)))
   | Look l \<Rightarrow> bindE (look t l) (\<lambda>r. Inr (RVal r, t, a))
   | Remove l \<Rightarrow> bindE (rm t l) (\<lambda>(r, t). Inr (RVal r, t, a))
   | Clear \<Rightarrow> Inr (RVoid, clr t, a)
   | Count \<Rightarrow> Inr (RNat (cnt t), t, a))"

text \<open>
  The same calls on a map. The one thing the map does not decide is whether memory runs out. A \<open>Put\<close>
  that fails has already removed the old value.
\<close>

fun tab_spec :: "('l \<Rightarrow> u64 option) \<Rightarrow> 'l tab_call \<Rightarrow> tab_ret \<Rightarrow> ('l \<Rightarrow> u64 option) option" where
  "tab_spec m (Put l v) (RBool True) = Some (m(l \<mapsto> v))"
| "tab_spec m (Put l v) (RBool False) = Some (m(l := None))"
| "tab_spec m (Look l) (RVal r) = (if r = m l then Some m else None)"
| "tab_spec m (Remove l) (RVal r) = (if r = m l then Some (m(l := None)) else None)"
| "tab_spec m Clear RVoid = Some Map.empty"
| "tab_spec m Count (RNat n) = (if n = card (dom m) then Some m else None)"
| "tab_spec m _ _ = None"

text \<open>A run of calls with what each returned, and that a map explains it.\<close>

primrec tab_run ::
    "('t \<Rightarrow> arena \<Rightarrow> 'c \<Rightarrow> (tab_ret \<times> 't \<times> arena) res) \<Rightarrow> 't \<Rightarrow> arena \<Rightarrow> 'c list \<Rightarrow>
     (tab_ret list \<times> 't \<times> arena) res" where
  "tab_run step t a [] = Inr ([], t, a)"
| "tab_run step t a (c # cs) =
     bindE (step t a c) (\<lambda>(r, t, a).
     bindE (tab_run step t a cs) (\<lambda>(rs, t, a). Inr (r # rs, t, a)))"

fun explains :: "('l \<Rightarrow> u64 option) \<Rightarrow> 'l tab_call list \<Rightarrow> tab_ret list \<Rightarrow> ('l \<Rightarrow> u64 option) option" where
  "explains m [] [] = Some m"
| "explains m (c # cs) (r # rs) = (case tab_spec m c r of None \<Rightarrow> None | Some m' \<Rightarrow> explains m' cs rs)"
| "explains m _ _ = None"

definition calls_valid :: "('l \<Rightarrow> u64 \<Rightarrow> bool) \<Rightarrow> 'l tab_call list \<Rightarrow> bool" where
  "calls_valid valid cs \<longleftrightarrow> (\<forall>c \<in> set cs. case c of Put l v \<Rightarrow> valid l v | _ \<Rightarrow> True)"

lemma calls_valid_True [simp]: "calls_valid (\<lambda>l v. True) cs"
  by (auto simp: calls_valid_def split: tab_call.splits)

context map_table
begin

lemma step_refines:
  assumes "rel t m" "\<And>l v. c = Put l v \<Longrightarrow> valid l v"
  shows "\<exists>r t' a' m'. tab_step insert_op lookup_op remove_op clear_op count_op t a c = Inr (r, t', a') \<and>
    tab_spec m c r = Some m' \<and> rel t' m'"
proof (cases c)
  case (Put l v)
  obtain t1 where t1: "remove_op t l = Inr (m l, t1)" "rel t1 (m(l := None))" using remove_law[OF assms(1)] by blast
  obtain ok t' a' where "insert_op t1 l v a = Inr (ok, t', a')" "rel t' (if ok then m(l \<mapsto> v) else m(l := None))"
    using insert_law[OF t1(2), of l v a] assms(2)[OF Put] by (auto cong: if_cong)
  then show ?thesis using Put t1 by (cases ok) (simp_all add: tab_step_def)
next
  case (Remove l)
  then show ?thesis using remove_law[OF assms(1), of l] by (auto simp: tab_step_def)
qed (use lookup_law[OF assms(1)] clear_law[OF assms(1)] count_law[OF assms(1)] assms(1) in \<open>auto simp: tab_step_def\<close>)

lemma run_refines:
  assumes "rel t m" "calls_valid valid cs"
  shows "\<exists>rs t' a' m'. tab_run (tab_step insert_op lookup_op remove_op clear_op count_op) t a cs = Inr (rs, t', a') \<and>
    explains m cs rs = Some m' \<and> rel t' m'"
  using assms
proof (induction cs arbitrary: t m a)
  case (Cons c cs)
  obtain r t1 a1 m1 where 1: "tab_step insert_op lookup_op remove_op clear_op count_op t a c = Inr (r, t1, a1)"
    "tab_spec m c r = Some m1" "rel t1 m1"
    using step_refines[OF Cons.prems(1), of c a] Cons.prems(2) by (fastforce simp: calls_valid_def)
  obtain rs t' a' m' where "tab_run (tab_step insert_op lookup_op remove_op clear_op count_op) t1 a1 cs = Inr (rs, t', a')"
    "explains m1 cs rs = Some m'" "rel t' m'"
    using Cons.IH[OF 1(3)] Cons.prems(2) by (fastforce simp: calls_valid_def)
  with 1 show ?case by simp
qed simp

end

end
