(* ===== verification/Int_Table.thy ===== *)
theory Int_Table
  imports Hash_Load
begin

text \<open>
  \<open>upb_inttable\<close>: small keys are in an array with a bit mask of those present, the others in the base
  table. Key 0 is always in the array, because the zero key marks an empty entry of the base table. A
  pointer to a value is its place, in the array or in the table.
\<close>

subsection \<open>State\<close>

record upb_inttable =
  it_t :: "u64 upb_table"
  it_array :: "u64 list"
  it_presence_mask :: "byte list"
  it_array_size :: u32
  it_array_count :: u32

datatype value_place = In_Array nat | In_Table nat

definition num_key :: "u64 \<Rightarrow> u64 option" where
  "num_key n = (if n = 0 then None else Some n)"

definition key_num :: "u64 option \<Rightarrow> u64" where
  "key_num k = (case k of None \<Rightarrow> 0 | Some n \<Rightarrow> n)"

definition UPB_MAXARRSIZE :: nat where
  "UPB_MAXARRSIZE = 16"

definition INTPTR_MAX :: int where
  "INTPTR_MAX = 2 ^ 63 - 1"

definition kInttableSentinel :: u64 where
  "kInttableSentinel = - 1"

subsection \<open>Helpers\<close>

definition is_pow2 :: "u64 \<Rightarrow> bool" where
  "is_pow2 v \<longleftrightarrow> v = 0 \<or> v AND (v - 1) = 0"

text \<open>\<open>while (v >>= 1) ret++\<close>, at most 64 rounds.\<close>

primrec log2_loop :: "nat \<Rightarrow> u64 \<Rightarrow> nat \<Rightarrow> nat" where
  "log2_loop 0 v r = r"
| "log2_loop (Suc fuel) v r = (let v = drop_bit 1 v in if v = 0 then r else log2_loop fuel v (r + 1))"

definition log2ceil :: "u64 \<Rightarrow> nat" where
  "log2ceil v =
     (let r = log2_loop 64 v 0; r = (if is_pow2 v then r else r + 1) in min UPB_MAXARRSIZE r)"

definition presence_mask_arr_size :: "u32 \<Rightarrow> u32" where
  "presence_mask_arr_size array_size = (array_size + 7) div 8"

definition inthash :: "u64 hashfunc_t" where
  "inthash key val = Inr (upb_inthash (key_num key))"

definition inteql :: "(u64, u64) eqlfunc_t" where
  "inteql k1 v1 k2 = Inr (key_num k1 = k2)"

definition mask_at :: "upb_inttable \<Rightarrow> u64 \<Rightarrow> byte res" where
  "mask_at t key =
     (if unat key div 8 < length (it_presence_mask t)
      then Inr (it_presence_mask t ! (unat key div 8)) else Inl OutOfBounds)"

definition upb_inttable_arrhas :: "upb_inttable \<Rightarrow> u64 \<Rightarrow> bool res" where
  "upb_inttable_arrhas t key =
     bindE (mask_at t key) (\<lambda>b. Inr (b AND push_bit (unat key mod 8) 1 \<noteq> 0))"

definition array_at :: "upb_inttable \<Rightarrow> nat \<Rightarrow> u64 res" where
  "array_at t i = (if i < length (it_array t) then Inr (it_array t ! i) else Inl OutOfBounds)"

definition array_set :: "upb_inttable \<Rightarrow> nat \<Rightarrow> u64 \<Rightarrow> upb_inttable res" where
  "array_set t i v =
     (if i < length (it_array t) then Inr (t\<lparr>it_array := (it_array t)[i := v]\<rparr>) else Inl OutOfBounds)"

definition mask_set :: "upb_inttable \<Rightarrow> u64 \<Rightarrow> (byte \<Rightarrow> byte) \<Rightarrow> upb_inttable res" where
  "mask_set t key f =
     bindE (mask_at t key) (\<lambda>b.
       Inr (t\<lparr>it_presence_mask := (it_presence_mask t)[unat key div 8 := f b]\<rparr>))"

definition in_array :: "upb_inttable \<Rightarrow> u64 \<Rightarrow> bool" where
  "in_array t key \<longleftrightarrow> key < ucast (it_array_size t)"

definition inttable_array_get :: "upb_inttable \<Rightarrow> u64 \<Rightarrow> value_place option res" where
  "inttable_array_get t key =
     bindE (assertE (in_array t key)) (\<lambda>_.
     bindE (upb_inttable_arrhas t key) (\<lambda>h. Inr (if h then Some (In_Array (unat key)) else None)))"

definition inttable_val :: "upb_inttable \<Rightarrow> u64 \<Rightarrow> value_place option res" where
  "inttable_val t key =
     (if in_array t key then inttable_array_get t key
      else bindE (findentry (it_t t) key (upb_inthash key) inteql) (\<lambda>e. Inr (map_option In_Table e)))"

definition load_place :: "upb_inttable \<Rightarrow> value_place \<Rightarrow> u64 res" where
  "load_place t p = (case p of
     In_Array i \<Rightarrow> array_at t i
   | In_Table i \<Rightarrow> bindE (ent_at (it_t t) i) (\<lambda>e. Inr (te_val e)))"

definition store_place :: "upb_inttable \<Rightarrow> value_place \<Rightarrow> u64 \<Rightarrow> upb_inttable res" where
  "store_place t p v = (case p of
     In_Array i \<Rightarrow> array_set t i v
   | In_Table i \<Rightarrow>
       bindE (ent_at (it_t t) i) (\<lambda>e.
       bindE (set_ent (it_t t) i (e\<lparr>te_val := v\<rparr>)) (\<lambda>h. Inr (t\<lparr>it_t := h\<rparr>))))"

subsection \<open>Operations\<close>

definition upb_inttable_count :: "upb_inttable \<Rightarrow> nat" where
  "upb_inttable_count t = unat (t_count (it_t t) + it_array_count t)"

definition upb_inttable_sizedinit :: "u32 \<Rightarrow> nat \<Rightarrow> arena \<Rightarrow> upb_inttable option \<times> arena" where
  "upb_inttable_sizedinit asize hsize_lg2 a =
     (case table_init (hsize_lg2 mod 256) a of
        (None, a) \<Rightarrow> (None, a)
      | (Some h, a) \<Rightarrow>
          let array_size = max 1 asize
          in if a 0 then
               (Some \<lparr>it_t = h, it_array = replicate (unat array_size) kInttableSentinel,
                  it_presence_mask = replicate (unat (presence_mask_arr_size array_size)) 0,
                  it_array_size = array_size, it_array_count = 0\<rparr>, \<lambda>n. a (Suc n))
             else (None, \<lambda>n. a (Suc n)))"

definition upb_inttable_init :: "arena \<Rightarrow> upb_inttable option \<times> arena" where
  "upb_inttable_init a = upb_inttable_sizedinit 0 3 a"

definition upb_inttable_insert ::
    "upb_inttable \<Rightarrow> u64 \<Rightarrow> u64 \<Rightarrow> arena \<Rightarrow> (bool \<times> upb_inttable \<times> arena) res" where
  "upb_inttable_insert t key val a =
     (if in_array t key then
        bindE (upb_inttable_arrhas t key) (\<lambda>h.
        bindE (assertE (\<not> h)) (\<lambda>_.
        bindE (array_set (t\<lparr>it_array_count := it_array_count t + 1\<rparr>) (unat key) val) (\<lambda>t.
        bindE (mask_set t key (\<lambda>b. b OR push_bit (unat key mod 8) 1)) (\<lambda>t.
          Inr (True, t, a)))))
      else
        bindE (if isfull (it_t t) then
                 (case table_init (upb_log2_table_size (it_t t) + 1) a of
                    (None, a) \<Rightarrow> Inr (None, a)
                  | (Some new_table, a) \<Rightarrow>
                      bindE (rehash_loop (Suc (upb_table_size (it_t t))) (it_t t) new_table (table_begin (it_t t))
                               (\<lambda>k v. Inr (key_num k)) inthash inteql) (\<lambda>new_table.
                      bindE (assertE (t_count (it_t t) = t_count new_table)) (\<lambda>_.
                        Inr (Some (t\<lparr>it_t := new_table\<rparr>), a))))
               else Inr (Some t, a)) (\<lambda>(r, a). case r of
          None \<Rightarrow> Inr (False, t, a)
        | Some t \<Rightarrow>
            bindE (table_insert (it_t t) key (num_key key) val (upb_inthash key) inthash inteql) (\<lambda>h.
              Inr (True, t\<lparr>it_t := h\<rparr>, a))))"

definition upb_inttable_lookup :: "upb_inttable \<Rightarrow> u64 \<Rightarrow> u64 option res" where
  "upb_inttable_lookup t key =
     bindE (inttable_val t key) (\<lambda>table_v. case table_v of
       None \<Rightarrow> Inr None
     | Some p \<Rightarrow> bindE (load_place t p) (\<lambda>v. Inr (Some v)))"

definition upb_inttable_replace :: "upb_inttable \<Rightarrow> u64 \<Rightarrow> u64 \<Rightarrow> (bool \<times> upb_inttable) res" where
  "upb_inttable_replace t key val =
     bindE (inttable_val t key) (\<lambda>table_v. case table_v of
       None \<Rightarrow> Inr (False, t)
     | Some p \<Rightarrow> bindE (store_place t p val) (\<lambda>t. Inr (True, t)))"

text \<open>The value it returns is the one stored through \<open>val\<close>; \<open>None\<close> is the \<open>false\<close> return.\<close>

definition upb_inttable_remove :: "upb_inttable \<Rightarrow> u64 \<Rightarrow> (u64 option \<times> upb_inttable) res" where
  "upb_inttable_remove t key =
     (if in_array t key then
        bindE (upb_inttable_arrhas t key) (\<lambda>h.
          if h then
            let t = t\<lparr>it_array_count := it_array_count t - 1\<rparr>
            in bindE (array_at t (unat key)) (\<lambda>val.
               bindE (array_set t (unat key) kInttableSentinel) (\<lambda>t.
               bindE (mask_set t key (\<lambda>b. b AND NOT (push_bit (unat key mod 8) 1))) (\<lambda>t.
                 Inr (Some val, t))))
          else Inr (None, t))
      else
        bindE (table_rm (it_t t) key (upb_inthash key) inteql) (\<lambda>(val, h).
          Inr (val, t\<lparr>it_t := h\<rparr>)))"

definition upb_inttable_clear :: "upb_inttable \<Rightarrow> upb_inttable" where
  "upb_inttable_clear t =
     t\<lparr>it_array_count := 0,
       it_array := replicate (unat (it_array_size t)) kInttableSentinel,
       it_presence_mask := replicate (unat (presence_mask_arr_size (it_array_size t))) 0,
       it_t := table_clear (it_t t)\<rparr>"

subsection \<open>Iteration\<close>

text \<open>The scan of the array part from index \<open>i\<close> on: the first place that holds a value.\<close>

function array_scan :: "upb_inttable \<Rightarrow> nat \<Rightarrow> nat option res" where
  "array_scan t i =
     (if i < unat (it_array_size t) then
        bindE (inttable_array_get t (of_nat i)) (\<lambda>ent.
          if ent \<noteq> None then Inr (Some i) else array_scan t (Suc i))
      else Inr None)"
  by pat_completeness auto
termination
  by (relation "measure (\<lambda>(t, i). unat (it_array_size t) - i)") auto

definition upb_inttable_next :: "upb_inttable \<Rightarrow> int \<Rightarrow> ((u64 \<times> u64) option \<times> int) res" where
  "upb_inttable_next t iter =
     (let size = int (unat (it_array_size t))
      in bindE (if iter + 1 \<le> size then array_scan t (nat (iter + 1)) else Inr None) (\<lambda>found. case found of
           Some i \<Rightarrow> bindE (array_at t i) (\<lambda>v. Inr (Some (of_nat i, v), int i))
         | None \<Rightarrow>
             let i = (if iter + 1 \<le> size then size - 1 else iter);
                 tab_idx = table_next (it_t t) (i - size)
             in if tab_idx < int (upb_table_size (it_t t)) then
                  bindE (ent_at (it_t t) (nat tab_idx)) (\<lambda>ent.
                    Inr (Some (key_num (te_key ent), te_val ent), tab_idx + size))
                else Inr (None, INTPTR_MAX - 1)))"

text \<open>
  An \<open>intptr_t\<close> iterator seen as a \<open>size_t\<close>, whether it is in the array part, and the index of the
  entry it stands for in the table part.
\<close>

definition iter_size :: "int \<Rightarrow> nat" where
  "iter_size iter = nat (iter mod 2 ^ 64)"

definition iter_in_array :: "upb_inttable \<Rightarrow> int \<Rightarrow> bool" where
  "iter_in_array t iter \<longleftrightarrow> iter_size iter < unat (it_array_size t)"

definition iter_entry :: "upb_inttable \<Rightarrow> int \<Rightarrow> nat res" where
  "iter_entry t iter =
     (let i = iter - int (unat (it_array_size t)) in if i < 0 then Inl OutOfBounds else Inr (nat i))"

definition upb_inttable_removeiter :: "upb_inttable \<Rightarrow> int \<Rightarrow> upb_inttable res" where
  "upb_inttable_removeiter t iter =
     (if iter_in_array t iter then
        array_set (t\<lparr>it_array_count := it_array_count t - 1\<rparr>) (nat iter) (- 1)
      else
        bindE (iter_entry t iter) (\<lambda>i.
        bindE (table_removeiter (it_t t) i) (\<lambda>h. Inr (t\<lparr>it_t := h\<rparr>))))"

definition upb_inttable_setentryvalue :: "upb_inttable \<Rightarrow> int \<Rightarrow> u64 \<Rightarrow> upb_inttable res" where
  "upb_inttable_setentryvalue t iter v =
     (if iter_in_array t iter then array_set t (nat iter) v
      else bindE (iter_entry t iter) (\<lambda>i. store_place t (In_Table i) v))"

definition upb_inttable_done :: "upb_inttable \<Rightarrow> int \<Rightarrow> bool res" where
  "upb_inttable_done t iter =
     (if iter_size iter \<ge> unat (it_array_size t) + upb_table_size (it_t t) then Inr True
      else if iter_in_array t iter then bindE (upb_inttable_arrhas t (of_int iter)) (\<lambda>h. Inr (\<not> h))
      else
        bindE (iter_entry t iter) (\<lambda>i.
        bindE (ent_at (it_t t) i) (\<lambda>e. Inr (upb_tabent_isempty e))))"

definition upb_inttable_iter_key :: "upb_inttable \<Rightarrow> int \<Rightarrow> u64 res" where
  "upb_inttable_iter_key t iter =
     bindE (upb_inttable_done t iter) (\<lambda>d.
     bindE (assertE (\<not> d)) (\<lambda>_.
       if iter_in_array t iter then Inr (of_int iter)
       else
         bindE (iter_entry t iter) (\<lambda>i.
         bindE (ent_at (it_t t) i) (\<lambda>e. Inr (key_num (te_key e))))))"

definition upb_inttable_iter_value :: "upb_inttable \<Rightarrow> int \<Rightarrow> u64 res" where
  "upb_inttable_iter_value t iter =
     bindE (upb_inttable_done t iter) (\<lambda>d.
     bindE (assertE (\<not> d)) (\<lambda>_.
       if iter_in_array t iter then array_at t (nat iter)
       else bindE (iter_entry t iter) (\<lambda>i. load_place t (In_Table i))))"

subsection \<open>Compaction\<close>

text \<open>
  The loop \<open>while (upb_inttable_next(t, &key, &val, &iter))\<close> around a body. It runs at most once for every
  place of the array and every entry of the table, so that one more is enough fuel.
\<close>

primrec inttable_foreach ::
    "nat \<Rightarrow> upb_inttable \<Rightarrow> int \<Rightarrow> (u64 \<Rightarrow> u64 \<Rightarrow> 's \<Rightarrow> 's res) \<Rightarrow> 's \<Rightarrow> 's res" where
  "inttable_foreach 0 t iter body s = Inl OutOfFuel"
| "inttable_foreach (Suc fuel) t iter body s =
     bindE (upb_inttable_next t iter) (\<lambda>(r, iter). case r of
       None \<Rightarrow> Inr s
     | Some (key, val) \<Rightarrow> bindE (body key val s) (\<lambda>s. inttable_foreach fuel t iter body s))"

definition inttable_fuel :: "upb_inttable \<Rightarrow> nat" where
  "inttable_fuel t = Suc (unat (it_array_size t) + upb_table_size (it_t t))"

text \<open>
  The power-of-two histogram of the keys: for each bucket the number of keys and the greatest one.
\<close>

definition histogram_step :: "u64 \<Rightarrow> u64 \<Rightarrow> u32 list \<times> u64 list \<Rightarrow> (u32 list \<times> u64 list) res" where
  "histogram_step key val cm =
     (let bucket = log2ceil key; (counts, maxs) = cm
      in Inr (counts[bucket := counts ! bucket + 1], maxs[bucket := max (maxs ! bucket) key]))"

text \<open>\<open>MIN_DENSITY\<close> is the double next to 0.1, which is 3602879701896397 over 2^55.\<close>

definition dense_enough :: "u32 \<Rightarrow> nat \<Rightarrow> bool" where
  "dense_enough arr_count size_lg2 \<longleftrightarrow> unat arr_count * 2 ^ 55 \<ge> 2 ^ size_lg2 * 3602879701896397"

fun density_loop :: "u32 list \<Rightarrow> nat \<Rightarrow> u32 \<Rightarrow> nat \<times> u32" where
  "density_loop counts 0 arr_count = (0, arr_count)"
| "density_loop counts (Suc i) arr_count =
     (if counts ! Suc i = 0 then density_loop counts i arr_count
      else if dense_enough arr_count (Suc i) then (Suc i, arr_count)
      else density_loop counts i (arr_count - counts ! Suc i))"

text \<open>The result of the insertion is not used.\<close>

definition reinsert_step :: "u64 \<Rightarrow> u64 \<Rightarrow> upb_inttable \<times> arena \<Rightarrow> (upb_inttable \<times> arena) res" where
  "reinsert_step key val s =
     (let (new_t, a) = s in bindE (upb_inttable_insert new_t key val a) (\<lambda>(_, new_t, a). Inr (new_t, a)))"

definition upb_inttable_compact :: "upb_inttable \<Rightarrow> arena \<Rightarrow> (bool \<times> upb_inttable \<times> arena) res" where
  "upb_inttable_compact t a =
     bindE (inttable_foreach (inttable_fuel t) t (- 1) histogram_step
              (replicate (UPB_MAXARRSIZE + 1) 0, replicate (UPB_MAXARRSIZE + 1) 0)) (\<lambda>(counts, maxs).
       let (size_lg2, arr_count) = density_loop counts UPB_MAXARRSIZE (of_nat (upb_inttable_count t))
       in bindE (assertE (unat arr_count \<le> upb_inttable_count t)) (\<lambda>_.
            let arr_size = maxs ! size_lg2 + 1;
                hash_count = of_nat (upb_inttable_count t) - arr_count :: u32
            in bindE (if hash_count \<noteq> 0 then entries_needed_for (ucast hash_count) else Inr 0) (\<lambda>hash_size.
               let hashsize_lg2 = log2ceil hash_size
               in case upb_inttable_sizedinit (ucast arr_size) hashsize_lg2 a of
                    (None, a) \<Rightarrow> Inr (False, t, a)
                  | (Some new_t, a) \<Rightarrow>
                      bindE (inttable_foreach (inttable_fuel t) t (- 1) reinsert_step (new_t, a)) (\<lambda>(new_t, a).
                      bindE (assertE (ucast (it_array_size new_t) = arr_size)) (\<lambda>_.
                        Inr (True, new_t, a))))))"

end
