(* ===== verification/Wyhash.thy ===== *)
theory Wyhash
  imports Wire_Encoder
begin

text \<open>
  The hash function of \<open>upb/hash/common.c\<close>, adapted there from Abseil's wyhash. Input bytes are a list,
  a pointer into them is an offset, and a load outside the list is a fault. Loads are those of a
  little-endian machine, and the product is the 128-bit one that compilers with \<open>__int128\<close> use. The
  seed is the address of a static variable, so every definition takes it as an argument.
\<close>

subsection \<open>The function\<close>

definition UnalignedLoad64 :: "byte list \<Rightarrow> nat \<Rightarrow> u64 res" where
  "UnalignedLoad64 bs p = (if p + 8 \<le> length bs then Inr (le_word (take 8 (drop p bs))) else Inl OutOfBounds)"

definition UnalignedLoad32 :: "byte list \<Rightarrow> nat \<Rightarrow> u32 res" where
  "UnalignedLoad32 bs p = (if p + 4 \<le> length bs then Inr (le_word (take 4 (drop p bs))) else Inl OutOfBounds)"

definition load_byte :: "byte list \<Rightarrow> nat \<Rightarrow> u64 res" where
  "load_byte bs p = (if p < length bs then Inr (ucast (bs ! p)) else Inl OutOfBounds)"

text \<open>The low and the high half of the product.\<close>

definition upb_umul128 :: "u64 \<Rightarrow> u64 \<Rightarrow> u64 \<times> u64" where
  "upb_umul128 v0 v1 =
     (let p = (ucast v0 :: 128 word) * ucast v1 in (ucast p, ucast (drop_bit 64 p)))"

definition WyhashMix :: "u64 \<Rightarrow> u64 \<Rightarrow> u64" where
  "WyhashMix v0 v1 = (case upb_umul128 v0 v1 of (low, high) \<Rightarrow> low XOR high)"

text \<open>The loop over chunks of 64 bytes: the pointer and length it leaves, and the joined state.\<close>

function wyhash64_loop ::
    "byte list \<Rightarrow> u64 list \<Rightarrow> nat \<Rightarrow> nat \<Rightarrow> u64 \<Rightarrow> u64 \<Rightarrow> (nat \<times> nat \<times> u64) res" where
  "wyhash64_loop bs salt ptr len current_state duplicated_state =
     bindE (UnalignedLoad64 bs ptr) (\<lambda>a.
     bindE (UnalignedLoad64 bs (ptr + 8)) (\<lambda>b.
     bindE (UnalignedLoad64 bs (ptr + 16)) (\<lambda>c.
     bindE (UnalignedLoad64 bs (ptr + 24)) (\<lambda>d.
     bindE (UnalignedLoad64 bs (ptr + 32)) (\<lambda>e.
     bindE (UnalignedLoad64 bs (ptr + 40)) (\<lambda>f.
     bindE (UnalignedLoad64 bs (ptr + 48)) (\<lambda>g.
     bindE (UnalignedLoad64 bs (ptr + 56)) (\<lambda>h.
       let cs0 = WyhashMix (a XOR salt ! 1) (b XOR current_state);
           cs1 = WyhashMix (c XOR salt ! 2) (d XOR current_state);
           current_state = cs0 XOR cs1;
           ds0 = WyhashMix (e XOR salt ! 3) (f XOR duplicated_state);
           ds1 = WyhashMix (g XOR salt ! 4) (h XOR duplicated_state);
           duplicated_state = ds0 XOR ds1
       in if len - 64 > 64
          then wyhash64_loop bs salt (ptr + 64) (len - 64) current_state duplicated_state
          else Inr (ptr + 64, len - 64, current_state XOR duplicated_state)))))))))"
  by pat_completeness auto
termination
  by (relation "measure (\<lambda>(bs, salt, ptr, len, c, d). len)") auto

fun wyhash16_loop :: "byte list \<Rightarrow> u64 list \<Rightarrow> nat \<Rightarrow> nat \<Rightarrow> u64 \<Rightarrow> (nat \<times> nat \<times> u64) res" where
  "wyhash16_loop bs salt ptr len current_state =
     (if len > 16 then
        bindE (UnalignedLoad64 bs ptr) (\<lambda>a.
        bindE (UnalignedLoad64 bs (ptr + 8)) (\<lambda>b.
          wyhash16_loop bs salt (ptr + 16) (len - 16) (WyhashMix (a XOR salt ! 1) (b XOR current_state))))
      else Inr (ptr, len, current_state))"

definition wyhash_tail :: "byte list \<Rightarrow> nat \<Rightarrow> nat \<Rightarrow> (u64 \<times> u64) res" where
  "wyhash_tail bs ptr len =
     (if len > 8 then
        bindE (UnalignedLoad64 bs ptr) (\<lambda>a.
        bindE (UnalignedLoad64 bs (ptr + len - 8)) (\<lambda>b. Inr (a, b)))
      else if len > 3 then
        bindE (UnalignedLoad32 bs ptr) (\<lambda>a.
        bindE (UnalignedLoad32 bs (ptr + len - 4)) (\<lambda>b. Inr (ucast a, ucast b)))
      else if len > 0 then
        bindE (load_byte bs ptr) (\<lambda>x.
        bindE (load_byte bs (ptr + len div 2)) (\<lambda>y.
        bindE (load_byte bs (ptr + len - 1)) (\<lambda>z.
          Inr (push_bit 16 x OR push_bit 8 y OR z, 0))))
      else Inr (0, 0))"

definition Wyhash :: "byte list \<Rightarrow> nat \<Rightarrow> u64 \<Rightarrow> u64 list \<Rightarrow> u64 res" where
  "Wyhash bs len seed salt =
     (let starting_length = of_nat len :: u64;
          current_state = seed XOR salt ! 0
      in bindE (if len > 64 then wyhash64_loop bs salt 0 len current_state current_state
                else Inr (0, len, current_state)) (\<lambda>(ptr, len, current_state).
         bindE (wyhash16_loop bs salt ptr len current_state) (\<lambda>(ptr, len, current_state).
         bindE (wyhash_tail bs ptr len) (\<lambda>(a, b).
           let w = WyhashMix (a XOR salt ! 1) (b XOR current_state);
               z = salt ! 1 XOR starting_length
           in Inr (WyhashMix w z)))))"

definition kWyhashSalt :: "u64 list" where
  "kWyhashSalt =
     [0x243F6A8885A308D3, 0x13198A2E03707344, 0xA4093822299F31D0, 0x082EFA98EC4E6C89, 0x452821E638D01377]"

definition upb_Hash :: "byte list \<Rightarrow> nat \<Rightarrow> u64 \<Rightarrow> u32 res" where
  "upb_Hash p n seed = bindE (Wyhash p n seed kWyhashSalt) (\<lambda>h. Inr (ucast h))"

subsection \<open>It reads its input only\<close>

lemma loads_ok [simp]:
  "p + 8 \<le> length bs \<Longrightarrow> UnalignedLoad64 bs p = Inr (le_word (take 8 (drop p bs)))"
  "p + 4 \<le> length bs \<Longrightarrow> UnalignedLoad32 bs p = Inr (le_word (take 4 (drop p bs)))"
  "p < length bs \<Longrightarrow> load_byte bs p = Inr (ucast (bs ! p))"
  by (simp_all add: UnalignedLoad64_def UnalignedLoad32_def load_byte_def)

text \<open>The unread input starts at the pointer and ends with the list.\<close>

abbreviation unread :: "byte list \<Rightarrow> (nat \<times> nat \<times> u64) res \<Rightarrow> nat \<Rightarrow> bool" where
  "unread bs r n \<equiv> (case r of Inr (ptr, len, _) \<Rightarrow> ptr + len = length bs \<and> len \<le> n | Inl _ \<Rightarrow> False)"

lemma wyhash64_loop_ok:
  "64 < len \<Longrightarrow> ptr + len = length bs \<Longrightarrow> unread bs (wyhash64_loop bs salt ptr len c d) 64"
proof (induction bs salt ptr len c d rule: wyhash64_loop.induct)
  case (1 bs salt ptr len c d)
  have r: "ptr + 64 \<le> length bs" using "1.prems" by simp
  show ?case
  proof (cases "len - 64 > 64")
    case True
    then show ?thesis
      using r "1.prems" by (subst wyhash64_loop.simps) (simp del: wyhash64_loop.simps add: "1.IH" Let_def)
  next
    case False
    then show ?thesis using r "1.prems" by (simp add: Let_def)
  qed
qed

lemma wyhash16_loop_ok: "ptr + len = length bs \<Longrightarrow> unread bs (wyhash16_loop bs salt ptr len c) 16"
proof (induction bs salt ptr len c rule: wyhash16_loop.induct)
  case (1 bs salt ptr len c)
  then show ?case by (cases "len > 16") (simp_all del: wyhash16_loop.simps add: wyhash16_loop.simps[of bs salt ptr len c])
qed

lemma wyhash_tail_ok: "ptr + len = length bs \<Longrightarrow> \<exists>ab. wyhash_tail bs ptr len = Inr ab"
  by (simp add: wyhash_tail_def)

lemma upb_Hash_total: "\<exists>h. upb_Hash bs (length bs) seed = Inr h"
proof -
  let ?c = "seed XOR kWyhashSalt ! 0"
  let ?first = "if length bs > 64 then wyhash64_loop bs kWyhashSalt 0 (length bs) ?c ?c else Inr (0, length bs, ?c)"
  have "unread bs ?first (max 64 (length bs))"
    using wyhash64_loop_ok[of "length bs" 0 bs kWyhashSalt ?c ?c] by (auto split: sum.splits)
  then obtain p1 l1 c1 where f: "?first = Inr (p1, l1, c1)" "p1 + l1 = length bs" by (auto split: sum.splits)
  obtain p2 l2 c2 where g: "wyhash16_loop bs kWyhashSalt p1 l1 c1 = Inr (p2, l2, c2)" "p2 + l2 = length bs"
    using wyhash16_loop_ok[OF f(2), of kWyhashSalt c1] by (auto split: sum.splits)
  obtain a b where "wyhash_tail bs p2 l2 = Inr (a, b)" using wyhash_tail_ok[OF g(2)] by auto
  then show ?thesis unfolding upb_Hash_def Wyhash_def Let_def f(1) using g(1) by simp
qed

text \<open>The hash as a function of the string alone.\<close>

definition hash_of :: "u64 \<Rightarrow> byte list \<Rightarrow> u32" where
  "hash_of seed bs = (case upb_Hash bs (length bs) seed of Inr h \<Rightarrow> h | Inl _ \<Rightarrow> 0)"

lemma upb_Hash_hash_of: "upb_Hash bs (length bs) seed = Inr (hash_of seed bs)"
  using upb_Hash_total[of bs seed] by (auto simp: hash_of_def)

text \<open>
  C29: Hashing a string of any length terminates, and every load it does, the overlapping loads of the last
  sixteen bytes included, is inside the string.
\<close>

theorem upb_Hash_in_bounds: "\<exists>h. upb_Hash bs (length bs) seed = Inr h"
  by (rule upb_Hash_total)

end
