(* ===== verification/Ext_Table.thy ===== *)
theory Ext_Table
  imports Int_Table Wyhash
begin

text \<open>
  \<open>upb_exttable\<close>: extensions by the pair of the extended type and the extension number. The table key is
  the pointer to the type; the number is the first field of the object that the value points to, so that
  every definition takes a function \<open>mem\<close> that reads that field. Like the code, the model relies on the
  number of a stored object staying the same.
\<close>

subsection \<open>Operations\<close>

type_synonym upb_exttable = "u64 upb_table"
type_synonym ext_lookupkey = "u64 \<times> u32"

definition upb_exttable_hash :: "u64 \<Rightarrow> u64 \<Rightarrow> u32 \<Rightarrow> u32" where
  "upb_exttable_hash seed ptr ext_num = ucast (WyhashMix (ptr XOR kWyhashSalt ! 1) (ucast ext_num XOR seed))"

definition exthash :: "u64 \<Rightarrow> (u64 \<Rightarrow> u32) \<Rightarrow> u64 hashfunc_t" where
  "exthash seed mem key val = Inr (upb_exttable_hash seed (key_num key) (mem val))"

definition exteql :: "(u64 \<Rightarrow> u32) \<Rightarrow> (u64, ext_lookupkey) eqlfunc_t" where
  "exteql mem k1 v1 k2 = Inr (if key_num k1 = fst k2 then mem v1 = snd k2 else False)"

definition upb_exttable_init :: "u64 \<Rightarrow> arena \<Rightarrow> (upb_exttable option \<times> arena) res" where
  "upb_exttable_init expected_size a =
     bindE (entries_needed_for expected_size) (\<lambda>n.
       Inr (table_init (upb_Log2Ceiling (unat n) mod 256) a))"

definition upb_exttable_clear :: "upb_exttable \<Rightarrow> upb_exttable" where
  "upb_exttable_clear t = table_clear t"

definition upb_exttable_resize ::
    "u64 \<Rightarrow> (u64 \<Rightarrow> u32) \<Rightarrow> upb_exttable \<Rightarrow> nat \<Rightarrow> arena \<Rightarrow> (bool \<times> upb_exttable \<times> arena) res" where
  "upb_exttable_resize seed mem t size_lg2 a =
     (case table_init (size_lg2 mod 256) a of
        (None, a) \<Rightarrow> Inr (False, t, a)
      | (Some new_table, a) \<Rightarrow>
          bindE (rehash_loop (Suc (upb_table_size t)) t new_table (table_begin t)
                   (\<lambda>k v. Inr (key_num k, mem v)) (exthash seed mem) (exteql mem)) (\<lambda>new_table.
            Inr (True, new_table, a)))"

definition upb_exttable_insert ::
    "u64 \<Rightarrow> (u64 \<Rightarrow> u32) \<Rightarrow> upb_exttable \<Rightarrow> u64 \<Rightarrow> u64 \<Rightarrow> arena \<Rightarrow> (bool \<times> upb_exttable \<times> arena) res" where
  "upb_exttable_insert seed mem t k v a =
     bindE (assertE (k \<noteq> 0 \<and> v \<noteq> 0 \<and> mem v \<noteq> 0)) (\<lambda>_.
     bindE (if isfull t then upb_exttable_resize seed mem t (upb_log2_table_size t + 1) a
            else Inr (True, t, a)) (\<lambda>(ok, t, a).
       if \<not> ok then Inr (False, t, a)
       else
         bindE (table_insert t (k, mem v) (num_key k) v (upb_exttable_hash seed k (mem v)) (exthash seed mem) (exteql mem))
           (\<lambda>t. Inr (True, t, a))))"

definition upb_exttable_lookup ::
    "u64 \<Rightarrow> (u64 \<Rightarrow> u32) \<Rightarrow> upb_exttable \<Rightarrow> u64 \<Rightarrow> u32 \<Rightarrow> u64 option res" where
  "upb_exttable_lookup seed mem t k ext_number =
     table_lookup t (k, ext_number) (upb_exttable_hash seed k ext_number) (exteql mem)"

definition upb_exttable_remove ::
    "u64 \<Rightarrow> (u64 \<Rightarrow> u32) \<Rightarrow> upb_exttable \<Rightarrow> u64 \<Rightarrow> u32 \<Rightarrow> (u64 option \<times> upb_exttable) res" where
  "upb_exttable_remove seed mem t k ext_number =
     table_rm t (k, ext_number) (upb_exttable_hash seed k ext_number) (exteql mem)"

definition upb_exttable_size :: "upb_exttable \<Rightarrow> nat" where
  "upb_exttable_size t = unat (t_count t)"

subsection \<open>The table is a map from types and numbers\<close>

interpretation ek: hash_keys "\<lambda>k v. (k, mem v)" "\<lambda>(p, n). upb_exttable_hash seed p n" "exthash seed mem" "exteql mem"
  for seed and mem :: "u64 \<Rightarrow> u32"
  by unfold_locales (auto simp: exthash_def exteql_def key_num_def)

definition ext_rel :: "u64 \<Rightarrow> (u64 \<Rightarrow> u32) \<Rightarrow> upb_exttable \<Rightarrow> (ext_lookupkey \<Rightarrow> u64 option) \<Rightarrow> bool" where
  "ext_rel seed mem t m \<longleftrightarrow> ek.map_rel mem seed t m"

definition ext_valid :: "(u64 \<Rightarrow> u32) \<Rightarrow> ext_lookupkey \<Rightarrow> u64 \<Rightarrow> bool" where
  "ext_valid mem l v \<longleftrightarrow> fst l \<noteq> 0 \<and> v \<noteq> 0 \<and> snd l \<noteq> 0 \<and> mem v = snd l"

lemma ext_grow:
  assumes "ext_rel seed mem t m" "isfull t"
  shows "\<exists>ok t' a'. upb_exttable_resize seed mem t (upb_log2_table_size t + 1) a = Inr (ok, t', a') \<and>
    ext_rel seed mem t' m \<and> (ok \<longrightarrow> \<not> isfull t')"
proof -
  have rel: "ek.map_rel mem seed t m" using assms(1) by (simp add: ext_rel_def)
  obtain k where "k < 32" "t_mask t = 2 ^ k - 1" using ek.map_relD(2)[OF rel] by (auto simp: tab_shape_def)
  then have lg: "(upb_log2_table_size t + 1) mod 256 = upb_log2_table_size t + 1"
    using log2_table_size[of t k] by simp
  obtain new a' where i: "table_init (upb_log2_table_size t + 1) a = (new :: upb_exttable option, a')"
    by (cases "table_init (upb_log2_table_size t + 1) a :: upb_exttable option \<times> arena") simp
  show ?thesis
  proof (cases new)
    case None
    then show ?thesis unfolding upb_exttable_resize_def lg using i assms(1) by auto
  next
    case (Some n)
    obtain n' where n': "rehash_loop (Suc (upb_table_size t)) t n (table_begin t)
        (\<lambda>k v. Inr (key_num k, mem v)) (exthash seed mem) (exteql mem) = Inr n'" "ek.map_rel mem seed n' m" "\<not> isfull n'"
      using ek.map_rel_double[OF rel assms(2) _ i[unfolded Some], of "\<lambda>k v. Inr (key_num k, mem v)"]
      by (auto simp: key_num_def)
    then show ?thesis unfolding upb_exttable_resize_def lg i Some
      by (intro exI[of _ True] exI[of _ n'] exI[of _ a']) (simp add: ext_rel_def)
  qed
qed

lemma ext_insert_law:
  assumes "ext_rel seed mem t m" "m l = None" "ext_valid mem l v"
  shows "\<exists>ok t' a'. upb_exttable_insert seed mem t (fst l) v a = Inr (ok, t', a') \<and>
    ext_rel seed mem t' (if ok then m(l \<mapsto> v) else m)"
proof -
  obtain k n where l: "l = (k, n)" "k \<noteq> 0" "mem v = n" "v \<noteq> 0" "n \<noteq> 0" using assms(3) by (cases l) (auto simp: ext_valid_def)
  have "\<exists>ok t1 a1. (if isfull t then upb_exttable_resize seed mem t (upb_log2_table_size t + 1) a else Inr (True, t, a)) =
      Inr (ok, t1, a1) \<and> ext_rel seed mem t1 m \<and> (ok \<longrightarrow> \<not> isfull t1)"
    using ext_grow[OF assms(1), of a] assms(1) by auto
  then obtain ok t1 a1 where 1: "(if isfull t then upb_exttable_resize seed mem t (upb_log2_table_size t + 1) a
      else Inr (True, t, a)) = Inr (ok, t1, a1)" "ext_rel seed mem t1 m" "ok \<Longrightarrow> \<not> isfull t1" by blast
  show ?thesis
  proof (cases ok)
    case True
    obtain t' where "table_insert t1 l (Some k) v (upb_exttable_hash seed k n) (exthash seed mem) (exteql mem) = Inr t'"
        "ek.map_rel mem seed t' (m(l \<mapsto> v))"
      using ek.map_rel_insert[of mem seed t1 m l k v] 1(2,3) True assms(2) l by (auto simp: ext_rel_def)
    then show ?thesis
      unfolding upb_exttable_insert_def 1(1) using True l by (auto simp: num_key_def ext_rel_def)
  next
    case False
    then show ?thesis unfolding upb_exttable_insert_def 1(1) using 1(2) l by auto
  qed
qed

interpretation et: map_table "ext_rel seed mem" "ext_valid mem" "\<lambda>t l v a. upb_exttable_insert seed mem t (fst l) v a"
  "\<lambda>t l. upb_exttable_lookup seed mem t (fst l) (snd l)" "\<lambda>t l. upb_exttable_remove seed mem t (fst l) (snd l)"
  upb_exttable_clear upb_exttable_size for seed and mem :: "u64 \<Rightarrow> u32"
proof
  fix t m l v a assume r: "ext_rel seed mem t m"
  show "m l = None \<Longrightarrow> ext_valid mem l v \<Longrightarrow> \<exists>ok t' a'. upb_exttable_insert seed mem t (fst l) v a = Inr (ok, t', a') \<and>
      ext_rel seed mem t' (if ok then m(l \<mapsto> v) else m)" by (rule ext_insert_law[OF r])
  show "upb_exttable_lookup seed mem t (fst l) (snd l) = Inr (m l)"
    using ek.map_rel_lookup[of mem seed t m l] r by (simp add: upb_exttable_lookup_def ext_rel_def split_beta)
  show "\<exists>t'. upb_exttable_remove seed mem t (fst l) (snd l) = Inr (m l, t') \<and> ext_rel seed mem t' (m(l := None))"
    using ek.map_rel_remove[of mem seed t m l] r by (simp add: upb_exttable_remove_def ext_rel_def split_beta)
  show "ext_rel seed mem (upb_exttable_clear t) Map.empty"
    using ek.map_rel_clear r by (simp add: upb_exttable_clear_def ext_rel_def)
  show "upb_exttable_size t = card (dom m)"
    using ek.tab_rel_card[OF ek.map_relD(1)] r by (simp add: upb_exttable_size_def ext_rel_def)
qed

lemma ext_init_rel: "upb_exttable_init n a = Inr (Some t, a') \<Longrightarrow> ext_rel seed mem t Map.empty"
  using ek.map_rel_init[of "upb_Log2Ceiling (unat k) mod 256" for k]
  by (auto simp: upb_exttable_init_def bindE_eq_Inr ext_rel_def)

text \<open>
  C10: An extension table is a map from pairs of a type and an extension number to extensions: whatever calls are
  made on a table from \<open>upb_exttable_init\<close>, as long as every extension is inserted under its own number
  and no number or pointer is zero, no call faults and every result is the one of a map with the same
  history.
\<close>

theorem exttable_is_a_map:
  assumes "upb_exttable_init n a = Inr (Some t, a')" "calls_valid (ext_valid mem) cs"
  shows "\<exists>rs t' a'' m.
    tab_run (tab_step (\<lambda>t l v a. upb_exttable_insert seed mem t (fst l) v a)
      (\<lambda>t l. upb_exttable_lookup seed mem t (fst l) (snd l)) (\<lambda>t l. upb_exttable_remove seed mem t (fst l) (snd l))
      upb_exttable_clear upb_exttable_size) t a' cs = Inr (rs, t', a'') \<and>
    explains Map.empty cs rs = Some m"
  using et.run_refines[OF ext_init_rel[OF assms(1)] assms(2), of seed a'] by blast

theorem exttable_is_a_map_witness:
  "\<exists>t a' rs t' a'' m. upb_exttable_init 0 (\<lambda>_. True) = Inr (Some t, a') \<and>
    calls_valid (ext_valid (\<lambda>v. if v = 8 then 100 else 200)) [Put (64, 100) 8, Put (64, 200) 16, Look (64, 100), Remove (64, 200)] \<and>
    tab_run (tab_step (\<lambda>t l v a. upb_exttable_insert 7 (\<lambda>v. if v = 8 then 100 else 200) t (fst l) v a)
      (\<lambda>t l. upb_exttable_lookup 7 (\<lambda>v. if v = 8 then 100 else 200) t (fst l) (snd l))
      (\<lambda>t l. upb_exttable_remove 7 (\<lambda>v. if v = 8 then 100 else 200) t (fst l) (snd l))
      upb_exttable_clear upb_exttable_size) t a' [Put (64, 100) 8, Put (64, 200) 16, Look (64, 100), Remove (64, 200)] =
      Inr (rs, t', a'') \<and>
    explains Map.empty [Put (64 :: u64, 100 :: u32) 8, Put (64, 200) 16, Look (64, 100), Remove (64, 200)] rs = Some m"
proof -
  obtain t a' where t: "upb_exttable_init 0 (\<lambda>_. True) = Inr (Some t, a')"
    by (simp add: upb_exttable_init_def entries_needed_for_def upb_Log2Ceiling_def table_init_def)
  have v: "calls_valid (ext_valid (\<lambda>v. if v = 8 then 100 else 200)) [Put (64, 100) 8, Put (64, 200) 16, Look (64, 100), Remove (64, 200)]"
    by (simp add: calls_valid_def ext_valid_def)
  show ?thesis using t v exttable_is_a_map[OF t v, of 7] by blast
qed

end
