(* ===== verification/Int_Correct.thy ===== *)
theory Int_Correct
  imports Int_Table
begin

text \<open>
  The integer table is a map: the array part and the hash part together hold its values, and every
  operation keeps them so. The array part may grow up to 2^31 places, which keeps the 32-bit counters
  and the size of the presence mask from wrapping.
\<close>

interpretation ik: hash_keys "\<lambda>k v. k" upb_inthash inthash inteql
  by unfold_locales (simp_all add: inthash_def inteql_def key_num_def)

subsection \<open>The invariant\<close>

definition has_bit :: "byte list \<Rightarrow> nat \<Rightarrow> bool" where
  "has_bit ps i \<longleftrightarrow> bit (ps ! (i div 8)) (i mod 8)"

definition int_shape :: "upb_inttable \<Rightarrow> bool" where
  "int_shape t \<longleftrightarrow> 1 \<le> unat (it_array_size t) \<and> unat (it_array_size t) \<le> 2 ^ 31 \<and>
     length (it_array t) = unat (it_array_size t) \<and>
     length (it_presence_mask t) = (unat (it_array_size t) + 7) div 8"

definition array_map :: "upb_inttable \<Rightarrow> u64 \<Rightarrow> u64 option" where
  "array_map t k = (if has_bit (it_presence_mask t) (unat k) then Some (it_array t ! unat k) else None)"

definition int_rel :: "upb_inttable \<Rightarrow> (u64 \<Rightarrow> u64 option) \<Rightarrow> bool" where
  "int_rel t m \<longleftrightarrow> int_shape t \<and>
     ik.map_rel (it_t t) (\<lambda>k. if in_array t k then None else m k) \<and>
     (\<forall>k. in_array t k \<longrightarrow> m k = array_map t k) \<and>
     unat (it_array_count t) = card {k. in_array t k \<and> m k \<noteq> None}"

lemma and_exp_bit: "(b :: byte) AND 2 ^ j \<noteq> 0 \<longleftrightarrow> bit b j"
  by (simp add: and_exp_eq_0_iff_not_bit)

lemma in_array_nat: "in_array t k \<longleftrightarrow> unat k < unat (it_array_size t)"
  by (simp add: in_array_def word_less_nat_alt)

lemma mask_index: "i < n \<Longrightarrow> i div 8 < (n + 7) div (8 :: nat)"
  by (simp add: div_less_iff_less_mult)

lemma mask_at_ok: "int_shape t \<Longrightarrow> in_array t k \<Longrightarrow> mask_at t k = Inr (it_presence_mask t ! (unat k div 8))"
  using mask_index[of "unat k" "unat (it_array_size t)"] by (simp add: mask_at_def int_shape_def in_array_nat)

lemma arrhas_ok: "int_shape t \<Longrightarrow> in_array t k \<Longrightarrow> upb_inttable_arrhas t k = Inr (has_bit (it_presence_mask t) (unat k))"
  by (simp add: upb_inttable_arrhas_def mask_at_ok and_exp_bit has_bit_def)

lemma array_ok [simp]:
  "i < length (it_array t) \<Longrightarrow> array_at t i = Inr (it_array t ! i)"
  "i < length (it_array t) \<Longrightarrow> array_set t i v = Inr (t\<lparr>it_array := (it_array t)[i := v]\<rparr>)"
  by (simp_all add: array_at_def array_set_def)

text \<open>Setting and clearing one bit of the mask.\<close>

lemma same_bit: "i div 8 = j div 8 \<Longrightarrow> i mod 8 = j mod 8 \<Longrightarrow> i = (j :: nat)"
  by (metis div_mult_mod_eq)

lemma has_bit_set:
  assumes "i div 8 < length ps"
  shows "has_bit (ps[i div 8 := ps ! (i div 8) OR push_bit (i mod 8) 1]) j \<longleftrightarrow> j = i \<or> has_bit ps j"
  using assms same_bit[of j i] by (auto simp: has_bit_def nth_list_update bit_simps)

lemma has_bit_clear:
  assumes "i div 8 < length ps"
  shows "has_bit (ps[i div 8 := ps ! (i div 8) AND NOT (push_bit (i mod 8) 1)]) j \<longleftrightarrow> j \<noteq> i \<and> has_bit ps j"
  using assms same_bit[of j i] by (auto simp: has_bit_def nth_list_update bit_simps)

lemma int_relD:
  assumes "int_rel t m"
  shows "int_shape t" "ik.map_rel (it_t t) (\<lambda>k. if in_array t k then None else m k)"
    "in_array t k \<Longrightarrow> m k = array_map t k" "unat (it_array_count t) = card {k. in_array t k \<and> m k \<noteq> None}"
  using assms by (auto simp: int_rel_def)

lemma finite_in_array [simp]: "finite {k. in_array t k \<and> P k}"
  by simp

subsection \<open>Lookup\<close>

lemma int_lookup_law:
  assumes "int_rel t m"
  shows "upb_inttable_lookup t k = Inr (m k)"
proof (cases "in_array t k")
  case True
  then show ?thesis
    using int_relD(1,3)[OF assms]
    by (auto simp: upb_inttable_lookup_def inttable_val_def inttable_array_get_def arrhas_ok array_map_def load_place_def
        int_shape_def in_array_nat)
next
  case False
  have "table_lookup (it_t t) k (upb_inthash k) inteql = Inr (m k)"
    using ik.map_rel_lookup[OF int_relD(2)[OF assms], of k] False by simp
  then show ?thesis
    using False by (auto simp: upb_inttable_lookup_def inttable_val_def table_lookup_def load_place_def bindE_eq_Inr
        bindE_assoc split: option.splits)
qed

subsection \<open>The array part\<close>

lemma array_card: "card {k. in_array t k \<and> P k} \<le> unat (it_array_size t)"
proof -
  have "card (unat ` {k. in_array t k \<and> P k}) \<le> card {..<unat (it_array_size t)}"
    by (rule card_mono) (auto simp: in_array_nat)
  then show ?thesis by (simp add: card_image inj_on_def word_unat_eq_iff)
qed

text \<open>Storing or deleting one value of the array part.\<close>

lemma int_rel_array:
  assumes rel: "int_rel t m" and k: "in_array t k" and len: "length ps = length (it_presence_mask t)"
    and bits: "\<And>j. has_bit ps j \<longleftrightarrow> (if j = unat k then r \<noteq> None else has_bit (it_presence_mask t) j)"
    and r: "r = Some w \<or> r = None" and cnt: "unat c = card {k'. in_array t k' \<and> (m(k := r)) k' \<noteq> None}"
  shows "int_rel (t\<lparr>it_array_count := c, it_array := (it_array t)[unat k := w], it_presence_mask := ps\<rparr>) (m(k := r))"
    (is "int_rel ?t _")
proof -
  note R = int_relD[OF rel]
  have in_t: "in_array ?t = in_array t" by (simp add: in_array_def fun_eq_iff)
  have hash: "(\<lambda>k'. if in_array t k' then None else (m(k := r)) k') = (\<lambda>k'. if in_array t k' then None else m k')"
    using k by auto
  have "(m(k := r)) k' = array_map ?t k'" if "in_array t k'" for k'
  proof (cases "k' = k")
    case True
    then show ?thesis using k r bits R(1) by (auto simp: array_map_def int_shape_def in_array_nat)
  next
    case False
    then have "unat k' \<noteq> unat k" by (simp add: word_unat_eq_iff)
    then show ?thesis using False bits R(3)[OF that] by (auto simp: array_map_def)
  qed
  moreover have "int_shape ?t" using R(1) len by (simp add: int_shape_def)
  ultimately show ?thesis using R(2) cnt hash unfolding int_rel_def in_t by simp
qed

text \<open>Two spellings of the updates that the operations make.\<close>

lemma mask_set_ok:
  "int_shape t \<Longrightarrow> in_array t k \<Longrightarrow> mask_set t k f =
     Inr (t\<lparr>it_presence_mask := (it_presence_mask t)[unat k div 8 := f (it_presence_mask t ! (unat k div 8))]\<rparr>)"
  by (simp add: mask_set_def mask_at_ok)

lemma array_count_Suc:
  assumes "int_rel t m" "in_array t k" "m k = None"
  shows "unat (it_array_count t + 1) = card {k'. in_array t k' \<and> (m(k \<mapsto> v)) k' \<noteq> None}"
proof -
  have "{k'. in_array t k' \<and> (m(k \<mapsto> v)) k' \<noteq> None} = insert k {k'. in_array t k' \<and> m k' \<noteq> None}"
    using assms(2) by auto
  then have c: "card {k'. in_array t k' \<and> (m(k \<mapsto> v)) k' \<noteq> None} = Suc (unat (it_array_count t))"
    using assms(3) int_relD(4)[OF assms(1)] by simp
  then have "unat (it_array_count t) < 2 ^ 31"
    using array_card[of t "\<lambda>k'. (m(k \<mapsto> v)) k' \<noteq> None"] int_relD(1)[OF assms(1)] by (simp add: int_shape_def)
  then show ?thesis using c by (simp add: count_Suc)
qed

lemma array_count_less:
  assumes "int_rel t m" "in_array t k" "m k \<noteq> None"
  shows "unat (it_array_count t - 1) = card {k'. in_array t k' \<and> (m(k := None)) k' \<noteq> None}"
proof -
  have "{k'. in_array t k' \<and> (m(k := None)) k' \<noteq> None} = {k'. in_array t k' \<and> m k' \<noteq> None} - {k}" by auto
  moreover have "k \<in> {k'. in_array t k' \<and> m k' \<noteq> None}" using assms(2,3) by simp
  ultimately have c: "Suc (card {k'. in_array t k' \<and> (m(k := None)) k' \<noteq> None}) = unat (it_array_count t)"
    using int_relD(4)[OF assms(1)] by (simp add: card_Suc_Diff1 del: card_Diff_insert)
  then have "it_array_count t \<noteq> 0" by auto
  then show ?thesis using c by (simp add: unat_minus_one)
qed

lemma int_insert_array:
  assumes rel: "int_rel t m" and k: "in_array t k" and none: "m k = None"
  shows "\<exists>t'. upb_inttable_insert t k v a = Inr (True, t', a) \<and> int_rel t' (m(k \<mapsto> v)) \<and>
    it_array_size t' = it_array_size t"
proof -
  note R = int_relD[OF rel]
  let ?ps = "(it_presence_mask t)[unat k div 8 := it_presence_mask t ! (unat k div 8) OR push_bit (unat k mod 8) 1]"
  let ?t = "t\<lparr>it_array_count := it_array_count t + 1, it_array := (it_array t)[unat k := v], it_presence_mask := ?ps\<rparr>"
  have d: "unat k div 8 < length (it_presence_mask t)"
    using mask_index[of "unat k" "unat (it_array_size t)"] R(1) k by (simp add: int_shape_def in_array_nat)
  have free: "\<not> has_bit (it_presence_mask t) (unat k)" using none R(3)[OF k] by (simp add: array_map_def split: if_splits)
  have "int_rel ?t (m(k \<mapsto> v))"
    using has_bit_set[OF d] array_count_Suc[OF rel k none] by (intro int_rel_array[OF rel k]) auto
  moreover have "upb_inttable_insert t k v a = Inr (True, ?t, a)"
  proof -
    let ?t1 = "t\<lparr>it_array_count := it_array_count t + 1, it_array := (it_array t)[unat k := v]\<rparr>"
    have "int_shape ?t1" "in_array ?t1 k" using R(1) k by (simp_all add: int_shape_def in_array_def)
    then show ?thesis
      using arrhas_ok[OF R(1) k] free k R(1) by (simp add: upb_inttable_insert_def mask_set_ok int_shape_def in_array_nat)
  qed
  ultimately show ?thesis by simp
qed

lemma int_remove_array:
  assumes rel: "int_rel t m" and k: "in_array t k"
  shows "\<exists>t'. upb_inttable_remove t k = Inr (m k, t') \<and> int_rel t' (m(k := None))"
proof (cases "m k = None")
  case True
  then have "\<not> has_bit (it_presence_mask t) (unat k)" using int_relD(3)[OF rel k] by (simp add: array_map_def split: if_splits)
  then have "upb_inttable_remove t k = Inr (None, t)"
    using arrhas_ok[OF int_relD(1)[OF rel] k] k by (simp add: upb_inttable_remove_def)
  then show ?thesis using True rel by (simp add: fun_upd_idem)
next
  case False
  note R = int_relD[OF rel]
  let ?ps = "(it_presence_mask t)[unat k div 8 := it_presence_mask t ! (unat k div 8) AND NOT (push_bit (unat k mod 8) 1)]"
  let ?t = "t\<lparr>it_array_count := it_array_count t - 1, it_array := (it_array t)[unat k := kInttableSentinel], it_presence_mask := ?ps\<rparr>"
  have d: "unat k div 8 < length (it_presence_mask t)"
    using mask_index[of "unat k" "unat (it_array_size t)"] R(1) k by (simp add: int_shape_def in_array_nat)
  have set: "has_bit (it_presence_mask t) (unat k)" "m k = Some (it_array t ! unat k)"
    using False R(3)[OF k] by (auto simp: array_map_def split: if_splits)
  have "int_rel ?t (m(k := None))"
    using has_bit_clear[OF d] array_count_less[OF rel k False] by (intro int_rel_array[OF rel k]) auto
  moreover have "upb_inttable_remove t k = Inr (m k, ?t)"
  proof -
    let ?t1 = "t\<lparr>it_array_count := it_array_count t - 1, it_array := (it_array t)[unat k := kInttableSentinel]\<rparr>"
    have "int_shape ?t1" "in_array ?t1 k" using R(1) k by (simp_all add: int_shape_def in_array_def)
    then show ?thesis
      using arrhas_ok[OF R(1) k] set k R(1) by (simp add: upb_inttable_remove_def Let_def mask_set_ok int_shape_def in_array_nat)
  qed
  ultimately show ?thesis by simp
qed

subsection \<open>The hash part\<close>

abbreviation hash_map :: "upb_inttable \<Rightarrow> (u64 \<Rightarrow> u64 option) \<Rightarrow> u64 \<Rightarrow> u64 option" where
  "hash_map t m \<equiv> (\<lambda>k. if in_array t k then None else m k)"

lemma int_rel_hash:
  assumes rel: "int_rel t m" and k: "\<not> in_array t k" and h: "ik.map_rel h ((hash_map t m)(k := r))"
  shows "int_rel (t\<lparr>it_t := h\<rparr>) (m(k := r))"
proof -
  note R = int_relD[OF rel]
  have "(hash_map t m)(k := r) = hash_map (t\<lparr>it_t := h\<rparr>) (m(k := r))" using k by (auto simp: in_array_def)
  moreover have "{k'. in_array (t\<lparr>it_t := h\<rparr>) k' \<and> (m(k := r)) k' \<noteq> None} = {k'. in_array t k' \<and> m k' \<noteq> None}"
    using k by (auto simp: in_array_def)
  moreover have "(m(k := r)) k' = array_map (t\<lparr>it_t := h\<rparr>) k'" if "in_array (t\<lparr>it_t := h\<rparr>) k'" for k'
    using that k R(3)[of k'] by (auto simp: in_array_def array_map_def)
  ultimately show ?thesis using R(1,4) h by (simp add: int_rel_def int_shape_def)
qed

lemma num_key_ok: "int_shape t \<Longrightarrow> \<not> in_array t k \<Longrightarrow> num_key k = Some k"
  by (auto simp: num_key_def in_array_nat int_shape_def)

lemma int_rel_same: "int_rel t m \<Longrightarrow> ik.map_rel h (hash_map t m) \<Longrightarrow> int_rel (t\<lparr>it_t := h\<rparr>) m"
  by (auto simp: int_rel_def int_shape_def in_array_def array_map_def)

text \<open>The first step of an insertion: the hash part grows when it is full.\<close>

abbreviation grow :: "upb_inttable \<Rightarrow> arena \<Rightarrow> (upb_inttable option \<times> arena) res" where
  "grow t a \<equiv>
     (if isfull (it_t t) then
        (case table_init (upb_log2_table_size (it_t t) + 1) a of
           (None, a) \<Rightarrow> Inr (None, a)
         | (Some new_table, a) \<Rightarrow>
             bindE (rehash_loop (Suc (upb_table_size (it_t t))) (it_t t) new_table (table_begin (it_t t))
                      (\<lambda>k v. Inr (key_num k)) inthash inteql) (\<lambda>new_table.
             bindE (assertE (t_count (it_t t) = t_count new_table)) (\<lambda>_.
               Inr (Some (t\<lparr>it_t := new_table\<rparr>), a))))
      else Inr (Some t, a))"

lemma grow_ok:
  assumes "int_rel t m"
  shows "\<exists>r a'. grow t a = Inr (r, a') \<and>
    (\<forall>t'. r = Some t' \<longrightarrow> int_rel t' m \<and> \<not> isfull (it_t t') \<and> it_array_size t' = it_array_size t) \<and>
    (unat (t_count (it_t t)) < 2 ^ 30 \<and> a 0 \<longrightarrow> r \<noteq> None) \<and> ((\<forall>n. a n) \<longrightarrow> (\<forall>n. a' n))"
proof (cases "isfull (it_t t)")
  case True
  note R = int_relD[OF assms]
  obtain k where k: "k < 32" "t_mask (it_t t) = 2 ^ k - 1" "length (entries (it_t t)) = 2 ^ k"
    using ik.map_relD(2)[OF R(2)] by (auto simp: tab_shape_def)
  have "k \<noteq> 31" if "unat (t_count (it_t t)) < 2 ^ 30"
    using that isfull_iff[OF ik.map_relD(2)[OF R(2)]] True k(3) by (auto simp: load_limit_def)
  then have small: "upb_log2_table_size (it_t t) + 1 < 32" if "unat (t_count (it_t t)) < 2 ^ 30"
    using that k log2_table_size[of "it_t t" k] by fastforce
  obtain new a' where i: "table_init (upb_log2_table_size (it_t t) + 1) a = (new :: u64 upb_table option, a')"
    by (cases "table_init (upb_log2_table_size (it_t t) + 1) a :: u64 upb_table option \<times> arena") simp
  show ?thesis
  proof (cases new)
    case None
    then show ?thesis using True i table_init_arena(1)[OF i[unfolded None]] table_init_full_arena[OF i] small by auto
  next
    case (Some n)
    have "\<exists>new'. rehash_loop (Suc (upb_table_size (it_t t))) (it_t t) n (table_begin (it_t t))
        (\<lambda>k v. Inr (key_num k)) inthash inteql = Inr new' \<and> ik.map_rel new' (hash_map t m) \<and>
        \<not> isfull new' \<and> t_count new' = t_count (it_t t)"
      by (rule ik.map_rel_double[OF R(2) True _ i[unfolded Some]]) (simp add: key_num_def)
    then show ?thesis using True i Some int_rel_same[OF assms] table_init_full_arena[OF i] by auto
  qed
qed (use assms in simp)

lemma int_insert_hash:
  assumes rel: "int_rel t m" and k: "\<not> in_array t k" and none: "m k = None"
  shows "\<exists>ok t' a'. upb_inttable_insert t k v a = Inr (ok, t', a') \<and> int_rel t' (if ok then m(k \<mapsto> v) else m) \<and>
    it_array_size t' = it_array_size t \<and> (unat (t_count (it_t t)) < 2 ^ 30 \<and> a 0 \<longrightarrow> ok) \<and>
    ((\<forall>n. a n) \<longrightarrow> (\<forall>n. a' n))"
proof -
  obtain r a' where g: "grow t a = Inr (r, a')"
    "\<And>t'. r = Some t' \<Longrightarrow> int_rel t' m \<and> \<not> isfull (it_t t') \<and> it_array_size t' = it_array_size t"
    "unat (t_count (it_t t)) < 2 ^ 30 \<and> a 0 \<longrightarrow> r \<noteq> None" "(\<forall>n. a n) \<longrightarrow> (\<forall>n. a' n)"
    using grow_ok[OF rel, of a] by blast
  show ?thesis
  proof (cases r)
    case None
    then have "upb_inttable_insert t k v a = Inr (False, t, a')"
      unfolding upb_inttable_insert_def g(1) using k by simp
    then show ?thesis using rel None g(3,4) by auto
  next
    case (Some t1)
    then have t1: "int_rel t1 m" "\<not> isfull (it_t t1)" "it_array_size t1 = it_array_size t" using g(2) by auto
    have k1: "\<not> in_array t1 k" using k t1(3) by (simp add: in_array_def)
    have "hash_map t1 m k = None" using none by simp
    then obtain h where h: "table_insert (it_t t1) k (Some k) v (upb_inthash k) inthash inteql = Inr h"
        "ik.map_rel h ((hash_map t1 m)(k \<mapsto> v))"
      using ik.map_rel_insert[OF int_relD(2)[OF t1(1)] t1(2), of k k v] by blast
    have "upb_inttable_insert t k v a = Inr (True, t1\<lparr>it_t := h\<rparr>, a')"
      unfolding upb_inttable_insert_def g(1) using k Some h(1) num_key_ok[OF int_relD(1)[OF t1(1)] k1] by simp
    then show ?thesis using int_rel_hash[OF t1(1) k1 h(2)] t1(3) g(4) by auto
  qed
qed

lemma int_insert_ok:
  assumes "int_rel t m" "m k = None"
  shows "\<exists>ok t' a'. upb_inttable_insert t k v a = Inr (ok, t', a') \<and> int_rel t' (if ok then m(k \<mapsto> v) else m) \<and>
    it_array_size t' = it_array_size t \<and> (unat (t_count (it_t t)) < 2 ^ 30 \<and> a 0 \<longrightarrow> ok) \<and>
    ((\<forall>n. a n) \<longrightarrow> (\<forall>n. a' n))"
  using int_insert_array[OF assms(1) _ assms(2)] int_insert_hash[OF assms(1) _ assms(2)]
  by (cases "in_array t k") fastforce+

lemma int_remove_law:
  assumes rel: "int_rel t m"
  shows "\<exists>t'. upb_inttable_remove t k = Inr (m k, t') \<and> int_rel t' (m(k := None))"
proof (cases "in_array t k")
  case True
  then show ?thesis using int_remove_array[OF rel] by blast
next
  case False
  obtain h where "table_rm (it_t t) k (upb_inthash k) inteql = Inr (hash_map t m k, h)"
      "ik.map_rel h ((hash_map t m)(k := None))" using ik.map_rel_remove[OF int_relD(2)[OF rel]] by blast
  then show ?thesis using False int_rel_hash[OF rel False] by (simp add: upb_inttable_remove_def)
qed

subsection \<open>Creation, clearing, count\<close>

lemma presence_size: "unat n \<le> 2 ^ 31 \<Longrightarrow> unat (presence_mask_arr_size n) = (unat n + 7) div 8"
  by (simp add: presence_mask_arr_size_def unat_div unat_word_ariths)

lemma has_bit_zero: "i div 8 < n \<Longrightarrow> \<not> has_bit (replicate n 0) i"
  by (simp add: has_bit_def)

lemma int_rel_empty:
  assumes "1 \<le> unat n" "unat n \<le> 2 ^ 31" "ik.map_rel h Map.empty"
    and "it_t t = h" "it_array t = replicate (unat n) kInttableSentinel"
    and "it_presence_mask t = replicate (unat (presence_mask_arr_size n)) 0" "it_array_size t = n" "it_array_count t = 0"
  shows "int_rel t Map.empty"
  using assms mask_index[of _ "unat n"] has_bit_zero[of _ "(unat n + 7) div 8"]
  by (auto simp: int_rel_def int_shape_def presence_size array_map_def in_array_nat)

lemma int_init_rel:
  assumes "upb_inttable_sizedinit asize lg a = (Some t, a')" "unat asize \<le> 2 ^ 31"
  shows "int_rel t Map.empty" "it_array_size t = max 1 asize" "it_array_count t = 0" "t_count (it_t t) = 0"
proof -
  obtain h a1 where h: "table_init (lg mod 256) a = (Some h, a1)" "it_t t = h"
    "it_array t = replicate (unat (max 1 asize)) kInttableSentinel"
    "it_presence_mask t = replicate (unat (presence_mask_arr_size (max 1 asize))) 0"
    "it_array_size t = max 1 asize" "it_array_count t = 0"
    using assms(1) by (auto simp: upb_inttable_sizedinit_def Let_def split: prod.splits option.splits if_splits)
  have "1 \<le> unat (max 1 asize)" "unat (max 1 asize) \<le> 2 ^ 31"
    using assms(2) by (auto simp: max_def word_le_nat_alt)
  then show "int_rel t Map.empty" by (rule int_rel_empty[OF _ _ ik.map_rel_init[OF h(1)] h(2-)])
  show "it_array_size t = max 1 asize" "it_array_count t = 0" "t_count (it_t t) = 0"
    using h ik.table_init_ok[OF h(1)] by simp_all
qed

lemma int_clear_law: "int_rel t m \<Longrightarrow> int_rel (upb_inttable_clear t) Map.empty"
  using ik.map_rel_clear[OF int_relD(2)[of t m]] int_relD(1)[of t m]
  by (intro int_rel_empty[of "it_array_size t" "table_clear (it_t t)"]) (auto simp: upb_inttable_clear_def int_shape_def)

lemma int_count_law:
  assumes "int_rel t m"
  shows "upb_inttable_count t = card (dom m)" "card (dom m) = unat (t_count (it_t t)) + unat (it_array_count t)"
proof -
  note R = int_relD[OF assms]
  have "dom m = dom (hash_map t m) \<union> {k. in_array t k \<and> m k \<noteq> None}" by (auto simp: dom_def split: if_splits)
  moreover have "dom (hash_map t m) \<inter> {k. in_array t k \<and> m k \<noteq> None} = {}" by (auto simp: dom_def split: if_splits)
  ultimately have "card (dom m) = card (dom (hash_map t m)) + card {k. in_array t k \<and> m k \<noteq> None}"
    by (simp add: card_Un_disjoint)
  then show c: "card (dom m) = unat (t_count (it_t t)) + unat (it_array_count t)"
    using ik.tab_rel_card[OF ik.map_relD(1)[OF R(2)]] R(4) by simp
  have "unat (it_array_count t) \<le> 2 ^ 31" using R(1,4) array_card[of t "\<lambda>k. m k \<noteq> None"] by (simp add: int_shape_def)
  moreover have "unat (t_count (it_t t)) < 2 ^ 31"
    using ik.map_relD(2,3)[OF R(2)] tab_shape_mask(3)[of "it_t t"] load_limit_mono[of "length (entries (it_t t))" "2 ^ 31"]
    by (simp add: loaded_def load_limit_def)
  ultimately show "upb_inttable_count t = card (dom m)"
    using c by (simp add: upb_inttable_count_def unat_word_ariths)
qed

interpretation it: map_table int_rel "\<lambda>l v. True" upb_inttable_insert upb_inttable_lookup
  upb_inttable_remove upb_inttable_clear upb_inttable_count
proof
  fix t m and l v :: u64 and a assume r: "int_rel t m"
  show "m l = None \<Longrightarrow> \<exists>ok t' a'. upb_inttable_insert t l v a = Inr (ok, t', a') \<and>
      int_rel t' (if ok then m(l \<mapsto> v) else m)" using int_insert_ok[OF r] by blast
  show "upb_inttable_lookup t l = Inr (m l)" by (rule int_lookup_law[OF r])
  show "\<exists>t'. upb_inttable_remove t l = Inr (m l, t') \<and> int_rel t' (m(l := None))" by (rule int_remove_law[OF r])
  show "int_rel (upb_inttable_clear t) Map.empty" by (rule int_clear_law[OF r])
  show "upb_inttable_count t = card (dom m)" by (rule int_count_law(1)[OF r])
qed

subsection \<open>Replacing a value\<close>

lemma int_replace_ok:
  assumes rel: "int_rel t m"
  shows "\<exists>t'. upb_inttable_replace t k v = Inr (m k \<noteq> None, t') \<and> int_rel t' (if m k \<noteq> None then m(k \<mapsto> v) else m)"
proof (cases "in_array t k")
  case True
  note R = int_relD[OF rel]
  have h: "has_bit (it_presence_mask t) (unat k) \<longleftrightarrow> m k \<noteq> None" using R(3)[OF True] by (simp add: array_map_def)
  have len: "unat k < length (it_array t)" using R(1) True by (simp add: int_shape_def in_array_nat)
  let ?t = "t\<lparr>it_array := (it_array t)[unat k := v]\<rparr>"
  have "int_rel ?t (m(k \<mapsto> v))" if some: "m k \<noteq> None"
  proof -
    have "{k'. in_array t k' \<and> (m(k \<mapsto> v)) k' \<noteq> None} = {k'. in_array t k' \<and> m k' \<noteq> None}" using some True by auto
    then have "int_rel (t\<lparr>it_array_count := it_array_count t, it_array := (it_array t)[unat k := v],
        it_presence_mask := it_presence_mask t\<rparr>) (m(k \<mapsto> v))"
      using h some R(4) by (intro int_rel_array[OF rel True]) auto
    then show ?thesis by simp
  qed
  then show ?thesis
    using rel True h len R(1)
    by (auto simp: upb_inttable_replace_def inttable_val_def inttable_array_get_def arrhas_ok store_place_def)
next
  case False
  note R = int_relD[OF rel]
  have "ik.tab_inv (it_t t)" using ik.map_relD(1)[OF R(2)] by (simp add: ik.tab_rel_def)
  from ik.findentry_ok[OF this, of k] obtain r where r: "findentry (it_t t) k (upb_inthash k) inteql = Inr r"
    "case r of Some i \<Rightarrow> i < length (entries (it_t t)) \<and> ik.lkey (entries (it_t t) ! i) = Some k
     | None \<Rightarrow> \<forall>i < length (entries (it_t t)). ik.lkey (entries (it_t t) ! i) \<noteq> Some k" by blast
  show ?thesis
  proof (cases r)
    case None
    then have "m k = None" using r(2) ik.tab_rel_key[OF ik.map_relD(1)[OF R(2)], of k] False by simp
    then show ?thesis using rel r(1) None False by (simp add: upb_inttable_replace_def inttable_val_def)
  next
    case (Some i)
    then have i: "i < length (entries (it_t t))" "te_key (entries (it_t t) ! i) = Some k"
      using r(2) by (auto simp: ik.lkey_def)
    let ?h = "(it_t t)\<lparr>entries := (entries (it_t t))[i := (entries (it_t t) ! i)\<lparr>te_val := v\<rparr>]\<rparr>"
    have "m k \<noteq> None" using ik.tab_rel_val[OF ik.map_relD(1)[OF R(2)] i(1), of k] i(2) False by (simp add: ik.lkey_def)
    moreover have "int_rel (t\<lparr>it_t := ?h\<rparr>) (m(k \<mapsto> v))"
      by (rule int_rel_hash[OF rel False ik.map_rel_store[OF R(2) i]]) simp_all
    ultimately show ?thesis
      using r(1) Some False i by (simp add: upb_inttable_replace_def inttable_val_def store_place_def)
  qed
qed

subsection \<open>Iteration\<close>

definition array_items :: "upb_inttable \<Rightarrow> nat \<Rightarrow> (u64 \<times> u64) list" where
  "array_items t n = map (\<lambda>i. (of_nat i, it_array t ! i))
     (filter (has_bit (it_presence_mask t)) [n..<unat (it_array_size t)])"

text \<open>What is left to visit at iterator \<open>p - 1\<close>.\<close>

definition items_at :: "upb_inttable \<Rightarrow> nat \<Rightarrow> (u64 \<times> u64) list" where
  "items_at t p =
     (if p \<le> unat (it_array_size t) then array_items t p @ ik.items_from (it_t t) 0
      else ik.items_from (it_t t) (p - unat (it_array_size t)))"

lemma array_get_ok:
  assumes "int_shape t" "i < unat (it_array_size t)"
  shows "inttable_array_get t (of_nat i) = Inr (if has_bit (it_presence_mask t) i then Some (In_Array i) else None)"
proof -
  have "unat (of_nat i :: u64) = i" using assms by (simp add: unat_of_nat int_shape_def)
  then show ?thesis using assms arrhas_ok[of t "of_nat i"] by (simp add: inttable_array_get_def in_array_nat)
qed

lemma array_scan_ok:
  assumes "int_shape t" "n \<le> unat (it_array_size t)"
  shows "(\<exists>j. array_scan t n = Inr (Some j) \<and> n \<le> j \<and> j < unat (it_array_size t) \<and>
      array_items t n = (of_nat j, it_array t ! j) # array_items t (Suc j)) \<or>
    (array_scan t n = Inr None \<and> array_items t n = [])"
  using assms
proof (induction t n rule: array_scan.induct)
  case (1 t n)
  show ?case
  proof (cases "n < unat (it_array_size t)")
    case True
    then have u: "[n..<unat (it_array_size t)] = n # [Suc n..<unat (it_array_size t)]" by (simp add: upt_conv_Cons)
    show ?thesis
    proof (cases "has_bit (it_presence_mask t) n")
      case True': True
      then show ?thesis using True u array_get_ok[OF "1.prems"(1) True] by (simp add: array_items_def)
    next
      case False
      have s: "array_scan t n = array_scan t (Suc n)" using True array_get_ok[OF "1.prems"(1) True] False by simp
      have i: "array_items t n = array_items t (Suc n)" using u False by (simp add: array_items_def)
      have "(\<exists>j. array_scan t (Suc n) = Inr (Some j) \<and> Suc n \<le> j \<and> j < unat (it_array_size t) \<and>
          array_items t (Suc n) = (of_nat j, it_array t ! j) # array_items t (Suc j)) \<or>
        (array_scan t (Suc n) = Inr None \<and> array_items t (Suc n) = [])"
        using "1.IH"[OF True array_get_ok[OF "1.prems"(1) True]] False "1.prems" True by simp
      then show ?thesis unfolding s i using Suc_leD by blast
    qed
  qed (simp add: array_items_def)
qed

lemma table_part_next:
  assumes "int_rel t m"
  shows "(\<exists>j k v. table_next (it_t t) (int n - 1) = int j \<and> n \<le> j \<and> j < length (entries (it_t t)) \<and>
      te_key (entries (it_t t) ! j) = Some k \<and> te_val (entries (it_t t) ! j) = v \<and>
      ik.items_from (it_t t) n = (k, v) # ik.items_from (it_t t) (Suc j)) \<or>
    (\<not> table_next (it_t t) (int n - 1) < int (upb_table_size (it_t t)) \<and> ik.items_from (it_t t) n = [])"
proof -
  have sh: "tab_shape (it_t t)" by (rule ik.map_relD(2)[OF int_relD(2)[OF assms]])
  show ?thesis
  proof (cases rule: table_next_cases[OF sh, of n, case_names entry stop])
    case (entry j)
    then obtain k where k: "te_key (entries (it_t t) ! j) = Some k" by auto
    then have l: "ik.lkey (entries (it_t t) ! j) = Some k" by (simp add: ik.lkey_def)
    show ?thesis using entry(1-3) k ik.items_from_entry[OF entry(2,3) l entry(5)] by auto
  next
    case stop
    then show ?thesis using ik.items_from_stop[OF stop(3)] tab_shape_mask(2)[OF sh] by simp
  qed
qed

lemma inttable_next_ok:
  assumes rel: "int_rel t m" and p: "p \<le> unat (it_array_size t) + upb_table_size (it_t t)"
  shows "(\<exists>p' k v. upb_inttable_next t (int p - 1) = Inr (Some (k, v), int p' - 1) \<and> p < p' \<and>
      p' \<le> unat (it_array_size t) + upb_table_size (it_t t) \<and> items_at t p = (k, v) # items_at t p') \<or>
    (upb_inttable_next t (int p - 1) = Inr (None, INTPTR_MAX - 1) \<and> items_at t p = [])"
proof -
  define s where "s = unat (it_array_size t)"
  note R = int_relD[OF rel]
  have len: "length (it_array t) = s" using R(1) by (simp add: int_shape_def s_def)
  have at: "items_at t q = (if q \<le> s then array_items t q @ ik.items_from (it_t t) 0 else ik.items_from (it_t t) (q - s))" for q
    by (simp add: items_at_def s_def)
  have nx0: "upb_inttable_next t (int p - 1) =
      bindE (if p \<le> s then array_scan t p else Inr None) (\<lambda>found. case found of
        Some i \<Rightarrow> bindE (array_at t i) (\<lambda>v. Inr (Some (of_nat i, v), int i))
      | None \<Rightarrow>
          let i = (if p \<le> s then int s - 1 else int p - 1); tab_idx = table_next (it_t t) (i - int s)
          in if tab_idx < int (upb_table_size (it_t t)) then
               bindE (ent_at (it_t t) (nat tab_idx)) (\<lambda>ent.
                 Inr (Some (key_num (te_key ent), te_val ent), tab_idx + int s))
             else Inr (None, INTPTR_MAX - 1))"
    unfolding upb_inttable_next_def s_def[symmetric] Let_def by (simp del: array_scan.simps cong: if_cong)
  have tl: "upb_table_size (it_t t) = length (entries (it_t t))" by (rule tab_shape_mask(2)[OF ik.map_relD(2)[OF R(2)]])
  have table: ?thesis if none: "(if p \<le> s then array_scan t p else Inr None) = Inr None"
    and items: "items_at t p = ik.items_from (it_t t) (p - s)"
  proof -
    have i: "(if p \<le> s then int s - 1 else int p - 1) - int s = int (p - s) - 1" by auto
    have nx: "upb_inttable_next t (int p - 1) =
        (let tab_idx = table_next (it_t t) (int (p - s) - 1)
         in if tab_idx < int (upb_table_size (it_t t)) then
              bindE (ent_at (it_t t) (nat tab_idx)) (\<lambda>ent.
                Inr (Some (key_num (te_key ent), te_val ent), tab_idx + int s))
            else Inr (None, INTPTR_MAX - 1))"
      unfolding nx0 none using i by (simp add: Let_def del: of_nat_diff)
    from table_part_next[OF rel, of "p - s"] show ?thesis
    proof (elim disjE exE conjE)
      fix j k v assume j: "table_next (it_t t) (int (p - s) - 1) = int j" "p - s \<le> j" "j < length (entries (it_t t))"
        "te_key (entries (it_t t) ! j) = Some k" "te_val (entries (it_t t) ! j) = v"
        "ik.items_from (it_t t) (p - s) = (k, v) # ik.items_from (it_t t) (Suc j)"
      have "items_at t (Suc j + s) = ik.items_from (it_t t) (Suc j)" by (simp add: at)
      then show ?thesis unfolding nx items s_def[symmetric] using j tl
        by (intro disjI1 exI[of _ "Suc j + s"] exI[of _ k] exI[of _ v]) (simp add: key_num_def)
    qed (simp add: nx items flip: s_def)
  qed
  show ?thesis
  proof (cases "p \<le> s")
    case True
    from array_scan_ok[OF R(1) True[unfolded s_def], folded s_def] show ?thesis
    proof (elim disjE exE conjE)
      fix j assume j: "array_scan t p = Inr (Some j)" "p \<le> j" "j < s"
        "array_items t p = (of_nat j, it_array t ! j) # array_items t (Suc j)"
      then show ?thesis using True len
        by (intro disjI1 exI[of _ "Suc j"]) (simp add: nx0 at del: array_scan.simps flip: s_def)
    qed (use True table in \<open>simp add: at del: array_scan.simps\<close>)
  qed (use table in \<open>simp add: at\<close>)
qed

text \<open>A loop over the table is a fold over its items.\<close>

primrec foldE :: "('k \<Rightarrow> 'v \<Rightarrow> 's \<Rightarrow> 's res) \<Rightarrow> ('k \<times> 'v) list \<Rightarrow> 's \<Rightarrow> 's res" where
  "foldE f [] s = Inr s"
| "foldE f (x # xs) s = bindE (f (fst x) (snd x) s) (foldE f xs)"

lemma foreach_at:
  assumes "int_rel t m" "p \<le> unat (it_array_size t) + upb_table_size (it_t t)"
    and "unat (it_array_size t) + upb_table_size (it_t t) < p + fuel"
  shows "inttable_foreach fuel t (int p - 1) body s = foldE body (items_at t p) s"
  using assms(2,3)
proof (induction fuel arbitrary: p s)
  case (Suc fuel)
  from inttable_next_ok[OF assms(1) Suc.prems(1)] show ?case
  proof (elim disjE exE conjE)
    fix p' k v assume p': "upb_inttable_next t (int p - 1) = Inr (Some (k, v), int p' - 1)" "p < p'"
      "p' \<le> unat (it_array_size t) + upb_table_size (it_t t)" "items_at t p = (k, v) # items_at t p'"
    have "inttable_foreach fuel t (int p' - 1) body s' = foldE body (items_at t p') s'" for s'
      using p'(2,3) Suc.prems by (intro Suc.IH) auto
    then have "inttable_foreach fuel t (int p' - 1) body = foldE body (items_at t p')" by auto
    then show ?thesis using p' by simp
  qed simp
qed simp

lemma foreach_items:
  assumes "int_rel t m"
  shows "inttable_foreach (inttable_fuel t) t (- 1) body s = foldE body (items_at t 0) s"
  using foreach_at[OF assms, of 0 "inttable_fuel t"] by (simp add: inttable_fuel_def)

lemma array_items_keys: "set (map fst (array_items t 0)) \<subseteq> {k. unat k < unat (it_array_size t)}"
proof -
  have "unat (of_nat i :: u64) < unat (it_array_size t)" if "i < unat (it_array_size t)" for i
    using that le_less_trans[OF mod_less_eq_dividend] by (simp add: unat_of_nat)
  then show ?thesis by (auto simp: array_items_def)
qed

lemma items_at_map:
  assumes rel: "int_rel t m"
  shows "distinct (map fst (items_at t 0))" "map_of (items_at t 0) = m"
proof -
  note R = int_relD[OF rel]
  let ?A = "array_items t 0" and ?H = "ik.items_from (it_t t) 0"
  have at: "items_at t 0 = ?A @ ?H" by (simp add: items_at_def)
  note H = ik.items_map[OF ik.map_relD(1)[OF R(2)]]
  have u: "unat (of_nat i :: u64) = i" if "i < unat (it_array_size t)" for i
    using that R(1) by (simp add: unat_of_nat int_shape_def)
  then have "inj_on (of_nat :: nat \<Rightarrow> u64) {..<unat (it_array_size t)}" by (metis inj_onI lessThan_iff)
  then have dA: "distinct (map fst ?A)"
    by (auto simp: array_items_def distinct_map comp_def intro: inj_on_subset)
  have mA: "map_of ?A k = (if in_array t k then m k else None)" for k
  proof (cases "in_array t k")
    case True
    have "(k, v) \<in> set ?A \<longleftrightarrow> m k = Some v" for v
      using True R(3)[OF True] u by (force simp: array_items_def array_map_def in_array_nat image_iff)
    then show ?thesis using True map_of_eq_Some_iff[OF dA] by (metis not_Some_eq)
  next
    case False
    then have "k \<notin> fst ` set ?A" using array_items_keys[of t] by (auto simp: in_array_nat)
    then show ?thesis using False by (simp add: map_of_eq_None_iff)
  qed
  have "k \<notin> set (map fst ?H)" if "k \<in> set (map fst ?A)" for k
  proof -
    have "in_array t k" using that array_items_keys[of t] by (auto simp: in_array_nat)
    then have "map_of ?H k = None" using H(2) by simp
    then show ?thesis by (simp add: map_of_eq_None_iff)
  qed
  then show "distinct (map fst (items_at t 0))" using dA H(1) unfolding at by auto
  show "map_of (items_at t 0) = m"
    using H(2) mA by (auto simp: at map_add_def fun_eq_iff split: option.splits if_splits)
qed

end
