(* ===== verification/Int_Compact.thy ===== *)
theory Int_Compact
  imports Int_Correct
begin

text \<open>
  \<open>upb_inttable_compact\<close> moves every value into a new table whose array part has a size chosen from a
  histogram of the keys. The histogram counts every key once, so that the counters do not wrap, and
  the copy has the same values when memory does not run out.
\<close>

subsection \<open>The histogram\<close>

lemma log2ceil_le: "log2ceil k \<le> 16"
  by (simp add: log2ceil_def UPB_MAXARRSIZE_def Let_def)

lemma sum_list_incr:
  assumes "i < length cs" "sum_list (map unat cs) + 1 < 2 ^ 32"
  shows "sum_list (map unat (cs[i := cs ! i + (1 :: u32)])) = sum_list (map unat cs) + 1"
proof -
  have le: "unat (cs ! i) \<le> sum_list (map unat cs)" using assms(1) by (simp add: member_le_sum_list)
  then have "unat (cs ! i + 1) = unat (cs ! i) + 1" using assms(2) by (simp add: unat_word_ariths)
  then show ?thesis using assms(1) le by (simp add: map_update sum_list_update)
qed

lemma histogram_ok:
  assumes "length cs = 17" "length ms = 17" "sum_list (map unat cs) + length xs < 2 ^ 32"
    and "\<And>i. i < 17 \<Longrightarrow> unat (ms ! i) < b" "\<And>k. k \<in> fst ` set xs \<Longrightarrow> unat k < b"
  shows "\<exists>cs' ms'. foldE histogram_step xs (cs, ms) = Inr (cs', ms') \<and> length cs' = 17 \<and> length ms' = 17 \<and>
    sum_list (map unat cs') = sum_list (map unat cs) + length xs \<and> (\<forall>i < 17. unat (ms' ! i) < b)"
  using assms
proof (induction xs arbitrary: cs ms)
  case (Cons x xs)
  let ?b = "log2ceil (fst x)"
  let ?cs = "cs[?b := cs ! ?b + 1]" and ?ms = "ms[?b := max (ms ! ?b) (fst x)]"
  have b: "?b < 17" using log2ceil_le[of "fst x"] by simp
  then have sum: "sum_list (map unat ?cs) = sum_list (map unat cs) + 1" using sum_list_incr[of ?b cs] Cons.prems by simp
  have "unat (?ms ! i) < b" if "i < 17" for i
    using that b Cons.prems(2,4,5) by (auto simp: nth_list_update max_def)
  then have "\<exists>cs' ms'. foldE histogram_step xs (?cs, ?ms) = Inr (cs', ms') \<and> length cs' = 17 \<and> length ms' = 17 \<and>
      sum_list (map unat cs') = sum_list (map unat ?cs) + length xs \<and> (\<forall>i < 17. unat (ms' ! i) < b)"
    using Cons.prems sum by (intro Cons.IH) auto
  moreover have "foldE histogram_step (x # xs) (cs, ms) = foldE histogram_step xs (?cs, ?ms)"
    by (simp add: histogram_step_def Let_def)
  ultimately show ?case using sum by auto
qed auto

lemma density_ok:
  assumes "density_loop cs i n = (j, n')" "(\<Sum>k\<le>i. unat (cs ! k)) \<le> unat n"
  shows "j \<le> i \<and> unat n' \<le> unat n"
  using assms
proof (induction i arbitrary: n)
  case (Suc i)
  have sub: "unat (n - cs ! Suc i) = unat n - unat (cs ! Suc i)"
    using Suc.prems(2) by (intro unat_sub) (simp add: word_le_nat_alt)
  consider "cs ! Suc i = 0" | "cs ! Suc i \<noteq> 0" "dense_enough n (Suc i)" | "cs ! Suc i \<noteq> 0" "\<not> dense_enough n (Suc i)"
    by blast
  then show ?case
  proof cases
    case 1
    then show ?thesis using Suc.IH[of n] Suc.prems by simp
  next
    case 3
    then have "j \<le> i \<and> unat n' \<le> unat (n - cs ! Suc i)" using Suc.prems sub by (intro Suc.IH) simp_all
    then show ?thesis using sub by linarith
  qed (use Suc.prems in simp)
qed auto

subsection \<open>The copy\<close>

lemma reinsert_ok:
  assumes "int_rel new m" "distinct (map fst xs)" "\<And>k. k \<in> fst ` set xs \<Longrightarrow> m k = None"
  shows "\<exists>new' a' m'. foldE reinsert_step xs (new, a) = Inr (new', a') \<and> int_rel new' m' \<and>
    it_array_size new' = it_array_size new \<and> m' \<subseteq>\<^sub>m m ++ map_of xs \<and>
    ((\<forall>n. a n) \<and> card (dom m) + length xs < 2 ^ 30 \<longrightarrow> m' = m ++ map_of xs)"
  using assms
proof (induction xs arbitrary: new m a)
  case (Cons x xs)
  obtain k v where x: "x = (k, v)" by (cases x)
  have none: "m k = None" using Cons.prems(3) x by simp
  obtain ok t1 a1 where 1: "upb_inttable_insert new k v a = Inr (ok, t1, a1)" "int_rel t1 (if ok then m(k \<mapsto> v) else m)"
    "it_array_size t1 = it_array_size new" "unat (t_count (it_t new)) < 2 ^ 30 \<and> a 0 \<longrightarrow> ok" "(\<forall>n. a n) \<longrightarrow> (\<forall>n. a1 n)"
    using int_insert_ok[OF Cons.prems(1) none, of v a] by blast
  let ?m = "if ok then m(k \<mapsto> v) else m"
  have d: "distinct (map fst xs)" using Cons.prems(2) by simp
  have fresh: "?m k' = None" if "k' \<in> fst ` set xs" for k'
    using that Cons.prems(2,3) x by (auto split: if_splits)
  obtain new' a' m' where IH: "foldE reinsert_step xs (t1, a1) = Inr (new', a')" "int_rel new' m'"
    "it_array_size new' = it_array_size t1" "m' \<subseteq>\<^sub>m ?m ++ map_of xs"
    "(\<forall>n. a1 n) \<and> card (dom ?m) + length xs < 2 ^ 30 \<longrightarrow> m' = ?m ++ map_of xs"
    using Cons.IH[OF 1(2) d fresh, of a1] by blast
  have split: "m ++ map_of (x # xs) = m(k \<mapsto> v) ++ map_of xs"
  proof -
    have "map_of xs k = None" using Cons.prems(2) x by (simp add: map_of_eq_None_iff)
    then show ?thesis using x by (simp add: map_add_def fun_eq_iff split: option.splits)
  qed
  have "m' \<subseteq>\<^sub>m m ++ map_of (x # xs)"
    using IH(4) none unfolding split map_le_def by (auto simp: map_add_def split: option.splits if_splits)
  moreover have "m' = m ++ map_of (x # xs)" if "\<forall>n. a n" "card (dom m) + length (x # xs) < 2 ^ 30"
  proof -
    have "finite (dom m)" by simp
    then have "card (dom (m(k \<mapsto> v))) = Suc (card (dom m))" using none by (simp add: domIff)
    moreover have ok using 1(4) that int_count_law(2)[OF Cons.prems(1)] by simp
    ultimately show ?thesis using IH(5) 1(5) that split by simp
  qed
  moreover have "foldE reinsert_step (x # xs) (new, a) = Inr (new', a')"
    using IH(1) 1(1) x by (simp add: reinsert_step_def)
  ultimately show ?case using IH(2,3) 1(3) by metis
qed auto

subsection \<open>Compaction keeps the values\<close>

lemma sizedinit_ok:
  assumes "unat arr_size \<le> 2 ^ 31" "arr_size \<noteq> 0" "lg \<le> 16"
  shows "(\<exists>a'. upb_inttable_sizedinit (ucast (arr_size :: u64)) lg a = (None, a') \<and> \<not> (a 0 \<and> a 1)) \<or>
    (\<exists>t a'. upb_inttable_sizedinit (ucast arr_size) lg a = (Some t, a') \<and> int_rel t Map.empty \<and>
      ucast (it_array_size t) = arr_size \<and> ((\<forall>n. a n) \<longrightarrow> (\<forall>n. a' n)))"
proof -
  have u: "unat (ucast arr_size :: u32) = unat arr_size"
    using assms(1) by (simp add: unsigned_ucast_eq take_bit_eq_mod)
  obtain r a' where i: "upb_inttable_sizedinit (ucast arr_size) lg a = (r, a')"
    by (cases "upb_inttable_sizedinit (ucast arr_size) lg a")
  have "lg mod 256 = lg" using assms(3) by simp
  note def = i[unfolded upb_inttable_sizedinit_def this Let_def]
  show ?thesis
  proof (cases r)
    case None
    have "\<not> (a 0 \<and> a 1)"
      using def None assms(3) by (auto simp: table_init_def Let_def split: if_splits)
    then show ?thesis using i None by blast
  next
    case (Some t)
    note I = int_init_rel[OF i[unfolded Some]]
    have "max 1 (ucast arr_size :: u32) = ucast arr_size"
      using u assms(2) by (simp add: max_def word_le_nat_alt) (metis unat_eq_zero le_0_eq not_less_eq_eq)
    then have "ucast (it_array_size t) = arr_size"
      using I(2) u assms(1) by (simp only: word_unat_eq_iff) (simp add: unsigned_ucast_eq take_bit_eq_mod)
    moreover have "\<forall>n. a' n" if "\<forall>n. a n"
      using def Some that by (auto simp: table_init_def Let_def split: if_splits)
    ultimately show ?thesis using i Some I(1) u assms(1) by auto
  qed
qed

lemma compact_ok:
  assumes rel: "int_rel t m" and keys: "\<And>k. m k \<noteq> None \<Longrightarrow> unat k < 2 ^ 31" and few: "card (dom m) < 2 ^ 30"
  shows "\<exists>ok t' a' m'. upb_inttable_compact t a = Inr (ok, t', a') \<and> int_rel t' m' \<and> (\<not> ok \<longrightarrow> t' = t) \<and> m' \<subseteq>\<^sub>m m \<and>
    ((\<forall>n. a n) \<longrightarrow> ok \<and> m' = m)"
proof -
  let ?xs = "items_at t 0" and ?n = "upb_inttable_count t" and ?z = "replicate (UPB_MAXARRSIZE + 1)"
  note X = items_at_map[OF rel]
  have n: "?n = card (dom m)" "length ?xs = card (dom m)"
    using int_count_law(1)[OF rel] distinct_card[OF X(1)] dom_map_of_conv_image_fst[of ?xs] X(2) by simp_all
  have un: "unat (of_nat ?n :: u32) = ?n" using few n(1) by (simp add: unat_of_nat)
  have "unat k < 2 ^ 31" if "k \<in> fst ` set ?xs" for k
    using that keys[of k] X(2) dom_map_of_conv_image_fst[of ?xs] by (metis domIff)
  then obtain cs ms where h: "foldE histogram_step ?xs (?z 0, ?z 0) = Inr (cs, ms)" "length cs = 17" "length ms = 17"
    "sum_list (map unat cs) = card (dom m)" "\<And>i. i < 17 \<Longrightarrow> unat (ms ! i) < 2 ^ 31"
    using histogram_ok[of "?z 0" "?z 0" ?xs "2 ^ 31"] n few by (auto simp: UPB_MAXARRSIZE_def sum_list_replicate)
  obtain j c where d: "density_loop cs UPB_MAXARRSIZE (of_nat ?n) = (j, c)" by (cases "density_loop cs UPB_MAXARRSIZE (of_nat ?n)")
  have "(\<Sum>k\<le>UPB_MAXARRSIZE. unat (cs ! k)) = card (dom m)"
    using h(2,4) by (simp add: sum_list_sum_nth UPB_MAXARRSIZE_def atLeast0LessThan lessThan_Suc_atMost[symmetric])
  then have j: "j \<le> 16" "unat c \<le> ?n" using density_ok[OF d] un n(1) by (auto simp: UPB_MAXARRSIZE_def)
  define hc where "hc = (of_nat ?n - c :: u32)"
  have "unat hc \<le> ?n" using j(2) un by (simp add: hc_def unat_sub word_le_nat_alt)
  then have "unat (ucast hc :: u64) < 2 ^ 63" using few n(1) by (simp add: unsigned_ucast_eq take_bit_eq_mod)
  then obtain hs where hs: "(if hc \<noteq> 0 then entries_needed_for (ucast hc) else Inr 0) = Inr hs"
    using entries_needed_ok[of "ucast hc"] by (cases "hc = 0") auto
  let ?as = "ms ! j + 1"
  have as: "unat ?as \<le> 2 ^ 31" "?as \<noteq> 0" using h(5)[of j] j(1) by (auto simp: unat_word_ariths word_unat_eq_iff)
  have run: "upb_inttable_compact t a =
      (case upb_inttable_sizedinit (ucast ?as) (log2ceil hs) a of
         (None, a) \<Rightarrow> Inr (False, t, a)
       | (Some new_t, a) \<Rightarrow>
           bindE (foldE reinsert_step ?xs (new_t, a)) (\<lambda>(new_t, a).
           bindE (assertE (ucast (it_array_size new_t) = ?as)) (\<lambda>_. Inr (True, new_t, a))))"
    unfolding upb_inttable_compact_def foreach_items[OF rel] h(1) bindE_Inr prod.case d Let_def hc_def[symmetric] hs
    using j(2) by simp
  from sizedinit_ok[OF as log2ceil_le[of hs], of a] show ?thesis
  proof (elim disjE exE conjE)
    fix a' assume "upb_inttable_sizedinit (ucast ?as) (log2ceil hs) a = (None, a')" "\<not> (a 0 \<and> a 1)"
    then show ?thesis
      unfolding run using rel by (intro exI[of _ False] exI[of _ t] exI[of _ a'] exI[of _ m]) auto
  next
    fix new a1 assume i: "upb_inttable_sizedinit (ucast ?as) (log2ceil hs) a = (Some new, a1)" "int_rel new Map.empty"
      "ucast (it_array_size new) = ?as" "(\<forall>n. a n) \<longrightarrow> (\<forall>n. a1 n)"
    obtain t' a' m' where "foldE reinsert_step ?xs (new, a1) = Inr (t', a')" "int_rel t' m'"
      "it_array_size t' = it_array_size new" "m' \<subseteq>\<^sub>m Map.empty ++ map_of ?xs"
      "(\<forall>n. a1 n) \<and> card (dom (Map.empty :: u64 \<Rightarrow> u64 option)) + length ?xs < 2 ^ 30 \<longrightarrow> m' = Map.empty ++ map_of ?xs"
      using reinsert_ok[OF i(2) X(1), of a1] by auto
    then show ?thesis
      unfolding run using i X(2) n few by (intro exI[of _ True] exI[of _ t'] exI[of _ a'] exI[of _ m']) auto
  qed
qed

end
