(* ===== verification/Int_Props.thy ===== *)
theory Int_Props
  imports Int_Compact
begin

text \<open>Properties of the integer table.\<close>

lemma items_run: "foldE (\<lambda>k v xs. Inr (xs @ [(k, v)])) ys xs = Inr (xs @ ys)"
  by (induction ys arbitrary: xs) auto

text \<open>
  C8: An integer table is a map from 64-bit keys. Whatever calls are made on a table from
  \<open>upb_inttable_sizedinit\<close> with an array part of at most 2^31 places, and wherever memory runs out, no call
  faults, every lookup, removal and count returns what a map with the same history holds, and an
  iteration then visits every key of that map once, with its value.
\<close>

theorem inttable_is_a_map:
  assumes "upb_inttable_sizedinit asize lg a = (Some t, a')" "unat asize \<le> 2 ^ 31"
  shows "\<exists>rs t' a'' m xs.
    tab_run (tab_step upb_inttable_insert upb_inttable_lookup upb_inttable_remove upb_inttable_clear
      upb_inttable_count) t a' cs = Inr (rs, t', a'') \<and>
    explains Map.empty cs rs = Some m \<and>
    inttable_foreach (inttable_fuel t') t' (- 1) (\<lambda>k v xs. Inr (xs @ [(k, v)])) [] = Inr xs \<and>
    distinct (map fst xs) \<and> map_of xs = m"
proof -
  from it.run_refines[OF int_init_rel(1)[OF assms] calls_valid_True, of a' cs]
  obtain rs t' a'' m where "tab_run (tab_step upb_inttable_insert upb_inttable_lookup upb_inttable_remove
      upb_inttable_clear upb_inttable_count) t a' cs = Inr (rs, t', a'')"
    "explains Map.empty cs rs = Some m" "int_rel t' m" by blast
  with items_at_map[of t' m] show ?thesis by (auto simp: foreach_items items_run)
qed

theorem inttable_is_a_map_witness:
  "\<exists>t a' rs t' a'' m xs. upb_inttable_sizedinit 2 3 (\<lambda>_. True) = (Some t, a') \<and>
    tab_run (tab_step upb_inttable_insert upb_inttable_lookup upb_inttable_remove upb_inttable_clear
      upb_inttable_count) t a' [Put 0 3, Put 9 4, Put 17 5, Remove 9, Look 17, Count] = Inr (rs, t', a'') \<and>
    explains Map.empty [Put 0 3, Put 9 4, Put 17 5, Remove 9, Look 17, Count] rs = Some m \<and>
    inttable_foreach (inttable_fuel t') t' (- 1) (\<lambda>k v xs. Inr (xs @ [(k, v)])) [] = Inr xs \<and>
    distinct (map fst xs) \<and> map_of xs = m"
proof -
  obtain t a' where t: "upb_inttable_sizedinit 2 3 (\<lambda>_. True) = (Some t, a')"
    by (simp add: upb_inttable_sizedinit_def table_init_def Let_def)
  show ?thesis
    using t inttable_is_a_map[OF t, of "[Put 0 3, Put 9 4, Put 17 5, Remove 9, Look 17, Count]"] by auto
qed

text \<open>
  C9: Compaction keeps the map. For a table of fewer than 2^30 values whose keys are below 2^31,
  \<open>upb_inttable_compact\<close> neither trips an assertion nor loses a value when memory is there: every lookup
  returns what it returned before.
\<close>

theorem inttable_compact_keeps_values:
  assumes "int_rel t m" "\<And>k. m k \<noteq> None \<Longrightarrow> unat k < 2 ^ 31" "card (dom m) < 2 ^ 30" "\<And>n. a n"
  shows "\<exists>t' a'. upb_inttable_compact t a = Inr (True, t', a') \<and>
    (\<forall>k. upb_inttable_lookup t' k = upb_inttable_lookup t k)"
proof -
  obtain ok t' a' m' where c: "upb_inttable_compact t a = Inr (ok, t', a')" "int_rel t' m'" "ok \<and> m' = m"
    using compact_ok[OF assms(1,2,3), of a] assms(4) by blast
  then have "upb_inttable_lookup t' k = upb_inttable_lookup t k" for k
    using int_lookup_law[OF assms(1)] int_lookup_law[OF c(2)] by simp
  with c show ?thesis by auto
qed

theorem inttable_compact_keeps_values_witness:
  "\<exists>t t1 t' a a'. int_rel t Map.empty \<and> upb_inttable_insert t 40 7 (\<lambda>_. True) = Inr (True, t1, a) \<and>
    upb_inttable_compact t1 (\<lambda>_. True) = Inr (True, t', a') \<and>
    (\<forall>k. upb_inttable_lookup t' k = upb_inttable_lookup t1 k)"
proof -
  obtain t a0 where t: "upb_inttable_init (\<lambda>_. True) = (Some t, a0)"
    by (simp add: upb_inttable_init_def upb_inttable_sizedinit_def table_init_def Let_def)
  have r: "int_rel t Map.empty" "t_count (it_t t) = 0"
    using int_init_rel[OF t[unfolded upb_inttable_init_def]] by simp_all
  obtain t1 a1 where t1: "upb_inttable_insert t 40 7 (\<lambda>_. True) = Inr (True, t1, a1)" "int_rel t1 [40 \<mapsto> 7]"
    using int_insert_ok[OF r(1), of 40 7 "\<lambda>_. True"] r(2) by auto
  have "\<exists>t' a'. upb_inttable_compact t1 (\<lambda>_. True) = Inr (True, t', a') \<and>
      (\<forall>k. upb_inttable_lookup t' k = upb_inttable_lookup t1 k)"
    by (rule inttable_compact_keeps_values[OF t1(2)]) (auto split: if_splits)
  with r t1 show ?thesis by blast
qed

text \<open>
  C30: \<open>upb_inttable_replace\<close> overwrites the value of a key that is present and nothing else, and says
  whether it did.
\<close>

theorem inttable_replace_spec:
  assumes "int_rel t m"
  shows "\<exists>t'. upb_inttable_replace t k v = Inr (m k \<noteq> None, t') \<and>
    (\<forall>k'. upb_inttable_lookup t' k' = Inr (if k' = k \<and> m k \<noteq> None then Some v else m k'))"
  using int_replace_ok[OF assms, of k v] int_lookup_law by (auto split: if_splits)

theorem inttable_replace_spec_witness:
  "\<exists>t t'. int_rel t Map.empty \<and> upb_inttable_replace t 0 1 = Inr (False, t') \<and> upb_inttable_lookup t' 0 = Inr None"
proof -
  obtain t a0 where t: "upb_inttable_init (\<lambda>_. True) = (Some t, a0)"
    by (simp add: upb_inttable_init_def upb_inttable_sizedinit_def table_init_def Let_def)
  have "int_rel t Map.empty" using int_init_rel[OF t[unfolded upb_inttable_init_def]] by simp
  with inttable_replace_spec[OF this, of 0 1] show ?thesis by auto
qed

text \<open>
  C31: \<open>upb_inttable_removeiter\<close> does not remove a key of the array part: it overwrites the value but
  leaves the presence bit set, so a lookup still finds the key, now with the sentinel as its value.
\<close>

theorem inttable_removeiter_keeps_array_key:
  assumes "int_rel t m" "in_array t k" "m k \<noteq> None"
  shows "\<exists>t'. upb_inttable_removeiter t (int (unat k)) = Inr t' \<and>
    upb_inttable_lookup t' k = Inr (Some kInttableSentinel)"
proof -
  note R = int_relD[OF assms(1)]
  have h: "has_bit (it_presence_mask t) (unat k)" using assms(3) R(3)[OF assms(2)] by (simp add: array_map_def split: if_splits)
  have len: "unat k < length (it_array t)" using R(1) assms(2) by (simp add: int_shape_def in_array_nat)
  let ?t = "t\<lparr>it_array_count := it_array_count t - 1, it_array := (it_array t)[unat k := - 1]\<rparr>"
  have "int (unat k) mod 2 ^ 64 = int (unat k)" using unsigned_less[of k] by (intro mod_pos_pos_trivial) auto
  then have "iter_in_array t (int (unat k))" using assms(2) by (simp add: iter_in_array_def iter_size_def in_array_nat)
  then have "upb_inttable_removeiter t (int (unat k)) = Inr ?t" using len by (simp add: upb_inttable_removeiter_def)
  moreover have "upb_inttable_lookup ?t k = Inr (Some kInttableSentinel)"
  proof -
    have s: "int_shape ?t" "in_array ?t k" using R(1) assms(2) by (simp_all add: int_shape_def in_array_def)
    then show ?thesis using h len arrhas_ok[OF s]
      by (simp add: upb_inttable_lookup_def inttable_val_def inttable_array_get_def load_place_def kInttableSentinel_def)
  qed
  ultimately show ?thesis by blast
qed

theorem inttable_removeiter_keeps_array_key_witness:
  "\<exists>t t'. int_rel t [0 \<mapsto> 5] \<and> in_array t 0 \<and> upb_inttable_removeiter t 0 = Inr t' \<and>
    upb_inttable_lookup t' 0 = Inr (Some kInttableSentinel)"
proof -
  obtain t a0 where t: "upb_inttable_init (\<lambda>_. True) = (Some t, a0)"
    by (simp add: upb_inttable_init_def upb_inttable_sizedinit_def table_init_def Let_def)
  note I = int_init_rel[OF t[unfolded upb_inttable_init_def]]
  have "in_array t 0" using I(2) by (simp add: in_array_def)
  then obtain t1 where "int_rel t1 [0 \<mapsto> 5]" "in_array t1 0"
    using int_insert_array[OF I(1), of 0 5 "\<lambda>_. True"] by (auto simp: in_array_def)
  with inttable_removeiter_keeps_array_key[of t1 "[0 \<mapsto> 5]" 0] show ?thesis by auto
qed

text \<open>
  A table of eight entries in which the keys 1 and 9 share a chain, 1 at its head.
\<close>

definition two_keys :: "upb_inttable res" where
  "two_keys =
     (case upb_inttable_init (\<lambda>_. True) of
        (None, _) \<Rightarrow> Inl OutOfFuel
      | (Some t, a) \<Rightarrow>
          bindE (upb_inttable_insert t 1 10 a) (\<lambda>(_, t, a).
          bindE (upb_inttable_insert t 9 90 a) (\<lambda>(_, t, a). Inr t)))"


end
