(* ===== verification/Str_Table.thy ===== *)
theory Str_Table
  imports Hash_Load Wyhash
begin

text \<open>
  \<open>upb_strtable\<close>: the base table with string keys, its growth and its iterators. A size-prefixed string is
  its list of bytes; the 32-bit size in front is the length of the list, which \<open>upb_SizePrefixString_Copy\<close>
  bounds. Operations that may allocate thread the arena and return the C result with the new state.
\<close>

subsection \<open>Operations\<close>

type_synonym upb_SizePrefixString = "byte list"
type_synonym upb_strtable = "upb_SizePrefixString upb_table"

definition UINT32_MAX :: nat where
  "UINT32_MAX = 2 ^ 32 - 1"

definition upb_SizePrefixString_Copy :: "byte list \<Rightarrow> arena \<Rightarrow> upb_SizePrefixString option \<times> arena" where
  "upb_SizePrefixString_Copy s a =
     (if length s > UINT32_MAX then (None, a)
      else if a 0 then (Some s, \<lambda>n. a (Suc n)) else (None, \<lambda>n. a (Suc n)))"

definition upb_Hash_NoSeed :: "u64 \<Rightarrow> byte list \<Rightarrow> nat \<Rightarrow> u32 res" where
  "upb_Hash_NoSeed seed p n = upb_Hash p n seed"

definition strhash :: "u64 \<Rightarrow> upb_SizePrefixString hashfunc_t" where
  "strhash seed key val =
     (case key of None \<Rightarrow> Inl OutOfBounds | Some str \<Rightarrow> upb_Hash_NoSeed seed str (length str))"

definition streql :: "(upb_SizePrefixString, byte list) eqlfunc_t" where
  "streql k1 v1 k2 =
     (case k1 of
        None \<Rightarrow> Inl OutOfBounds
      | Some k1s \<Rightarrow>
          Inr (length k1s = length k2 \<and>
            (length k1s = 0 \<or> take (length k1s) k1s = take (length k1s) k2)))"

definition upb_strtable_init :: "u64 \<Rightarrow> arena \<Rightarrow> (upb_strtable option \<times> arena) res" where
  "upb_strtable_init expected_size a =
     bindE (entries_needed_for expected_size) (\<lambda>n.
       Inr (table_init (upb_Log2Ceiling (unat n) mod 256) a))"

definition upb_strtable_clear :: "upb_strtable \<Rightarrow> upb_strtable" where
  "upb_strtable_clear t = table_clear t"

definition upb_strtable_count :: "upb_strtable \<Rightarrow> nat" where
  "upb_strtable_count t = unat (t_count t)"

definition upb_strtable_next2 :: "upb_strtable \<Rightarrow> int \<Rightarrow> (byte list \<times> u64 \<times> int) option res" where
  "upb_strtable_next2 t iter =
     (let tab_idx = table_next t iter
      in if tab_idx < int (upb_table_size t) then
           bindE (ent_at t (nat tab_idx)) (\<lambda>ent. case te_key ent of
             None \<Rightarrow> Inl OutOfBounds
           | Some key \<Rightarrow> Inr (Some (key, te_val ent, tab_idx)))
         else Inr None)"

primrec strtable_resize_loop ::
    "nat \<Rightarrow> u64 \<Rightarrow> upb_strtable \<Rightarrow> upb_strtable \<Rightarrow> int \<Rightarrow> upb_strtable res" where
  "strtable_resize_loop 0 seed t new_table iter = Inl OutOfFuel"
| "strtable_resize_loop (Suc fuel) seed t new_table iter =
     bindE (upb_strtable_next2 t iter) (\<lambda>r. case r of
       None \<Rightarrow> Inr new_table
     | Some (sv, val, iter) \<Rightarrow>
         bindE (upb_Hash_NoSeed seed sv (length sv)) (\<lambda>hash.
         bindE (table_insert new_table sv (Some sv) val hash (strhash seed) streql) (\<lambda>new_table.
           strtable_resize_loop fuel seed t new_table iter)))"

definition upb_strtable_resize ::
    "u64 \<Rightarrow> upb_strtable \<Rightarrow> nat \<Rightarrow> arena \<Rightarrow> (bool \<times> upb_strtable \<times> arena) res" where
  "upb_strtable_resize seed t size_lg2 a =
     (case table_init (size_lg2 mod 256) a of
        (None, a) \<Rightarrow> Inr (False, t, a)
      | (Some new_table, a) \<Rightarrow>
          bindE (strtable_resize_loop (Suc (upb_table_size t)) seed t new_table (- 1)) (\<lambda>new_table.
            Inr (True, new_table, a)))"

definition upb_strtable_insert ::
    "u64 \<Rightarrow> upb_strtable \<Rightarrow> byte list \<Rightarrow> u64 \<Rightarrow> arena \<Rightarrow> (bool \<times> upb_strtable \<times> arena) res" where
  "upb_strtable_insert seed t k v a =
     bindE (if isfull t then upb_strtable_resize seed t (upb_log2_table_size t + 1) a
            else Inr (True, t, a)) (\<lambda>(ok, t, a).
       if \<not> ok then Inr (False, t, a)
       else case upb_SizePrefixString_Copy k a of
         (None, a) \<Rightarrow> Inr (False, t, a)
       | (Some size_prefix_string, a) \<Rightarrow>
           bindE (upb_Hash_NoSeed seed k (length k)) (\<lambda>hash.
           bindE (table_insert t k (Some size_prefix_string) v hash (strhash seed) streql) (\<lambda>t.
             Inr (True, t, a))))"

definition upb_strtable_lookup2 :: "u64 \<Rightarrow> upb_strtable \<Rightarrow> byte list \<Rightarrow> u64 option res" where
  "upb_strtable_lookup2 seed t key =
     bindE (upb_Hash_NoSeed seed key (length key)) (\<lambda>hash. table_lookup t key hash streql)"

definition upb_strtable_remove2 ::
    "u64 \<Rightarrow> upb_strtable \<Rightarrow> byte list \<Rightarrow> (u64 option \<times> upb_strtable) res" where
  "upb_strtable_remove2 seed t key =
     bindE (upb_Hash_NoSeed seed key (length key)) (\<lambda>hash. table_rm t key hash streql)"

definition upb_strtable_removeiter :: "upb_strtable \<Rightarrow> int \<Rightarrow> upb_strtable res" where
  "upb_strtable_removeiter t iter = (if iter < 0 then Inl OutOfBounds else table_removeiter t (nat iter))"

definition upb_strtable_setentryvalue :: "upb_strtable \<Rightarrow> int \<Rightarrow> u64 \<Rightarrow> upb_strtable res" where
  "upb_strtable_setentryvalue t iter v =
     (if iter < 0 then Inl OutOfBounds
      else bindE (ent_at t (nat iter)) (\<lambda>e. set_ent t (nat iter) (e\<lparr>te_val := v\<rparr>)))"

text \<open>The older iterator. Its table may be NULL.\<close>

record upb_strtable_iter =
  i_t :: "upb_strtable option"
  i_index :: int

definition upb_strtable_begin :: "upb_strtable \<Rightarrow> upb_strtable_iter" where
  "upb_strtable_begin t = \<lparr>i_t = Some t, i_index = table_begin t\<rparr>"

definition upb_strtable_next :: "upb_strtable_iter \<Rightarrow> upb_strtable_iter res" where
  "upb_strtable_next i =
     (case i_t i of None \<Rightarrow> Inl OutOfBounds | Some t \<Rightarrow> Inr (i\<lparr>i_index := table_next t (i_index i)\<rparr>))"

definition upb_strtable_done :: "upb_strtable_iter \<Rightarrow> bool res" where
  "upb_strtable_done i =
     (case i_t i of
        None \<Rightarrow> Inr True
      | Some t \<Rightarrow>
          if i_index i \<ge> int (upb_table_size t) then Inr True
          else bindE (ent_at t (nat (i_index i))) (\<lambda>e. Inr (upb_tabent_isempty e)))"

definition upb_strtable_iter_key :: "upb_strtable_iter \<Rightarrow> byte list res" where
  "upb_strtable_iter_key i =
     bindE (upb_strtable_done i) (\<lambda>d.
     bindE (assertE (\<not> d)) (\<lambda>_. case i_t i of
       None \<Rightarrow> Inl OutOfBounds
     | Some t \<Rightarrow>
         bindE (ent_at t (nat (i_index i))) (\<lambda>e.
           case te_key e of None \<Rightarrow> Inl OutOfBounds | Some k \<Rightarrow> Inr k)))"

definition upb_strtable_iter_value :: "upb_strtable_iter \<Rightarrow> u64 res" where
  "upb_strtable_iter_value i =
     bindE (upb_strtable_done i) (\<lambda>d.
     bindE (assertE (\<not> d)) (\<lambda>_. case i_t i of
       None \<Rightarrow> Inl OutOfBounds
     | Some t \<Rightarrow> bindE (ent_at t (nat (i_index i))) (\<lambda>e. Inr (te_val e))))"

definition upb_strtable_iter_setdone :: "upb_strtable_iter \<Rightarrow> upb_strtable_iter" where
  "upb_strtable_iter_setdone i = \<lparr>i_t = None, i_index = int SIZE_MAX\<rparr>"

subsection \<open>The table is a map from strings\<close>

interpretation sk: hash_keys "\<lambda>k v. k" "hash_of seed" "strhash seed" streql for seed
proof
  show "strhash seed (Some k) v = Inr (hash_of seed k)" for k v
    by (simp add: strhash_def upb_Hash_NoSeed_def upb_Hash_hash_of)
  show "streql (Some k) v l = Inr (k = l)" for k l :: "byte list" and v
    by (auto simp: streql_def)
qed

definition str_rel :: "u64 \<Rightarrow> upb_strtable \<Rightarrow> (byte list \<Rightarrow> u64 option) \<Rightarrow> bool" where
  "str_rel seed t m \<longleftrightarrow> sk.map_rel seed t m"

lemma strhash_simps [simp]:
  "strhash seed None v = Inl OutOfBounds" "strhash seed (Some s) v = upb_Hash_NoSeed seed s (length s)"
  by (simp_all add: strhash_def)

lemma strtable_resize_loop_eq:
  "strtable_resize_loop fuel seed t new iter =
     rehash_loop fuel t new (table_next t iter)
       (\<lambda>k v. case k of None \<Rightarrow> Inl OutOfBounds | Some s \<Rightarrow> Inr s) (strhash seed) streql"
proof (induction fuel arbitrary: new iter)
  case (Suc fuel)
  show ?case
    by (cases "ent_at t (nat (table_next t iter))")
      (auto simp: upb_strtable_next2_def Let_def Suc.IH bindE_assoc split: option.splits)
qed simp

lemma str_resize_double:
  assumes "str_rel seed t m" "isfull t"
  shows "\<exists>ok t' a'. upb_strtable_resize seed t (upb_log2_table_size t + 1) a = Inr (ok, t', a') \<and> str_rel seed t' m \<and>
    (ok \<longrightarrow> \<not> isfull t') \<and> (unat (t_count t) < 2 ^ 30 \<and> a 0 \<longrightarrow> ok \<and> a' = (\<lambda>n. a (Suc n)))"
proof -
  have rel: "sk.map_rel seed t m" using assms(1) by (simp add: str_rel_def)
  obtain k where k: "k < 32" "t_mask t = 2 ^ k - 1" "length (entries t) = 2 ^ k"
    using sk.map_relD(2)[OF rel] by (auto simp: tab_shape_def)
  then have lk: "upb_log2_table_size t = k" using log2_table_size[of t k] by simp
  then have lg: "(upb_log2_table_size t + 1) mod 256 = upb_log2_table_size t + 1" using k(1) by simp
  have small: "k < 31" if "unat (t_count t) < 2 ^ 30"
  proof (rule ccontr)
    assume "\<not> k < 31"
    then have "k = 31" using k(1) by simp
    then show False
      using that isfull_iff[OF sk.map_relD(2)[OF rel]] assms(2) k(3) by (simp add: load_limit_def)
  qed
  show ?thesis
  proof (cases "table_init (upb_log2_table_size t + 1) a :: upb_strtable option \<times> arena")
    case (Pair new a')
    show ?thesis
    proof (cases new)
      case None
      have "upb_strtable_resize seed t (upb_log2_table_size t + 1) a = Inr (False, t, a')"
        unfolding upb_strtable_resize_def lg using Pair None by simp
      then show ?thesis using assms(1) small table_init_arena(1)[OF Pair[unfolded None]] lk by auto
    next
      case (Some n)
      have "\<exists>new'. strtable_resize_loop (Suc (upb_table_size t)) seed t n (- 1) = Inr new' \<and> sk.map_rel seed new' m \<and>
          \<not> isfull new' \<and> t_count new' = t_count t"
        unfolding strtable_resize_loop_eq table_begin_def[symmetric]
        by (rule sk.map_rel_double[OF rel assms(2) _ Pair[unfolded Some]]) simp
      then show ?thesis
        using Pair Some table_init_arena(2)[OF Pair[unfolded Some]] unfolding upb_strtable_resize_def lg
        by (auto simp: str_rel_def)
    qed
  qed
qed

lemma str_hash: "upb_Hash_NoSeed seed k (length k) = Inr (hash_of seed k)"
  by (simp add: upb_Hash_NoSeed_def upb_Hash_hash_of)

lemma str_insert_room:
  assumes "str_rel seed t m" "\<not> isfull t" "m k = None"
  shows "\<exists>t'. table_insert t k (Some k) v (hash_of seed k) (strhash seed) streql = Inr t' \<and> str_rel seed t' (m(k \<mapsto> v))"
  using sk.map_rel_insert[of seed t m k k v] assms by (auto simp: str_rel_def)

lemma str_insert_law:
  assumes "str_rel seed t m" "m k = None"
  shows "\<exists>ok t' a'. upb_strtable_insert seed t k v a = Inr (ok, t', a') \<and> str_rel seed t' (if ok then m(k \<mapsto> v) else m)"
proof -
  have "\<exists>ok t1 a1. (if isfull t then upb_strtable_resize seed t (upb_log2_table_size t + 1) a else Inr (True, t, a)) =
      Inr (ok, t1, a1) \<and> str_rel seed t1 m \<and> (ok \<longrightarrow> \<not> isfull t1)"
    using str_resize_double[OF assms(1), of a] assms(1) by auto
  then obtain ok t1 a1 where 1: "(if isfull t then upb_strtable_resize seed t (upb_log2_table_size t + 1) a
      else Inr (True, t, a)) = Inr (ok, t1, a1)" "str_rel seed t1 m" "ok \<Longrightarrow> \<not> isfull t1" by blast
  show ?thesis
  proof (cases "ok \<and> length k \<le> UINT32_MAX \<and> a1 0")
    case True
    then obtain t' where "table_insert t1 k (Some k) v (hash_of seed k) (strhash seed) streql = Inr t'"
        "str_rel seed t' (m(k \<mapsto> v))" using str_insert_room[OF 1(2,3) assms(2)] by blast
    then show ?thesis
      unfolding upb_strtable_insert_def 1(1) using True
      by (auto simp: upb_SizePrefixString_Copy_def str_hash)
  next
    case False
    then show ?thesis
      unfolding upb_strtable_insert_def 1(1) using 1(2) by (auto simp: upb_SizePrefixString_Copy_def)
  qed
qed

interpretation st: map_table "str_rel seed" "\<lambda>l v. True" "upb_strtable_insert seed" "upb_strtable_lookup2 seed"
  "upb_strtable_remove2 seed" upb_strtable_clear upb_strtable_count for seed
proof
  fix t m and l :: "byte list" and v a assume r: "str_rel seed t m"
  show "m l = None \<Longrightarrow> \<exists>ok t' a'. upb_strtable_insert seed t l v a = Inr (ok, t', a') \<and>
      str_rel seed t' (if ok then m(l \<mapsto> v) else m)" using str_insert_law[OF r] .
  show "upb_strtable_lookup2 seed t l = Inr (m l)"
    using r sk.map_rel_lookup by (simp add: upb_strtable_lookup2_def str_hash str_rel_def)
  show "\<exists>t'. upb_strtable_remove2 seed t l = Inr (m l, t') \<and> str_rel seed t' (m(l := None))"
    using r sk.map_rel_remove by (simp add: upb_strtable_remove2_def str_hash str_rel_def)
  show "str_rel seed (upb_strtable_clear t) Map.empty"
    using r sk.map_rel_clear by (simp add: upb_strtable_clear_def str_rel_def)
  show "upb_strtable_count t = card (dom m)"
    using sk.tab_rel_card[OF sk.map_relD(1)] r by (simp add: upb_strtable_count_def str_rel_def)
qed

subsection \<open>Creation, growth and iteration\<close>

lemma str_init_rel: "upb_strtable_init n a = Inr (Some t, a') \<Longrightarrow> str_rel seed t Map.empty"
  using sk.map_rel_init[of "upb_Log2Ceiling (unat k) mod 256" for k]
  by (auto simp: upb_strtable_init_def bindE_eq_Inr str_rel_def)

text \<open>The loop of a client over a whole table, as the header documents it.\<close>

primrec strtable_items :: "nat \<Rightarrow> upb_strtable \<Rightarrow> int \<Rightarrow> (byte list \<times> u64) list res" where
  "strtable_items 0 t iter = Inl OutOfFuel"
| "strtable_items (Suc fuel) t iter =
     bindE (upb_strtable_next2 t iter) (\<lambda>r. case r of
       None \<Rightarrow> Inr []
     | Some (key, val, iter) \<Rightarrow>
         bindE (strtable_items fuel t iter) (\<lambda>xs. Inr ((key, val) # xs)))"

lemma strtable_items_from:
  assumes "tab_shape t" "n \<le> length (entries t)" "length (entries t) < n + fuel"
  shows "strtable_items fuel t (int n - 1) = Inr (sk.items_from t n)"
  using assms(2,3)
proof (induction fuel arbitrary: n)
  case (Suc fuel)
  show ?case
  proof (cases rule: table_next_cases[OF assms(1), of n, case_names entry stop])
    case (entry j)
    then obtain k where k: "te_key (entries t ! j) = Some k" by auto
    then have l: "sk.lkey (entries t ! j) = Some k" by (simp add: sk.lkey_def)
    have "strtable_items fuel t (int (Suc j) - 1) = Inr (sk.items_from t (Suc j))"
      using entry(2,3) Suc.prems by (intro Suc.IH) auto
    then show ?thesis
      using entry(1,3) k tab_shape_mask(2)[OF assms(1)] sk.items_from_entry[OF entry(2,3) l entry(5)]
      by (simp add: upb_strtable_next2_def)
  next
    case stop
    then show ?thesis
      using tab_shape_mask(2)[OF assms(1)] sk.items_from_stop[OF stop(3)]
      by (simp add: upb_strtable_next2_def)
  qed
qed simp

lemma strtable_items_ok:
  assumes "str_rel seed t m"
  shows "\<exists>xs. strtable_items (Suc (upb_table_size t)) t (- 1) = Inr xs \<and> distinct (map fst xs) \<and> map_of xs = m"
proof -
  have r: "sk.map_rel seed t m" using assms by (simp add: str_rel_def)
  note sh = sk.map_relD(2)[OF r]
  show ?thesis
    using strtable_items_from[OF sh, of 0 "Suc (upb_table_size t)"] sk.items_map[OF sk.map_relD(1)[OF r]]
      tab_shape_mask(2)[OF sh] by simp
qed

lemma str_init_room:
  assumes "unat n \<le> 2 ^ 30" "a 0"
  shows "\<exists>t a'. upb_strtable_init n a = Inr (Some t, a') \<and> t_count t = 0 \<and> unat n \<le> load_limit (length (entries t))"
proof -
  obtain k where k: "entries_needed_for n = Inr k" "unat k = unat n + 1 + unat n div 7" "unat n \<le> load_limit (unat k)"
    using entries_needed_ok[of n] assms(1) by fastforce
  let ?l = "upb_Log2Ceiling (unat k)"
  have "unat k \<le> 2 ^ 31" using k(2) assms(1) by simp
  then have l: "?l < 32" using Log2Ceiling_le[of "unat k" 31] by simp
  obtain t :: upb_strtable and a' where t: "table_init ?l a = (Some t, a')" using l assms(2) by (auto simp: table_init_def Let_def)
  note T = sk.table_init_ok[OF t]
  have "unat n \<le> load_limit (length (entries t))"
    using k(3) load_limit_mono[OF Log2Ceiling_upper[of "unat k"]] T(2) by simp
  then show ?thesis using k(1) t T(5) l by (simp add: upb_strtable_init_def)
qed

lemma str_insert_ok:
  assumes "str_rel seed t m" "m k = None" "length k \<le> UINT32_MAX" "unat (t_count t) < 2 ^ 30" "a 0" "a 1"
  shows "\<exists>t' a'. upb_strtable_insert seed t k v a = Inr (True, t', a') \<and> str_rel seed t' (m(k \<mapsto> v))"
proof -
  obtain ok t' a' where i: "upb_strtable_insert seed t k v a = Inr (ok, t', a')"
    "str_rel seed t' (if ok then m(k \<mapsto> v) else m)" using str_insert_law[OF assms(1,2)] by blast
  have "\<exists>t1 a1. (if isfull t then upb_strtable_resize seed t (upb_log2_table_size t + 1) a else Inr (True, t, a)) =
      Inr (True, t1, a1) \<and> a1 0"
    using str_resize_double[OF assms(1), of a] assms(4-6) by auto
  then have "ok" using i(1) assms(3)
    by (auto simp: upb_strtable_insert_def upb_SizePrefixString_Copy_def bindE_eq_Inr)
  with i show ?thesis by auto
qed

text \<open>
  C7: A string table is a map from byte strings. Whatever calls are made on a table from
  \<open>upb_strtable_init\<close>, and wherever memory runs out, no call faults, every lookup, removal and count
  returns what a map with the same history holds, and an iteration then visits every key of that map
  once, with its value.
\<close>

theorem strtable_is_a_map:
  assumes "upb_strtable_init n a = Inr (Some t, a')"
  shows "\<exists>rs t' a'' m xs.
    tab_run (tab_step (upb_strtable_insert seed) (upb_strtable_lookup2 seed) (upb_strtable_remove2 seed)
      upb_strtable_clear upb_strtable_count) t a' cs = Inr (rs, t', a'') \<and>
    explains Map.empty cs rs = Some m \<and>
    strtable_items (Suc (upb_table_size t')) t' (- 1) = Inr xs \<and> distinct (map fst xs) \<and> map_of xs = m"
proof -
  from st.run_refines[OF str_init_rel[OF assms] calls_valid_True, of seed a' cs]
  obtain rs t' a'' m where "tab_run (tab_step (upb_strtable_insert seed) (upb_strtable_lookup2 seed)
      (upb_strtable_remove2 seed) upb_strtable_clear upb_strtable_count) t a' cs = Inr (rs, t', a'')"
    "explains Map.empty cs rs = Some m" "str_rel seed t' m"
    by blast
  with strtable_items_ok[of seed t' m] show ?thesis by blast
qed

theorem strtable_is_a_map_witness:
  "\<exists>t a' rs t' a'' m xs. upb_strtable_init 4 (\<lambda>n. n < 2) = Inr (Some t, a') \<and>
    tab_run (tab_step (upb_strtable_insert 7) (upb_strtable_lookup2 7) (upb_strtable_remove2 7)
      upb_strtable_clear upb_strtable_count) t a' [Put [1, 2] 3, Put [] 4, Look [1, 2], Remove []] = Inr (rs, t', a'') \<and>
    explains Map.empty [Put [1, 2] 3, Put [] 4, Look [1, 2], Remove []] rs = Some m \<and>
    strtable_items (Suc (upb_table_size t')) t' (- 1) = Inr xs \<and> distinct (map fst xs) \<and> map_of xs = m"
proof -
  obtain t a' where t: "upb_strtable_init 4 (\<lambda>n. n < 2) = Inr (Some t, a')"
    using str_init_room[of 4 "\<lambda>n. n < 2"] by auto
  show ?thesis using t strtable_is_a_map[OF t, of 7 "[Put [1, 2] 3, Put [] 4, Look [1, 2], Remove []]"] by blast
qed

text \<open>
  C27: An insertion succeeds whenever the arena does: with memory for the grown table and for the copy of the
  key, a string of at most 4 GiB is inserted in every table of fewer than 2^30 values.
\<close>

theorem strtable_insert_succeeds:
  assumes "str_rel seed t m" "m k = None" "length k \<le> UINT32_MAX" "unat (t_count t) < 2 ^ 30" "a 0" "a 1"
  shows "\<exists>t' a'. upb_strtable_insert seed t k v a = Inr (True, t', a') \<and> str_rel seed t' (m(k \<mapsto> v))"
  using str_insert_ok[OF assms] .

theorem strtable_insert_succeeds_witness:
  "\<exists>t t' a'. str_rel 7 t Map.empty \<and> unat (t_count t) < 2 ^ 30 \<and>
    upb_strtable_insert 7 t [0x61] 5 (\<lambda>n. n < 2) = Inr (True, t', a') \<and> str_rel 7 t' [[0x61] \<mapsto> 5]"
proof -
  obtain t a' where t: "upb_strtable_init 4 (\<lambda>n. True) = Inr (Some t, a')" "t_count t = 0"
    using str_init_room[of 4 "\<lambda>n. True"] by auto
  note r = str_init_rel[OF t(1), of 7]
  have "\<exists>t' a'. upb_strtable_insert 7 t [0x61] 5 (\<lambda>n. n < 2) = Inr (True, t', a') \<and> str_rel 7 t' [[0x61] \<mapsto> 5]"
    using t(2) by (intro strtable_insert_succeeds[OF r]) (simp_all add: UINT32_MAX_def)
  then show ?thesis using r t(2) by force
qed

text \<open>
  C28: A table made for an expected number of values holds that many before it is full: \<open>upb_strtable_init\<close>
  allocates entries whose load limit is at least \<open>expected_size\<close>.
\<close>

theorem strtable_init_capacity:
  assumes "unat n \<le> 2 ^ 30" "a 0"
  shows "\<exists>t a'. upb_strtable_init n a = Inr (Some t, a') \<and> t_count t = 0 \<and> unat n \<le> load_limit (length (entries t))"
  by (rule str_init_room) fact+

theorem strtable_init_capacity_witness:
  "unat (1000 :: u64) \<le> 2 ^ 30 \<and>
   (\<exists>t a'. upb_strtable_init 1000 (\<lambda>n. n = 0) = Inr (Some t, a') \<and> t_count t = 0 \<and>
      unat (1000 :: u64) \<le> load_limit (length (entries t)))"
proof
  show "unat (1000 :: u64) \<le> 2 ^ 30" by simp
  show "\<exists>t a'. upb_strtable_init 1000 (\<lambda>n. n = 0) = Inr (Some t, a') \<and> t_count t = 0 \<and>
      unat (1000 :: u64) \<le> load_limit (length (entries t))"
    by (rule strtable_init_capacity) simp_all
qed

end
