(* ===== verification/Message_Map.thy ===== *)
theory Message_Map
  imports Str_Table Int_Compact Message_Model
begin

text \<open>
  Message maps on their tables: \<open>upb/message/internal/map.h\<close> and \<open>upb/message/map.c\<close>. The union of the two
  tables is a datatype, whose constructor is the flag \<open>is_strtable\<close>. A \<open>upb_MessageValue\<close> is a number,
  with the bytes of a scalar or a pointer, or a string. A string value is copied to a \<open>upb_StringView\<close> on
  the arena: \<open>m_views\<close> are these views, and the table holds their index. Operations that C gives a
  pointer to an uninitialised variable take its indeterminate contents as an argument.
\<close>

subsection \<open>State\<close>

datatype upb_MessageValue = NumVal u64 | StrVal "byte list"

datatype upb_Map_Table = StrTable upb_strtable | IntTable upb_inttable

datatype upb_MapInsertStatus = Inserted | Replaced | MapOutOfMemory

record upb_TMap =
  m_key_size :: nat
  m_val_size :: nat
  m_is_frozen :: bool
  m_t :: upb_Map_Table
  m_views :: "byte list list"

definition UPB_MAPTYPE_STRING :: nat where
  "UPB_MAPTYPE_STRING = 0"

subsection \<open>Keys and values\<close>

text \<open>The first \<open>n\<close> bytes of a number in memory.\<close>

definition num_bytes :: "nat \<Rightarrow> upb_MessageValue \<Rightarrow> u64 res" where
  "num_bytes n v = (case v of NumVal w \<Rightarrow> Inr (take_bit (8 * n) w) | StrVal _ \<Rightarrow> Inl Unreachable)"

definition str_view :: "upb_MessageValue \<Rightarrow> byte list res" where
  "str_view v = (case v of StrVal s \<Rightarrow> Inr s | NumVal _ \<Rightarrow> Inl Unreachable)"

definition map_tokey_view :: "upb_MessageValue \<Rightarrow> nat \<Rightarrow> byte list res" where
  "map_tokey_view key n =
     (if n = UPB_MAPTYPE_STRING then str_view key
      else bindE (num_bytes n key) (\<lambda>w. Inr (le_bytes n w)))"

definition upb_map_tointkey :: "upb_MessageValue \<Rightarrow> nat \<Rightarrow> u64 res" where
  "upb_map_tointkey key n = num_bytes n key"

definition upb_map_fromkey :: "byte list \<Rightarrow> nat \<Rightarrow> upb_MessageValue" where
  "upb_map_fromkey key n = (if n = UPB_MAPTYPE_STRING then StrVal key else NumVal (le_word (take n key)))"

text \<open>
  \<open>None\<close> is the \<open>false\<close> return. A pointer has 64 bits, so that no more views than that can be made.
\<close>

definition upb_map_tovalue ::
    "upb_MessageValue \<Rightarrow> nat \<Rightarrow> byte list list \<Rightarrow> arena \<Rightarrow> ((u64 \<times> byte list list) option \<times> arena) res" where
  "upb_map_tovalue val n views a =
     (if n = UPB_MAPTYPE_STRING then
        bindE (str_view val) (\<lambda>s.
          if a 0 \<and> length views < 2 ^ 64 - 1
          then Inr (Some (of_nat (length views), views @ [s]), \<lambda>n. a (Suc n))
          else Inr (None, \<lambda>n. a (Suc n)))
      else bindE (num_bytes n val) (\<lambda>w. Inr (Some (w, views), a)))"

definition upb_map_fromvalue :: "byte list list \<Rightarrow> u64 \<Rightarrow> nat \<Rightarrow> upb_MessageValue res" where
  "upb_map_fromvalue views val n =
     (if n = UPB_MAPTYPE_STRING then
        if unat val < length views then Inr (StrVal (views ! unat val)) else Inl OutOfBounds
      else Inr (NumVal (take_bit (8 * n) val)))"

subsection \<open>Operations of \<open>internal/map.h\<close>\<close>

definition Map_Clear_tab :: "upb_TMap \<Rightarrow> upb_TMap res" where
  "Map_Clear_tab mp =
     bindE (assertE (\<not> m_is_frozen mp)) (\<lambda>_.
       Inr (mp\<lparr>m_t := (case m_t mp of
         StrTable t \<Rightarrow> StrTable (upb_strtable_clear t)
       | IntTable t \<Rightarrow> IntTable (upb_inttable_clear t))\<rparr>))"

definition Map_Delete_tab :: "u64 \<Rightarrow> upb_TMap \<Rightarrow> upb_MessageValue \<Rightarrow> nat \<Rightarrow> (u64 option \<times> upb_TMap) res" where
  "Map_Delete_tab seed mp key n =
     bindE (assertE (\<not> m_is_frozen mp)) (\<lambda>_. case m_t mp of
       StrTable t \<Rightarrow>
         bindE (map_tokey_view key n) (\<lambda>k.
         bindE (upb_strtable_remove2 seed t k) (\<lambda>(v, t). Inr (v, mp\<lparr>m_t := StrTable t\<rparr>)))
     | IntTable t \<Rightarrow>
         bindE (upb_map_tointkey key n) (\<lambda>k.
         bindE (upb_inttable_remove t k) (\<lambda>(v, t). Inr (v, mp\<lparr>m_t := IntTable t\<rparr>))))"

definition Map_Get_tab ::
    "u64 \<Rightarrow> upb_TMap \<Rightarrow> upb_MessageValue \<Rightarrow> nat \<Rightarrow> nat \<Rightarrow> upb_MessageValue option res" where
  "Map_Get_tab seed mp key n vn =
     bindE (case m_t mp of
              StrTable t \<Rightarrow> bindE (map_tokey_view key n) (upb_strtable_lookup2 seed t)
            | IntTable t \<Rightarrow> bindE (upb_map_tointkey key n) (upb_inttable_lookup t)) (\<lambda>r. case r of
       None \<Rightarrow> Inr None
     | Some tabval \<Rightarrow> bindE (upb_map_fromvalue (m_views mp) tabval vn) (\<lambda>v. Inr (Some v)))"

definition Map_Insert_tab ::
    "u64 \<Rightarrow> upb_TMap \<Rightarrow> upb_MessageValue \<Rightarrow> nat \<Rightarrow> upb_MessageValue \<Rightarrow> nat \<Rightarrow> arena \<Rightarrow>
     (upb_MapInsertStatus \<times> upb_TMap \<times> arena) res" where
  "Map_Insert_tab seed mp key n val vn a =
     bindE (assertE (\<not> m_is_frozen mp)) (\<lambda>_.
     bindE (upb_map_tovalue val vn (m_views mp) a) (\<lambda>(r, a). case r of
       None \<Rightarrow> Inr (MapOutOfMemory, mp, a)
     | Some (tabval, views) \<Rightarrow>
         let mp = mp\<lparr>m_views := views\<rparr>;
             status = (\<lambda>removed. if removed \<noteq> None then Replaced else Inserted)
         in case m_t mp of
              StrTable t \<Rightarrow>
                bindE (map_tokey_view key n) (\<lambda>k.
                bindE (upb_strtable_remove2 seed t k) (\<lambda>(removed, t).
                bindE (upb_strtable_insert seed t k tabval a) (\<lambda>(ok, t, a).
                  Inr (if ok then status removed else MapOutOfMemory, mp\<lparr>m_t := StrTable t\<rparr>, a))))
            | IntTable t \<Rightarrow>
                bindE (upb_map_tointkey key n) (\<lambda>k.
                bindE (upb_inttable_remove t k) (\<lambda>(removed, t).
                bindE (upb_inttable_insert t k tabval a) (\<lambda>(ok, t, a).
                  Inr (if ok then status removed else MapOutOfMemory, mp\<lparr>m_t := IntTable t\<rparr>, a))))))"

definition Map_Size_tab :: "upb_TMap \<Rightarrow> nat" where
  "Map_Size_tab mp = (case m_t mp of
     StrTable t \<Rightarrow> unat (t_count t)
   | IntTable t \<Rightarrow> upb_inttable_count t)"

definition upb_map_next :: "upb_TMap \<Rightarrow> int \<Rightarrow> (bool \<times> int) res" where
  "upb_map_next mp iter = (case m_t mp of
     StrTable t \<Rightarrow>
       bindE (upb_strtable_next \<lparr>i_t = Some t, i_index = iter\<rparr>) (\<lambda>it.
       bindE (upb_strtable_done it) (\<lambda>d. Inr (\<not> d, i_index it)))
   | IntTable t \<Rightarrow>
       bindE (upb_inttable_next t iter) (\<lambda>(_, int_iter).
       bindE (upb_inttable_done t int_iter) (\<lambda>d. Inr (\<not> d, int_iter))))"

definition Map_New_tab :: "nat \<Rightarrow> nat \<Rightarrow> arena \<Rightarrow> (upb_TMap option \<times> arena) res" where
  "Map_New_tab ks vs a =
     (if \<not> a 0 then Inr (None, \<lambda>n. a (Suc n))
      else
        let a = (\<lambda>n. a (Suc n));
            mp = (\<lambda>t. \<lparr>m_key_size = ks, m_val_size = vs, m_is_frozen = False, m_t = t, m_views = []\<rparr>)
        in if ks \<le> 8 \<and> ks \<noteq> UPB_MAPTYPE_STRING then
             case upb_inttable_init a of
               (None, a) \<Rightarrow> Inr (None, a)
             | (Some t, a) \<Rightarrow> Inr (Some (mp (IntTable t)), a)
           else
             bindE (upb_strtable_init 4 a) (\<lambda>(r, a). case r of
               None \<Rightarrow> Inr (None, a)
             | Some t \<Rightarrow> Inr (Some (mp (StrTable t)), a)))"

subsection \<open>Operations of \<open>map.c\<close>\<close>

datatype upb_CType =
    CType_Bool | CType_Float | CType_Int32 | CType_UInt32 | CType_Enum | CType_Message
  | CType_Double | CType_Int64 | CType_UInt64 | CType_String | CType_Bytes

definition upb_Map_CTypeSize :: "upb_CType \<Rightarrow> nat" where
  "upb_Map_CTypeSize c = (case c of
     CType_Bool \<Rightarrow> 1 | CType_Float \<Rightarrow> 4 | CType_Int32 \<Rightarrow> 4 | CType_UInt32 \<Rightarrow> 4 | CType_Enum \<Rightarrow> 4
   | CType_Message \<Rightarrow> 8 | CType_Double \<Rightarrow> 8 | CType_Int64 \<Rightarrow> 8 | CType_UInt64 \<Rightarrow> 8
   | CType_String \<Rightarrow> UPB_MAPTYPE_STRING | CType_Bytes \<Rightarrow> UPB_MAPTYPE_STRING)"

definition Map_New_api :: "upb_CType \<Rightarrow> upb_CType \<Rightarrow> arena \<Rightarrow> (upb_TMap option \<times> arena) res" where
  "Map_New_api key_type value_type a =
     Map_New_tab (upb_Map_CTypeSize key_type) (upb_Map_CTypeSize value_type) a"

definition Map_Size_api :: "upb_TMap \<Rightarrow> nat" where
  "Map_Size_api mp = Map_Size_tab mp"

definition upb_Map_Get :: "u64 \<Rightarrow> upb_TMap \<Rightarrow> upb_MessageValue \<Rightarrow> upb_MessageValue option res" where
  "upb_Map_Get seed mp key = Map_Get_tab seed mp key (m_key_size mp) (m_val_size mp)"

definition upb_Map_GetMutable :: "u64 \<Rightarrow> upb_TMap \<Rightarrow> upb_MessageValue \<Rightarrow> upb_MessageValue option res" where
  "upb_Map_GetMutable seed mp key =
     bindE (assertE (m_val_size mp = 8)) (\<lambda>_. Map_Get_tab seed mp key (m_key_size mp) 8)"

definition upb_Map_Clear :: "upb_TMap \<Rightarrow> upb_TMap res" where
  "upb_Map_Clear mp = Map_Clear_tab mp"

definition Map_Insert_api ::
    "u64 \<Rightarrow> upb_TMap \<Rightarrow> upb_MessageValue \<Rightarrow> upb_MessageValue \<Rightarrow> arena \<Rightarrow>
     (upb_MapInsertStatus \<times> upb_TMap \<times> arena) res" where
  "Map_Insert_api seed mp key val a = Map_Insert_tab seed mp key (m_key_size mp) val (m_val_size mp) a"

definition upb_Map_Delete ::
    "u64 \<Rightarrow> u64 \<Rightarrow> upb_TMap \<Rightarrow> upb_MessageValue \<Rightarrow> bool \<Rightarrow> (bool \<times> upb_MessageValue option \<times> upb_TMap) res" where
  "upb_Map_Delete junk seed mp key want_val =
     bindE (Map_Delete_tab seed mp key (m_key_size mp)) (\<lambda>(r, mp).
       let v = (case r of None \<Rightarrow> junk | Some v \<Rightarrow> v)
       in bindE (if want_val then bindE (upb_map_fromvalue (m_views mp) v (m_val_size mp)) (\<lambda>x. Inr (Some x))
                 else Inr None) (\<lambda>out. Inr (r \<noteq> None, out, mp)))"

definition upb_Map_Next :: "upb_TMap \<Rightarrow> int \<Rightarrow> ((upb_MessageValue \<times> upb_MessageValue) option \<times> int) res" where
  "upb_Map_Next mp iter =
     bindE (case m_t mp of
              StrTable t \<Rightarrow>
                bindE (upb_strtable_next2 t iter) (\<lambda>r. case r of
                  None \<Rightarrow> Inr (None, iter)
                | Some (strkey, v, iter) \<Rightarrow> Inr (Some (upb_map_fromkey strkey (m_key_size mp), v), iter))
            | IntTable t \<Rightarrow>
                bindE (upb_inttable_next t iter) (\<lambda>(r, iter).
                  Inr (map_option (\<lambda>(k, v). (NumVal (take_bit (8 * m_key_size mp) k), v)) r, iter))) (\<lambda>(r, iter).
       case r of
         None \<Rightarrow> Inr (None, iter)
       | Some (key, v) \<Rightarrow>
           bindE (upb_map_fromvalue (m_views mp) v (m_val_size mp)) (\<lambda>val. Inr (Some (key, val), iter)))"

text \<open>The arena that this operation passes on is NULL.\<close>

definition upb_Map_SetEntryValue :: "upb_TMap \<Rightarrow> int \<Rightarrow> upb_MessageValue \<Rightarrow> upb_TMap res" where
  "upb_Map_SetEntryValue mp iter val =
     (if m_val_size mp = UPB_MAPTYPE_STRING then Inl OutOfBounds
      else
        bindE (num_bytes (m_val_size mp) val) (\<lambda>v. case m_t mp of
          StrTable t \<Rightarrow> bindE (upb_strtable_setentryvalue t iter v) (\<lambda>t. Inr (mp\<lparr>m_t := StrTable t\<rparr>))
        | IntTable t \<Rightarrow> bindE (upb_inttable_setentryvalue t iter v) (\<lambda>t. Inr (mp\<lparr>m_t := IntTable t\<rparr>))))"

definition upb_MapIterator_Next :: "upb_TMap \<Rightarrow> int \<Rightarrow> (bool \<times> int) res" where
  "upb_MapIterator_Next mp iter = upb_map_next mp iter"

definition upb_MapIterator_Done :: "upb_TMap \<Rightarrow> int \<Rightarrow> bool res" where
  "upb_MapIterator_Done mp iter =
     bindE (assertE (iter \<noteq> - 1)) (\<lambda>_. case m_t mp of
       StrTable t \<Rightarrow> upb_strtable_done \<lparr>i_t = Some t, i_index = iter\<rparr>
     | IntTable t \<Rightarrow> upb_inttable_done t iter)"

definition upb_MapIterator_Key :: "upb_TMap \<Rightarrow> int \<Rightarrow> upb_MessageValue res" where
  "upb_MapIterator_Key mp iter = (case m_t mp of
     StrTable t \<Rightarrow>
       bindE (upb_strtable_iter_key \<lparr>i_t = Some t, i_index = iter\<rparr>) (\<lambda>k.
         Inr (upb_map_fromkey k (m_key_size mp)))
   | IntTable t \<Rightarrow>
       bindE (upb_inttable_iter_key t iter) (\<lambda>k. Inr (NumVal (take_bit (8 * m_key_size mp) k))))"

definition upb_MapIterator_Value :: "upb_TMap \<Rightarrow> int \<Rightarrow> upb_MessageValue res" where
  "upb_MapIterator_Value mp iter =
     bindE (case m_t mp of
              StrTable t \<Rightarrow> upb_strtable_iter_value \<lparr>i_t = Some t, i_index = iter\<rparr>
            | IntTable t \<Rightarrow> upb_inttable_iter_value t iter) (\<lambda>v.
       upb_map_fromvalue (m_views mp) v (m_val_size mp))"

definition Map_ShallowFreeze :: "upb_TMap \<Rightarrow> upb_TMap" where
  "Map_ShallowFreeze mp = mp\<lparr>m_is_frozen := True\<rparr>"

definition upb_Map_IsFrozen :: "upb_TMap \<Rightarrow> bool" where
  "upb_Map_IsFrozen mp = m_is_frozen mp"

end
