(* ===== verification/Message_Array.thy ===== *)
theory Message_Array
  imports Message_Map
begin

text \<open>
  Repeated fields: \<open>upb/message/array.c\<close> and \<open>upb/message/internal/array.h\<close>. An array is a tagged pointer,
  whose low bits hold the element size and the frozen flag, the bytes it points to, its size and its
  capacity. An allocation is one answer of the arena: a pointer and the indeterminate bytes behind it,
  or NULL. Arena pointers are multiples of 8 (\<open>UPB_MALLOC_ALIGN\<close>). A \<open>upb_MessageValue\<close> is its 16 bytes.
\<close>

subsection \<open>State\<close>

record upb_Array =
  ar_data :: u64
  ar_mem :: "byte list"
  ar_size :: u64
  ar_capacity :: u64

type_synonym mem_arena = "nat \<Rightarrow> (u64 \<times> (nat \<Rightarrow> byte)) option"

definition UPB_ARRAY_MASK_LG2 :: u64 where
  "UPB_ARRAY_MASK_LG2 = 3"

definition UPB_ARRAY_MASK_IMM :: u64 where
  "UPB_ARRAY_MASK_IMM = 4"

definition UPB_ARRAY_MASK_ALL :: u64 where
  "UPB_ARRAY_MASK_ALL = UPB_ARRAY_MASK_LG2 OR UPB_ARRAY_MASK_IMM"

subsection \<open>Operations of \<open>internal/array.h\<close>\<close>

definition Array_ShallowFreeze :: "upb_Array \<Rightarrow> upb_Array" where
  "Array_ShallowFreeze arr = arr\<lparr>ar_data := ar_data arr OR UPB_ARRAY_MASK_IMM\<rparr>"

definition upb_Array_IsFrozen :: "upb_Array \<Rightarrow> bool" where
  "upb_Array_IsFrozen arr \<longleftrightarrow> ar_data arr AND UPB_ARRAY_MASK_IMM \<noteq> 0"

definition Array_SetTaggedPtr :: "upb_Array \<Rightarrow> u64 \<Rightarrow> nat \<Rightarrow> upb_Array res" where
  "Array_SetTaggedPtr arr data lg2 =
     bindE (assertE (lg2 \<noteq> 1 \<and> lg2 \<le> 4)) (\<lambda>_.
       let bits = of_nat (lg2 - (if lg2 \<noteq> 0 then 1 else 0)) :: u64
       in Inr (arr\<lparr>ar_data := data OR bits\<rparr>))"

definition Array_ElemSizeLg2 :: "upb_Array \<Rightarrow> nat" where
  "Array_ElemSizeLg2 arr =
     (let bits = unat (ar_data arr AND UPB_ARRAY_MASK_LG2) in bits + (if bits \<noteq> 0 then 1 else 0))"

definition upb_Array_DataPtr :: "upb_Array \<Rightarrow> u64" where
  "upb_Array_DataPtr arr = ar_data arr AND NOT UPB_ARRAY_MASK_ALL"

definition upb_Array_Size :: "upb_Array \<Rightarrow> u64" where
  "upb_Array_Size arr = ar_size arr"

definition upb_Array_Capacity :: "upb_Array \<Rightarrow> u64" where
  "upb_Array_Capacity arr = ar_capacity arr"

definition Array_New :: "mem_arena \<Rightarrow> u64 \<Rightarrow> nat \<Rightarrow> (upb_Array option \<times> mem_arena) res" where
  "Array_New a init_capacity lg2 =
     bindE (assertE (lg2 \<noteq> 1 \<and> lg2 \<le> 4)) (\<lambda>_. case a 0 of
       None \<Rightarrow> Inr (None, \<lambda>n. a (Suc n))
     | Some (p, junk) \<Rightarrow>
         bindE (Array_SetTaggedPtr
                  \<lparr>ar_data = 0, ar_mem = map junk [24..<unat (24 + push_bit lg2 init_capacity)], ar_size = 0,
                   ar_capacity = init_capacity\<rparr> (p + 24) lg2) (\<lambda>arr.
           Inr (Some arr, \<lambda>n. a (Suc n))))"

definition upb_ShlOverflow :: "u64 \<Rightarrow> nat \<Rightarrow> u64 option" where
  "upb_ShlOverflow a b = (if a > drop_bit b (- 1) then None else Some (push_bit b a))"

text \<open>The capacity doubles until it is enough; 64 rounds are more than a 64-bit number has bits.\<close>

primrec capacity_loop :: "nat \<Rightarrow> u64 \<Rightarrow> u64 \<Rightarrow> u64 res" where
  "capacity_loop 0 new_capacity min_capacity = Inl OutOfFuel"
| "capacity_loop (Suc fuel) new_capacity min_capacity =
     (if new_capacity < min_capacity then
        case upb_ShlOverflow new_capacity 1 of
          None \<Rightarrow> Inr (- 1)
        | Some c \<Rightarrow> capacity_loop fuel c min_capacity
      else Inr new_capacity)"

definition Array_Realloc :: "upb_Array \<Rightarrow> u64 \<Rightarrow> mem_arena \<Rightarrow> (bool \<times> upb_Array \<times> mem_arena) res" where
  "Array_Realloc arr min_capacity a =
     bindE (capacity_loop 64 (max (ar_capacity arr) 4) min_capacity) (\<lambda>new_capacity.
       let lg2 = Array_ElemSizeLg2 arr;
           old_bytes = unat (push_bit lg2 (ar_capacity arr))
       in case upb_ShlOverflow new_capacity lg2 of
            None \<Rightarrow> Inr (False, arr, a)
          | Some new_bytes \<Rightarrow>
              (case a 0 of
                 None \<Rightarrow> Inr (False, arr, \<lambda>n. a (Suc n))
               | Some (ptr, junk) \<Rightarrow>
                   let copied = min old_bytes (unat new_bytes)
                   in if copied \<le> length (ar_mem arr) then
                        bindE (Array_SetTaggedPtr
                                 (arr\<lparr>ar_mem := take copied (ar_mem arr) @ map junk [copied..<unat new_bytes],
                                      ar_capacity := new_capacity\<rparr>) ptr lg2) (\<lambda>arr.
                          Inr (True, arr, \<lambda>n. a (Suc n)))
                      else Inl OutOfBounds))"

definition upb_Array_Reserve :: "upb_Array \<Rightarrow> u64 \<Rightarrow> mem_arena \<Rightarrow> (bool \<times> upb_Array \<times> mem_arena) res" where
  "upb_Array_Reserve arr n a =
     bindE (assertE (\<not> upb_Array_IsFrozen arr)) (\<lambda>_.
       if ar_capacity arr < n then Array_Realloc arr n a else Inr (True, arr, a))"

definition Array_ResizeUninitialized :: "upb_Array \<Rightarrow> u64 \<Rightarrow> mem_arena \<Rightarrow> (bool \<times> upb_Array \<times> mem_arena) res" where
  "Array_ResizeUninitialized arr n a =
     bindE (assertE (\<not> upb_Array_IsFrozen arr)) (\<lambda>_.
     bindE (upb_Array_Reserve arr n a) (\<lambda>(ok, arr, a).
       Inr (if ok then (True, arr\<lparr>ar_size := n\<rparr>, a) else (False, arr, a))))"

text \<open>\<open>memcpy\<close>, \<open>memmove\<close> and \<open>memset\<close> on the bytes of an array.\<close>

definition read_bytes :: "upb_Array \<Rightarrow> nat \<Rightarrow> nat \<Rightarrow> byte list res" where
  "read_bytes arr p n = (if p + n \<le> length (ar_mem arr) then Inr (take n (drop p (ar_mem arr))) else Inl OutOfBounds)"

definition write_bytes :: "upb_Array \<Rightarrow> nat \<Rightarrow> byte list \<Rightarrow> upb_Array res" where
  "write_bytes arr p bs =
     (if p + length bs \<le> length (ar_mem arr)
      then Inr (arr\<lparr>ar_mem := take p (ar_mem arr) @ bs @ drop (p + length bs) (ar_mem arr)\<rparr>)
      else Inl OutOfBounds)"

subsection \<open>Operations of \<open>array.c\<close>\<close>

definition CType_SizeLg2 :: "upb_CType \<Rightarrow> nat" where
  "CType_SizeLg2 c = (case c of
     CType_Bool \<Rightarrow> 0 | CType_Float \<Rightarrow> 2 | CType_Int32 \<Rightarrow> 2 | CType_UInt32 \<Rightarrow> 2 | CType_Enum \<Rightarrow> 2
   | CType_Message \<Rightarrow> 3 | CType_Double \<Rightarrow> 3 | CType_Int64 \<Rightarrow> 3 | CType_UInt64 \<Rightarrow> 3
   | CType_String \<Rightarrow> 4 | CType_Bytes \<Rightarrow> 4)"

definition upb_Array_New :: "mem_arena \<Rightarrow> upb_CType \<Rightarrow> (upb_Array option \<times> mem_arena) res" where
  "upb_Array_New a type = Array_New a 4 (CType_SizeLg2 type)"

definition upb_Array_Get :: "upb_Array \<Rightarrow> u64 \<Rightarrow> byte list res" where
  "upb_Array_Get arr i =
     bindE (assertE (i < ar_size arr)) (\<lambda>_.
       let lg2 = Array_ElemSizeLg2 arr in read_bytes arr (unat (push_bit lg2 i)) (2 ^ lg2))"

definition upb_Array_Set :: "upb_Array \<Rightarrow> u64 \<Rightarrow> byte list \<Rightarrow> upb_Array res" where
  "upb_Array_Set arr i val =
     bindE (assertE (\<not> upb_Array_IsFrozen arr)) (\<lambda>_.
     bindE (assertE (i < ar_size arr)) (\<lambda>_.
       let lg2 = Array_ElemSizeLg2 arr in write_bytes arr (unat (push_bit lg2 i)) (take (2 ^ lg2) val)))"

text \<open>\<open>_upb_Array_Set\<close> takes the element size from its caller.\<close>

definition Array_Set_sized :: "upb_Array \<Rightarrow> u64 \<Rightarrow> byte list \<Rightarrow> nat \<Rightarrow> upb_Array res" where
  "Array_Set_sized arr i data elem_size =
     bindE (assertE (\<not> upb_Array_IsFrozen arr)) (\<lambda>_.
     bindE (assertE (i < ar_size arr)) (\<lambda>_.
     bindE (assertE (elem_size = 2 ^ Array_ElemSizeLg2 arr)) (\<lambda>_.
       write_bytes arr (unat (i * of_nat elem_size)) (take elem_size data))))"

definition upb_Array_Append :: "upb_Array \<Rightarrow> byte list \<Rightarrow> mem_arena \<Rightarrow> (bool \<times> upb_Array \<times> mem_arena) res" where
  "upb_Array_Append arr val a =
     bindE (assertE (\<not> upb_Array_IsFrozen arr)) (\<lambda>_.
     bindE (Array_ResizeUninitialized arr (ar_size arr + 1) a) (\<lambda>(ok, arr, a).
       if \<not> ok then Inr (False, arr, a)
       else bindE (upb_Array_Set arr (ar_size arr - 1) val) (\<lambda>arr. Inr (True, arr, a))))"

text \<open>Source and destination are different arrays: the model has no aliasing.\<close>

definition upb_Array_Copy :: "upb_Array \<Rightarrow> upb_Array \<Rightarrow> mem_arena \<Rightarrow> (bool \<times> upb_Array \<times> mem_arena) res" where
  "upb_Array_Copy dst src a =
     bindE (assertE (\<not> upb_Array_IsFrozen dst)) (\<lambda>_.
       let len = ar_size src
       in bindE (Array_ResizeUninitialized dst len a) (\<lambda>(ok, dst, a).
            if \<not> ok then Inr (False, dst, a)
            else if len = 0 then Inr (True, dst, a)
            else
              let lg2 = Array_ElemSizeLg2 dst
              in bindE (assertE (lg2 = Array_ElemSizeLg2 src)) (\<lambda>_.
                 bindE (read_bytes src 0 (unat (push_bit lg2 len))) (\<lambda>bs.
                 bindE (write_bytes dst 0 bs) (\<lambda>dst. Inr (True, dst, a))))))"

definition upb_Array_AppendAll :: "upb_Array \<Rightarrow> upb_Array \<Rightarrow> mem_arena \<Rightarrow> (bool \<times> upb_Array \<times> mem_arena) res" where
  "upb_Array_AppendAll dst src a =
     bindE (assertE (\<not> upb_Array_IsFrozen dst)) (\<lambda>_.
       let src_len = ar_size src; dst_len = ar_size dst; len = dst_len + src_len
       in if src_len = 0 then Inr (True, dst, a)
          else if len < dst_len then Inr (False, dst, a)
          else bindE (Array_ResizeUninitialized dst len a) (\<lambda>(ok, dst, a).
            if \<not> ok then Inr (False, dst, a)
            else
              let lg2 = Array_ElemSizeLg2 dst
              in bindE (assertE (lg2 = Array_ElemSizeLg2 src)) (\<lambda>_.
                 bindE (read_bytes src 0 (unat (push_bit lg2 src_len))) (\<lambda>bs.
                 bindE (write_bytes dst (unat (push_bit lg2 dst_len)) bs) (\<lambda>dst. Inr (True, dst, a))))))"

definition upb_Array_Move :: "upb_Array \<Rightarrow> u64 \<Rightarrow> u64 \<Rightarrow> u64 \<Rightarrow> upb_Array res" where
  "upb_Array_Move arr dst_idx src_idx cnt =
     bindE (assertE (\<not> upb_Array_IsFrozen arr)) (\<lambda>_.
       let lg2 = Array_ElemSizeLg2 arr
       in bindE (read_bytes arr (unat (push_bit lg2 src_idx)) (unat (push_bit lg2 cnt))) (\<lambda>bs.
            write_bytes arr (unat (push_bit lg2 dst_idx)) bs))"

definition upb_Array_Insert :: "upb_Array \<Rightarrow> u64 \<Rightarrow> u64 \<Rightarrow> mem_arena \<Rightarrow> (bool \<times> upb_Array \<times> mem_arena) res" where
  "upb_Array_Insert arr i cnt a =
     bindE (assertE (\<not> upb_Array_IsFrozen arr)) (\<lambda>_.
     bindE (assertE (i \<le> ar_size arr \<and> cnt + ar_size arr \<ge> cnt)) (\<lambda>_.
       let oldsize = ar_size arr
       in bindE (Array_ResizeUninitialized arr (oldsize + cnt) a) (\<lambda>(ok, arr, a).
            if \<not> ok then Inr (False, arr, a)
            else bindE (upb_Array_Move arr (i + cnt) i (oldsize - i)) (\<lambda>arr. Inr (True, arr, a)))))"

definition upb_Array_Delete :: "upb_Array \<Rightarrow> u64 \<Rightarrow> u64 \<Rightarrow> upb_Array res" where
  "upb_Array_Delete arr i cnt =
     bindE (assertE (\<not> upb_Array_IsFrozen arr)) (\<lambda>_.
       let end' = i + cnt
       in bindE (assertE (i \<le> end' \<and> end' \<le> ar_size arr)) (\<lambda>_.
          bindE (upb_Array_Move arr i end' (ar_size arr - end')) (\<lambda>arr.
            Inr (arr\<lparr>ar_size := ar_size arr - cnt\<rparr>))))"

definition upb_Array_Resize :: "upb_Array \<Rightarrow> u64 \<Rightarrow> mem_arena \<Rightarrow> (bool \<times> upb_Array \<times> mem_arena) res" where
  "upb_Array_Resize arr n a =
     bindE (assertE (\<not> upb_Array_IsFrozen arr)) (\<lambda>_.
       let oldsize = ar_size arr
       in bindE (Array_ResizeUninitialized arr n a) (\<lambda>(ok, arr, a).
            if \<not> ok then Inr (False, arr, a)
            else
              let newsize = ar_size arr
              in if newsize > oldsize then
                   let lg2 = Array_ElemSizeLg2 arr
                   in bindE (write_bytes arr (unat (push_bit lg2 oldsize))
                               (replicate (unat (push_bit lg2 (newsize - oldsize))) 0)) (\<lambda>arr.
                        Inr (True, arr, a))
                 else Inr (True, arr, a)))"

end
