(* ===== verification/Array_Correct.thy ===== *)
theory Array_Correct
  imports Message_Array
begin

text \<open>
  An array is the list of its elements, each as long as its element size. Every operation keeps the
  bytes of the array as long as its capacity, and changes the list as its name says.
\<close>

subsection \<open>Chunks of a byte list\<close>

definition chunk :: "nat \<Rightarrow> byte list \<Rightarrow> nat \<Rightarrow> byte list" where
  "chunk n mem i = take n (drop (i * n) mem)"

lemma chunk_bound: "i < (k :: nat) \<Longrightarrow> i * n + n \<le> k * n"
  by (metis add.commute mult_Suc mult_le_mono1 Suc_leI)

lemma chunk_read:
  assumes "j < k"
  shows "chunk n (take (k * n) (drop (i * n) mem)) j = chunk n mem (i + j)"
proof -
  have "j * n + n \<le> k * n" using chunk_bound[OF assms] .
  then have "min n (k * n - j * n) = n" by simp
  then show ?thesis by (simp add: chunk_def drop_take take_take add_mult_distrib add.commute)
qed

lemma chunk_write:
  assumes "length bs = k * n" "i * n + k * n \<le> length mem"
  shows "chunk n (take (i * n) mem @ bs @ drop (i * n + k * n) mem) j =
    (if j < i then chunk n mem j else if j < i + k then chunk n bs (j - i) else chunk n mem j)"
proof -
  have l: "length (take (i * n) mem) = i * n" using assms(2) by simp
  consider "j < i" | "i \<le> j" "j < i + k" | "i + k \<le> j" by linarith
  then show ?thesis
  proof cases
    case 1
    then have b: "j * n + n \<le> i * n" using chunk_bound by blast
    then have "chunk n (take (i * n) mem @ bs @ drop (i * n + k * n) mem) j = chunk n (take (i * n) mem) j"
      using l by (simp add: chunk_def)
    then show ?thesis using 1 b by (simp add: chunk_def drop_take min_absorb1)
  next
    case 2
    then obtain d where d: "j = i + d" "d < k" by (metis le_Suc_ex nat_add_left_cancel_less)
    have "d * n + n \<le> k * n" using chunk_bound[OF d(2)] .
    then have "n - (k * n - d * n) = 0" by simp
    then show ?thesis using d l assms(1) by (simp add: chunk_def add_mult_distrib)
  next
    case 3
    then obtain d where d: "j = i + k + d" by (metis le_Suc_ex)
    then show ?thesis using l assms(1) by (simp add: chunk_def add_mult_distrib add.commute add.left_commute)
  qed
qed

lemma length_chunk: "i < k \<Longrightarrow> k * n \<le> length mem \<Longrightarrow> length (chunk n mem i) = n"
  using chunk_bound[of i k n] by (simp add: chunk_def)

subsection \<open>The invariant\<close>

abbreviation elem_size :: "upb_Array \<Rightarrow> nat" where
  "elem_size arr \<equiv> 2 ^ Array_ElemSizeLg2 arr"

definition array_wf :: "upb_Array \<Rightarrow> bool" where
  "array_wf arr \<longleftrightarrow> unat (ar_capacity arr) * elem_size arr < 2 ^ 64 \<and>
     length (ar_mem arr) = unat (ar_capacity arr) * elem_size arr \<and> ar_size arr \<le> ar_capacity arr"

definition elems :: "upb_Array \<Rightarrow> byte list list" where
  "elems arr = map (chunk (elem_size arr) (ar_mem arr)) [0..<unat (ar_size arr)]"

lemma lg2_le: "Array_ElemSizeLg2 arr \<le> 4"
proof -
  have "unat (ar_data arr AND 3) \<le> unat (3 :: u64)" using word_and_le1 by (simp only: word_le_nat_alt[symmetric])
  then show ?thesis by (simp add: Array_ElemSizeLg2_def UPB_ARRAY_MASK_LG2_def Let_def)
qed

lemma lg2_not_1: "Array_ElemSizeLg2 arr \<noteq> 1"
  by (auto simp: Array_ElemSizeLg2_def Let_def)

lemma unat_exp64: "k < 64 \<Longrightarrow> unat (2 ^ k :: u64) = 2 ^ k"
proof -
  assume "k < 64"
  then have "(2 :: nat) ^ k < 2 ^ 64" by (intro power_strict_increasing) auto
  then have "unat (of_nat (2 ^ k) :: u64) = 2 ^ k" by (simp add: unat_of_nat del: of_nat_power)
  then show ?thesis by simp
qed

lemma unat_sum: "unat (a :: u64) + unat b < 2 ^ 64 \<Longrightarrow> unat (a + b) = unat a + unat b"
  by (simp add: unat_word_ariths)

lemma unat_shift:
  assumes "lg2 \<le> 4" "unat (i :: u64) * 2 ^ lg2 < 2 ^ 64"
  shows "unat (push_bit lg2 i) = unat i * 2 ^ lg2"
proof -
  have "unat (2 ^ lg2 :: u64) = 2 ^ lg2"
    using assms(1) by (intro unat_exp64) simp
  then show ?thesis using assms(2) by (simp add: push_bit_eq_mult unat_word_ariths)
qed

lemma ShlOverflow_Some:
  assumes "upb_ShlOverflow a b = Some c" "b \<le> 4"
  shows "unat c = unat a * 2 ^ b" "unat a * 2 ^ b < 2 ^ 64"
proof -
  have "a \<le> mask (64 - b)" using assms(1) by (auto simp: upb_ShlOverflow_def not_less split: if_splits)
  then have "unat a \<le> unat (mask (64 - b) :: u64)" by (simp add: word_le_nat_alt)
  also have "\<dots> < 2 ^ (64 - b)"
  proof (cases "b = 0")
    case False
    then have e: "unat (2 ^ (64 - b) :: u64) = 2 ^ (64 - b)" by (intro unat_exp64) simp
    then have "(2 :: u64) ^ (64 - b) \<noteq> 0" by (metis power_not_zero unat_0 zero_neq_numeral)
    then show ?thesis using e by (simp add: mask_eq_exp_minus_1 unat_minus_one)
  qed (use unsigned_less[of "mask 64 :: u64"] in simp)
  finally have "unat a < 2 ^ (64 - b)" .
  then have "unat a * 2 ^ b < 2 ^ (64 - b) * 2 ^ b" by simp
  also have "\<dots> = 2 ^ 64" using assms(2) by (simp flip: power_add)
  finally have "unat a * 2 ^ b < 2 ^ 64" .
  then show l: "unat a * 2 ^ b < 2 ^ 64" by simp
  show "unat c = unat a * 2 ^ b" using assms unat_shift[OF assms(2) l] by (auto simp: upb_ShlOverflow_def split: if_splits)
qed

subsection \<open>Growing\<close>

definition aligned :: "mem_arena \<Rightarrow> bool" where
  "aligned a \<longleftrightarrow> (\<forall>n p junk. a n = Some (p, junk) \<longrightarrow> p AND 7 = 0)"

lemma aligned_shift: "aligned a \<Longrightarrow> aligned (\<lambda>n. a (Suc n))"
  unfolding aligned_def by blast

lemma and_7: "(p :: u64) AND 7 = 0 \<longleftrightarrow> unat p mod 8 = 0" "unat (p + 24) mod 8 = unat p mod 8"
proof -
  have "p AND 7 = take_bit 3 p" by (simp add: take_bit_eq_mask mask_eq_exp_minus_1)
  then show "p AND 7 = 0 \<longleftrightarrow> unat p mod 8 = 0" by (simp add: word_unat_eq_iff unsigned_take_bit_eq take_bit_eq_mod unat_mod)
  have "unat (p + 24) mod 8 = (unat p + 24) mod 8" by (simp add: unat_word_ariths mod_mod_cancel)
  moreover have "(n + 24) mod 8 = n mod 8" for n :: nat by presburger
  ultimately show "unat (p + 24) mod 8 = unat p mod 8" by simp
qed

lemma tag_bits:
  assumes "(p :: u64) AND 7 = 0" "b < 4"
  shows "(p OR b) AND 3 = b" "(p OR b) AND 4 = 0"
proof -
  have b: "b \<in> {0, 1, 2, 3}" using assms(2) by (auto simp: word_less_nat_alt word_unat_eq_iff)
  have "p AND 3 = (p AND 7) AND 3" "p AND 4 = (p AND 7) AND 4" by (simp_all add: and.assoc)
  then have "p AND 3 = 0" "p AND 4 = 0" using assms(1) by simp_all
  then show "(p OR b) AND 3 = b" "(p OR b) AND 4 = 0" using b by (auto simp: bit.conj_disj_distrib2)
qed

lemma SetTaggedPtr_ok:
  assumes "p AND 7 = 0" "lg2 \<noteq> 1" "lg2 \<le> 4"
  shows "\<exists>d. Array_SetTaggedPtr arr p lg2 = Inr (arr\<lparr>ar_data := d\<rparr>) \<and>
    Array_ElemSizeLg2 (arr\<lparr>ar_data := d\<rparr>) = lg2 \<and> \<not> upb_Array_IsFrozen (arr\<lparr>ar_data := d\<rparr>)"
proof -
  define b where "b = lg2 - (if lg2 \<noteq> 0 then 1 else 0)"
  have b4: "b < 4" using assms(3) by (auto simp: b_def)
  have u: "unat (of_nat b :: u64) = b" using b4 by (simp add: unat_of_nat)
  have "(of_nat b :: u64) < 4" using b4 u by (simp add: word_less_nat_alt)
  note t = tag_bits[OF assms(1) this]
  have "b + (if b \<noteq> 0 then 1 else 0) = lg2" using assms(2) by (auto simp: b_def)
  then show ?thesis
    using t u assms(2,3)
    by (intro exI[of _ "p OR of_nat b"])
      (auto simp: Array_SetTaggedPtr_def Array_ElemSizeLg2_def upb_Array_IsFrozen_def UPB_ARRAY_MASK_LG2_def
        UPB_ARRAY_MASK_IMM_def b_def[symmetric] Let_def)
qed

lemma capacity_loop_ok:
  "2 ^ (64 - fuel) \<le> unat c \<Longrightarrow> fuel \<le> 64 \<Longrightarrow>
   \<exists>c'. capacity_loop fuel c m = Inr c' \<and> m \<le> c' \<and> c \<le> c'"
proof (induction fuel arbitrary: c)
  case 0
  have "unat c < 2 ^ LENGTH(64)" by (rule unsigned_less)
  then show ?case using 0 by simp
next
  case (Suc fuel)
  show ?case
  proof (cases "c < m")
    case True
    show ?thesis
    proof (cases "upb_ShlOverflow c 1")
      case None
      then show ?thesis using True by (simp add: word_order.extremum)
    next
      case (Some d)
      note D = ShlOverflow_Some[OF Some]
      have "(2 :: nat) ^ (64 - fuel) = 2 * 2 ^ (64 - Suc fuel)"
        using Suc.prems(2) by (metis Suc_diff_Suc Suc_le_lessD power_Suc)
      then have "2 ^ (64 - fuel) \<le> unat d" using D(1) Suc.prems(1) by simp
      then obtain c' where "capacity_loop fuel d m = Inr c'" "m \<le> c'" "d \<le> c'"
        using Suc.IH[of d] Suc.prems(2) by auto
      moreover have "c \<le> d" using D(1) by (simp add: word_le_nat_alt)
      ultimately show ?thesis using True Some by auto
    qed
  qed simp
qed

text \<open>What growing does: the elements that were there stay.\<close>

definition grown :: "upb_Array \<Rightarrow> upb_Array \<Rightarrow> bool" where
  "grown arr arr' \<longleftrightarrow> array_wf arr' \<and> \<not> upb_Array_IsFrozen arr' \<and> Array_ElemSizeLg2 arr' = Array_ElemSizeLg2 arr \<and>
     ar_size arr' = ar_size arr \<and> ar_capacity arr \<le> ar_capacity arr' \<and>
     take (length (ar_mem arr)) (ar_mem arr') = ar_mem arr"

lemma Realloc_ok:
  assumes wf: "array_wf arr" and a: "aligned a"
  shows "\<exists>ok arr' a'. Array_Realloc arr m a = Inr (ok, arr', a') \<and> aligned a' \<and>
    (if ok then grown arr arr' \<and> m \<le> ar_capacity arr' else arr' = arr)"
proof -
  let ?lg = "Array_ElemSizeLg2 arr"
  have "2 ^ (64 - 64) \<le> unat (max (ar_capacity arr) 4)" by (auto simp: max_def word_le_nat_alt)
  then obtain c where c: "capacity_loop 64 (max (ar_capacity arr) 4) m = Inr c" "m \<le> c" "ar_capacity arr \<le> c"
    using capacity_loop_ok[of 64 "max (ar_capacity arr) 4" m] by auto
  have old: "unat (push_bit ?lg (ar_capacity arr)) = length (ar_mem arr)"
    using wf unat_shift[OF lg2_le] by (simp add: array_wf_def)
  show ?thesis
  proof (cases "upb_ShlOverflow c ?lg")
    case None
    then show ?thesis using c a by (auto simp: Array_Realloc_def Let_def)
  next
    case (Some nb)
    note B = ShlOverflow_Some[OF Some lg2_le]
    have le: "length (ar_mem arr) \<le> unat nb" using wf c(3) B(1) by (simp add: array_wf_def word_le_nat_alt)
    show ?thesis
    proof (cases "a 0")
      case None
      then show ?thesis using c Some aligned_shift[OF a] by (auto simp: Array_Realloc_def Let_def)
    next
      case (Some pj)
      obtain p junk where pj: "pj = (p, junk)" by (cases pj)
      let ?mem = "ar_mem arr @ map junk [length (ar_mem arr)..<unat nb]"
      let ?arr = "arr\<lparr>ar_mem := ?mem, ar_capacity := c\<rparr>"
      have "p AND 7 = 0" using a Some pj by (auto simp: aligned_def)
      from SetTaggedPtr_ok[OF this lg2_not_1 lg2_le, of ?arr arr] obtain d where
        d: "Array_SetTaggedPtr ?arr p ?lg = Inr (?arr\<lparr>ar_data := d\<rparr>)" "Array_ElemSizeLg2 (?arr\<lparr>ar_data := d\<rparr>) = ?lg"
        "\<not> upb_Array_IsFrozen (?arr\<lparr>ar_data := d\<rparr>)" by blast
      have "grown arr (?arr\<lparr>ar_data := d\<rparr>)"
        using d wf B le c(3) by (auto simp: grown_def array_wf_def)
      moreover have "Array_Realloc arr m a = Inr (True, ?arr\<lparr>ar_data := d\<rparr>, \<lambda>n. a (Suc n))"
        using c(1) \<open>upb_ShlOverflow c ?lg = Some nb\<close> Some pj old le d(1) by (simp add: Array_Realloc_def Let_def min_absorb1)
      ultimately show ?thesis using c(2) aligned_shift[OF a] by auto
    qed
  qed
qed

lemma Resize_ok:
  assumes wf: "array_wf arr" and a: "aligned a" and fr: "\<not> upb_Array_IsFrozen arr"
  shows "\<exists>ok arr' a'. Array_ResizeUninitialized arr n a = Inr (ok, arr', a') \<and> aligned a' \<and>
    (if ok then grown arr (arr'\<lparr>ar_size := ar_size arr\<rparr>) \<and> ar_size arr' = n \<and> n \<le> ar_capacity arr' else arr' = arr)"
proof (cases "ar_capacity arr < n")
  case True
  obtain ok arr' a' where r: "Array_Realloc arr n a = Inr (ok, arr', a')" "aligned a'"
    "if ok then grown arr arr' \<and> n \<le> ar_capacity arr' else arr' = arr" using Realloc_ok[OF wf a, of n] by blast
  have "arr'\<lparr>ar_size := ar_size arr\<rparr> = arr'" if "grown arr arr'" using that by (simp add: grown_def)
  then show ?thesis using True fr r by (cases ok) (auto simp: Array_ResizeUninitialized_def upb_Array_Reserve_def)
next
  case False
  have "grown arr arr" using wf fr by (simp add: grown_def)
  then show ?thesis
    using False fr a by (intro exI[of _ True] exI[of _ "arr\<lparr>ar_size := n\<rparr>"] exI[of _ a])
      (simp add: Array_ResizeUninitialized_def upb_Array_Reserve_def)
qed

subsection \<open>Reading and writing elements\<close>

abbreviation arr_chunk :: "upb_Array \<Rightarrow> nat \<Rightarrow> byte list" where
  "arr_chunk arr \<equiv> chunk (elem_size arr) (ar_mem arr)"

lemma offset_ok:
  fixes i :: u64
  assumes "array_wf arr" "unat i \<le> unat (ar_capacity arr)"
  shows "unat (push_bit (Array_ElemSizeLg2 arr) i) = unat i * elem_size arr"
proof (rule unat_shift[OF lg2_le])
  show "unat i * elem_size arr < 2 ^ 64"
    using assms(1) mult_le_mono1[OF assms(2), of "elem_size arr"] unfolding array_wf_def by linarith
qed

lemma read_ok:
  assumes "array_wf arr" "i + k \<le> unat (ar_capacity arr)"
  shows "\<exists>bs. read_bytes arr (i * elem_size arr) (k * elem_size arr) = Inr bs \<and> length bs = k * elem_size arr \<and>
    (\<forall>j < k. chunk (elem_size arr) bs j = arr_chunk arr (i + j))"
proof -
  have "i * elem_size arr + k * elem_size arr \<le> length (ar_mem arr)"
    using assms mult_le_mono1[OF assms(2), of "elem_size arr"] by (simp add: array_wf_def add_mult_distrib)
  then show ?thesis by (simp add: read_bytes_def chunk_read)
qed

lemma write_ok:
  assumes "array_wf arr" "i + k \<le> unat (ar_capacity arr)" "length bs = k * elem_size arr"
  shows "\<exists>mem. write_bytes arr (i * elem_size arr) bs = Inr (arr\<lparr>ar_mem := mem\<rparr>) \<and> array_wf (arr\<lparr>ar_mem := mem\<rparr>) \<and>
    (\<forall>j. chunk (elem_size arr) mem j = (if i \<le> j \<and> j < i + k then chunk (elem_size arr) bs (j - i) else arr_chunk arr j))"
proof -
  let ?mem = "take (i * elem_size arr) (ar_mem arr) @ bs @ drop (i * elem_size arr + k * elem_size arr) (ar_mem arr)"
  have le: "i * elem_size arr + k * elem_size arr \<le> length (ar_mem arr)"
    using assms(1) mult_le_mono1[OF assms(2), of "elem_size arr"] by (simp add: array_wf_def add_mult_distrib)
  have "write_bytes arr (i * elem_size arr) bs = Inr (arr\<lparr>ar_mem := ?mem\<rparr>)"
    using le assms(3) by (simp add: write_bytes_def)
  moreover have "array_wf (arr\<lparr>ar_mem := ?mem\<rparr>)"
    using le assms(1,3) by (simp add: array_wf_def Array_ElemSizeLg2_def)
  moreover have "chunk (elem_size arr) ?mem j = (if i \<le> j \<and> j < i + k then chunk (elem_size arr) bs (j - i) else arr_chunk arr j)" for j
    using chunk_write[OF assms(3) le, of j] by auto
  ultimately show ?thesis by blast
qed

lemma elem_size_simps [simp]:
  "Array_ElemSizeLg2 (arr\<lparr>ar_mem := mem\<rparr>) = Array_ElemSizeLg2 arr" "Array_ElemSizeLg2 (arr\<lparr>ar_size := n\<rparr>) = Array_ElemSizeLg2 arr"
  "upb_Array_IsFrozen (arr\<lparr>ar_mem := mem\<rparr>) = upb_Array_IsFrozen arr" "upb_Array_IsFrozen (arr\<lparr>ar_size := n\<rparr>) = upb_Array_IsFrozen arr"
  by (simp_all add: Array_ElemSizeLg2_def upb_Array_IsFrozen_def)

lemma Move_ok:
  assumes wf: "array_wf arr" and fr: "\<not> upb_Array_IsFrozen arr"
    and d: "unat d + unat c \<le> unat (ar_capacity arr)" and s: "unat s + unat c \<le> unat (ar_capacity arr)"
  shows "\<exists>mem. upb_Array_Move arr d s c = Inr (arr\<lparr>ar_mem := mem\<rparr>) \<and> array_wf (arr\<lparr>ar_mem := mem\<rparr>) \<and>
    (\<forall>j. chunk (elem_size arr) mem j =
       (if unat d \<le> j \<and> j < unat d + unat c then arr_chunk arr (unat s + (j - unat d)) else arr_chunk arr j))"
proof -
  obtain bs where bs: "read_bytes arr (unat s * elem_size arr) (unat c * elem_size arr) = Inr bs"
    "length bs = unat c * elem_size arr" "\<And>j. j < unat c \<Longrightarrow> chunk (elem_size arr) bs j = arr_chunk arr (unat s + j)"
    using read_ok[OF wf s] by blast
  obtain mem where "write_bytes arr (unat d * elem_size arr) bs = Inr (arr\<lparr>ar_mem := mem\<rparr>)" "array_wf (arr\<lparr>ar_mem := mem\<rparr>)"
    "\<And>j. chunk (elem_size arr) mem j =
      (if unat d \<le> j \<and> j < unat d + unat c then chunk (elem_size arr) bs (j - unat d) else arr_chunk arr j)"
    using write_ok[OF wf d bs(2)] by blast
  then show ?thesis
    using bs fr offset_ok[OF wf, of s] offset_ok[OF wf, of d] offset_ok[OF wf, of c] s d
    by (auto simp: upb_Array_Move_def Let_def)
qed

subsection \<open>The operations on lists\<close>

lemma length_elems [simp]: "length (elems arr) = unat (ar_size arr)"
  by (simp add: elems_def)

lemma elems_nth: "i < unat (ar_size arr) \<Longrightarrow> elems arr ! i = arr_chunk arr i"
  by (simp add: elems_def)

lemma wf_size: "array_wf arr \<Longrightarrow> unat (ar_size arr) \<le> unat (ar_capacity arr)"
  by (simp add: array_wf_def word_le_nat_alt)

lemma Get_elem:
  assumes "array_wf arr" "i < ar_size arr"
  shows "upb_Array_Get arr i = Inr (elems arr ! unat i)"
proof -
  have i: "unat i < unat (ar_size arr)" "unat i + 1 \<le> unat (ar_capacity arr)"
    using assms wf_size by (auto simp: word_less_nat_alt Suc_le_eq intro: less_le_trans)
  obtain bs where "read_bytes arr (unat i * elem_size arr) (elem_size arr) = Inr bs" "length bs = elem_size arr"
    "chunk (elem_size arr) bs 0 = arr_chunk arr (unat i)"
    using read_ok[OF assms(1) i(2)] by auto
  then show ?thesis
    using assms(2) i offset_ok[OF assms(1), of i] elems_nth[OF i(1)] by (simp add: upb_Array_Get_def Let_def chunk_def)
qed

lemma Set_elem:
  assumes wf: "array_wf arr" and fr: "\<not> upb_Array_IsFrozen arr" and i: "i < ar_size arr" and v: "length val = 16"
  shows "\<exists>arr'. upb_Array_Set arr i val = Inr arr' \<and> array_wf arr' \<and> \<not> upb_Array_IsFrozen arr' \<and>
    elems arr' = (elems arr)[unat i := take (elem_size arr) val] \<and> Array_ElemSizeLg2 arr' = Array_ElemSizeLg2 arr"
proof -
  have i': "unat i < unat (ar_size arr)" "unat i + 1 \<le> unat (ar_capacity arr)"
    using i wf_size[OF wf] by (auto simp: word_less_nat_alt Suc_le_eq intro: less_le_trans)
  have "elem_size arr \<le> 2 ^ 4" using lg2_le by (intro power_increasing) auto
  then have l: "length (take (elem_size arr) val) = 1 * elem_size arr" using v by simp
  obtain mem where m: "write_bytes arr (unat i * elem_size arr) (take (elem_size arr) val) = Inr (arr\<lparr>ar_mem := mem\<rparr>)"
    "array_wf (arr\<lparr>ar_mem := mem\<rparr>)"
    "\<And>j. chunk (elem_size arr) mem j =
      (if unat i \<le> j \<and> j < unat i + 1 then chunk (elem_size arr) (take (elem_size arr) val) (j - unat i) else arr_chunk arr j)"
    using write_ok[OF wf i'(2) l] by blast
  have "elems (arr\<lparr>ar_mem := mem\<rparr>) = (elems arr)[unat i := take (elem_size arr) val]"
    using i'(1) m(3) by (intro nth_equalityI) (auto simp: elems_def nth_list_update chunk_def)
  then show ?thesis using m fr i i' offset_ok[OF wf, of i] by (simp add: upb_Array_Set_def Let_def)
qed


lemma Set_sized_eq:
  assumes "array_wf arr"
  shows "Array_Set_sized arr i v (elem_size arr) = upb_Array_Set arr i v"
proof (cases "i < ar_size arr")
  case True
  then have "unat i \<le> unat (ar_capacity arr)" using wf_size[OF assms] by (simp add: word_less_nat_alt)
  moreover have "i * of_nat (elem_size arr) = push_bit (Array_ElemSizeLg2 arr) i" by (simp add: push_bit_eq_mult)
  ultimately show ?thesis by (simp add: Array_Set_sized_def upb_Array_Set_def Let_def)
qed (simp add: Array_Set_sized_def upb_Array_Set_def assertE_def)

text \<open>Growing keeps the elements; a new size takes them in.\<close>

lemma chunk_take:
  assumes "i < k" "k * n \<le> length xs" "take (length xs) ys = xs"
  shows "chunk n ys i = chunk n xs i"
proof -
  have "i * n + n \<le> length xs" using chunk_bound[OF assms(1), of n] assms(2) by linarith
  then have "take n (drop (i * n) (take (length xs) ys)) = take n (drop (i * n) ys)" by (simp add: drop_take min_absorb1)
  then show ?thesis using assms(3) by (simp add: chunk_def)
qed

lemma grown_chunk:
  assumes "array_wf arr" "grown arr arr'" "i < unat (ar_size arr)"
  shows "arr_chunk arr' i = arr_chunk arr i"
proof -
  have "unat (ar_size arr) * elem_size arr \<le> length (ar_mem arr)"
    using assms(1) mult_le_mono1[OF wf_size[OF assms(1)]] unfolding array_wf_def by metis
  then show ?thesis using chunk_take[OF assms(3), of "elem_size arr" "ar_mem arr" "ar_mem arr'"] assms(2) by (simp add: grown_def)
qed

text \<open>What resizing without initialisation leaves: the elements up to the smaller size.\<close>

definition resized :: "upb_Array \<Rightarrow> u64 \<Rightarrow> upb_Array \<Rightarrow> bool" where
  "resized arr n arr' \<longleftrightarrow> array_wf arr' \<and> \<not> upb_Array_IsFrozen arr' \<and> Array_ElemSizeLg2 arr' = Array_ElemSizeLg2 arr \<and>
     ar_size arr' = n \<and> (\<forall>i < unat (ar_size arr). arr_chunk arr' i = arr_chunk arr i)"

lemma Resize_resized:
  assumes "array_wf arr" "aligned a" "\<not> upb_Array_IsFrozen arr"
  obtains (ok) arr' a' where "Array_ResizeUninitialized arr n a = Inr (True, arr', a')" "aligned a'" "resized arr n arr'"
  | (fail) a' where "Array_ResizeUninitialized arr n a = Inr (False, arr, a')" "aligned a'"
proof -
  obtain ok arr' a' where r: "Array_ResizeUninitialized arr n a = Inr (ok, arr', a')" "aligned a'"
    "if ok then grown arr (arr'\<lparr>ar_size := ar_size arr\<rparr>) \<and> ar_size arr' = n \<and> n \<le> ar_capacity arr' else arr' = arr"
    using Resize_ok[OF assms] by blast
  show thesis
  proof (cases ok)
    case True
    then have g: "grown arr (arr'\<lparr>ar_size := ar_size arr\<rparr>)" "ar_size arr' = n" "n \<le> ar_capacity arr'" using r by auto
    have "arr_chunk arr' i = arr_chunk arr i" if "i < unat (ar_size arr)" for i
      using grown_chunk[OF assms(1) g(1) that] by simp
    then have "resized arr n arr'" using g by (auto simp: resized_def grown_def array_wf_def)
    then show thesis using that(1) r(1,2) True by simp
  qed (use that(2) r in auto)
qed

text \<open>
  What an operation may return: the new list in a well-formed array that is not frozen and has elements
  of the same size, or a failure that leaves the array as it was.
\<close>

definition array_result :: "upb_Array \<Rightarrow> byte list list \<Rightarrow> (bool \<times> upb_Array \<times> mem_arena) res \<Rightarrow> bool" where
  "array_result arr new r = (case r of
     Inl _ \<Rightarrow> False
   | Inr (ok, arr', a') \<Rightarrow> aligned a' \<and>
       (if ok then array_wf arr' \<and> \<not> upb_Array_IsFrozen arr' \<and> Array_ElemSizeLg2 arr' = Array_ElemSizeLg2 arr \<and>
                   elems arr' = new
        else arr' = arr))"

lemma Append_elems:
  assumes "array_wf arr" "aligned a" "\<not> upb_Array_IsFrozen arr" "ar_size arr \<noteq> - 1" "length val = 16"
  shows "array_result arr (elems arr @ [take (elem_size arr) val]) (upb_Array_Append arr val a)"
  using assms(1-3)
proof (cases rule: Resize_resized[where n = "ar_size arr + 1"])
  case (ok b a')
  have sz: "unat (ar_size arr + 1) = unat (ar_size arr) + 1"
    using assms(4) by (metis Suc_eq_plus1 add.commute add_eq_0_iff unatSuc)
  have b: "array_wf b" "\<not> upb_Array_IsFrozen b" "ar_size b = ar_size arr + 1" "Array_ElemSizeLg2 b = Array_ElemSizeLg2 arr"
    using ok by (auto simp: resized_def)
  have "ar_size arr < ar_size b" using sz b by (simp add: word_less_nat_alt)
  then obtain c where c: "upb_Array_Set b (ar_size arr) val = Inr c" "array_wf c" "\<not> upb_Array_IsFrozen c"
    "Array_ElemSizeLg2 c = Array_ElemSizeLg2 b"
    "elems c = (elems b)[unat (ar_size arr) := take (elem_size b) val]" using Set_elem[OF b(1,2) _ assms(5)] by blast
  have "elems c = elems arr @ [take (elem_size arr) val]"
    using c(5) b ok(3) sz
    by (intro nth_equalityI) (auto simp: nth_append elems_nth less_Suc_eq resized_def)
  moreover have "upb_Array_Append arr val a = Inr (True, c, a')"
    using ok c b assms(3) by (simp add: upb_Array_Append_def)
  ultimately show ?thesis using c ok(2) b by (simp add: array_result_def)
qed (use assms in \<open>auto simp: array_result_def upb_Array_Append_def\<close>)

text \<open>Resizing sets new elements to zero.\<close>

lemma Resize_elems:
  assumes "array_wf arr" "aligned a" "\<not> upb_Array_IsFrozen arr"
  shows "array_result arr (take (unat n) (elems arr) @ replicate (unat n - unat (ar_size arr)) (replicate (elem_size arr) 0))
     (upb_Array_Resize arr n a)"
  using assms
proof (cases rule: Resize_resized[where n = n])
  case (ok b a')
  have b: "array_wf b" "\<not> upb_Array_IsFrozen b" "ar_size b = n" "Array_ElemSizeLg2 b = Array_ElemSizeLg2 arr"
    "\<And>i. i < unat (ar_size arr) \<Longrightarrow> arr_chunk b i = arr_chunk arr i"
    using ok by (auto simp: resized_def)
  show ?thesis
  proof (cases "ar_size arr < n")
    case False
    then have le: "unat n \<le> unat (ar_size arr)" by (simp add: word_less_nat_alt)
    then have "elems b = take (unat n) (elems arr)"
      using b by (intro nth_equalityI) (auto simp: elems_nth)
    moreover have "upb_Array_Resize arr n a = Inr (True, b, a')"
      using ok b False assms(3) by (simp add: upb_Array_Resize_def)
    ultimately show ?thesis using b le ok(2) by (simp add: array_result_def)
  next
    case True
    let ?d = "n - ar_size arr"
    have d: "unat ?d = unat n - unat (ar_size arr)" "unat (ar_size arr) + unat ?d = unat n" "unat (ar_size arr) \<le> unat n"
      using True by (simp_all add: unat_sub word_less_nat_alt word_le_nat_alt)
    have cap: "unat n \<le> unat (ar_capacity b)" using wf_size[OF b(1)] b by simp
    let ?z = "replicate (unat ?d * elem_size b) (0 :: byte)"
    obtain mem where m: "write_bytes b (unat (ar_size arr) * elem_size b) ?z = Inr (b\<lparr>ar_mem := mem\<rparr>)"
      "array_wf (b\<lparr>ar_mem := mem\<rparr>)"
      "\<And>j. chunk (elem_size b) mem j = (if unat (ar_size arr) \<le> j \<and> j < unat (ar_size arr) + unat ?d
          then chunk (elem_size b) ?z (j - unat (ar_size arr)) else arr_chunk b j)"
      using write_ok[OF b(1), of "unat (ar_size arr)" "unat ?d" ?z] d cap by auto
    have z: "chunk (elem_size b) ?z j = replicate (elem_size b) 0" if "j < unat ?d" for j
      using that by (simp add: chunk_def min_def Suc_le_eq flip: diff_mult_distrib)
    have "elems (b\<lparr>ar_mem := mem\<rparr>) = elems arr @ replicate (unat ?d) (replicate (elem_size arr) 0)"
      using b m(3) d z by (intro nth_equalityI) (auto simp: elems_nth nth_append)
    moreover have "take (unat n) (elems arr) = elems arr" using d by simp
    moreover have "upb_Array_Resize arr n a = Inr (True, b\<lparr>ar_mem := mem\<rparr>, a')"
      using ok b True m(1) d cap offset_ok[OF b(1), of "ar_size arr"] offset_ok[OF b(1), of ?d] assms(3)
      by (simp add: upb_Array_Resize_def Let_def)
    ultimately show ?thesis using m(2) d ok(2) b by (simp add: array_result_def)
  qed
qed (use assms in \<open>auto simp: array_result_def upb_Array_Resize_def\<close>)


lemma elems_Move:
  assumes "array_wf arr" "\<not> upb_Array_IsFrozen arr"
    and "unat d + unat c \<le> unat (ar_capacity arr)" "unat s + unat c \<le> unat (ar_capacity arr)"
  obtains arr' where "upb_Array_Move arr d s c = Inr arr'" "array_wf arr'" "\<not> upb_Array_IsFrozen arr'"
    "Array_ElemSizeLg2 arr' = Array_ElemSizeLg2 arr" "ar_size arr' = ar_size arr" "ar_capacity arr' = ar_capacity arr"
    "\<And>j. arr_chunk arr' j = (if unat d \<le> j \<and> j < unat d + unat c then arr_chunk arr (unat s + (j - unat d)) else arr_chunk arr j)"
proof -
  obtain mem where "upb_Array_Move arr d s c = Inr (arr\<lparr>ar_mem := mem\<rparr>)" "array_wf (arr\<lparr>ar_mem := mem\<rparr>)"
    "\<forall>j. chunk (elem_size arr) mem j =
       (if unat d \<le> j \<and> j < unat d + unat c then arr_chunk arr (unat s + (j - unat d)) else arr_chunk arr j)"
    using Move_ok[OF assms] by blast
  then show thesis using assms(2) by (intro that[of "arr\<lparr>ar_mem := mem\<rparr>"]) simp_all
qed

text \<open>Deleting takes the elements out; inserting makes room for elements whose contents are left open.\<close>

lemma Delete_elems:
  assumes wf: "array_wf arr" and fr: "\<not> upb_Array_IsFrozen arr" and le: "unat i + unat c \<le> unat (ar_size arr)"
  shows "\<exists>arr'. upb_Array_Delete arr i c = Inr arr' \<and> array_wf arr' \<and> \<not> upb_Array_IsFrozen arr' \<and>
    Array_ElemSizeLg2 arr' = Array_ElemSizeLg2 arr \<and>
    elems arr' = take (unat i) (elems arr) @ drop (unat i + unat c) (elems arr)"
proof -
  have "unat (ar_size arr) < 2 ^ LENGTH(64)" by (rule unsigned_less)
  then have e: "unat (i + c) = unat i + unat c" using le by (intro unat_sum) simp
  have s: "unat (ar_size arr - (i + c)) = unat (ar_size arr) - (unat i + unat c)"
    and sc: "unat (ar_size arr - c) = unat (ar_size arr) - unat c"
    using le e by (simp_all add: unat_sub word_le_nat_alt)
  note cap = wf_size[OF wf]
  obtain b where b: "upb_Array_Move arr i (i + c) (ar_size arr - (i + c)) = Inr b" "array_wf b" "\<not> upb_Array_IsFrozen b"
    "Array_ElemSizeLg2 b = Array_ElemSizeLg2 arr" "ar_size b = ar_size arr" "ar_capacity b = ar_capacity arr"
    "\<And>j. arr_chunk b j = (if unat i \<le> j \<and> j < unat i + unat (ar_size arr - (i + c))
       then arr_chunk arr (unat (i + c) + (j - unat i)) else arr_chunk arr j)"
  proof (rule elems_Move[OF wf fr, of i "ar_size arr - (i + c)" "i + c"])
    show "unat i + unat (ar_size arr - (i + c)) \<le> unat (ar_capacity arr)"
      "unat (i + c) + unat (ar_size arr - (i + c)) \<le> unat (ar_capacity arr)" using e s le cap by linarith+
  qed blast
  let ?b = "b\<lparr>ar_size := ar_size b - c\<rparr>"
  have "upb_Array_Delete arr i c = Inr ?b"
    using b fr e le by (simp add: upb_Array_Delete_def word_le_nat_alt)
  moreover have "array_wf ?b" using b(2,5) sc cap by (auto simp: array_wf_def word_le_nat_alt)
  moreover have "elems ?b = take (unat i) (elems arr) @ drop (unat i + unat c) (elems arr)"
    using b(4,5,7) sc s e le by (intro nth_equalityI) (auto simp: elems_nth nth_append add.commute add.left_commute)
  ultimately show ?thesis using b by auto
qed

lemma Insert_elems:
  assumes wf: "array_wf arr" and a: "aligned a" and fr: "\<not> upb_Array_IsFrozen arr"
    and i: "i \<le> ar_size arr" and c: "unat c + unat (ar_size arr) < 2 ^ 64"
  shows "\<exists>ok arr' a'. upb_Array_Insert arr i c a = Inr (ok, arr', a') \<and>
    (if ok then array_wf arr' \<and> \<not> upb_Array_IsFrozen arr' \<and> Array_ElemSizeLg2 arr' = Array_ElemSizeLg2 arr \<and>
       (\<exists>new. length new = unat c \<and> elems arr' = take (unat i) (elems arr) @ new @ drop (unat i) (elems arr)) else arr' = arr)"
proof -
  have sz: "unat (ar_size arr + c) = unat (ar_size arr) + unat c"
    using c by (intro unat_sum) linarith
  have i': "unat i \<le> unat (ar_size arr)" using i by (simp add: word_le_nat_alt)
  then have ic: "unat (i + c) = unat i + unat c"
    using c by (intro unat_sum) linarith
  have rest: "unat (ar_size arr - i) = unat (ar_size arr) - unat i" using i by (simp add: unat_sub)
  have no_wrap: "c \<le> c + ar_size arr" using sz by (simp add: word_le_nat_alt add.commute)
  from wf a fr show ?thesis
  proof (cases rule: Resize_resized[where n = "ar_size arr + c"])
    case (ok b a')
    have b: "array_wf b" "\<not> upb_Array_IsFrozen b" "ar_size b = ar_size arr + c" "Array_ElemSizeLg2 b = Array_ElemSizeLg2 arr"
      "\<And>j. j < unat (ar_size arr) \<Longrightarrow> arr_chunk b j = arr_chunk arr j"
      using ok by (auto simp: resized_def)
    have cap: "unat (ar_size arr) + unat c \<le> unat (ar_capacity b)" using wf_size[OF b(1)] b(3) sz by simp
    obtain d where d: "upb_Array_Move b (i + c) i (ar_size arr - i) = Inr d" "array_wf d" "\<not> upb_Array_IsFrozen d"
      "Array_ElemSizeLg2 d = Array_ElemSizeLg2 b" "ar_size d = ar_size b" "ar_capacity d = ar_capacity b"
      "\<And>j. arr_chunk d j = (if unat (i + c) \<le> j \<and> j < unat (i + c) + unat (ar_size arr - i)
         then arr_chunk b (unat i + (j - unat (i + c))) else arr_chunk b j)"
    proof (rule elems_Move[OF b(1,2), of "i + c" "ar_size arr - i" i])
      show "unat (i + c) + unat (ar_size arr - i) \<le> unat (ar_capacity b)"
        "unat i + unat (ar_size arr - i) \<le> unat (ar_capacity b)" using ic rest i' cap by linarith+
    qed blast
    let ?new = "map (arr_chunk d) [unat i..<unat i + unat c]"
    have "elems d = take (unat i) (elems arr) @ ?new @ drop (unat i) (elems arr)"
      using b(3,4,5) d(4,5,7) ic rest i' sz
      by (intro nth_equalityI) (auto simp: elems_nth nth_append)
    moreover have "upb_Array_Insert arr i c a = Inr (True, d, a')"
      using ok d(1) i no_wrap fr by (simp add: upb_Array_Insert_def Let_def)
    ultimately show ?thesis using d b by (intro exI[of _ True] exI[of _ d] exI[of _ a']) (auto intro!: exI[of _ ?new])
  qed (use i no_wrap fr in \<open>auto simp: upb_Array_Insert_def\<close>)
qed


text \<open>Copying all of one array into another, from index \<open>k\<close> on.\<close>

lemma copy_elems:
  assumes b: "array_wf b" and s: "array_wf src" and lg: "Array_ElemSizeLg2 src = Array_ElemSizeLg2 b"
    and k: "k + unat (ar_size src) \<le> unat (ar_size b)"
  obtains bs mem where "read_bytes src 0 (unat (push_bit (Array_ElemSizeLg2 b) (ar_size src))) = Inr bs"
    "write_bytes b (k * elem_size b) bs = Inr (b\<lparr>ar_mem := mem\<rparr>)" "array_wf (b\<lparr>ar_mem := mem\<rparr>)"
    "elems (b\<lparr>ar_mem := mem\<rparr>) = take k (elems b) @ elems src @ drop (k + unat (ar_size src)) (elems b)"
proof -
  obtain bs where bs: "read_bytes src 0 (unat (ar_size src) * elem_size src) = Inr bs"
    "length bs = unat (ar_size src) * elem_size b"
    "\<And>j. j < unat (ar_size src) \<Longrightarrow> chunk (elem_size src) bs j = arr_chunk src j"
    using read_ok[OF s, of 0 "unat (ar_size src)"] wf_size[OF s] lg by auto
  obtain mem where m: "write_bytes b (k * elem_size b) bs = Inr (b\<lparr>ar_mem := mem\<rparr>)"
    "array_wf (b\<lparr>ar_mem := mem\<rparr>)"
    "\<And>j. chunk (elem_size b) mem j = (if k \<le> j \<and> j < k + unat (ar_size src)
        then chunk (elem_size b) bs (j - k) else arr_chunk b j)"
    using write_ok[OF b _ bs(2), of k] wf_size[OF b] k by auto
  have "elems (b\<lparr>ar_mem := mem\<rparr>) = take k (elems b) @ elems src @ drop (k + unat (ar_size src)) (elems b)"
    using m(3) bs(3) k lg by (intro nth_equalityI) (auto simp: elems_nth nth_append)
  then show thesis using that[OF _ m(1,2)] bs(1) offset_ok[OF s, of "ar_size src"] wf_size[OF s] lg by simp
qed

lemma AppendAll_elems:
  assumes d: "array_wf dst" "aligned a" "\<not> upb_Array_IsFrozen dst" and s: "array_wf src"
    and lg: "Array_ElemSizeLg2 src = Array_ElemSizeLg2 dst"
  shows "array_result dst (elems dst @ elems src) (upb_Array_AppendAll dst src a)"
proof (cases "ar_size src = 0 \<or> ar_size dst + ar_size src < ar_size dst")
  case True
  then show ?thesis using d by (auto simp: array_result_def upb_Array_AppendAll_def Let_def elems_def)
next
  case False
  let ?n = "ar_size dst + ar_size src"
  have n: "unat ?n = unat (ar_size dst) + unat (ar_size src)"
    using False by (metis not_less olen_add_eqv unat_plus_simple add.commute)
  from d show ?thesis
  proof (cases rule: Resize_resized[where n = ?n])
    case (ok b a')
    have b: "array_wf b" "\<not> upb_Array_IsFrozen b" "ar_size b = ?n" "Array_ElemSizeLg2 b = Array_ElemSizeLg2 dst"
      "\<And>i. i < unat (ar_size dst) \<Longrightarrow> arr_chunk b i = arr_chunk dst i"
      using ok by (auto simp: resized_def)
    have old: "take (unat (ar_size dst)) (elems b) = elems dst"
      using b(3,4,5) n by (intro nth_equalityI) (auto simp: elems_nth)
    from b(1) s show ?thesis
    proof (rule copy_elems[where k = "unat (ar_size dst)"])
      fix bs mem
      assume m: "read_bytes src 0 (unat (push_bit (Array_ElemSizeLg2 b) (ar_size src))) = Inr bs"
        "write_bytes b (unat (ar_size dst) * elem_size b) bs = Inr (b\<lparr>ar_mem := mem\<rparr>)" "array_wf (b\<lparr>ar_mem := mem\<rparr>)"
        "elems (b\<lparr>ar_mem := mem\<rparr>) = take (unat (ar_size dst)) (elems b) @ elems src @
           drop (unat (ar_size dst) + unat (ar_size src)) (elems b)"
      have "upb_Array_AppendAll dst src a = Inr (True, b\<lparr>ar_mem := mem\<rparr>, a')"
        using ok(1) False d(3) b(3,4) lg m(1,2) n wf_size[OF b(1)] offset_ok[OF b(1), of "ar_size dst"]
        by (simp add: upb_Array_AppendAll_def Let_def)
      then show ?thesis using m(3,4) old n b ok(2) by (simp add: array_result_def)
    qed (use lg b n in auto)
  qed (use False d in \<open>auto simp: array_result_def upb_Array_AppendAll_def Let_def\<close>)
qed

lemma Copy_elems:
  assumes d: "array_wf dst" "aligned a" "\<not> upb_Array_IsFrozen dst" and s: "array_wf src"
    and lg: "Array_ElemSizeLg2 src = Array_ElemSizeLg2 dst"
  shows "array_result dst (elems src) (upb_Array_Copy dst src a)"
  using d
proof (cases rule: Resize_resized[where n = "ar_size src"])
  case (ok b a')
  have b: "array_wf b" "\<not> upb_Array_IsFrozen b" "ar_size b = ar_size src" "Array_ElemSizeLg2 b = Array_ElemSizeLg2 dst"
    using ok by (auto simp: resized_def)
  from b(1) s show ?thesis
  proof (rule copy_elems[where k = 0])
    fix bs mem
    assume m: "read_bytes src 0 (unat (push_bit (Array_ElemSizeLg2 b) (ar_size src))) = Inr bs"
      "write_bytes b (0 * elem_size b) bs = Inr (b\<lparr>ar_mem := mem\<rparr>)" "array_wf (b\<lparr>ar_mem := mem\<rparr>)"
      "elems (b\<lparr>ar_mem := mem\<rparr>) = take 0 (elems b) @ elems src @ drop (0 + unat (ar_size src)) (elems b)"
    show ?thesis
      using ok(1,2) d(3) b lg m by (auto simp: array_result_def upb_Array_Copy_def Let_def elems_def)
  qed (use lg b in auto)
qed (use d in \<open>auto simp: array_result_def upb_Array_Copy_def\<close>)

lemma Array_New_ok:
  assumes "aligned a" "lg2 \<noteq> 1" "lg2 \<le> 4" "24 + unat n * 2 ^ lg2 < 2 ^ 64"
  shows "\<exists>r a'. Array_New a n lg2 = Inr (r, a') \<and> aligned a' \<and> (r = None \<longleftrightarrow> a 0 = None) \<and>
    (\<forall>arr. r = Some arr \<longrightarrow> array_wf arr \<and> \<not> upb_Array_IsFrozen arr \<and> Array_ElemSizeLg2 arr = lg2 \<and> elems arr = [])"
proof (cases "a 0")
  case None
  then show ?thesis using assms aligned_shift by (auto simp: Array_New_def)
next
  case (Some pj)
  obtain p junk where pj: "pj = (p, junk)" by (cases pj)
  let ?arr = "\<lparr>ar_data = 0, ar_mem = map junk [24..<unat (24 + push_bit lg2 n)], ar_size = 0, ar_capacity = n\<rparr>"
  have n: "unat (push_bit lg2 n) = unat n * 2 ^ lg2" using assms(3,4) by (intro unat_shift) simp_all
  then have "unat (24 + push_bit lg2 n) = 24 + unat n * 2 ^ lg2" using assms(4) unat_sum[of 24 "push_bit lg2 n"] by simp
  moreover have "p AND 7 = 0" using assms(1) Some pj by (auto simp: aligned_def)
  then have "(p + 24) AND 7 = 0" by (simp add: and_7)
  from SetTaggedPtr_ok[OF this assms(2,3), of ?arr] obtain d where
    d: "Array_SetTaggedPtr ?arr (p + 24) lg2 = Inr (?arr\<lparr>ar_data := d\<rparr>)" "Array_ElemSizeLg2 (?arr\<lparr>ar_data := d\<rparr>) = lg2"
    "\<not> upb_Array_IsFrozen (?arr\<lparr>ar_data := d\<rparr>)" by blast
  ultimately show ?thesis
    using Some pj assms aligned_shift[OF assms(1)]
    by (auto simp: Array_New_def array_wf_def elems_def)
qed


subsection \<open>Properties\<close>

text \<open>One call of an operation that changes an array, and what it does to the list of elements.\<close>

datatype array_op =
  OpSet u64 "byte list" | OpAppend "byte list" | OpResize u64 | OpDelete u64 u64 | OpAppendAll upb_Array | OpCopy upb_Array

definition array_op :: "array_op \<Rightarrow> upb_Array \<Rightarrow> mem_arena \<Rightarrow> (bool \<times> upb_Array \<times> mem_arena) res" where
  "array_op x arr a = (case x of
     OpSet i v \<Rightarrow> bindE (upb_Array_Set arr i v) (\<lambda>arr. Inr (True, arr, a))
   | OpAppend v \<Rightarrow> upb_Array_Append arr v a
   | OpResize n \<Rightarrow> upb_Array_Resize arr n a
   | OpDelete i n \<Rightarrow> bindE (upb_Array_Delete arr i n) (\<lambda>arr. Inr (True, arr, a))
   | OpAppendAll src \<Rightarrow> upb_Array_AppendAll arr src a
   | OpCopy src \<Rightarrow> upb_Array_Copy arr src a)"

definition list_op :: "nat \<Rightarrow> array_op \<Rightarrow> byte list list \<Rightarrow> byte list list" where
  "list_op n x xs = (case x of
     OpSet i v \<Rightarrow> xs[unat i := take n v]
   | OpAppend v \<Rightarrow> xs @ [take n v]
   | OpResize k \<Rightarrow> take (unat k) xs @ replicate (unat k - length xs) (replicate n 0)
   | OpDelete i k \<Rightarrow> take (unat i) xs @ drop (unat i + unat k) xs
   | OpAppendAll src \<Rightarrow> xs @ elems src
   | OpCopy src \<Rightarrow> elems src)"

definition op_allowed :: "array_op \<Rightarrow> upb_Array \<Rightarrow> bool" where
  "op_allowed x arr = (case x of
     OpSet i v \<Rightarrow> unat i < length (elems arr) \<and> length v = 16
   | OpAppend v \<Rightarrow> length (elems arr) + 1 < 2 ^ 64 \<and> length v = 16
   | OpResize k \<Rightarrow> True
   | OpDelete i k \<Rightarrow> unat i + unat k \<le> length (elems arr)
   | OpAppendAll src \<Rightarrow> array_wf src \<and> Array_ElemSizeLg2 src = Array_ElemSizeLg2 arr
   | OpCopy src \<Rightarrow> array_wf src \<and> Array_ElemSizeLg2 src = Array_ElemSizeLg2 arr)"


text \<open>An array of \<open>int32\<close> with the elements 7 and 8 and room for two more.\<close>

definition two_ints :: upb_Array where
  "two_ints = \<lparr>ar_data = 4096 OR 1, ar_mem = [7, 0, 0, 0, 8, 0, 0, 0] @ replicate 8 0xAA, ar_size = 2, ar_capacity = 4\<rparr>"

definition no_memory :: mem_arena where
  "no_memory = (\<lambda>_. None)"

lemma two_ints_ok:
  "array_wf two_ints" "\<not> upb_Array_IsFrozen two_ints" "Array_ElemSizeLg2 two_ints = 2" "ar_size two_ints = 2"
  by (simp_all add: two_ints_def array_wf_def upb_Array_IsFrozen_def UPB_ARRAY_MASK_IMM_def Array_ElemSizeLg2_def
      UPB_ARRAY_MASK_LG2_def)

lemma two_ints_elems: "elems two_ints = [[7, 0, 0, 0], [8, 0, 0, 0]]"
  by code_simp

lemma no_memory_ok: "aligned no_memory"
  by (simp add: aligned_def no_memory_def)


text \<open>
  C24: \<open>upb_Array_Insert\<close> opens a gap of \<open>c\<close> elements at index \<open>i\<close> without touching the elements before
  and after it, and \<open>upb_Array_Delete\<close> on that gap gives the old elements back; when the arena is
  exhausted the array is as it was.
\<close>

theorem array_insert_delete:
  assumes "array_wf arr" "aligned a" "\<not> upb_Array_IsFrozen arr" "i \<le> ar_size arr" "unat c + unat (ar_size arr) < 2 ^ 64"
  shows "\<exists>ok arr' a'. upb_Array_Insert arr i c a = Inr (ok, arr', a') \<and>
    (if ok then length (elems arr') = length (elems arr) + unat c \<and>
       take (unat i) (elems arr') = take (unat i) (elems arr) \<and>
       drop (unat i + unat c) (elems arr') = drop (unat i) (elems arr) \<and>
       (\<exists>arr''. upb_Array_Delete arr' i c = Inr arr'' \<and> array_wf arr'' \<and> elems arr'' = elems arr)
     else arr' = arr)"
proof -
  obtain ok b a' where r: "upb_Array_Insert arr i c a = Inr (ok, b, a')"
    "if ok then array_wf b \<and> \<not> upb_Array_IsFrozen b \<and> Array_ElemSizeLg2 b = Array_ElemSizeLg2 arr \<and>
       (\<exists>new. length new = unat c \<and> elems b = take (unat i) (elems arr) @ new @ drop (unat i) (elems arr)) else b = arr"
    using Insert_elems[OF assms] by blast
  show ?thesis
  proof (cases ok)
    case True
    then obtain new where b: "array_wf b" "\<not> upb_Array_IsFrozen b" "length new = unat c"
      "elems b = take (unat i) (elems arr) @ new @ drop (unat i) (elems arr)" using r by auto
    have i: "unat i \<le> unat (ar_size arr)" using assms(4) by (simp add: word_le_nat_alt)
    have l: "unat (ar_size b) = unat (ar_size arr) + unat c"
      using arg_cong[OF b(4), of length] b(3) i by simp
    then obtain d where "upb_Array_Delete b i c = Inr d" "array_wf d"
      "elems d = take (unat i) (elems b) @ drop (unat i + unat c) (elems b)"
      using Delete_elems[OF b(1,2), of i c] i by auto
    then show ?thesis using True r(1) b(3,4) i l by (intro exI[of _ True] exI[of _ b] exI[of _ a']) simp
  qed (use r in auto)
qed

theorem array_insert_delete_witness:
  "elems two_ints = [[7, 0, 0, 0], [8, 0, 0, 0]] \<and>
   (\<exists>ok arr' a'. upb_Array_Insert two_ints 1 2 no_memory = Inr (ok, arr', a') \<and>
    (if ok then length (elems arr') = length (elems two_ints) + unat (2 :: u64) \<and>
       take (unat (1 :: u64)) (elems arr') = take (unat (1 :: u64)) (elems two_ints) \<and>
       drop (unat (1 :: u64) + unat (2 :: u64)) (elems arr') = drop (unat (1 :: u64)) (elems two_ints) \<and>
       (\<exists>arr''. upb_Array_Delete arr' 1 2 = Inr arr'' \<and> array_wf arr'' \<and> elems arr'' = elems two_ints)
     else arr' = two_ints))"
  by (intro conjI two_ints_elems array_insert_delete[OF two_ints_ok(1) no_memory_ok two_ints_ok(2)])
    (simp_all add: two_ints_ok)

end
