(* ===== verification/Map_Correct.thy ===== *)
theory Map_Correct
  imports Message_Map
begin

text \<open>
  A message map is a map from keys to values, whichever of the two tables it uses. The lemmas rest on
  the contract \<open>map_table\<close> of the tables.
\<close>

subsection \<open>The map a table of either kind stands for\<close>

definition str_part :: "(upb_tabkey \<Rightarrow> u64 option) \<Rightarrow> byte list \<Rightarrow> u64 option" where
  "str_part f s = f (KeyStr s)"

definition num_part :: "(upb_tabkey \<Rightarrow> u64 option) \<Rightarrow> u64 \<Rightarrow> u64 option" where
  "num_part f n = f (KeyNum n)"

definition table_rel :: "u64 \<Rightarrow> upb_Map_Table \<Rightarrow> (upb_tabkey \<Rightarrow> u64 option) \<Rightarrow> bool" where
  "table_rel seed T f \<longleftrightarrow> (case T of
     StrTable t \<Rightarrow> str_rel seed t (str_part f) \<and> num_part f = Map.empty
   | IntTable t \<Rightarrow> int_rel t (num_part f) \<and> str_part f = Map.empty)"

lemma part_upd [simp]:
  "str_part (f(KeyStr k := r)) = (str_part f)(k := r)" "num_part (f(KeyStr k := r)) = num_part f"
  "num_part (f(KeyNum n := r)) = (num_part f)(n := r)" "str_part (f(KeyNum n := r)) = str_part f"
  by (auto simp: str_part_def num_part_def)

lemma table_rel_simps:
  "table_rel seed (StrTable t) f \<longleftrightarrow> str_rel seed t (str_part f) \<and> num_part f = Map.empty"
  "table_rel seed (IntTable u) f \<longleftrightarrow> int_rel u (num_part f) \<and> str_part f = Map.empty"
  by (simp_all add: table_rel_def)

lemma str_remove:
  "table_rel seed (StrTable t) f \<Longrightarrow>
   \<exists>t'. upb_strtable_remove2 seed t s = Inr (f (KeyStr s), t') \<and> table_rel seed (StrTable t') (f(KeyStr s := None))"
  using st.remove_law[of seed t "str_part f" s] unfolding table_rel_simps part_upd str_part_def[of f s] by blast

lemma int_remove:
  "table_rel seed (IntTable t) f \<Longrightarrow>
   \<exists>t'. upb_inttable_remove t n = Inr (f (KeyNum n), t') \<and> table_rel seed (IntTable t') (f(KeyNum n := None))"
  using it.remove_law[of t "num_part f" n] unfolding table_rel_simps part_upd num_part_def[of f n] by blast

lemma str_insert:
  assumes "table_rel seed (StrTable t) f" "f (KeyStr s) = None"
  shows "\<exists>ok t' a'. upb_strtable_insert seed t s v a = Inr (ok, t', a') \<and>
    table_rel seed (StrTable t') (if ok then f(KeyStr s \<mapsto> v) else f)"
proof -
  obtain ok t' a' where "upb_strtable_insert seed t s v a = Inr (ok, t', a')"
    "str_rel seed t' (if ok then (str_part f)(s \<mapsto> v) else str_part f)"
    using st.insert_law[of seed t "str_part f" s v a] assms by (auto simp: table_rel_simps str_part_def)
  then show ?thesis using assms(1) by (cases ok) (auto simp: table_rel_simps)
qed

lemma int_insert:
  assumes "table_rel seed (IntTable t) f" "f (KeyNum n) = None"
  shows "\<exists>ok t' a'. upb_inttable_insert t n v a = Inr (ok, t', a') \<and>
    table_rel seed (IntTable t') (if ok then f(KeyNum n \<mapsto> v) else f)"
proof -
  obtain ok t' a' where "upb_inttable_insert t n v a = Inr (ok, t', a')"
    "int_rel t' (if ok then (num_part f)(n \<mapsto> v) else num_part f)"
    using it.insert_law[of t "num_part f" n v a] assms by (auto simp: table_rel_simps num_part_def)
  then show ?thesis using assms(1) by (cases ok) (auto simp: table_rel_simps)
qed

lemma table_rel_dom: "table_rel seed (StrTable t) f \<Longrightarrow> dom f = KeyStr ` dom (str_part f)"
proof (intro set_eqI iffI)
  fix k assume "table_rel seed (StrTable t) f" "k \<in> dom f"
  then show "k \<in> KeyStr ` dom (str_part f)"
    by (cases k) (auto simp: table_rel_simps str_part_def num_part_def fun_eq_iff)
qed (auto simp: str_part_def)

lemma table_rel_card:
  assumes "table_rel seed T f"
  shows "(case T of StrTable t \<Rightarrow> unat (t_count t) | IntTable t \<Rightarrow> upb_inttable_count t) = card (dom f)"
proof (cases T)
  case (StrTable t)
  have "dom f = KeyStr ` dom (str_part f)" using assms StrTable by (intro table_rel_dom) simp
  then show ?thesis
    using assms StrTable st.count_law[of seed t "str_part f"]
    by (simp add: table_rel_simps upb_strtable_count_def card_image inj_on_def)
next
  case (IntTable t)
  have "k \<in> KeyNum ` dom (num_part f)" if "k \<in> dom f" for k
    using that assms IntTable by (cases k) (auto simp: table_rel_simps str_part_def num_part_def fun_eq_iff)
  then have "dom f = KeyNum ` dom (num_part f)" by (auto simp: num_part_def)
  then show ?thesis
    using assms IntTable it.count_law[of t "num_part f"] by (simp add: table_rel_simps card_image inj_on_def)
qed

subsection \<open>The map a message map stands for\<close>

definition map_wf :: "upb_TMap \<Rightarrow> bool" where
  "map_wf mp \<longleftrightarrow> (case m_t mp of StrTable _ \<Rightarrow> m_key_size mp = 0 | IntTable _ \<Rightarrow> m_key_size mp \<noteq> 0)"

text \<open>An argument of the right kind, the key it is looked up by and the value that is stored.\<close>

definition arg_ok :: "nat \<Rightarrow> upb_MessageValue \<Rightarrow> bool" where
  "arg_ok n v \<longleftrightarrow> (case v of StrVal _ \<Rightarrow> n = 0 | NumVal _ \<Rightarrow> n \<noteq> 0)"

definition key_of_val :: "nat \<Rightarrow> upb_MessageValue \<Rightarrow> upb_tabkey" where
  "key_of_val n v = (case v of StrVal s \<Rightarrow> KeyStr s | NumVal w \<Rightarrow> KeyNum (take_bit (8 * n) w))"

definition stored_val :: "nat \<Rightarrow> upb_MessageValue \<Rightarrow> upb_MessageValue" where
  "stored_val n v = (case v of StrVal s \<Rightarrow> StrVal s | NumVal w \<Rightarrow> NumVal (take_bit (8 * n) w))"

definition tab_val :: "byte list list \<Rightarrow> nat \<Rightarrow> u64 \<Rightarrow> upb_MessageValue" where
  "tab_val views n w = (if n = 0 then StrVal (views ! unat w) else NumVal (take_bit (8 * n) w))"

definition holds :: "u64 \<Rightarrow> upb_TMap \<Rightarrow> (upb_tabkey \<Rightarrow> upb_MessageValue option) \<Rightarrow> bool" where
  "holds seed mp M \<longleftrightarrow> map_wf mp \<and> (\<exists>f. table_rel seed (m_t mp) f \<and>
     M = (\<lambda>k. map_option (tab_val (m_views mp) (m_val_size mp)) (f k)) \<and>
     (m_val_size mp = 0 \<longrightarrow> (\<forall>k w. f k = Some w \<longrightarrow> unat w < length (m_views mp))))"

lemma holdsE:
  assumes "holds seed mp M"
  obtains f where "table_rel seed (m_t mp) f" "M = (\<lambda>k. map_option (tab_val (m_views mp) (m_val_size mp)) (f k))"
    "\<And>k w. m_val_size mp = 0 \<Longrightarrow> f k = Some w \<Longrightarrow> unat w < length (m_views mp)" "map_wf mp"
  using assms by (auto simp: holds_def)

lemma fromvalue_ok:
  "(n = 0 \<Longrightarrow> unat w < length views) \<Longrightarrow> upb_map_fromvalue views w n = Inr (tab_val views n w)"
  by (simp add: upb_map_fromvalue_def tab_val_def UPB_MAPTYPE_STRING_def)

lemma Get_ok:
  assumes "holds seed mp M" "arg_ok (m_key_size mp) k"
  shows "upb_Map_Get seed mp k = Inr (M (key_of_val (m_key_size mp) k))"
proof -
  obtain f where f: "table_rel seed (m_t mp) f" "M = (\<lambda>k. map_option (tab_val (m_views mp) (m_val_size mp)) (f k))"
    "\<And>k w. m_val_size mp = 0 \<Longrightarrow> f k = Some w \<Longrightarrow> unat w < length (m_views mp)" "map_wf mp"
    using holdsE[OF assms(1)] by blast
  let ?k = "key_of_val (m_key_size mp) k"
  have "(case m_t mp of StrTable t \<Rightarrow> bindE (map_tokey_view k (m_key_size mp)) (upb_strtable_lookup2 seed t)
      | IntTable t \<Rightarrow> bindE (upb_map_tointkey k (m_key_size mp)) (upb_inttable_lookup t)) = Inr (f ?k)"
    using f(1,4) assms(2) st.lookup_law[of seed _ "str_part f"] it.lookup_law[of _ "num_part f"]
    by (auto simp: table_rel_simps str_part_def num_part_def map_wf_def arg_ok_def map_tokey_view_def UPB_MAPTYPE_STRING_def str_view_def
        upb_map_tointkey_def num_bytes_def key_of_val_def split: upb_Map_Table.splits upb_MessageValue.splits)
  then show ?thesis
    using f(2,3) by (auto simp: upb_Map_Get_def Map_Get_tab_def fromvalue_ok split: option.splits)
qed

subsection \<open>Deletion\<close>

lemma key_view: "map_wf mp \<Longrightarrow> arg_ok (m_key_size mp) k \<Longrightarrow> m_t mp = StrTable t \<Longrightarrow>
    \<exists>s. k = StrVal s \<and> map_tokey_view k (m_key_size mp) = Inr s \<and> key_of_val (m_key_size mp) k = KeyStr s"
  by (auto simp: map_wf_def arg_ok_def map_tokey_view_def UPB_MAPTYPE_STRING_def str_view_def key_of_val_def
      split: upb_MessageValue.splits)

lemma key_int: "map_wf mp \<Longrightarrow> arg_ok (m_key_size mp) k \<Longrightarrow> m_t mp = IntTable t \<Longrightarrow>
    \<exists>n. upb_map_tointkey k (m_key_size mp) = Inr n \<and> key_of_val (m_key_size mp) k = KeyNum n"
  by (auto simp: map_wf_def arg_ok_def upb_map_tointkey_def num_bytes_def key_of_val_def
      split: upb_MessageValue.splits)

text \<open>Removal from the table of a map, whichever it is.\<close>

lemma Delete_tab_ok:
  assumes "table_rel seed (m_t mp) f" "map_wf mp" "arg_ok (m_key_size mp) k" "\<not> m_is_frozen mp"
  shows "\<exists>T. Map_Delete_tab seed mp k (m_key_size mp) = Inr (f (key_of_val (m_key_size mp) k), mp\<lparr>m_t := T\<rparr>) \<and>
    table_rel seed T (f(key_of_val (m_key_size mp) k := None)) \<and> map_wf (mp\<lparr>m_t := T\<rparr>)"
proof (cases "m_t mp")
  case (StrTable t)
  obtain s where s: "map_tokey_view k (m_key_size mp) = Inr s" "key_of_val (m_key_size mp) k = KeyStr s"
    using key_view[OF assms(2,3) StrTable] by blast
  from str_remove[OF assms(1)[unfolded StrTable], of s] show ?thesis
    using s assms(2,4) StrTable by (auto simp: Map_Delete_tab_def map_wf_def)
next
  case (IntTable t)
  obtain n where n: "upb_map_tointkey k (m_key_size mp) = Inr n" "key_of_val (m_key_size mp) k = KeyNum n"
    using key_int[OF assms(2,3) IntTable] by blast
  from int_remove[OF assms(1)[unfolded IntTable], of n] show ?thesis
    using n assms(2,4) IntTable by (auto simp: Map_Delete_tab_def map_wf_def)
qed

lemma Delete_ok:
  assumes "holds seed mp M" "arg_ok (m_key_size mp) k" "\<not> m_is_frozen mp"
    and "M (key_of_val (m_key_size mp) k) \<noteq> None \<or> \<not> want"
  shows "\<exists>mp'. upb_Map_Delete junk seed mp k want =
      Inr (M (key_of_val (m_key_size mp) k) \<noteq> None, if want then M (key_of_val (m_key_size mp) k) else None, mp') \<and>
    holds seed mp' (M(key_of_val (m_key_size mp) k := None))"
proof -
  obtain f where f: "table_rel seed (m_t mp) f" "M = (\<lambda>k. map_option (tab_val (m_views mp) (m_val_size mp)) (f k))"
    "\<And>k w. m_val_size mp = 0 \<Longrightarrow> f k = Some w \<Longrightarrow> unat w < length (m_views mp)" "map_wf mp"
    using holdsE[OF assms(1)] by blast
  let ?k = "key_of_val (m_key_size mp) k"
  obtain T where T: "Map_Delete_tab seed mp k (m_key_size mp) = Inr (f ?k, mp\<lparr>m_t := T\<rparr>)"
    "table_rel seed T (f(?k := None))" "map_wf (mp\<lparr>m_t := T\<rparr>)" using Delete_tab_ok[OF f(1,4) assms(2,3)] by blast
  have "holds seed (mp\<lparr>m_t := T\<rparr>) (M(?k := None))"
    using T(2,3) f(2,3) unfolding holds_def by (intro conjI exI[of _ "f(?k := None)"]) auto
  moreover have "upb_map_fromvalue (m_views mp) w (m_val_size mp) = Inr (tab_val (m_views mp) (m_val_size mp) w)"
    if "f ?k = Some w" for w using that f(3) by (intro fromvalue_ok) simp
  ultimately show ?thesis
    using T(1) f(2) assms(4) by (cases "f ?k") (auto simp: upb_Map_Delete_def)
qed

lemma Delete_sizes: "upb_Map_Delete junk seed mp k want = Inr (b, r, mp') \<Longrightarrow> m_key_size mp' = m_key_size mp"
  by (cases "m_t mp") (auto simp: upb_Map_Delete_def Map_Delete_tab_def bindE_eq_Inr Let_def split: option.splits if_splits)

subsection \<open>Insertion\<close>

lemma tovalue_ok:
  assumes "arg_ok n v"
  shows "\<exists>r a'. upb_map_tovalue v n views a = Inr (r, a') \<and>
    (\<forall>w views'. r = Some (w, views') \<longrightarrow> tab_val views' n w = stored_val n v \<and> (n = 0 \<longrightarrow> unat w < length views') \<and>
       (\<exists>ys. views' = views @ ys))"
proof (cases v)
  case (NumVal w)
  then show ?thesis
    using assms by (auto simp: arg_ok_def upb_map_tovalue_def UPB_MAPTYPE_STRING_def num_bytes_def tab_val_def stored_val_def)
next
  case (StrVal s)
  have "unat (of_nat (length views) :: u64) = length views" if "length views < 2 ^ 64 - 1"
    using that by (simp add: unat_of_nat)
  then show ?thesis
    using assms StrVal by (auto simp: arg_ok_def upb_map_tovalue_def UPB_MAPTYPE_STRING_def str_view_def tab_val_def
        stored_val_def nth_append)
qed

text \<open>The table part of an insertion: a removal and an insertion.\<close>

lemma put_ok:
  assumes "table_rel seed (m_t mp) f" "map_wf mp" "arg_ok (m_key_size mp) k" "\<not> m_is_frozen mp"
    and v: "upb_map_tovalue val (m_val_size mp) (m_views mp) a = Inr (Some (w, views), a1)"
  shows "\<exists>ok T a'. Map_Insert_api seed mp k val a =
      Inr (if ok then if f (key_of_val (m_key_size mp) k) \<noteq> None then Replaced else Inserted else MapOutOfMemory,
           mp\<lparr>m_views := views, m_t := T\<rparr>, a') \<and>
    table_rel seed T (f(key_of_val (m_key_size mp) k := if ok then Some w else None)) \<and> map_wf (mp\<lparr>m_t := T\<rparr>)"
proof (cases "m_t mp")
  case (StrTable t)
  obtain s where s: "map_tokey_view k (m_key_size mp) = Inr s" "key_of_val (m_key_size mp) k = KeyStr s"
    using key_view[OF assms(2,3) StrTable] by blast
  obtain t1 where t1: "upb_strtable_remove2 seed t s = Inr (f (KeyStr s), t1)" "table_rel seed (StrTable t1) (f(KeyStr s := None))"
    using str_remove[OF assms(1)[unfolded StrTable]] by blast
  obtain ok t2 a2 where t2: "upb_strtable_insert seed t1 s w a1 = Inr (ok, t2, a2)"
    "table_rel seed (StrTable t2) (if ok then (f(KeyStr s := None))(KeyStr s \<mapsto> w) else f(KeyStr s := None))"
    using str_insert[OF t1(2), of s w a1] by auto
  show ?thesis
    using s t1(1) t2 v assms(2,4) StrTable
    by (intro exI[of _ ok] exI[of _ "StrTable t2"] exI[of _ a2])
      (cases ok, simp_all add: Map_Insert_api_def Map_Insert_tab_def map_wf_def Let_def)
next
  case (IntTable t)
  obtain n where n: "upb_map_tointkey k (m_key_size mp) = Inr n" "key_of_val (m_key_size mp) k = KeyNum n"
    using key_int[OF assms(2,3) IntTable] by blast
  obtain t1 where t1: "upb_inttable_remove t n = Inr (f (KeyNum n), t1)" "table_rel seed (IntTable t1) (f(KeyNum n := None))"
    using int_remove[OF assms(1)[unfolded IntTable]] by blast
  obtain ok t2 a2 where t2: "upb_inttable_insert t1 n w a1 = Inr (ok, t2, a2)"
    "table_rel seed (IntTable t2) (if ok then (f(KeyNum n := None))(KeyNum n \<mapsto> w) else f(KeyNum n := None))"
    using int_insert[OF t1(2), of n w a1] by auto
  show ?thesis
    using n t1(1) t2 v assms(2,4) IntTable
    by (intro exI[of _ ok] exI[of _ "IntTable t2"] exI[of _ a2])
      (cases ok, simp_all add: Map_Insert_api_def Map_Insert_tab_def map_wf_def Let_def)
qed

lemma Insert_sizes:
  "Map_Insert_api seed mp k v a = Inr (status, mp', a') \<Longrightarrow> m_key_size mp' = m_key_size mp"
  by (cases "m_t mp") (auto simp: Map_Insert_api_def Map_Insert_tab_def bindE_eq_Inr Let_def split: option.splits prod.splits)

definition insert_post :: "u64 \<Rightarrow> (upb_tabkey \<Rightarrow> upb_MessageValue option) \<Rightarrow> upb_tabkey \<Rightarrow> upb_MessageValue \<Rightarrow>
    upb_MapInsertStatus \<Rightarrow> upb_TMap \<Rightarrow> bool" where
  "insert_post seed M k v status mp \<longleftrightarrow> (case status of
     Inserted \<Rightarrow> M k = None \<and> holds seed mp (M(k \<mapsto> v))
   | Replaced \<Rightarrow> M k \<noteq> None \<and> holds seed mp (M(k \<mapsto> v))
   | MapOutOfMemory \<Rightarrow> holds seed mp M \<or> holds seed mp (M(k := None)))"

lemma Insert_ok:
  assumes "holds seed mp M" "arg_ok (m_key_size mp) k" "arg_ok (m_val_size mp) v" "\<not> m_is_frozen mp"
  shows "\<exists>status mp' a'. Map_Insert_api seed mp k v a = Inr (status, mp', a') \<and>
    insert_post seed M (key_of_val (m_key_size mp) k) (stored_val (m_val_size mp) v) status mp'"
proof -
  obtain f where f: "table_rel seed (m_t mp) f" "M = (\<lambda>k. map_option (tab_val (m_views mp) (m_val_size mp)) (f k))"
    "\<And>k w. m_val_size mp = 0 \<Longrightarrow> f k = Some w \<Longrightarrow> unat w < length (m_views mp)" "map_wf mp"
    using holdsE[OF assms(1)] by blast
  let ?k = "key_of_val (m_key_size mp) k" and ?v = "stored_val (m_val_size mp) v"
  obtain r a1 where r: "upb_map_tovalue v (m_val_size mp) (m_views mp) a = Inr (r, a1)"
    "\<And>w views. r = Some (w, views) \<Longrightarrow> tab_val views (m_val_size mp) w = ?v \<and>
       (m_val_size mp = 0 \<longrightarrow> unat w < length views) \<and> (\<exists>ys. views = m_views mp @ ys)"
    using tovalue_ok[OF assms(3), of "m_views mp" a] by blast
  show ?thesis
  proof (cases r)
    case None
    then show ?thesis
      using r(1) assms(1,4) by (simp add: Map_Insert_api_def Map_Insert_tab_def insert_post_def)
  next
    case (Some x)
    obtain w views where x: "x = (w, views)" by (cases x)
    then have w: "tab_val views (m_val_size mp) w = ?v" "m_val_size mp = 0 \<Longrightarrow> unat w < length views"
      "\<exists>ys. views = m_views mp @ ys" using r(2)[of w views] Some by auto
    obtain ok T a' where T: "Map_Insert_api seed mp k v a =
        Inr (if ok then if f ?k \<noteq> None then Replaced else Inserted else MapOutOfMemory, mp\<lparr>m_views := views, m_t := T\<rparr>, a')"
      "table_rel seed T (f(?k := if ok then Some w else None))" "map_wf (mp\<lparr>m_t := T\<rparr>)"
      using put_ok[OF f(1,4) assms(2,4) r(1)[unfolded Some x]] by blast
    have "holds seed (mp\<lparr>m_views := views, m_t := T\<rparr>) (M(?k := if ok then Some ?v else None))"
      unfolding holds_def
    proof (intro conjI exI[of _ "f(?k := if ok then Some w else None)"])
      show "map_wf (mp\<lparr>m_views := views, m_t := T\<rparr>)" using T(3) by (cases T) (simp_all add: map_wf_def)
      have "tab_val views (m_val_size mp) w' = tab_val (m_views mp) (m_val_size mp) w'" if "f k' = Some w'" for k' w'
        using w(3) f(3)[OF _ that] by (auto simp: tab_val_def nth_append)
      then show "M(?k := if ok then Some ?v else None) = (\<lambda>k'. map_option (tab_val (m_views (mp\<lparr>m_views := views, m_t := T\<rparr>))
          (m_val_size (mp\<lparr>m_views := views, m_t := T\<rparr>))) ((f(?k := if ok then Some w else None)) k'))"
        using f(2) w(1) by (auto simp: fun_eq_iff option.map_comp intro!: option.map_cong)
    qed (use T(2) w f(3) in \<open>auto split: if_splits intro: trans_less_add1\<close>)
    then show ?thesis using T(1) f(2) by (cases ok) (auto simp: insert_post_def)
  qed
qed

subsection \<open>Creation, clearing, size\<close>

lemma empty_parts [simp]: "str_part Map.empty = Map.empty" "num_part Map.empty = Map.empty"
  by (auto simp: str_part_def num_part_def)

lemma New_ok:
  assumes "Map_New_api kt vt a = Inr (Some mp, a')"
  shows "holds seed mp Map.empty" "m_key_size mp = upb_Map_CTypeSize kt" "m_val_size mp = upb_Map_CTypeSize vt"
    "\<not> m_is_frozen mp"
proof -
  let ?n = "upb_Map_CTypeSize kt"
  have "?n \<le> 8" by (simp add: upb_Map_CTypeSize_def UPB_MAPTYPE_STRING_def split: upb_CType.splits)
  then have "(\<exists>t a0 a1. mp = \<lparr>m_key_size = ?n, m_val_size = upb_Map_CTypeSize vt, m_is_frozen = False, m_t = IntTable t, m_views = []\<rparr> \<and>
        ?n \<noteq> 0 \<and> upb_inttable_init a0 = (Some t, a1)) \<or>
      (\<exists>t a0 a1. mp = \<lparr>m_key_size = ?n, m_val_size = upb_Map_CTypeSize vt, m_is_frozen = False, m_t = StrTable t, m_views = []\<rparr> \<and>
        ?n = 0 \<and> upb_strtable_init 4 a0 = Inr (Some t, a1))"
    using assms by (auto simp: Map_New_api_def Map_New_tab_def UPB_MAPTYPE_STRING_def Let_def bindE_eq_Inr
        split: if_splits prod.splits option.splits)
  then show "holds seed mp Map.empty" "m_key_size mp = ?n" "m_val_size mp = upb_Map_CTypeSize vt" "\<not> m_is_frozen mp"
    using int_init_rel(1) str_init_rel
    by (auto simp: holds_def map_wf_def table_rel_simps upb_inttable_init_def intro!: exI[of _ Map.empty])
qed

lemma Clear_ok:
  assumes "holds seed mp M" "\<not> m_is_frozen mp"
  shows "\<exists>mp'. upb_Map_Clear mp = Inr mp' \<and> holds seed mp' Map.empty"
proof -
  obtain f where "table_rel seed (m_t mp) f" "map_wf mp" using holdsE[OF assms(1)] by blast
  then show ?thesis
    using assms(2) st.clear_law it.clear_law
    by (cases "m_t mp") (auto simp: upb_Map_Clear_def Map_Clear_tab_def holds_def map_wf_def table_rel_simps
        intro!: exI[of _ Map.empty])
qed

lemma Size_ok:
  assumes "holds seed mp M"
  shows "Map_Size_api mp = card (dom M)"
proof -
  obtain f where f: "table_rel seed (m_t mp) f" "M = (\<lambda>k. map_option (tab_val (m_views mp) (m_val_size mp)) (f k))"
    using holdsE[OF assms] by blast
  have "dom M = dom f" using f(2) by (auto simp: dom_def)
  then show ?thesis using table_rel_card[OF f(1)] by (simp add: Map_Size_api_def Map_Size_tab_def)
qed

lemma holds_finite: "holds seed mp M \<Longrightarrow> finite (dom M)"
proof -
  assume "holds seed mp M"
  then obtain f where f: "table_rel seed (m_t mp) f" "M = (\<lambda>k. map_option (tab_val (m_views mp) (m_val_size mp)) (f k))"
    using holdsE by blast
  have "finite (dom f)"
  proof (cases "m_t mp")
    case (StrTable t)
    have "dom f = KeyStr ` dom (str_part f)"
      using f(1) StrTable by (intro table_rel_dom) simp
    moreover have "finite (dom (str_part f))"
      using f(1) StrTable strtable_items_ok[of seed t "str_part f"] finite_dom_map_of
      unfolding table_rel_simps by (metis table_rel_simps(1))
    ultimately show ?thesis by simp
  next
    case (IntTable t)
    have "k \<in> KeyNum ` dom (num_part f)" if "k \<in> dom f" for k
      using that f(1) IntTable by (cases k) (auto simp: table_rel_simps str_part_def num_part_def fun_eq_iff)
    then have "dom f \<subseteq> KeyNum ` dom (num_part f)" by auto
    then show ?thesis using finite_subset by fastforce
  qed
  then show ?thesis using f(2) by (auto simp: dom_def)
qed

subsection \<open>Properties\<close>

text \<open>
  C21: Setting a key of a message map changes the lookup of this key and of no other. The status says whether
  the key was there. When memory runs out the lookup of other keys is unchanged, and the key itself has
  its old value or none: the old value is removed before the new one is inserted.
\<close>

theorem message_map_insert:
  assumes "holds seed mp M" "arg_ok (m_key_size mp) k" "arg_ok (m_val_size mp) v" "\<not> m_is_frozen mp"
  shows "\<exists>status mp' a' old. Map_Insert_api seed mp k v a = Inr (status, mp', a') \<and>
    upb_Map_Get seed mp k = Inr old \<and>
    (status \<noteq> MapOutOfMemory \<longrightarrow> (status = Replaced \<longleftrightarrow> old \<noteq> None) \<and>
       upb_Map_Get seed mp' k = Inr (Some (stored_val (m_val_size mp) v))) \<and>
    (status = MapOutOfMemory \<longrightarrow> upb_Map_Get seed mp' k \<in> {Inr old, Inr None}) \<and>
    (\<forall>k'. arg_ok (m_key_size mp) k' \<and> key_of_val (m_key_size mp) k' \<noteq> key_of_val (m_key_size mp) k \<longrightarrow>
       upb_Map_Get seed mp' k' = upb_Map_Get seed mp k')"
proof -
  let ?key = "key_of_val (m_key_size mp)" and ?v = "stored_val (m_val_size mp) v"
  obtain status mp' a' where i: "Map_Insert_api seed mp k v a = Inr (status, mp', a')"
    "insert_post seed M (?key k) ?v status mp'" "m_key_size mp' = m_key_size mp"
    using Insert_ok[OF assms, of a] Insert_sizes by blast
  have get: "upb_Map_Get seed mp' k' = Inr (M' (?key k'))" if "holds seed mp' M'" "arg_ok (m_key_size mp) k'" for M' k'
    using Get_ok[OF that(1)] that(2) i(3) by simp
  have "upb_Map_Get seed mp' k' = upb_Map_Get seed mp k'"
    if "arg_ok (m_key_size mp) k'" "?key k' \<noteq> ?key k" for k'
    using i(2) get[OF _ that(1)] Get_ok[OF assms(1) that(1)] that(2)
    by (auto simp: insert_post_def split: upb_MapInsertStatus.splits)
  moreover have "upb_Map_Get seed mp k = Inr (M (?key k))" by (rule Get_ok[OF assms(1,2)])
  ultimately show ?thesis
    using i(1,2) get[OF _ assms(2)]
    by (intro exI[of _ status] exI[of _ mp'] exI[of _ a'] exI[of _ "M (?key k)"])
      (auto simp: insert_post_def split: upb_MapInsertStatus.splits)
qed

theorem message_map_insert_witness:
  "\<exists>mp status mp' a'. holds 3 mp Map.empty \<and> arg_ok (m_key_size mp) (NumVal 5) \<and> arg_ok (m_val_size mp) (StrVal [1]) \<and>
    Map_Insert_api 3 mp (NumVal 5) (StrVal [1]) (\<lambda>_. True) = Inr (status, mp', a') \<and> status \<noteq> Replaced"
proof -
  obtain mp a' where n: "Map_New_api CType_Int32 CType_String (\<lambda>_. True) = Inr (Some mp, a')"
    by (simp add: Map_New_api_def Map_New_tab_def upb_Map_CTypeSize_def UPB_MAPTYPE_STRING_def Let_def
        upb_inttable_init_def upb_inttable_sizedinit_def table_init_def)
  note N = New_ok[OF n]
  have args: "arg_ok (m_key_size mp) (NumVal 5)" "arg_ok (m_val_size mp) (StrVal [1])"
    using N(2,3) by (simp_all add: arg_ok_def upb_Map_CTypeSize_def UPB_MAPTYPE_STRING_def)
  from message_map_insert[OF N(1)[of 3] args N(4), of "\<lambda>_. True"] show ?thesis
    using N(1)[of 3] args Get_ok[OF N(1)[of 3] args(1)] by auto
qed

text \<open>
  C22: Deleting a key of a message map returns whether it was there and its value, and changes no other lookup.
\<close>

theorem message_map_delete:
  assumes "holds seed mp M" "arg_ok (m_key_size mp) k" "\<not> m_is_frozen mp" "upb_Map_Get seed mp k = Inr (Some v)"
  shows "\<exists>mp'. upb_Map_Delete junk seed mp k True = Inr (True, Some v, mp') \<and> upb_Map_Get seed mp' k = Inr None \<and>
    Map_Size_api mp = Suc (Map_Size_api mp') \<and>
    (\<forall>k'. arg_ok (m_key_size mp) k' \<and> key_of_val (m_key_size mp) k' \<noteq> key_of_val (m_key_size mp) k \<longrightarrow>
       upb_Map_Get seed mp' k' = upb_Map_Get seed mp k')"
proof -
  let ?key = "key_of_val (m_key_size mp)"
  have M: "M (?key k) = Some v" using Get_ok[OF assms(1,2)] assms(4) by simp
  obtain mp' where d: "upb_Map_Delete junk seed mp k True = Inr (True, Some v, mp')" "holds seed mp' (M(?key k := None))"
    using Delete_ok[OF assms(1-3), of True junk] M by auto
  have s: "m_key_size mp' = m_key_size mp" using Delete_sizes[OF d(1)] .
  have get: "upb_Map_Get seed mp' k' = Inr ((M(?key k := None)) (?key k'))" if "arg_ok (m_key_size mp) k'" for k'
    using Get_ok[OF d(2)] that s by simp
  have "finite (dom M)" using holds_finite[OF assms(1)] .
  then have "Map_Size_api mp = Suc (Map_Size_api mp')"
    using Size_ok[OF assms(1)] Size_ok[OF d(2)] M card_Suc_Diff1[of "dom M" "?key k"] by (auto simp: domIff)
  then show ?thesis using d(1) get[OF assms(2)] get Get_ok[OF assms(1)] by auto
qed

theorem message_map_delete_witness:
  "\<exists>mp v mp'. holds 3 mp [KeyNum 5 \<mapsto> NumVal 9] \<and> upb_Map_Get 3 mp (NumVal 5) = Inr (Some v) \<and>
    upb_Map_Delete 0 3 mp (NumVal 5) True = Inr (True, Some v, mp') \<and> Map_Size_api mp = Suc (Map_Size_api mp')"
proof -
  obtain t a0 where t: "upb_inttable_init (\<lambda>_. True) = (Some t, a0)"
    by (simp add: upb_inttable_init_def upb_inttable_sizedinit_def table_init_def Let_def)
  note I = int_init_rel[OF t[unfolded upb_inttable_init_def]]
  obtain t1 where "int_rel t1 [5 \<mapsto> 9]" using int_insert_ok[OF I(1), of 5 9 "\<lambda>_. True"] I(4) by auto
  moreover have "num_part [KeyNum 5 \<mapsto> 9] = [5 \<mapsto> 9]" "str_part [KeyNum 5 \<mapsto> 9] = Map.empty" by simp_all
  ultimately have "table_rel 3 (IntTable t1) [KeyNum 5 \<mapsto> 9]" by (simp add: table_rel_simps del: part_upd)
  then have "holds 3 \<lparr>m_key_size = 4, m_val_size = 4, m_is_frozen = False, m_t = IntTable t1, m_views = []\<rparr>
      [KeyNum 5 \<mapsto> NumVal 9]"
    by (auto simp: holds_def map_wf_def tab_val_def fun_eq_iff intro!: exI[of _ "[KeyNum 5 \<mapsto> 9]"])
  then obtain mp where mp: "holds 3 mp [KeyNum 5 \<mapsto> NumVal 9]" "m_key_size mp = 4" "\<not> m_is_frozen mp" by force
  have k: "arg_ok (m_key_size mp) (NumVal 5)" using mp(2) by (simp add: arg_ok_def)
  have g: "upb_Map_Get 3 mp (NumVal 5) = Inr (Some (NumVal 9))"
    using Get_ok[OF mp(1) k] mp(2) by (simp add: key_of_val_def)
  from message_map_delete[OF mp(1) k mp(3) g, of 0] show ?thesis using mp(1) g by blast
qed

text \<open>
  C33: Deleting an absent key of a map with string values, with a pointer for the deleted value, converts a
  value that was never written and follows it as a pointer: the call faults unless the garbage happens
  to be the address of a view. The documentation promises the value only for a key that is present.
\<close>

theorem message_map_delete_absent:
  assumes "holds seed mp M" "arg_ok (m_key_size mp) k" "\<not> m_is_frozen mp" "upb_Map_Get seed mp k = Inr None"
    and "m_val_size mp = 0" "unat junk \<ge> length (m_views mp)"
  shows "upb_Map_Delete junk seed mp k True = Inl OutOfBounds"
proof -
  obtain f where f: "table_rel seed (m_t mp) f" "M = (\<lambda>k. map_option (tab_val (m_views mp) (m_val_size mp)) (f k))" "map_wf mp"
    using holdsE[OF assms(1)] by blast
  have "f (key_of_val (m_key_size mp) k) = None" using Get_ok[OF assms(1,2)] assms(4) f(2) by simp
  then obtain T where "Map_Delete_tab seed mp k (m_key_size mp) = Inr (None, mp\<lparr>m_t := T\<rparr>)"
    using Delete_tab_ok[OF f(1,3) assms(2,3)] by auto
  then show ?thesis using assms(5,6) by (simp add: upb_Map_Delete_def upb_map_fromvalue_def UPB_MAPTYPE_STRING_def)
qed

theorem message_map_delete_absent_witness:
  "\<exists>mp. holds 3 mp Map.empty \<and> upb_Map_Get 3 mp (NumVal 5) = Inr None \<and> m_val_size mp = 0 \<and>
    upb_Map_Delete 4096 3 mp (NumVal 5) True = Inl OutOfBounds"
proof -
  obtain mp a' where n: "Map_New_api CType_Int32 CType_String (\<lambda>_. True) = Inr (Some mp, a')"
    and views: "m_views mp = []"
    by (simp add: Map_New_api_def Map_New_tab_def upb_Map_CTypeSize_def UPB_MAPTYPE_STRING_def Let_def
        upb_inttable_init_def upb_inttable_sizedinit_def table_init_def)
  note N = New_ok[OF n]
  have k: "arg_ok (m_key_size mp) (NumVal 5)" and vs: "m_val_size mp = 0"
    using N(2,3) by (simp_all add: arg_ok_def upb_Map_CTypeSize_def UPB_MAPTYPE_STRING_def)
  have g: "upb_Map_Get 3 mp (NumVal 5) = Inr None" using Get_ok[OF N(1)[of 3] k] by simp
  have "upb_Map_Delete 4096 3 mp (NumVal 5) True = Inl OutOfBounds"
    by (rule message_map_delete_absent[OF N(1)[of 3] k N(4) g vs]) (simp add: views)
  then show ?thesis using N(1)[of 3] g vs by blast
qed

end
