(* ===== verification/Base92.thy ===== *)
theory Base92
  imports Mini_Table
begin

text \<open>
  The alphabet and the variable-length numbers of mini descriptors: \<open>mini_descriptor/internal/base92.[ch]\<close>,
  \<open>internal/wire_constants.h\<close> and the writer of \<open>internal/encode.c\<close> that the encoder of descriptors is
  built on. A pointer into a descriptor is the list of the characters that are left; the written part
  of the output is a list, and a full buffer is \<open>None\<close>.
\<close>

subsection \<open>The alphabet\<close>

definition kUpb_ToBase92 :: "nat list" where
  "kUpb_ToBase92 = [
     32, 33, 35, 36, 37, 38, 40, 41, 42, 43, 44, 45, 46, 47,
     48, 49, 50, 51, 52, 53, 54, 55, 56, 57, 58, 59, 60, 61,
     62, 63, 64, 65, 66, 67, 68, 69, 70, 71, 72, 73, 74, 75,
     76, 77, 78, 79, 80, 81, 82, 83, 84, 85, 86, 87, 88, 89,
     90, 91, 93, 94, 95, 96, 97, 98, 99, 100, 101, 102, 103, 104,
     105, 106, 107, 108, 109, 110, 111, 112, 113, 114, 115, 116, 117, 118,
     119, 120, 121, 122, 123, 124, 125, 126]"

definition kUpb_FromBase92 :: "int list" where
  "kUpb_FromBase92 = [
     0,  1,  -1, 2,  3,  4,  5,  -1, 6,  7,  8,  9,  10, 11, 12, 13, 14, 15, 16,
     17, 18, 19, 20, 21, 22, 23, 24, 25, 26, 27, 28, 29, 30, 31, 32, 33, 34, 35,
     36, 37, 38, 39, 40, 41, 42, 43, 44, 45, 46, 47, 48, 49, 50, 51, 52, 53, 54,
     55, 56, 57, -1, 58, 59, 60, 61, 62, 63, 64, 65, 66, 67, 68, 69, 70, 71, 72,
     73, 74, 75, 76, 77, 78, 79, 80, 81, 82, 83, 84, 85, 86, 87, 88, 89, 90, 91]"

definition upb_ToBase92 :: "int \<Rightarrow> byte res" where
  "upb_ToBase92 ch =
     bindE (assertE (0 \<le> ch \<and> ch < 92)) (\<lambda>_. Inr (of_nat (kUpb_ToBase92 ! nat ch)))"

definition upb_FromBase92 :: "byte \<Rightarrow> int" where
  "upb_FromBase92 ch = (if 32 > ch \<or> ch > 126 then - 1 else kUpb_FromBase92 ! (unat ch - 32))"

subsection \<open>Constants\<close>

definition kUpb_EncodedValue_MaxField :: byte where "kUpb_EncodedValue_MaxField = 73"
definition kUpb_EncodedValue_MinModifier :: byte where "kUpb_EncodedValue_MinModifier = 76"
definition kUpb_EncodedValue_MaxModifier :: byte where "kUpb_EncodedValue_MaxModifier = 91"
definition kUpb_EncodedValue_End :: byte where "kUpb_EncodedValue_End = 94"
definition kUpb_EncodedValue_MinSkip :: byte where "kUpb_EncodedValue_MinSkip = 95"
definition kUpb_EncodedValue_MaxSkip :: byte where "kUpb_EncodedValue_MaxSkip = 126"
definition kUpb_EncodedValue_OneofSeparator :: byte where "kUpb_EncodedValue_OneofSeparator = 126"
definition kUpb_EncodedValue_FieldSeparator :: byte where "kUpb_EncodedValue_FieldSeparator = 124"
definition kUpb_EncodedValue_MinOneofField :: byte where "kUpb_EncodedValue_MinOneofField = 32"
definition kUpb_EncodedValue_MaxOneofField :: byte where "kUpb_EncodedValue_MaxOneofField = 98"
definition kUpb_EncodedValue_MaxEnumMask :: byte where "kUpb_EncodedValue_MaxEnumMask = 65"

definition kUpb_EncodedVersion_EnumV1 :: byte where "kUpb_EncodedVersion_EnumV1 = 33"
definition kUpb_EncodedVersion_ExtensionV1 :: byte where "kUpb_EncodedVersion_ExtensionV1 = 35"
definition kUpb_EncodedVersion_MessageV1 :: byte where "kUpb_EncodedVersion_MessageV1 = 36"
definition kUpb_EncodedVersion_MapV1 :: byte where "kUpb_EncodedVersion_MapV1 = 37"
definition kUpb_EncodedVersion_MessageSetV1 :: byte where "kUpb_EncodedVersion_MessageSetV1 = 38"

lemmas char_defs = kUpb_EncodedValue_MaxField_def kUpb_EncodedValue_MinModifier_def
  kUpb_EncodedValue_MaxModifier_def kUpb_EncodedValue_End_def kUpb_EncodedValue_MinSkip_def
  kUpb_EncodedValue_MaxSkip_def kUpb_EncodedValue_OneofSeparator_def kUpb_EncodedValue_FieldSeparator_def
  kUpb_EncodedValue_MinOneofField_def kUpb_EncodedValue_MaxOneofField_def kUpb_EncodedValue_MaxEnumMask_def
  kUpb_EncodedVersion_EnumV1_def kUpb_EncodedVersion_ExtensionV1_def kUpb_EncodedVersion_MessageV1_def
  kUpb_EncodedVersion_MapV1_def kUpb_EncodedVersion_MessageSetV1_def

subsection \<open>Reading a number\<close>

text \<open>
  The portable branch of \<open>upb_Log2Ceiling\<close>; the loop runs at most 64 times.
\<close>

fun log2_ceiling_loop :: "nat \<Rightarrow> nat \<Rightarrow> nat \<Rightarrow> nat" where
  "log2_ceiling_loop 0 lg2 x = lg2"
| "log2_ceiling_loop (Suc fuel) lg2 x = (if 2 ^ lg2 < x then log2_ceiling_loop fuel (lg2 + 1) x else lg2)"

definition upb_Log2Ceiling :: "u64 \<Rightarrow> nat" where
  "upb_Log2Ceiling x =
     (if x \<le> 1 then 0 else if x > - 1 div 2 then 64 else log2_ceiling_loop 64 0 (unat x))"

definition bits_per_char :: "byte \<Rightarrow> byte \<Rightarrow> nat" where
  "bits_per_char lo hi = upb_Log2Ceiling (word_of_int (upb_FromBase92 hi - upb_FromBase92 lo))"

text \<open>\<open>char\<close> is signed; a character outside the range ends the number.\<close>

fun base92_varint_loop ::
    "byte \<Rightarrow> byte \<Rightarrow> nat \<Rightarrow> u32 \<Rightarrow> nat \<Rightarrow> byte \<Rightarrow> byte list \<Rightarrow> (u32 \<times> byte list) option" where
  "base92_varint_loop lo hi bpc val shift ch ptr =
     (let bits = word_of_int (upb_FromBase92 ch - upb_FromBase92 lo) :: u32;
          val = val OR push_bit shift bits
      in case ptr of
           [] \<Rightarrow> Some (val, [])
         | c # rest \<Rightarrow>
             if sint c < int (unat lo) \<or> int (unat hi) < sint c then Some (val, ptr)
             else
               let shift = shift + bpc
               in if shift \<ge> 32 then None else base92_varint_loop lo hi bpc val shift c rest)"

declare base92_varint_loop.simps [simp del]

definition upb_Base92_DecodeVarint ::
    "byte list \<Rightarrow> byte \<Rightarrow> byte \<Rightarrow> byte \<Rightarrow> (u32 \<times> byte list) option" where
  "upb_Base92_DecodeVarint ptr first_ch lo hi =
     base92_varint_loop lo hi (bits_per_char lo hi) 0 0 first_ch ptr"

definition upb_MdDecoder_DecodeBase92Varint ::
    "byte list \<Rightarrow> byte \<Rightarrow> byte \<Rightarrow> byte \<Rightarrow> (u32 \<times> byte list) res" where
  "upb_MdDecoder_DecodeBase92Varint ptr first_ch lo hi =
     (case upb_Base92_DecodeVarint ptr first_ch lo hi of
        None \<Rightarrow> Inl (Thrown Malformed)
      | Some r \<Rightarrow> Inr r)"

lemma varint_consumes:
  "base92_varint_loop lo hi bpc val shift ch ptr = Some (v, rest) \<Longrightarrow> length rest \<le> length ptr"
proof (induction ptr arbitrary: val shift ch)
  case Nil
  then show ?case by (simp add: base92_varint_loop.simps[of _ _ _ _ _ _ "[]"] Let_def)
next
  case (Cons c ptr)
  have "rest = c # ptr \<or> (\<exists>val shift. base92_varint_loop lo hi bpc val shift c ptr = Some (v, rest))"
    using Cons.prems base92_varint_loop.simps[of lo hi bpc val shift ch "c # ptr"]
    by (auto simp: Let_def split: if_splits)
  then show ?case using Cons.IH by (auto intro: le_SucI)
qed

subsection \<open>Writing a number\<close>

text \<open>
  The output: the characters written so far, how many fit, and where the current call began
  (\<open>buf_start\<close>).
\<close>

record upb_MtOut =
  mo_chars :: "byte list"
  mo_room :: nat
  mo_start :: nat

type_synonym mt_out = "upb_MtOut option res"

definition kUpb_MtDataEncoder_MinSize :: nat where
  "kUpb_MtDataEncoder_MinSize = 16"

definition upb_MtDataEncoder_PutRaw :: "upb_MtOut \<Rightarrow> byte \<Rightarrow> mt_out" where
  "upb_MtDataEncoder_PutRaw e ch =
     bindE (assertE (length (mo_chars e) - mo_start e < kUpb_MtDataEncoder_MinSize)) (\<lambda>_.
       Inr (if length (mo_chars e) = mo_room e then None else Some (e\<lparr>mo_chars := mo_chars e @ [ch]\<rparr>)))"

definition upb_MtDataEncoder_Put :: "upb_MtOut \<Rightarrow> int \<Rightarrow> mt_out" where
  "upb_MtDataEncoder_Put e ch = bindE (upb_ToBase92 ch) (\<lambda>c. upb_MtDataEncoder_PutRaw e c)"

text \<open>The \<open>do \<dots> while (val)\<close> loop; at most 32 rounds when \<open>shift\<close> is positive.\<close>

primrec put_varint_loop :: "nat \<Rightarrow> upb_MtOut \<Rightarrow> u32 \<Rightarrow> nat \<Rightarrow> byte \<Rightarrow> mt_out" where
  "put_varint_loop 0 e val shift lo = Inl OutOfFuel"
| "put_varint_loop (Suc fuel) e val shift lo =
     (let bits = val AND (push_bit shift 1 - 1)
      in bindE (upb_MtDataEncoder_Put e (uint bits + upb_FromBase92 lo)) (\<lambda>r. case r of
           None \<Rightarrow> Inr None
         | Some e \<Rightarrow>
             let val = drop_bit shift val
             in if val = 0 then Inr (Some e) else put_varint_loop fuel e val shift lo))"

definition upb_MtDataEncoder_PutBase92Varint :: "upb_MtOut \<Rightarrow> u32 \<Rightarrow> byte \<Rightarrow> byte \<Rightarrow> mt_out" where
  "upb_MtDataEncoder_PutBase92Varint e val lo hi =
     (let shift = upb_Log2Ceiling (word_of_int (upb_FromBase92 hi - upb_FromBase92 lo + 1))
      in bindE (assertE (shift \<le> 6)) (\<lambda>_. put_varint_loop 32 e val shift lo))"

subsection \<open>Round trip\<close>

text \<open>
  A range of characters \<open>lo .. hi\<close> that holds \<open>2 ^ k\<close> digits. The reader and the writer compute \<open>k\<close> in
  slightly different ways.
\<close>

definition digit_char :: "byte \<Rightarrow> nat \<Rightarrow> byte" where
  "digit_char lo d = of_nat (kUpb_ToBase92 ! nat (int d + upb_FromBase92 lo))"

definition good_digit :: "byte \<Rightarrow> byte \<Rightarrow> nat \<Rightarrow> bool" where
  "good_digit lo hi d \<longleftrightarrow>
     (let c = digit_char lo d
      in upb_ToBase92 (int d + upb_FromBase92 lo) = Inr c \<and> upb_FromBase92 c - upb_FromBase92 lo = int d \<and>
         \<not> sint c < int (unat lo) \<and> \<not> int (unat hi) < sint c)"

text \<open>The digits of a number, least significant first; at least one.\<close>

fun base92_digits :: "byte \<Rightarrow> nat \<Rightarrow> nat \<Rightarrow> u32 \<Rightarrow> byte list" where
  "base92_digits lo k 0 v = []"
| "base92_digits lo k (Suc n) v = digit_char lo (unat (take_bit k v)) #
     (if drop_bit k v = 0 then [] else base92_digits lo k n (drop_bit k v))"

locale base92_range =
  fixes lo hi :: byte and k :: nat
  assumes width: "bits_per_char lo hi = k"
    and writer_width: "upb_Log2Ceiling (word_of_int (upb_FromBase92 hi - upb_FromBase92 lo + 1)) = k"
    and bounds: "4 \<le> k" "k \<le> 6"
    and digits: "list_all (good_digit lo hi) [0..<2 ^ k]"
begin

lemma digit_ok:
  assumes "d < 2 ^ k"
  shows "upb_ToBase92 (int d + upb_FromBase92 lo) = Inr (digit_char lo d)"
    "upb_FromBase92 (digit_char lo d) - upb_FromBase92 lo = int d"
    "\<not> sint (digit_char lo d) < int (unat lo)" "\<not> int (unat hi) < sint (digit_char lo d)"
  using digits assms by (simp_all add: list_all_iff good_digit_def Let_def)

lemma take_bit_bound: "unat (take_bit k (v :: u32)) < 2 ^ k"
  by (simp add: unsigned_take_bit_eq)

lemma drop_bit_bound:
  assumes "unat (v :: u32) * 2 ^ s < 2 ^ 32" "drop_bit k v \<noteq> 0"
  shows "unat (drop_bit k v) * 2 ^ (s + k) < 2 ^ 32" "s + k < 32"
proof -
  have "unat (drop_bit k v) * 2 ^ k \<le> unat v"
  proof -
    have "unat v < 2 ^ LENGTH(32)" by (rule unsigned_less)
    then show ?thesis by (subst unsigned_drop_bit_eq) (simp add: drop_bit_eq_div take_bit_nat_eq_self)
  qed
  then have "unat (drop_bit k v) * 2 ^ k * 2 ^ s \<le> unat v * 2 ^ s" by (rule mult_le_mono1)
  then show l: "unat (drop_bit k v) * 2 ^ (s + k) < 2 ^ 32"
  proof -
    have "unat (drop_bit k v) * 2 ^ (s + k) = unat (drop_bit k v) * 2 ^ k * 2 ^ s" by (simp add: power_add)
    then show ?thesis using assms(1) \<open>unat (drop_bit k v) * 2 ^ k * 2 ^ s \<le> _\<close> by linarith
  qed
  have "1 \<le> unat (drop_bit k v)" using assms(2) by (simp add: Suc_le_eq unat_gt_0)
  then have "2 ^ (s + k) \<le> unat (drop_bit k v) * 2 ^ (s + k)" by simp
  then have "(2 :: nat) ^ (s + k) < 2 ^ 32" using l by linarith
  then show "s + k < 32" by (rule power_less_imp_less_exp[rotated]) simp
qed

lemma put_loop:
  assumes "unat v * 2 ^ s < 2 ^ 32" "32 \<le> s + n * k" "mo_start e \<le> length (mo_chars e)"
    and "length (mo_chars e) + length (base92_digits lo k n v) \<le> mo_room e"
    and "length (mo_chars e) - mo_start e + length (base92_digits lo k n v) \<le> kUpb_MtDataEncoder_MinSize"
    and "s < 32"
  shows "put_varint_loop n e v k lo = Inr (Some (e\<lparr>mo_chars := mo_chars e @ base92_digits lo k n v\<rparr>))"
  using assms
proof (induction n arbitrary: v s e)
  case (Suc n)
  let ?c = "digit_char lo (unat (take_bit k v))"
  let ?e = "e\<lparr>mo_chars := mo_chars e @ [?c]\<rparr>"
  have "v AND (push_bit k 1 - 1) = take_bit k v" by (simp add: take_bit_eq_mask mask_eq_exp_minus_1 push_bit_of_1)
  moreover have "upb_MtDataEncoder_Put e (uint (take_bit k v) + upb_FromBase92 lo) = Inr (Some ?e)"
  proof -
    have "length (mo_chars e) - mo_start e < kUpb_MtDataEncoder_MinSize" "length (mo_chars e) < mo_room e"
      using Suc.prems(4,5) by auto
    then show ?thesis
      using digit_ok(1)[OF take_bit_bound[of v]] by (simp add: upb_MtDataEncoder_Put_def upb_MtDataEncoder_PutRaw_def)
  qed
  moreover have "put_varint_loop n ?e (drop_bit k v) k lo = Inr (Some (?e\<lparr>mo_chars := mo_chars ?e @ base92_digits lo k n (drop_bit k v)\<rparr>))"
    if "drop_bit k v \<noteq> 0"
  proof (rule Suc.IH)
    show "unat (drop_bit k v) * 2 ^ (s + k) < 2 ^ 32" "s + k < 32" using drop_bit_bound[OF Suc.prems(1) that] .
  qed (use Suc.prems that in \<open>auto simp: algebra_simps\<close>)
  ultimately show ?case by (auto simp: Let_def)
qed simp

lemma read_loop:
  assumes "unat v * 2 ^ s < 2 ^ 32" "32 \<le> s + n * k" "s < 32"
    and stop: "\<And>c r. rest = c # r \<Longrightarrow> sint c < int (unat lo) \<or> int (unat hi) < sint c"
  shows "base92_varint_loop lo hi k acc s (hd (base92_digits lo k n v)) (tl (base92_digits lo k n v) @ rest) = Some (acc OR push_bit s v, rest)"
  using assms(1-3)
proof (induction n arbitrary: v s acc)
  case (Suc n)
  let ?d = "unat (take_bit k v)"
  have bits: "word_of_int (upb_FromBase92 (digit_char lo ?d) - upb_FromBase92 lo) = take_bit k v"
    using digit_ok(2)[OF take_bit_bound[of v]] by simp
  show ?case
  proof (cases "drop_bit k v = 0")
    case True
    then have "take_bit k v = v" by (metis bits_ident add_0 push_bit_of_0)
    then show ?thesis
      using True bits stop by (cases rest) (auto simp: base92_varint_loop.simps[of lo hi k acc s] Let_def)
  next
    case False
    note b = drop_bit_bound[OF Suc.prems(1) False]
    obtain n' where n: "n = Suc n'" using Suc.prems(2) b(2) by (cases n) auto
    have "hd (base92_digits lo k n (drop_bit k v)) = digit_char lo (unat (take_bit k (drop_bit k v)))" by (simp add: n)
    then have h: "\<not> sint (hd (base92_digits lo k n (drop_bit k v))) < int (unat lo)" "\<not> int (unat hi) < sint (hd (base92_digits lo k n (drop_bit k v)))"
      using digit_ok(3,4)[OF take_bit_bound[of "drop_bit k v"]] by simp_all
    have "base92_digits lo k n (drop_bit k v) = hd (base92_digits lo k n (drop_bit k v)) # tl (base92_digits lo k n (drop_bit k v))" by (simp add: n)
    then obtain c cs where d: "base92_digits lo k n (drop_bit k v) = c # cs" by blast
    have "push_bit s (take_bit k v) OR push_bit (s + k) (drop_bit k v) = push_bit s v"
    proof (rule bit_word_eqI)
      fix j
      assume "j < LENGTH(32)"
      show "bit (push_bit s (take_bit k v) OR push_bit (s + k) (drop_bit k v)) j = bit (push_bit s v) j"
      proof (cases "s + k \<le> j")
        case True
        then have "k + (j - (s + k)) = j - s" by simp
        then show ?thesis using True by (auto simp: bit_or_iff bit_push_bit_iff bit_take_bit_iff bit_drop_bit_eq)
      qed (auto simp: bit_or_iff bit_push_bit_iff bit_take_bit_iff bit_drop_bit_eq)
    qed
    then show ?thesis
      using False bits h d b Suc.IH[OF b(1) _ b(2), of "acc OR push_bit s (take_bit k v)"] Suc.prems(2)
      by (simp add: base92_varint_loop.simps[of lo hi k acc s] Let_def or.assoc algebra_simps)
  qed
qed simp

lemma length_digits:
  assumes "unat v * 2 ^ s < 2 ^ 32" "s < 32"
  shows "s + k * (length (base92_digits lo k n v) - 1) < 32"
  using assms
proof (induction n arbitrary: v s)
  case (Suc n)
  show ?case
  proof (cases "drop_bit k v = 0")
    case False
    then show ?thesis
      using Suc.IH[OF drop_bit_bound[OF Suc.prems(1) False]]
      by (cases "base92_digits lo k n (drop_bit k v)") (auto simp: algebra_simps)
  qed (use Suc.prems in simp)
qed simp

lemma at_most_8: "length (base92_digits lo k n v) \<le> 8"
proof -
  have "unat v < 2 ^ LENGTH(32)" by (rule unsigned_less)
  then have "k * (length (base92_digits lo k n v) - 1) < 32" using length_digits[of v 0] by simp
  moreover have "4 * (length (base92_digits lo k n v) - 1) \<le> k * (length (base92_digits lo k n v) - 1)"
    using bounds(1) by (rule mult_le_mono1)
  ultimately have "4 * (length (base92_digits lo k n v) - 1) < 32" by linarith
  then show ?thesis by simp
qed

text \<open>What the writer appends, and that the reader takes it off again.\<close>

definition chars_of :: "u32 \<Rightarrow> byte list" where
  "chars_of v = base92_digits lo k 32 v"

lemma PutVarint:
  assumes "mo_start e \<le> length (mo_chars e)" "length (mo_chars e) + length (chars_of v) \<le> mo_room e"
    and "length (mo_chars e) - mo_start e \<le> 8"
  shows "upb_MtDataEncoder_PutBase92Varint e v lo hi = Inr (Some (e\<lparr>mo_chars := mo_chars e @ chars_of v\<rparr>))"
proof -
  have "unat v < 2 ^ LENGTH(32)" by (rule unsigned_less)
  then have "put_varint_loop 32 e v k lo = Inr (Some (e\<lparr>mo_chars := mo_chars e @ base92_digits lo k 32 v\<rparr>))"
    using assms bounds at_most_8[of 32 v]
    by (intro put_loop[of v 0]) (simp_all add: chars_of_def kUpb_MtDataEncoder_MinSize_def)
  then show ?thesis using bounds unfolding upb_MtDataEncoder_PutBase92Varint_def writer_width by (simp add: chars_of_def)
qed

lemma DecodeVarint:
  assumes "\<And>c r. rest = c # r \<Longrightarrow> sint c < int (unat lo) \<or> int (unat hi) < sint c"
  shows "upb_Base92_DecodeVarint (tl (chars_of v) @ rest) (hd (chars_of v)) lo hi = Some (v, rest)"
proof -
  have "unat v < 2 ^ LENGTH(32)" by (rule unsigned_less)
  then show ?thesis
    using read_loop[of v 0 32 rest 0] assms bounds by (simp add: upb_Base92_DecodeVarint_def width chars_of_def)
qed

lemma chars_of_first:
  "chars_of v = digit_char lo (unat (take_bit k v)) # tl (chars_of v)"
  by (simp add: chars_of_def numeral_eq_Suc)

end

interpretation modifier: base92_range kUpb_EncodedValue_MinModifier kUpb_EncodedValue_MaxModifier 4
  by unfold_locales code_simp+

interpretation skip: base92_range kUpb_EncodedValue_MinSkip kUpb_EncodedValue_MaxSkip 5
  by unfold_locales code_simp+

interpretation oneof_field: base92_range kUpb_EncodedValue_MinOneofField kUpb_EncodedValue_MaxOneofField 6
  by unfold_locales code_simp+

text \<open>
  C26: numbers in mini descriptors survive. Whatever the number and whichever of the three character ranges
  is used (modifiers, skips, oneof fields), \<open>upb_MtDataEncoder_PutBase92Varint\<close> appends between one and eight
  characters when there is room, and \<open>_upb_Base92_DecodeVarint\<close> reads the number back from them and stops
  exactly behind them, if what follows is not a character of the range.
\<close>

theorem base92_varint_roundtrip:
  assumes "(lo, hi) \<in> {(kUpb_EncodedValue_MinModifier, kUpb_EncodedValue_MaxModifier),
      (kUpb_EncodedValue_MinSkip, kUpb_EncodedValue_MaxSkip), (kUpb_EncodedValue_MinOneofField, kUpb_EncodedValue_MaxOneofField)}"
    and "mo_start e = length (mo_chars e)" "length (mo_chars e) + 8 \<le> mo_room e"
    and "rest = [] \<or> sint (hd rest) < int (unat lo) \<or> int (unat hi) < sint (hd rest)"
  shows "\<exists>c cs. length cs < 8 \<and>
    upb_MtDataEncoder_PutBase92Varint e v lo hi = Inr (Some (e\<lparr>mo_chars := mo_chars e @ c # cs\<rparr>)) \<and>
    upb_Base92_DecodeVarint (cs @ rest) c lo hi = Some (v, rest)"
proof -
  have "base92_range lo hi 4 \<or> base92_range lo hi 5 \<or> base92_range lo hi 6"
    using assms(1) modifier.base92_range_axioms skip.base92_range_axioms oneof_field.base92_range_axioms by auto
  then obtain k where k: "base92_range lo hi k" by blast
  let ?cs = "base92_range.chars_of lo k v"
  have len: "length ?cs \<le> 8" unfolding base92_range.chars_of_def[OF k] by (rule base92_range.at_most_8[OF k])
  then have "upb_MtDataEncoder_PutBase92Varint e v lo hi = Inr (Some (e\<lparr>mo_chars := mo_chars e @ ?cs\<rparr>))"
    using assms(2,3) by (intro base92_range.PutVarint[OF k]) auto
  moreover have "upb_Base92_DecodeVarint (tl ?cs @ rest) (hd ?cs) lo hi = Some (v, rest)"
    using assms(4) by (intro base92_range.DecodeVarint[OF k]) auto
  moreover have "?cs = hd ?cs # tl ?cs" using base92_range.chars_of_first[OF k, of v] by (metis list.sel(1))
  ultimately show ?thesis
    using len by (intro exI[of _ "hd ?cs"] exI[of _ "tl ?cs"]) (metis length_Cons Suc_le_eq)
qed

theorem base92_varint_roundtrip_witness:
  "\<exists>c cs. length cs < 8 \<and>
    upb_MtDataEncoder_PutBase92Varint \<lparr>mo_chars = [36], mo_room = 64, mo_start = 1\<rparr> 1000 kUpb_EncodedValue_MinSkip
      kUpb_EncodedValue_MaxSkip = Inr (Some \<lparr>mo_chars = [36] @ c # cs, mo_room = 64, mo_start = 1\<rparr>) \<and>
    upb_Base92_DecodeVarint (cs @ [40]) c kUpb_EncodedValue_MinSkip kUpb_EncodedValue_MaxSkip = Some (1000, [40])"
  using base92_varint_roundtrip[of kUpb_EncodedValue_MinSkip kUpb_EncodedValue_MaxSkip
      "\<lparr>mo_chars = [36], mo_room = 64, mo_start = 1\<rparr>" "[40]" 1000]
  by (simp add: char_defs)

end
