(* ===== verification/Enum_Build.thy ===== *)
theory Enum_Build
  imports Base92 Hash_Table
begin

text \<open>
  Closed enums: \<open>mini_descriptor/build_enum.c\<close>, which builds the table that \<open>upb_MiniTableEnum_CheckValue\<close>
  reads, and the part of \<open>mini_descriptor/internal/encode.c\<close> that writes the descriptor of an enum. The data
  words of the table are a list as long as \<open>enum_data_count\<close>.
\<close>

subsection \<open>The builder\<close>

record upb_MdEnumDecoder =
  ed_table :: upb_MiniTableEnum
  ed_value_count :: u32
  ed_data_count :: u32
  ed_data_capacity :: u32
  ed_arena :: arena

definition upb_MiniTable_AddEnumDataMember :: "upb_MdEnumDecoder \<Rightarrow> u32 \<Rightarrow> upb_MdEnumDecoder res" where
  "upb_MiniTable_AddEnumDataMember d val =
     bindE (if ed_data_count d = ed_data_capacity d then
              if ed_data_capacity d > 0xFFFFFFFF div 2 then Inl (Thrown OutOfMemory)
              else
                let new_capacity = max 2 (ed_data_capacity d * 2)
                in if (ucast new_capacity :: u64) > (- 1 - 8) div 4 then Inl (Thrown OutOfMemory)
                   else if ed_arena d 0
                   then Inr (d\<lparr>ed_data_capacity := new_capacity, ed_arena := \<lambda>n. ed_arena d (Suc n)\<rparr>)
                   else Inl (Thrown OutOfMemory)
            else Inr d) (\<lambda>d.
       Inr (d\<lparr>ed_table := (ed_table d)\<lparr>enum_data := enum_data (ed_table d) @ [val]\<rparr>,
              ed_data_count := ed_data_count d + 1\<rparr>))"

text \<open>The loop that extends the mask; the fuel is the number of words up to the new limit.\<close>

primrec extend_mask :: "nat \<Rightarrow> upb_MdEnumDecoder \<Rightarrow> u32 \<Rightarrow> upb_MdEnumDecoder res" where
  "extend_mask 0 d new_mask_limit = Inl OutOfFuel"
| "extend_mask (Suc fuel) d new_mask_limit =
     (if mask_limit (ed_table d) < new_mask_limit then
        bindE (upb_MiniTable_AddEnumDataMember d 0) (\<lambda>d.
          extend_mask fuel (d\<lparr>ed_table := (ed_table d)\<lparr>mask_limit := mask_limit (ed_table d) + 32\<rparr>\<rparr>) new_mask_limit)
      else Inr d)"

definition upb_MiniTableEnum_BuildValue :: "upb_MdEnumDecoder \<Rightarrow> u32 \<Rightarrow> upb_MdEnumDecoder res" where
  "upb_MiniTableEnum_BuildValue d val =
     (let d = d\<lparr>ed_value_count := ed_value_count d + 1\<rparr>;
          t = ed_table d
      in if value_count t \<noteq> 0 \<or> val > 512 \<and> ed_value_count d < val div 32 then
           bindE (if value_count t = 0 then assertE (ed_data_count d = mask_limit t div 32) else Inr ()) (\<lambda>_.
           bindE (upb_MiniTable_AddEnumDataMember d val) (\<lambda>d.
             Inr (d\<lparr>ed_table := (ed_table d)\<lparr>value_count := value_count (ed_table d) + 1\<rparr>\<rparr>)))
         else
           let new_mask_limit = (val div 32 + 1) * 32
           in bindE (extend_mask (unat new_mask_limit div 32 + 1) d new_mask_limit) (\<lambda>d.
              let t = ed_table d; i = unat (val div 32)
              in bindE (enum_word t i) (\<lambda>w.
                   Inr (d\<lparr>ed_table := t\<lparr>enum_data := (enum_data t)[i := w OR push_bit (unat (val mod 32)) 1]\<rparr>\<rparr>))))"

text \<open>The five bits of a mask character.\<close>

primrec enum_mask_loop :: "nat \<Rightarrow> upb_MdEnumDecoder \<Rightarrow> u32 \<Rightarrow> u32 \<Rightarrow> (upb_MdEnumDecoder \<times> u32) res" where
  "enum_mask_loop 0 d base bits = Inr (d, base)"
| "enum_mask_loop (Suc n) d base bits =
     bindE (if bits AND 1 \<noteq> 0 then upb_MiniTableEnum_BuildValue d base else Inr d) (\<lambda>d.
       enum_mask_loop n d (base + 1) (drop_bit 1 bits))"

function enum_loop :: "upb_MdEnumDecoder \<Rightarrow> u32 \<Rightarrow> byte list \<Rightarrow> upb_MdEnumDecoder res" where
  "enum_loop d base [] = Inr d"
| "enum_loop d base (ch # ptr) =
     (if sint ch \<le> sint kUpb_EncodedValue_MaxEnumMask then
        bindE (enum_mask_loop 5 d base (word_of_int (upb_FromBase92 ch))) (\<lambda>(d, base). enum_loop d base ptr)
      else if sint kUpb_EncodedValue_MinSkip \<le> sint ch \<and> sint ch \<le> sint kUpb_EncodedValue_MaxSkip then
        bindE (upb_MdDecoder_DecodeBase92Varint ptr ch kUpb_EncodedValue_MinSkip kUpb_EncodedValue_MaxSkip)
          (\<lambda>(skip, ptr). enum_loop d (base + skip) ptr)
      else Inl (Thrown Malformed))"
  by pat_completeness auto
termination
  by (relation "measure (\<lambda>(d, base, ptr). length ptr)")
    (auto simp: upb_MdDecoder_DecodeBase92Varint_def upb_Base92_DecodeVarint_def le_imp_less_Suc
      dest: varint_consumes split: option.splits)

definition upb_MtDecoder_DoBuildMiniTableEnum :: "upb_MdEnumDecoder \<Rightarrow> byte list \<Rightarrow> upb_MdEnumDecoder res" where
  "upb_MtDecoder_DoBuildMiniTableEnum d data =
     bindE (case data of
              [] \<Rightarrow> Inr []
            | vers # ptr \<Rightarrow> if vers \<noteq> kUpb_EncodedVersion_EnumV1 then Inl (Thrown Malformed) else Inr ptr) (\<lambda>ptr.
       let d = d\<lparr>ed_table := (ed_table d)\<lparr>mask_limit := 64\<rparr>\<rparr>
       in bindE (upb_MiniTable_AddEnumDataMember d 0) (\<lambda>d.
          bindE (upb_MiniTable_AddEnumDataMember d 0) (\<lambda>d.
            enum_loop (d\<lparr>ed_table := (ed_table d)\<lparr>value_count := 0\<rparr>\<rparr>) 0 ptr)))"

text \<open>
  \<open>NULL\<close> is the result when the error handler is reached. The table itself is the first allocation; its
  contents are indeterminate (\<open>junk\<close>) until they are written.
\<close>

definition upb_MiniTableEnum_Build :: "upb_MiniTableEnum \<Rightarrow> byte list \<Rightarrow> arena \<Rightarrow> upb_MiniTableEnum option res" where
  "upb_MiniTableEnum_Build junk data a =
     (if \<not> a 0 then Inr None
      else
        case upb_MtDecoder_DoBuildMiniTableEnum
               \<lparr>ed_table = junk\<lparr>enum_data := []\<rparr>, ed_value_count = 0, ed_data_count = 0, ed_data_capacity = 2,
                ed_arena = \<lambda>n. a (Suc n)\<rparr> data of
          Inr d \<Rightarrow> Inr (Some (ed_table d))
        | Inl (Thrown _) \<Rightarrow> Inr None
        | Inl e \<Rightarrow> Inl e)"

subsection \<open>The writer\<close>

record upb_MtEnumState =
  es_out :: upb_MtOut
  es_mask :: u64
  es_last :: u32

type_synonym enum_out = "upb_MtEnumState option res"

text \<open>\<open>GetInternal\<close> makes the current position the start of a call.\<close>

definition upb_MtDataEncoder_GetInternal :: "upb_MtOut \<Rightarrow> upb_MtOut" where
  "upb_MtDataEncoder_GetInternal e = e\<lparr>mo_start := length (mo_chars e)\<rparr>"

definition upb_MtDataEncoder_StartEnum :: "upb_MtOut \<Rightarrow> enum_out" where
  "upb_MtDataEncoder_StartEnum e =
     bindE (upb_MtDataEncoder_PutRaw (upb_MtDataEncoder_GetInternal e) kUpb_EncodedVersion_EnumV1) (\<lambda>r.
       Inr (map_option (\<lambda>e. \<lparr>es_out = e, es_mask = 0, es_last = 0\<rparr>) r))"

definition upb_MtDataEncoder_FlushDenseEnumMask :: "upb_MtEnumState \<Rightarrow> enum_out" where
  "upb_MtDataEncoder_FlushDenseEnumMask s =
     bindE (upb_MtDataEncoder_Put (es_out s) (sint (ucast (es_mask s) :: byte))) (\<lambda>r.
       Inr (map_option (\<lambda>e. \<lparr>es_out = e, es_mask = 0, es_last = es_last s + 5\<rparr>) r))"

definition upb_MtDataEncoder_PutEnumValue :: "upb_MtEnumState \<Rightarrow> u32 \<Rightarrow> enum_out" where
  "upb_MtDataEncoder_PutEnumValue s val =
     (let s = s\<lparr>es_out := upb_MtDataEncoder_GetInternal (es_out s)\<rparr>
      in bindE (assertE (val \<ge> es_last s)) (\<lambda>_.
         let delta = val - es_last s
         in bindE (if delta \<ge> 5 \<and> es_mask s \<noteq> 0
                   then bindE (upb_MtDataEncoder_FlushDenseEnumMask s) (\<lambda>r. Inr (map_option (\<lambda>s. (s, delta - 5)) r))
                   else Inr (Some (s, delta))) (\<lambda>r. case r of
              None \<Rightarrow> Inr None
            | Some (s, delta) \<Rightarrow>
                bindE (if delta \<ge> 5
                       then bindE (upb_MtDataEncoder_PutBase92Varint (es_out s) delta kUpb_EncodedValue_MinSkip
                                     kUpb_EncodedValue_MaxSkip) (\<lambda>r.
                              Inr (map_option (\<lambda>e. (s\<lparr>es_out := e, es_last := es_last s + delta\<rparr>, 0)) r))
                       else Inr (Some (s, delta))) (\<lambda>r. case r of
                  None \<Rightarrow> Inr None
                | Some (s, delta) \<Rightarrow>
                    bindE (assertE (drop_bit (unat delta) (es_mask s) = 0)) (\<lambda>_.
                      Inr (Some (s\<lparr>es_mask := es_mask s OR push_bit (unat delta) 1\<rparr>)))))))"

definition upb_MtDataEncoder_EndEnum :: "upb_MtEnumState \<Rightarrow> enum_out" where
  "upb_MtDataEncoder_EndEnum s =
     (let s = s\<lparr>es_out := upb_MtDataEncoder_GetInternal (es_out s)\<rparr>
      in if es_mask s = 0 then Inr (Some s) else upb_MtDataEncoder_FlushDenseEnumMask s)"

text \<open>The sequence of calls \<open>encode.h\<close> asks for.\<close>

fun put_enum_values :: "u32 list \<Rightarrow> upb_MtEnumState \<Rightarrow> enum_out" where
  "put_enum_values [] s = upb_MtDataEncoder_EndEnum s"
| "put_enum_values (v # vs) s =
     bindE (upb_MtDataEncoder_PutEnumValue s v) (\<lambda>r. case r of
       None \<Rightarrow> Inr None
     | Some s \<Rightarrow> put_enum_values vs s)"

definition encode_enum :: "upb_MtOut \<Rightarrow> u32 list \<Rightarrow> upb_MtOut option res" where
  "encode_enum e vs =
     bindE (upb_MtDataEncoder_StartEnum e) (\<lambda>r. case r of
       None \<Rightarrow> Inr None
     | Some s \<Rightarrow> bindE (put_enum_values vs s) (\<lambda>r. Inr (map_option es_out r)))"

end
