(* ===== verification/Enum_Correct.thy ===== *)
theory Enum_Correct
  imports Enum_Build
begin

text \<open>
  The table that is built accepts exactly the values of the descriptor, and a descriptor that was written
  for a list of values stands for these values.
\<close>

subsection \<open>The values of a descriptor\<close>

primrec mask_values :: "nat \<Rightarrow> u32 \<Rightarrow> u32 \<Rightarrow> u32 list" where
  "mask_values 0 base bits = []"
| "mask_values (Suc n) base bits =
     (if bits AND 1 \<noteq> 0 then [base] else []) @ mask_values n (base + 1) (drop_bit 1 bits)"

function enum_chars :: "u32 \<Rightarrow> byte list \<Rightarrow> u32 list option" where
  "enum_chars base [] = Some []"
| "enum_chars base (ch # ptr) =
     (if sint ch \<le> sint kUpb_EncodedValue_MaxEnumMask then
        map_option (\<lambda>vs. mask_values 5 base (word_of_int (upb_FromBase92 ch)) @ vs) (enum_chars (base + 5) ptr)
      else if sint kUpb_EncodedValue_MinSkip \<le> sint ch \<and> sint ch \<le> sint kUpb_EncodedValue_MaxSkip then
        (case upb_Base92_DecodeVarint ptr ch kUpb_EncodedValue_MinSkip kUpb_EncodedValue_MaxSkip of
           None \<Rightarrow> None
         | Some (skip, ptr) \<Rightarrow> enum_chars (base + skip) ptr)
      else None)"
  by pat_completeness auto
termination
  by (relation "measure (\<lambda>(base, ptr). length ptr)")
    (auto simp: upb_Base92_DecodeVarint_def le_imp_less_Suc dest: varint_consumes)

primrec build_values :: "u32 list \<Rightarrow> upb_MdEnumDecoder \<Rightarrow> upb_MdEnumDecoder res" where
  "build_values [] d = Inr d"
| "build_values (v # vs) d = bindE (upb_MiniTableEnum_BuildValue d v) (build_values vs)"

lemma build_values_append: "build_values (us @ vs) d = bindE (build_values us d) (build_values vs)"
  by (induction us arbitrary: d) (auto simp: bindE_assoc intro!: bindE_cong)

lemma enum_mask_loop_eq:
  "enum_mask_loop n d base bits = bindE (build_values (mask_values n base bits) d) (\<lambda>d. Inr (d, base + of_nat n))"
  by (induction n arbitrary: d base bits) (auto simp: bindE_assoc build_values_append add.assoc intro!: bindE_cong)

lemma enum_loop_eq: "enum_chars base ptr = Some vs \<Longrightarrow> enum_loop d base ptr = build_values vs d"
proof (induction base ptr arbitrary: vs d rule: enum_chars.induct)
  case (2 base ch ptr)
  show ?case
  proof (cases "sint ch \<le> sint kUpb_EncodedValue_MaxEnumMask")
    case True
    then show ?thesis
      using "2.prems" "2.IH"(1)[OF True] by (auto simp: enum_mask_loop_eq bindE_assoc build_values_append intro!: bindE_cong)
  next
    case False
    then show ?thesis
      using "2.prems" "2.IH"(2)[OF False] by (auto simp: upb_MdDecoder_DecodeBase92Varint_def split: if_splits option.splits)
  qed
qed simp

subsection \<open>Adding words\<close>

definition roomy :: "upb_MdEnumDecoder \<Rightarrow> bool" where
  "roomy d \<longleftrightarrow> (\<forall>n. ed_arena d n) \<and> unat (ed_data_count d) = length (enum_data (ed_table d)) \<and>
     ed_data_count d \<le> ed_data_capacity d"

lemma AddMember_ok:
  assumes "roomy d" "length (enum_data (ed_table d)) < 2 ^ 30"
  shows "\<exists>d'. upb_MiniTable_AddEnumDataMember d w = Inr d' \<and> roomy d' \<and> ed_value_count d' = ed_value_count d \<and>
    ed_table d' = (ed_table d)\<lparr>enum_data := enum_data (ed_table d) @ [w]\<rparr>"
proof -
  let ?c = "ed_data_count d"
  have c: "unat ?c < 2 ^ 30" using assms by (simp add: roomy_def)
  then have s: "unat (?c + 1) = unat ?c + 1" by (simp add: unat_word_ariths)
  show ?thesis
  proof (cases "?c = ed_data_capacity d")
    case True
    have d2: "unat (?c * 2) = unat ?c * 2" using c by (simp add: unat_word_ariths)
    have "?c + 1 \<le> max 2 (?c * 2)"
      using s d2 by (cases "?c = 0") (auto simp: word_le_nat_alt max_def unat_gt_0 unat_eq_zero Suc_le_eq)
    moreover have "unat (max 2 (?c * 2)) < 2 ^ LENGTH(32)" by (rule unsigned_less)
    then have "\<not> (- 1 - 8) div 4 < (ucast (max 2 (?c * 2)) :: u64)"
      by (simp add: word_less_nat_alt unsigned_ucast_eq take_bit_nat_eq_self)
    moreover have "\<not> 0xFFFFFFFF div 2 < ?c" using c by (simp add: word_less_nat_alt)
    ultimately show ?thesis
      using assms(1) True s by (auto simp: upb_MiniTable_AddEnumDataMember_def roomy_def Let_def)
  next
    case False
    then have "?c + 1 \<le> ed_data_capacity d"
      using assms(1) s by (simp add: roomy_def word_le_nat_alt word_unat_eq_iff)
    then show ?thesis
      using False assms(1) s by (auto simp: upb_MiniTable_AddEnumDataMember_def roomy_def)
  qed
qed

lemma extend_mask_ok:
  assumes "roomy d" "unat (mask_limit (ed_table d)) = 32 * length (enum_data (ed_table d))"
    and "unat new = 32 * k" "k < 2 ^ 27" "k < length (enum_data (ed_table d)) + fuel" "1 \<le> fuel"
  shows "\<exists>d'. extend_mask fuel d new = Inr d' \<and> roomy d' \<and> ed_value_count d' = ed_value_count d \<and>
    value_count (ed_table d') = value_count (ed_table d) \<and>
    unat (mask_limit (ed_table d')) = 32 * length (enum_data (ed_table d')) \<and>
    enum_data (ed_table d') = enum_data (ed_table d) @ replicate (k - length (enum_data (ed_table d))) 0"
  using assms(1,2,5,6)
proof (induction fuel arbitrary: d)
  case (Suc fuel)
  let ?n = "length (enum_data (ed_table d))"
  show ?case
  proof (cases "?n < k")
    case True
    then have lim: "mask_limit (ed_table d) < new" using Suc.prems(2) assms(3) by (simp add: word_less_nat_alt)
    obtain d1 where d1: "upb_MiniTable_AddEnumDataMember d 0 = Inr d1" "roomy d1" "ed_value_count d1 = ed_value_count d"
      "ed_table d1 = (ed_table d)\<lparr>enum_data := enum_data (ed_table d) @ [0]\<rparr>"
      using AddMember_ok[OF Suc.prems(1), of 0] True assms(4) by auto
    let ?d = "d1\<lparr>ed_table := (ed_table d1)\<lparr>mask_limit := mask_limit (ed_table d1) + 32\<rparr>\<rparr>"
    have "unat (mask_limit (ed_table d) + 32) = 32 * (?n + 1)"
      using Suc.prems(2) True assms(4) by (simp add: unat_word_ariths)
    then have "\<exists>d'. extend_mask fuel ?d new = Inr d' \<and> roomy d' \<and> ed_value_count d' = ed_value_count ?d \<and>
      value_count (ed_table d') = value_count (ed_table ?d) \<and>
      unat (mask_limit (ed_table d')) = 32 * length (enum_data (ed_table d')) \<and>
      enum_data (ed_table d') = enum_data (ed_table ?d) @ replicate (k - length (enum_data (ed_table ?d))) 0"
      using d1 True Suc.prems(3) by (intro Suc.IH) (auto simp: roomy_def)
    moreover have "replicate (k - ?n) (0 :: u32) = 0 # replicate (k - Suc ?n) 0" using True by (simp add: Suc_diff_Suc flip: replicate_Suc)
    ultimately show ?thesis using d1 lim by auto
  next
    case False
    then have "\<not> mask_limit (ed_table d) < new" using Suc.prems(2) assms(3) by (simp add: word_less_nat_alt)
    then show ?thesis using False Suc.prems by auto
  qed
qed simp

subsection \<open>The invariant of the builder\<close>

text \<open>
  \<open>us\<close> are the values so far. While there is no list, the mask ends with the block of one of the values,
  which was small or came when there were enough values; afterwards, a value lies beyond the mask.
\<close>

definition enum_inv :: "upb_MdEnumDecoder \<Rightarrow> u32 list \<Rightarrow> bool" where
  "enum_inv d us \<longleftrightarrow> roomy d \<and> enum_wf (ed_table d) \<and> enum_values (ed_table d) = set us \<and>
     unat (ed_value_count d) = length us \<and>
     unat (mask_limit (ed_table d)) div 32 < 2 ^ 27 \<and> unat (value_count (ed_table d)) \<le> length us \<and>
     (if value_count (ed_table d) = 0
      then mask_limit (ed_table d) = 64 \<or>
        (\<exists>u \<in> set us. unat (mask_limit (ed_table d)) = (unat u div 32 + 1) * 32 \<and> (u \<le> 512 \<or> unat u div 32 \<le> length us))
      else \<exists>u \<in> set us. mask_limit (ed_table d) \<le> u)"

text \<open>The values that the boundary between mask and list gets wrong.\<close>

definition crosses_512 :: "u32 list \<Rightarrow> bool" where
  "crosses_512 vs \<longleftrightarrow> 512 \<in> set vs \<and> (\<exists>v \<in> set vs. 512 < v \<and> v < 544)"

lemma same_block: "(b :: nat) < (a div 32 + 1) * 32 \<Longrightarrow> a < b \<Longrightarrow> b div 32 = a div 32"
  using less_mult_imp_div_less[of b "a div 32 + 1" 32] div_le_mono[of a b 32] by linarith

lemma beyond_mask:
  assumes inv: "enum_inv d us" and new: "\<forall>u \<in> set us. u < v"
    and ok: "\<not> crosses_512 (us @ [v])"
    and b: "value_count (ed_table d) \<noteq> 0 \<or> v > 512 \<and> length us + 1 < unat v div 32"
  shows "mask_limit (ed_table d) \<le> v"
proof (cases "value_count (ed_table d) = 0 \<and> mask_limit (ed_table d) \<noteq> 64")
  case True
  let ?m = "unat (mask_limit (ed_table d))"
  obtain u where u: "u \<in> set us" "?m = (unat u div 32 + 1) * 32" "u \<le> 512 \<or> unat u div 32 \<le> length us"
    using inv True by (auto simp: enum_inv_def)
  have v: "512 < unat v" "length us + 1 < unat v div 32" using b True by (auto simp: word_less_nat_alt)
  have uv: "unat u < unat v" using new u(1) by (simp add: word_less_nat_alt)
  have "\<not> unat v < ?m"
  proof
    assume "unat v < ?m"
    then have same: "unat v div 32 = unat u div 32"
      using same_block[OF _ uv] u(2) by simp
    have "unat u \<le> 512" using u(3) v(2) same by (auto simp: word_le_nat_alt)
    moreover have "16 \<le> unat v div 32" using div_le_mono[of 512 "unat v" 32] v(1) by simp
    moreover have "unat u div 32 * 32 \<le> unat u" by simp
    ultimately have "unat u = 512" using same by linarith
    moreover from this have "unat v < 544" using dividend_less_div_times[of 32 "unat v"] same by simp
    ultimately have "u = 512" "512 < v" "v < 544" using v(1) by (simp_all add: word_unat_eq_iff word_less_nat_alt)
    then show False using ok u(1) by (auto simp: crosses_512_def)
  qed
  then show ?thesis by (simp add: word_le_nat_alt)
next
  case False
  then show ?thesis using inv new b by (auto simp: enum_inv_def word_le_nat_alt word_less_nat_alt split: if_splits)
qed

lemma enum_values_snoc:
  assumes "enum_wf t" "mask_limit t \<le> v"
  shows "enum_values (t\<lparr>enum_data := enum_data t @ [v], value_count := c\<rparr>) = insert v (enum_values t)"
proof -
  have len: "unat (mask_limit t) div 32 \<le> length (enum_data t)" using assms(1) by (simp add: enum_wf_def)
  have "(enum_data t @ [v]) ! (unat x div 32) = enum_data t ! (unat x div 32)" if "unat x < unat (mask_limit t)" for x :: u32
  proof -
    have "unat (mask_limit t) = unat (mask_limit t) div 32 * 32" using assms(1) by (auto simp: enum_wf_def)
    then have "unat x div 32 < unat (mask_limit t) div 32" using that by (simp add: less_mult_imp_div_less)
    then show ?thesis using len by (simp add: nth_append)
  qed
  then show ?thesis using len assms(2) by (auto simp: enum_values_def word_le_nat_alt)
qed

lemma list_value:
  assumes inv: "enum_inv d us" and new: "\<forall>u \<in> set us. u < v"
    and ok: "\<not> crosses_512 (us @ [v])" and n: "length us + 2 < 2 ^ 27"
    and b: "value_count (ed_table d) \<noteq> 0 \<or> v > 512 \<and> length us + 1 < unat v div 32"
  shows "\<exists>d'. upb_MiniTableEnum_BuildValue d v = Inr d' \<and> enum_inv d' (us @ [v])"
proof -
  let ?t = "ed_table d"
  let ?m = "unat (mask_limit ?t)"
  let ?d = "d\<lparr>ed_value_count := ed_value_count d + 1\<rparr>"
  have wf: "roomy d" "enum_wf ?t" "enum_values ?t = set us" "unat (ed_value_count d) = length us" "?m div 32 < 2 ^ 27"
    "unat (value_count ?t) \<le> length us" using inv by (simp_all add: enum_inv_def)
  have len: "length (enum_data ?t) = ?m div 32 + unat (value_count ?t)" using wf(2) by (simp add: enum_wf_def)
  have v: "mask_limit ?t \<le> v" by (rule beyond_mask[OF inv new ok b])
  have cnt: "unat (ed_value_count d + 1) = length us + 1" using wf(4) n by (simp add: unat_word_ariths)
  obtain d1 where d1: "upb_MiniTable_AddEnumDataMember ?d v = Inr d1" "roomy d1" "ed_value_count d1 = ed_value_count d + 1"
    "ed_table d1 = ?t\<lparr>enum_data := enum_data ?t @ [v]\<rparr>"
    using AddMember_ok[of ?d v] wf(1,5,6) len n by (auto simp: roomy_def)
  let ?t' = "?t\<lparr>enum_data := enum_data ?t @ [v], value_count := value_count ?t + 1\<rparr>"
  let ?d' = "d1\<lparr>ed_table := ?t'\<rparr>"
  have vc: "unat (value_count ?t + 1) = unat (value_count ?t) + 1" using wf(6) n by (simp add: unat_word_ariths)
  then have vc0: "value_count ?t + 1 \<noteq> 0" by (metis add_eq_0_iff_both_eq_0 unat_0 zero_neq_one)
  have "enum_wf ?t'" using wf(2) vc len by (simp add: enum_wf_def)
  moreover have "enum_values ?t' = set (us @ [v])"
    using enum_values_snoc[OF wf(2) v] wf(3) by simp
  ultimately have "enum_inv ?d' (us @ [v])"
    using d1 wf vc vc0 cnt v n by (simp add: enum_inv_def roomy_def)
  moreover have "value_count ?t = 0 \<longrightarrow> ed_data_count d = mask_limit ?t div 32"
    using wf(1) len by (auto simp: roomy_def word_unat_eq_iff unat_div)
  moreover have "value_count ?t \<noteq> 0 \<or> v > 512 \<and> ed_value_count d + 1 < v div 32"
    using b cnt by (auto simp: word_less_nat_alt unat_div)
  ultimately show ?thesis using d1 by (auto simp: upb_MiniTableEnum_BuildValue_def Let_def)
qed

text \<open>Setting a bit of the mask.\<close>

lemma mask_values_set:
  assumes "unat m = 32 * length ws" "unat v < 32 * length ws" "vc = 0"
  shows "enum_values \<lparr>mask_limit = m, value_count = vc, enum_data = ws[unat v div 32 := ws ! (unat v div 32) OR push_bit (unat v mod 32) 1]\<rparr> =
    insert v (enum_values \<lparr>mask_limit = m, value_count = vc, enum_data = ws\<rparr>)"
proof -
  let ?ws = "ws[unat v div 32 := ws ! (unat v div 32) OR push_bit (unat v mod 32) 1]"
  have "bit (?ws ! (unat x div 32)) (unat x mod 32) \<longleftrightarrow> x = v \<or> bit (ws ! (unat x div 32)) (unat x mod 32)"
    if "unat x < 32 * length ws" for x
  proof -
    have "unat x div 32 < length ws" using that by (simp add: less_mult_imp_div_less mult.commute)
    moreover have "x = v \<longleftrightarrow> unat x div 32 = unat v div 32 \<and> unat x mod 32 = unat v mod 32"
      by (metis div_mult_mod_eq word_unat_eq_iff)
    ultimately show ?thesis
      by (cases "unat x div 32 = unat v div 32") (auto simp: nth_list_update bit_or_iff bit_exp_iff)
  qed
  then show ?thesis using assms by (auto simp: enum_values_def)
qed

lemma enum_values_zeros:
  assumes "unat m = 32 * length ws" "unat m' = 32 * (length ws + k)"
  shows "enum_values \<lparr>mask_limit = m', value_count = 0, enum_data = ws @ replicate k 0\<rparr> =
    enum_values \<lparr>mask_limit = m, value_count = 0, enum_data = ws\<rparr>"
proof -
  have "unat x div 32 < length ws \<longleftrightarrow> unat x < 32 * length ws" for x :: u32
    by (simp add: div_less_iff_less_mult mult.commute)
  moreover have "unat x div 32 < length ws + k \<longleftrightarrow> unat x < 32 * (length ws + k)" for x :: u32
    by (simp add: div_less_iff_less_mult mult.commute)
  moreover have "(replicate k 0 :: u32 list) ! j = 0" if "j < k" for j using that by simp
  ultimately show ?thesis
    using assms by (auto simp: enum_values_def nth_append not_less simp flip: not_le)
qed

lemma mask_value:
  assumes inv: "enum_inv d us" and n: "length us + 2 < 2 ^ 27"
    and b: "value_count (ed_table d) = 0" "v \<le> 512 \<or> unat v div 32 \<le> length us + 1"
  shows "\<exists>d'. upb_MiniTableEnum_BuildValue d v = Inr d' \<and> enum_inv d' (us @ [v])"
proof -
  let ?t = "ed_table d"
  let ?k = "unat v div 32 + 1"
  let ?d = "d\<lparr>ed_value_count := ed_value_count d + 1\<rparr>"
  have wf: "roomy d" "enum_wf ?t" "enum_values ?t = set us" "unat (ed_value_count d) = length us"
    using inv by (simp_all add: enum_inv_def)
  have len: "unat (mask_limit ?t) = 32 * length (enum_data ?t)" "2 \<le> length (enum_data ?t)"
    using wf(2) b(1) by (auto simp: enum_wf_def)
  have cnt: "unat (ed_value_count d + 1) = length us + 1" using wf(4) n by (simp add: unat_word_ariths)
  have k: "?k < 2 ^ 27" using b(2) n div_le_mono[of "unat v" 512 32] by (auto simp: word_le_nat_alt)
  then have new: "unat ((v div 32 + 1) * 32) = 32 * ?k" by (simp add: unat_word_ariths unat_div)
  define new where "new = (v div 32 + 1) * 32"
  define fuel where "fuel = unat new div 32 + 1"
  have "\<exists>d1. extend_mask fuel ?d new = Inr d1 \<and> roomy d1 \<and> ed_value_count d1 = ed_value_count ?d \<and>
    value_count (ed_table d1) = value_count (ed_table ?d) \<and>
    unat (mask_limit (ed_table d1)) = 32 * length (enum_data (ed_table d1)) \<and>
    enum_data (ed_table d1) = enum_data (ed_table ?d) @ replicate (?k - length (enum_data (ed_table ?d))) 0"
    using wf(1) len k new by (intro extend_mask_ok) (simp_all add: roomy_def new_def fuel_def)
  then obtain d1 where d1: "extend_mask fuel ?d new = Inr d1" "roomy d1"
    "ed_value_count d1 = ed_value_count d + 1" "value_count (ed_table d1) = 0"
    "unat (mask_limit (ed_table d1)) = 32 * length (enum_data (ed_table d1))"
    "enum_data (ed_table d1) = enum_data ?t @ replicate (?k - length (enum_data ?t)) 0"
    using b(1) by auto
  let ?t1 = "ed_table d1"
  have l1: "length (enum_data ?t1) = max (length (enum_data ?t)) ?k" using d1(6) by simp
  have i: "unat v div 32 < length (enum_data ?t1)" using l1 by simp
  have v: "unat v < 32 * length (enum_data ?t1)" using i by (simp add: div_less_iff_less_mult mult.commute)
  let ?ws = "(enum_data ?t1)[unat v div 32 := enum_data ?t1 ! (unat v div 32) OR push_bit (unat v mod 32) 1]"
  let ?d' = "d1\<lparr>ed_table := ?t1\<lparr>enum_data := ?ws\<rparr>\<rparr>"
  have r1: "?t1\<lparr>enum_data := xs\<rparr> = \<lparr>mask_limit = mask_limit ?t1, value_count = 0, enum_data = xs\<rparr>" for xs
    using d1(4) by simp
  have r0: "?t = \<lparr>mask_limit = mask_limit ?t, value_count = 0, enum_data = enum_data ?t\<rparr>" using b(1) by simp
  have "enum_values (?t1\<lparr>enum_data := ?ws\<rparr>) = insert v (enum_values (?t1\<lparr>enum_data := enum_data ?t1\<rparr>))"
    unfolding r1 by (rule mask_values_set[OF d1(5) v refl])
  also have "enum_values (?t1\<lparr>enum_data := enum_data ?t1\<rparr>) = set us"
    unfolding r1 d1(6) wf(3)[symmetric] using d1(5,6) by (subst (3) r0, intro enum_values_zeros[OF len(1)]) simp
  finally have vals: "enum_values (?t1\<lparr>enum_data := ?ws\<rparr>) = set (us @ [v])" by simp
  have m1: "mask_limit ?t1 = mask_limit ?t \<or> unat (mask_limit ?t1) = ?k * 32"
    using d1(5) l1 len(1) by (auto simp: max_def word_unat_eq_iff)
  have "enum_inv ?d' (us @ [v])"
  proof -
    have "roomy ?d'" using d1(2) by (simp add: roomy_def)
    moreover have "enum_wf (?t1\<lparr>enum_data := ?ws\<rparr>)" using d1(4,5) l1 len(2) by (simp add: enum_wf_def)
    moreover have "unat (mask_limit ?t1) div 32 < 2 ^ 27" using inv m1 k by (auto simp: enum_inv_def)
    moreover have "mask_limit ?t1 = 64 \<or> (\<exists>u \<in> set (us @ [v]). unat (mask_limit ?t1) = (unat u div 32 + 1) * 32 \<and>
        (u \<le> 512 \<or> unat u div 32 \<le> length (us @ [v])))"
      using m1 inv b by (auto simp: enum_inv_def)
    ultimately show ?thesis using d1(3,4) cnt vals by (simp add: enum_inv_def)
  qed
  moreover have "upb_MiniTableEnum_BuildValue d v = Inr ?d'"
  proof -
    have c: "(512 < v \<and> ed_value_count d + 1 < v div 32) = False"
      using b(2) cnt by (auto simp: word_less_nat_alt word_le_nat_alt unat_div)
    have "upb_MiniTableEnum_BuildValue d v = bindE (extend_mask fuel ?d new) (\<lambda>d.
        bindE (enum_word (ed_table d) (unat (v div 32))) (\<lambda>w.
          Inr (d\<lparr>ed_table := (ed_table d)\<lparr>enum_data := (enum_data (ed_table d))[unat (v div 32) := w OR push_bit (unat (v mod 32)) 1]\<rparr>\<rparr>)))"
      unfolding upb_MiniTableEnum_BuildValue_def fuel_def new_def using b(1) by (simp add: Let_def c)
    then show ?thesis using d1(1) i by (simp add: enum_word_def unat_div unat_mod)
  qed
  ultimately show ?thesis by blast
qed

lemma build_values_inv:
  assumes "enum_inv d us" "sorted_wrt (<) (us @ vs)" "\<not> crosses_512 (us @ vs)" "length (us @ vs) + 2 < 2 ^ 27"
  shows "\<exists>d'. build_values vs d = Inr d' \<and> enum_inv d' (us @ vs)"
  using assms
proof (induction vs arbitrary: d us)
  case (Cons v vs)
  have new: "\<forall>u \<in> set us. u < v" using Cons.prems(2) by (auto simp: sorted_wrt_append)
  have ok: "\<not> crosses_512 (us @ [v])" using Cons.prems(3) by (auto simp: crosses_512_def)
  have n: "length us + 2 < 2 ^ 27" using Cons.prems(4) by simp
  have "\<exists>d1. upb_MiniTableEnum_BuildValue d v = Inr d1 \<and> enum_inv d1 (us @ [v])"
  proof (cases "value_count (ed_table d) \<noteq> 0 \<or> v > 512 \<and> length us + 1 < unat v div 32")
    case True
    then show ?thesis by (rule list_value[OF Cons.prems(1) new ok n])
  next
    case False
    then show ?thesis by (intro mask_value[OF Cons.prems(1) n]) auto
  qed
  then obtain d1 where d1: "upb_MiniTableEnum_BuildValue d v = Inr d1" "enum_inv d1 (us @ [v])" by blast
  then show ?case using Cons.IH[OF d1(2)] Cons.prems by simp
qed simp

lemma Build_ok:
  assumes "\<forall>n. a n" "enum_chars 0 ptr = Some vs" "sorted_wrt (<) vs" "\<not> crosses_512 vs" "length vs + 2 < 2 ^ 27"
  shows "\<exists>t. upb_MiniTableEnum_Build junk (kUpb_EncodedVersion_EnumV1 # ptr) a = Inr (Some t) \<and> enum_wf t \<and> enum_values t = set vs"
proof -
  let ?t = "junk\<lparr>mask_limit := 64, enum_data := [0, 0], value_count := 0\<rparr>"
  let ?d0 = "\<lparr>ed_table = junk\<lparr>enum_data := [], mask_limit := 64\<rparr>, ed_value_count = 0, ed_data_count = 0, ed_data_capacity = 2,
                ed_arena = \<lambda>n. a (Suc n)\<rparr>"
  let ?d = "\<lparr>ed_table = ?t, ed_value_count = 0, ed_data_count = 2, ed_data_capacity = 2, ed_arena = \<lambda>n. a (Suc n)\<rparr>"
  have z: "enum_values ?t = {}" by (auto simp: enum_values_def nth_Cons')
  have "enum_inv ?d []" using assms(1) z by (simp add: enum_inv_def roomy_def enum_wf_def)
  then obtain d' where d': "build_values vs ?d = Inr d'" "enum_inv d' vs"
    using build_values_inv[of ?d "[]" vs] assms(3-5) by auto
  have "upb_MtDecoder_DoBuildMiniTableEnum \<lparr>ed_table = junk\<lparr>enum_data := []\<rparr>, ed_value_count = 0, ed_data_count = 0, ed_data_capacity = 2,
                ed_arena = \<lambda>n. a (Suc n)\<rparr> (kUpb_EncodedVersion_EnumV1 # ptr) = Inr d'"
    using d'(1) enum_loop_eq[OF assms(2), of ?d]
    by (simp add: upb_MtDecoder_DoBuildMiniTableEnum_def upb_MiniTable_AddEnumDataMember_def Let_def)
  then show ?thesis using d'(2) assms(1) by (auto simp: upb_MiniTableEnum_Build_def enum_inv_def)
qed

end
