(* ===== verification/Enum_Roundtrip.thy ===== *)
theory Enum_Roundtrip
  imports Enum_Correct
begin

text \<open>
  Writing the descriptor of an enum and building the table from it.
\<close>

subsection \<open>Masks\<close>

definition mask_offsets :: "u64 \<Rightarrow> nat list" where
  "mask_offsets m = filter (bit m) [0..<5]"

definition pending :: "upb_MtEnumState \<Rightarrow> u32 list" where
  "pending s = map (\<lambda>i. es_last s + of_nat i) (mask_offsets (es_mask s))"

definition mask_char :: "u64 \<Rightarrow> byte" where
  "mask_char m = of_nat (kUpb_ToBase92 ! unat m)"

text \<open>A mask of five bits is one character, and adding a higher bit appends one value.\<close>

definition good_mask :: "u64 \<Rightarrow> bool" where
  "good_mask m \<longleftrightarrow>
     upb_ToBase92 (sint (ucast m :: byte)) = Inr (mask_char m) \<and> sint (mask_char m) \<le> sint kUpb_EncodedValue_MaxEnumMask \<and>
     filter (bit (word_of_int (upb_FromBase92 (mask_char m)) :: u32)) [0..<5] = mask_offsets m \<and>
     list_all (\<lambda>d. list_all (\<lambda>i. i < d) (mask_offsets m) \<longrightarrow>
       drop_bit d m = 0 \<and> mask_offsets (m OR push_bit d 1) = mask_offsets m @ [d] \<and>
       m OR push_bit d 1 < 32 \<and> m OR push_bit d 1 \<noteq> 0) [0..<5]"

lemma all_good: "list_all good_mask (map of_nat [0..<32])"
  by code_simp

lemma good_mask: "m < 32 \<Longrightarrow> good_mask m"
proof -
  assume m: "m < 32"
  then have "unat m \<in> set [0..<32]" by (simp add: word_less_nat_alt)
  moreover have "m = of_nat (unat m)" by simp
  ultimately have "m \<in> set (map of_nat [0..<32])" by (metis image_eqI image_set)
  then show ?thesis using all_good by (simp only: list_all_iff)
qed

lemma mask_values_eq: "mask_values n base bits = map (\<lambda>i. base + of_nat i) (filter (bit bits) [0..<n])"
proof (induction n arbitrary: base bits)
  case (Suc n)
  have "[0..<Suc n] = 0 # map Suc [0..<n]" by (simp add: map_Suc_upt upt_conv_Cons)
  moreover have "filter (bit bits) (map Suc [0..<n]) = map Suc (filter (bit (drop_bit 1 bits)) [0..<n])"
    by (simp add: filter_map comp_def bit_drop_bit_eq)
  ultimately show ?case by (simp add: Suc.IH comp_def and_one_eq mod_2_eq_odd bit_0 add.assoc)
qed simp

lemma read_mask:
  assumes "m < 32"
  shows "enum_chars base (mask_char m # rest) =
    map_option (\<lambda>vs. map (\<lambda>i. base + of_nat i) (mask_offsets m) @ vs) (enum_chars (base + 5) rest)"
  using good_mask[OF assms] by (simp add: good_mask_def mask_values_eq)

lemma read_skip:
  assumes "rest = c # r" "sint c \<le> sint kUpb_EncodedValue_MaxEnumMask"
  shows "enum_chars base (skip.chars_of v @ rest) = enum_chars (base + v) rest"
proof -
  let ?c = "digit_char kUpb_EncodedValue_MinSkip (unat (take_bit 5 v))"
  have f: "skip.chars_of v = ?c # tl (skip.chars_of v)" by (rule skip.chars_of_first)
  have d: "\<not> sint ?c < int (unat kUpb_EncodedValue_MinSkip)" "\<not> int (unat kUpb_EncodedValue_MaxSkip) < sint ?c"
    by (rule skip.digit_ok(3,4)[OF skip.take_bit_bound])+
  have "upb_Base92_DecodeVarint (tl (skip.chars_of v) @ rest) (hd (skip.chars_of v)) kUpb_EncodedValue_MinSkip
      kUpb_EncodedValue_MaxSkip = Some (v, rest)"
    using assms by (intro skip.DecodeVarint) (auto simp: char_defs)
  moreover have "hd (skip.chars_of v) = ?c" using f by (metis list.sel(1))
  ultimately have "upb_Base92_DecodeVarint (tl (skip.chars_of v) @ rest) ?c kUpb_EncodedValue_MinSkip
      kUpb_EncodedValue_MaxSkip = Some (v, rest)" by simp
  then have "enum_chars base (?c # tl (skip.chars_of v) @ rest) = enum_chars (base + v) rest"
    using d by (simp add: char_defs)
  then show ?thesis using f by (metis append_Cons)
qed

subsection \<open>One value\<close>

definition enum_state_ok :: "upb_MtEnumState \<Rightarrow> bool" where
  "enum_state_ok s \<longleftrightarrow> es_mask s < 32 \<and> (\<forall>i \<in> set (mask_offsets (es_mask s)). unat (es_last s) + i < 2 ^ 32)"

lemma Flush_ok:
  assumes "enum_state_ok s" "length (mo_chars (es_out s)) - mo_start (es_out s) < 16"
    and "length (mo_chars (es_out s)) < mo_room (es_out s)"
  shows "upb_MtDataEncoder_FlushDenseEnumMask s = Inr (Some
    \<lparr>es_out = (es_out s)\<lparr>mo_chars := mo_chars (es_out s) @ [mask_char (es_mask s)]\<rparr>, es_mask = 0, es_last = es_last s + 5\<rparr>)"
  using assms good_mask[of "es_mask s"]
  by (simp add: upb_MtDataEncoder_FlushDenseEnumMask_def upb_MtDataEncoder_Put_def upb_MtDataEncoder_PutRaw_def
      enum_state_ok_def good_mask_def kUpb_MtDataEncoder_MinSize_def)

lemma unat_pending:
  assumes "enum_state_ok s" "i \<in> set (mask_offsets (es_mask s))"
  shows "unat (es_last s + of_nat i) = unat (es_last s) + i"
proof -
  have "unat (es_last s) + i < 2 ^ 32" using assms by (simp add: enum_state_ok_def)
  then show ?thesis by (simp add: unat_word_ariths unat_of_nat)
qed

lemma pending_sorted:
  assumes "enum_state_ok s"
  shows "sorted_wrt (<) (pending s)"
proof -
  have "sorted_wrt (<) (mask_offsets (es_mask s))" by (simp add: mask_offsets_def sorted_wrt_filter)
  then show ?thesis
    unfolding pending_def sorted_wrt_map
    by (rule sorted_wrt_mono_rel[rotated]) (simp add: word_less_nat_alt unat_pending[OF assms])
qed

text \<open>What is left to do for a value once the difference to the last one is below 5.\<close>

lemma add_bit:
  assumes "enum_state_ok s" "\<forall>p \<in> set (pending s). p < es_last s + delta" "delta < 5"
    and "unat (es_last s) + unat delta < 2 ^ 32"
  shows "drop_bit (unat delta) (es_mask s) = 0"
    "pending (s\<lparr>es_mask := es_mask s OR push_bit (unat delta) 1\<rparr>) = pending s @ [es_last s + delta]"
    "enum_state_ok (s\<lparr>es_mask := es_mask s OR push_bit (unat delta) 1\<rparr>)"
    "es_mask s OR push_bit (unat delta) 1 \<noteq> 0"
proof -
  have "i < unat delta" if i: "i \<in> set (mask_offsets (es_mask s))" for i
  proof -
    note unat_pending[OF assms(1) i]
    moreover have "unat (es_last s + delta) = unat (es_last s) + unat delta" using assms(4) by (simp add: unat_word_ariths)
    moreover have "es_last s + of_nat i < es_last s + delta" using assms(2) i by (auto simp: pending_def)
    ultimately show ?thesis by (simp add: word_less_nat_alt)
  qed
  then have "list_all (\<lambda>i. i < unat delta) (mask_offsets (es_mask s))" by (simp add: list_all_iff)
  moreover have "unat delta \<in> set [0..<5]" using assms(3) by (simp add: word_less_nat_alt)
  ultimately have g: "drop_bit (unat delta) (es_mask s) = 0 \<and>
      mask_offsets (es_mask s OR push_bit (unat delta) 1) = mask_offsets (es_mask s) @ [unat delta] \<and>
      es_mask s OR push_bit (unat delta) 1 < 32 \<and> es_mask s OR push_bit (unat delta) 1 \<noteq> 0"
    using good_mask[of "es_mask s"] assms(1) unfolding good_mask_def enum_state_ok_def list_all_iff by blast
  with assms(1,4) show "drop_bit (unat delta) (es_mask s) = 0"
    "pending (s\<lparr>es_mask := es_mask s OR push_bit (unat delta) 1\<rparr>) = pending s @ [es_last s + delta]"
    "enum_state_ok (s\<lparr>es_mask := es_mask s OR push_bit (unat delta) 1\<rparr>)"
    "es_mask s OR push_bit (unat delta) 1 \<noteq> 0"
    by (simp_all add: pending_def enum_state_ok_def)
qed

text \<open>
  A value appends \<open>pre\<close>; whatever follows, which begins with a mask, the reader sees the pending values
  and then the new one.
\<close>

definition value_put :: "upb_MtEnumState \<Rightarrow> u32 \<Rightarrow> upb_MtEnumState \<Rightarrow> byte list \<Rightarrow> bool" where
  "value_put s v s1 pre \<longleftrightarrow> enum_state_ok s1 \<and> es_mask s1 \<noteq> 0 \<and> es_last s1 \<le> v \<and> (\<forall>p \<in> set (pending s1). p \<le> v) \<and>
     mo_room (es_out s1) = mo_room (es_out s) \<and> mo_chars (es_out s1) = mo_chars (es_out s) @ pre \<and> length pre \<le> 9 \<and>
     (es_mask s \<noteq> 0 \<longrightarrow> pre = [] \<or> sint (hd pre) \<le> sint kUpb_EncodedValue_MaxEnumMask) \<and>
     (\<forall>rest c r vs. rest = c # r \<longrightarrow> sint c \<le> sint kUpb_EncodedValue_MaxEnumMask \<longrightarrow>
        enum_chars (es_last s1) rest = Some (pending s1 @ vs) \<longrightarrow>
        enum_chars (es_last s) (pre @ rest) = Some (pending s @ v # vs))"

definition reset_start :: "upb_MtEnumState \<Rightarrow> upb_MtEnumState" where
  "reset_start s = s\<lparr>es_out := upb_MtDataEncoder_GetInternal (es_out s)\<rparr>"

lemma reset_start_simps [simp]:
  "es_mask (reset_start s) = es_mask s" "es_last (reset_start s) = es_last s" "pending (reset_start s) = pending s"
  "enum_state_ok (reset_start s) = enum_state_ok s" "mo_chars (es_out (reset_start s)) = mo_chars (es_out s)"
  "mo_room (es_out (reset_start s)) = mo_room (es_out s)" "mo_start (es_out (reset_start s)) = length (mo_chars (es_out s))"
  by (simp_all add: reset_start_def upb_MtDataEncoder_GetInternal_def pending_def enum_state_ok_def)

text \<open>The tail of the function, when at most the mask character has been written.\<close>

definition put_rest :: "upb_MtEnumState \<Rightarrow> u32 \<Rightarrow> enum_out" where
  "put_rest s delta =
     bindE (if delta \<ge> 5
            then bindE (upb_MtDataEncoder_PutBase92Varint (es_out s) delta kUpb_EncodedValue_MinSkip kUpb_EncodedValue_MaxSkip) (\<lambda>r.
                   Inr (map_option (\<lambda>e. (s\<lparr>es_out := e, es_last := es_last s + delta\<rparr>, 0)) r))
            else Inr (Some (s, delta))) (\<lambda>r. case r of
       None \<Rightarrow> Inr None
     | Some (s, delta) \<Rightarrow>
         bindE (assertE (drop_bit (unat delta) (es_mask s) = 0)) (\<lambda>_.
           Inr (Some (s\<lparr>es_mask := es_mask s OR push_bit (unat delta) 1\<rparr>))))"

lemma PutEnumValue_eq:
  "upb_MtDataEncoder_PutEnumValue s val =
     (let s = reset_start s
      in bindE (assertE (val \<ge> es_last s)) (\<lambda>_.
         let delta = val - es_last s
         in if delta \<ge> 5 \<and> es_mask s \<noteq> 0
            then bindE (upb_MtDataEncoder_FlushDenseEnumMask s) (\<lambda>r. case r of
              None \<Rightarrow> Inr None | Some s \<Rightarrow> put_rest s (delta - 5))
            else put_rest s delta))"
  unfolding upb_MtDataEncoder_PutEnumValue_def put_rest_def reset_start_def Let_def
  by (auto simp: bindE_assoc intro!: bindE_cong split: option.split)

lemma put_rest_ok:
  assumes ok: "enum_state_ok s" and pend: "\<forall>p \<in> set (pending s). p < v" and last: "es_last s \<le> v"
    and small: "es_mask s = 0 \<or> v - es_last s < 5"
    and room: "mo_start (es_out s) \<le> length (mo_chars (es_out s))" "length (mo_chars (es_out s)) - mo_start (es_out s) \<le> 8"
      "length (mo_chars (es_out s)) + 8 \<le> mo_room (es_out s)"
  shows "\<exists>s1 pre. put_rest s (v - es_last s) = Inr (Some s1) \<and> value_put s v s1 pre \<and> length pre \<le> 8 \<and>
    (es_mask s \<noteq> 0 \<longrightarrow> pre = [])"
proof (cases "v - es_last s < 5")
  case True
  have "unat (es_last s) + unat (v - es_last s) = unat v" using last by (simp add: unat_sub word_le_nat_alt)
  moreover have "unat v < 2 ^ LENGTH(32)" by (rule unsigned_less)
  ultimately have b: "unat (es_last s) + unat (v - es_last s) < 2 ^ 32" by simp
  note a = add_bit[OF ok _ True b]
  let ?s = "s\<lparr>es_mask := es_mask s OR push_bit (unat (v - es_last s)) 1\<rparr>"
  have "put_rest s (v - es_last s) = Inr (Some ?s)"
  proof -
    have "(5 \<le> v - es_last s) = False" using True by auto
    then show ?thesis using a(1) pend by (simp add: put_rest_def)
  qed
  moreover have "value_put s v ?s []" using a(2-4) pend last by (auto simp: value_put_def less_imp_le)
  ultimately show ?thesis by (intro exI[of _ ?s] exI[of _ "[]"]) simp
next
  case False
  then have m: "es_mask s = 0" using small by blast
  let ?d = "v - es_last s"
  let ?s1 = "s\<lparr>es_out := (es_out s)\<lparr>mo_chars := mo_chars (es_out s) @ skip.chars_of ?d\<rparr>, es_last := v, es_mask := 1\<rparr>"
  have len: "length (skip.chars_of ?d) \<le> 8" unfolding skip.chars_of_def by (rule skip.at_most_8)
  have "upb_MtDataEncoder_PutBase92Varint (es_out s) ?d kUpb_EncodedValue_MinSkip kUpb_EncodedValue_MaxSkip =
      Inr (Some ((es_out s)\<lparr>mo_chars := mo_chars (es_out s) @ skip.chars_of ?d\<rparr>))"
    using room len by (intro skip.PutVarint) auto
  then have "put_rest s ?d = Inr (Some ?s1)" using False m by (simp add: put_rest_def not_le)
  moreover have "value_put s v ?s1 (skip.chars_of ?d)"
  proof -
    have "mask_offsets 1 = [0]" "mask_offsets 0 = []" by code_simp+
    moreover have "unat v < 2 ^ LENGTH(32)" by (rule unsigned_less)
    ultimately show ?thesis using m len read_skip by (auto simp: value_put_def enum_state_ok_def pending_def)
  qed
  ultimately show ?thesis using m len by blast
qed

lemma put_value_ok:
  assumes ok: "enum_state_ok s" and pend: "\<forall>p \<in> set (pending s). p < v" and last: "es_last s \<le> v"
    and room: "length (mo_chars (es_out s)) + 9 \<le> mo_room (es_out s)"
  shows "\<exists>s1 pre. upb_MtDataEncoder_PutEnumValue s v = Inr (Some s1) \<and> value_put s v s1 pre"
proof (cases "v - es_last s \<ge> 5 \<and> es_mask s \<noteq> 0")
  case False
  then have "\<exists>s1 pre. put_rest (reset_start s) (v - es_last (reset_start s)) = Inr (Some s1) \<and>
      value_put (reset_start s) v s1 pre \<and> length pre \<le> 8 \<and> (es_mask (reset_start s) \<noteq> 0 \<longrightarrow> pre = [])"
    using ok pend last room by (intro put_rest_ok) auto
  then show ?thesis using False last by (auto simp: PutEnumValue_eq Let_def value_put_def)
next
  case True
  let ?s1 = "\<lparr>es_out = (es_out (reset_start s))\<lparr>mo_chars := mo_chars (es_out s) @ [mask_char (es_mask s)]\<rparr>,
     es_mask = 0, es_last = es_last s + 5\<rparr>"
  have fl: "upb_MtDataEncoder_FlushDenseEnumMask (reset_start s) = Inr (Some ?s1)"
    using Flush_ok[of "reset_start s"] ok room by simp
  have l5: "es_last s + 5 \<le> v"
    using True last by unat_arith
  have m0: "mask_offsets 0 = []" by code_simp
  then have "\<exists>s2 pre. put_rest ?s1 (v - es_last ?s1) = Inr (Some s2) \<and> value_put ?s1 v s2 pre \<and> length pre \<le> 8 \<and>
      (es_mask ?s1 \<noteq> 0 \<longrightarrow> pre = [])"
    using l5 room by (intro put_rest_ok) (auto simp: enum_state_ok_def pending_def)
  then obtain s2 pre where s2: "put_rest ?s1 (v - (es_last s + 5)) = Inr (Some s2)" "value_put ?s1 v s2 pre" "length pre \<le> 8"
    by auto
  have "upb_MtDataEncoder_PutEnumValue s v = Inr (Some s2)"
    using True fl s2(1) last by (simp add: PutEnumValue_eq Let_def diff_diff_eq)
  moreover have "value_put s v s2 (mask_char (es_mask s) # pre)"
  proof -
    have mc: "sint (mask_char (es_mask s)) \<le> sint kUpb_EncodedValue_MaxEnumMask"
      using good_mask[of "es_mask s"] ok by (simp add: enum_state_ok_def good_mask_def)
    have "enum_chars (es_last s) (mask_char (es_mask s) # pre @ rest) = Some (pending s @ v # vs)"
      if "rest = c # r" "sint c \<le> sint kUpb_EncodedValue_MaxEnumMask" "enum_chars (es_last s2) rest = Some (pending s2 @ vs)"
      for rest c r vs
    proof -
      have "enum_chars (es_last s + 5) (pre @ rest) = Some (v # vs)"
        using s2(2) that m0 by (auto simp: value_put_def pending_def)
      then show ?thesis using read_mask[of "es_mask s"] ok by (simp add: enum_state_ok_def pending_def)
    qed
    then show ?thesis using s2(2,3) mc by (auto simp: value_put_def)
  qed
  ultimately show ?thesis by blast
qed

subsection \<open>All values\<close>

lemma put_enum_values_ok:
  assumes "enum_state_ok s" "sorted_wrt (<) (pending s @ vs)" "\<forall>v \<in> set vs. es_last s \<le> v"
    and "length (mo_chars (es_out s)) + 9 * length vs + 1 \<le> mo_room (es_out s)"
  shows "\<exists>s' out. put_enum_values vs s = Inr (Some s') \<and> mo_chars (es_out s') = mo_chars (es_out s) @ out \<and>
    enum_chars (es_last s) out = Some (pending s @ vs) \<and>
    (es_mask s \<noteq> 0 \<longrightarrow> (\<exists>c r. out = c # r \<and> sint c \<le> sint kUpb_EncodedValue_MaxEnumMask))"
  using assms
proof (induction vs arbitrary: s)
  case Nil
  show ?case
  proof (cases "es_mask s = 0")
    case True
    have "mask_offsets 0 = []" by code_simp
    then show ?thesis using True by (simp add: upb_MtDataEncoder_EndEnum_def pending_def upb_MtDataEncoder_GetInternal_def)
  next
    case False
    have mc: "sint (mask_char (es_mask s)) \<le> sint kUpb_EncodedValue_MaxEnumMask"
      using good_mask[of "es_mask s"] Nil.prems(1) by (simp add: enum_state_ok_def good_mask_def)
    have "upb_MtDataEncoder_EndEnum s = upb_MtDataEncoder_FlushDenseEnumMask (reset_start s)"
      using False by (simp add: upb_MtDataEncoder_EndEnum_def reset_start_def Let_def)
    then show ?thesis
      using Flush_ok[of "reset_start s"] Nil.prems read_mask[of "es_mask s" "es_last s" "[]"] mc
      by (auto simp: enum_state_ok_def pending_def)
  qed
next
  case (Cons v vs)
  have "\<forall>p \<in> set (pending s). p < v" using Cons.prems(2) by (simp add: sorted_wrt_append)
  then obtain s1 pre where s1: "upb_MtDataEncoder_PutEnumValue s v = Inr (Some s1)" "value_put s v s1 pre"
    using put_value_ok[OF Cons.prems(1)] Cons.prems(3,4) by fastforce
  have v1: "enum_state_ok s1" "es_mask s1 \<noteq> 0" "es_last s1 \<le> v" "\<forall>p \<in> set (pending s1). p \<le> v"
    "mo_room (es_out s1) = mo_room (es_out s)" "mo_chars (es_out s1) = mo_chars (es_out s) @ pre" "length pre \<le> 9"
    using s1(2) by (auto simp: value_put_def)
  have "sorted_wrt (<) (pending s1 @ vs)"
    using pending_sorted[OF v1(1)] v1(4) Cons.prems(2) by (auto simp: sorted_wrt_append dest: le_less_trans)
  moreover have "\<forall>u \<in> set vs. es_last s1 \<le> u" using v1(3) Cons.prems(2) by (auto simp: sorted_wrt_append)
  ultimately have "\<exists>s' out. put_enum_values vs s1 = Inr (Some s') \<and> mo_chars (es_out s') = mo_chars (es_out s1) @ out \<and>
    enum_chars (es_last s1) out = Some (pending s1 @ vs) \<and>
    (es_mask s1 \<noteq> 0 \<longrightarrow> (\<exists>c r. out = c # r \<and> sint c \<le> sint kUpb_EncodedValue_MaxEnumMask))"
    using v1 Cons.prems(4) by (intro Cons.IH) auto
  then obtain s' out where o: "put_enum_values vs s1 = Inr (Some s')" "mo_chars (es_out s') = mo_chars (es_out s1) @ out"
    "enum_chars (es_last s1) out = Some (pending s1 @ vs)" "\<exists>c r. out = c # r \<and> sint c \<le> sint kUpb_EncodedValue_MaxEnumMask"
    using v1(2) by blast
  have "enum_chars (es_last s) (pre @ out) = Some (pending s @ v # vs)"
    using s1(2) o(3,4) unfolding value_put_def by blast
  moreover have "\<exists>c r. pre @ out = c # r \<and> sint c \<le> sint kUpb_EncodedValue_MaxEnumMask" if "es_mask s \<noteq> 0"
    using s1(2) o(4) that by (cases pre) (auto simp: value_put_def)
  ultimately show ?case using s1(1) o(1,2) v1(6) by (intro exI[of _ s'] exI[of _ "pre @ out"]) auto
qed

lemma encode_enum_ok:
  assumes "sorted_wrt (<) vs" "length (mo_chars e) + 9 * length vs + 2 \<le> mo_room e"
  shows "\<exists>e' ptr. encode_enum e vs = Inr (Some e') \<and>
    mo_chars e' = mo_chars e @ kUpb_EncodedVersion_EnumV1 # ptr \<and> enum_chars 0 ptr = Some vs"
proof -
  let ?e = "(upb_MtDataEncoder_GetInternal e)\<lparr>mo_chars := mo_chars e @ [kUpb_EncodedVersion_EnumV1]\<rparr>"
  let ?s = "\<lparr>es_out = ?e, es_mask = 0, es_last = 0\<rparr>"
  have m0: "mask_offsets 0 = []" by code_simp
  have "upb_MtDataEncoder_StartEnum e = Inr (Some ?s)"
    using assms(2) by (simp add: upb_MtDataEncoder_StartEnum_def upb_MtDataEncoder_PutRaw_def
        upb_MtDataEncoder_GetInternal_def kUpb_MtDataEncoder_MinSize_def)
  moreover have "\<exists>s' out. put_enum_values vs ?s = Inr (Some s') \<and> mo_chars (es_out s') = mo_chars (es_out ?s) @ out \<and>
    enum_chars (es_last ?s) out = Some (pending ?s @ vs) \<and>
    (es_mask ?s \<noteq> 0 \<longrightarrow> (\<exists>c r. out = c # r \<and> sint c \<le> sint kUpb_EncodedValue_MaxEnumMask))"
    using assms m0
    by (intro put_enum_values_ok) (auto simp: enum_state_ok_def pending_def upb_MtDataEncoder_GetInternal_def)
  ultimately show ?thesis using m0 by (auto simp: encode_enum_def pending_def)
qed

subsection \<open>Properties\<close>

text \<open>
  C25: a closed enum survives its descriptor. Writing strictly increasing values with
  \<open>upb_MtDataEncoder_StartEnum\<close>, \<open>PutEnumValue\<close> and \<open>EndEnum\<close> into a buffer of enough room, and giving the
  result to \<open>upb_MiniTableEnum_Build\<close> (whatever the memory it gets contains), yields a table for which
  \<open>upb_MiniTableEnum_CheckValue\<close> accepts exactly these values. Excluded are enums with the value 512 and a
  value from 513 to 543, for which this is false.
\<close>

theorem enum_descriptor_roundtrip:
  assumes "sorted_wrt (<) vs" "\<not> crosses_512 vs" "length vs + 2 < 2 ^ 27" "9 * length vs + 2 \<le> room" "\<forall>n. a n"
  shows "\<exists>e t. encode_enum \<lparr>mo_chars = [], mo_room = room, mo_start = 0\<rparr> vs = Inr (Some e) \<and>
    upb_MiniTableEnum_Build junk (mo_chars e) a = Inr (Some t) \<and>
    (\<forall>v. upb_MiniTableEnum_CheckValue t v = Inr (v \<in> set vs))"
proof -
  obtain e ptr where e: "encode_enum \<lparr>mo_chars = [], mo_room = room, mo_start = 0\<rparr> vs = Inr (Some e)"
    "mo_chars e = kUpb_EncodedVersion_EnumV1 # ptr" "enum_chars 0 ptr = Some vs"
    using encode_enum_ok[OF assms(1), of "\<lparr>mo_chars = [], mo_room = room, mo_start = 0\<rparr>"] assms(4) by auto
  moreover obtain t where "upb_MiniTableEnum_Build junk (mo_chars e) a = Inr (Some t)" "enum_wf t" "enum_values t = set vs"
    using Build_ok[OF assms(5) e(3) assms(1-3)] e(2) by auto
  ultimately show ?thesis by (auto simp: CheckValue_eq)
qed

theorem enum_descriptor_roundtrip_witness:
  "\<exists>e t. encode_enum \<lparr>mo_chars = [], mo_room = 100, mo_start = 0\<rparr> [0, 2, 512, 4294967295] = Inr (Some e) \<and>
    upb_MiniTableEnum_Build \<lparr>mask_limit = 7, value_count = 9, enum_data = [5]\<rparr> (mo_chars e) (\<lambda>_. True) = Inr (Some t) \<and>
    (\<forall>v. upb_MiniTableEnum_CheckValue t v = Inr (v \<in> set [0, 2, 512, 4294967295]))"
  by (rule enum_descriptor_roundtrip) (simp_all add: crosses_512_def)

lemma case_result: "(case r of Inr (Some x) \<Rightarrow> P x | _ \<Rightarrow> False) \<longleftrightarrow> (\<exists>x. r = Inr (Some x) \<and> P x)"
  by (auto split: sum.split option.split)


end
