(* ===== verification/Mini_Decode.thy ===== *)
theory Mini_Decode
  imports Base92 Hash_Table
begin

text \<open>
  Building a message layout from its mini descriptor: \<open>mini_descriptor/decode.c\<close>. The descriptor is parsed
  into fields and oneofs; then hasbits, offsets and the size of the message are assigned. The decoder
  keeps the fields parsed so far as a list, with the \<open>submsg_ofs\<close> of each field in a second one; the
  members of the table under construction are part of its state. Error messages are dropped: an error is
  \<open>Thrown Malformed\<close>. \<open>md_arena\<close> holds the answers of the allocators, in the order in which they are asked.
  The host is a 64-bit machine, and the platform of the layout is an argument, as in the code.
\<close>

subsection \<open>State\<close>

datatype upb_MiniTablePlatform = kUpb_MiniTablePlatform_32Bit | kUpb_MiniTablePlatform_64Bit

record upb_OneOfLayoutItem =
  oi_field_index :: u16
  oi_rep :: nat

record upb_MtDecoder =
  md_fields :: "upb_MiniTableField list"
  md_submsg_ofs :: "u16 list"
  md_platform :: upb_MiniTablePlatform
  md_oneofs :: "upb_OneOfLayoutItem list"
  md_oneofs_capacity :: nat
  md_arena :: arena
  md_counts :: "u16 list"
  md_sub_count :: u32
  md_is_extension :: bool
  md_size :: u16
  md_field_count :: u16
  md_ext :: byte
  md_dense_below :: byte
  md_required_count :: byte

text \<open>A decoder before it has read anything.\<close>

definition md_init :: "upb_MiniTablePlatform \<Rightarrow> nat \<Rightarrow> arena \<Rightarrow> bool \<Rightarrow> upb_MtDecoder" where
  "md_init platform buf_size a is_extension =
     \<lparr>md_fields = [], md_submsg_ofs = [], md_platform = platform, md_oneofs = [], md_oneofs_capacity = buf_size,
      md_arena = a, md_counts = replicate 4 0, md_sub_count = 0, md_is_extension = is_extension, md_size = 0,
      md_field_count = 0, md_ext = 0, md_dense_below = 0, md_required_count = 0\<rparr>"

definition kUpb_Reserved_Hasbytes :: nat where "kUpb_Reserved_Hasbytes = 8"
definition kUpb_Reserved_Hasbits :: nat where "kUpb_Reserved_Hasbits = kUpb_Reserved_Hasbytes * 8"
definition kUpb_OneOfLayoutItem_IndexSentinel :: u16 where "kUpb_OneOfLayoutItem_IndexSentinel = - 1"
definition kUpb_OneOf_CaseFieldRep :: nat where "kUpb_OneOf_CaseFieldRep = 1"
definition kUpb_MaxFieldNumber :: u32 where "kUpb_MaxFieldNumber = 2 ^ 29 - 1"
definition kUpb_NoSub :: u16 where "kUpb_NoSub = - 1"

text \<open>The presence classes, which the offset of a field holds until offsets are assigned.\<close>

definition kNoPresence :: u16 where "kNoPresence = 0"
definition kHasbitPresence :: u16 where "kHasbitPresence = 1"
definition kRequiredPresence :: u16 where "kRequiredPresence = 2"
definition kOneofBase :: u16 where "kOneofBase = 3"

abbreviation (input) md_error :: "'a res" where "md_error \<equiv> Inl (Thrown Malformed)"

definition the_field :: "upb_MtDecoder \<Rightarrow> nat \<Rightarrow> upb_MiniTableField res" where
  "the_field d i = (if i < length (md_fields d) then Inr (md_fields d ! i) else Inl OutOfBounds)"

definition set_field :: "upb_MtDecoder \<Rightarrow> nat \<Rightarrow> upb_MiniTableField \<Rightarrow> upb_MtDecoder" where
  "set_field d i f = d\<lparr>md_fields := (md_fields d)[i := f]\<rparr>"

text \<open>The table as the lookup by field number sees it.\<close>

definition md_table :: "upb_MtDecoder \<Rightarrow> upb_MiniTable" where
  "md_table d = \<lparr>mt_fields = take (unat (md_field_count d)) (md_fields d),
     ext = (if md_ext d AND 2 \<noteq> 0 then kUpb_ExtMode_IsMessageSet
            else if md_ext d AND 1 \<noteq> 0 then kUpb_ExtMode_Extendable else kUpb_ExtMode_NonExtendable),
     dense_below = unat (md_dense_below d), required_count = unat (md_required_count d)\<rparr>"

subsection \<open>Fields\<close>

definition upb_FieldType_IsPackable :: "upb_FieldType \<Rightarrow> bool" where
  "upb_FieldType_IsPackable t \<longleftrightarrow>
     t \<notin> {kUpb_FieldType_String, kUpb_FieldType_Bytes, kUpb_FieldType_Message, kUpb_FieldType_Group}"

definition upb_MtDecoder_FieldIsPackable :: "upb_MiniTableField \<Rightarrow> bool" where
  "upb_MtDecoder_FieldIsPackable f \<longleftrightarrow> mode f AND 1 \<noteq> 0 \<and> upb_FieldType_IsPackable (descriptortype f)"

text \<open>\<open>field\<close> with its \<open>submsg_ofs\<close>, and the new \<open>sub_count\<close>. A sub-message slot is not linked yet.\<close>

definition upb_MiniTable_SetTypeAndSub ::
    "u32 \<Rightarrow> upb_MiniTableField \<Rightarrow> upb_FieldType \<Rightarrow> u64 \<Rightarrow> bool \<Rightarrow> (upb_MiniTableField \<times> u16 \<times> u32) res" where
  "upb_MiniTable_SetTypeAndSub sub_count field type msg_modifiers is_proto3_enum =
     bindE (if is_proto3_enum then
              bindE (assertE (type = kUpb_FieldType_Enum)) (\<lambda>_.
                Inr (kUpb_FieldType_Int32, field\<lparr>mode := mode field OR 16\<rparr>))
            else if type = kUpb_FieldType_String \<and> msg_modifiers AND 1 = 0 then
              Inr (kUpb_FieldType_Bytes, field\<lparr>mode := mode field OR 16\<rparr>)
            else Inr (type, field)) (\<lambda>(type, field).
       let field = field\<lparr>descriptortype := type\<rparr>;
           field = (if upb_MtDecoder_FieldIsPackable field \<and> msg_modifiers AND 2 \<noteq> 0
                    then field\<lparr>mode := mode field OR 4\<rparr> else field)
       in if type = kUpb_FieldType_Message \<or> type = kUpb_FieldType_Group then
            Inr (field\<lparr>submsg := SubMsg None\<rparr>, ucast sub_count, sub_count + 1)
          else if type = kUpb_FieldType_Enum then Inr (field, ucast sub_count, sub_count + 1)
          else Inr (field, kUpb_NoSub, sub_count))"

definition kUpb_EncodedToType :: "upb_FieldType list" where
  "kUpb_EncodedToType = [
     kUpb_FieldType_Double, kUpb_FieldType_Float, kUpb_FieldType_Fixed32, kUpb_FieldType_Fixed64,
     kUpb_FieldType_SFixed32, kUpb_FieldType_SFixed64, kUpb_FieldType_Int32, kUpb_FieldType_UInt32,
     kUpb_FieldType_SInt32, kUpb_FieldType_Int64, kUpb_FieldType_UInt64, kUpb_FieldType_SInt64,
     kUpb_FieldType_Enum, kUpb_FieldType_Bool, kUpb_FieldType_Bytes, kUpb_FieldType_String,
     kUpb_FieldType_Group, kUpb_FieldType_Message, kUpb_FieldType_Enum]"

definition kUpb_EncodedToFieldRep :: "byte list" where
  "kUpb_EncodedToFieldRep = [3, 1, 1, 3, 1, 3, 1, 1, 1, 3, 3, 3, 1, 0, 2, 2, 0, 0, 1]"

definition upb_MiniTable_SetField ::
    "upb_MiniTablePlatform \<Rightarrow> u32 \<Rightarrow> byte \<Rightarrow> upb_MiniTableField \<Rightarrow> u64 \<Rightarrow> (upb_MiniTableField \<times> u16 \<times> u32) res" where
  "upb_MiniTable_SetField platform sub_count ch field msg_modifiers =
     (let pointer_rep = (if platform = kUpb_MiniTablePlatform_32Bit then 1 else 3) :: byte;
          type = upb_FromBase92 ch
      in bindE (upb_ToBase92 20) (\<lambda>repeated_base.
         bindE (if ch \<ge> repeated_base then
                  Inr (type - 20, field\<lparr>mode := 1 OR push_bit 6 pointer_rep, offset := kNoPresence\<rparr>)
                else
                  let field = field\<lparr>mode := 2, offset := kHasbitPresence\<rparr>
                  in if type = 16 \<or> type = 17 then Inr (type, field\<lparr>mode := mode field OR push_bit 6 pointer_rep\<rparr>)
                     else if type < 0 \<or> type \<ge> 19 then md_error
                     else Inr (type, field\<lparr>mode := mode field OR push_bit 6 (kUpb_EncodedToFieldRep ! nat type)\<rparr>))
           (\<lambda>(type, field).
              if type < 0 \<or> type \<ge> 19 then md_error
              else upb_MiniTable_SetTypeAndSub sub_count field (kUpb_EncodedToType ! nat type) msg_modifiers (type = 12))))"

text \<open>The modifiers of a field, in the order in which they are applied.\<close>

definition flip_packed :: "u32 \<Rightarrow> upb_MiniTableField \<Rightarrow> upb_MiniTableField res" where
  "flip_packed field_modifiers field =
     (if field_modifiers AND 1 \<noteq> 0 then
        if upb_MtDecoder_FieldIsPackable field then Inr (field\<lparr>mode := mode field XOR 4\<rparr>) else md_error
      else Inr field)"

definition flip_validate_utf8 :: "u32 \<Rightarrow> upb_MiniTableField \<Rightarrow> upb_MiniTableField res" where
  "flip_validate_utf8 field_modifiers field =
     (if field_modifiers AND 8 \<noteq> 0 then
        if descriptortype field \<noteq> kUpb_FieldType_Bytes \<or> mode field AND 16 = 0 then md_error
        else Inr (field\<lparr>descriptortype := kUpb_FieldType_String, mode := mode field AND NOT 16\<rparr>)
      else Inr field)"

definition modify_presence :: "u32 \<Rightarrow> upb_MiniTableField \<Rightarrow> upb_MiniTableField res" where
  "modify_presence field_modifiers field =
     (let singular = field_modifiers AND 4 \<noteq> 0;
          required = field_modifiers AND 2 \<noteq> 0
      in if (singular \<or> required) \<and> offset field \<noteq> kHasbitPresence then md_error
         else if singular \<and> required then md_error
         else if singular \<and> upb_MiniTableField_IsSubMessage field then md_error
         else
           let field = (if singular then field\<lparr>offset := kNoPresence\<rparr> else field)
           in Inr (if required then field\<lparr>offset := kRequiredPresence\<rparr> else field))"

definition upb_MtDecoder_ModifyField :: "u32 \<Rightarrow> upb_MiniTableField \<Rightarrow> upb_MiniTableField res" where
  "upb_MtDecoder_ModifyField field_modifiers field =
     bindE (flip_packed field_modifiers field) (\<lambda>field.
     bindE (flip_validate_utf8 field_modifiers field) (\<lambda>field. modify_presence field_modifiers field))"

subsection \<open>Oneofs\<close>

text \<open>Room for one more oneof: the buffer doubles.\<close>

definition grow_oneofs :: "upb_MtDecoder \<Rightarrow> upb_MtDecoder res" where
  "grow_oneofs d =
     (if (length (md_oneofs d) + 1) * 4 > md_oneofs_capacity d then
        if md_arena d 0
        then Inr (d\<lparr>md_oneofs_capacity := max 8 (length (md_oneofs d) * 2) * 4, md_arena := \<lambda>n. md_arena d (Suc n)\<rparr>)
        else Inl (Thrown OutOfMemory)
      else Inr d)"

definition upb_MtDecoder_PushOneof :: "upb_MtDecoder \<Rightarrow> upb_OneOfLayoutItem \<Rightarrow> upb_MtDecoder res" where
  "upb_MtDecoder_PushOneof d item =
     (if oi_field_index item = kUpb_OneOfLayoutItem_IndexSentinel then md_error
      else
        bindE (grow_oneofs d) (\<lambda>d.
          let item = item\<lparr>oi_field_index := oi_field_index item - kOneofBase\<rparr>;
              c = md_counts d;
              c = c[kUpb_OneOf_CaseFieldRep := c ! kUpb_OneOf_CaseFieldRep + 1];
              c = c[oi_rep item := c ! oi_rep item + 1]
          in Inr (d\<lparr>md_counts := c, md_oneofs := md_oneofs d @ [item]\<rparr>)))"

definition upb_MtDecoder_SizeOfRep :: "nat \<Rightarrow> upb_MiniTablePlatform \<Rightarrow> nat" where
  "upb_MtDecoder_SizeOfRep rep platform =
     (if platform = kUpb_MiniTablePlatform_32Bit then [1, 4, 8, 8] ! rep else [1, 4, 16, 8] ! rep)"

definition upb_MtDecoder_AlignOfRep :: "nat \<Rightarrow> upb_MiniTablePlatform \<Rightarrow> nat" where
  "upb_MtDecoder_AlignOfRep rep platform =
     (if platform = kUpb_MiniTablePlatform_32Bit then [1, 4, 4, 8] ! rep else [1, 4, 8, 8] ! rep)"

definition field_rep :: "upb_MiniTableField \<Rightarrow> nat" where
  "field_rep f = unat (drop_bit 6 (mode f))"

text \<open>The representation of a oneof that a member of representation \<open>rep\<close> joins.\<close>

definition oneof_rep :: "upb_MiniTablePlatform \<Rightarrow> nat \<Rightarrow> nat \<Rightarrow> nat res" where
  "oneof_rep platform current rep =
     (let new_size = upb_MtDecoder_SizeOfRep rep platform;
          new_align = upb_MtDecoder_AlignOfRep rep platform;
          current_size = upb_MtDecoder_SizeOfRep current platform;
          current_align = upb_MtDecoder_AlignOfRep current platform
      in if new_size > current_size \<or> new_size = current_size \<and> new_align > current_align
         then bindE (assertE (new_align \<ge> current_align)) (\<lambda>_. Inr rep)
         else bindE (assertE (current_align \<ge> new_align)) (\<lambda>_. Inr current))"

definition upb_MtDecoder_DecodeOneofField ::
    "upb_MtDecoder \<Rightarrow> byte list \<Rightarrow> byte \<Rightarrow> upb_OneOfLayoutItem \<Rightarrow> (upb_MtDecoder \<times> byte list \<times> upb_OneOfLayoutItem) res" where
  "upb_MtDecoder_DecodeOneofField d ptr first_ch item =
     bindE (upb_MdDecoder_DecodeBase92Varint ptr first_ch kUpb_EncodedValue_MinOneofField kUpb_EncodedValue_MaxOneofField)
       (\<lambda>(field_num, ptr).
     bindE (upb_MiniTable_FindFieldByNumber (md_table d) field_num) (\<lambda>r. case r of
       None \<Rightarrow> md_error
     | Some i \<Rightarrow>
         bindE (the_field d i) (\<lambda>f.
           if offset f \<noteq> kHasbitPresence then md_error
           else
             bindE (oneof_rep (md_platform d) (oi_rep item) (field_rep f)) (\<lambda>rep.
               Inr (set_field d i (f\<lparr>offset := oi_field_index item\<rparr>), ptr,
                    \<lparr>oi_field_index = of_nat i + kOneofBase, oi_rep = rep\<rparr>)))))"

lemma DecodeBase92Varint_consumes:
  "upb_MdDecoder_DecodeBase92Varint ptr ch lo hi = Inr (v, rest) \<Longrightarrow> length rest \<le> length ptr"
  by (auto simp: upb_MdDecoder_DecodeBase92Varint_def upb_Base92_DecodeVarint_def dest: varint_consumes split: option.splits)

lemma DecodeOneofField_consumes:
  "upb_MtDecoder_DecodeOneofField d ptr ch item = Inr (d', rest, item') \<Longrightarrow> length rest \<le> length ptr"
  by (auto simp: upb_MtDecoder_DecodeOneofField_def bindE_eq_Inr Let_def dest: DecodeBase92Varint_consumes split: option.splits if_splits)

function decode_oneofs_loop ::
    "upb_MtDecoder \<Rightarrow> upb_OneOfLayoutItem \<Rightarrow> byte list \<Rightarrow> (upb_MtDecoder \<times> upb_OneOfLayoutItem) res" where
  "decode_oneofs_loop d item [] = Inr (d, item)"
| "decode_oneofs_loop d item (ch # ptr) =
     (if ch = kUpb_EncodedValue_FieldSeparator then decode_oneofs_loop d item ptr
      else if ch = kUpb_EncodedValue_OneofSeparator then
        bindE (upb_MtDecoder_PushOneof d item) (\<lambda>d.
          decode_oneofs_loop d (item\<lparr>oi_field_index := kUpb_OneOfLayoutItem_IndexSentinel\<rparr>) ptr)
      else
        bindE (upb_MtDecoder_DecodeOneofField d ptr ch item) (\<lambda>(d, ptr, item). decode_oneofs_loop d item ptr))"
  by pat_completeness auto
termination
  by (relation "measure (\<lambda>(d, item, ptr). length ptr)") (auto simp: le_imp_less_Suc dest: DecodeOneofField_consumes)

definition upb_MtDecoder_DecodeOneofs :: "upb_MtDecoder \<Rightarrow> byte list \<Rightarrow> upb_MtDecoder res" where
  "upb_MtDecoder_DecodeOneofs d ptr =
     bindE (decode_oneofs_loop d \<lparr>oi_field_index = kUpb_OneOfLayoutItem_IndexSentinel, oi_rep = 0\<rparr> ptr) (\<lambda>(d, item).
       upb_MtDecoder_PushOneof d item)"

subsection \<open>Parsing\<close>

definition upb_MtDecoder_ParseModifier ::
    "upb_MtDecoder \<Rightarrow> byte list \<Rightarrow> byte \<Rightarrow> nat option \<Rightarrow> u64 \<Rightarrow> (upb_MtDecoder \<times> byte list \<times> u64) res" where
  "upb_MtDecoder_ParseModifier d ptr first_ch last_field msg_modifiers =
     bindE (upb_MdDecoder_DecodeBase92Varint ptr first_ch kUpb_EncodedValue_MinModifier kUpb_EncodedValue_MaxModifier)
       (\<lambda>(modifiers, ptr). case last_field of
          Some i \<Rightarrow>
            bindE (the_field d i) (\<lambda>f.
            bindE (upb_MtDecoder_ModifyField modifiers f) (\<lambda>f. Inr (set_field d i f, ptr, msg_modifiers)))
        | None \<Rightarrow> if md_is_extension d then md_error else Inr (d, ptr, ucast modifiers))"

definition upb_MtDecoder_PtrSize :: "upb_MtDecoder \<Rightarrow> nat" where
  "upb_MtDecoder_PtrSize d = (if md_platform d = kUpb_MiniTablePlatform_32Bit then 4 else 8)"

definition align_up :: "nat \<Rightarrow> nat \<Rightarrow> nat" where
  "align_up n a = (n + a - 1) div a * a"

text \<open>
  \<open>upb_MtDecoder_AllocateSubs\<close>: \<open>sizeof(upb_MiniTableField)\<close> is 12 and offsets count units of 4 bytes. \<open>ofs\<close> is the
  distance from the current field to the next free slot, which lies behind all fields; \<open>i\<close> is the index of the field.
\<close>

fun allocate_subs_loop :: "nat \<Rightarrow> nat \<Rightarrow> u16 list \<Rightarrow> int \<Rightarrow> u16 list res" where
  "allocate_subs_loop ptr_size i [] ofs = Inr []"
| "allocate_subs_loop ptr_size i (s # ss) ofs =
     (if s = kUpb_NoSub then bindE (allocate_subs_loop ptr_size (i + 1) ss (ofs - 12)) (\<lambda>ss. Inr (s # ss))
      else
        bindE (assertE (ofs mod 4 = 0 \<and> (int (i * 12) + ofs) mod int ptr_size = 0)) (\<lambda>_.
        let u32_ofs = ofs div 4
        in if u32_ofs > 65535 then md_error
           else bindE (allocate_subs_loop ptr_size (i + 1) ss (ofs + int ptr_size - 12)) (\<lambda>ss.
                  Inr (word_of_int u32_ofs # ss))))"

definition upb_MtDecoder_AllocateSubs :: "upb_MtDecoder \<Rightarrow> nat \<Rightarrow> upb_MtDecoder res" where
  "upb_MtDecoder_AllocateSubs d field_bytes =
     (let n = unat (md_field_count d)
      in bindE (allocate_subs_loop (upb_MtDecoder_PtrSize d) 0 (take n (md_submsg_ofs d)) (int field_bytes)) (\<lambda>ss.
           Inr (d\<lparr>md_submsg_ofs := ss @ drop n (md_submsg_ofs d)\<rparr>)))"

record md_parse =
  mp_msg_modifiers :: u64
  mp_last_field_number :: u32
  mp_last_field :: "nat option"
  mp_need_dense_below :: bool

definition new_field :: "u32 \<Rightarrow> upb_MiniTableField" where
  "new_field n = \<lparr>number = n, offset = 0, presence = 0, submsg = NoSub, descriptortype = kUpb_FieldType_Double, mode = 0\<rparr>"

text \<open>A character that begins a field.\<close>

definition parse_field :: "upb_MtDecoder \<Rightarrow> md_parse \<Rightarrow> byte \<Rightarrow> (upb_MtDecoder \<times> md_parse) res" where
  "parse_field d p ch =
     (let num = mp_last_field_number p + 1
      in if num = 0 \<or> num > kUpb_MaxFieldNumber \<and> \<not> md_is_extension d then md_error
         else
           bindE (upb_MiniTable_SetField (md_platform d) (md_sub_count d) ch (new_field num) (mp_msg_modifiers p))
             (\<lambda>(f, ofs, sub_count).
                Inr (d\<lparr>md_fields := md_fields d @ [f], md_submsg_ofs := md_submsg_ofs d @ [ofs],
                       md_sub_count := sub_count, md_field_count := md_field_count d + 1\<rparr>,
                     p\<lparr>mp_last_field_number := num, mp_last_field := Some (length (md_fields d))\<rparr>)))"

lemma ParseModifier_consumes:
  "upb_MtDecoder_ParseModifier d ptr ch l m = Inr (d', rest, m') \<Longrightarrow> length rest \<le> length ptr"
  by (auto simp: upb_MtDecoder_ParseModifier_def bindE_eq_Inr dest: DecodeBase92Varint_consumes split: option.splits if_splits)

function parse_loop :: "upb_MtDecoder \<Rightarrow> md_parse \<Rightarrow> byte list \<Rightarrow> (upb_MtDecoder \<times> md_parse \<times> byte list) res" where
  "parse_loop d p [] = Inr (d, p, [])"
| "parse_loop d p (ch # ptr) =
     (if sint ch \<le> sint kUpb_EncodedValue_MaxField then
        if md_is_extension d \<and> mp_last_field p \<noteq> None then Inr (d, p, ch # ptr)
        else bindE (parse_field d p ch) (\<lambda>(d, p). parse_loop d p ptr)
      else if sint kUpb_EncodedValue_MinModifier \<le> sint ch \<and> sint ch \<le> sint kUpb_EncodedValue_MaxModifier then
        bindE (upb_MtDecoder_ParseModifier d ptr ch (mp_last_field p) (mp_msg_modifiers p)) (\<lambda>(d, ptr, m).
          parse_loop (if m AND 4 \<noteq> 0 then d\<lparr>md_ext := md_ext d OR 1\<rparr> else d) (p\<lparr>mp_msg_modifiers := m\<rparr>) ptr)
      else if ch = kUpb_EncodedValue_End then
        if md_is_extension d then md_error
        else bindE (upb_MtDecoder_DecodeOneofs d ptr) (\<lambda>d. Inr (d, p, []))
      else if sint kUpb_EncodedValue_MinSkip \<le> sint ch \<and> sint ch \<le> sint kUpb_EncodedValue_MaxSkip then
        let d = (if mp_need_dense_below p then d\<lparr>md_dense_below := ucast (md_field_count d)\<rparr> else d)
        in bindE (upb_MdDecoder_DecodeBase92Varint ptr ch kUpb_EncodedValue_MinSkip kUpb_EncodedValue_MaxSkip) (\<lambda>(skip, ptr).
             parse_loop d (p\<lparr>mp_need_dense_below := False, mp_last_field_number := mp_last_field_number p + skip - 1\<rparr>) ptr)
      else md_error)"
  by pat_completeness auto
termination
  by (relation "measure (\<lambda>(d, p, ptr). length ptr)")
    (auto simp: le_imp_less_Suc dest: ParseModifier_consumes DecodeBase92Varint_consumes)

definition upb_MtDecoder_Parse :: "upb_MtDecoder \<Rightarrow> byte list \<Rightarrow> (upb_MtDecoder \<times> byte list) res" where
  "upb_MtDecoder_Parse d ptr =
     bindE (parse_loop d \<lparr>mp_msg_modifiers = 0, mp_last_field_number = 0, mp_last_field = None,
                          mp_need_dense_below = (\<not> md_is_extension d)\<rparr> ptr) (\<lambda>(d, p, ptr).
       Inr (if mp_need_dense_below p then d\<lparr>md_dense_below := ucast (md_field_count d)\<rparr> else d, ptr))"

text \<open>The array of fields is one allocation; it is shrunk at the end, which cannot fail.\<close>

definition upb_MtDecoder_ParseMessage :: "upb_MtDecoder \<Rightarrow> byte list \<Rightarrow> upb_MtDecoder res" where
  "upb_MtDecoder_ParseMessage d data =
     (let bytes_per_field = 12 + 8 :: u64
      in if (- 1 - 4) div bytes_per_field < of_nat (length data) then md_error
         else if \<not> md_arena d 0 then Inl (Thrown OutOfMemory)
         else
           bindE (upb_MtDecoder_Parse (d\<lparr>md_arena := \<lambda>n. md_arena d (Suc n), md_field_count := 0, md_fields := [],
                                         md_submsg_ofs := []\<rparr>) data) (\<lambda>(d, ptr).
             let field_bytes = align_up (unat (md_field_count d) * 12) (upb_MtDecoder_PtrSize d)
             in upb_MtDecoder_AllocateSubs d field_bytes))"

subsection \<open>Hasbits, offsets and sizes\<close>

definition upb_MiniTable_DivideRoundUp :: "nat \<Rightarrow> nat \<Rightarrow> nat" where
  "upb_MiniTable_DivideRoundUp n d = (n + d - 1) div d"

text \<open>The presence of a field is a 16-bit signed number.\<close>

definition hasbit_presence :: "nat \<Rightarrow> int" where
  "hasbit_presence h = sint (of_nat h :: u16)"

fun assign_required :: "nat \<Rightarrow> upb_MiniTableField list \<Rightarrow> nat \<times> upb_MiniTableField list" where
  "assign_required last_hasbit [] = (last_hasbit, [])"
| "assign_required last_hasbit (f # fs) =
     (if offset f = kRequiredPresence then
        let (h, fs) = assign_required (last_hasbit + 1) fs in (h, f\<lparr>presence := hasbit_presence (last_hasbit + 1)\<rparr> # fs)
      else
        let (h, fs) = assign_required last_hasbit fs
        in (h, (if offset f = kNoPresence then f\<lparr>presence := 0\<rparr> else f) # fs))"

fun assign_optional :: "nat \<Rightarrow> upb_MiniTableField list \<Rightarrow> nat \<times> upb_MiniTableField list" where
  "assign_optional last_hasbit [] = (last_hasbit, [])"
| "assign_optional last_hasbit (f # fs) =
     (if offset f = kHasbitPresence then
        let (h, fs) = assign_optional (last_hasbit + 1) fs in (h, f\<lparr>presence := hasbit_presence (last_hasbit + 1)\<rparr> # fs)
      else let (h, fs) = assign_optional last_hasbit fs in (h, f # fs))"

definition upb_MtDecoder_AssignHasbits :: "upb_MtDecoder \<Rightarrow> upb_MtDecoder res" where
  "upb_MtDecoder_AssignHasbits d =
     (let n = unat (md_field_count d);
          (last_hasbit, fs) = assign_required (kUpb_Reserved_Hasbits - 1) (take n (md_fields d))
      in if last_hasbit \<ge> kUpb_Reserved_Hasbits + 63 then md_error
         else
           let required = of_nat (last_hasbit - (kUpb_Reserved_Hasbits - 1)) :: byte;
               (last_hasbit, fs) = assign_optional last_hasbit fs
           in bindE (assertE (required < 64)) (\<lambda>_.
              Inr (d\<lparr>md_fields := fs @ drop n (md_fields d), md_required_count := required,
                     md_size := of_nat (if last_hasbit \<noteq> 0 then upb_MiniTable_DivideRoundUp (last_hasbit + 1) 8 else 0)\<rparr>)))"

text \<open>First loop of \<open>CalculateAlignments\<close>: count the fields outside oneofs. Second loop: a region for each representation.\<close>

fun count_reps :: "upb_MiniTableField list \<Rightarrow> u16 list \<Rightarrow> u16 list" where
  "count_reps [] counts = counts"
| "count_reps (f # fs) counts =
     (if offset f \<ge> kOneofBase then count_reps fs counts
      else count_reps fs (counts[field_rep f := counts ! field_rep f + 1]))"

fun reserve_regions :: "upb_MiniTablePlatform \<Rightarrow> nat list \<Rightarrow> nat \<Rightarrow> u16 list \<Rightarrow> nat \<times> u16 list" where
  "reserve_regions platform [] base counts = (base, counts)"
| "reserve_regions platform (rep # reps) base counts =
     (let cnt = counts ! rep
      in if cnt = 0 then reserve_regions platform reps base counts
         else
           let base = align_up base (upb_MtDecoder_AlignOfRep rep platform)
           in reserve_regions platform reps (base + upb_MtDecoder_SizeOfRep rep platform * unat cnt)
                (counts[rep := of_nat base]))"

definition upb_MtDecoder_CalculateAlignments :: "upb_MtDecoder \<Rightarrow> upb_MtDecoder res" where
  "upb_MtDecoder_CalculateAlignments d =
     (let counts = count_reps (take (unat (md_field_count d)) (md_fields d)) (md_counts d);
          (base, counts) = reserve_regions (md_platform d) [0, 1, 2, 3] (unat (md_size d)) counts
      in if int base > 65535 then md_error
         else Inr (d\<lparr>md_counts := counts, md_size := of_nat base\<rparr>))"

definition upb_MtDecoder_Place :: "upb_MiniTablePlatform \<Rightarrow> u16 list \<Rightarrow> nat \<Rightarrow> u16 \<times> u16 list" where
  "upb_MtDecoder_Place platform counts rep =
     (counts ! rep, counts[rep := counts ! rep + of_nat (upb_MtDecoder_SizeOfRep rep platform)])"

fun place_fields :: "upb_MiniTablePlatform \<Rightarrow> upb_MiniTableField list \<Rightarrow> u16 list \<Rightarrow> upb_MiniTableField list \<times> u16 list" where
  "place_fields platform [] counts = ([], counts)"
| "place_fields platform (f # fs) counts =
     (if offset f \<ge> kOneofBase then
        let (fs, counts) = place_fields platform fs counts in (f # fs, counts)
      else
        let (ofs, counts) = upb_MtDecoder_Place platform counts (field_rep f);
            (fs, counts) = place_fields platform fs counts
        in (f\<lparr>offset := ofs\<rparr> # fs, counts))"

text \<open>The members of a oneof are a linked list through their offsets.\<close>

primrec place_members :: "nat \<Rightarrow> upb_MtDecoder \<Rightarrow> nat \<Rightarrow> u16 \<Rightarrow> u16 \<Rightarrow> upb_MtDecoder res" where
  "place_members 0 d i case_offset data_offset = Inl OutOfFuel"
| "place_members (Suc fuel) d i case_offset data_offset =
     bindE (the_field d i) (\<lambda>f.
       let next_offset = offset f;
           d = set_field d i (f\<lparr>presence := sint (NOT case_offset), offset := data_offset\<rparr>)
       in if next_offset = kUpb_OneOfLayoutItem_IndexSentinel then Inr d
          else
            bindE (assertE (int (unat next_offset) - 3 < int (unat (md_field_count d)))) (\<lambda>_.
              if next_offset < kOneofBase then Inl OutOfBounds
              else place_members fuel d (unat (next_offset - kOneofBase)) case_offset data_offset))"

fun place_oneofs :: "upb_OneOfLayoutItem list \<Rightarrow> upb_MtDecoder \<Rightarrow> upb_MtDecoder res" where
  "place_oneofs [] d = Inr d"
| "place_oneofs (item # items) d =
     (let (case_offset, counts) = upb_MtDecoder_Place (md_platform d) (md_counts d) kUpb_OneOf_CaseFieldRep;
          (data_offset, counts) = upb_MtDecoder_Place (md_platform d) counts (oi_rep item)
      in bindE (place_members (length (md_fields d)) (d\<lparr>md_counts := counts\<rparr>) (unat (oi_field_index item)) case_offset data_offset)
           (place_oneofs items))"

definition upb_MtDecoder_AssignOffsets :: "upb_MtDecoder \<Rightarrow> upb_MtDecoder res" where
  "upb_MtDecoder_AssignOffsets d =
     (let n = unat (md_field_count d);
          (fs, counts) = place_fields (md_platform d) (take n (md_fields d)) (md_counts d)
      in bindE (place_oneofs (md_oneofs d) (d\<lparr>md_fields := fs @ drop n (md_fields d), md_counts := counts\<rparr>)) (\<lambda>d.
           Inr (d\<lparr>md_size := of_nat (align_up (unat (md_size d)) 8)\<rparr>)))"

subsection \<open>Map entries and message sets\<close>

definition upb_MtDecoder_ValidateEntryField :: "upb_MiniTableField \<Rightarrow> u32 \<Rightarrow> unit res" where
  "upb_MtDecoder_ValidateEntryField f expected_num =
     (if number f \<noteq> expected_num then md_error
      else if \<not> upb_MiniTableField_IsScalar f then md_error
      else
        let not_ok_types =
              (if expected_num = 1
               then {kUpb_FieldType_Float, kUpb_FieldType_Double, kUpb_FieldType_Message, kUpb_FieldType_Group,
                     kUpb_FieldType_Bytes, kUpb_FieldType_Enum}
               else {kUpb_FieldType_Group})
        in bindE (upb_MiniTableField_Type f) (\<lambda>t. if t \<in> not_ok_types then md_error else Inr ()))"

text \<open>The offsets and the size of \<open>upb_MapEntry\<close>: a header, the hasbits, and two values of 16 bytes.\<close>

definition upb_MtDecoder_ParseMap :: "upb_MtDecoder \<Rightarrow> byte list \<Rightarrow> upb_MtDecoder res" where
  "upb_MtDecoder_ParseMap d data =
     bindE (upb_MtDecoder_ParseMessage d data) (\<lambda>d.
     bindE (upb_MtDecoder_AssignHasbits d) (\<lambda>d.
       if md_field_count d \<noteq> 2 then md_error
       else if md_oneofs d \<noteq> [] then md_error
       else
         bindE (the_field d 0) (\<lambda>k.
         bindE (the_field d 1) (\<lambda>v.
         bindE (upb_MtDecoder_ValidateEntryField k 1) (\<lambda>_.
         bindE (upb_MtDecoder_ValidateEntryField v 2) (\<lambda>_.
           let d = set_field (set_field d 0 (k\<lparr>offset := 16\<rparr>)) 1 (v\<lparr>offset := 32\<rparr>)
           in Inr (d\<lparr>md_size := 48, md_ext := md_ext d OR 4\<rparr>)))))))"

definition upb_MtDecoder_ParseMessageSet :: "upb_MtDecoder \<Rightarrow> byte list \<Rightarrow> upb_MtDecoder res" where
  "upb_MtDecoder_ParseMessageSet d data =
     (if data \<noteq> [] then md_error
      else Inr (d\<lparr>md_size := of_nat kUpb_Reserved_Hasbytes, md_field_count := 0, md_ext := 2, md_dense_below := 0,
                  md_required_count := 0\<rparr>))"

subsection \<open>Building\<close>

text \<open>The layout passes of a message, in the order in which they run.\<close>

definition assign_layout :: "upb_MtDecoder \<Rightarrow> upb_MtDecoder res" where
  "assign_layout d =
     bindE (upb_MtDecoder_AssignHasbits d) (\<lambda>d.
     bindE (upb_MtDecoder_CalculateAlignments d) (\<lambda>d. upb_MtDecoder_AssignOffsets d))"

text \<open>
  The table itself is allocated last, and its address is used without a test. \<open>CheckInvariants\<close> asserts
  the alignment of the size.
\<close>

definition upb_MtDecoder_DoBuildMiniTableWithBuf :: "upb_MtDecoder \<Rightarrow> byte list \<Rightarrow> upb_MtDecoder res" where
  "upb_MtDecoder_DoBuildMiniTableWithBuf d data =
     (let d = d\<lparr>md_size := of_nat kUpb_Reserved_Hasbytes, md_field_count := 0, md_ext := 0, md_dense_below := 0,
                md_required_count := 0\<rparr>
      in bindE (case data of
                  [] \<Rightarrow> Inr d
                | vers # data \<Rightarrow>
                    if vers = kUpb_EncodedVersion_MapV1 then upb_MtDecoder_ParseMap d data
                    else if vers = kUpb_EncodedVersion_MessageV1 then
                      bindE (upb_MtDecoder_ParseMessage d data) assign_layout
                    else if vers = kUpb_EncodedVersion_MessageSetV1 then upb_MtDecoder_ParseMessageSet d data
                    else md_error) (\<lambda>d.
           if \<not> md_arena d 0 then Inl OutOfBounds
           else bindE (assertE (unat (md_size d) mod 8 = 0)) (\<lambda>_. Inr d)))"

definition upb_MiniTable_BuildWithBuf ::
    "byte list \<Rightarrow> upb_MiniTablePlatform \<Rightarrow> arena \<Rightarrow> nat \<Rightarrow> upb_MtDecoder option res" where
  "upb_MiniTable_BuildWithBuf data platform a buf_size =
     (case upb_MtDecoder_DoBuildMiniTableWithBuf
             (md_init platform buf_size a False) data of
        Inr d \<Rightarrow> Inr (Some d)
      | Inl (Thrown _) \<Rightarrow> Inr None
      | Inl e \<Rightarrow> Inl e)"

definition upb_MiniTable_Build :: "byte list \<Rightarrow> upb_MiniTablePlatform \<Rightarrow> arena \<Rightarrow> upb_MtDecoder option res" where
  "upb_MiniTable_Build data platform a = upb_MiniTable_BuildWithBuf data platform a 0"

subsection \<open>Extensions\<close>

text \<open>
  The result is the field with the rest of the descriptor; \<open>NULL\<close> is \<open>None\<close>. \<open>extendee_ext\<close> are the extension
  bits of the extended message.
\<close>

definition upb_MtDecoder_DoBuildMiniTableExtension ::
    "upb_MtDecoder \<Rightarrow> byte list \<Rightarrow> byte \<Rightarrow> (upb_MiniTableField \<times> u16 \<times> byte list) option res" where
  "upb_MtDecoder_DoBuildMiniTableExtension d data extendee_ext =
     (if extendee_ext AND 3 = 0 then md_error
      else
        bindE (case data of
                 [] \<Rightarrow> Inr []
               | vers # data \<Rightarrow> if vers \<noteq> kUpb_EncodedVersion_ExtensionV1 then md_error else Inr data) (\<lambda>data.
        bindE (upb_MtDecoder_Parse d data) (\<lambda>(d, rest).
          case md_fields d of
            [f] \<Rightarrow>
              let f = f\<lparr>mode := mode f OR 8, offset := 0, presence := 0\<rparr>;
                  ofs = of_nat (align_up 12 (upb_MtDecoder_PtrSize d) div 4)
              in if extendee_ext AND 2 \<noteq> 0 \<and> (\<not> upb_MiniTableField_IsSubMessage f \<or> upb_MiniTableField_IsArray f)
                 then Inr None else Inr (Some (f, ofs, rest))
          | _ \<Rightarrow> Inr None)))"

definition upb_MiniTableExtension_Init ::
    "byte list \<Rightarrow> byte \<Rightarrow> upb_MiniTablePlatform \<Rightarrow> (upb_MiniTableField \<times> u16 \<times> byte list) option res" where
  "upb_MiniTableExtension_Init data extendee_ext platform =
     (case upb_MtDecoder_DoBuildMiniTableExtension
             (md_init platform 0 (\<lambda>_. False) True) data extendee_ext of
        Inr r \<Rightarrow> Inr r
      | Inl (Thrown _) \<Rightarrow> Inr None
      | Inl e \<Rightarrow> Inl e)"

definition upb_MiniTableExtension_Build ::
    "byte list \<Rightarrow> byte \<Rightarrow> upb_MiniTablePlatform \<Rightarrow> arena \<Rightarrow> (upb_MiniTableField \<times> u16) option res" where
  "upb_MiniTableExtension_Build data extendee_ext platform a =
     (if \<not> a 0 then Inr None
      else bindE (upb_MiniTableExtension_Init data extendee_ext platform) (\<lambda>r.
             Inr (map_option (\<lambda>(f, ofs, _). (f, ofs)) r)))"

end
