(* ===== verification/Mini_Layout.thy ===== *)
theory Mini_Layout
  imports Mini_Decode
begin

text \<open>
  The layout passes give every field storage of its own. A piece of storage is a slot: the \<open>k\<close>-th place of
  the region of a representation. The passes count the slots, reserve a region for each representation, and
  hand the slots out one by one.
\<close>

subsection \<open>Regions\<close>

abbreviation rep_size :: "upb_MiniTablePlatform \<Rightarrow> nat \<Rightarrow> nat" where
  "rep_size p r \<equiv> upb_MtDecoder_SizeOfRep r p"

abbreviation rep_align :: "upb_MiniTablePlatform \<Rightarrow> nat \<Rightarrow> nat" where
  "rep_align p r \<equiv> upb_MtDecoder_AlignOfRep r p"

lemma rep_cases: "r < 4 \<Longrightarrow> r = 0 \<or> r = 1 \<or> r = 2 \<or> r = (3 :: nat)"
  by linarith

lemma rep_size_bounds:
  assumes "r < 4"
  shows "1 \<le> rep_size p r" "rep_size p r \<le> 16" "1 \<le> rep_align p r" "rep_align p r \<le> 8" "rep_align p r dvd rep_size p r"
    "rep_align p r dvd 8"
  using rep_cases[OF assms] by (auto simp: upb_MtDecoder_SizeOfRep_def upb_MtDecoder_AlignOfRep_def)

lemma rep_size_case [simp]: "rep_size p (Suc 0) = 4" "rep_align p (Suc 0) = 4"
  by (simp_all add: upb_MtDecoder_SizeOfRep_def upb_MtDecoder_AlignOfRep_def)

lemma field_rep_less: "field_rep f < 4"
proof -
  have "unat (mode f) < 2 ^ LENGTH(8)" by (rule unsigned_less)
  then show ?thesis by (simp add: field_rep_def drop_bit_eq_div unat_div)
qed

lemma align_up_props:
  assumes "1 \<le> a"
  shows "n \<le> align_up n a" "align_up n a < n + a" "a dvd align_up n a"
proof -
  have "(n + a - 1) div a * a + (n + a - 1) mod a = n + a - 1" by (rule div_mult_mod_eq)
  moreover have "(n + a - 1) mod a < a" using assms by simp
  ultimately show "n \<le> align_up n a" "align_up n a < n + a" using assms unfolding align_up_def by linarith+
qed (simp add: align_up_def)

text \<open>Where the regions begin: \<open>B r\<close>; \<open>c r\<close> is the number of slots.\<close>

definition regions :: "upb_MiniTablePlatform \<Rightarrow> (nat \<Rightarrow> nat) \<Rightarrow> (nat \<Rightarrow> nat) \<Rightarrow> nat \<Rightarrow> nat \<Rightarrow> bool" where
  "regions p c B start stop \<longleftrightarrow>
     (\<forall>r < 4. 0 < c r \<longrightarrow> start \<le> B r \<and> rep_align p r dvd B r \<and> B r + rep_size p r * c r \<le> stop) \<and>
     (\<forall>r < 4. \<forall>s < 4. r < s \<longrightarrow> 0 < c r \<longrightarrow> 0 < c s \<longrightarrow> B r + rep_size p r * c r \<le> B s)"

lemma reserve_regions_step:
  "reserve_regions p (r # rs) base counts =
     (if counts ! r = 0 then reserve_regions p rs base counts
      else reserve_regions p rs (align_up base (rep_align p r) + rep_size p r * unat (counts ! r))
             (counts[r := of_nat (align_up base (rep_align p r))]))"
  by (simp add: Let_def)

text \<open>The general form: regions for a sorted list of representations.\<close>

lemma reserve_regions_ok:
  assumes "sorted_wrt (<) rs" "\<forall>r \<in> set rs. r < 4" "length counts = 4" "reserve_regions p rs base counts = (stop, counts')"
  shows "\<exists>B. (\<forall>r \<in> set rs. counts ! r \<noteq> 0 \<longrightarrow> counts' ! r = of_nat (B r) \<and> base \<le> B r \<and> rep_align p r dvd B r \<and>
        B r + rep_size p r * unat (counts ! r) \<le> stop) \<and>
      (\<forall>r \<in> set rs. \<forall>s \<in> set rs. r < s \<longrightarrow> counts ! r \<noteq> 0 \<longrightarrow> counts ! s \<noteq> 0 \<longrightarrow> B r + rep_size p r * unat (counts ! r) \<le> B s) \<and>
      (\<forall>r. r \<notin> set rs \<or> counts ! r = 0 \<longrightarrow> counts' ! r = counts ! r) \<and> length counts' = 4 \<and> base \<le> stop \<and>
      stop \<le> base + (\<Sum>r\<leftarrow>rs. 8 + 16 * unat (counts ! r))"
  using assms
proof (induction rs arbitrary: base counts)
  case Nil
  then show ?case by auto
next
  case (Cons r rs)
  show ?case
  proof (cases "counts ! r = 0")
    case True
    then obtain B where B: "\<forall>q \<in> set rs. counts ! q \<noteq> 0 \<longrightarrow> counts' ! q = of_nat (B q) \<and> base \<le> B q \<and> rep_align p q dvd B q \<and>
        B q + rep_size p q * unat (counts ! q) \<le> stop"
      "\<forall>q \<in> set rs. \<forall>s \<in> set rs. q < s \<longrightarrow> counts ! q \<noteq> 0 \<longrightarrow> counts ! s \<noteq> 0 \<longrightarrow> B q + rep_size p q * unat (counts ! q) \<le> B s"
      "\<forall>q. q \<notin> set rs \<or> counts ! q = 0 \<longrightarrow> counts' ! q = counts ! q" "length counts' = 4" "base \<le> stop"
      "stop \<le> base + (\<Sum>r\<leftarrow>rs. 8 + 16 * unat (counts ! r))"
      using Cons.IH[of counts base] Cons.prems by (auto simp: reserve_regions_step simp del: reserve_regions.simps)
    then show ?thesis using True by (intro exI[of _ B]) auto
  next
    case False
    let ?b = "align_up base (rep_align p r)"
    let ?e = "?b + rep_size p r * unat (counts ! r)"
    have r: "r < 4" "r \<notin> set rs" "\<forall>q \<in> set rs. r < q" using Cons.prems by auto
    note al = align_up_props[OF rep_size_bounds(3)[OF r(1), of p], of base]
    have same: "counts[r := of_nat ?b] ! q = counts ! q" if "q \<in> set rs" for q using r that by auto
    obtain B where B: "\<forall>q \<in> set rs. counts ! q \<noteq> 0 \<longrightarrow> counts' ! q = of_nat (B q) \<and> ?e \<le> B q \<and> rep_align p q dvd B q \<and>
        B q + rep_size p q * unat (counts ! q) \<le> stop"
      "\<forall>q \<in> set rs. \<forall>s \<in> set rs. q < s \<longrightarrow> counts ! q \<noteq> 0 \<longrightarrow> counts ! s \<noteq> 0 \<longrightarrow> B q + rep_size p q * unat (counts ! q) \<le> B s"
      "\<forall>q. q \<notin> set rs \<or> counts[r := of_nat ?b] ! q = 0 \<longrightarrow> counts' ! q = counts[r := of_nat ?b] ! q" "length counts' = 4"
      "?e \<le> stop" "stop \<le> ?e + (\<Sum>r\<leftarrow>rs. 8 + 16 * unat (counts ! r))"
      using Cons.IH[of "counts[r := of_nat ?b]" ?e] Cons.prems False same
      by (auto simp: reserve_regions_step simp del: reserve_regions.simps cong: map_cong)
    have le: "?e \<le> base + 8 + 16 * unat (counts ! r)"
      using al(2) rep_size_bounds(2,4)[OF r(1), of p] mult_le_mono1[OF rep_size_bounds(2)[OF r(1), of p], of "unat (counts ! r)"] by linarith
    show ?thesis
      using B r al le False Cons.prems(3) same
      by (intro exI[of _ "B(r := ?b)"]) (auto simp: nth_list_update dest: order_trans[OF al(1)])
  qed
qed

subsection \<open>Counting and handing out slots\<close>

text \<open>The place of a slot, and the cursors when \<open>used r\<close> slots of each representation are gone.\<close>

definition place_of :: "upb_MiniTablePlatform \<Rightarrow> (nat \<Rightarrow> nat) \<Rightarrow> nat \<times> nat \<Rightarrow> nat" where
  "place_of p B s = B (fst s) + rep_size p (fst s) * snd s"

definition cursors :: "upb_MiniTablePlatform \<Rightarrow> (nat \<Rightarrow> nat) \<Rightarrow> (nat \<Rightarrow> nat) \<Rightarrow> (nat \<Rightarrow> nat) \<Rightarrow> u16 list \<Rightarrow> bool" where
  "cursors p B c used counts \<longleftrightarrow> length counts = 4 \<and>
     (\<forall>r < 4. 0 < c r \<longrightarrow> counts ! r = of_nat (B r + rep_size p r * used r))"

lemma Place_ok:
  assumes "cursors p B c used counts" "r < 4" "0 < c r"
  shows "\<exists>counts'. upb_MtDecoder_Place p counts r = (of_nat (place_of p B (r, used r)), counts') \<and>
    cursors p B c (used(r := used r + 1)) counts'"
  using assms by (auto simp: upb_MtDecoder_Place_def cursors_def place_of_def nth_list_update algebra_simps)

definition in_oneof :: "upb_MiniTableField \<Rightarrow> bool" where
  "in_oneof f \<longleftrightarrow> offset f \<ge> kOneofBase"

definition single_count :: "upb_MiniTableField list \<Rightarrow> nat \<Rightarrow> nat" where
  "single_count fs r = length (filter (\<lambda>f. \<not> in_oneof f \<and> field_rep f = r) fs)"

lemma single_count_simps [simp]:
  "single_count [] r = 0"
  "single_count (f # fs) r = (if \<not> in_oneof f \<and> field_rep f = r then 1 else 0) + single_count fs r"
  by (simp_all add: single_count_def)

lemma count_reps_ok:
  assumes "length counts = 4"
  shows "length (count_reps fs counts) = 4 \<and> (\<forall>r < 4. count_reps fs counts ! r = counts ! r + of_nat (single_count fs r))"
  using assms
proof (induction fs arbitrary: counts)
  case (Cons f fs)
  then show ?case using field_rep_less[of f] by (auto simp: in_oneof_def nth_list_update add_ac)
qed simp

text \<open>Fields outside oneofs get slots of their own, between \<open>lo\<close> and \<open>hi\<close>.\<close>

definition slot_at ::
    "upb_MiniTablePlatform \<Rightarrow> (nat \<Rightarrow> nat) \<Rightarrow> (nat \<Rightarrow> nat) \<Rightarrow> (nat \<Rightarrow> nat) \<Rightarrow> upb_MiniTableField \<Rightarrow>
     upb_MiniTableField \<Rightarrow> nat \<times> nat \<Rightarrow> bool" where
  "slot_at p B lo hi f f' s \<longleftrightarrow> f' = f\<lparr>offset := of_nat (place_of p B s)\<rparr> \<and> fst s = field_rep f \<and>
     lo (fst s) \<le> snd s \<and> snd s < hi (fst s)"

definition slots_for ::
    "upb_MiniTablePlatform \<Rightarrow> (nat \<Rightarrow> nat) \<Rightarrow> (nat \<Rightarrow> nat) \<Rightarrow> (nat \<Rightarrow> nat) \<Rightarrow> upb_MiniTableField list \<Rightarrow>
     upb_MiniTableField list \<Rightarrow> (nat \<Rightarrow> nat \<times> nat) \<Rightarrow> bool" where
  "slots_for p B lo hi fs fs' slot \<longleftrightarrow> length fs' = length fs \<and>
     (\<forall>i < length fs. if in_oneof (fs ! i) then fs' ! i = fs ! i else slot_at p B lo hi (fs ! i) (fs' ! i) (slot i)) \<and>
     inj_on slot {i. i < length fs \<and> \<not> in_oneof (fs ! i)}"

lemma less_Suc_set: "{i. i < Suc n \<and> P i} = (if P 0 then {0} else {}) \<union> Suc ` {i. i < n \<and> P (Suc i)}"
  by (auto simp: less_Suc_eq_0_disj)

lemma inj_on_Suc: "inj_on (case_nat a s) (Suc ` A) \<longleftrightarrow> inj_on s A"
  by (auto simp: inj_on_def)

lemma slots_for_oneof:
  assumes "slots_for p B lo hi fs fs' slot" "in_oneof f"
  shows "slots_for p B lo hi (f # fs) (f # fs') (case_nat undefined slot)"
  using assms unfolding slots_for_def by (simp add: All_less_Suc2 less_Suc_set inj_on_Suc)

lemma slots_for_single:
  assumes s: "slots_for p B (lo(r := lo r + 1)) hi fs fs' slot" and "\<not> in_oneof f" "field_rep f = r" "lo r < hi r"
  shows "slots_for p B lo hi (f # fs) (f\<lparr>offset := of_nat (place_of p B (r, lo r))\<rparr> # fs') (case_nat (r, lo r) slot)"
proof -
  have up: "slot_at p B lo hi g g' t \<and> t \<noteq> (r, lo r)" if "slot_at p B (lo(r := lo r + 1)) hi g g' t" for g g' t
    using that by (auto simp: slot_at_def split: if_splits)
  have "slot i \<noteq> (r, lo r)" if "i < length fs" "\<not> in_oneof (fs ! i)" for i
    using s that up unfolding slots_for_def by metis
  then have "(r, lo r) \<notin> slot ` {i. i < length fs \<and> \<not> in_oneof (fs ! i)}" by (metis (mono_tags, lifting) imageE mem_Collect_eq)
  moreover have "slot_at p B lo hi f (f\<lparr>offset := of_nat (place_of p B (r, lo r))\<rparr>) (r, lo r)"
    using assms(3,4) by (simp add: slot_at_def)
  moreover have "\<forall>i < length fs. if in_oneof (fs ! i) then fs' ! i = fs ! i else slot_at p B lo hi (fs ! i) (fs' ! i) (slot i)"
  proof (intro allI impI)
    fix i
    assume "i < length fs"
    then have "if in_oneof (fs ! i) then fs' ! i = fs ! i else slot_at p B (lo(r := lo r + 1)) hi (fs ! i) (fs' ! i) (slot i)"
      using s unfolding slots_for_def by blast
    then show "if in_oneof (fs ! i) then fs' ! i = fs ! i else slot_at p B lo hi (fs ! i) (fs' ! i) (slot i)"
      using up by (cases "in_oneof (fs ! i)") auto
  qed
  moreover have "inj_on slot {i. i < length fs \<and> \<not> in_oneof (fs ! i)}" "length fs' = length fs"
    using s unfolding slots_for_def by simp_all
  ultimately show ?thesis
    using assms(2) unfolding slots_for_def
    by (simp add: All_less_Suc2 less_Suc_set inj_on_Suc image_image)
qed

lemma place_fields_ok:
  assumes "cursors p B c used counts" "\<forall>r < 4. used r + single_count fs r \<le> c r"
  shows "\<exists>fs' counts' slot. place_fields p fs counts = (fs', counts') \<and>
    cursors p B c (\<lambda>r. used r + single_count fs r) counts' \<and>
    slots_for p B used (\<lambda>r. used r + single_count fs r) fs fs' slot"
  using assms
proof (induction fs arbitrary: used counts)
  case Nil
  then show ?case by (auto simp: slots_for_def)
next
  case (Cons f fs)
  show ?case
  proof (cases "in_oneof f")
    case True
    then have "\<forall>r < 4. used r + single_count fs r \<le> c r" using Cons.prems(2) by simp
    from Cons.IH[OF Cons.prems(1) this] obtain fs' counts' slot where "place_fields p fs counts = (fs', counts')"
      "cursors p B c (\<lambda>r. used r + single_count fs r) counts'"
      "slots_for p B used (\<lambda>r. used r + single_count fs r) fs fs' slot" by blast
    then show ?thesis using True slots_for_oneof[OF _ True] by (fastforce simp: in_oneof_def)
  next
    case False
    let ?r = "field_rep f"
    let ?u = "used(?r := used ?r + 1)"
    have r: "?r < 4" by (rule field_rep_less)
    then have "0 < c ?r" using spec[OF Cons.prems(2), of ?r] False by simp
    from Place_ok[OF Cons.prems(1) r this] obtain counts1 where
      pl: "upb_MtDecoder_Place p counts ?r = (of_nat (place_of p B (?r, used ?r)), counts1)" "cursors p B c ?u counts1" by blast
    have eq: "(\<lambda>r. ?u r + single_count fs r) = (\<lambda>r. used r + single_count (f # fs) r)" using False by (auto simp: fun_eq_iff)
    have "\<forall>r < 4. ?u r + single_count fs r \<le> c r" unfolding fun_cong[OF eq] by (rule Cons.prems(2))
    from Cons.IH[OF pl(2) this] obtain fs' counts' slot where IH: "place_fields p fs counts1 = (fs', counts')"
      "cursors p B c (\<lambda>r. used r + single_count (f # fs) r) counts'"
      "slots_for p B ?u (\<lambda>r. used r + single_count (f # fs) r) fs fs' slot" unfolding eq by blast
    have "place_fields p (f # fs) counts = (f\<lparr>offset := of_nat (place_of p B (?r, used ?r))\<rparr> # fs', counts')"
      using False pl(1) IH(1) by (simp add: in_oneof_def)
    then show ?thesis using IH(2) slots_for_single[OF IH(3) False refl] False by fastforce
  qed
qed

subsection \<open>Oneofs\<close>

text \<open>The members of a oneof, linked through their offsets.\<close>

fun chain :: "upb_MiniTableField list \<Rightarrow> nat list \<Rightarrow> bool" where
  "chain F [] \<longleftrightarrow> False"
| "chain F [i] \<longleftrightarrow> i < length F \<and> offset (F ! i) = kUpb_OneOfLayoutItem_IndexSentinel"
| "chain F (i # j # ks) \<longleftrightarrow> i < length F \<and> offset (F ! i) = of_nat j + kOneofBase \<and> chain F (j # ks)"

lemma chain_cong: "(\<forall>i \<in> set ks. F' ! i = F ! i) \<Longrightarrow> length F' = length F \<Longrightarrow> chain F' ks = chain F ks"
  by (induction F ks rule: chain.induct) auto

lemma chain_bound: "chain F ks \<Longrightarrow> i \<in> set ks \<Longrightarrow> i < length F"
  by (induction F ks rule: chain.induct) auto

lemma link_unat:
  assumes "j < (n :: nat)" "n < 65532"
  shows "of_nat j + kOneofBase \<noteq> kUpb_OneOfLayoutItem_IndexSentinel" "unat (of_nat j + kOneofBase) = j + 3"
    "\<not> of_nat j + kOneofBase < kOneofBase" "unat (of_nat j :: u16) = j"
proof -
  show u: "unat (of_nat j + kOneofBase) = j + 3" using assms by (simp add: kOneofBase_def unat_word_ariths unat_of_nat)
  show "\<not> of_nat j + kOneofBase < kOneofBase" unfolding word_less_nat_alt u by (simp add: kOneofBase_def)
  have "unat (of_nat j + kOneofBase) \<noteq> unat kUpb_OneOfLayoutItem_IndexSentinel"
    using u assms by (simp add: kUpb_OneOfLayoutItem_IndexSentinel_def unsigned_minus_1_eq_mask mask_eq_exp_minus_1)
  then show "of_nat j + kOneofBase \<noteq> kUpb_OneOfLayoutItem_IndexSentinel" by metis
  show "unat (of_nat j :: u16) = j" using assms by (simp add: unat_of_nat)
qed

definition member :: "u16 \<Rightarrow> u16 \<Rightarrow> upb_MiniTableField \<Rightarrow> upb_MiniTableField" where
  "member c ofs f = f\<lparr>presence := sint (NOT c), offset := ofs\<rparr>"

lemma place_members_ok:
  assumes "chain (md_fields d) ks" "distinct ks" "length ks \<le> fuel" "length (md_fields d) < 65532"
    and "unat (md_field_count d) = length (md_fields d)"
  shows "\<exists>F. place_members fuel d (hd ks) c ofs = Inr (d\<lparr>md_fields := F\<rparr>) \<and> length F = length (md_fields d) \<and>
    (\<forall>i < length F. F ! i = (if i \<in> set ks then member c ofs (md_fields d ! i) else md_fields d ! i))"
  using assms
proof (induction ks arbitrary: d fuel)
  case (Cons i ks)
  let ?F = "md_fields d"
  let ?d = "set_field d i (member c ofs (?F ! i))"
  obtain fl where fl: "fuel = Suc fl" using Cons.prems(3) by (cases fuel) auto
  have i: "i < length ?F" using chain_bound[OF Cons.prems(1)] by simp
  show ?case
  proof (cases ks)
    case Nil
    then show ?thesis
      using fl i Cons.prems(1) by (intro exI[of _ "md_fields ?d"])
        (auto simp: the_field_def set_field_def member_def nth_list_update Let_def)
  next
    case (Cons j js)
    have off: "offset (?F ! i) = of_nat j + kOneofBase" and ch: "chain ?F ks" using Cons.prems(1) local.Cons by auto
    have j: "j < length ?F" using chain_bound[OF ch] local.Cons by simp
    note u = link_unat[OF j Cons.prems(4)]
    have "chain (md_fields ?d) ks" 
    proof (subst chain_cong)
      show "\<forall>k \<in> set ks. md_fields ?d ! k = ?F ! k"
      proof
        fix k
        assume "k \<in> set ks"
        then have "i \<noteq> k" using Cons.prems(2) by auto
        then show "md_fields ?d ! k = ?F ! k" by (simp add: set_field_def)
      qed
    qed (use ch in \<open>simp_all add: set_field_def\<close>)
    then obtain F where F: "place_members fl ?d j c ofs = Inr (?d\<lparr>md_fields := F\<rparr>)" "length F = length ?F"
      "\<forall>k < length F. F ! k = (if k \<in> set ks then member c ofs (md_fields ?d ! k) else md_fields ?d ! k)"
      using Cons.IH[of ?d fl] Cons.prems fl local.Cons by (auto simp: set_field_def)
    have "place_members fuel d i c ofs = place_members fl ?d j c ofs"
      using fl i off u Cons.prems(5) j by (simp add: the_field_def member_def Let_def set_field_def)
    moreover have "F ! k = (if k \<in> set (i # ks) then member c ofs (?F ! k) else ?F ! k)" if "k < length F" for k
      using F(2,3) that Cons.prems(2) i by (auto simp: set_field_def nth_list_update)
    ultimately show ?thesis using F(1,2) by (intro exI[of _ F]) (simp add: set_field_def)
  qed
qed simp

text \<open>The slots a list of oneofs needs: one for the case and one for the data of each.\<close>

definition oneof_count :: "upb_OneOfLayoutItem list \<Rightarrow> nat \<Rightarrow> nat" where
  "oneof_count items r = (\<Sum>it\<leftarrow>items. (if r = 1 then 1 else 0) + (if r = oi_rep it then 1 else 0))"

lemma oneof_count_simps [simp]:
  "oneof_count [] r = 0"
  "oneof_count (it # items) r = (if r = 1 then 1 else 0) + (if r = oi_rep it then 1 else 0) + oneof_count items r"
  by (simp_all add: oneof_count_def)

text \<open>\<open>slot (k, False)\<close> is the case of the oneof \<open>k\<close>, \<open>slot (k, True)\<close> its data.\<close>

definition slot_range :: "(nat \<Rightarrow> nat) \<Rightarrow> (nat \<Rightarrow> nat) \<Rightarrow> nat \<times> nat \<Rightarrow> bool" where
  "slot_range lo hi s \<longleftrightarrow> lo (fst s) \<le> snd s \<and> snd s < hi (fst s)"

definition oneof_slots ::
    "upb_MiniTablePlatform \<Rightarrow> (nat \<Rightarrow> nat) \<Rightarrow> (nat \<Rightarrow> nat) \<Rightarrow> (nat \<Rightarrow> nat) \<Rightarrow> upb_OneOfLayoutItem list \<Rightarrow> nat list list \<Rightarrow>
     upb_MiniTableField list \<Rightarrow> upb_MiniTableField list \<Rightarrow> (nat \<times> bool \<Rightarrow> nat \<times> nat) \<Rightarrow> bool" where
  "oneof_slots p B lo hi items cs F F' slot \<longleftrightarrow> length F' = length F \<and>
     (\<forall>i < length F. i \<notin> set (concat cs) \<longrightarrow> F' ! i = F ! i) \<and>
     (\<forall>k < length cs. (\<forall>i \<in> set (cs ! k).
          F' ! i = member (of_nat (place_of p B (slot (k, False)))) (of_nat (place_of p B (slot (k, True)))) (F ! i)) \<and>
        fst (slot (k, False)) = 1 \<and> fst (slot (k, True)) = oi_rep (items ! k) \<and>
        slot_range lo hi (slot (k, False)) \<and> slot_range lo hi (slot (k, True))) \<and>
     inj_on slot ({..<length cs} \<times> UNIV)"

definition push_slots :: "nat \<times> nat \<Rightarrow> nat \<times> nat \<Rightarrow> (nat \<times> bool \<Rightarrow> nat \<times> nat) \<Rightarrow> nat \<times> bool \<Rightarrow> nat \<times> nat" where
  "push_slots a b slot x = (case fst x of 0 \<Rightarrow> if snd x then b else a | Suc k \<Rightarrow> slot (k, snd x))"

lemma push_slots_simps [simp]:
  "push_slots a b slot (0, False) = a" "push_slots a b slot (0, True) = b" "push_slots a b slot (Suc k, x) = slot (k, x)"
  by (simp_all add: push_slots_def)

lemma push_slots_inj:
  assumes "inj_on slot ({..<n} \<times> UNIV)" "a \<noteq> b" "\<forall>x \<in> {..<n} \<times> UNIV. slot x \<noteq> a \<and> slot x \<noteq> b"
  shows "inj_on (push_slots a b slot) ({..<Suc n} \<times> UNIV)"
proof (rule inj_onI)
  fix x y
  assume xy: "x \<in> {..<Suc n} \<times> UNIV" "y \<in> {..<Suc n} \<times> UNIV" "push_slots a b slot x = push_slots a b slot y"
  have s: "slot (k, t) \<noteq> a" "slot (k, t) \<noteq> b" "a \<noteq> slot (k, t)" "b \<noteq> slot (k, t)" if "k < n" for k t
    using assms(3) that by auto
  have i: "slot (k, t) = slot (k', t') \<Longrightarrow> k = k' \<and> t = t'" if "k < n" "k' < n" for k t k' t'
    using inj_onD[OF assms(1), of "(k, t)" "(k', t')"] that by auto
  show "x = y"
    using xy s i assms(2) by (cases x; cases y; cases "fst x"; cases "fst y") (auto simp: push_slots_def split: if_splits dest: i)
qed

lemma oneof_slots_push:
  assumes F1: "length F1 = length F" "\<forall>i < length F. F1 ! i = (if i \<in> set ks then member (of_nat (place_of p B (1, lo 1)))
      (of_nat (place_of p B (oi_rep it, lo1 (oi_rep it)))) (F ! i) else F ! i)"
    and lo1: "lo1 = lo(1 := lo 1 + 1)" and lo2: "lo2 = lo1(oi_rep it := lo1 (oi_rep it) + 1)"
    and rest: "oneof_slots p B lo2 hi items cs F1 F' slot"
    and dist: "distinct (concat (ks # cs))" and ks: "\<forall>i \<in> set (concat (ks # cs)). i < length F"
    and hi: "\<forall>r. lo2 r \<le> hi r"
  shows "oneof_slots p B lo hi (it # items) (ks # cs) F F' (push_slots (1, lo 1) (oi_rep it, lo1 (oi_rep it)) slot)"
proof -
  have up: "slot_range lo hi s \<and> s \<noteq> (1, lo 1) \<and> s \<noteq> (oi_rep it, lo1 (oi_rep it))" if "slot_range lo2 hi s" for s
    using that by (cases s) (auto simp: slot_range_def lo1 lo2 split: if_splits)
  have new: "slot_range lo hi (1, lo 1)" "slot_range lo hi (oi_rep it, lo1 (oi_rep it))"
    using spec[OF hi, of 1] spec[OF hi, of "oi_rep it"] by (auto simp: slot_range_def lo1 lo2 split: if_splits)
  have rng: "slot_range lo2 hi (slot (k, b))" if "k < length cs" for k b
    using rest that by (cases b) (auto simp: oneof_slots_def)
  have "inj_on (push_slots (1, lo 1) (oi_rep it, lo1 (oi_rep it)) slot) ({..<Suc (length cs)} \<times> UNIV)"
    using rest up rng by (intro push_slots_inj) (auto simp: oneof_slots_def lo1)
  moreover have "F' ! i = member (of_nat (place_of p B (1, lo 1))) (of_nat (place_of p B (oi_rep it, lo1 (oi_rep it)))) (F ! i)"
    if "i \<in> set ks" for i
  proof -
    have i: "i < length F" "i \<notin> set (concat cs)" using that dist ks by auto
    then have "F' ! i = F1 ! i" using F1(1) rest unfolding oneof_slots_def by simp
    then show ?thesis using F1(2) i(1) that by simp
  qed
  moreover have "F' ! i = member (of_nat (place_of p B (slot (k, False)))) (of_nat (place_of p B (slot (k, True)))) (F ! i)"
    if "k < length cs" "i \<in> set (cs ! k)" for k i
  proof -
    have "i \<notin> set ks" "i < length F" using that dist ks nth_mem[of k cs] by (auto simp del: nth_mem)
    then show ?thesis using that F1 rest by (simp add: oneof_slots_def)
  qed
  moreover have "F' ! i = F ! i" if "i < length F" "i \<notin> set (concat (ks # cs))" for i
    using that F1 rest by (auto simp: oneof_slots_def)
  ultimately show ?thesis
    using rest up new F1(1) by (auto simp: oneof_slots_def All_less_Suc2)
qed

text \<open>What the parser leaves behind: \<open>cs\<close> are the members of each oneof.\<close>

definition oneofs_linked :: "upb_MiniTableField list \<Rightarrow> upb_OneOfLayoutItem list \<Rightarrow> nat list list \<Rightarrow> bool" where
  "oneofs_linked F items cs \<longleftrightarrow>
     list_all2 (\<lambda>it ks. chain F ks \<and> oi_field_index it = of_nat (hd ks) \<and> oi_rep it < 4) items cs \<and> distinct (concat cs)"

lemma oneofs_linked_bound: "oneofs_linked F items cs \<Longrightarrow> i \<in> set (concat cs) \<Longrightarrow> i < length F"
  unfolding oneofs_linked_def list_all2_conv_all_nth by (metis chain_bound in_set_conv_nth set_concat UN_E)

lemma distinct_length_bound: "distinct ks \<Longrightarrow> \<forall>i \<in> set ks. i < n \<Longrightarrow> length ks \<le> (n :: nat)"
  by (metis card_lessThan card_mono distinct_card finite_lessThan lessThan_iff subsetI)

lemma place_oneofs_ok:
  assumes "cursors (md_platform d) B c used (md_counts d)" "oneofs_linked (md_fields d) items cs"
    and "\<forall>r < 4. used r + oneof_count items r \<le> c r" "length (md_fields d) < 65532"
    and "unat (md_field_count d) = length (md_fields d)"
  shows "\<exists>F' counts' slot. place_oneofs items d = Inr (d\<lparr>md_fields := F', md_counts := counts'\<rparr>) \<and>
    oneof_slots (md_platform d) B used (\<lambda>r. used r + oneof_count items r) items cs (md_fields d) F' slot"
  using assms
proof (induction items arbitrary: d cs used)
  case Nil
  then have "cs = []" by (simp add: oneofs_linked_def)
  then show ?case by (intro exI[of _ "md_fields d"] exI[of _ "md_counts d"]) (auto simp: oneof_slots_def)
next
  case (Cons it items)
  let ?F = "md_fields d" and ?p = "md_platform d" and ?r = "oi_rep it"
  define u1 where "u1 = used(1 := used 1 + 1)"
  define u2 where "u2 = u1(?r := u1 ?r + 1)"
  obtain ks cs' where cs: "cs = ks # cs'" and it: "chain ?F ks" "oi_field_index it = of_nat (hd ks)" "?r < 4"
    and rest: "oneofs_linked ?F items cs'" and dist: "distinct (concat (ks # cs'))"
    using Cons.prems(2) by (auto simp: oneofs_linked_def list_all2_Cons1)
  have c1: "0 < c 1" "0 < c ?r" using spec[OF Cons.prems(3), of 1] spec[OF Cons.prems(3), of ?r] it(3) by auto
  obtain counts1 where p1: "upb_MtDecoder_Place ?p (md_counts d) 1 = (of_nat (place_of ?p B (1, used 1)), counts1)"
    "cursors ?p B c u1 counts1" using Place_ok[OF Cons.prems(1) _ c1(1)] unfolding u1_def by auto
  obtain counts2 where p2: "upb_MtDecoder_Place ?p counts1 ?r = (of_nat (place_of ?p B (?r, u1 ?r)), counts2)"
    "cursors ?p B c u2 counts2" using Place_ok[OF p1(2) it(3) c1(2)] unfolding u2_def by blast
  let ?c = "of_nat (place_of ?p B (1, used 1)) :: u16" and ?o = "of_nat (place_of ?p B (?r, u1 ?r)) :: u16"
  let ?d = "d\<lparr>md_counts := counts2\<rparr>"
  have dks: "distinct ks" "length ks \<le> length ?F"
    using dist chain_bound[OF it(1)] by (auto intro: distinct_length_bound)
  have hd: "unat (oi_field_index it) = hd ks"
    using it(1,2) Cons.prems(4) link_unat(4)[OF chain_bound[OF it(1), of "hd ks"]] by (cases ks) auto
  obtain F1 where F1: "place_members (length ?F) ?d (hd ks) ?c ?o = Inr (?d\<lparr>md_fields := F1\<rparr>)" "length F1 = length ?F"
    "\<forall>i < length F1. F1 ! i = (if i \<in> set ks then member ?c ?o (?F ! i) else ?F ! i)"
    using place_members_ok[of ?d ks "length ?F" ?c ?o] it(1) dks Cons.prems(4,5) by auto
  let ?d1 = "?d\<lparr>md_fields := F1\<rparr>"
  have eq: "(\<lambda>r. u2 r + oneof_count items r) = (\<lambda>r. used r + oneof_count (it # items) r)" by (auto simp: fun_eq_iff u1_def u2_def)
  have "chain F1 js" if "js \<in> set cs'" "chain ?F js" for js
  proof -
    have "\<forall>i \<in> set js. F1 ! i = ?F ! i" using that dist F1(2,3) chain_bound[OF that(2)] by auto
    then show ?thesis using that chain_cong F1(2) by metis
  qed
  then have "oneofs_linked F1 items cs'"
    using rest by (auto simp: oneofs_linked_def list_all2_conv_all_nth)
  moreover have "\<forall>r < 4. u2 r + oneof_count items r \<le> c r" unfolding fun_cong[OF eq] by (rule Cons.prems(3))
  ultimately have "\<exists>F' counts' slot. place_oneofs items ?d1 = Inr (?d1\<lparr>md_fields := F', md_counts := counts'\<rparr>) \<and>
      oneof_slots (md_platform ?d1) B u2 (\<lambda>r. u2 r + oneof_count items r) items cs' (md_fields ?d1) F' slot"
    using p2(2) Cons.prems(4,5) F1(2) by (intro Cons.IH) simp_all
  then obtain F' counts' slot where IH: "place_oneofs items ?d1 = Inr (?d1\<lparr>md_fields := F', md_counts := counts'\<rparr>)"
    "oneof_slots ?p B u2 (\<lambda>r. used r + oneof_count (it # items) r) items cs' F1 F' slot"
    unfolding eq by auto
  have "oneof_slots ?p B used (\<lambda>r. used r + oneof_count (it # items) r) (it # items) cs ?F F'
      (push_slots (1, used 1) (?r, u1 ?r) slot)"
  proof -
    have hi: "\<forall>r. u2 r \<le> used r + oneof_count (it # items) r" by (auto simp: u1_def u2_def)
    have b: "\<forall>i \<in> set (concat (ks # cs')). i < length ?F" using oneofs_linked_bound[OF Cons.prems(2)] cs by blast
    show ?thesis unfolding cs using F1(2,3) by (intro oneof_slots_push[OF F1(2) _ u1_def u2_def IH(2) dist b hi]) metis
  qed
  moreover have "place_oneofs (it # items) d = Inr (d\<lparr>md_fields := F', md_counts := counts'\<rparr>)"
    using p1(1) p2(1) F1(1) IH(1) hd by (simp add: kUpb_OneOf_CaseFieldRep_def)
  ultimately show ?case by blast
qed

subsection \<open>Hasbits\<close>

text \<open>The shape of both loops: fields that fulfil \<open>P\<close> get the next hasbit, \<open>Q\<close> is done to the others.\<close>

fun assign_bits ::
    "(upb_MiniTableField \<Rightarrow> bool) \<Rightarrow> (upb_MiniTableField \<Rightarrow> upb_MiniTableField) \<Rightarrow> nat \<Rightarrow> upb_MiniTableField list \<Rightarrow>
     nat \<times> upb_MiniTableField list" where
  "assign_bits P Q h [] = (h, [])"
| "assign_bits P Q h (f # fs) =
     (if P f then let (h', fs) = assign_bits P Q (h + 1) fs in (h', f\<lparr>presence := hasbit_presence (h + 1)\<rparr> # fs)
      else let (h', fs) = assign_bits P Q h fs in (h', Q f # fs))"

definition clear_presence :: "upb_MiniTableField \<Rightarrow> upb_MiniTableField" where
  "clear_presence f = (if offset f = kNoPresence then f\<lparr>presence := 0\<rparr> else f)"

lemma assign_required_eq: "assign_required h fs = assign_bits (\<lambda>f. offset f = kRequiredPresence) clear_presence h fs"
  by (induction fs arbitrary: h) (auto simp: clear_presence_def split: prod.split)

lemma assign_optional_eq: "assign_optional h fs = assign_bits (\<lambda>f. offset f = kHasbitPresence) id h fs"
  by (induction fs arbitrary: h) (auto split: prod.split)

definition bits_for ::
    "(upb_MiniTableField \<Rightarrow> bool) \<Rightarrow> (upb_MiniTableField \<Rightarrow> upb_MiniTableField) \<Rightarrow> nat \<Rightarrow> nat \<Rightarrow> upb_MiniTableField list \<Rightarrow>
     upb_MiniTableField list \<Rightarrow> (nat \<Rightarrow> nat) \<Rightarrow> bool" where
  "bits_for P Q h h' fs fs' hb \<longleftrightarrow> length fs' = length fs \<and> h \<le> h' \<and> h' \<le> h + length fs \<and>
     (\<forall>i < length fs. if P (fs ! i) then fs' ! i = (fs ! i)\<lparr>presence := hasbit_presence (hb i)\<rparr> \<and> h < hb i \<and> hb i \<le> h'
        else fs' ! i = Q (fs ! i)) \<and>
     inj_on hb {i. i < length fs \<and> P (fs ! i)}"

lemma assign_bits_ok: "\<exists>fs' h' hb. assign_bits P Q h fs = (h', fs') \<and> bits_for P Q h h' fs fs' hb"
proof (induction fs arbitrary: h)
  case Nil
  then show ?case by (auto simp: bits_for_def)
next
  case (Cons f fs)
  show ?case
  proof (cases "P f")
    case False
    obtain fs' h' hb where "assign_bits P Q h fs = (h', fs')" "bits_for P Q h h' fs fs' hb" using Cons.IH by blast
    then show ?thesis
      using False by (intro exI[of _ "Q f # fs'"] exI[of _ h'] exI[of _ "case_nat undefined hb"])
        (auto simp: bits_for_def All_less_Suc2 less_Suc_set inj_on_Suc)
  next
    case True
    obtain fs' h' hb where IH: "assign_bits P Q (h + 1) fs = (h', fs')" "bits_for P Q (h + 1) h' fs fs' hb" using Cons.IH by blast
    then have lt: "h + 1 < hb i" if "i < length fs" "P (fs ! i)" for i using that by (auto simp: bits_for_def)
    then have "h + 1 \<notin> hb ` {i. i < length fs \<and> P (fs ! i)}" by fastforce
    then have "bits_for P Q h h' (f # fs) (f\<lparr>presence := hasbit_presence (h + 1)\<rparr> # fs') (case_nat (h + 1) hb)"
      using True IH(2) by (auto simp: bits_for_def All_less_Suc2 less_Suc_set inj_on_Suc image_image dest: lt)
    then show ?thesis using True IH(1) by auto
  qed
qed

text \<open>Two injective numberings with disjoint ranges.\<close>

lemma inj_on_two:
  assumes "inj_on f {i. i < n \<and> t i = a}" "inj_on g {i. i < n \<and> t i = b}"
    and "\<And>i. i < n \<Longrightarrow> t i = a \<Longrightarrow> f i \<le> (k :: nat)" "\<And>i. i < n \<Longrightarrow> t i = b \<Longrightarrow> k < g i" "a \<noteq> b"
  shows "inj_on (\<lambda>i. if t i = a then f i else g i) {i. i < (n :: nat) \<and> t i \<in> {a, b}}"
proof -
  let ?h = "\<lambda>i. if t i = a then f i else g i"
  have split: "{i. i < n \<and> t i \<in> {a, b}} = {i. i < n \<and> t i = a} \<union> {i. i < n \<and> t i = b}" by auto
  have "inj_on ?h {i. i < n \<and> t i = a}" using assms(1) by (simp add: inj_on_def)
  moreover have "inj_on ?h {i. i < n \<and> t i = b}" using assms(2,5) by (simp add: inj_on_def)
  moreover have "?h x \<noteq> ?h y" if "x \<in> {i. i < n \<and> t i = a}" "y \<in> {i. i < n \<and> t i = b}" for x y
    using assms(3)[of x] assms(4)[of y] assms(5) that by auto
  ultimately show ?thesis unfolding split inj_on_Un by blast
qed

text \<open>Both loops together.\<close>

definition hasbits_for :: "nat \<Rightarrow> upb_MiniTableField list \<Rightarrow> upb_MiniTableField list \<Rightarrow> (nat \<Rightarrow> nat) \<Rightarrow> bool" where
  "hasbits_for h fs fs' hb \<longleftrightarrow> length fs' = length fs \<and>
     (\<forall>i < length fs. \<exists>pr. fs' ! i = (fs ! i)\<lparr>presence := pr\<rparr> \<and>
        (offset (fs ! i) = kNoPresence \<longrightarrow> pr = 0) \<and>
        (offset (fs ! i) \<in> {kRequiredPresence, kHasbitPresence} \<longrightarrow> pr = hasbit_presence (hb i) \<and> 63 < hb i \<and> hb i \<le> h)) \<and>
     inj_on hb {i. i < length fs \<and> offset (fs ! i) \<in> {kRequiredPresence, kHasbitPresence}}"

lemma hasbits_both:
  assumes a: "bits_for (\<lambda>f. offset f = kRequiredPresence) clear_presence 63 h1 fs fs1 hb1"
    and b: "bits_for (\<lambda>f. offset f = kHasbitPresence) id h1 h2 fs1 fs2 hb2"
  shows "hasbits_for h2 fs fs2 (\<lambda>i. if offset (fs ! i) = kRequiredPresence then hb1 i else hb2 i)" "h2 \<le> 63 + 2 * length fs"
proof -
  have l: "length fs1 = length fs" "length fs2 = length fs" "63 \<le> h1" "h1 \<le> h2" using a b by (auto simp: bits_for_def)
  have d: "kRequiredPresence \<noteq> kHasbitPresence" "kNoPresence \<noteq> kHasbitPresence" "kNoPresence \<noteq> kRequiredPresence"
    by (simp_all add: kRequiredPresence_def kHasbitPresence_def kNoPresence_def)
  have f1: "if offset (fs ! i) = kRequiredPresence then fs1 ! i = (fs ! i)\<lparr>presence := hasbit_presence (hb1 i)\<rparr> \<and> 63 < hb1 i \<and> hb1 i \<le> h1
        else fs1 ! i = clear_presence (fs ! i)" if "i < length fs" for i using a that unfolding bits_for_def by blast
  have f2: "if offset (fs1 ! i) = kHasbitPresence then fs2 ! i = (fs1 ! i)\<lparr>presence := hasbit_presence (hb2 i)\<rparr> \<and> h1 < hb2 i \<and> hb2 i \<le> h2
        else fs2 ! i = fs1 ! i" if "i < length fs" for i using b that l unfolding bits_for_def by simp
  have o: "offset (fs1 ! i) = offset (fs ! i)" if "i < length fs" for i
    using f1[OF that] by (auto simp: clear_presence_def split: if_splits)
  have inj1: "inj_on hb1 {i. i < length fs \<and> offset (fs ! i) = kRequiredPresence}" using a by (simp add: bits_for_def)
  have "inj_on hb2 {i. i < length fs1 \<and> offset (fs1 ! i) = kHasbitPresence}" using b by (simp add: bits_for_def)
  moreover have "{i. i < length fs1 \<and> offset (fs1 ! i) = kHasbitPresence} = {i. i < length fs \<and> offset (fs ! i) = kHasbitPresence}"
    using o l by auto
  ultimately have inj2: "inj_on hb2 {i. i < length fs \<and> offset (fs ! i) = kHasbitPresence}" by simp
  have le1: "hb1 i \<le> h1" if "i < length fs" "offset (fs ! i) = kRequiredPresence" for i using f1[OF that(1)] that(2) by simp
  have gt2: "h1 < hb2 i" if "i < length fs" "offset (fs ! i) = kHasbitPresence" for i using f2[OF that(1)] o[OF that(1)] that(2) by simp
  have "inj_on (\<lambda>i. if offset (fs ! i) = kRequiredPresence then hb1 i else hb2 i)
      {i. i < length fs \<and> offset (fs ! i) \<in> {kRequiredPresence, kHasbitPresence}}"
    by (rule inj_on_two[where t = "\<lambda>i. offset (fs ! i)" and k = h1]) (use inj1 inj2 le1 gt2 d(1) in \<open>simp_all\<close>)
  moreover have "\<exists>pr. fs2 ! i = (fs ! i)\<lparr>presence := pr\<rparr> \<and> (offset (fs ! i) = kNoPresence \<longrightarrow> pr = 0) \<and>
        (offset (fs ! i) \<in> {kRequiredPresence, kHasbitPresence} \<longrightarrow>
         pr = hasbit_presence (if offset (fs ! i) = kRequiredPresence then hb1 i else hb2 i) \<and>
         63 < (if offset (fs ! i) = kRequiredPresence then hb1 i else hb2 i) \<and>
         (if offset (fs ! i) = kRequiredPresence then hb1 i else hb2 i) \<le> h2)" if "i < length fs" for i
  proof -
    let ?t = "offset (fs ! i)"
    have t: "?t = kRequiredPresence \<Longrightarrow> ?t \<noteq> kHasbitPresence" "?t = kRequiredPresence \<Longrightarrow> ?t \<noteq> kNoPresence" 
      "?t = kHasbitPresence \<Longrightarrow> ?t \<noteq> kNoPresence" using d by metis+
    consider "?t = kRequiredPresence" | "?t = kHasbitPresence" | "?t \<noteq> kRequiredPresence" "?t \<noteq> kHasbitPresence" by blast
    then show ?thesis
    proof cases
      case 1
      then have "fs2 ! i = (fs ! i)\<lparr>presence := hasbit_presence (hb1 i)\<rparr>" "63 < hb1 i" "hb1 i \<le> h2"
        using f1[OF that] f2[OF that] o[OF that] l t by simp_all
      then show ?thesis using 1 t by (intro exI[of _ "hasbit_presence (hb1 i)"]) simp
    next
      case 2
      then have "?t \<noteq> kRequiredPresence" "?t \<noteq> kNoPresence" using d by simp_all
      then have "fs1 ! i = fs ! i" using f1[OF that] by (simp add: clear_presence_def)
      then have "fs2 ! i = (fs ! i)\<lparr>presence := hasbit_presence (hb2 i)\<rparr>" "63 < hb2 i" "hb2 i \<le> h2"
        using 2 f2[OF that] l by simp_all
      then show ?thesis using 2 t by (intro exI[of _ "hasbit_presence (hb2 i)"]) auto
    next
      case 3
      then have "fs2 ! i = clear_presence (fs ! i)" using f1[OF that] f2[OF that] o[OF that] by simp
      then show ?thesis using 3 by (intro exI[of _ "presence (fs2 ! i)"]) (simp add: clear_presence_def)
    qed
  qed
  ultimately show "hasbits_for h2 fs fs2 (\<lambda>i. if offset (fs ! i) = kRequiredPresence then hb1 i else hb2 i)"
    unfolding hasbits_for_def using l(2) by (intro conjI allI impI) blast+
  show "h2 \<le> 63 + 2 * length fs" using a b l by (auto simp: bits_for_def)
qed

end
