(* ===== verification/Mini_Assign.thy ===== *)
theory Mini_Assign
  imports Mini_Layout
begin

text \<open>
  The passes of \<open>assign_layout\<close> together: what the parser leaves behind, and the layout that results.
\<close>

subsection \<open>What a layout must fulfil\<close>

text \<open>A piece of a message: where it begins and how many bytes it has.\<close>

definition data_piece :: "upb_MiniTablePlatform \<Rightarrow> upb_MiniTableField \<Rightarrow> nat \<times> nat" where
  "data_piece p f = (unat (offset f), rep_size p (field_rep f))"

definition case_piece :: "upb_MiniTableField \<Rightarrow> nat \<times> nat" where
  "case_piece f = (nat (- presence f - 1), 4)"

definition apart :: "nat \<times> nat \<Rightarrow> nat \<times> nat \<Rightarrow> bool" where
  "apart a b \<longleftrightarrow> fst a + snd a \<le> fst b \<or> fst b + snd b \<le> fst a"

text \<open>Alignment and bounds of one field; a positive presence is a hasbit, a negative one says where the case is.\<close>

definition well_placed :: "upb_MiniTablePlatform \<Rightarrow> nat \<Rightarrow> upb_MiniTableField \<Rightarrow> bool" where
  "well_placed p bytes f \<longleftrightarrow>
     rep_align p (field_rep f) dvd unat (offset f) \<and> unat (offset f) + rep_size p (field_rep f) \<le> bytes \<and>
     (presence f < 0 \<longrightarrow> 4 dvd fst (case_piece f) \<and> fst (case_piece f) + 4 \<le> bytes) \<and>
     (0 < presence f \<longrightarrow> int kUpb_Reserved_Hasbits \<le> presence f)"

text \<open>Any two fields, or a field and itself: hasbits lie before the data and the cases, and a case is not data.\<close>

definition well_separated :: "upb_MiniTablePlatform \<Rightarrow> upb_MiniTableField \<Rightarrow> upb_MiniTableField \<Rightarrow> bool" where
  "well_separated p f g \<longleftrightarrow>
     (presence f < 0 \<longrightarrow> apart (case_piece f) (data_piece p g)) \<and>
     (0 < presence f \<longrightarrow> nat (presence f) div 8 < unat (offset g) \<and>
        (presence g < 0 \<longrightarrow> nat (presence f) div 8 < fst (case_piece g)))"

text \<open>Two different fields: they share storage if and only if they share the case.\<close>

definition independent :: "upb_MiniTablePlatform \<Rightarrow> upb_MiniTableField \<Rightarrow> upb_MiniTableField \<Rightarrow> bool" where
  "independent p f g \<longleftrightarrow>
     (if presence f < 0 \<and> presence g = presence f then offset f = offset g
      else apart (data_piece p f) (data_piece p g) \<and>
           (presence f < 0 \<longrightarrow> presence g < 0 \<longrightarrow> apart (case_piece f) (case_piece g)) \<and>
           (0 < presence f \<longrightarrow> presence f \<noteq> presence g))"

definition layout_ok :: "upb_MiniTablePlatform \<Rightarrow> nat \<Rightarrow> upb_MiniTableField list \<Rightarrow> bool" where
  "layout_ok p bytes fs \<longleftrightarrow> 8 dvd bytes \<and> (\<forall>f \<in> set fs. well_placed p bytes f) \<and>
     (\<forall>f \<in> set fs. \<forall>g \<in> set fs. well_separated p f g) \<and>
     (\<forall>i < length fs. \<forall>j < length fs. i \<noteq> j \<longrightarrow> independent p (fs ! i) (fs ! j))"

subsection \<open>What the parser leaves\<close>

definition fits :: "upb_MiniTablePlatform \<Rightarrow> nat \<Rightarrow> nat \<Rightarrow> bool" where
  "fits p r q \<longleftrightarrow> rep_size p r \<le> rep_size p q \<and> rep_align p r dvd rep_align p q"

definition members_fit ::
    "upb_MiniTablePlatform \<Rightarrow> upb_MiniTableField list \<Rightarrow> upb_OneOfLayoutItem list \<Rightarrow> nat list list \<Rightarrow> bool" where
  "members_fit p F items cs \<longleftrightarrow> (\<forall>k < length cs. \<forall>i \<in> set (cs ! k). fits p (field_rep (F ! i)) (oi_rep (items ! k)))"

definition counted :: "u16 list \<Rightarrow> (nat \<Rightarrow> nat) \<Rightarrow> bool" where
  "counted counts c \<longleftrightarrow> length counts = 4 \<and> (\<forall>r < 4. counts ! r = of_nat (c r))"

definition parsed :: "upb_MtDecoder \<Rightarrow> nat list list \<Rightarrow> bool" where
  "parsed d cs \<longleftrightarrow> md_field_count d = of_nat (length (md_fields d)) \<and>
     counted (md_counts d) (oneof_count (md_oneofs d)) \<and> oneofs_linked (md_fields d) (md_oneofs d) cs \<and>
     (\<forall>i < length (md_fields d). in_oneof (md_fields d ! i) \<longleftrightarrow> i \<in> set (concat cs)) \<and>
     members_fit (md_platform d) (md_fields d) (md_oneofs d) cs"

lemma linked_member: "oneofs_linked F items cs \<Longrightarrow> k < length cs \<Longrightarrow> i \<in> set (cs ! k) \<Longrightarrow> i < length F"
  by (auto simp: oneofs_linked_def list_all2_conv_all_nth dest: chain_bound)

text \<open>How many slots there can be.\<close>

lemma single_count_le: "single_count fs 0 + single_count fs 1 + single_count fs 2 + single_count fs 3 \<le> length fs"
  by (induction fs) auto

lemma oneof_count_le: "oneof_count items 0 + oneof_count items 1 + oneof_count items 2 + oneof_count items 3 \<le> 2 * length items"
  by (induction items) auto

lemma oneofs_length:
  assumes "oneofs_linked F items cs"
  shows "length items \<le> length F"
proof -
  have "length items = length cs" "[] \<notin> set cs" using assms
    by (auto simp: oneofs_linked_def list_all2_conv_all_nth in_set_conv_nth)
  moreover have "length cs \<le> length (concat cs)" if "[] \<notin> set cs" for cs :: "nat list list"
    using that
  proof (induction cs)
    case (Cons a cs)
    then show ?case by (cases a) auto
  qed simp
  moreover have "length (concat cs) \<le> length F"
    using assms oneofs_linked_bound[OF assms] by (intro distinct_length_bound) (auto simp: oneofs_linked_def)
  ultimately show ?thesis by fastforce
qed

lemma rep_sum: "(\<Sum>r\<leftarrow>[0, 1, 2, 3]. (8 :: nat) + 16 * c r) = 32 + 16 * (c 0 + c 1 + c 2 + c (3 :: nat))"
  by simp

subsection \<open>The passes\<close>

lemma chain_offsets: "length F' = length F \<Longrightarrow> \<forall>i \<in> set ks. offset (F' ! i) = offset (F ! i) \<Longrightarrow> chain F' ks = chain F ks"
  by (induction F ks rule: chain.induct) auto

lemma linked_offsets:
  assumes "oneofs_linked F items cs" "length F' = length F" "\<forall>i \<in> set (concat cs). offset (F' ! i) = offset (F ! i)"
  shows "oneofs_linked F' items cs"
proof -
  have "chain F' (cs ! k) = chain F (cs ! k)" if "k < length cs" for k
    using assms(2,3) nth_mem[OF that] by (intro chain_offsets) auto
  then show ?thesis using assms(1) by (auto simp: oneofs_linked_def list_all2_conv_all_nth)
qed

lemma AssignHasbits_ok:
  assumes "parsed d cs" "length (md_fields d) \<le> 600" "upb_MtDecoder_AssignHasbits d = Inr d1"
  shows "\<exists>h hb F rc. d1 = d\<lparr>md_fields := F, md_required_count := rc, md_size := of_nat (h div 8 + 1)\<rparr> \<and>
    hasbits_for h (md_fields d) F hb \<and> h \<le> 63 + 2 * length (md_fields d)"
proof -
  let ?F = "md_fields d"
  have n: "unat (md_field_count d) = length ?F" using assms by (simp add: parsed_def unat_of_nat)
  obtain h1 fs1 hb1 where a: "assign_required 63 ?F = (h1, fs1)"
    "bits_for (\<lambda>f. offset f = kRequiredPresence) clear_presence 63 h1 ?F fs1 hb1"
    using assign_bits_ok unfolding assign_required_eq by blast
  obtain h2 fs2 hb2 where b: "assign_optional h1 fs1 = (h2, fs2)"
    "bits_for (\<lambda>f. offset f = kHasbitPresence) id h1 h2 fs1 fs2 hb2"
    using assign_bits_ok unfolding assign_optional_eq by blast
  note hb = hasbits_both[OF a(2) b(2)]
  have "h2 \<noteq> 0" "upb_MiniTable_DivideRoundUp (h2 + 1) 8 = h2 div 8 + 1"
    using a(2) b(2) by (auto simp: bits_for_def upb_MiniTable_DivideRoundUp_def)
  then have "\<exists>rc. d1 = d\<lparr>md_fields := fs2, md_required_count := rc, md_size := of_nat (h2 div 8 + 1)\<rparr>"
    using assms(3) n a(1) b(1)
    by (auto simp: upb_MtDecoder_AssignHasbits_def kUpb_Reserved_Hasbits_def kUpb_Reserved_Hasbytes_def Let_def bindE_eq_Inr
        simp del: of_nat_add of_nat_Suc split: if_splits)
  then show ?thesis using hb assms(2) by fastforce
qed

lemma hasbits_for_parsed:
  assumes "parsed d cs" "hasbits_for h (md_fields d) F hb"
  shows "parsed (d\<lparr>md_fields := F, md_required_count := rc, md_size := sz\<rparr>) cs"
proof -
  have l: "length F = length (md_fields d)" using assms(2) by (simp add: hasbits_for_def)
  have same: "offset (F ! i) = offset (md_fields d ! i) \<and> mode (F ! i) = mode (md_fields d ! i)" if "i < length F" for i
    using assms(2) that l unfolding hasbits_for_def by fastforce
  have link: "oneofs_linked (md_fields d) (md_oneofs d) cs" using assms(1) by (simp add: parsed_def)
  have "oneofs_linked F (md_oneofs d) cs"
    using l same oneofs_linked_bound[OF link] by (intro linked_offsets[OF link]) auto
  moreover have "members_fit (md_platform d) F (md_oneofs d) cs"
    using assms(1) same l linked_member[OF link] by (simp add: parsed_def members_fit_def field_rep_def)
  ultimately show ?thesis using assms(1) l same by (auto simp: parsed_def in_oneof_def)
qed

text \<open>The slots of a decoder, and its regions.\<close>

definition slot_count :: "upb_MtDecoder \<Rightarrow> nat \<Rightarrow> nat" where
  "slot_count d r = single_count (md_fields d) r + oneof_count (md_oneofs d) r"

lemma slot_count_le:
  assumes "parsed d cs" "length (md_fields d) \<le> 600"
  shows "slot_count d 0 + slot_count d 1 + slot_count d 2 + slot_count d 3 \<le> 1800"
proof -
  have "length (md_oneofs d) \<le> length (md_fields d)" using assms(1) oneofs_length by (auto simp: parsed_def)
  then show ?thesis using assms(2) single_count_le[of "md_fields d"] oneof_count_le[of "md_oneofs d"]
    unfolding slot_count_def by linarith
qed

lemma CalculateAlignments_ok:
  assumes "parsed d cs" "length (md_fields d) \<le> 600" "unat (md_size d) \<le> 200"
  shows "\<exists>B counts stop. upb_MtDecoder_CalculateAlignments d = Inr (d\<lparr>md_counts := counts, md_size := of_nat stop\<rparr>) \<and>
    regions (md_platform d) (slot_count d) B (unat (md_size d)) stop \<and>
    cursors (md_platform d) B (slot_count d) (\<lambda>_. 0) counts \<and> unat (md_size d) \<le> stop \<and> stop \<le> 32000"
proof -
  let ?c0 = "count_reps (md_fields d) (md_counts d)" and ?p = "md_platform d" and ?s = "unat (md_size d)"
  have n: "unat (md_field_count d) = length (md_fields d)" using assms by (simp add: parsed_def unat_of_nat)
  note le = slot_count_le[OF assms(1,2)]
  have c0: "length ?c0 = 4" "\<And>r. r < 4 \<Longrightarrow> ?c0 ! r = of_nat (slot_count d r)"
    using assms(1) count_reps_ok[of "md_counts d" "md_fields d"]
    by (auto simp: parsed_def counted_def slot_count_def add.commute)
  have u: "unat (?c0 ! r) = slot_count d r" if "r < 4" for r
  proof -
    have "slot_count d r \<le> 1800" using le rep_cases[OF that] by auto
    then show ?thesis using c0(2)[OF that] by (simp add: unat_of_nat)
  qed
  have z: "?c0 ! r = 0 \<longleftrightarrow> slot_count d r = 0" if "r < 4" for r using u[OF that] by (metis unat_0 unat_eq_zero)
  obtain stop counts where rr: "reserve_regions ?p [0, 1, 2, 3] ?s ?c0 = (stop, counts)" by fastforce
  have four: "r \<in> set [0, 1, 2, 3] \<longleftrightarrow> r < 4" for r :: nat by auto
  have "sorted_wrt (<) [0, 1, 2, 3 :: nat]" "\<forall>r \<in> set [0, 1, 2, 3 :: nat]. r < 4" by auto
  from reserve_regions_ok[OF this c0(1) rr] obtain B where
    B: "\<forall>r \<in> set [0, 1, 2, 3]. ?c0 ! r \<noteq> 0 \<longrightarrow> counts ! r = of_nat (B r) \<and> ?s \<le> B r \<and> rep_align ?p r dvd B r \<and>
        B r + rep_size ?p r * unat (?c0 ! r) \<le> stop"
      "\<forall>r \<in> set [0, 1, 2, 3]. \<forall>s \<in> set [0, 1, 2, 3]. r < s \<longrightarrow> ?c0 ! r \<noteq> 0 \<longrightarrow> ?c0 ! s \<noteq> 0 \<longrightarrow>
        B r + rep_size ?p r * unat (?c0 ! r) \<le> B s"
      "length counts = 4" "?s \<le> stop" "stop \<le> ?s + (\<Sum>r\<leftarrow>[0, 1, 2, 3]. 8 + 16 * unat (?c0 ! r))"
    by (elim exE conjE) (rule that)
  have B1: "counts ! r = of_nat (B r) \<and> ?s \<le> B r \<and> rep_align ?p r dvd B r \<and> B r + rep_size ?p r * slot_count d r \<le> stop"
    if "r < 4" "0 < slot_count d r" for r using bspec[OF B(1), of r] four[of r] u[OF that(1)] z[OF that(1)] that by auto
  have B2: "B r + rep_size ?p r * slot_count d r \<le> B s" if "r < 4" "s < 4" "r < s" "0 < slot_count d r" "0 < slot_count d s" for r s
    using bspec[OF bspec[OF B(2), of r], of s] four[of r] four[of s] u z that by auto
  have "stop \<le> 32000" using B(5) u le assms(3) unfolding rep_sum by simp
  moreover have "regions ?p (slot_count d) B ?s stop" unfolding regions_def using B1 B2 by blast
  moreover have "cursors ?p B (slot_count d) (\<lambda>_. 0) counts" unfolding cursors_def using B1 B(3) by simp
  moreover have "upb_MtDecoder_CalculateAlignments d = Inr (d\<lparr>md_counts := counts, md_size := of_nat stop\<rparr>)"
    using n rr \<open>stop \<le> 32000\<close> by (simp add: upb_MtDecoder_CalculateAlignments_def Let_def)
  ultimately show ?thesis using B(4) by blast
qed

lemma AssignOffsets_ok:
  assumes cur: "cursors (md_platform d) B c (\<lambda>_. 0) (md_counts d)" and link: "oneofs_linked (md_fields d) (md_oneofs d) cs"
    and n: "length (md_fields d) \<le> 600" "unat (md_field_count d) = length (md_fields d)"
    and c: "c = slot_count d" and mem: "\<forall>i < length (md_fields d). in_oneof (md_fields d ! i) \<longleftrightarrow> i \<in> set (concat cs)"
  shows "\<exists>F F' counts slot oslot.
    upb_MtDecoder_AssignOffsets d = Inr (d\<lparr>md_fields := F', md_counts := counts, md_size := of_nat (align_up (unat (md_size d)) 8)\<rparr>) \<and>
    slots_for (md_platform d) B (\<lambda>_. 0) (single_count (md_fields d)) (md_fields d) F slot \<and>
    oneof_slots (md_platform d) B (single_count (md_fields d)) c (md_oneofs d) cs F F' oslot"
proof -
  let ?F = "md_fields d" and ?p = "md_platform d"
  obtain F1 counts1 slot where f1: "place_fields ?p ?F (md_counts d) = (F1, counts1)"
    "cursors ?p B c (single_count ?F) counts1" "slots_for ?p B (\<lambda>_. 0) (single_count ?F) ?F F1 slot"
    using place_fields_ok[OF cur, of ?F] by (auto simp: c slot_count_def)
  have l: "length F1 = length ?F" using f1(3) by (simp add: slots_for_def)
  have "F1 ! i = ?F ! i" if "i \<in> set (concat cs)" for i
    using that f1(3) mem oneofs_linked_bound[OF link that] unfolding slots_for_def by metis
  then have link1: "oneofs_linked F1 (md_oneofs d) cs" using l by (intro linked_offsets[OF link]) simp_all
  let ?d = "d\<lparr>md_fields := F1, md_counts := counts1\<rparr>"
  have "\<exists>F' counts' oslot. place_oneofs (md_oneofs d) ?d = Inr (?d\<lparr>md_fields := F', md_counts := counts'\<rparr>) \<and>
      oneof_slots (md_platform ?d) B (single_count ?F) (\<lambda>r. single_count ?F r + oneof_count (md_oneofs d) r) (md_oneofs d) cs
        (md_fields ?d) F' oslot"
    using f1(2) link1 l n c by (intro place_oneofs_ok[where c = c]) (simp_all add: slot_count_def)
  moreover have "(\<lambda>r. single_count ?F r + oneof_count (md_oneofs d) r) = c" by (simp add: c slot_count_def fun_eq_iff)
  ultimately obtain F' counts' oslot where f2: "place_oneofs (md_oneofs d) ?d = Inr (?d\<lparr>md_fields := F', md_counts := counts'\<rparr>)"
    "oneof_slots ?p B (single_count ?F) c (md_oneofs d) cs F1 F' oslot" by auto
  have "upb_MtDecoder_AssignOffsets d =
      Inr (d\<lparr>md_fields := F', md_counts := counts', md_size := of_nat (align_up (unat (md_size d)) 8)\<rparr>)"
    using f1(1) f2(1) n(2) by (simp add: upb_MtDecoder_AssignOffsets_def Let_def)
  then show ?thesis using f1(3) f2(2) by blast
qed

subsection \<open>From slots to a layout\<close>

definition valid_slot :: "(nat \<Rightarrow> nat) \<Rightarrow> nat \<times> nat \<Rightarrow> bool" where
  "valid_slot c s \<longleftrightarrow> fst s < 4 \<and> snd s < c (fst s)"

lemma place_range:
  assumes "regions p c B start stop" "valid_slot c s"
  shows "start \<le> place_of p B s" "rep_align p (fst s) dvd place_of p B s" "place_of p B s + rep_size p (fst s) \<le> stop"
proof -
  obtain r x where s: "s = (r, x)" "r < 4" "x < c r" using assms(2) by (cases s) (auto simp: valid_slot_def)
  have R: "start \<le> B r" "rep_align p r dvd B r" "B r + rep_size p r * c r \<le> stop" using assms(1) s unfolding regions_def by auto
  have "rep_size p r * x + rep_size p r \<le> rep_size p r * c r" using mult_le_mono2[of "Suc x" "c r" "rep_size p r"] s(3) by simp
  then show "start \<le> place_of p B s" "place_of p B s + rep_size p (fst s) \<le> stop" using R s(1) by (simp_all add: place_of_def)
  show "rep_align p (fst s) dvd place_of p B s" using R(2) rep_size_bounds(5)[OF s(2)] s(1) by (auto simp: place_of_def)
qed

lemma place_apart:
  assumes "regions p c B start stop" "valid_slot c s" "valid_slot c t" "s \<noteq> t"
  shows "apart (place_of p B s, rep_size p (fst s)) (place_of p B t, rep_size p (fst t))"
proof -
  have step: "rep_size p r * x + rep_size p r \<le> rep_size p r * y" if "x < y" for r x y
    using mult_le_mono2[of "Suc x" y "rep_size p r"] that by simp
  have across: "place_of p B s + rep_size p (fst s) \<le> place_of p B t" if "valid_slot c s" "valid_slot c t" "fst s < fst t" for s t
  proof -
    have "B (fst s) + rep_size p (fst s) * c (fst s) \<le> B (fst t)" using assms(1) that unfolding regions_def valid_slot_def by auto
    moreover have "rep_size p (fst s) * snd s + rep_size p (fst s) \<le> rep_size p (fst s) * c (fst s)"
      using that(1) by (intro step) (simp add: valid_slot_def)
    ultimately show ?thesis by (simp add: place_of_def)
  qed
  consider "fst s < fst t" | "fst t < fst s" | "fst s = fst t" "snd s < snd t" | "fst s = fst t" "snd t < snd s"
    using assms(4) by (metis linorder_neqE_nat prod.collapse)
  then show ?thesis
    using across assms(2,3) step[of "snd s" "snd t" "fst t"] step[of "snd t" "snd s" "fst t"]
    by cases (simp_all add: apart_def place_of_def)
qed

text \<open>Every field has a slot \<open>ds i\<close> for its data, and a member of a oneof a slot \<open>ks i\<close> for its case.\<close>

definition slotted_field ::
    "upb_MiniTablePlatform \<Rightarrow> (nat \<Rightarrow> nat) \<Rightarrow> (nat \<Rightarrow> nat) \<Rightarrow> upb_MiniTableField \<Rightarrow> upb_MiniTableField \<Rightarrow>
     nat \<times> nat \<Rightarrow> nat \<times> nat \<Rightarrow> bool" where
  "slotted_field p B c f f' d k \<longleftrightarrow> valid_slot c d \<and> fits p (field_rep f) (fst d) \<and>
     (in_oneof f \<longrightarrow> valid_slot c k \<and> fst k = 1 \<and> f' = member (of_nat (place_of p B k)) (of_nat (place_of p B d)) f) \<and>
     (\<not> in_oneof f \<longrightarrow> f' = f\<lparr>offset := of_nat (place_of p B d)\<rparr>)"

definition distinct_slots :: "bool \<Rightarrow> bool \<Rightarrow> nat \<times> nat \<Rightarrow> nat \<times> nat \<Rightarrow> nat \<times> nat \<Rightarrow> nat \<times> nat \<Rightarrow> bool" where
  "distinct_slots a b da ka db kb \<longleftrightarrow> (da = db \<longleftrightarrow> a \<and> b \<and> ka = kb)"

definition slotted ::
    "upb_MiniTablePlatform \<Rightarrow> (nat \<Rightarrow> nat) \<Rightarrow> (nat \<Rightarrow> nat) \<Rightarrow> upb_MiniTableField list \<Rightarrow> upb_MiniTableField list \<Rightarrow>
     (nat \<Rightarrow> nat \<times> nat) \<Rightarrow> (nat \<Rightarrow> nat \<times> nat) \<Rightarrow> bool" where
  "slotted p B c F F' ds ks \<longleftrightarrow> length F' = length F \<and>
     (\<forall>i < length F. slotted_field p B c (F ! i) (F' ! i) (ds i) (ks i)) \<and>
     (\<forall>i < length F. \<forall>j < length F. in_oneof (F ! i) \<longrightarrow> ks i \<noteq> ds j) \<and>
     (\<forall>i < length F. \<forall>j < length F. i \<noteq> j \<longrightarrow> distinct_slots (in_oneof (F ! i)) (in_oneof (F ! j)) (ds i) (ks i) (ds j) (ks j))"

lemma slotted_ok:
  assumes sf: "slots_for p B (\<lambda>_. 0) sc F F1 slot" and os: "oneof_slots p B sc c items cs F1 F' oslot"
    and mem: "\<forall>i < length F. in_oneof (F ! i) \<longleftrightarrow> i \<in> set (concat cs)" and fit: "members_fit p F items cs"
    and link: "oneofs_linked F items cs" and sc: "\<forall>r. sc r \<le> c r"
  shows "\<exists>ds ks. slotted p B c F F' ds ks"
proof -
  have l: "length F1 = length F" "length F' = length F" "length items = length cs"
    using sf os link by (auto simp: slots_for_def oneof_slots_def oneofs_linked_def dest: list_all2_lengthD)
  have "\<forall>i. \<exists>k. i \<in> set (concat cs) \<longrightarrow> k < length cs \<and> i \<in> set (cs ! k)"
    by (metis UN_E in_set_conv_nth set_concat)
  then obtain grp where grp: "\<And>i. i \<in> set (concat cs) \<Longrightarrow> grp i < length cs \<and> i \<in> set (cs ! grp i)" by metis
  define ds where "ds i = (if in_oneof (F ! i) then oslot (grp i, True) else slot i)" for i
  define ks where "ks i = oslot (grp i, False)" for i
  have rep: "oi_rep (items ! k) < 4" if "k < length cs" for k
    using link that by (auto simp: oneofs_linked_def list_all2_conv_all_nth)
  have o: "grp i < length cs" "fst (ks i) = 1" "fst (ds i) = oi_rep (items ! grp i)" "slot_range sc c (ks i)" "slot_range sc c (ds i)"
    "F' ! i = member (of_nat (place_of p B (ks i))) (of_nat (place_of p B (ds i))) (F ! i)"
    "fits p (field_rep (F ! i)) (fst (ds i))" "valid_slot c (ks i)" "valid_slot c (ds i)"
    if "i < length F" "in_oneof (F ! i)" for i
  proof -
    have g: "grp i < length cs" "i \<in> set (cs ! grp i)" using grp mem that by auto
    have "F1 ! i = F ! i" using sf that unfolding slots_for_def by auto
    then show "grp i < length cs" "fst (ks i) = 1" "fst (ds i) = oi_rep (items ! grp i)" "slot_range sc c (ks i)" "slot_range sc c (ds i)"
      "F' ! i = member (of_nat (place_of p B (ks i))) (of_nat (place_of p B (ds i))) (F ! i)"
      using os g that unfolding oneof_slots_def ds_def ks_def by auto
    then show "fits p (field_rep (F ! i)) (fst (ds i))" "valid_slot c (ks i)" "valid_slot c (ds i)"
      using fit g rep[OF g(1)] by (auto simp: members_fit_def valid_slot_def slot_range_def)
  qed
  have s: "fst (ds i) = field_rep (F ! i)" "snd (ds i) < sc (fst (ds i))" "F' ! i = (F ! i)\<lparr>offset := of_nat (place_of p B (ds i))\<rparr>"
    "fits p (field_rep (F ! i)) (fst (ds i))" "valid_slot c (ds i)"
    if "i < length F" "\<not> in_oneof (F ! i)" for i
  proof -
    have "slot_at p B (\<lambda>_. 0) sc (F ! i) (F1 ! i) (slot i)" using sf that unfolding slots_for_def by auto
    moreover have "F' ! i = F1 ! i" using os mem that l unfolding oneof_slots_def by auto
    ultimately show "fst (ds i) = field_rep (F ! i)" "snd (ds i) < sc (fst (ds i))"
      "F' ! i = (F ! i)\<lparr>offset := of_nat (place_of p B (ds i))\<rparr>"
      using that by (auto simp: slot_at_def ds_def)
    then show "fits p (field_rep (F ! i)) (fst (ds i))" "valid_slot c (ds i)"
      using sc field_rep_less[of "F ! i"] by (auto simp: fits_def valid_slot_def intro: order.strict_trans2)
  qed
  have inj: "oslot (a, x) = oslot (b, y) \<longleftrightarrow> a = b \<and> x = y" if "a < length cs" "b < length cs" for a b x y
    using os that unfolding oneof_slots_def by (auto dest: inj_onD)
  have injs: "slot i = slot j \<longleftrightarrow> i = j" if "i < length F" "j < length F" "\<not> in_oneof (F ! i)" "\<not> in_oneof (F ! j)" for i j
    using sf that unfolding slots_for_def by (auto dest: inj_onD)
  have mixed: "ks i \<noteq> ds j \<and> ds i \<noteq> ds j \<and> ds j \<noteq> ds i" if "i < length F" "j < length F" "in_oneof (F ! i)" "\<not> in_oneof (F ! j)" for i j
    using o(4,5)[of i] s(2)[of j] that unfolding slot_range_def by fastforce
  have "ks i \<noteq> ds j" if "i < length F" "j < length F" "in_oneof (F ! i)" for i j
    using that mixed[of i j] o(1)[of i] o(1)[of j] inj by (cases "in_oneof (F ! j)") (simp_all add: ds_def ks_def)
  moreover have "distinct_slots (in_oneof (F ! i)) (in_oneof (F ! j)) (ds i) (ks i) (ds j) (ks j)"
    if "i < length F" "j < length F" "i \<noteq> j" for i j
    using that mixed[of i j] mixed[of j i] o(1)[of i] o(1)[of j] inj injs[of i j] unfolding distinct_slots_def
    by (cases "in_oneof (F ! i)"; cases "in_oneof (F ! j)") (simp_all add: ds_def ks_def)
  moreover have "slotted_field p B c (F ! i) (F' ! i) (ds i) (ks i)" if "i < length F" for i
    unfolding slotted_field_def using o(2,6-9)[OF that] s(3-5)[OF that] by blast
  ultimately have "slotted p B c F F' ds ks" unfolding slotted_def using l(2) by blast
  then show ?thesis by blast
qed

text \<open>Case offsets and hasbits as the presence says them.\<close>

lemma hasbit_presence_eq:
  assumes "h < 32768"
  shows "hasbit_presence h = int h"
proof -
  have "signed_take_bit 15 (int h) = int h" using assms by (intro signed_take_bit_int_eq_self) auto
  then show ?thesis by (simp add: hasbit_presence_def signed_of_nat)
qed

lemma case_presence: "n < 32768 \<Longrightarrow> sint (NOT (of_nat n :: u16)) = - int n - 1"
  using hasbit_presence_eq[of n] by (simp add: hasbit_presence_def signed_not_eq not_int_def signed_take_bit_int_eq_self)

lemma small_offset: "\<not> in_oneof f \<Longrightarrow> offset f \<in> {kNoPresence, kRequiredPresence, kHasbitPresence}"
proof -
  assume "\<not> in_oneof f"
  then have "unat (offset f) < 3" by (simp add: in_oneof_def kOneofBase_def word_le_nat_alt)
  then have "unat (offset f) = 0 \<or> unat (offset f) = 1 \<or> unat (offset f) = 2" by linarith
  then have "offset f = 0 \<or> offset f = 1 \<or> offset f = 2" by (auto simp: word_unat_eq_iff)
  then show ?thesis by (auto simp: kNoPresence_def kRequiredPresence_def kHasbitPresence_def)
qed

lemma field_placed:
  assumes sl: "slotted p B c F F' ds ks" and reg: "regions p c B start stop" and stop: "stop \<le> 32000" and i: "i < length F"
  shows "unat (offset (F' ! i)) = place_of p B (ds i)" "field_rep (F' ! i) = field_rep (F ! i)"
    "in_oneof (F ! i) \<Longrightarrow> presence (F' ! i) < 0 \<and> case_piece (F' ! i) = (place_of p B (ks i), 4)"
    "\<not> in_oneof (F ! i) \<Longrightarrow> presence (F' ! i) = presence (F ! i)"
proof -
  have v: "valid_slot c (ds i)" and o: "in_oneof (F ! i) \<Longrightarrow> valid_slot c (ks i) \<and> fst (ks i) = 1 \<and>
      F' ! i = member (of_nat (place_of p B (ks i))) (of_nat (place_of p B (ds i))) (F ! i)"
    and s: "\<not> in_oneof (F ! i) \<Longrightarrow> F' ! i = (F ! i)\<lparr>offset := of_nat (place_of p B (ds i))\<rparr>"
    using sl i unfolding slotted_def slotted_field_def by blast+
  have le: "place_of p B (ds i) \<le> 32000" using place_range(3)[OF reg v] stop by linarith
  show "unat (offset (F' ! i)) = place_of p B (ds i)"
    using o s le by (cases "in_oneof (F ! i)") (simp_all add: member_def unat_of_nat)
  show "field_rep (F' ! i) = field_rep (F ! i)" using o s by (cases "in_oneof (F ! i)") (simp_all add: member_def field_rep_def)
  show "\<not> in_oneof (F ! i) \<Longrightarrow> presence (F' ! i) = presence (F ! i)" using s by simp
  assume a: "in_oneof (F ! i)"
  have "place_of p B (ks i) \<le> 32000" using place_range(3)[OF reg, of "ks i"] o[OF a] stop by linarith
  then show "presence (F' ! i) < 0 \<and> case_piece (F' ! i) = (place_of p B (ks i), 4)"
    using o[OF a] by (simp add: member_def case_piece_def case_presence)
qed

lemma hasbits_placed:
  assumes "hasbits_for h F0 F hb" "h \<le> 1263" "i < length F0" "\<not> in_oneof (F0 ! i)"
  shows "presence (F ! i) = 0 \<or> presence (F ! i) = int (hb i) \<and> 63 < hb i \<and> hb i \<le> h \<and>
    offset (F0 ! i) \<in> {kRequiredPresence, kHasbitPresence}"
proof -
  obtain pr where "F ! i = (F0 ! i)\<lparr>presence := pr\<rparr>" "offset (F0 ! i) = kNoPresence \<Longrightarrow> pr = 0"
    "offset (F0 ! i) \<in> {kRequiredPresence, kHasbitPresence} \<Longrightarrow> pr = hasbit_presence (hb i) \<and> 63 < hb i \<and> hb i \<le> h"
    using assms(1,3) unfolding hasbits_for_def by blast
  then show ?thesis using small_offset[OF assms(4)] hasbit_presence_eq[of "hb i"] assms(2) by fastforce
qed

lemma apart_sub: "apart (a, x) (b, y) \<Longrightarrow> x' \<le> x \<Longrightarrow> y' \<le> y \<Longrightarrow> apart (a, x') (b, y')"
  by (auto simp: apart_def)

lemma fits_pieces:
  assumes "slotted p B c F F' ds ks" "regions p c B start stop" "i < length F"
  shows "valid_slot c (ds i)" "rep_size p (field_rep (F ! i)) \<le> rep_size p (fst (ds i))"
    "rep_align p (field_rep (F ! i)) dvd place_of p B (ds i)" "start \<le> place_of p B (ds i)"
    "place_of p B (ds i) + rep_size p (field_rep (F ! i)) \<le> stop"
    "in_oneof (F ! i) \<Longrightarrow> valid_slot c (ks i) \<and> fst (ks i) = 1 \<and> 4 dvd place_of p B (ks i) \<and> start \<le> place_of p B (ks i) \<and>
       place_of p B (ks i) + 4 \<le> stop"
proof -
  have f: "slotted_field p B c (F ! i) (F' ! i) (ds i) (ks i)" using assms(1,3) by (simp add: slotted_def)
  then have v: "valid_slot c (ds i)" and fi: "fits p (field_rep (F ! i)) (fst (ds i))" by (simp_all add: slotted_field_def)
  show "valid_slot c (ds i)" "rep_size p (field_rep (F ! i)) \<le> rep_size p (fst (ds i))" using v fi by (simp_all add: fits_def)
  show "rep_align p (field_rep (F ! i)) dvd place_of p B (ds i)" "start \<le> place_of p B (ds i)"
    "place_of p B (ds i) + rep_size p (field_rep (F ! i)) \<le> stop"
    using place_range[OF assms(2) v] fi by (auto simp: fits_def intro: dvd_trans)
  assume "in_oneof (F ! i)"
  then have k: "valid_slot c (ks i)" "fst (ks i) = 1" using f by (simp_all add: slotted_field_def)
  then show "valid_slot c (ks i) \<and> fst (ks i) = 1 \<and> 4 dvd place_of p B (ks i) \<and> start \<le> place_of p B (ks i) \<and>
       place_of p B (ks i) + 4 \<le> stop"
    using place_range[OF assms(2) k(1)] by simp
qed

lemma presence_single:
  assumes "slotted p B c F F' ds ks" "regions p c B start stop" "stop \<le> 32000" "hasbits_for h F0 F hb" "h \<le> 1263"
    and i: "i < length F" "\<not> in_oneof (F ! i)"
  shows "presence (F' ! i) = 0 \<or> presence (F' ! i) = int (hb i) \<and> 63 < hb i \<and> hb i \<le> h \<and>
      offset (F0 ! i) \<in> {kRequiredPresence, kHasbitPresence}"
proof -
  have "in_oneof (F ! i) = in_oneof (F0 ! i)" "length F = length F0"
    using assms(4) i(1) unfolding hasbits_for_def in_oneof_def by fastforce+
  then show ?thesis using hasbits_placed[OF assms(4,5), of i] field_placed(4)[OF assms(1-3) i] i by simp
qed

text \<open>The passes change nothing but offsets and presence, and only members of oneofs get a case.\<close>

definition relaid :: "upb_MiniTableField \<Rightarrow> upb_MiniTableField \<Rightarrow> bool" where
  "relaid f f' \<longleftrightarrow> (\<exists>x y. f' = f\<lparr>presence := y, offset := x\<rparr>) \<and> (presence f' < 0 \<longrightarrow> in_oneof f)"

lemma slots_relaid:
  assumes sl: "slotted p B c F F' ds ks" "regions p c B start stop" "stop \<le> 32000" and hb: "hasbits_for h F0 F hb" "h \<le> 1263"
  shows "list_all2 relaid F0 F'"
proof (rule list_all2_all_nthI)
  show l: "length F0 = length F'" using sl hb by (simp add: slotted_def hasbits_for_def)
  fix i
  assume "i < length F0"
  then have i: "i < length F" using hb by (simp add: hasbits_for_def)
  obtain y where F: "F ! i = (F0 ! i)\<lparr>presence := y\<rparr>" using hb(1) i unfolding hasbits_for_def by auto
  have "slotted_field p B c (F ! i) (F' ! i) (ds i) (ks i)" using sl(1) i by (simp add: slotted_def)
  then have "\<exists>x z. F' ! i = (F0 ! i)\<lparr>presence := z, offset := x\<rparr>"
    unfolding slotted_field_def member_def F by (cases "in_oneof (F ! i)") (auto simp: F)
  moreover have "in_oneof (F ! i)" if "presence (F' ! i) < 0" using presence_single[OF sl hb i] that by auto
  then have "presence (F' ! i) < 0 \<longrightarrow> in_oneof (F0 ! i)" by (simp add: F in_oneof_def)
  ultimately show "relaid (F0 ! i) (F' ! i)" unfolding relaid_def by blast
qed

lemma layout_from_slots:
  assumes sl: "slotted p B c F F' ds ks" and reg: "regions p c B (h div 8 + 1) stop" and stop: "stop \<le> 32000"
    and hb: "hasbits_for h F0 F hb" "h \<le> 1263"
  shows "layout_ok p (align_up stop 8) F'"
proof -
  have l: "length F' = length F" "length F = length F0" using sl hb by (simp_all add: slotted_def hasbits_for_def)
  have al: "stop \<le> align_up stop 8" "8 dvd align_up stop 8" by (simp_all add: align_up_props)
  note pl = field_placed[OF sl reg stop] and fp = fits_pieces[OF sl reg]
  have single: "presence (F' ! i) = 0 \<or> presence (F' ! i) = int (hb i) \<and> 63 < hb i \<and> hb i \<le> h \<and>
      offset (F0 ! i) \<in> {kRequiredPresence, kHasbitPresence}" if "i < length F" "\<not> in_oneof (F ! i)" for i
    using presence_single[OF sl reg stop hb that] .
  have neg: "presence (F' ! i) < 0 \<longleftrightarrow> in_oneof (F ! i)" if "i < length F" for i
    using single[of i] pl(3)[OF that] that by (cases "in_oneof (F ! i)") auto
  have pos: "\<not> in_oneof (F ! i) \<and> presence (F' ! i) = int (hb i) \<and> 63 < hb i \<and> hb i \<le> h \<and>
      offset (F0 ! i) \<in> {kRequiredPresence, kHasbitPresence}"
    if "i < length F" "0 < presence (F' ! i)" for i
    using single[of i] neg[of i] that by (cases "in_oneof (F ! i)") auto
  have cp: "case_piece (F' ! i) = (place_of p B (ks i), 4)" if "i < length F" "in_oneof (F ! i)" for i using pl(3) that by blast
  have "well_placed p (align_up stop 8) (F' ! i)" if i: "i < length F" for i
    using fp(3,5,6)[OF i] pl(1,2)[OF i] neg[OF i] pos[OF i] cp[OF i] al(1)
    by (auto simp: well_placed_def kUpb_Reserved_Hasbits_def kUpb_Reserved_Hasbytes_def)
  moreover have "well_separated p (F' ! i) (F' ! j)" if i: "i < length F" and j: "j < length F" for i j
  proof -
    have "apart (case_piece (F' ! i)) (data_piece p (F' ! j))" if o: "in_oneof (F ! i)"
    proof -
      have "ks i \<noteq> ds j" using sl i j o unfolding slotted_def by blast
      then have "apart (place_of p B (ks i), 4) (place_of p B (ds j), rep_size p (fst (ds j)))"
        using place_apart[OF reg, of "ks i" "ds j"] fp(1)[OF j] fp(6)[OF i o] by simp
      then show ?thesis using cp[OF i o] fp(2)[OF j] pl(1,2)[OF j] by (auto simp: data_piece_def intro: apart_sub)
    qed
    moreover have "nat (presence (F' ! i)) div 8 < h div 8 + 1" if "0 < presence (F' ! i)"
      using pos[OF i that] by (simp add: div_le_mono le_imp_less_Suc)
    ultimately show ?thesis
      using neg[OF i] neg[OF j] fp(4)[OF j] fp(6)[OF j] pl(1)[OF j] cp[OF j] by (auto simp: well_separated_def)
  qed
  moreover have "independent p (F' ! i) (F' ! j)" if i: "i < length F" and j: "j < length F" and ij: "i \<noteq> j" for i j
  proof -
    have ds: "ds i = ds j \<longleftrightarrow> in_oneof (F ! i) \<and> in_oneof (F ! j) \<and> ks i = ks j"
      using sl i j ij unfolding slotted_def distinct_slots_def by blast
    have kase: "apart (case_piece (F' ! i)) (case_piece (F' ! j))" if "in_oneof (F ! i)" "in_oneof (F ! j)" "ks i \<noteq> ks j"
      using place_apart[OF reg, of "ks i" "ks j"] fp(6)[OF i] fp(6)[OF j] cp[OF i] cp[OF j] that by simp
    have eq: "presence (F' ! j) = presence (F' ! i) \<longleftrightarrow> ks i = ks j" if "in_oneof (F ! i)" "in_oneof (F ! j)"
    proof -
      have "presence (F' ! j) = presence (F' ! i) \<longleftrightarrow> case_piece (F' ! i) = case_piece (F' ! j)"
        using neg[OF i] neg[OF j] that by (auto simp: case_piece_def)
      then show ?thesis using kase[OF that] cp[OF i that(1)] cp[OF j that(2)] by (cases "ks i = ks j") (auto simp: apart_def)
    qed
    show ?thesis
    proof (cases "ds i = ds j")
      case True
      then have o: "in_oneof (F ! i)" "in_oneof (F ! j)" "ks i = ks j" using ds by auto
      have "offset (F' ! i) = offset (F' ! j)" using True pl(1)[OF i] pl(1)[OF j] by (metis word_unat_eq_iff)
      then show ?thesis using o eq neg[OF i] by (simp add: independent_def)
    next
      case False
      have d: "apart (data_piece p (F' ! i)) (data_piece p (F' ! j))"
        using place_apart[OF reg fp(1)[OF i] fp(1)[OF j] False] fp(2)[OF i] fp(2)[OF j] pl(1,2)[OF i] pl(1,2)[OF j]
        by (auto simp: data_piece_def intro: apart_sub)
      have h: "presence (F' ! i) \<noteq> presence (F' ! j)" if "0 < presence (F' ! i)"
      proof
        assume "presence (F' ! i) = presence (F' ! j)"
        then have "hb i = hb j" using pos[OF i] pos[OF j] that by simp
        moreover have "inj_on hb {i. i < length F0 \<and> offset (F0 ! i) \<in> {kRequiredPresence, kHasbitPresence}}"
          using hb(1) unfolding hasbits_for_def by blast
        moreover have "0 < presence (F' ! j)" using that \<open>presence (F' ! i) = presence (F' ! j)\<close> by simp
        ultimately have "i = j" using pos[OF i that] pos[OF j] i j l(2) by (auto dest!: inj_onD)
        then show False using ij by blast
      qed
      have ne: "\<not> (presence (F' ! i) < 0 \<and> presence (F' ! j) = presence (F' ! i))"
        using False ds eq neg[OF i] neg[OF j] by auto
      show ?thesis using d h ne kase eq neg[OF i] neg[OF j] False ds unfolding independent_def by auto
    qed
  qed
  ultimately show ?thesis
    unfolding layout_ok_def using al(2) l by (simp add: all_set_conv_all_nth)
qed

text \<open>The three passes: the layout of what the parser leaves is sound.\<close>

lemma assign_layout_ok:
  assumes "parsed d cs" "length (md_fields d) \<le> 600" "assign_layout d = Inr d'"
  shows "layout_ok (md_platform d) (unat (md_size d')) (md_fields d') \<and> list_all2 relaid (md_fields d) (md_fields d')"
proof -
  obtain d1 d2 where st: "upb_MtDecoder_AssignHasbits d = Inr d1" "upb_MtDecoder_CalculateAlignments d1 = Inr d2"
    "upb_MtDecoder_AssignOffsets d2 = Inr d'" using assms(3) by (auto simp: assign_layout_def bindE_eq_Inr)
  obtain h hb F rc where d1: "d1 = d\<lparr>md_fields := F, md_required_count := rc, md_size := of_nat (h div 8 + 1)\<rparr>"
    and hb: "hasbits_for h (md_fields d) F hb" "h \<le> 1263" using AssignHasbits_ok[OF assms(1,2) st(1)] assms(2) by fastforce
  have p1: "parsed d1 cs" unfolding d1 by (rule hasbits_for_parsed[OF assms(1) hb(1)])
  have F: "md_fields d1 = F" "length F = length (md_fields d)" "md_platform d1 = md_platform d"
    using hb(1) by (simp_all add: d1 hasbits_for_def)
  have sz: "unat (md_size d1) = h div 8 + 1"
  proof -
    have "unat (of_nat k :: u16) = k" if "k < 65536" for k using that by (simp add: unat_of_nat)
    moreover have "h div 8 + 1 < 65536" using hb(2) by simp
    ultimately have "unat (of_nat (h div 8 + 1) :: u16) = h div 8 + 1" by blast
    moreover have "md_size d1 = of_nat (h div 8 + 1)" unfolding d1 by simp
    ultimately show ?thesis by metis
  qed
  have "unat (md_size d1) \<le> 200" using sz hb(2) by simp
  with CalculateAlignments_ok[OF p1] F assms(2) obtain B counts stop where
    d2: "d2 = d1\<lparr>md_counts := counts, md_size := of_nat stop\<rparr>"
    and reg: "regions (md_platform d) (slot_count d1) B (h div 8 + 1) stop"
    and cur: "cursors (md_platform d) B (slot_count d1) (\<lambda>_. 0) counts" and stop: "stop \<le> 32000"
    using st(2) sz by auto
  have p1': "oneofs_linked F (md_oneofs d1) cs" "unat (md_field_count d1) = length F" "members_fit (md_platform d) F (md_oneofs d1) cs"
    "\<forall>i < length F. in_oneof (F ! i) \<longleftrightarrow> i \<in> set (concat cs)"
    using p1 F assms(2) by (simp_all add: parsed_def unat_of_nat)
  have "cursors (md_platform d2) B (slot_count d1) (\<lambda>_. 0) (md_counts d2)" "oneofs_linked (md_fields d2) (md_oneofs d2) cs"
    "length (md_fields d2) \<le> 600" "unat (md_field_count d2) = length (md_fields d2)" "slot_count d1 = slot_count d2"
    "\<forall>i < length (md_fields d2). in_oneof (md_fields d2 ! i) \<longleftrightarrow> i \<in> set (concat cs)"
    using cur p1' F assms(2) by (simp_all add: d2 slot_count_def fun_eq_iff)
  from AssignOffsets_ok[OF this] obtain F1 F' counts' slot oslot where
    d': "upb_MtDecoder_AssignOffsets d2 = Inr (d2\<lparr>md_fields := F', md_counts := counts', md_size := of_nat (align_up (unat (md_size d2)) 8)\<rparr>)"
    and so: "slots_for (md_platform d) B (\<lambda>_. 0) (single_count F) F F1 slot"
      "oneof_slots (md_platform d) B (single_count F) (slot_count d1) (md_oneofs d1) cs F1 F' oslot"
    using F by (auto simp: d2)
  obtain ds ks where sl: "slotted (md_platform d) B (slot_count d1) F F' ds ks"
    using slotted_ok[OF so p1'(4,3,1)] F(1) by (auto simp: slot_count_def)
  have "unat (md_size d') = align_up stop 8"
    using d' st(3) stop align_up_props(2)[of 8 stop] by (auto simp: d2 unat_of_nat)
  then show ?thesis using layout_from_slots[OF sl reg stop hb] slots_relaid[OF sl reg stop hb] d' st(3) by auto
qed

end
