(* ===== verification/Mini_Types.thy ===== *)
theory Mini_Types
  imports Mini_Decode Layout_Conforms
begin

text \<open>
  The fields a mini descriptor describes are well typed: mode, type, representation and flags agree, so
  that the parser of messages, which trusts a layout, may be given the table.
\<close>

text \<open>The flags of a field as its type allows them; on a 64-bit platform the representation is the one of the type.\<close>

definition field_typed :: "upb_MiniTablePlatform \<Rightarrow> upb_MiniTableField \<Rightarrow> bool" where
  "field_typed p f \<longleftrightarrow>
     (upb_MiniTableField_IsScalar f \<or> upb_MiniTableField_IsArray f) \<and>
     wire_class (descriptortype f) \<noteq> ClassNone \<and>
     (p = kUpb_MiniTablePlatform_64Bit \<longrightarrow> upb_MiniTableField_GetRep f = rep_of f) \<and>
     \<not> upb_MiniTableField_IsExtension f \<and>
     (upb_MiniTableField_IsAlternate f \<longrightarrow> descriptortype f \<in> {kUpb_FieldType_Int32, kUpb_FieldType_Bytes}) \<and>
     (upb_MiniTableField_IsPacked f \<longrightarrow> upb_MtDecoder_FieldIsPackable f) \<and>
     submsg f = (if upb_MiniTableField_IsSubMessage f then SubMsg None else NoSub) \<and>
     number f \<noteq> 0 \<and> number f \<le> kUpb_MaxFieldNumber"

lemmas field_view_defs = upb_MiniTableField_IsScalar_def upb_MiniTableField_IsArray_def upb_MiniTableField_Mode_def
  upb_MiniTableField_GetRep_def rep_of_def upb_MiniTableField_IsExtension_def upb_MiniTableField_IsAlternate_def
  upb_MiniTableField_IsPacked_def upb_MtDecoder_FieldIsPackable_def upb_MiniTableField_IsSubMessage_def

lemma field_typed_update [simp]:
  "field_typed p (f\<lparr>offset := x\<rparr>) = field_typed p f" "field_typed p (f\<lparr>presence := y\<rparr>) = field_typed p f"
  by (simp_all add: field_typed_def field_view_defs)

text \<open>Flags and the other parts of the mode are independent.\<close>

lemma mode_xor_packed [simp]:
  fixes m :: byte
  shows "(m XOR 4) AND 3 = m AND 3" "(m XOR 4) AND 1 = m AND 1" "(m XOR 4) AND 8 = m AND 8" "(m XOR 4) AND 16 = m AND 16"
    "drop_bit 6 (m XOR 4) = drop_bit 6 m"
  by (simp_all add: bit.conj_xor_distrib2 drop_bit_xor)

lemma mode_clear_alternate [simp]:
  fixes m :: byte
  shows "(m AND - 17) AND 3 = m AND 3" "(m AND - 17) AND 1 = m AND 1" "(m AND - 17) AND 8 = m AND 8" "(m AND - 17) AND 4 = m AND 4"
    "(m AND - 17) AND 16 = 0"
  by (simp_all add: and.assoc)

lemma mode_rep_bits [simp]: "drop_bit 6 m AND 3 = drop_bit 6 (m :: byte)"
proof -
  have "drop_bit 6 m AND mask 2 = drop_bit 6 m"
    by (rule bit_eqI) (auto simp: bit_and_iff bit_drop_bit_eq bit_mask_iff dest: bit_imp_le_length)
  then show ?thesis by (simp add: mask_eq_exp_minus_1)
qed

lemma flip_packed_typed:
  assumes "field_typed p f" "upb_MtDecoder_FieldIsPackable f"
  shows "field_typed p (f\<lparr>mode := mode f XOR 4\<rparr>)" "upb_MiniTableField_IsScalar (f\<lparr>mode := mode f XOR 4\<rparr>) = upb_MiniTableField_IsScalar f"
  using assms by (simp_all add: field_typed_def field_view_defs)

lemma flip_utf8_typed:
  assumes "field_typed p f" "descriptortype f = kUpb_FieldType_Bytes"
  shows "field_typed p (f\<lparr>descriptortype := kUpb_FieldType_String, mode := mode f AND NOT 16\<rparr>)"
    "upb_MiniTableField_IsScalar (f\<lparr>descriptortype := kUpb_FieldType_String, mode := mode f AND NOT 16\<rparr>) = upb_MiniTableField_IsScalar f"
  using assms by (auto simp: field_typed_def field_view_defs wire_class_def upb_FieldType_IsPackable_def)

lemma ModifyField_typed:
  assumes "upb_MtDecoder_ModifyField mo f = Inr f'" "field_typed p f" "offset f \<noteq> kNoPresence \<longrightarrow> upb_MiniTableField_IsScalar f"
  shows "field_typed p f' \<and> (offset f' \<noteq> kNoPresence \<longrightarrow> upb_MiniTableField_IsScalar f')"
proof -
  let ?ok = "\<lambda>f. field_typed p f \<and> (offset f \<noteq> kNoPresence \<longrightarrow> upb_MiniTableField_IsScalar f)"
  have a: "?ok (f\<lparr>mode := mode f XOR 4\<rparr>)" if "?ok f" "upb_MtDecoder_FieldIsPackable f" for f using flip_packed_typed[of p f] that by auto
  have b: "?ok (f\<lparr>descriptortype := kUpb_FieldType_String, mode := mode f AND NOT 16\<rparr>)"
    if "?ok f" "descriptortype f = kUpb_FieldType_Bytes" for f using flip_utf8_typed[of p f] that by auto
  have c: "?ok (f\<lparr>offset := x\<rparr>)" if "?ok f" "offset f = kHasbitPresence" for f x
    using that by (simp add: kHasbitPresence_def kNoPresence_def field_view_defs)
  obtain f1 f2 where st: "flip_packed mo f = Inr f1" "flip_validate_utf8 mo f1 = Inr f2" "modify_presence mo f2 = Inr f'"
    using assms(1) by (auto simp: upb_MtDecoder_ModifyField_def bindE_eq_Inr)
  have "?ok f1" using st(1) a[of f] assms(2,3) by (auto simp: flip_packed_def split: if_splits)
  then have "?ok f2" using st(2) b[of f1] by (auto simp: flip_validate_utf8_def split: if_splits)
  moreover have "f' = f2 \<or> offset f2 = kHasbitPresence \<and> (\<exists>x. f' = f2\<lparr>offset := x\<rparr>)"
    using st(3) by (auto simp: modify_presence_def Let_def split: if_splits)
  ultimately show ?thesis using c by blast
qed

lemma SetTypeAndSub_offset: "upb_MiniTable_SetTypeAndSub n f t m e = Inr (f', ofs, n') \<Longrightarrow> offset f' = offset f"
  by (auto simp: upb_MiniTable_SetTypeAndSub_def bindE_eq_Inr Let_def split: if_splits)

lemma mode_or_flags [simp]:
  fixes m :: byte
  shows "(m OR 16) AND 3 = m AND 3" "(m OR 16) AND 1 = m AND 1" "(m OR 16) AND 8 = m AND 8" "(m OR 16) AND 4 = m AND 4"
    "(m OR 4) AND 3 = m AND 3" "(m OR 4) AND 1 = m AND 1" "(m OR 4) AND 8 = m AND 8" "(m OR 4) AND 16 = m AND 16"
    "drop_bit 6 (m OR 16) = drop_bit 6 m" "drop_bit 6 (m OR 4) = drop_bit 6 m"
  by (simp_all add: bit.conj_disj_distrib2 drop_bit_or)

text \<open>The type that is stored, and the flags that come with it.\<close>

lemma SetTypeAndSub_shape:
  assumes "upb_MiniTable_SetTypeAndSub n f t m e = Inr (f', ofs, n')" "mode f AND 16 = 0" "mode f AND 4 = 0" "submsg f = NoSub"
  shows "t = descriptortype f' \<or> t = kUpb_FieldType_Enum \<and> descriptortype f' = kUpb_FieldType_Int32 \<or>
      t = kUpb_FieldType_String \<and> descriptortype f' = kUpb_FieldType_Bytes"
    "mode f' AND 3 = mode f AND 3" "mode f' AND 8 = mode f AND 8" "mode f' AND 1 = mode f AND 1" "drop_bit 6 (mode f') = drop_bit 6 (mode f)"
    "mode f' AND 4 \<noteq> 0 \<Longrightarrow> upb_MtDecoder_FieldIsPackable f'"
    "mode f' AND 16 \<noteq> 0 \<Longrightarrow> descriptortype f' \<in> {kUpb_FieldType_Int32, kUpb_FieldType_Bytes}"
    "submsg f' = (if upb_MiniTableField_IsSubMessage f' then SubMsg None else NoSub)" "number f' = number f"
  using assms
  by (auto simp: upb_MiniTable_SetTypeAndSub_def bindE_eq_Inr Let_def upb_MtDecoder_FieldIsPackable_def upb_MiniTableField_IsSubMessage_def
      split: if_splits)

definition base_mode :: "upb_MiniTablePlatform \<Rightarrow> bool \<Rightarrow> nat \<Rightarrow> byte" where
  "base_mode p arr k =
     (let ptr = (if p = kUpb_MiniTablePlatform_32Bit then 1 else 3)
      in if arr then 1 OR push_bit 6 ptr else 2 OR push_bit 6 (if k = 16 \<or> k = 17 then ptr else kUpb_EncodedToFieldRep ! k))"

lemma SetField_shape:
  assumes "upb_MiniTable_SetField p n ch f0 m = Inr (f, ofs, n')"
  shows "\<exists>k arr. k < 19 \<and> upb_MiniTable_SetTypeAndSub n (f0\<lparr>mode := base_mode p arr k, offset := if arr then kNoPresence else kHasbitPresence\<rparr>)
    (kUpb_EncodedToType ! k) m (k = 12) = Inr (f, ofs, n')"
proof -
  let ?x = "upb_FromBase92 ch"
  have conv: "\<not> (x < 0 \<or> 19 \<le> x) \<Longrightarrow> nat x < 19" "nat x = 12 \<longleftrightarrow> x = 12" "nat x = 16 \<longleftrightarrow> x = 16" "nat x = 17 \<longleftrightarrow> x = 17" for x :: int by auto
  have swap: "f\<lparr>offset := x, mode := y\<rparr> = f\<lparr>mode := y, offset := x\<rparr>" for f :: upb_MiniTableField and x y by simp
  obtain rb where rb: "upb_ToBase92 20 = Inr rb" using assms by (auto simp: upb_MiniTable_SetField_def Let_def bindE_eq_Inr)
  show ?thesis
  proof (cases "ch \<ge> rb")
    case True
    then have "\<not> (?x - 20 < 0 \<or> 19 \<le> ?x - 20)" "upb_MiniTable_SetTypeAndSub n (f0\<lparr>mode := base_mode p True (nat (?x - 20)), offset := kNoPresence\<rparr>)
        (kUpb_EncodedToType ! nat (?x - 20)) m (?x - 20 = 12) = Inr (f, ofs, n')"
      using assms rb by (auto simp: upb_MiniTable_SetField_def Let_def bindE_eq_Inr base_mode_def split: if_splits)
    then show ?thesis using conv by (intro exI[of _ "nat (?x - 20)"] exI[of _ True]) simp
  next
    case False
    then have "\<not> (?x < 0 \<or> 19 \<le> ?x)" "upb_MiniTable_SetTypeAndSub n (f0\<lparr>mode := base_mode p False (nat ?x), offset := kHasbitPresence\<rparr>)
        (kUpb_EncodedToType ! nat ?x) m (?x = 12) = Inr (f, ofs, n')"
      using assms rb by (auto simp: upb_MiniTable_SetField_def Let_def bindE_eq_Inr base_mode_def conv swap split: if_splits)
    then show ?thesis using conv by (intro exI[of _ "nat ?x"] exI[of _ False]) simp
  qed
qed

text \<open>A field as \<open>upb_MiniTable_SetField\<close> makes it.\<close>

definition base_mode_fits :: "upb_MiniTablePlatform \<Rightarrow> bool \<Rightarrow> nat \<Rightarrow> bool" where
  "base_mode_fits p arr k \<longleftrightarrow> base_mode p arr k AND 16 = 0 \<and> base_mode p arr k AND 4 = 0 \<and> base_mode p arr k AND 8 = 0 \<and>
     base_mode p arr k AND 3 = (if arr then 1 else 2) \<and>
     (p = kUpb_MiniTablePlatform_64Bit \<longrightarrow>
        drop_bit 6 (base_mode p arr k) = (if arr \<or> k = 16 \<or> k = 17 then 3 else kUpb_EncodedToFieldRep ! k))"

lemma base_modes_fit:
  "list_all (\<lambda>k. list_all (\<lambda>p. base_mode_fits p True k \<and> base_mode_fits p False k)
     [kUpb_MiniTablePlatform_32Bit, kUpb_MiniTablePlatform_64Bit]) [0 ..< 19]"
  by code_simp

lemma base_mode_bits:
  assumes "k < 19"
  shows "base_mode p arr k AND 16 = 0" "base_mode p arr k AND 4 = 0" "base_mode p arr k AND 8 = 0"
    "base_mode p arr k AND 3 = (if arr then 1 else 2)"
    "p = kUpb_MiniTablePlatform_64Bit \<Longrightarrow> drop_bit 6 (base_mode p arr k) = (if arr \<or> k = 16 \<or> k = 17 then 3 else kUpb_EncodedToFieldRep ! k)"
proof -
  have "base_mode_fits p arr k" using base_modes_fit assms unfolding list_all_iff by (cases p; cases arr) auto
  then show "base_mode p arr k AND 16 = 0" "base_mode p arr k AND 4 = 0" "base_mode p arr k AND 8 = 0"
    "base_mode p arr k AND 3 = (if arr then 1 else 2)"
    "p = kUpb_MiniTablePlatform_64Bit \<Longrightarrow> drop_bit 6 (base_mode p arr k) = (if arr \<or> k = 16 \<or> k = 17 then 3 else kUpb_EncodedToFieldRep ! k)"
    unfolding base_mode_fits_def by blast+
qed

text \<open>The representation that belongs to the \<open>k\<close>-th encoded type, for each type that may be stored for it.\<close>

definition rep_bits :: "upb_FieldType \<Rightarrow> byte" where
  "rep_bits t = (if wire_class t = ClassString then 2 else if scalar_width t = 1 then 0 else if scalar_width t = 4 then 1 else 3)"

definition encoded_rep_fits :: "nat \<Rightarrow> upb_FieldType \<Rightarrow> bool" where
  "encoded_rep_fits k t \<longleftrightarrow> wire_class t \<noteq> ClassNone \<and> (if k = 16 \<or> k = 17 then 3 else kUpb_EncodedToFieldRep ! k) = rep_bits t"

lemma encoded_reps_fit:
  "list_all (\<lambda>k. encoded_rep_fits k (kUpb_EncodedToType ! k) \<and>
     (kUpb_EncodedToType ! k = kUpb_FieldType_Enum \<longrightarrow> encoded_rep_fits k kUpb_FieldType_Int32) \<and>
     (kUpb_EncodedToType ! k = kUpb_FieldType_String \<longrightarrow> encoded_rep_fits k kUpb_FieldType_Bytes)) [0 ..< 19]"
  by code_simp

lemma encoded_rep:
  assumes "k < 19" "kUpb_EncodedToType ! k = t \<or> kUpb_EncodedToType ! k = kUpb_FieldType_Enum \<and> t = kUpb_FieldType_Int32 \<or>
    kUpb_EncodedToType ! k = kUpb_FieldType_String \<and> t = kUpb_FieldType_Bytes"
  shows "wire_class t \<noteq> ClassNone" "(if k = 16 \<or> k = 17 then 3 else kUpb_EncodedToFieldRep ! k) = rep_bits t"
proof -
  have "encoded_rep_fits k t" using encoded_reps_fit assms unfolding list_all_iff by auto
  then show "wire_class t \<noteq> ClassNone" "(if k = 16 \<or> k = 17 then 3 else kUpb_EncodedToFieldRep ! k) = rep_bits t"
    unfolding encoded_rep_fits_def by blast+
qed

lemma SetField_typed:
  assumes "upb_MiniTable_SetField p n ch (new_field num) m = Inr (f, ofs, n')" "num \<noteq> 0" "num \<le> kUpb_MaxFieldNumber"
  shows "field_typed p f \<and> (offset f \<noteq> kNoPresence \<longrightarrow> upb_MiniTableField_IsScalar f)"
proof -
  obtain k arr where k: "k < 19" and st: "upb_MiniTable_SetTypeAndSub n ((new_field num)\<lparr>mode := base_mode p arr k,
      offset := if arr then kNoPresence else kHasbitPresence\<rparr>) (kUpb_EncodedToType ! k) m (k = 12) = Inr (f, ofs, n')"
    using SetField_shape[OF assms(1)] by blast
  note b = base_mode_bits[OF k, of p arr]
  note s = SetTypeAndSub_shape[OF st, simplified, OF b(1,2), simplified new_field_def, simplified]
  have sc: "upb_MiniTableField_IsScalar f \<longleftrightarrow> \<not> arr" "upb_MiniTableField_IsArray f \<longleftrightarrow> arr"
    using s(2) b(4) by (simp_all add: upb_MiniTableField_IsScalar_def upb_MiniTableField_IsArray_def upb_MiniTableField_Mode_def)
  note r = encoded_rep[OF k s(1)]
  have type: "wire_class (descriptortype f) \<noteq> ClassNone" by (rule r(1))
  have rep: "upb_MiniTableField_GetRep f = rep_of f" if p: "p = kUpb_MiniTablePlatform_64Bit"
  proof (cases arr)
    case True
    then show ?thesis using b(5)[OF p] s(5) sc by (simp add: upb_MiniTableField_GetRep_def rep_of_def)
  next
    case False
    then have "drop_bit 6 (mode f) = rep_bits (descriptortype f)"
      using b(5)[OF p] s(5) r(2) by (auto split: if_splits)
    then show ?thesis using False sc by (auto simp: upb_MiniTableField_GetRep_def rep_of_def rep_bits_def)
  qed
  have "offset f = (if arr then kNoPresence else kHasbitPresence)" using SetTypeAndSub_offset[OF st] by simp
  then show ?thesis
    unfolding field_typed_def upb_MiniTableField_IsExtension_def upb_MiniTableField_IsAlternate_def upb_MiniTableField_IsPacked_def
    using sc type rep s(3,6-) b(3) assms(2,3) by auto
qed

end
