(* ===== verification/Mini_Build.thy ===== *)
theory Mini_Build
  imports Mini_Assign Mini_Types
begin

text \<open>
  What the parser of mini descriptors establishes for the layout passes, and the layout of every table that is built.
\<close>

subsection \<open>Fields\<close>

lemma presence_not_oneof [simp]: "offset f = kNoPresence \<Longrightarrow> \<not> in_oneof f" "offset f = kHasbitPresence \<Longrightarrow> \<not> in_oneof f"
  "offset f = kRequiredPresence \<Longrightarrow> \<not> in_oneof f"
  by (simp_all add: in_oneof_def kNoPresence_def kHasbitPresence_def kRequiredPresence_def kOneofBase_def word_le_nat_alt)

lemma SetField_not_oneof: "upb_MiniTable_SetField p n ch f m = Inr (f', ofs, n') \<Longrightarrow> \<not> in_oneof f'"
  by (auto simp: upb_MiniTable_SetField_def bindE_eq_Inr Let_def dest!: SetTypeAndSub_offset split: if_splits)

lemma ModifyField_not_oneof: "upb_MtDecoder_ModifyField m f = Inr f' \<Longrightarrow> \<not> in_oneof f \<Longrightarrow> \<not> in_oneof f'"
  by (auto simp: upb_MtDecoder_ModifyField_def flip_packed_def flip_validate_utf8_def modify_presence_def bindE_eq_Inr Let_def in_oneof_def kNoPresence_def kRequiredPresence_def
      kOneofBase_def split: if_splits)

subsection \<open>Oneofs\<close>

text \<open>While oneofs are read: \<open>cs\<close> are the finished ones, \<open>ks\<close> the members of the current one, the last first.\<close>

definition parsed_field :: "upb_MiniTablePlatform \<Rightarrow> upb_MiniTableField \<Rightarrow> bool" where
  "parsed_field p f \<longleftrightarrow> field_typed p f \<and> (offset f \<noteq> kNoPresence \<longrightarrow> upb_MiniTableField_IsScalar f)"

definition oneof_inv :: "upb_MtDecoder \<Rightarrow> upb_OneOfLayoutItem \<Rightarrow> nat list list \<Rightarrow> nat list \<Rightarrow> bool" where
  "oneof_inv d item cs ks \<longleftrightarrow> md_field_count d = of_nat (length (md_fields d)) \<and>
     counted (md_counts d) (oneof_count (md_oneofs d)) \<and> oneofs_linked (md_fields d) (md_oneofs d) cs \<and>
     members_fit (md_platform d) (md_fields d) (md_oneofs d) cs \<and>
     (\<forall>f \<in> set (md_fields d). parsed_field (md_platform d) f) \<and> distinct (concat (ks # cs)) \<and>
     (\<forall>i < length (md_fields d). in_oneof (md_fields d ! i) \<longleftrightarrow> i \<in> set (concat (ks # cs))) \<and>
     (\<forall>i \<in> set ks. fits (md_platform d) (field_rep (md_fields d ! i)) (oi_rep item)) \<and> oi_rep item < 4 \<and>
     (if ks = [] then oi_field_index item = kUpb_OneOfLayoutItem_IndexSentinel
      else chain (md_fields d) ks \<and> oi_field_index item = of_nat (hd ks) + kOneofBase)"

lemma rep_align_dvd: "r < 4 \<Longrightarrow> q < 4 \<Longrightarrow> rep_align p r \<le> rep_align p q \<Longrightarrow> rep_align p r dvd rep_align p q"
  using rep_cases[of r] rep_cases[of q] by (auto simp: upb_MtDecoder_AlignOfRep_def split: if_splits)

lemma fits_trans: "fits p r q \<Longrightarrow> fits p q s \<Longrightarrow> fits p r s"
  by (auto simp: fits_def intro: dvd_trans)

lemma link_in_oneof:
  "offset f = kUpb_OneOfLayoutItem_IndexSentinel \<Longrightarrow> in_oneof f"
  "offset f = of_nat j + kOneofBase \<Longrightarrow> j < n \<Longrightarrow> n \<le> 600 \<Longrightarrow> in_oneof f"
  using link_unat(3)[of j n] by (auto simp: in_oneof_def kUpb_OneOfLayoutItem_IndexSentinel_def kOneofBase_def)

lemma oneof_rep_fits:
  assumes "c < 4" "r < 4" "oneof_rep p c r = Inr q"
  shows "fits p r q \<and> fits p c q \<and> q < 4"
  using assms rep_align_dvd[of r c] rep_align_dvd[of c r]
  by (auto simp: oneof_rep_def fits_def bindE_eq_Inr Let_def split: if_splits)

text \<open>A member joins the current oneof.\<close>

lemma oneof_inv_join:
  assumes inv: "oneof_inv d item cs ks" and n: "length (md_fields d) \<le> 600"
    and i: "i < length (md_fields d)" "offset (md_fields d ! i) = kHasbitPresence"
    and q: "fits (md_platform d) (field_rep (md_fields d ! i)) q" "fits (md_platform d) (oi_rep item) q" "q < 4"
  shows "oneof_inv (set_field d i ((md_fields d ! i)\<lparr>offset := oi_field_index item\<rparr>)) \<lparr>oi_field_index = of_nat i + kOneofBase, oi_rep = q\<rparr>
    cs (i # ks)"
proof -
  let ?F = "md_fields d" and ?f = "(md_fields d ! i)\<lparr>offset := oi_field_index item\<rparr>"
  let ?F' = "?F[i := ?f]"
  have new: "i \<notin> set (concat (ks # cs))" using inv i unfolding oneof_inv_def by auto
  have rep: "field_rep (?F' ! k) = field_rep (?F ! k)" for k using i(1) by (cases "k = i") (simp_all add: field_rep_def)
  have link: "oneofs_linked ?F (md_oneofs d) cs" using inv by (simp add: oneof_inv_def)
  have off: "offset (?F' ! k) = offset (?F ! k)" if "k \<in> set (concat (ks # cs))" for k using that new by (metis nth_list_update_neq)
  then have link': "oneofs_linked ?F' (md_oneofs d) cs" by (intro linked_offsets[OF link]) auto
  have idx: "ks = [] \<Longrightarrow> oi_field_index item = kUpb_OneOfLayoutItem_IndexSentinel"
    "ks \<noteq> [] \<Longrightarrow> chain ?F ks \<and> oi_field_index item = of_nat (hd ks) + kOneofBase" using inv by (auto simp: oneof_inv_def)
  have ch: "chain ?F' (i # ks)"
  proof (cases ks)
    case (Cons j js)
    have "chain ?F' ks = chain ?F ks" using off by (intro chain_offsets) auto
    then show ?thesis using idx(2) Cons i(1) by simp
  qed (use idx(1) i(1) in simp)
  have "in_oneof ?f"
  proof (cases ks)
    case (Cons j js)
    then have "j < length ?F" using idx(2) chain_bound[of ?F ks j] by simp
    then show ?thesis using idx(2) Cons n link_in_oneof(2)[of ?f j "length ?F"] by simp
  qed (use idx(1) link_in_oneof(1) in simp)
  then have "\<forall>k < length ?F'. in_oneof (?F' ! k) \<longleftrightarrow> k \<in> set (concat ((i # ks) # cs))"
    using inv i(1) unfolding oneof_inv_def by (auto simp: nth_list_update)
  moreover have "members_fit (md_platform d) ?F' (md_oneofs d) cs" using inv rep by (simp add: oneof_inv_def members_fit_def)
  moreover have "\<forall>k \<in> set (i # ks). fits (md_platform d) (field_rep (?F' ! k)) q"
    unfolding rep using inv q fits_trans by (auto simp: oneof_inv_def)
  moreover have "\<forall>f \<in> set ?F'. parsed_field (md_platform d) f"
  proof -
    have "parsed_field (md_platform d) (?F ! i)" using inv i(1) by (simp add: oneof_inv_def)
    then have "parsed_field (md_platform d) ?f"
      using i(2) by (simp add: parsed_field_def field_view_defs kHasbitPresence_def kNoPresence_def)
    then show ?thesis using inv by (auto simp: oneof_inv_def dest!: set_update_subset_insert[THEN subsetD])
  qed
  ultimately show ?thesis
    using inv new link' ch q(3) unfolding oneof_inv_def set_field_def by simp
qed

lemma DecodeOneofField_inv:
  assumes inv: "oneof_inv d item cs ks" and n: "length (md_fields d) \<le> 600"
    and st: "upb_MtDecoder_DecodeOneofField d ptr ch item = Inr (d', rest, item')"
  shows "\<exists>i. oneof_inv d' item' cs (i # ks) \<and> length (md_fields d') = length (md_fields d) \<and> md_platform d' = md_platform d"
proof -
  let ?p = "md_platform d"
  obtain i q where i: "i < length (md_fields d)" "offset (md_fields d ! i) = kHasbitPresence"
    and d': "d' = set_field d i ((md_fields d ! i)\<lparr>offset := oi_field_index item\<rparr>)"
    and item': "item' = \<lparr>oi_field_index = of_nat i + kOneofBase, oi_rep = q\<rparr>"
    and q: "oneof_rep ?p (oi_rep item) (field_rep (md_fields d ! i)) = Inr q"
    using st unfolding upb_MtDecoder_DecodeOneofField_def
    by (auto simp: bindE_eq_Inr the_field_def split: option.splits if_splits)
  have lt: "oi_rep item < 4" "field_rep (md_fields d ! i) < 4" using inv field_rep_less by (simp_all add: oneof_inv_def)
  then have "fits ?p (field_rep (md_fields d ! i)) q" "fits ?p (oi_rep item) q" "q < 4"
    using oneof_rep_fits[OF lt q] by simp_all
  then have "oneof_inv d' item' cs (i # ks)" unfolding d' item' using oneof_inv_join[OF inv n i] by blast
  moreover have "length (md_fields d') = length (md_fields d)" "md_platform d' = ?p" by (simp_all add: d' set_field_def)
  ultimately show ?thesis by blast
qed

text \<open>A finished oneof.\<close>

lemma oneof_count_append: "oneof_count (xs @ [it]) r = oneof_count xs r + (if r = 1 then 1 else 0) + (if r = oi_rep it then 1 else 0)"
  by (simp add: oneof_count_def)

lemma counted_push:
  assumes "counted c f" "r < 4"
  shows "counted (c[r := c ! r + 1]) (\<lambda>q. f q + (if q = r then 1 else 0))"
  using assms by (auto simp: counted_def nth_list_update)

lemma grow_oneofs_same:
  "grow_oneofs d = Inr d' \<Longrightarrow> md_fields d' = md_fields d \<and> md_platform d' = md_platform d \<and> md_counts d' = md_counts d \<and>
     md_oneofs d' = md_oneofs d \<and> md_field_count d' = md_field_count d"
  by (auto simp: grow_oneofs_def split: if_splits)

lemma PushOneof_inv:
  assumes inv: "oneof_inv d item cs ks" and n: "length (md_fields d) \<le> 600" and st: "upb_MtDecoder_PushOneof d item = Inr d'"
  shows "oneof_inv d' (item\<lparr>oi_field_index := kUpb_OneOfLayoutItem_IndexSentinel\<rparr>) (cs @ [ks]) []"
    "md_fields d' = md_fields d" "md_platform d' = md_platform d"
proof -
  let ?it = "item\<lparr>oi_field_index := oi_field_index item - kOneofBase\<rparr>" and ?c = "md_counts d"
  have ks: "ks \<noteq> []" "chain (md_fields d) ks" "oi_field_index ?it = of_nat (hd ks)"
    using inv st by (auto simp: oneof_inv_def upb_MtDecoder_PushOneof_def split: if_splits)
  obtain d1 where g: "grow_oneofs d = Inr d1"
    and d'': "d' = d1\<lparr>md_counts := ((md_counts d1)[1 := md_counts d1 ! 1 + 1])[oi_rep item := (md_counts d1)[1 := md_counts d1 ! 1 + 1] ! oi_rep item + 1],
      md_oneofs := md_oneofs d1 @ [?it]\<rparr>"
    using st by (auto simp: upb_MtDecoder_PushOneof_def Let_def kUpb_OneOf_CaseFieldRep_def bindE_eq_Inr split: if_splits)
  note d1 = grow_oneofs_same[OF g]
  have d': "d' = d1\<lparr>md_counts := (?c[1 := ?c ! 1 + 1])[oi_rep item := ?c[1 := ?c ! 1 + 1] ! oi_rep item + 1], md_oneofs := md_oneofs d @ [?it]\<rparr>"
    using d'' d1 by simp
  show same: "md_fields d' = md_fields d" "md_platform d' = md_platform d" by (simp_all add: d' d1)
  have "counted (md_counts d') (\<lambda>r. oneof_count (md_oneofs d) r + (if r = 1 then 1 else 0) + (if r = oi_rep item then 1 else 0))"
    unfolding d' upb_MtDecoder.select_convs upb_MtDecoder.update_convs using inv
    by (auto simp: oneof_inv_def intro!: counted_push)
  then have "counted (md_counts d') (oneof_count (md_oneofs d'))" by (simp add: d' oneof_count_append counted_def)
  moreover have "oneofs_linked (md_fields d) (md_oneofs d @ [?it]) (cs @ [ks])"
    using inv ks by (auto simp: oneof_inv_def oneofs_linked_def intro!: list_all2_appendI)
  moreover have "members_fit (md_platform d) (md_fields d) (md_oneofs d @ [?it]) (cs @ [ks])"
    using inv by (auto simp: oneof_inv_def members_fit_def oneofs_linked_def nth_append less_Suc_eq dest!: list_all2_lengthD)
  moreover have "distinct (concat ([] # cs @ [ks]))" "set (concat ([] # cs @ [ks])) = set (concat (ks # cs))"
    using inv by (auto simp: oneof_inv_def)
  ultimately show "oneof_inv d' (item\<lparr>oi_field_index := kUpb_OneOfLayoutItem_IndexSentinel\<rparr>) (cs @ [ks]) []"
    using inv same d1 unfolding oneof_inv_def by (simp add: d')
qed

lemma decode_oneofs_inv:
  assumes "decode_oneofs_loop d item ptr = Inr (d', item')" "oneof_inv d item cs ks" "length (md_fields d) \<le> 600"
  shows "\<exists>cs' ks'. oneof_inv d' item' cs' ks' \<and> length (md_fields d') = length (md_fields d) \<and> md_platform d' = md_platform d"
  using assms
proof (induction d item ptr arbitrary: cs ks rule: decode_oneofs_loop.induct)
  case (2 d item ch ptr)
  consider (sep) "ch = kUpb_EncodedValue_FieldSeparator"
    | (push) "ch \<noteq> kUpb_EncodedValue_FieldSeparator" "ch = kUpb_EncodedValue_OneofSeparator"
    | (mem) "ch \<noteq> kUpb_EncodedValue_FieldSeparator" "ch \<noteq> kUpb_EncodedValue_OneofSeparator" by blast
  then show ?case
  proof cases
    case sep
    then show ?thesis using "2.IH"(1) "2.prems" by simp
  next
    case push
    then obtain d1 where d1: "upb_MtDecoder_PushOneof d item = Inr d1"
      "decode_oneofs_loop d1 (item\<lparr>oi_field_index := kUpb_OneOfLayoutItem_IndexSentinel\<rparr>) ptr = Inr (d', item')"
      using "2.prems"(1) by (auto simp: bindE_eq_Inr)
    note p = PushOneof_inv[OF "2.prems"(2,3) d1(1)]
    then show ?thesis using "2.IH"(2)[OF push d1 p(1)] "2.prems"(3) by simp
  next
    case mem
    then obtain d1 rest item1 where d1: "upb_MtDecoder_DecodeOneofField d ptr ch item = Inr (d1, rest, item1)"
      "decode_oneofs_loop d1 item1 rest = Inr (d', item')"
      using "2.prems"(1) by (auto simp: bindE_eq_Inr)
    obtain i where "oneof_inv d1 item1 cs (i # ks)" "length (md_fields d1) = length (md_fields d)" "md_platform d1 = md_platform d"
      using DecodeOneofField_inv[OF "2.prems"(2,3) d1(1)] by blast
    then show ?thesis using "2.IH"(3)[OF mem d1(1) refl refl d1(2)] "2.prems"(3) by simp
  qed
qed auto

subsection \<open>The parser\<close>

definition fields_parsed :: "upb_MtDecoder \<Rightarrow> bool" where
  "fields_parsed d \<longleftrightarrow> md_field_count d = of_nat (length (md_fields d)) \<and> md_oneofs d = [] \<and> md_counts d = replicate 4 0 \<and>
     \<not> md_is_extension d \<and> (\<forall>f \<in> set (md_fields d). \<not> in_oneof f \<and> parsed_field (md_platform d) f)"

definition typed_fields :: "upb_MtDecoder \<Rightarrow> bool" where
  "typed_fields d \<longleftrightarrow> (\<forall>f \<in> set (md_fields d). parsed_field (md_platform d) f)"

lemma fields_parsed_inv:
  assumes "fields_parsed d"
  shows "oneof_inv d \<lparr>oi_field_index = kUpb_OneOfLayoutItem_IndexSentinel, oi_rep = 0\<rparr> [] []" "parsed d []" "typed_fields d"
  using assms by (auto simp: fields_parsed_def typed_fields_def oneof_inv_def parsed_def counted_def oneofs_linked_def members_fit_def)

lemma DecodeOneofField_length: "upb_MtDecoder_DecodeOneofField d ptr ch item = Inr (d', rest, item') \<Longrightarrow>
    length (md_fields d') = length (md_fields d)"
  by (auto simp: upb_MtDecoder_DecodeOneofField_def bindE_eq_Inr set_field_def split: option.splits if_splits)

lemma PushOneof_fields: "upb_MtDecoder_PushOneof d item = Inr d' \<Longrightarrow> md_fields d' = md_fields d"
  by (auto simp: upb_MtDecoder_PushOneof_def Let_def bindE_eq_Inr split: if_splits dest: grow_oneofs_same)

lemma decode_oneofs_length: "decode_oneofs_loop d item ptr = Inr (d', item') \<Longrightarrow> length (md_fields d') = length (md_fields d)"
  by (induction d item ptr rule: decode_oneofs_loop.induct)
    (auto simp: bindE_eq_Inr PushOneof_fields split: if_splits dest: DecodeOneofField_length)

lemma DecodeOneofs_ok:
  assumes "upb_MtDecoder_DecodeOneofs d ptr = Inr d'" "fields_parsed d" "length (md_fields d') \<le> 600"
  shows "\<exists>cs. parsed d' cs \<and> typed_fields d' \<and> md_platform d' = md_platform d"
proof -
  obtain d1 item where st: "decode_oneofs_loop d \<lparr>oi_field_index = kUpb_OneOfLayoutItem_IndexSentinel, oi_rep = 0\<rparr> ptr = Inr (d1, item)"
    "upb_MtDecoder_PushOneof d1 item = Inr d'" using assms(1) by (auto simp: upb_MtDecoder_DecodeOneofs_def bindE_eq_Inr)
  have n: "length (md_fields d) \<le> 600" "length (md_fields d1) \<le> 600"
    using assms(3) decode_oneofs_length[OF st(1)] PushOneof_fields[OF st(2)] by simp_all
  obtain cs ks where "oneof_inv d1 item cs ks" "md_platform d1 = md_platform d"
    using decode_oneofs_inv[OF st(1) fields_parsed_inv(1)[OF assms(2)] n(1)] by blast
  with PushOneof_inv[OF this(1) n(2) st(2)] have "parsed d' (cs @ [ks])" "typed_fields d'" "md_platform d' = md_platform d"
    by (simp_all add: oneof_inv_def parsed_def typed_fields_def)
  then show ?thesis by blast
qed

lemma parse_field_ok:
  assumes "parse_field d p ch = Inr (d', p')" "fields_parsed d"
  shows "fields_parsed d' \<and> md_platform d' = md_platform d"
proof -
  obtain f ofs sc where st: "upb_MiniTable_SetField (md_platform d) (md_sub_count d) ch (new_field (mp_last_field_number p + 1)) (mp_msg_modifiers p) =
      Inr (f, ofs, sc)" "mp_last_field_number p + 1 \<noteq> 0" "mp_last_field_number p + 1 \<le> kUpb_MaxFieldNumber"
    and d': "d' = d\<lparr>md_fields := md_fields d @ [f], md_submsg_ofs := md_submsg_ofs d @ [ofs], md_sub_count := sc, md_field_count := md_field_count d + 1\<rparr>"
    using assms by (auto simp: parse_field_def fields_parsed_def bindE_eq_Inr Let_def not_less split: if_splits)
  have "\<not> in_oneof f" "parsed_field (md_platform d) f"
    using SetField_not_oneof[OF st(1)] SetField_typed[OF st] by (auto simp: parsed_field_def)
  then show ?thesis using assms(2) by (auto simp: d' fields_parsed_def)
qed

lemma fields_parsed_set: "fields_parsed d \<Longrightarrow> \<not> in_oneof f \<Longrightarrow> parsed_field (md_platform d) f \<Longrightarrow> fields_parsed (set_field d i f)"
  by (auto simp: fields_parsed_def set_field_def dest!: set_update_subset_insert[THEN subsetD])

lemma ParseModifier_ok:
  assumes "upb_MtDecoder_ParseModifier d ptr ch l m = Inr (d', rest, m')" "fields_parsed d"
  shows "fields_parsed d' \<and> md_platform d' = md_platform d"
proof (cases l)
  case None
  then show ?thesis using assms by (auto simp: upb_MtDecoder_ParseModifier_def bindE_eq_Inr split: if_splits)
next
  case (Some i)
  then obtain mo f where "i < length (md_fields d)" "upb_MtDecoder_ModifyField mo (md_fields d ! i) = Inr f" "d' = set_field d i f"
    using assms(1) by (auto simp: upb_MtDecoder_ParseModifier_def bindE_eq_Inr the_field_def split: if_splits)
  moreover from this have "\<not> in_oneof f" "parsed_field (md_platform d) f"
    using assms(2) ModifyField_not_oneof ModifyField_typed[of mo "md_fields d ! i" f "md_platform d"]
    by (auto simp: fields_parsed_def parsed_field_def)
  ultimately show ?thesis using fields_parsed_set[OF assms(2)] by (simp add: set_field_def)
qed

lemma fields_parsed_update [simp]:
  "fields_parsed (d\<lparr>md_ext := e\<rparr>) = fields_parsed d" "fields_parsed (d\<lparr>md_dense_below := b\<rparr>) = fields_parsed d"
  by (simp_all add: fields_parsed_def)

text \<open>
  An invariant \<open>I\<close> of the loop of \<open>upb_MtDecoder_Parse\<close>, and what it gives at the end, with or without oneofs.
\<close>

locale parse_invariant =
  fixes I Q :: "upb_MtDecoder \<Rightarrow> md_parse \<Rightarrow> bool"
  assumes field: "I d p \<Longrightarrow> parse_field d p ch = Inr (d', p') \<Longrightarrow> I d' p'"
    and modifier: "I d p \<Longrightarrow> upb_MtDecoder_ParseModifier d ptr ch (mp_last_field p) (mp_msg_modifiers p) = Inr (d', rest, m) \<Longrightarrow>
      I (if m AND 4 \<noteq> 0 then d'\<lparr>md_ext := md_ext d' OR 1\<rparr> else d') (p\<lparr>mp_msg_modifiers := m\<rparr>)"
    and skip_numbers: "I d p \<Longrightarrow> I (if mp_need_dense_below p then d\<lparr>md_dense_below := ucast (md_field_count d)\<rparr> else d)
      (p\<lparr>mp_need_dense_below := False, mp_last_field_number := mp_last_field_number p + s - 1\<rparr>)"
    and oneofs: "I d p \<Longrightarrow> upb_MtDecoder_DecodeOneofs d ptr = Inr d' \<Longrightarrow> Q d' p"
    and stop: "I d p \<Longrightarrow> Q d p"
begin

lemma loop_invariant:
  assumes "parse_loop d p ptr = Inr (d', p', rest)" "I d p"
  shows "Q d' p'"
  using assms
proof (induction d p ptr rule: parse_loop.induct)
  case (1 d p)
  then show ?case using stop by auto
next
  case (2 d p ch ptr)
  consider (is_field) "sint ch \<le> sint kUpb_EncodedValue_MaxField"
    | (is_modifier) "\<not> sint ch \<le> sint kUpb_EncodedValue_MaxField"
        "sint kUpb_EncodedValue_MinModifier \<le> sint ch \<and> sint ch \<le> sint kUpb_EncodedValue_MaxModifier"
    | (is_end) "\<not> sint ch \<le> sint kUpb_EncodedValue_MaxField"
        "\<not> (sint kUpb_EncodedValue_MinModifier \<le> sint ch \<and> sint ch \<le> sint kUpb_EncodedValue_MaxModifier)" "ch = kUpb_EncodedValue_End"
    | (other) "\<not> sint ch \<le> sint kUpb_EncodedValue_MaxField"
        "\<not> (sint kUpb_EncodedValue_MinModifier \<le> sint ch \<and> sint ch \<le> sint kUpb_EncodedValue_MaxModifier)" "ch \<noteq> kUpb_EncodedValue_End" by blast
  then show ?case
  proof cases
    case is_field
    show ?thesis
    proof (cases "md_is_extension d \<and> mp_last_field p \<noteq> None")
      case True
      then show ?thesis using is_field "2.prems" stop by auto
    next
      case False
      obtain d1 p1 where st: "parse_field d p ch = Inr (d1, p1)" "parse_loop d1 p1 ptr = Inr (d', p', rest)"
        using "2.prems"(1) is_field False by (auto simp: bindE_eq_Inr)
      then show ?thesis using "2.IH"(1)[OF is_field False st(1) refl st(2)] field[OF "2.prems"(2) st(1)] by simp
    qed
  next
    case is_modifier
    obtain d1 rest1 m where st: "upb_MtDecoder_ParseModifier d ptr ch (mp_last_field p) (mp_msg_modifiers p) = Inr (d1, rest1, m)"
      "parse_loop (if m AND 4 \<noteq> 0 then d1\<lparr>md_ext := md_ext d1 OR 1\<rparr> else d1) (p\<lparr>mp_msg_modifiers := m\<rparr>) rest1 = Inr (d', p', rest)"
      using "2.prems"(1) is_modifier by (auto simp: bindE_eq_Inr)
    then show ?thesis using "2.IH"(2)[OF is_modifier st(1) refl refl st(2)] modifier[OF "2.prems"(2) st(1)] by simp
  next
    case is_end
    then show ?thesis using "2.prems" oneofs by (auto simp: bindE_eq_Inr split: if_splits)
  next
    case other
    let ?d = "if mp_need_dense_below p then d\<lparr>md_dense_below := ucast (md_field_count d)\<rparr> else d"
    have sk: "sint kUpb_EncodedValue_MinSkip \<le> sint ch \<and> sint ch \<le> sint kUpb_EncodedValue_MaxSkip"
      using "2.prems"(1) other by (auto split: if_splits)
    obtain s rest1 where st: "upb_MdDecoder_DecodeBase92Varint ptr ch kUpb_EncodedValue_MinSkip kUpb_EncodedValue_MaxSkip = Inr (s, rest1)"
      "parse_loop ?d (p\<lparr>mp_need_dense_below := False, mp_last_field_number := mp_last_field_number p + s - 1\<rparr>) rest1 = Inr (d', p', rest)"
      using "2.prems"(1) other sk by (auto simp: bindE_eq_Inr Let_def)
    then show ?thesis
      using "2.IH"(3)[OF other sk refl st(1) refl st(2)] skip_numbers[OF "2.prems"(2), of s] by simp
  qed
qed

end

interpretation parse_fields: parse_invariant "\<lambda>d _. fields_parsed d \<and> md_platform d = plat"
  "\<lambda>d _. length (md_fields d) \<le> 600 \<longrightarrow> (\<exists>cs. parsed d cs \<and> typed_fields d \<and> md_platform d = plat)"
  for plat
  using parse_field_ok ParseModifier_ok fields_parsed_inv(2,3) DecodeOneofs_ok
  by unfold_locales (simp_all, metis+)

lemma Parse_ok:
  assumes "upb_MtDecoder_Parse d data = Inr (d', rest)" "fields_parsed d" "length (md_fields d') \<le> 600"
  shows "\<exists>cs. parsed d' cs \<and> typed_fields d' \<and> md_platform d' = md_platform d"
proof -
  obtain d1 p where st: "parse_loop d \<lparr>mp_msg_modifiers = 0, mp_last_field_number = 0, mp_last_field = None,
      mp_need_dense_below = (\<not> md_is_extension d)\<rparr> data = Inr (d1, p, rest)"
    "d' = (if mp_need_dense_below p then d1\<lparr>md_dense_below := ucast (md_field_count d1)\<rparr> else d1)"
    using assms(1) unfolding upb_MtDecoder_Parse_def
    by (auto simp only: bindE_eq_Inr split_paired_Ex prod.case sum.inject prod.inject)
  have "length (md_fields d1) \<le> 600" using assms(3) st(2) by (simp split: if_splits)
  from parse_fields.loop_invariant[OF st(1), of "md_platform d"] assms(2) this show ?thesis using st(2) by (auto simp: parsed_def typed_fields_def)
qed

lemma ParseMessage_ok:
  assumes "upb_MtDecoder_ParseMessage d data = Inr d'" "md_oneofs d = []" "md_counts d = replicate 4 0" "length (md_fields d') \<le> 600"
    "\<not> md_is_extension d"
  shows "\<exists>cs. parsed d' cs \<and> typed_fields d' \<and> md_platform d' = md_platform d"
proof -
  let ?d = "d\<lparr>md_arena := \<lambda>n. md_arena d (Suc n), md_field_count := 0, md_fields := [], md_submsg_ofs := []\<rparr>"
  obtain d1 rest ss where st: "upb_MtDecoder_Parse ?d data = Inr (d1, rest)" "d' = d1\<lparr>md_submsg_ofs := ss\<rparr>"
    using assms(1) by (auto simp: upb_MtDecoder_ParseMessage_def upb_MtDecoder_AllocateSubs_def Let_def bindE_eq_Inr split: if_splits)
  have "fields_parsed ?d" using assms(2,3,5) by (simp add: fields_parsed_def)
  moreover have "length (md_fields d1) \<le> 600" using assms(4) st(2) by simp
  ultimately show ?thesis using Parse_ok[OF st(1)] st(2) by (auto simp: parsed_def typed_fields_def)
qed

subsection \<open>The number of fields\<close>

lemma assign_bits_length: "assign_bits P Q h fs = (h', fs') \<Longrightarrow> length fs' = length fs"
  using assign_bits_ok[of P Q h fs] by (auto simp: bits_for_def)

lemma AssignHasbits_length: "upb_MtDecoder_AssignHasbits d = Inr d' \<Longrightarrow> length (md_fields d') = length (md_fields d)"
  by (auto simp: upb_MtDecoder_AssignHasbits_def Let_def bindE_eq_Inr assign_required_eq assign_optional_eq
      dest!: assign_bits_length split: prod.splits if_splits)

lemma place_fields_length: "place_fields p fs c = (fs', c') \<Longrightarrow> length fs' = length fs"
  by (induction fs arbitrary: c fs' c') (auto simp: Let_def split: if_splits prod.splits)

lemma place_members_length: "place_members fl d i c ofs = Inr d' \<Longrightarrow> length (md_fields d') = length (md_fields d)"
proof (induction fl arbitrary: d i)
  case (Suc fl)
  then obtain f where f: "the_field d i = Inr f" by (auto simp: bindE_eq_Inr)
  show ?case
    using Suc.prems Suc.IH f
    by (cases "offset f = kUpb_OneOfLayoutItem_IndexSentinel"; cases "offset f < kOneofBase")
      (auto simp: bindE_eq_Inr set_field_def Let_def)
qed simp

lemma place_oneofs_length: "place_oneofs items d = Inr d' \<Longrightarrow> length (md_fields d') = length (md_fields d)"
  by (induction items arbitrary: d) (auto simp: Let_def bindE_eq_Inr split: prod.splits dest: place_members_length)

lemma assign_layout_length:
  assumes "assign_layout d = Inr d'"
  shows "length (md_fields d') = length (md_fields d)"
proof -
  obtain d1 d2 where st: "upb_MtDecoder_AssignHasbits d = Inr d1" "upb_MtDecoder_CalculateAlignments d1 = Inr d2"
    "upb_MtDecoder_AssignOffsets d2 = Inr d'" using assms by (auto simp: assign_layout_def bindE_eq_Inr)
  have "md_fields d2 = md_fields d1" using st(2) by (auto simp: upb_MtDecoder_CalculateAlignments_def Let_def split: prod.splits if_splits)
  moreover have "length (md_fields d') = length (md_fields d2)"
    using st(3) by (auto simp: upb_MtDecoder_AssignOffsets_def Let_def bindE_eq_Inr split: prod.splits
        dest!: place_oneofs_length place_fields_length)
  ultimately show ?thesis using AssignHasbits_length[OF st(1)] by simp
qed

text \<open>What remains of the types after the layout passes.\<close>

definition laid_out :: "upb_MiniTablePlatform \<Rightarrow> upb_MiniTableField \<Rightarrow> bool" where
  "laid_out p f \<longleftrightarrow> field_typed p f \<and> (presence f < 0 \<longrightarrow> upb_MiniTableField_IsScalar f)"

lemma relaid_typed:
  assumes "list_all2 relaid F F'" "\<forall>f \<in> set F. parsed_field p f"
  shows "\<forall>f \<in> set F'. laid_out p f"
proof
  fix f'
  assume "f' \<in> set F'"
  then obtain f where f: "f \<in> set F" "relaid f f'" using assms(1) by (metis in_set_conv_nth list_all2_conv_all_nth)
  then have "parsed_field p f" using assms(2) by blast
  moreover have "offset f \<noteq> kNoPresence" if "in_oneof f" using that presence_not_oneof(1) by blast
  ultimately show "laid_out p f'" using f(2) by (auto simp: relaid_def laid_out_def parsed_field_def field_view_defs)
qed

subsection \<open>Map entries\<close>

lemma map_entry_layout:
  assumes k: "presence k = 0 \<or> 64 \<le> presence k \<and> presence k \<le> 67" and v: "presence v = 0 \<or> 64 \<le> presence v \<and> presence v \<le> 67"
    and ne: "0 < presence k \<Longrightarrow> presence k \<noteq> presence v"
  shows "layout_ok p 48 [k\<lparr>offset := 16\<rparr>, v\<lparr>offset := 32\<rparr>]"
proof -
  let ?k = "k\<lparr>offset := 16\<rparr>" and ?v = "v\<lparr>offset := 32\<rparr>"
  have s: "rep_align p (field_rep f) dvd 16" "rep_align p (field_rep f) dvd 32" "rep_size p (field_rep f) \<le> 16" for f
    using rep_size_bounds[OF field_rep_less[of f], of p] dvd_trans[of "rep_align p (field_rep f)" 8 16]
      dvd_trans[of "rep_align p (field_rep f)" 8 32] by simp_all
  have byte: "nat x div 8 < 16" if "x = 0 \<or> 64 \<le> x \<and> x \<le> 67" for x :: int
    using div_le_mono[of "nat x" 67 8] that by auto
  have wp: "well_placed p 48 (f\<lparr>offset := x\<rparr>)" if "x = 16 \<or> x = 32" "presence f = 0 \<or> 64 \<le> presence f \<and> presence f \<le> 67" for f x
    using that s[of "f\<lparr>offset := x\<rparr>"] by (auto simp: well_placed_def kUpb_Reserved_Hasbits_def kUpb_Reserved_Hasbytes_def)
  have ws: "well_separated p (f\<lparr>offset := x\<rparr>) (g\<lparr>offset := y\<rparr>)"
    if "y = 16 \<or> y = 32" "presence f = 0 \<or> 64 \<le> presence f \<and> presence f \<le> 67" "0 \<le> presence g" for f g x y
    using byte[OF that(2)] that by (auto simp: well_separated_def)
  have "well_placed p 48 ?k" "well_placed p 48 ?v" "well_separated p ?k ?k" "well_separated p ?k ?v" "well_separated p ?v ?k"
    "well_separated p ?v ?v"
    using wp[OF _ k] wp[OF _ v] ws[OF _ k] ws[OF _ v] k v by auto
  moreover have "independent p ?k ?v" "independent p ?v ?k"
    using k v ne s[of ?k] s[of ?v] by (auto simp: independent_def data_piece_def apart_def)
  ultimately show ?thesis by (auto simp: layout_ok_def less_Suc_eq)
qed

lemma ParseMap_layout:
  assumes "upb_MtDecoder_ParseMap d data = Inr d'" "md_oneofs d = []" "md_counts d = replicate 4 0" "length (md_fields d') \<le> 600"
    "\<not> md_is_extension d"
  shows "layout_ok (md_platform d) (unat (md_size d')) (md_fields d') \<and> (\<forall>f \<in> set (md_fields d'). laid_out (md_platform d) f)"
proof -
  obtain d1 d2 k v where st: "upb_MtDecoder_ParseMessage d data = Inr d1" "upb_MtDecoder_AssignHasbits d1 = Inr d2"
    "md_field_count d2 = 2" "md_oneofs d2 = []" "md_fields d2 ! 0 = k" "md_fields d2 ! 1 = v"
    "md_fields d' = (md_fields d2)[0 := k\<lparr>offset := 16\<rparr>, 1 := v\<lparr>offset := 32\<rparr>]" "md_size d' = 48"
    using assms(1) by (auto simp: upb_MtDecoder_ParseMap_def Let_def bindE_eq_Inr the_field_def set_field_def split: if_splits)
  have n: "length (md_fields d1) \<le> 600" using assms(4) st(7) AssignHasbits_length[OF st(2)] by simp
  obtain cs where p1: "parsed d1 cs" "typed_fields d1" "md_platform d1 = md_platform d" using ParseMessage_ok[OF st(1) assms(2,3) n assms(5)] by blast
  obtain h hb F rc where d2: "d2 = d1\<lparr>md_fields := F, md_required_count := rc, md_size := of_nat (h div 8 + 1)\<rparr>"
    and hb: "hasbits_for h (md_fields d1) F hb" "h \<le> 63 + 2 * length (md_fields d1)" using AssignHasbits_ok[OF p1(1) n st(2)] by blast
  have two: "length F = 2" "length (md_fields d1) = 2"
    using hb(1) p1 st(3) n by (auto simp: d2 parsed_def hasbits_for_def word_unat_eq_iff unat_of_nat)
  have "cs = []" using p1 st(4) by (auto simp: d2 parsed_def oneofs_linked_def)
  then have "\<not> in_oneof (md_fields d1 ! i)" if "i < 2" for i using p1 that two by (simp add: parsed_def)
  then have pr: "presence (F ! i) = 0 \<or> presence (F ! i) = int (hb i) \<and> 63 < hb i \<and> hb i \<le> 67 \<and>
      offset (md_fields d1 ! i) \<in> {kRequiredPresence, kHasbitPresence}" if "i < 2" for i
    using hasbits_placed[OF hb(1), of i] hb(2) two that by fastforce
  have "inj_on hb {i. i < length (md_fields d1) \<and> offset (md_fields d1 ! i) \<in> {kRequiredPresence, kHasbitPresence}}"
    using hb(1) unfolding hasbits_for_def by blast
  note inj = inj_onD[OF this, of 0 1]
  have ne: "0 < presence k \<Longrightarrow> presence k \<noteq> presence v"
    using pr[of 0] pr[of 1] st(5,6) two inj by (auto simp: d2)
  have F: "F = [k, v]" using two(1) st(5,6) by (intro nth_equalityI) (auto simp: d2 less_2_cases_iff)
  have fs: "md_fields d' = [k\<lparr>offset := 16\<rparr>, v\<lparr>offset := 32\<rparr>]" using st(7) F by (simp add: d2)
  have pk: "presence k = 0 \<or> 64 \<le> presence k \<and> presence k \<le> 67" "presence v = 0 \<or> 64 \<le> presence v \<and> presence v \<le> 67"
    using pr[of 0] pr[of 1] F by auto
  have upd: "\<exists>y. F ! i = (md_fields d1 ! i)\<lparr>presence := y\<rparr>" if "i < 2" for i
    using hb(1) that two unfolding hasbits_for_def by auto
  have rel: "relaid f (g\<lparr>offset := x\<rparr>)" if "\<exists>y. g = f\<lparr>presence := y\<rparr>" "0 \<le> presence g" for f g x
    using that by (auto simp: relaid_def)
  have "relaid (md_fields d1 ! 0) (k\<lparr>offset := 16\<rparr>)" "relaid (md_fields d1 ! 1) (v\<lparr>offset := 32\<rparr>)"
    using upd[of 0] upd[of 1] pk by (auto intro!: rel simp: F)
  then have "list_all2 relaid (md_fields d1) (md_fields d')"
    using two by (intro list_all2_all_nthI) (auto simp: fs less_2_cases_iff)
  then have "\<forall>f \<in> set (md_fields d'). laid_out (md_platform d) f" using p1(2,3) by (intro relaid_typed) (auto simp: typed_fields_def)
  then show ?thesis unfolding fs st(8) using map_entry_layout[OF pk ne] by simp
qed

text \<open>Every table.\<close>

lemma DoBuild_cases:
  assumes "upb_MtDecoder_DoBuildMiniTableWithBuf d data = Inr d'" "md_fields d = []"
  obtains (map_entry) ps where "upb_MtDecoder_ParseMap (d\<lparr>md_size := of_nat kUpb_Reserved_Hasbytes, md_field_count := 0, md_ext := 0,
      md_dense_below := 0, md_required_count := 0\<rparr>) ps = Inr d'"
  | (message) ps d1 where "upb_MtDecoder_ParseMessage (d\<lparr>md_size := of_nat kUpb_Reserved_Hasbytes, md_field_count := 0, md_ext := 0,
      md_dense_below := 0, md_required_count := 0\<rparr>) ps = Inr d1" "assign_layout d1 = Inr d'"
  | (no_fields) "md_fields d' = []" "md_size d' = 8" "md_field_count d' = 0" "md_dense_below d' = 0"
  using assms by (auto simp: upb_MtDecoder_DoBuildMiniTableWithBuf_def upb_MtDecoder_ParseMessageSet_def bindE_eq_Inr Let_def
      kUpb_Reserved_Hasbytes_def split: list.splits if_splits)

lemma DoBuild_layout:
  assumes "upb_MtDecoder_DoBuildMiniTableWithBuf d data = Inr d'" "md_oneofs d = []" "md_counts d = replicate 4 0" "md_fields d = []"
    "length (md_fields d') \<le> 600" "\<not> md_is_extension d"
  shows "layout_ok (md_platform d) (unat (md_size d')) (md_fields d') \<and> (\<forall>f \<in> set (md_fields d'). laid_out (md_platform d) f)"
proof -
  have empty: "layout_ok (md_platform d) 8 []" by (simp add: layout_ok_def)
  from assms(1,4) show ?thesis
  proof (cases rule: DoBuild_cases)
    case map_entry
    then show ?thesis using ParseMap_layout[OF map_entry] assms(2,3,5,6) by simp
  next
    case (message ps d1)
    then have n: "length (md_fields d1) \<le> 600" using assign_layout_length assms(5) by fastforce
    obtain cs where d1: "parsed d1 cs" "typed_fields d1" "md_platform d1 = md_platform d"
      using ParseMessage_ok[OF message(1)] assms(2,3,6) n by auto
    note lay = assign_layout_ok[OF d1(1) n message(2)]
    then have "\<forall>f \<in> set (md_fields d'). laid_out (md_platform d) f"
      using d1(2,3) relaid_typed[of "md_fields d1" "md_fields d'" "md_platform d"] by (auto simp: typed_fields_def)
    then show ?thesis using lay d1(3) by simp
  next
    case no_fields
    then show ?thesis using empty by simp
  qed
qed

lemma BuildWithBuf_DoBuild: "upb_MiniTable_BuildWithBuf data p a n = Inr (Some d) \<Longrightarrow>
    upb_MtDecoder_DoBuildMiniTableWithBuf (md_init p n a False) data = Inr d"
  by (auto simp: upb_MiniTable_BuildWithBuf_def split: sum.splits fault.splits)

lemma BuildWithBuf_ok:
  assumes "upb_MiniTable_BuildWithBuf data p a n = Inr (Some d)" "length (md_fields d) \<le> 600"
  shows "layout_ok p (unat (md_size d)) (md_fields d) \<and> (\<forall>f \<in> set (md_fields d). laid_out p f)"
proof -
  from DoBuild_layout[OF BuildWithBuf_DoBuild[OF assms(1)] _ _ _ assms(2)] show ?thesis by (simp add: md_init_def)
qed

subsection \<open>Properties\<close>

text \<open>
  C4: the layout of a message. The table that \<open>upb_MiniTable_BuildWithBuf\<close> makes from any mini descriptor
  with at most 600 fields is sound: every field is aligned for its representation and lies within the
  size of the message, every oneof case is an aligned 32-bit word within it, hasbits are distinct and
  lie before all data, and two fields share storage exactly when they are members of the same oneof.
\<close>

theorem MiniTable_layout_ok:
  assumes "upb_MiniTable_BuildWithBuf data p a n = Inr (Some d)" "length (md_fields d) \<le> 600"
  shows "layout_ok p (unat (md_size d)) (md_fields d)"
  using BuildWithBuf_ok[OF assms] by (rule conjunct1)

text \<open>Three fields, of which the first two form a oneof.\<close>

definition oneof_descriptor :: "byte list" where
  "oneof_descriptor = [36, 41, 36, 33, 94, 33, 124, 35]"

theorem MiniTable_layout_ok_witness:
  "\<exists>d. upb_MiniTable_BuildWithBuf oneof_descriptor kUpb_MiniTablePlatform_64Bit (\<lambda>_. True) 0 = Inr (Some d) \<and>
     map (\<lambda>f. (unat (offset f), presence f)) (md_fields d) = [(24, -17), (24, -17), (12, 64)] \<and>
     layout_ok kUpb_MiniTablePlatform_64Bit (unat (md_size d)) (md_fields d)"
proof -
  let ?r = "upb_MiniTable_BuildWithBuf oneof_descriptor kUpb_MiniTablePlatform_64Bit (\<lambda>_. True) 0"
  have "case ?r of Inr (Some d) \<Rightarrow> map (\<lambda>f. (unat (offset f), presence f)) (md_fields d) = [(24, -17), (24, -17), (12, 64)] | _ \<Rightarrow> False"
    by code_simp
  then obtain d where d: "?r = Inr (Some d)"
    "map (\<lambda>f. (unat (offset f), presence f)) (md_fields d) = [(24, -17), (24, -17), (12, 64)]"
    by (auto split: sum.splits option.splits)
  moreover have "length (md_fields d) = 3" using arg_cong[OF d(2), of length] by simp
  ultimately show ?thesis using MiniTable_layout_ok[OF d(1)] by auto
qed





end
