(* ===== verification/Mini_Numbers.thy ===== *)
theory Mini_Numbers
  imports Mini_Build
begin

text \<open>
  The dense prefix of a built table: the first \<open>dense_below\<close> fields have the numbers 1, 2, 3, \<dots>, as the lookup by
  number assumes.
\<close>

definition dense_fields :: "upb_MiniTableField list \<Rightarrow> nat \<Rightarrow> bool" where
  "dense_fields fs n \<longleftrightarrow> n \<le> length fs \<and> (\<forall>i < n. number (fs ! i) = of_nat (i + 1))"

definition counted_fields :: "upb_MtDecoder \<Rightarrow> bool" where
  "counted_fields d \<longleftrightarrow> md_field_count d = of_nat (length (md_fields d))"

definition dense_inv :: "upb_MtDecoder \<Rightarrow> md_parse \<Rightarrow> bool" where
  "dense_inv d p \<longleftrightarrow> counted_fields d \<and>
     (if mp_need_dense_below p
      then mp_last_field_number p = of_nat (length (md_fields d)) \<and> dense_fields (md_fields d) (length (md_fields d))
      else dense_fields (md_fields d) (unat (md_dense_below d)))"

lemma dense_fields_le: "dense_fields fs n \<Longrightarrow> m \<le> n \<Longrightarrow> dense_fields fs m"
  by (auto simp: dense_fields_def)

lemma dense_fields_numbers: "map number fs' = map number fs \<Longrightarrow> dense_fields fs' n = dense_fields fs n"
  unfolding dense_fields_def by (metis length_map nth_map order_less_le_trans)

lemma dense_fields_append: "dense_fields fs n \<Longrightarrow> dense_fields (fs @ [f]) n"
  by (auto simp: dense_fields_def nth_append)

lemma dense_fields_grow: "dense_fields fs (length fs) \<Longrightarrow> number f = of_nat (length fs + 1) \<Longrightarrow> dense_fields (fs @ [f]) (length fs + 1)"
  by (auto simp: dense_fields_def nth_append less_Suc_eq)

lemma counted_dense_le: "counted_fields d \<Longrightarrow> unat (ucast (md_field_count d) :: byte) \<le> length (md_fields d)"
  by (simp add: counted_fields_def unsigned_ucast_eq unat_of_nat) (meson mod_less_eq_dividend order_trans take_bit_nat_less_eq_self)

subsection \<open>Steps that keep the numbers\<close>

definition same_numbers :: "upb_MtDecoder \<Rightarrow> upb_MtDecoder \<Rightarrow> bool" where
  "same_numbers d d' \<longleftrightarrow> map number (md_fields d') = map number (md_fields d) \<and> md_field_count d' = md_field_count d \<and>
     md_dense_below d' = md_dense_below d"

lemma same_numbers_refl [simp]: "same_numbers d d"
  by (simp add: same_numbers_def)

lemma same_numbers_trans [trans]: "same_numbers a b \<Longrightarrow> same_numbers b c \<Longrightarrow> same_numbers a c"
  by (simp add: same_numbers_def)

lemma same_numbers_counted:
  assumes "same_numbers d d'"
  shows "counted_fields d' = counted_fields d" "dense_fields (md_fields d') n = dense_fields (md_fields d) n"
proof -
  have "length (md_fields d') = length (md_fields d)" using assms unfolding same_numbers_def by (metis length_map)
  then show "counted_fields d' = counted_fields d" using assms by (simp add: same_numbers_def counted_fields_def)
  show "dense_fields (md_fields d') n = dense_fields (md_fields d) n"
    using assms by (intro dense_fields_numbers) (simp add: same_numbers_def)
qed

lemma same_numbers_set: "the_field d i = Inr f \<Longrightarrow> number f' = number f \<Longrightarrow> same_numbers d (set_field d i f')"
  by (auto simp: same_numbers_def set_field_def the_field_def map_update list_update_same_conv split: if_splits)

lemma ModifyField_number: "upb_MtDecoder_ModifyField m f = Inr f' \<Longrightarrow> number f' = number f"
  by (auto simp: upb_MtDecoder_ModifyField_def flip_packed_def flip_validate_utf8_def modify_presence_def bindE_eq_Inr Let_def split: if_splits)

lemma ParseModifier_numbers:
  assumes "upb_MtDecoder_ParseModifier d ptr ch l m = Inr (d', rest, m')"
  shows "same_numbers d d'"
  using assms by (cases l) (auto simp: upb_MtDecoder_ParseModifier_def bindE_eq_Inr intro: same_numbers_set dest: ModifyField_number split: if_splits)

lemma DecodeOneofField_numbers: "upb_MtDecoder_DecodeOneofField d ptr ch item = Inr (d', rest, item') \<Longrightarrow> same_numbers d d'"
  by (auto simp: upb_MtDecoder_DecodeOneofField_def bindE_eq_Inr intro!: same_numbers_set split: option.splits if_splits)

lemma PushOneof_numbers: "upb_MtDecoder_PushOneof d item = Inr d' \<Longrightarrow> same_numbers d d'"
  by (auto simp: upb_MtDecoder_PushOneof_def grow_oneofs_def same_numbers_def Let_def bindE_eq_Inr split: if_splits)

lemma decode_oneofs_numbers: "decode_oneofs_loop d item ptr = Inr (d', item') \<Longrightarrow> same_numbers d d'"
  by (induction d item ptr rule: decode_oneofs_loop.induct)
    (auto simp: bindE_eq_Inr split: if_splits
      intro: same_numbers_trans[OF DecodeOneofField_numbers] same_numbers_trans[OF PushOneof_numbers])

lemma DecodeOneofs_numbers: "upb_MtDecoder_DecodeOneofs d ptr = Inr d' \<Longrightarrow> same_numbers d d'"
  by (auto simp: upb_MtDecoder_DecodeOneofs_def bindE_eq_Inr dest!: decode_oneofs_numbers PushOneof_numbers intro: same_numbers_trans)

subsection \<open>The parser\<close>

lemma SetTypeAndSub_number: "upb_MiniTable_SetTypeAndSub n f t m e = Inr (f', ofs, n') \<Longrightarrow> number f' = number f"
  by (auto simp: upb_MiniTable_SetTypeAndSub_def bindE_eq_Inr Let_def split: if_splits)

lemma SetField_number: "upb_MiniTable_SetField p n ch f0 m = Inr (f, ofs, n') \<Longrightarrow> number f = number f0"
  by (auto dest!: SetField_shape SetTypeAndSub_number)

lemma dense_inv_same:
  assumes "same_numbers d d'" "dense_inv d p" "mp_need_dense_below p' = mp_need_dense_below p" "mp_last_field_number p' = mp_last_field_number p"
  shows "dense_inv d' p'"
proof -
  have "length (md_fields d') = length (md_fields d)" "md_dense_below d' = md_dense_below d"
    using assms(1) unfolding same_numbers_def by (metis length_map)+
  then show ?thesis using assms(2-4) same_numbers_counted[OF assms(1)] by (simp add: dense_inv_def)
qed

lemma parse_field_dense:
  assumes "parse_field d p ch = Inr (d', p')" "dense_inv d p"
  shows "dense_inv d' p'"
proof -
  obtain f ofs sc where st: "upb_MiniTable_SetField (md_platform d) (md_sub_count d) ch (new_field (mp_last_field_number p + 1)) (mp_msg_modifiers p) =
      Inr (f, ofs, sc)"
    and d': "d' = d\<lparr>md_fields := md_fields d @ [f], md_submsg_ofs := md_submsg_ofs d @ [ofs], md_sub_count := sc, md_field_count := md_field_count d + 1\<rparr>"
    and p': "p' = p\<lparr>mp_last_field_number := mp_last_field_number p + 1, mp_last_field := Some (length (md_fields d))\<rparr>"
    using assms by (auto simp: parse_field_def bindE_eq_Inr Let_def split: if_splits)
  have "number f = mp_last_field_number p + 1" using SetField_number[OF st] by (simp add: new_field_def)
  then show ?thesis
    using assms(2) dense_fields_grow[of "md_fields d" f] dense_fields_append[of "md_fields d" _ f]
    by (auto simp: dense_inv_def counted_fields_def d' p' add.commute)
qed

interpretation dense: parse_invariant dense_inv dense_inv
proof unfold_locales
  fix d p ptr ch d' rest m
  assume a: "dense_inv d p" "upb_MtDecoder_ParseModifier d ptr ch (mp_last_field p) (mp_msg_modifiers p) = Inr (d', rest, m)"
  have "same_numbers d (if m AND 4 \<noteq> 0 then d'\<lparr>md_ext := md_ext d' OR 1\<rparr> else d')"
    using ParseModifier_numbers[OF a(2)] by (simp add: same_numbers_def)
  from dense_inv_same[OF this a(1)]
  show "dense_inv (if m AND 4 \<noteq> 0 then d'\<lparr>md_ext := md_ext d' OR 1\<rparr> else d') (p\<lparr>mp_msg_modifiers := m\<rparr>)" by simp
next
  fix d p and s :: u32
  assume "dense_inv d p"
  then show "dense_inv (if mp_need_dense_below p then d\<lparr>md_dense_below := ucast (md_field_count d)\<rparr> else d)
      (p\<lparr>mp_need_dense_below := False, mp_last_field_number := mp_last_field_number p + s - 1\<rparr>)"
    using counted_dense_le[of d] by (auto simp: dense_inv_def counted_fields_def intro: dense_fields_le)
qed (auto intro: parse_field_dense dense_inv_same DecodeOneofs_numbers)

text \<open>A parsed or built table: the fields are counted and the dense prefix is dense.\<close>

definition dense_table :: "upb_MtDecoder \<Rightarrow> bool" where
  "dense_table d \<longleftrightarrow> counted_fields d \<and> dense_fields (md_fields d) (unat (md_dense_below d))"

lemma dense_table_same: "same_numbers d d' \<Longrightarrow> dense_table d' = dense_table d"
  by (simp add: dense_table_def same_numbers_counted) (simp add: same_numbers_def)

lemma Parse_dense:
  assumes "upb_MtDecoder_Parse d data = Inr (d', rest)" "md_fields d = []" "md_field_count d = 0" "\<not> md_is_extension d"
  shows "dense_table d'"
proof -
  let ?p = "\<lparr>mp_msg_modifiers = 0, mp_last_field_number = 0, mp_last_field = None, mp_need_dense_below = (\<not> md_is_extension d)\<rparr>"
  obtain d1 p where st: "parse_loop d ?p data = Inr (d1, p, rest)"
    "d' = (if mp_need_dense_below p then d1\<lparr>md_dense_below := ucast (md_field_count d1)\<rparr> else d1)"
    using assms(1) unfolding upb_MtDecoder_Parse_def
    by (auto simp only: bindE_eq_Inr split_paired_Ex prod.case sum.inject prod.inject)
  have "dense_inv d ?p" using assms(2-4) by (simp add: dense_inv_def counted_fields_def dense_fields_def)
  from dense.loop_invariant[OF st(1) this] show ?thesis
    using st(2) counted_dense_le[of d1]
    by (auto simp: dense_table_def dense_inv_def counted_fields_def intro: dense_fields_le split: if_splits)
qed

lemma ParseMessage_dense:
  assumes "upb_MtDecoder_ParseMessage d data = Inr d'" "\<not> md_is_extension d"
  shows "dense_table d'"
proof -
  let ?d = "d\<lparr>md_arena := \<lambda>n. md_arena d (Suc n), md_field_count := 0, md_fields := [], md_submsg_ofs := []\<rparr>"
  obtain d1 rest ss where st: "upb_MtDecoder_Parse ?d data = Inr (d1, rest)" "d' = d1\<lparr>md_submsg_ofs := ss\<rparr>"
    using assms(1) by (auto simp: upb_MtDecoder_ParseMessage_def upb_MtDecoder_AllocateSubs_def Let_def bindE_eq_Inr split: if_splits)
  then show ?thesis using Parse_dense[OF st(1)] assms(2) by (simp add: dense_table_def counted_fields_def)
qed

subsection \<open>The layout passes\<close>

lemma assign_bits_numbers:
  "(\<And>f. number (Q f) = number f) \<Longrightarrow> assign_bits P Q h fs = (h', fs') \<Longrightarrow> map number fs' = map number fs"
  by (induction fs arbitrary: h h' fs') (auto simp: Let_def split: if_splits prod.splits)

lemma AssignHasbits_numbers:
  assumes "upb_MtDecoder_AssignHasbits d = Inr d'"
  shows "same_numbers d d'"
proof -
  let ?n = "unat (md_field_count d)"
  obtain h1 fs1 h2 fs2 where a: "assign_required (kUpb_Reserved_Hasbits - 1) (take ?n (md_fields d)) = (h1, fs1)"
    "assign_optional h1 fs1 = (h2, fs2)" by fastforce
  have "map number fs1 = map number (take ?n (md_fields d))"
    using a(1) unfolding assign_required_eq by (intro assign_bits_numbers[of clear_presence]) (auto simp: clear_presence_def)
  moreover have "map number fs2 = map number fs1"
    using a(2) unfolding assign_optional_eq by (intro assign_bits_numbers[of id]) auto
  ultimately have "map number (fs2 @ drop ?n (md_fields d)) = map number (md_fields d)"
    by simp (metis append_take_drop_id map_append)
  then show ?thesis using assms a by (auto simp: upb_MtDecoder_AssignHasbits_def same_numbers_def Let_def bindE_eq_Inr split: if_splits)
qed

lemma place_fields_numbers: "place_fields p fs c = (fs', c') \<Longrightarrow> map number fs' = map number fs"
  by (induction fs arbitrary: c fs' c') (auto simp: Let_def split: if_splits prod.splits)

lemma place_members_numbers: "place_members fl d i c ofs = Inr d' \<Longrightarrow> same_numbers d d'"
proof (induction fl arbitrary: d i)
  case (Suc fl)
  then obtain f where f: "the_field d i = Inr f" by (auto simp: bindE_eq_Inr)
  let ?d = "set_field d i (f\<lparr>presence := sint (NOT c), offset := ofs\<rparr>)"
  have "same_numbers d ?d" using f by (intro same_numbers_set) auto
  moreover have "d' = ?d \<or> (\<exists>j. place_members fl ?d j c ofs = Inr d')"
    using Suc.prems f by (auto simp: bindE_eq_Inr Let_def split: if_splits)
  ultimately show ?case using Suc.IH same_numbers_trans by blast
qed simp

lemma place_oneofs_numbers: "place_oneofs items d = Inr d' \<Longrightarrow> same_numbers d d'"
proof (induction items arbitrary: d)
  case (Cons it items)
  then obtain counts d1 i c ofs where st: "place_members (length (md_fields d)) (d\<lparr>md_counts := counts\<rparr>) i c ofs = Inr d1"
    "place_oneofs items d1 = Inr d'" by (auto simp: Let_def bindE_eq_Inr split: prod.splits)
  moreover have "same_numbers d (d\<lparr>md_counts := counts\<rparr>)" by (simp add: same_numbers_def)
  ultimately show ?case using Cons.IH place_members_numbers same_numbers_trans by blast
qed simp

lemma assign_layout_numbers:
  assumes "assign_layout d = Inr d'"
  shows "same_numbers d d'"
proof -
  obtain d1 d2 where st: "upb_MtDecoder_AssignHasbits d = Inr d1" "upb_MtDecoder_CalculateAlignments d1 = Inr d2"
    "upb_MtDecoder_AssignOffsets d2 = Inr d'" using assms by (auto simp: assign_layout_def bindE_eq_Inr)
  have "same_numbers d1 d2" using st(2) by (auto simp: upb_MtDecoder_CalculateAlignments_def Let_def same_numbers_def split: prod.splits if_splits)
  moreover have "same_numbers d2 d'"
  proof -
    let ?n = "unat (md_field_count d2)"
    obtain fs counts where pf: "place_fields (md_platform d2) (take ?n (md_fields d2)) (md_counts d2) = (fs, counts)" by fastforce
    let ?d = "d2\<lparr>md_fields := fs @ drop ?n (md_fields d2), md_counts := counts\<rparr>"
    obtain d3 where d3: "place_oneofs (md_oneofs d2) ?d = Inr d3" "d' = d3\<lparr>md_size := of_nat (align_up (unat (md_size d3)) 8)\<rparr>"
      using st(3) pf by (auto simp: upb_MtDecoder_AssignOffsets_def Let_def bindE_eq_Inr)
    have "map number (fs @ drop ?n (md_fields d2)) = map number (md_fields d2)"
      using place_fields_numbers[OF pf] by simp (metis append_take_drop_id map_append)
    then have "same_numbers d2 ?d" by (simp add: same_numbers_def)
    also have "same_numbers ?d d3" by (rule place_oneofs_numbers[OF d3(1)])
    also have "same_numbers d3 d'" using d3(2) by (simp add: same_numbers_def)
    finally show ?thesis .
  qed
  ultimately show ?thesis using AssignHasbits_numbers[OF st(1)] same_numbers_trans by blast
qed

lemma ParseMap_dense:
  assumes "upb_MtDecoder_ParseMap d data = Inr d'" "\<not> md_is_extension d"
  shows "dense_table d'"
proof -
  obtain d1 d2 k v where st: "upb_MtDecoder_ParseMessage d data = Inr d1" "upb_MtDecoder_AssignHasbits d1 = Inr d2"
    "the_field d2 0 = Inr k" "the_field d2 1 = Inr v"
    and d': "d' = (set_field (set_field d2 0 (k\<lparr>offset := 16\<rparr>)) 1 (v\<lparr>offset := 32\<rparr>))\<lparr>md_size := 48, md_ext := md_ext d2 OR 4\<rparr>"
    using assms(1) by (auto simp: upb_MtDecoder_ParseMap_def Let_def bindE_eq_Inr set_field_def split: if_splits)
  have "the_field (set_field d2 0 (k\<lparr>offset := 16\<rparr>)) 1 = Inr v" using st(4) by (simp add: the_field_def set_field_def split: if_splits)
  then have "same_numbers (set_field d2 0 (k\<lparr>offset := 16\<rparr>)) d'" using same_numbers_set by (fastforce simp: d' same_numbers_def)
  moreover have "same_numbers d2 (set_field d2 0 (k\<lparr>offset := 16\<rparr>))" using st(3) by (intro same_numbers_set) auto
  ultimately have "same_numbers d1 d'" using AssignHasbits_numbers[OF st(2)] same_numbers_trans by blast
  then show ?thesis using ParseMessage_dense[OF st(1) assms(2)] dense_table_same by blast
qed

lemma BuildWithBuf_dense:
  assumes "upb_MiniTable_BuildWithBuf data p a n = Inr (Some d)"
  shows "dense_table d"
proof -
  have "md_fields (md_init p n a False) = []" "\<not> md_is_extension (md_init p n a False)" by (simp_all add: md_init_def)
  note init = this
  from BuildWithBuf_DoBuild[OF assms] init(1) show ?thesis
  proof (cases rule: DoBuild_cases)
    case map_entry
    then show ?thesis using ParseMap_dense init(2) by simp
  next
    case (message ps d1)
    then show ?thesis using ParseMessage_dense[OF message(1)] assign_layout_numbers[OF message(2)] dense_table_same init(2) by simp
  next
    case no_fields
    then show ?thesis by (simp add: dense_table_def counted_fields_def dense_fields_def)
  qed
qed

end
