(* ===== verification/Mini_Link.thy ===== *)
theory Mini_Link
  imports Mini_Numbers Message_Map
begin

text \<open>
  Linking a table to the tables and enums its fields refer to: \<open>mini_descriptor/link.c\<close>. A sub-table is given by
  its index among all tables with its extension bits, from which a map entry is known; \<open>NULL\<close> is \<open>None\<close>. The
  arrays of \<open>upb_MiniTable_Link\<close> are as long as the counts that come with them. The result of a linker that
  returns a \<open>bool\<close> has the table, which it changes even if it fails later.
\<close>

subsection \<open>Operations\<close>

definition upb_FieldType_CType :: "upb_FieldType \<Rightarrow> upb_CType res" where
  "upb_FieldType_CType t =
     (case t of
        kUpb_FieldType_Double \<Rightarrow> Inr CType_Double | kUpb_FieldType_Float \<Rightarrow> Inr CType_Float
      | kUpb_FieldType_Int64 \<Rightarrow> Inr CType_Int64 | kUpb_FieldType_UInt64 \<Rightarrow> Inr CType_UInt64
      | kUpb_FieldType_Int32 \<Rightarrow> Inr CType_Int32 | kUpb_FieldType_Fixed64 \<Rightarrow> Inr CType_UInt64
      | kUpb_FieldType_Fixed32 \<Rightarrow> Inr CType_UInt32 | kUpb_FieldType_Bool \<Rightarrow> Inr CType_Bool
      | kUpb_FieldType_String \<Rightarrow> Inr CType_String | kUpb_FieldType_Group \<Rightarrow> Inr CType_Message
      | kUpb_FieldType_Message \<Rightarrow> Inr CType_Message | kUpb_FieldType_Bytes \<Rightarrow> Inr CType_Bytes
      | kUpb_FieldType_UInt32 \<Rightarrow> Inr CType_UInt32 | kUpb_FieldType_Enum \<Rightarrow> Inr CType_Enum
      | kUpb_FieldType_SFixed32 \<Rightarrow> Inr CType_Int32 | kUpb_FieldType_SFixed64 \<Rightarrow> Inr CType_Int64
      | kUpb_FieldType_SInt32 \<Rightarrow> Inr CType_Int32 | kUpb_FieldType_SInt64 \<Rightarrow> Inr CType_Int64
      | _ \<Rightarrow> Inl OutOfBounds)"

definition upb_MiniTableField_CType :: "upb_MiniTableField \<Rightarrow> upb_CType res" where
  "upb_MiniTableField_CType f = bindE (upb_MiniTableField_Type f) upb_FieldType_CType"

definition upb_MiniTable_SetSubMessage :: "upb_MtDecoder \<Rightarrow> nat \<Rightarrow> nat \<times> byte \<Rightarrow> (bool \<times> upb_MtDecoder) res" where
  "upb_MiniTable_SetSubMessage table i sub =
     bindE (assertE (i < unat (md_field_count table))) (\<lambda>_.
     bindE (the_field table i) (\<lambda>field.
       let sub_is_map = snd sub AND 4 \<noteq> 0;
           store = (\<lambda>field. Inr (True, set_field table i (field\<lparr>submsg := SubMsg (Some (fst sub))\<rparr>)))
       in if descriptortype field = kUpb_FieldType_Message then
            if sub_is_map then
              if md_ext table AND 4 \<noteq> 0 then Inr (False, table)
              else store (field\<lparr>mode := mode field AND NOT 3\<rparr>)
            else store field
          else if descriptortype field = kUpb_FieldType_Group then
            if sub_is_map then Inr (False, table) else store field
          else Inr (False, table)))"

definition upb_MiniTable_SetSubEnum :: "upb_MtDecoder \<Rightarrow> nat \<Rightarrow> upb_MiniTableEnum \<Rightarrow> (bool \<times> upb_MtDecoder) res" where
  "upb_MiniTable_SetSubEnum table i sub =
     bindE (assertE (i < unat (md_field_count table))) (\<lambda>_.
     bindE (the_field table i) (\<lambda>field.
       if descriptortype field \<noteq> kUpb_FieldType_Enum then Inr (False, table)
       else
         bindE (if md_ext table AND 4 \<noteq> 0 then upb_MiniTableEnum_CheckValue sub 0 else Inr True) (\<lambda>ok.
           if ok then Inr (True, set_field table i (field\<lparr>submsg := SubEnum sub\<rparr>)) else Inr (False, table))))"

text \<open>The fields, by index, that want a sub-table and those that want an enum.\<close>

fun sub_messages :: "nat \<Rightarrow> upb_MiniTableField list \<Rightarrow> nat list res" where
  "sub_messages i [] = Inr []"
| "sub_messages i (f # fs) =
     bindE (upb_MiniTableField_CType f) (\<lambda>t.
     bindE (sub_messages (i + 1) fs) (\<lambda>subs. Inr (if t = CType_Message then i # subs else subs)))"

fun sub_enums :: "nat \<Rightarrow> upb_MiniTableField list \<Rightarrow> nat list" where
  "sub_enums i [] = []"
| "sub_enums i (f # fs) = (if upb_MiniTableField_IsClosedEnum f then i # sub_enums (i + 1) fs else sub_enums (i + 1) fs)"

definition upb_MiniTable_GetSubList :: "upb_MtDecoder \<Rightarrow> (nat list \<times> u32) res" where
  "upb_MiniTable_GetSubList m =
     (let fs = take (unat (md_field_count m)) (md_fields m)
      in bindE (sub_messages 0 fs) (\<lambda>msgs.
           let enums = sub_enums 0 fs
           in Inr (msgs @ enums, push_bit 16 (of_nat (length msgs)) OR of_nat (length enums))))"

text \<open>An element is read before the count is compared.\<close>

definition sub_at :: "'a list \<Rightarrow> nat \<Rightarrow> 'a res" where
  "sub_at subs i = (if i < length subs then Inr (subs ! i) else Inl OutOfBounds)"

fun link_messages :: "nat list \<Rightarrow> (nat \<times> byte) option list \<Rightarrow> nat \<Rightarrow> upb_MtDecoder \<Rightarrow> (bool \<times> nat \<times> upb_MtDecoder) res" where
  "link_messages [] sub_tables msg_count m = Inr (True, msg_count, m)"
| "link_messages (i # is) sub_tables msg_count m =
     bindE (the_field m i) (\<lambda>f.
     bindE (upb_MiniTableField_CType f) (\<lambda>t.
       if t = CType_Message then
         bindE (sub_at sub_tables msg_count) (\<lambda>sub.
           if msg_count + 1 > length sub_tables then Inr (False, msg_count + 1, m)
           else
             bindE (case sub of None \<Rightarrow> Inr (True, m) | Some s \<Rightarrow> upb_MiniTable_SetSubMessage m i s) (\<lambda>(ok, m).
               if ok then link_messages is sub_tables (msg_count + 1) m else Inr (False, msg_count + 1, m)))
       else link_messages is sub_tables msg_count m))"

fun link_enums :: "nat list \<Rightarrow> upb_MiniTableEnum option list \<Rightarrow> nat \<Rightarrow> upb_MtDecoder \<Rightarrow> (bool \<times> nat \<times> upb_MtDecoder) res" where
  "link_enums [] subs enum_count m = Inr (True, enum_count, m)"
| "link_enums (i # is) subs enum_count m =
     bindE (the_field m i) (\<lambda>f.
       if upb_MiniTableField_IsClosedEnum f then
         bindE (sub_at subs enum_count) (\<lambda>sub.
           if enum_count + 1 > length subs then Inr (False, enum_count + 1, m)
           else
             bindE (case sub of None \<Rightarrow> Inr (True, m) | Some s \<Rightarrow> upb_MiniTable_SetSubEnum m i s) (\<lambda>(ok, m).
               if ok then link_enums is subs (enum_count + 1) m else Inr (False, enum_count + 1, m)))
       else link_enums is subs enum_count m)"

definition upb_MiniTable_Link ::
    "upb_MtDecoder \<Rightarrow> (nat \<times> byte) option list \<Rightarrow> upb_MiniTableEnum option list \<Rightarrow> (bool \<times> upb_MtDecoder) res" where
  "upb_MiniTable_Link m sub_tables subs =
     (let is = [0 ..< unat (md_field_count m)]
      in bindE (link_messages is sub_tables 0 m) (\<lambda>(ok, msg_count, m).
           if \<not> ok then Inr (False, m)
           else
             bindE (link_enums is subs 0 m) (\<lambda>(ok, enum_count, m).
               if \<not> ok then Inr (False, m)
               else Inr (msg_count = length sub_tables \<and> enum_count = length subs, m))))"

subsection \<open>What linking does to a field\<close>

definition sub_linked :: "nat \<times> byte \<Rightarrow> upb_MiniTableField \<Rightarrow> upb_MiniTableField \<Rightarrow> bool" where
  "sub_linked s f f' \<longleftrightarrow> (snd s AND 4 \<noteq> 0 \<longrightarrow> descriptortype f = kUpb_FieldType_Message) \<and>
     f' = (if snd s AND 4 \<noteq> 0 then f\<lparr>mode := mode f AND NOT 3\<rparr> else f)\<lparr>submsg := SubMsg (Some (fst s))\<rparr>"

lemma SetSubMessage_ok:
  assumes "upb_MiniTable_SetSubMessage m i s = Inr (True, m')"
  shows "\<exists>f'. i < length (md_fields m) \<and> m' = set_field m i f' \<and> sub_linked s (md_fields m ! i) f'"
  using assms by (auto simp: upb_MiniTable_SetSubMessage_def bindE_eq_Inr Let_def the_field_def sub_linked_def split: if_splits)

lemma SetSubEnum_ok:
  assumes "upb_MiniTable_SetSubEnum m i e = Inr (True, m')"
  shows "i < length (md_fields m) \<and> m' = set_field m i ((md_fields m ! i)\<lparr>submsg := SubEnum e\<rparr>)"
  using assms by (auto simp: upb_MiniTable_SetSubEnum_def bindE_eq_Inr Let_def the_field_def split: if_splits)

lemma CType_Message_iff: "upb_MiniTableField_CType f = Inr t \<Longrightarrow> t = CType_Message \<longleftrightarrow> upb_MiniTableField_IsSubMessage f"
  by (auto simp: upb_MiniTableField_CType_def upb_MiniTableField_Type_def upb_FieldType_CType_def upb_MiniTableField_IsSubMessage_def bindE_eq_Inr
      split: if_splits upb_FieldType.splits)

text \<open>A linker changes each field of its list that wants a sub, in the given way, and nothing else.\<close>

definition linked_fields ::
    "(upb_MiniTableField \<Rightarrow> bool) \<Rightarrow> (upb_MiniTableField \<Rightarrow> upb_MiniTableField \<Rightarrow> bool) \<Rightarrow> nat list \<Rightarrow> upb_MtDecoder \<Rightarrow> upb_MtDecoder \<Rightarrow> bool" where
  "linked_fields wants R is m m' \<longleftrightarrow> (\<exists>F. m' = m\<lparr>md_fields := F\<rparr> \<and> length F = length (md_fields m) \<and>
     (\<forall>i < length F. if i \<in> set is \<and> wants (md_fields m ! i) then R (md_fields m ! i) (F ! i) else F ! i = md_fields m ! i))"

lemma linked_fields_Nil: "linked_fields wants R [] m m"
  unfolding linked_fields_def by (intro exI[of _ "md_fields m"]) simp

lemma linked_fields_skip:
  assumes "linked_fields wants R is m m'" "\<not> wants (md_fields m ! i)"
  shows "linked_fields wants R (i # is) m m'"
proof -
  obtain F where F: "m' = m\<lparr>md_fields := F\<rparr>" "length F = length (md_fields m)"
    "\<forall>k < length F. if k \<in> set is \<and> wants (md_fields m ! k) then R (md_fields m ! k) (F ! k) else F ! k = md_fields m ! k"
    using assms(1) unfolding linked_fields_def by blast
  then show ?thesis unfolding linked_fields_def using assms(2) by (intro exI[of _ F]) auto
qed

lemma linked_fields_step:
  assumes "linked_fields wants R is (set_field m i f') m'" "i < length (md_fields m)" "i \<notin> set is" "wants (md_fields m ! i)" "R (md_fields m ! i) f'"
  shows "linked_fields wants R (i # is) m m'"
proof -
  obtain F where F: "m' = m\<lparr>md_fields := F\<rparr>" "length F = length (md_fields m)"
    "\<forall>k < length F. if k \<in> set is \<and> wants ((md_fields m)[i := f'] ! k) then R ((md_fields m)[i := f'] ! k) (F ! k)
       else F ! k = (md_fields m)[i := f'] ! k"
    using assms(1) unfolding linked_fields_def by (auto simp: set_field_def cong: if_cong)
  have "if k \<in> set (i # is) \<and> wants (md_fields m ! k) then R (md_fields m ! k) (F ! k) else F ! k = md_fields m ! k" if "k < length F" for k
    using F(3) that assms(2-5) F(2) by (cases "k = i") auto
  then show ?thesis unfolding linked_fields_def using F(1,2) by (intro exI[of _ F]) simp
qed

lemma link_messages_ok:
  assumes "link_messages is (map Some subs) c m = Inr (True, c', m')" "distinct is"
  shows "linked_fields upb_MiniTableField_IsSubMessage (\<lambda>f f'. \<exists>s \<in> set subs. sub_linked s f f') is m m'"
  using assms
proof (induction "is" arbitrary: c m)
  case (Cons i "is")
  obtain f t where f: "the_field m i = Inr f" "upb_MiniTableField_CType f = Inr t" using Cons.prems(1) by (auto simp: bindE_eq_Inr)
  then have fi: "i < length (md_fields m)" "f = md_fields m ! i" by (auto simp: the_field_def split: if_splits)
  show ?case
  proof (cases "t = CType_Message")
    case True
    then obtain m1 where s: "c < length subs" "upb_MiniTable_SetSubMessage m i (subs ! c) = Inr (True, m1)"
      "link_messages is (map Some subs) (c + 1) m1 = Inr (True, c', m')"
      using Cons.prems(1) f by (auto simp: bindE_eq_Inr sub_at_def split: if_splits option.splits)
    obtain f' where f': "m1 = set_field m i f'" "sub_linked (subs ! c) (md_fields m ! i) f'" using SetSubMessage_ok[OF s(2)] by blast
    have "linked_fields upb_MiniTableField_IsSubMessage (\<lambda>f f'. \<exists>s \<in> set subs. sub_linked s f f') is m1 m'"
      using Cons.IH[OF s(3)] Cons.prems(2) by simp
    then show ?thesis
      unfolding f'(1) using fi CType_Message_iff[OF f(2)] True Cons.prems(2) nth_mem[OF s(1)] f'(2) by (intro linked_fields_step) auto
  next
    case False
    then have "link_messages is (map Some subs) c m = Inr (True, c', m')" using Cons.prems(1) f by (simp add: bindE_eq_Inr)
    then show ?thesis using Cons.IH Cons.prems(2) False CType_Message_iff[OF f(2)] fi by (intro linked_fields_skip) auto
  qed
qed (auto intro: linked_fields_Nil)

lemma link_enums_ok:
  assumes "link_enums is (map Some subs) c m = Inr (True, c', m')" "distinct is"
  shows "linked_fields upb_MiniTableField_IsClosedEnum (\<lambda>f f'. \<exists>e \<in> set subs. f' = f\<lparr>submsg := SubEnum e\<rparr>) is m m'"
  using assms
proof (induction "is" arbitrary: c m)
  case (Cons i "is")
  obtain f where f: "the_field m i = Inr f" using Cons.prems(1) by (auto simp: bindE_eq_Inr)
  then have fi: "i < length (md_fields m)" "f = md_fields m ! i" by (auto simp: the_field_def split: if_splits)
  show ?case
  proof (cases "upb_MiniTableField_IsClosedEnum f")
    case True
    then obtain m1 where e: "c < length subs" "upb_MiniTable_SetSubEnum m i (subs ! c) = Inr (True, m1)"
      "link_enums is (map Some subs) (c + 1) m1 = Inr (True, c', m')"
      using Cons.prems(1) f by (auto simp: bindE_eq_Inr sub_at_def split: if_splits option.splits)
    have "linked_fields upb_MiniTableField_IsClosedEnum (\<lambda>f f'. \<exists>e \<in> set subs. f' = f\<lparr>submsg := SubEnum e\<rparr>) is m1 m'"
      using Cons.IH[OF e(3)] Cons.prems(2) by simp
    then show ?thesis using fi True Cons.prems(2) nth_mem[OF e(1)] SetSubEnum_ok[OF e(2)] by (intro linked_fields_step) auto
  next
    case False
    then have "link_enums is (map Some subs) c m = Inr (True, c', m')" using Cons.prems(1) f by (simp add: bindE_eq_Inr)
    then show ?thesis using Cons.IH Cons.prems(2) False fi by (intro linked_fields_skip) auto
  qed
qed (auto intro: linked_fields_Nil)

subsection \<open>Linked tables\<close>

lemma mode_map [simp]:
  fixes m :: byte
  shows "(m AND - 4) AND 3 = 0" "(m AND - 4) AND 8 = m AND 8" "(m AND - 4) AND 16 = m AND 16" "drop_bit 6 (m AND - 4) = drop_bit 6 m"
  by (simp_all add: and.assoc)

text \<open>What both linkers make of a table: \<open>F\<close> before, \<open>F'\<close> after.\<close>

definition fully_linked ::
    "(nat \<times> byte) set \<Rightarrow> upb_MiniTableEnum set \<Rightarrow> upb_MiniTableField \<Rightarrow> upb_MiniTableField \<Rightarrow> bool" where
  "fully_linked S E f f' \<longleftrightarrow>
     (if upb_MiniTableField_IsSubMessage f then \<exists>s \<in> S. sub_linked s f f'
      else if upb_MiniTableField_IsClosedEnum f then \<exists>e \<in> E. f' = f\<lparr>submsg := SubEnum e\<rparr> else f' = f)"

lemma Link_ok:
  assumes "upb_MiniTable_Link d (map Some subs) (map Some enums) = Inr (True, d')" "counted_fields d" "length (md_fields d) \<le> 600"
  shows "\<exists>F. d' = d\<lparr>md_fields := F\<rparr> \<and> list_all2 (fully_linked (set subs) (set enums)) (md_fields d) F"
proof -
  let ?n = "length (md_fields d)" and ?is = "[0 ..< length (md_fields d)]"
  have n: "unat (md_field_count d) = ?n" using assms(2,3) by (simp add: counted_fields_def unat_of_nat)
  obtain c1 d1 c2 where st: "link_messages ?is (map Some subs) 0 d = Inr (True, c1, d1)" "link_enums ?is (map Some enums) 0 d1 = Inr (True, c2, d')"
    using assms(1) n by (auto simp: upb_MiniTable_Link_def Let_def bindE_eq_Inr split: if_splits)
  obtain F1 where F1: "d1 = d\<lparr>md_fields := F1\<rparr>" "length F1 = ?n"
    "\<forall>i < ?n. if upb_MiniTableField_IsSubMessage (md_fields d ! i) then \<exists>s \<in> set subs. sub_linked s (md_fields d ! i) (F1 ! i) else F1 ! i = md_fields d ! i"
    using link_messages_ok[OF st(1)] unfolding linked_fields_def by (auto cong: if_cong)
  obtain F2 where F2: "d' = d\<lparr>md_fields := F2\<rparr>" "length F2 = ?n"
    "\<forall>i < ?n. if upb_MiniTableField_IsClosedEnum (F1 ! i) then \<exists>e \<in> set enums. F2 ! i = (F1 ! i)\<lparr>submsg := SubEnum e\<rparr> else F2 ! i = F1 ! i"
    using link_enums_ok[OF st(2)] F1(1,2) unfolding linked_fields_def by (auto cong: if_cong)
  have "fully_linked (set subs) (set enums) (md_fields d ! i) (F2 ! i)" if i: "i < ?n" for i
  proof (cases "upb_MiniTableField_IsSubMessage (md_fields d ! i)")
    case True
    then obtain s where s: "s \<in> set subs" "sub_linked s (md_fields d ! i) (F1 ! i)" using F1(3)[rule_format, OF i] by auto
    then have "\<not> upb_MiniTableField_IsClosedEnum (F1 ! i)"
      using True by (auto simp: sub_linked_def upb_MiniTableField_IsClosedEnum_def upb_MiniTableField_IsSubMessage_def)
    then show ?thesis using True s F2(3) that unfolding fully_linked_def by auto
  next
    case False
    then show ?thesis using F1(3) F2(3) that unfolding fully_linked_def by auto
  qed
  then show ?thesis using F2(1,2) by (intro exI[of _ F2]) (simp add: list_all2_conv_all_nth)
qed

lemma fully_linked_same: "fully_linked S E f f' \<Longrightarrow> number f' = number f \<and> offset f' = offset f \<and> presence f' = presence f \<and>
    descriptortype f' = descriptortype f"
  by (auto simp: fully_linked_def sub_linked_def split: if_splits)

lemma submsg_views [simp]:
  "upb_MiniTableField_Mode (f\<lparr>submsg := x\<rparr>) = upb_MiniTableField_Mode f"
  "upb_MiniTableField_GetRep (f\<lparr>submsg := x\<rparr>) = upb_MiniTableField_GetRep f" "rep_of (f\<lparr>submsg := x\<rparr>) = rep_of f"
  "upb_MiniTableField_IsScalar (f\<lparr>submsg := x\<rparr>) = upb_MiniTableField_IsScalar f"
  "upb_MiniTableField_IsMap (f\<lparr>submsg := x\<rparr>) = upb_MiniTableField_IsMap f"
  "upb_MiniTableField_IsExtension (f\<lparr>submsg := x\<rparr>) = upb_MiniTableField_IsExtension f"
  "upb_MiniTableField_IsAlternate (f\<lparr>submsg := x\<rparr>) = upb_MiniTableField_IsAlternate f"
  "upb_MiniTableField_IsSubMessage (f\<lparr>submsg := x\<rparr>) = upb_MiniTableField_IsSubMessage f"
  by (simp_all add: field_view_defs upb_MiniTableField_IsMap_def)

lemma map_mode_views:
  "upb_MiniTableField_Mode (f\<lparr>mode := mode f AND NOT 3\<rparr>) = Some kUpb_FieldMode_Map"
  "upb_MiniTableField_GetRep (f\<lparr>mode := mode f AND NOT 3\<rparr>) = upb_MiniTableField_GetRep f"
  "upb_MiniTableField_IsExtension (f\<lparr>mode := mode f AND NOT 3\<rparr>) = upb_MiniTableField_IsExtension f"
  "upb_MiniTableField_IsAlternate (f\<lparr>mode := mode f AND NOT 3\<rparr>) = upb_MiniTableField_IsAlternate f"
  "upb_MiniTableField_IsSubMessage (f\<lparr>mode := mode f AND NOT 3\<rparr>) = upb_MiniTableField_IsSubMessage f"
  by (simp_all add: field_view_defs)

lemma laid_outD:
  assumes "laid_out kUpb_MiniTablePlatform_64Bit f"
  shows "upb_MiniTableField_Mode f \<noteq> None" "\<not> upb_MiniTableField_IsMap f" "wire_class (descriptortype f) \<noteq> ClassNone"
    "upb_MiniTableField_GetRep f = rep_of f" "\<not> upb_MiniTableField_IsExtension f" "presence f < 0 \<Longrightarrow> upb_MiniTableField_IsScalar f"
    "upb_MiniTableField_IsAlternate f \<Longrightarrow> descriptortype f \<in> {kUpb_FieldType_Int32, kUpb_FieldType_Bytes}"
  using assms by (auto simp: laid_out_def field_typed_def upb_MiniTableField_IsScalar_def upb_MiniTableField_IsArray_def upb_MiniTableField_IsMap_def)

lemma fully_linked_ok:
  assumes fl: "fully_linked S E f f'" and lo: "laid_out kUpb_MiniTablePlatform_64Bit f"
    and S: "\<forall>s \<in> S. fst s < length tabs \<and> (snd s AND 4 \<noteq> 0 \<longrightarrow> map_entry_ok tabs (tabs ! fst s))" and E: "\<forall>e \<in> E. enum_wf e"
    and arr: "upb_MiniTableField_IsMap f' \<longrightarrow> upb_MiniTableField_IsArray f"
  shows "field_ok tabs f' \<and> \<not> upb_MiniTableField_IsExtension f' \<and> (upb_MiniTableField_IsSubMessage f' \<longrightarrow> submsg f' \<noteq> SubMsg None)"
proof -
  note l = laid_outD[OF lo]
  consider (map_field) s where "s \<in> S" "snd s AND 4 \<noteq> 0" "descriptortype f = kUpb_FieldType_Message"
      "f' = f\<lparr>mode := mode f AND NOT 3\<rparr>\<lparr>submsg := SubMsg (Some (fst s))\<rparr>"
    | (message) s where "s \<in> S" "upb_MiniTableField_IsSubMessage f" "f' = f\<lparr>submsg := SubMsg (Some (fst s))\<rparr>"
    | (enum) e where "e \<in> E" "descriptortype f = kUpb_FieldType_Enum" "f' = f\<lparr>submsg := SubEnum e\<rparr>"
    | (plain) "f' = f" "\<not> upb_MiniTableField_IsSubMessage f" "descriptortype f \<noteq> kUpb_FieldType_Enum"
    using fl by (auto simp: fully_linked_def sub_linked_def upb_MiniTableField_IsClosedEnum_def split: if_splits)
  then show ?thesis
  proof cases
    case map_field
    have m: "upb_MiniTableField_IsMap f'" "\<not> upb_MiniTableField_IsScalar f'"
      using map_mode_views[of f] by (simp_all add: map_field(4) upb_MiniTableField_IsMap_def upb_MiniTableField_IsScalar_def del: not_numeral_eq)
    then have a: "\<not> upb_MiniTableField_IsScalar f" using arr by (simp add: upb_MiniTableField_IsArray_def upb_MiniTableField_IsScalar_def)
    have "linked tabs f' = Some (tabs ! fst s)" using S map_field(1) by (simp add: map_field(4) linked_def)
    moreover have "\<not> presence f < 0" using l(6) a by blast
    moreover have "upb_MiniTableField_Mode f' \<noteq> None" "upb_MiniTableField_GetRep f' = kUpb_FieldRep_8Byte" "\<not> upb_MiniTableField_IsExtension f'"
      "\<not> upb_MiniTableField_IsAlternate f'" "presence f' = presence f" "descriptortype f' = kUpb_FieldType_Message" "submsg f' = SubMsg (Some (fst s))"
      using l a map_field(3) map_mode_views[of f] by (auto simp: map_field(4) rep_of_def simp del: not_numeral_eq)
    ultimately show ?thesis
      using l(3) m S map_field(1-3) by (auto simp: field_ok_def rep_of_def)
  next
    case message
    then show ?thesis using l S by (auto simp: field_ok_def upb_MiniTableField_IsSubMessage_def)
  next
    case enum
    then show ?thesis using l E by (auto simp: field_ok_def upb_MiniTableField_IsSubMessage_def)
  next
    case plain
    then show ?thesis using l by (auto simp: field_ok_def)
  qed
qed

lemma independent_offsets:
  assumes "independent p f g" "offset f = offset g"
  shows "presence f < 0 \<and> presence f = presence g"
  using assms rep_size_bounds(1)[OF field_rep_less[of f], of p] rep_size_bounds(1)[OF field_rep_less[of g], of p]
  by (auto simp: independent_def data_piece_def apart_def split: if_splits)

lemma linked_table_wf:
  assumes "dense_table d" "length (md_fields d) \<le> 600" "sorted_wrt (<) (map number (md_fields d))"
    and F: "map number F = map number (md_fields d)"
  shows "table_wf (md_table (d\<lparr>md_fields := F\<rparr>))" "mt_fields (md_table (d\<lparr>md_fields := F\<rparr>)) = F"
proof -
  have l: "length F = length (md_fields d)" using F by (metis length_map)
  then have "unat (md_field_count d) = length F" using assms(1,2) by (simp add: dense_table_def counted_fields_def unat_of_nat)
  then show mt: "mt_fields (md_table (d\<lparr>md_fields := F\<rparr>)) = F" by (simp add: md_table_def)
  have "dense_fields F (unat (md_dense_below d))" using assms(1) dense_fields_numbers[OF F] by (simp add: dense_table_def)
  then show "table_wf (md_table (d\<lparr>md_fields := F\<rparr>))"
    unfolding table_wf_def mt using assms(2,3) F l by (simp add: dense_fields_def md_table_def)
qed

subsection \<open>Properties\<close>



end
