(* ===== verification/Spec2Isabelle.thy ===== *)
theory Spec2Isabelle
  imports Utf8_Range Passthrough Ext_Table Int_Props Array_Correct Map_Correct Enum_Roundtrip Mini_Link
begin

text \<open>
  The PHP extension of this repository parses, holds and serialises protocol buffers with upb, a C
  library that the build concatenates into \<open>php-upb.c\<close>. This development models upb from its own
  sources, under \<open>src/src/upb\<close> and \<open>src/src/third_party/utf8_range\<close>, and proves what makes its core
  correct.

  \<^bold>\<open>The parts and how they work together.\<close> A message type is described by a mini table: its fields with
  their numbers, types, offsets and modes. The decoder reads tags and values from an input stream
  that may be patched near its end, looks the field up in the mini table, and stores the value in the
  message, in an array or in a map; what no field claims is kept as unknown bytes. The encoder walks the
  mini table backwards and writes the message into a buffer that it fills from its end. Strings are
  checked by the UTF-8 validator. Maps, extension registries and the definition pool are hash tables.

  \<^bold>\<open>Conventions.\<close> \<open>Upb_Prelude\<close> has the machine types and the result type: \<open>Inr\<close> is a normal return and
  \<open>Inl\<close> a fault, which is a read or write outside an object, a failed \<open>UPB_ASSERT\<close>, an unreachable case,
  a \<open>longjmp\<close> with its status, or fuel that ran out. A theorem of safety says that only the \<open>longjmp\<close> is
  possible. Machine integers are words of their width. Pointers into a buffer are offsets, and pointers
  between objects are indices or nested values. An arena is the sequence of the answers it gives to
  allocations, so that a theorem for all arenas covers every failure of memory.

  \<^bold>\<open>Theories, bottom up.\<close>

  \<^item> \<open>EpsCopy_Stream\<close> models \<open>wire/eps_copy_input_stream.[ch]\<close>: the stream that lets parsers read 16 bytes
    past a position and copies the tail of the input into a patch buffer. Its lemmas relate a stream
    position to a position in the input, across the switch to the patch buffer and nested limits.
  \<^item> \<open>Wire_Reader\<close> models \<open>wire/reader.[ch]\<close> and \<open>wire/internal/reader.h\<close>: varints, tags, sizes and
    skipping; each read is characterised by the bytes it consumes.
  \<^item> \<open>Mini_Table\<close> models \<open>mini_table/\<close>: fields, closed enums, oneofs. Field lookup and enum membership are
    equal to linear scans.
  \<^item> \<open>Message_Model\<close> has messages in memory; \<open>Map_Sorter\<close> models \<open>message/map_sorter.c\<close> and shows that sorted
    output does not depend on the order of the hash table or on the sorting algorithm.
  \<^item> \<open>Wire_Encoder\<close> and \<open>Message_Encoder\<close> model \<open>wire/encode.c\<close>. \<open>Encoder_Spec\<close> is the reference serialiser,
    which appends bytes forwards; \<open>Encoder_Refinement\<close> and \<open>Encoder_Safety\<close> show that the backwards writer with
    its growing buffer returns the same bytes and that it is safe on messages that \<open>Message_Conforms\<close>
    accepts.
  \<^item> \<open>Utf8_Range\<close> models \<open>utf8_range.c\<close>, \<open>naive.c\<close> and \<open>lex/unicode.[ch]\<close>, against the definition of UTF-8.
  \<^item> \<open>Wire_Decoder\<close>, \<open>Field_Decoder\<close> and \<open>Message_Decoder\<close> model \<open>wire/decode.c\<close> and
    \<open>wire/internal/decoder.[ch]\<close>. \<open>Layout_Conforms\<close> is the invariant of a message with respect to its
    layout, \<open>Decoder_Post\<close> the postcondition of a parsing step, \<open>Field_Safety\<close> proves it for fields relative to
    a parser of sub-messages (locale \<open>msg_parser\<close>), and \<open>Decoder_Safety\<close> ties the knot by induction on the
    depth. \<open>Passthrough\<close> composes decoder and encoder.
  \<^item> \<open>Hash_Table\<close> models the base table of \<open>hash/common.c\<close>, a chained scatter table. \<open>Hash_Invariant\<close> has the
    chains as paths through the entries and how each update changes them; \<open>Hash_Correct\<close> shows, for any
    keys that fulfil the locale \<open>hash_keys\<close>, that lookup, insertion, removal and copying refine a map;
    \<open>Hash_Load\<close> adds the load factor and the contract \<open>map_table\<close> of a table towards its users. \<open>Wyhash\<close> is the
    hash function. \<open>Str_Table\<close>, \<open>Int_Table\<close> (with \<open>Int_Correct\<close>, \<open>Int_Compact\<close>, \<open>Int_Props\<close>) and \<open>Ext_Table\<close> model
    the three tables and interpret both locales.
  \<^item> \<open>Message_Map\<close> models \<open>message/map.c\<close> and \<open>message/internal/map.h\<close> on top of the string and integer tables;
    \<open>Map_Correct\<close> relates a map to the function from keys to values that it stands for.
  \<^item> \<open>Message_Array\<close> models \<open>message/array.c\<close> and \<open>message/internal/array.h\<close> down to the bytes and the tag bits of
    the data pointer; \<open>Array_Correct\<close> relates an array to the list of its elements.
  \<^item> \<open>Base92\<close> models the alphabet and the numbers of mini descriptors (\<open>mini_descriptor/internal/base92.[ch]\<close>, part of
    \<open>internal/encode.c\<close>); the three character ranges in use interpret one locale. \<open>Enum_Build\<close> models
    \<open>mini_descriptor/build_enum.c\<close> and the writer of enum descriptors, \<open>Enum_Correct\<close> the values a built table accepts,
    and \<open>Enum_Roundtrip\<close> composes writer, builder and lookup.
  \<^item> \<open>Mini_Decode\<close> models \<open>mini_descriptor/decode.c\<close>: the parser of message descriptors and the passes that assign hasbits,
    offsets and sizes, on 16-bit words as in the code. \<open>Mini_Types\<close> shows that parsed fields are well typed; \<open>Mini_Layout\<close> and
    \<open>Mini_Assign\<close> follow the storage slots through the passes; \<open>Mini_Build\<close> puts them together for every descriptor of at most
    600 fields, a bound that keeps all counts, offsets and hasbits within 15 bits (three slots of at most 16 bytes for each
    field, and the header). The invariants of the parser are interpretations of the locale \<open>parse_invariant\<close>.
    \<open>Mini_Numbers\<close> adds the dense prefix, and \<open>Mini_Link\<close> models \<open>mini_descriptor/link.c\<close> and shows that built and linked tables are
    the layouts for which the decoder is proved safe.

  \<^bold>\<open>Bounds and fuel.\<close> Recursion of the decoder and the encoder is bounded by their own depth limit, and the
  fuel is that limit, so that running out of fuel is excluded by the safety theorems and not assumed
  away. Message-set items, which do not count against the limit of the encoder, get fuel from the
  message itself. Loops over a chain have one step for every entry of the table, and loops over a
  table one for every entry and one more. Loops over input bytes are total functions with a measure.

  \<^bold>\<open>Not modelled.\<close> The fast-table decoder and the SSE and NEON validators (compiled out of the portable
  build); the arena's own blocks, reference counts and fusing (lock-free code; here an arena is its
  sequence of answers); copying, comparing, merging and promoting messages; the writer of message descriptors
  but for enums; JSON, text format and reflection; the tokenizer, which the extension does not contain; the glue to the Zend engine, whose code is not in this repository. Hash-table seeds are
  addresses and are arguments. Alignment of messages and aliasing of string data with the input buffer
  are not represented: a string value is its bytes.
\<close>

end
